(* ===== verification/SB_Prelude.thy ===== *)
theory SB_Prelude
  imports Main "HOL-Library.Word" "HOL-Library.Sublist"
begin

text \<open>
  Shared vocabulary of the development: Rust's \<open>str\<close> and the part of its standard library
  the program calls, the result type with the question-mark operator, and the generic facts
  on lists and results that every component uses.

  A Rust string is a list of Unicode scalar values. \<open>chars().count()\<close> is therefore
  \<open>length\<close>, and \<open>len()\<close>, which counts UTF-8 bytes, is \<open>utf8_len\<close>. The classes
  \<open>char::is_whitespace\<close> and \<open>char::is_control\<close> are written out in full.
\<close>

named_theorems str_simps \<open>evaluation of the string library\<close>
named_theorems res_simps \<open>unfolding of results and of the question-mark operator\<close>

type_synonym uchar = nat
type_synonym str = "uchar list"

definition lit :: "string \<Rightarrow> str" where
  "lit s = map of_char s"

section \<open>Characters\<close>

definition is_whitespace :: "uchar \<Rightarrow> bool" where
  "is_whitespace c \<longleftrightarrow>
     (9 \<le> c \<and> c \<le> 13) \<or> c = 32 \<or> c = 133 \<or> c = 160 \<or> c = 5760 \<or>
     (8192 \<le> c \<and> c \<le> 8202) \<or> c = 8232 \<or> c = 8233 \<or> c = 8239 \<or> c = 8287 \<or> c = 12288"

definition is_control :: "uchar \<Rightarrow> bool" where
  "is_control c \<longleftrightarrow> c < 32 \<or> (127 \<le> c \<and> c < 160)"

definition is_ascii_digit :: "uchar \<Rightarrow> bool" where
  "is_ascii_digit c \<longleftrightarrow> 48 \<le> c \<and> c \<le> 57"

definition is_ascii_lowercase :: "uchar \<Rightarrow> bool" where
  "is_ascii_lowercase c \<longleftrightarrow> 97 \<le> c \<and> c \<le> 122"

definition is_ascii_uppercase :: "uchar \<Rightarrow> bool" where
  "is_ascii_uppercase c \<longleftrightarrow> 65 \<le> c \<and> c \<le> 90"

definition is_ascii_alphabetic :: "uchar \<Rightarrow> bool" where
  "is_ascii_alphabetic c \<longleftrightarrow> is_ascii_lowercase c \<or> is_ascii_uppercase c"

definition is_ascii_alphanumeric :: "uchar \<Rightarrow> bool" where
  "is_ascii_alphanumeric c \<longleftrightarrow> is_ascii_alphabetic c \<or> is_ascii_digit c"

definition char_to_ascii_lower :: "uchar \<Rightarrow> uchar" where
  "char_to_ascii_lower c = (if is_ascii_uppercase c then c + 32 else c)"

definition char_to_ascii_upper :: "uchar \<Rightarrow> uchar" where
  "char_to_ascii_upper c = (if is_ascii_lowercase c then c - 32 else c)"

definition utf8_width :: "uchar \<Rightarrow> nat" where
  "utf8_width c = (if c < 128 then 1 else if c < 2048 then 2 else if c < 65536 then 3 else 4)"

lemmas char_class_defs = is_whitespace_def is_control_def is_ascii_digit_def
  is_ascii_lowercase_def is_ascii_uppercase_def is_ascii_alphabetic_def
  is_ascii_alphanumeric_def

declare char_class_defs [str_simps] char_to_ascii_lower_def [str_simps]
  char_to_ascii_upper_def [str_simps] utf8_width_def [str_simps] lit_def [str_simps]

section \<open>Strings\<close>

definition utf8_len :: "str \<Rightarrow> nat" where
  "utf8_len s = sum_list (map utf8_width s)"

definition trim_start :: "str \<Rightarrow> str" where
  "trim_start s = dropWhile is_whitespace s"

definition trim_end :: "str \<Rightarrow> str" where
  "trim_end s = rev (dropWhile is_whitespace (rev s))"

definition trim :: "str \<Rightarrow> str" where
  "trim s = trim_end (trim_start s)"

definition trim_start_char :: "uchar \<Rightarrow> str \<Rightarrow> str" where
  "trim_start_char c s = dropWhile (\<lambda>x. x = c) s"

definition trim_end_char :: "uchar \<Rightarrow> str \<Rightarrow> str" where
  "trim_end_char c s = rev (dropWhile (\<lambda>x. x = c) (rev s))"

definition strip_prefix :: "str \<Rightarrow> str \<Rightarrow> str option" where
  "strip_prefix p s = (if take (length p) s = p then Some (drop (length p) s) else None)"

definition starts_with :: "str \<Rightarrow> str \<Rightarrow> bool" where
  "starts_with p s \<longleftrightarrow> take (length p) s = p"

definition ends_with :: "str \<Rightarrow> str \<Rightarrow> bool" where
  "ends_with p s \<longleftrightarrow> starts_with (rev p) (rev s)"

definition to_ascii_lower :: "str \<Rightarrow> str" where
  "to_ascii_lower s = map char_to_ascii_lower s"

definition to_ascii_upper :: "str \<Rightarrow> str" where
  "to_ascii_upper s = map char_to_ascii_upper s"

definition eq_ignore_ascii_case :: "str \<Rightarrow> str \<Rightarrow> bool" where
  "eq_ignore_ascii_case a b \<longleftrightarrow> to_ascii_lower a = to_ascii_lower b"

text \<open>\<open>split(c)\<close>: every piece between separators, never an empty list.\<close>

fun split_char :: "uchar \<Rightarrow> str \<Rightarrow> str list" where
  "split_char c [] = [[]]"
| "split_char c (x # xs) =
     (if x = c then [] # split_char c xs
      else (case split_char c xs of [] \<Rightarrow> [[x]] | p # ps \<Rightarrow> (x # p) # ps))"

text \<open>\<open>split("ab")\<close> for a two-character pattern: leftmost, non-overlapping matches.\<close>

fun split_pair :: "uchar \<Rightarrow> uchar \<Rightarrow> str \<Rightarrow> str list" where
  "split_pair a b [] = [[]]"
| "split_pair a b [x] = [[x]]"
| "split_pair a b (x # y # xs) =
     (if x = a \<and> y = b then [] # split_pair a b xs
      else (case split_pair a b (y # xs) of [] \<Rightarrow> [[x]] | p # ps \<Rightarrow> (x # p) # ps))"

text \<open>\<open>split_once(c)\<close>: the text before and after the first separator.\<close>

fun split_once :: "uchar \<Rightarrow> str \<Rightarrow> (str \<times> str) option" where
  "split_once c [] = None"
| "split_once c (x # xs) =
     (if x = c then Some ([], xs)
      else (case split_once c xs of None \<Rightarrow> None | Some (a, b) \<Rightarrow> Some (x # a, b)))"

text \<open>\<open>find(part)\<close>: the offset of the leftmost occurrence.\<close>

fun find_sub :: "str \<Rightarrow> str \<Rightarrow> nat option" where
  "find_sub p [] = (if p = [] then Some 0 else None)"
| "find_sub p (x # xs) =
     (if starts_with p (x # xs) then Some 0 else map_option Suc (find_sub p xs))"

definition contains_sub :: "str \<Rightarrow> str \<Rightarrow> bool" where
  "contains_sub p s \<longleftrightarrow> find_sub p s \<noteq> None"

text \<open>Decimal rendering of an unsigned integer, as \<open>format!\<close> does.\<close>

fun dec_digits :: "nat \<Rightarrow> str" where
  "dec_digits n = (if n < 10 then [48 + n] else dec_digits (n div 10) @ [48 + n mod 10])"

declare dec_digits.simps [simp del]

definition dec_int :: "int \<Rightarrow> str" where
  "dec_int i = (if i < 0 then 45 # dec_digits (nat (- i)) else dec_digits (nat i))"

declare utf8_len_def [str_simps] trim_def [str_simps] trim_start_def [str_simps]
  trim_end_def [str_simps] strip_prefix_def [str_simps] starts_with_def [str_simps]
  trim_start_char_def [str_simps] trim_end_char_def [str_simps] ends_with_def [str_simps]
  to_ascii_lower_def [str_simps] to_ascii_upper_def [str_simps]
  eq_ignore_ascii_case_def [str_simps] contains_sub_def [str_simps] dec_digits.simps [str_simps]
  dec_int_def [str_simps]

lemma lit_Nil [simp]: "lit [] = []"
  by (simp add: lit_def)

lemma length_lit [simp]: "length (lit s) = length s"
  by (simp add: lit_def)

lemma starts_with_iff_prefix: "starts_with p s \<longleftrightarrow> prefix p s"
  by (metis append_take_drop_id prefixI prefix_def starts_with_def append_eq_conv_conj)

lemma strip_prefix_Some_iff: "strip_prefix p s = Some t \<longleftrightarrow> s = p @ t"
  by (auto simp: strip_prefix_def) (metis append_take_drop_id)

lemma strip_prefix_append [simp]: "strip_prefix p (p @ t) = Some t"
  by (simp add: strip_prefix_Some_iff)

lemma strip_prefix_Cons [simp]:
  "strip_prefix [c] (x # xs) = (if x = c then Some xs else None)"
  by (simp add: strip_prefix_def)

lemma strip_prefix_Nil [simp]: "strip_prefix [c] [] = None"
  by (simp add: strip_prefix_def)

lemma starts_with_Cons [simp]: "starts_with [c] (x # xs) \<longleftrightarrow> x = c"
  by (simp add: starts_with_def)

lemma starts_with_single_Nil [simp]: "\<not> starts_with [c] []"
  by (simp add: starts_with_def)

text \<open>Trimming: idempotent, keeps a text with no white space at its ends, only drops.\<close>

lemma dropWhile_no_hd: "xs = [] \<or> \<not> P (hd xs) \<Longrightarrow> dropWhile P xs = xs"
  by (cases xs) auto

lemma dropWhile_result: "dropWhile P xs = [] \<or> \<not> P (hd (dropWhile P xs))"
  by (induction xs) auto

lemma trim_start_result: "trim_start s = [] \<or> \<not> is_whitespace (hd (trim_start s))"
  unfolding trim_start_def by (rule dropWhile_result)

lemma trim_end_result: "trim_end s = [] \<or> \<not> is_whitespace (last (trim_end s))"
  using dropWhile_result [of is_whitespace "rev s"]
  by (auto simp: trim_end_def last_rev)

lemma trim_start_id: "s = [] \<or> \<not> is_whitespace (hd s) \<Longrightarrow> trim_start s = s"
  unfolding trim_start_def by (rule dropWhile_no_hd)

lemma trim_end_id: "s = [] \<or> \<not> is_whitespace (last s) \<Longrightarrow> trim_end s = s"
  by (cases s rule: rev_cases) (auto simp: trim_end_def)

lemma trim_end_prefix: "prefix (trim_end s) s"
proof -
  have "suffix (dropWhile is_whitespace (rev s)) (rev s)"
    by (rule suffix_dropWhile)
  then show ?thesis by (simp add: trim_end_def suffix_to_prefix)
qed

lemma hd_trim_end: "trim_end s \<noteq> [] \<Longrightarrow> hd (trim_end s) = hd s"
  using trim_end_prefix [of s] by (metis hd_append2 prefix_def)

lemma trim_id:
  assumes "s = [] \<or> (\<not> is_whitespace (hd s) \<and> \<not> is_whitespace (last s))"
  shows "trim s = s"
  using assms by (auto simp: trim_def trim_start_id trim_end_id)

lemma trim_ends:
  "trim s = [] \<or> (\<not> is_whitespace (hd (trim s)) \<and> \<not> is_whitespace (last (trim s)))"
proof (cases "trim s = []")
  case True
  then show ?thesis by simp
next
  case False
  then have "trim_start s \<noteq> []" by (auto simp: trim_def trim_end_def)
  with False show ?thesis
    using trim_start_result [of s] trim_end_result [of "trim_start s"]
      hd_trim_end [of "trim_start s"]
    by (auto simp: trim_def)
qed

lemma trim_eq_Nil_iff: "trim s = [] \<longleftrightarrow> (\<forall>c \<in> set s. is_whitespace c)"
proof
  assume t: "trim s = []"
  have "trim_start s = []"
  proof (rule ccontr)
    assume ne: "trim_start s \<noteq> []"
    then have h: "\<not> is_whitespace (hd (trim_start s))" using trim_start_result [of s] by blast
    from t have "dropWhile is_whitespace (rev (trim_start s)) = []"
      by (simp add: trim_def trim_end_def)
    then have "\<forall>c \<in> set (trim_start s). is_whitespace c" by (simp add: dropWhile_eq_Nil_conv)
    with h ne show False by simp
  qed
  then show "\<forall>c \<in> set s. is_whitespace c" by (simp add: trim_start_def dropWhile_eq_Nil_conv)
next
  assume "\<forall>c \<in> set s. is_whitespace c"
  then have "trim_start s = []" by (simp add: trim_start_def dropWhile_eq_Nil_conv)
  then show "trim s = []" by (simp add: trim_def trim_end_def)
qed

lemma trim_trim [simp]: "trim (trim s) = trim s"
  using trim_ends [of s] by (intro trim_id)

lemma trim_no_whitespace: "(\<forall>c \<in> set s. \<not> is_whitespace c) \<Longrightarrow> trim s = s"
  by (rule trim_id) (cases s; auto)

lemma set_trim: "set (trim s) \<subseteq> set s"
  unfolding trim_def trim_end_def trim_start_def
  by (auto dest!: set_dropWhileD)

lemma length_trim: "length (trim s) \<le> length s"
  unfolding trim_def trim_end_def trim_start_def
  by (metis length_dropWhile_le length_rev le_trans)

lemma trim_Nil [simp]: "trim [] = []"
  by (simp add: trim_def trim_start_def trim_end_def)

text \<open>UTF-8 lengths\<close>

lemma utf8_width_bounds: "1 \<le> utf8_width c" "utf8_width c \<le> 4"
  by (simp_all add: utf8_width_def)

lemma utf8_len_append [simp]: "utf8_len (a @ b) = utf8_len a + utf8_len b"
  by (simp add: utf8_len_def)

lemma utf8_len_Nil [simp]: "utf8_len [] = 0"
  by (simp add: utf8_len_def)

lemma utf8_len_Cons [simp]: "utf8_len (c # s) = utf8_width c + utf8_len s"
  by (simp add: utf8_len_def)

lemma utf8_len_eq_0 [simp]: "utf8_len s = 0 \<longleftrightarrow> s = []"
  by (cases s) (auto simp: utf8_width_def split: if_splits)

lemma utf8_len_ascii: "(\<forall>c \<in> set s. c < 128) \<Longrightarrow> utf8_len s = length s"
  by (induction s) (auto simp: utf8_width_def)

lemma utf8_len_ge_length: "length s \<le> utf8_len s"
proof (induction s)
  case (Cons c s)
  then show ?case using utf8_width_bounds(1) [of c] by simp
qed simp

text \<open>Two prefixes of one text with the same byte length are the same text.\<close>

lemma utf8_prefix_unique:
  assumes "a @ s = b @ t" "utf8_len a = utf8_len b"
  shows "a = b \<and> s = t"
proof -
  from assms(1) consider us where "a = b @ us" | us where "b = a @ us"
    by (auto simp: append_eq_append_conv2)
  then have "a = b"
    using assms(2) by cases auto
  with assms(1) show ?thesis by simp
qed

text \<open>Splitting: a separator-free piece stays whole.\<close>

lemma split_char_not_Nil [simp]: "split_char c s \<noteq> []"
  by (induction s) (auto split: list.splits)

lemma split_pair_not_Nil [simp]: "split_pair a b s \<noteq> []"
  by (induction a b s rule: split_pair.induct) (auto split: list.splits)

lemma split_once_Some_iff:
  "split_once c s = Some (a, b) \<longleftrightarrow> s = a @ c # b \<and> c \<notin> set a"
proof (induction s arbitrary: a)
  case Nil
  then show ?case by simp
next
  case (Cons x xs)
  show ?case
  proof (cases "x = c")
    case True
    then show ?thesis by (cases a) auto
  next
    case False
    show ?thesis
    proof (cases a)
      case Nil
      with False show ?thesis by (auto split: option.splits)
    next
      case (Cons y ys)
      with False Cons.IH [of ys] show ?thesis by (auto split: option.splits)
    qed
  qed
qed

lemma split_once_None_iff: "split_once c s = None \<longleftrightarrow> c \<notin> set s"
  by (induction s) (auto split: option.splits)

lemma find_sub_Some:
  "find_sub p s = Some i \<Longrightarrow> i + length p \<le> length s \<and> take (length p) (drop i s) = p"
proof (induction s arbitrary: i)
  case Nil
  then show ?case by (auto split: if_splits)
next
  case (Cons x xs)
  show ?case
  proof (cases "starts_with p (x # xs)")
    case True
    with Cons.prems have "i = 0" by simp
    moreover have "length p \<le> length (x # xs)"
      using True by (simp add: starts_with_def) (metis length_take min.cobounded1 list.size(4) length_Cons)
    ultimately show ?thesis using True by (simp add: starts_with_def)
  next
    case False
    with Cons.prems obtain j where "i = Suc j" "find_sub p xs = Some j" by auto
    with Cons.IH show ?thesis by auto
  qed
qed

lemma find_sub_least:
  "take (length p) (drop i s) = p \<Longrightarrow> i \<le> length s \<Longrightarrow>
   \<exists>j \<le> i. find_sub p s = Some j"
proof (induction s arbitrary: i)
  case Nil
  then show ?case by auto
next
  case (Cons x xs)
  show ?case
  proof (cases "starts_with p (x # xs)")
    case True
    then show ?thesis by auto
  next
    case False
    with Cons.prems obtain k where i: "i = Suc k"
      by (cases i) (auto simp: starts_with_def)
    with Cons.prems obtain j where "j \<le> k" "find_sub p xs = Some j"
      using Cons.IH [of k] by auto
    with False i show ?thesis by auto
  qed
qed

text \<open>Decimal rendering is injective and never contains a bracket.\<close>

lemma dec_digits_set: "c \<in> set (dec_digits n) \<Longrightarrow> 48 \<le> c \<and> c \<le> 57"
proof (induction n rule: dec_digits.induct)
  case (1 n)
  then show ?case by (cases "n < 10") (auto simp: dec_digits.simps [of n])
qed

definition dec_value :: "str \<Rightarrow> nat" where
  "dec_value s = foldl (\<lambda>v c. 10 * v + (c - 48)) 0 s"

lemma dec_value_snoc [simp]: "dec_value (s @ [c]) = 10 * dec_value s + (c - 48)"
  by (simp add: dec_value_def)

lemma dec_value_Nil [simp]: "dec_value [] = 0"
  by (simp add: dec_value_def)

lemma dec_value_dec_digits: "dec_value (dec_digits n) = n"
proof (induction n rule: dec_digits.induct)
  case (1 n)
  show ?case
  proof (cases "n < 10")
    case True
    then show ?thesis by (simp add: dec_digits.simps [of n] dec_value_def)
  next
    case False
    with 1 have "dec_value (dec_digits n) = 10 * (n div 10) + n mod 10"
      by (subst dec_digits.simps) simp
    then show ?thesis by simp
  qed
qed

lemma dec_digits_inject [simp]: "dec_digits m = dec_digits n \<longleftrightarrow> m = n"
  by (metis dec_value_dec_digits)

text \<open>Two texts of digits ended by the same non-digit split at the same place.\<close>

lemma digits_delimited_unique:
  assumes "dec_digits m @ d # s = dec_digits n @ d # t" and "\<not> (48 \<le> d \<and> d \<le> 57)"
  shows "m = n \<and> s = t"
proof -
  have "takeWhile (\<lambda>c. c \<noteq> d) (dec_digits k @ d # u) = dec_digits k" for k u
    using assms(2) dec_digits_set [of _ k]
    by (subst takeWhile_append2) (auto)
  with assms(1) have "dec_digits m = dec_digits n" by metis
  with assms(1) show ?thesis by simp
qed

section \<open>Results\<close>

text \<open>
  \<open>Result<T, E>\<close> is the sum \<open>'e + 'a\<close> with \<open>Inl\<close> for \<open>Err\<close>. \<open>tryE m f\<close> is
  \<open>let x = m?; f(x)\<close>, and \<open>guardE c e\<close> is \<open>if !c { return Err(e) }\<close>.
\<close>

definition tryE :: "'e + 'a \<Rightarrow> ('a \<Rightarrow> 'e + 'b) \<Rightarrow> 'e + 'b" where
  "tryE m f = (case m of Inl e \<Rightarrow> Inl e | Inr x \<Rightarrow> f x)"

definition guardE :: "bool \<Rightarrow> 'e \<Rightarrow> 'e + unit" where
  "guardE c e = (if c then Inr () else Inl e)"

definition map_err :: "('e \<Rightarrow> 'f) \<Rightarrow> 'e + 'a \<Rightarrow> 'f + 'a" where
  "map_err g m = (case m of Inl e \<Rightarrow> Inl (g e) | Inr x \<Rightarrow> Inr x)"

definition ok_or :: "'e \<Rightarrow> 'a option \<Rightarrow> 'e + 'a" where
  "ok_or e m = (case m of None \<Rightarrow> Inl e | Some x \<Rightarrow> Inr x)"

definition is_ok :: "'e + 'a \<Rightarrow> bool" where
  "is_ok m \<longleftrightarrow> (case m of Inl _ \<Rightarrow> False | Inr _ \<Rightarrow> True)"

text \<open>\<open>collect::<Result<Vec<_>, _>>()\<close> over a fallible step: stops at the first error.\<close>

fun traverseE :: "('a \<Rightarrow> 'e + 'b) \<Rightarrow> 'a list \<Rightarrow> 'e + 'b list" where
  "traverseE f [] = Inr []"
| "traverseE f (x # xs) =
     (case f x of Inl e \<Rightarrow> Inl e
      | Inr y \<Rightarrow> (case traverseE f xs of Inl e \<Rightarrow> Inl e | Inr ys \<Rightarrow> Inr (y # ys)))"

text \<open>A loop \<open>for x in xs { step(x)? }\<close> that only checks.\<close>

fun checkallE :: "('a \<Rightarrow> 'e + 'b) \<Rightarrow> 'a list \<Rightarrow> 'e + unit" where
  "checkallE f [] = Inr ()"
| "checkallE f (x # xs) = (case f x of Inl e \<Rightarrow> Inl e | Inr _ \<Rightarrow> checkallE f xs)"

lemma tryE_simps [simp]: "tryE (Inl e) f = Inl e" "tryE (Inr x) f = f x"
  by (simp_all add: tryE_def)

lemma tryE_Inr_iff [simp]: "tryE m f = Inr y \<longleftrightarrow> (\<exists>x. m = Inr x \<and> f x = Inr y)"
  by (cases m) auto

lemma tryE_Inl_iff:
  "tryE m f = Inl e \<longleftrightarrow> m = Inl e \<or> (\<exists>x. m = Inr x \<and> f x = Inl e)"
  by (cases m) auto

lemma tryE_split:
  "P (tryE m f) \<longleftrightarrow> (\<forall>e. m = Inl e \<longrightarrow> P (Inl e)) \<and> (\<forall>x. m = Inr x \<longrightarrow> P (f x))"
  by (cases m) auto

lemma guardE_simps [simp]:
  "guardE c e = Inr u \<longleftrightarrow> c" "guardE c e = Inl e' \<longleftrightarrow> \<not> c \<and> e' = e"
  "guardE True e = Inr ()" "guardE False e = Inl e"
  by (auto simp: guardE_def)

lemma map_err_simps [simp]:
  "map_err g (Inl e) = Inl (g e)" "map_err g (Inr x) = Inr x"
  "map_err g m = Inr y \<longleftrightarrow> m = Inr y"
  by (auto simp: map_err_def split: sum.splits)

lemma map_err_Inl_iff: "map_err g m = Inl e \<longleftrightarrow> (\<exists>e'. m = Inl e' \<and> e = g e')"
  by (cases m) auto

lemma ok_or_simps [simp]:
  "ok_or e None = Inl e" "ok_or e (Some x) = Inr x"
  "ok_or e m = Inr y \<longleftrightarrow> m = Some y"
  by (auto simp: ok_or_def split: option.splits)

lemma is_ok_simps [simp]: "is_ok (Inl e) \<longleftrightarrow> False" "is_ok (Inr x) \<longleftrightarrow> True"
  by (simp_all add: is_ok_def)

lemma is_ok_iff: "is_ok m \<longleftrightarrow> (\<exists>x. m = Inr x)"
  by (cases m) auto

lemma traverseE_Inr_iff:
  "traverseE f xs = Inr ys \<longleftrightarrow> list_all2 (\<lambda>x y. f x = Inr y) xs ys"
proof (induction xs arbitrary: ys)
  case Nil
  then show ?case by auto
next
  case (Cons x xs)
  show ?case
  proof (cases "traverseE f xs")
    case (Inl e)
    with Cons.IH have "\<not> list_all2 (\<lambda>x y. f x = Inr y) xs zs" for zs by simp
    with Inl show ?thesis by (cases ys) (auto split: sum.splits)
  next
    case (Inr zs)
    with Cons.IH have "list_all2 (\<lambda>x y. f x = Inr y) xs us \<longleftrightarrow> zs = us" for us by simp
    with Inr show ?thesis by (cases ys) (auto split: sum.splits)
  qed
qed

lemma checkallE_Inr_iff [simp]: "checkallE f xs = Inr u \<longleftrightarrow> (\<forall>x \<in> set xs. is_ok (f x))"
  by (induction xs) (auto simp: is_ok_iff split: sum.splits)

lemma traverseE_append:
  "traverseE f (xs @ ys) =
     tryE (traverseE f xs) (\<lambda>as. tryE (traverseE f ys) (\<lambda>bs. Inr (as @ bs)))"
  by (induction xs) (auto simp: tryE_def split: sum.splits)

declare tryE_def [res_simps] guardE_def [res_simps] map_err_def [res_simps]
  ok_or_def [res_simps] is_ok_def [res_simps]

section \<open>Runs of a step relation\<close>

text \<open>The components with a state are step relations labelled by their events.\<close>

inductive run :: "('e \<Rightarrow> 's \<Rightarrow> 's \<Rightarrow> bool) \<Rightarrow> 's \<Rightarrow> 'e list \<Rightarrow> 's \<Rightarrow> bool" for step where
  run_nil: "run step s [] s"
| run_snoc: "run step s es s' \<Longrightarrow> step e s' s'' \<Longrightarrow> run step s (es @ [e]) s''"

locale step_system =
  fixes start :: "'s \<Rightarrow> bool" and step :: "'e \<Rightarrow> 's \<Rightarrow> 's \<Rightarrow> bool" and inv :: "'s \<Rightarrow> bool"
  assumes start_inv: "start s \<Longrightarrow> inv s"
    and step_inv: "step e s s' \<Longrightarrow> inv s \<Longrightarrow> inv s'"
begin

lemma run_inv: "run step s es s' \<Longrightarrow> inv s \<Longrightarrow> inv s'"
  by (induction rule: run.induct) (auto intro: step_inv)

lemma reachable_inv: "start s \<Longrightarrow> run step s es s' \<Longrightarrow> inv s'"
  using run_inv start_inv by blast

end

end
