(* ===== verification/SB_Validation.thy ===== *)
theory SB_Validation
  imports SB_Prelude
begin

text \<open>
  Input validation of the shared crate (\<open>src/crates/shared/src/validation.rs\<close>) and the
  identities of \<open>model.rs\<close>. The \<open>uuid\<close> crate is a parameter, the record \<open>uuid_api\<close>;
  what the code relies on is \<open>uuid_api_ok\<close>, the documented shape of its hyphenated form.
\<close>

section \<open>Errors and the field checks\<close>

type_synonym label = string

datatype validation_error =
    VRequired label
  | VTooLong label nat
  | VTooMany label nat
  | VOutOfRange label nat nat
  | VInvalid label string
  | VConflict label label

definition MAX_IDENTIFIER_CHARS :: nat where
  "MAX_IDENTIFIER_CHARS = 512"

definition required_field :: "str \<Rightarrow> label \<Rightarrow> validation_error + unit" where
  "required_field value field = (if trim value = [] then Inl (VRequired field) else Inr ())"

definition bounded :: "str \<Rightarrow> label \<Rightarrow> nat \<Rightarrow> validation_error + unit" where
  "bounded value field mx =
     tryE (required_field value field) (\<lambda>_.
       if length value > mx then Inl (VTooLong field mx) else Inr ())"

definition collection_len :: "nat \<Rightarrow> label \<Rightarrow> nat \<Rightarrow> validation_error + unit" where
  "collection_len len field mx = (if len > mx then Inl (VTooMany field mx) else Inr ())"

definition unsafe_id_char :: "uchar \<Rightarrow> bool" where
  "unsafe_id_char ch \<longleftrightarrow> is_control ch \<or> is_whitespace ch \<or> ch = 47 \<or> ch = 92"

definition safe_identifier :: "str \<Rightarrow> label \<Rightarrow> validation_error + unit" where
  "safe_identifier value field =
     tryE (bounded value field MAX_IDENTIFIER_CHARS) (\<lambda>_.
       if list_ex unsafe_id_char value
       then Inl (VInvalid field
              ''must not contain whitespace, control characters, or path separators'')
       else Inr ())"

section \<open>Handles, account identifiers and token families\<close>

datatype identity_kind = Carbon | Silicon

definition handle_byte :: "uchar \<Rightarrow> bool" where
  "handle_byte b \<longleftrightarrow> is_ascii_lowercase b \<or> is_ascii_digit b \<or> b = 95 \<or> b = 45"

definition actor_id :: "str \<Rightarrow> label \<Rightarrow> validation_error + identity_kind" where
  "actor_id value field =
     (let parsed =
        (case strip_prefix (lit ''c:'') value of
           Some handle \<Rightarrow> Some (handle, 30, Carbon)
         | None \<Rightarrow> (case strip_prefix (lit ''si:'') value of
             Some handle \<Rightarrow> Some (handle, 30, Silicon)
           | None \<Rightarrow> None))
      in case parsed of
           Some (handle, mx, kind) \<Rightarrow>
             if 3 \<le> utf8_len handle \<and> utf8_len handle \<le> mx \<and> list_all handle_byte handle
             then Inr kind
             else Inl (VInvalid field ''expected c:<carbon-handle> or si:<silicon-handle>'')
         | None \<Rightarrow> Inl (VInvalid field ''expected c:<carbon-handle> or si:<silicon-handle>''))"

record 'u uuid_api =
  uuid_parse :: "str \<Rightarrow> 'u option"
  uuid_version :: "'u \<Rightarrow> nat"
  uuid_rfc4122 :: "'u \<Rightarrow> bool"
  uuid_hyphenated :: "'u \<Rightarrow> str"

text \<open>A parser that recognises nothing; concrete instances use it where no UUID occurs.\<close>

definition no_uuids :: "unit uuid_api" where
  "no_uuids = \<lparr>uuid_parse = (\<lambda>_. None), uuid_version = (\<lambda>_. 4), uuid_rfc4122 = (\<lambda>_. True),
     uuid_hyphenated = (\<lambda>_. [])\<rparr>"

definition canonical_account_uuid :: "'u uuid_api \<Rightarrow> str \<Rightarrow> bool" where
  "canonical_account_uuid u value \<longleftrightarrow>
     utf8_len value = 36 \<and>
     (case uuid_parse u value of
        None \<Rightarrow> False
      | Some i \<Rightarrow> uuid_version u i = 4 \<and> uuid_rfc4122 u i \<and> uuid_hyphenated u i = value)"

definition account_id :: "'u uuid_api \<Rightarrow> str \<Rightarrow> label \<Rightarrow> validation_error + unit" where
  "account_id u value field =
     (if canonical_account_uuid u value then Inr ()
      else Inl (VInvalid field ''expected a canonical lowercase Silicon Accounts UUIDv4''))"

definition token_byte :: "uchar \<Rightarrow> bool" where
  "token_byte b \<longleftrightarrow> is_ascii_alphanumeric b \<or> b = 95 \<or> b = 45"

definition accounts_access_token :: "str \<Rightarrow> bool" where
  "accounts_access_token value \<longleftrightarrow>
     utf8_len value \<le> 16 * 1024 \<and>
     length (split_char 46 value) = 3 \<and>
     list_all (\<lambda>part. part \<noteq> [] \<and> list_all token_byte part) (split_char 46 value)"

definition app_id :: "str \<Rightarrow> label \<Rightarrow> validation_error + unit" where
  "app_id value field =
     (if 1 \<le> utf8_len value \<and> utf8_len value \<le> 80 \<and>
         (case value of [] \<Rightarrow> False | b # _ \<Rightarrow> is_ascii_lowercase b) \<and>
         list_all handle_byte value
      then Inr ()
      else Inl (VInvalid field ''expected a bare application ID''))"

section \<open>Identities\<close>

record identity =
  i_id :: str
  i_name :: str
  i_kind :: identity_kind
  i_tags :: "str list"
  i_aliases :: "str list"

definition same_principal :: "str \<Rightarrow> str \<Rightarrow> bool" where
  "same_principal left right \<longleftrightarrow>
     trim_start_char 64 (trim left) = trim_start_char 64 (trim right)"

definition matches_principal :: "identity \<Rightarrow> str \<Rightarrow> bool" where
  "matches_principal i p \<longleftrightarrow>
     same_principal (i_id i) p \<or> list_ex (\<lambda>a. same_principal a p) (i_aliases i)"

definition principal_ids :: "identity \<Rightarrow> str list" where
  "principal_ids i = i_id i # i_aliases i"

definition identity_validate :: "'u uuid_api \<Rightarrow> identity \<Rightarrow> validation_error + unit" where
  "identity_validate u i = account_id u (i_id i) ''identity.id''"

section \<open>What the checks guarantee\<close>

lemma required_field_ok [simp]: "required_field v f = Inr x \<longleftrightarrow> trim v \<noteq> []"
  by (simp add: required_field_def)

lemma bounded_ok [simp]: "bounded v f n = Inr x \<longleftrightarrow> trim v \<noteq> [] \<and> length v \<le> n"
  by (auto simp: bounded_def)

lemma collection_len_ok [simp]: "collection_len n f m = Inr x \<longleftrightarrow> n \<le> m"
  by (simp add: collection_len_def not_less)

lemma identifier_ok_iff:
  "safe_identifier v f = Inr x \<longleftrightarrow> v \<noteq> [] \<and> length v \<le> 512 \<and> (\<forall>c \<in> set v. \<not> unsafe_id_char c)"
proof -
  have "(\<forall>c \<in> set v. \<not> unsafe_id_char c) \<Longrightarrow> trim v = v"
    by (rule trim_no_whitespace) (auto simp: unsafe_id_char_def)
  then show ?thesis
    by (auto simp: safe_identifier_def MAX_IDENTIFIER_CHARS_def list_ex_iff)
qed

lemma identifier_no_whitespace:
  assumes "safe_identifier v f = Inr x" and "c \<in> set v"
  shows "\<not> is_whitespace c" "\<not> is_control c" "c \<noteq> 47" "c \<noteq> 92"
  using assms by (auto simp: identifier_ok_iff unsafe_id_char_def)

lemma handle_byte_ascii: "handle_byte b \<Longrightarrow> b < 128"
  by (auto simp: handle_byte_def char_class_defs)

lemma handle_byte_safe: "handle_byte b \<Longrightarrow> \<not> unsafe_id_char b \<and> b \<noteq> 64 \<and> b \<noteq> 58"
  by (auto simp: handle_byte_def unsafe_id_char_def char_class_defs)

lemma handle_utf8_len: "list_all handle_byte h \<Longrightarrow> utf8_len h = length h"
  by (rule utf8_len_ascii) (auto simp: list_all_iff dest: handle_byte_ascii)

definition kind_prefix :: "identity_kind \<Rightarrow> str" where
  "kind_prefix k = (case k of Carbon \<Rightarrow> lit ''c:'' | Silicon \<Rightarrow> lit ''si:'')"

lemma kind_prefix_simps [simp]:
  "kind_prefix Carbon = [99, 58]" "kind_prefix Silicon = [115, 105, 58]"
  by (simp_all add: kind_prefix_def lit_def)

lemma lit_prefixes [simp]: "lit ''c:'' = [99, 58]" "lit ''si:'' = [115, 105, 58]"
  by (simp_all add: lit_def)

lemma strip_c_si: "strip_prefix [99, 58] v = Some h \<Longrightarrow> strip_prefix [115, 105, 58] v = None"
  by (cases "strip_prefix [115, 105, 58] v") (auto simp: strip_prefix_Some_iff)

lemma actor_id_characterised:
  "actor_id v f = Inr k \<longleftrightarrow>
     (\<exists>h. v = kind_prefix k @ h \<and> 3 \<le> length h \<and> length h \<le> 30 \<and> list_all handle_byte h)"
proof (cases "strip_prefix [99, 58] v")
  case (Some h)
  then have v: "v = [99, 58] @ h" by (simp add: strip_prefix_Some_iff)
  with Some show ?thesis
    by (cases k) (auto simp: actor_id_def handle_utf8_len)
next
  case None
  show ?thesis
  proof (cases "strip_prefix [115, 105, 58] v")
    case (Some h)
    then have v: "v = [115, 105, 58] @ h" by (simp add: strip_prefix_Some_iff)
    with None Some show ?thesis
      by (cases k) (auto simp: actor_id_def handle_utf8_len)
  next
    case none: None
    have "v \<noteq> [99, 58] @ h" "v \<noteq> [115, 105, 58] @ h" for h
      using None none by (metis option.distinct(1) strip_prefix_append)+
    with None none show ?thesis by (cases k) (auto simp: actor_id_def)
  qed
qed

text \<open>
  The documented hyphenated form: 36 characters, lowercase hexadecimal digits and hyphens.
\<close>

definition uuid_char :: "uchar \<Rightarrow> bool" where
  "uuid_char c \<longleftrightarrow> is_ascii_digit c \<or> (97 \<le> c \<and> c \<le> 102) \<or> c = 45"

definition uuid_api_ok :: "'u uuid_api \<Rightarrow> bool" where
  "uuid_api_ok u \<longleftrightarrow>
     (\<forall>i. length (uuid_hyphenated u i) = 36 \<and> list_all uuid_char (uuid_hyphenated u i))"

lemma canonical_uuid_shape:
  assumes "uuid_api_ok u" "canonical_account_uuid u v"
  shows "length v = 36" "list_all uuid_char v"
  using assms by (auto simp: canonical_account_uuid_def uuid_api_ok_def split: option.splits)

lemma account_id_ok [simp]: "account_id u v f = Inr x \<longleftrightarrow> canonical_account_uuid u v"
  by (simp add: account_id_def)

lemma uuid_char_safe: "uuid_char c \<Longrightarrow> \<not> unsafe_id_char c \<and> c \<noteq> 64 \<and> c \<noteq> 58 \<and> c < 128"
  by (auto simp: uuid_char_def unsafe_id_char_def char_class_defs)

text \<open>An account identifier is a safe identifier, and never a public handle.\<close>

lemma account_id_is_identifier:
  assumes "uuid_api_ok u" "canonical_account_uuid u v"
  shows "safe_identifier v f = Inr ()"
  using canonical_uuid_shape [OF assms]
  by (auto simp: identifier_ok_iff list_all_iff dest: uuid_char_safe)

lemma account_id_not_handle:
  assumes "uuid_api_ok u" "canonical_account_uuid u v"
  shows "actor_id v f \<noteq> Inr k"
proof
  assume "actor_id v f = Inr k"
  then have "58 \<in> set v" by (cases k) (auto simp: actor_id_characterised)
  with canonical_uuid_shape(2) [OF assms] show False
    by (auto simp: list_all_iff dest: uuid_char_safe)
qed

lemma same_principal_refl [simp]: "same_principal a a"
  by (simp add: same_principal_def)

lemma same_principal_sym: "same_principal a b \<Longrightarrow> same_principal b a"
  by (simp add: same_principal_def)

lemma same_principal_trans: "same_principal a b \<Longrightarrow> same_principal b c \<Longrightarrow> same_principal a c"
  by (simp add: same_principal_def)

lemma matches_principal_own_id [simp]: "matches_principal i (i_id i)"
  by (simp add: matches_principal_def)

lemma matches_principal_iff:
  "matches_principal i p \<longleftrightarrow> (\<exists>q \<in> set (principal_ids i). same_principal q p)"
  by (auto simp: matches_principal_def principal_ids_def list_ex_iff)

text \<open>The token families: three dot-separated segments of URL-safe characters.\<close>

lemma split_char_join:
  "concat (map (\<lambda>p. c # p) (split_char c s)) = c # s"
  by (induction s) (auto split: list.splits)

lemma split_char_no_sep: "p \<in> set (split_char c s) \<Longrightarrow> c \<notin> set p"
proof (induction s arbitrary: p)
  case (Cons x xs)
  then show ?case by (cases "split_char c xs") (auto split: if_splits)
qed simp

lemma accounts_access_token_shape:
  assumes "accounts_access_token t"
  obtains h p s where "t = h @ [46] @ p @ [46] @ s" "h \<noteq> []" "p \<noteq> []" "s \<noteq> []"
    "list_all token_byte (h @ p @ s)"
proof -
  from assms obtain h p s where sp: "split_char 46 t = [h, p, s]"
    by (auto simp: accounts_access_token_def length_Suc_conv numeral_3_eq_3)
  have "46 # t = concat (map (\<lambda>p. 46 # p) (split_char 46 t))"
    by (rule split_char_join [symmetric])
  with sp have "t = h @ [46] @ p @ [46] @ s" by simp
  moreover have "h \<noteq> []" "p \<noteq> []" "s \<noteq> []" "list_all token_byte (h @ p @ s)"
    using assms sp by (auto simp: accounts_access_token_def)
  ultimately show ?thesis by (rule that)
qed

end
