(* ===== verification/SB_Access.thy ===== *)
theory SB_Access
  imports SB_Validation
begin

text \<open>
  Access lists (\<open>src/crates/shared/src/access.rs\<close>): the normalised union of principals
  (an at sign and an identifier) and tags that decides who may use a profile.
\<close>

section \<open>Normalisation\<close>

type_synonym access_list = "str list"

definition MAX_ENTRIES :: nat where "MAX_ENTRIES = 256"

definition MAX_ENTRY_CHARS :: nat where "MAX_ENTRY_CHARS = MAX_IDENTIFIER_CHARS"

definition invalid_access :: validation_error where
  "invalid_access = VInvalid ''access''
     ''expected @principal or a tag without whitespace, controls, commas, or brackets''"

definition has_access_delimiter :: "str \<Rightarrow> bool" where
  "has_access_delimiter value = list_ex (\<lambda>ch. ch = 44 \<or> ch = 91 \<or> ch = 93) value"

definition canonical_principal :: "str \<Rightarrow> validation_error + str" where
  "canonical_principal value =
     (let v = (case strip_prefix [64] (trim value) of None \<Rightarrow> trim value | Some r \<Rightarrow> r)
      in tryE (safe_identifier v ''access'') (\<lambda>_.
           if starts_with [64] v \<or> has_access_delimiter v then Inl invalid_access
           else Inr (64 # v)))"

definition normalize_entry :: "str \<Rightarrow> validation_error + str" where
  "normalize_entry raw =
     (let value = trim raw in
      if value = [] \<or> has_access_delimiter value then Inl invalid_access
      else case strip_prefix [64] value of
        Some prin \<Rightarrow>
          if starts_with [64] prin then Inl invalid_access
          else canonical_principal prin
      | None \<Rightarrow>
          if length value > MAX_ENTRY_CHARS then Inl (VTooLong ''access'' MAX_ENTRY_CHARS)
          else if list_ex (\<lambda>ch. is_whitespace ch \<or> is_control ch) value then Inl invalid_access
          else Inr value)"

text \<open>The loop of \<open>AccessList::new\<close>: the running index, the entries seen, the entries kept.\<close>

fun access_new_loop ::
  "nat \<Rightarrow> str set \<Rightarrow> str list \<Rightarrow> str list \<Rightarrow> validation_error + access_list" where
  "access_new_loop index seen normalized [] = Inr normalized"
| "access_new_loop index seen normalized (entry # entries) =
     tryE (collection_len (index + 1) ''access'' MAX_ENTRIES) (\<lambda>_.
     tryE (normalize_entry entry) (\<lambda>e.
       if e \<in> seen then access_new_loop (index + 1) seen normalized entries
       else access_new_loop (index + 1) (insert e seen) (normalized @ [e]) entries))"

definition access_new :: "str list \<Rightarrow> validation_error + access_list" where
  "access_new entries = access_new_loop 0 {} [] entries"

definition with_owner :: "str \<Rightarrow> str list \<Rightarrow> validation_error + access_list" where
  "with_owner owner_id entries =
     tryE (canonical_principal owner_id) (\<lambda>owner.
     tryE (access_new entries) (\<lambda>es.
       access_new (owner # filter (\<lambda>entry. entry \<noteq> owner) es)))"

definition normalized_with_owner :: "access_list \<Rightarrow> str \<Rightarrow> validation_error + access_list" where
  "normalized_with_owner self owner_id = with_owner owner_id self"

section \<open>Decisions\<close>

definition allows_principal_and_tags :: "access_list \<Rightarrow> str \<Rightarrow> str list \<Rightarrow> bool" where
  "allows_principal_and_tags self principal_id tags =
     (case canonical_principal principal_id of
        Inl _ \<Rightarrow> False
      | Inr prin \<Rightarrow>
          list_ex (\<lambda>grant. grant = prin \<or>
            (\<not> starts_with [64] grant \<and> list_ex (\<lambda>tag. trim tag = grant) tags)) self)"

definition allows :: "access_list \<Rightarrow> identity \<Rightarrow> bool" where
  "allows self i =
     list_ex (\<lambda>principal_id. allows_principal_and_tags self principal_id (i_tags i)) (principal_ids i)"

definition contains_principal :: "access_list \<Rightarrow> str \<Rightarrow> bool" where
  "contains_principal self principal_id =
     (case canonical_principal principal_id of
        Inl _ \<Rightarrow> False | Inr prin \<Rightarrow> prin \<in> set self)"

definition access_validate :: "'u uuid_api \<Rightarrow> access_list \<Rightarrow> validation_error + unit" where
  "access_validate u self =
     tryE (collection_len (length self) ''access'' MAX_ENTRIES) (\<lambda>_.
       checkallE (\<lambda>entry.
         tryE (normalize_entry entry) (\<lambda>e.
           case strip_prefix [64] e of
             Some prin \<Rightarrow>
               if is_ok (account_id u prin ''access'') then Inr ()
               else tryE (actor_id prin ''access'') (\<lambda>_. Inr ())
           | None \<Rightarrow> Inr ())) self)"

section \<open>Normal entries\<close>

definition normal_principal :: "str \<Rightarrow> bool" where
  "normal_principal v \<longleftrightarrow>
     safe_identifier v ''access'' = Inr () \<and> \<not> starts_with [64] v \<and> \<not> has_access_delimiter v"

lemma canonical_principal_Inr:
  "canonical_principal p = Inr e \<Longrightarrow> \<exists>v. e = 64 # v \<and> normal_principal v"
  by (auto simp: canonical_principal_def normal_principal_def Let_def split: if_splits option.splits)

lemma normal_principal_trim: "normal_principal v \<Longrightarrow> trim v = v"
  by (rule trim_no_whitespace)
     (auto simp: normal_principal_def dest: identifier_no_whitespace)

lemma canonical_of_normal: "normal_principal v \<Longrightarrow> canonical_principal v = Inr (64 # v)"
  using normal_principal_trim [of v]
  by (cases v) (auto simp: canonical_principal_def normal_principal_def Let_def)

lemma at_not_whitespace [simp]: "\<not> is_whitespace 64"
  by (simp add: is_whitespace_def)

lemma normal_principal_nonempty: "normal_principal v \<Longrightarrow> v \<noteq> []"
  by (auto simp: normal_principal_def identifier_ok_iff)

lemma trim_at_normal: "normal_principal v \<Longrightarrow> trim (64 # v) = 64 # v"
  using normal_principal_nonempty [of v]
    last_in_set [of v] identifier_no_whitespace(1) [of v _ _ "last v"]
  by (intro trim_id) (auto simp: normal_principal_def)

lemma canonical_of_at_normal: "normal_principal v \<Longrightarrow> canonical_principal (64 # v) = Inr (64 # v)"
  using trim_at_normal [of v]
  by (auto simp: canonical_principal_def normal_principal_def Let_def)

lemma normalize_at_normal: "normal_principal v \<Longrightarrow> normalize_entry (64 # v) = Inr (64 # v)"
  using trim_at_normal [of v] canonical_of_normal [of v]
  by (auto simp: normalize_entry_def normal_principal_def has_access_delimiter_def Let_def)

lemma normalize_entry_idem:
  assumes "normalize_entry raw = Inr e"
  shows "normalize_entry e = Inr e"
proof (cases "strip_prefix [64] (trim raw)")
  case (Some p)
  with assms have "canonical_principal p = Inr e"
    by (auto simp: normalize_entry_def Let_def split: if_splits)
  then show ?thesis
    using canonical_principal_Inr normalize_at_normal by blast
next
  case None
  with assms have "e = trim raw" by (auto simp: normalize_entry_def Let_def split: if_splits)
  with assms show ?thesis by (simp add: normalize_entry_def)
qed

lemma canonical_principal_idem:
  "canonical_principal p = Inr e \<Longrightarrow> canonical_principal e = Inr e"
  using canonical_principal_Inr canonical_of_at_normal by blast

lemma canonical_principal_normal_entry:
  "canonical_principal p = Inr e \<Longrightarrow> normalize_entry e = Inr e"
  using canonical_principal_Inr normalize_at_normal by blast

lemma normalize_entry_cases:
  assumes "normalize_entry raw = Inr e"
  obtains (at_principal) v where "e = 64 # v" "normal_principal v"
  | (tag) "\<not> starts_with [64] e" "e \<noteq> []" "length e \<le> 512" "\<not> has_access_delimiter e"
      "\<forall>c \<in> set e. \<not> is_whitespace c \<and> \<not> is_control c"
proof (cases "strip_prefix [64] (trim raw)")
  case (Some p)
  with assms have "canonical_principal p = Inr e"
    by (auto simp: normalize_entry_def Let_def split: if_splits)
  then show ?thesis using canonical_principal_Inr that(1) by blast
next
  case None
  with assms have "e = trim raw" "\<not> starts_with [64] e" "e \<noteq> []" "\<not> has_access_delimiter e"
      "length e \<le> 512" "\<forall>c \<in> set e. \<not> is_whitespace c \<and> \<not> is_control c"
    by (auto simp: normalize_entry_def Let_def list_ex_iff MAX_ENTRY_CHARS_def
        MAX_IDENTIFIER_CHARS_def strip_prefix_def starts_with_def split: if_splits)
  then show ?thesis using that(2) by blast
qed

section \<open>The loop against its specification: first occurrences in order\<close>

fun first_occurrences :: "str set \<Rightarrow> str list \<Rightarrow> str list" where
  "first_occurrences seen [] = []"
| "first_occurrences seen (x # xs) =
     (if x \<in> seen then first_occurrences seen xs
      else x # first_occurrences (insert x seen) xs)"

lemma set_first_occurrences: "set (first_occurrences seen xs) = set xs - seen"
  by (induction xs arbitrary: seen) auto

lemma distinct_first_occurrences: "distinct (first_occurrences seen xs)"
  by (induction xs arbitrary: seen) (auto simp: set_first_occurrences)

lemma length_first_occurrences: "length (first_occurrences seen xs) \<le> length xs"
  by (induction xs arbitrary: seen) (auto simp: le_SucI)

lemma first_occurrences_id:
  "distinct xs \<Longrightarrow> set xs \<inter> seen = {} \<Longrightarrow> first_occurrences seen xs = xs"
  by (induction xs arbitrary: seen) auto

lemma access_new_loop_Inr:
  "access_new_loop n seen acc es = Inr a \<longleftrightarrow>
     (es = [] \<or> n + length es \<le> MAX_ENTRIES) \<and>
     (\<exists>ns. traverseE normalize_entry es = Inr ns \<and> a = acc @ first_occurrences seen ns)"
proof (induction es arbitrary: n seen acc)
  case Nil
  then show ?case by auto
next
  case (Cons e es)
  show ?case
  proof (cases "normalize_entry e")
    case (Inl x)
    then show ?thesis by simp
  next
    case (Inr y)
    then show ?thesis
      by (cases "traverseE normalize_entry es") (auto simp: Cons.IH)
  qed
qed

lemma access_new_Inr_iff:
  "access_new es = Inr a \<longleftrightarrow>
     length es \<le> MAX_ENTRIES \<and>
     (\<exists>ns. traverseE normalize_entry es = Inr ns \<and> a = first_occurrences {} ns)"
  using access_new_loop_Inr [of 0 "{}" "[]" es a]
  by (cases es) (simp_all add: access_new_def del: access_new_loop.simps traverseE.simps(2))

lemma traverse_normal:
  "traverseE normalize_entry es = Inr ns \<Longrightarrow> n \<in> set ns \<Longrightarrow> normalize_entry n = Inr n"
  by (auto simp: traverseE_Inr_iff list_all2_conv_all_nth in_set_conv_nth
      intro: normalize_entry_idem)

lemma traverse_normal_id:
  "(\<forall>e \<in> set es. normalize_entry e = Inr e) \<Longrightarrow> traverseE normalize_entry es = Inr es"
  by (induction es) auto

definition access_wf :: "access_list \<Rightarrow> bool" where
  "access_wf a \<longleftrightarrow>
     distinct a \<and> length a \<le> MAX_ENTRIES \<and> (\<forall>e \<in> set a. normalize_entry e = Inr e)"

lemma access_new_wf:
  assumes "access_new es = Inr a"
  shows "access_wf a"
proof -
  from assms obtain ns where ns: "traverseE normalize_entry es = Inr ns"
    and a: "a = first_occurrences {} ns" and len: "length es \<le> MAX_ENTRIES"
    by (auto simp: access_new_Inr_iff)
  from ns have "length es = length ns"
    by (auto simp: traverseE_Inr_iff dest: list_all2_lengthD)
  with len length_first_occurrences [of "{}" ns] have "length a \<le> MAX_ENTRIES"
    by (simp add: a)
  moreover have "\<forall>e \<in> set a. normalize_entry e = Inr e"
    using traverse_normal [OF ns] by (auto simp: a set_first_occurrences)
  ultimately show ?thesis
    by (simp add: access_wf_def a distinct_first_occurrences)
qed

lemma access_wf_new: "access_wf a \<Longrightarrow> access_new a = Inr a"
  by (auto simp: access_wf_def access_new_Inr_iff first_occurrences_id intro!: traverse_normal_id)

lemma with_owner_Inr:
  assumes "with_owner owner es = Inr a"
  obtains v entries where "canonical_principal owner = Inr (64 # v)" "normal_principal v"
    "access_new es = Inr entries" "a = (64 # v) # filter (\<lambda>e. e \<noteq> 64 # v) entries"
proof -
  from assms obtain o' entries where o: "canonical_principal owner = Inr o'"
    and n: "access_new es = Inr entries"
    and a: "access_new (o' # filter (\<lambda>e. e \<noteq> o') entries) = Inr a"
    by (auto simp: with_owner_def)
  from o canonical_principal_Inr obtain v where v: "o' = 64 # v" "normal_principal v" by blast
  have len: "length (o' # filter (\<lambda>e. e \<noteq> o') entries) \<le> MAX_ENTRIES"
    using a by (simp add: access_new_Inr_iff)
  have "access_wf (o' # filter (\<lambda>e. e \<noteq> o') entries)"
    using access_new_wf [OF n] canonical_principal_normal_entry [OF o] len
    by (auto simp: access_wf_def)
  with a have "a = o' # filter (\<lambda>e. e \<noteq> o') entries" by (simp add: access_wf_new)
  with o n v show ?thesis using that by blast
qed

lemma with_owner_wf: "with_owner owner es = Inr a \<Longrightarrow> access_wf a"
  unfolding with_owner_def using access_new_wf by auto

lemma owner_first: "with_owner owner es = Inr a \<Longrightarrow> \<exists>rest. canonical_principal owner = Inr (hd a) \<and> a = hd a # rest"
  by (erule with_owner_Inr) auto

lemma with_owner_set:
  assumes "with_owner owner es = Inr a" "access_new es = Inr entries" "canonical_principal owner = Inr p"
  shows "set a = insert p (set entries)"
  using assms by (auto elim!: with_owner_Inr)

lemma with_owner_idem:
  assumes "with_owner owner es = Inr a"
  shows "with_owner owner a = Inr a"
proof -
  have wf: "access_wf a" by (rule with_owner_wf [OF assms])
  from assms obtain v entries where v: "canonical_principal owner = Inr (64 # v)"
    and a: "a = (64 # v) # filter (\<lambda>e. e \<noteq> 64 # v) entries"
    by (rule with_owner_Inr)
  have "(64 # v) # filter (\<lambda>e. e \<noteq> 64 # v) a = a" by (simp add: a)
  with v access_wf_new [OF wf] show ?thesis by (simp add: with_owner_def)
qed

lemma allows_principal_and_tags_iff:
  "allows_principal_and_tags a p tags \<longleftrightarrow>
     (\<exists>q. canonical_principal p = Inr q \<and>
        (q \<in> set a \<or> (\<exists>g \<in> set a. \<not> starts_with [64] g \<and> g \<in> trim ` set tags)))"
  by (cases "canonical_principal p")
     (auto simp: allows_principal_and_tags_def list_ex_iff)

lemma allows_iff:
  "allows a i \<longleftrightarrow> (\<exists>p \<in> set (principal_ids i). allows_principal_and_tags a p (i_tags i))"
  by (simp add: allows_def list_ex_iff)

lemma contains_principal_iff:
  "contains_principal a p \<longleftrightarrow> (\<exists>q. canonical_principal p = Inr q \<and> q \<in> set a)"
  by (auto simp: contains_principal_def split: sum.splits)

lemma contains_principal_allows:
  "contains_principal a p \<Longrightarrow> p \<in> set (principal_ids i) \<Longrightarrow> allows a i"
  by (auto simp: contains_principal_iff allows_iff allows_principal_and_tags_iff)

lemma own_id_principal [simp]: "i_id i \<in> set (principal_ids i)"
  by (simp add: principal_ids_def)

lemma with_owner_contains_owner:
  "with_owner owner es = Inr a \<Longrightarrow> contains_principal a owner"
  by (erule with_owner_Inr) (simp add: contains_principal_iff)

lemma with_owner_allows_owner:
  "with_owner (i_id i) es = Inr a \<Longrightarrow> allows a i"
  by (rule contains_principal_allows [OF with_owner_contains_owner own_id_principal])

text \<open>Without tags and aliases, access is exactly membership of the principal.\<close>

lemma allows_principal_only:
  assumes "i_tags i = []" "i_aliases i = []"
  shows "allows a i \<longleftrightarrow> contains_principal a (i_id i)"
  using assms
  by (simp add: allows_iff principal_ids_def allows_principal_and_tags_iff contains_principal_iff)

lemma allows_mono: "set a \<subseteq> set b \<Longrightarrow> allows a i \<Longrightarrow> allows b i"
  unfolding allows_iff allows_principal_and_tags_iff by blast

end
