(* ===== verification/SB_Url.thy ===== *)
theory SB_Url
  imports SB_Prelude
begin

unbundle bit_operations_syntax

text \<open>
  The outbound URL policy (\<open>src/crates/backend/src/url_policy.rs\<close>). Parsing is the
  \<open>url\<close> crate's: a parsed URL is the record \<open>url\<close> of what the code reads of it. The
  address predicates of the standard library are written out.
\<close>

section \<open>Parsed URLs and addresses\<close>

datatype ipv4 = IPv4 "8 word" "8 word" "8 word" "8 word"

datatype ipv6 = IPv6 "16 word" "16 word" "16 word" "16 word" "16 word" "16 word" "16 word" "16 word"

datatype url_host = Domain str | HostV4 ipv4 | HostV6 ipv6

record url =
  url_scheme :: str
  url_hostpart :: "url_host option"
  url_username :: str
  url_password :: "str option"
  url_path :: str
  url_query :: "str option"
  url_fragment :: "str option"
  url_cannot_be_a_base :: bool

text \<open>\<open>Url::parse\<close>: the crate's error message or the parsed URL.\<close>

type_synonym url_parser = "str \<Rightarrow> string + url"

fun v4_octet0 :: "ipv4 \<Rightarrow> 8 word" where "v4_octet0 (IPv4 a b c d) = a"

fun v4_is_loopback :: "ipv4 \<Rightarrow> bool" where
  "v4_is_loopback (IPv4 a b c d) \<longleftrightarrow> a = 127"

fun v4_is_private :: "ipv4 \<Rightarrow> bool" where
  "v4_is_private (IPv4 a b c d) \<longleftrightarrow>
     a = 10 \<or> (a = 172 \<and> 16 \<le> b \<and> b \<le> 31) \<or> (a = 192 \<and> b = 168)"

fun v4_is_link_local :: "ipv4 \<Rightarrow> bool" where
  "v4_is_link_local (IPv4 a b c d) \<longleftrightarrow> a = 169 \<and> b = 254"

fun v4_is_unspecified :: "ipv4 \<Rightarrow> bool" where
  "v4_is_unspecified (IPv4 a b c d) \<longleftrightarrow> a = 0 \<and> b = 0 \<and> c = 0 \<and> d = 0"

fun v4_is_multicast :: "ipv4 \<Rightarrow> bool" where
  "v4_is_multicast (IPv4 a b c d) \<longleftrightarrow> 224 \<le> a \<and> a \<le> 239"

fun v6_is_loopback :: "ipv6 \<Rightarrow> bool" where
  "v6_is_loopback (IPv6 a b c d e f g h) \<longleftrightarrow>
     a = 0 \<and> b = 0 \<and> c = 0 \<and> d = 0 \<and> e = 0 \<and> f = 0 \<and> g = 0 \<and> h = 1"

fun v6_is_unspecified :: "ipv6 \<Rightarrow> bool" where
  "v6_is_unspecified (IPv6 a b c d e f g h) \<longleftrightarrow>
     a = 0 \<and> b = 0 \<and> c = 0 \<and> d = 0 \<and> e = 0 \<and> f = 0 \<and> g = 0 \<and> h = 0"

fun v6_is_multicast :: "ipv6 \<Rightarrow> bool" where
  "v6_is_multicast (IPv6 a b c d e f g h) \<longleftrightarrow> a AND 0xff00 = 0xff00"

fun v6_to_ipv4_mapped :: "ipv6 \<Rightarrow> ipv4 option" where
  "v6_to_ipv4_mapped (IPv6 a b c d e f g h) =
     (if a = 0 \<and> b = 0 \<and> c = 0 \<and> d = 0 \<and> e = 0 \<and> f = 0xffff
      then Some (IPv4 (ucast (drop_bit 8 g)) (ucast g) (ucast (drop_bit 8 h)) (ucast h))
      else None)"

fun v6_segment0 :: "ipv6 \<Rightarrow> 16 word" where "v6_segment0 (IPv6 a b c d e f g h) = a"

section \<open>The policy\<close>

fun forbidden_v4 :: "ipv4 \<Rightarrow> bool" where
  "forbidden_v4 (IPv4 a b c d) \<longleftrightarrow>
     v4_is_loopback (IPv4 a b c d) \<or> v4_is_private (IPv4 a b c d) \<or>
     v4_is_link_local (IPv4 a b c d) \<or> v4_is_unspecified (IPv4 a b c d) \<or>
     v4_is_multicast (IPv4 a b c d) \<or> a = 0 \<or> 240 \<le> a \<or> (a = 100 \<and> b AND 0xc0 = 64)"

definition forbidden_v6 :: "ipv6 \<Rightarrow> bool" where
  "forbidden_v6 address =
     (case v6_to_ipv4_mapped address of
        Some mapped \<Rightarrow> forbidden_v4 mapped
      | None \<Rightarrow>
          (let first = v6_segment0 address;
               unique_local = (first AND 0xfe00 = 0xfc00);
               link_local = (first AND 0xffc0 = 0xfe80)
           in v6_is_loopback address \<or> v6_is_unspecified address \<or> v6_is_multicast address \<or>
              unique_local \<or> link_local))"

definition has_forbidden_host :: "url \<Rightarrow> bool" where
  "has_forbidden_host u =
     (case url_hostpart u of
        Some (HostV4 address) \<Rightarrow> forbidden_v4 address
      | Some (HostV6 address) \<Rightarrow> forbidden_v6 address
      | Some (Domain host) \<Rightarrow>
          (let h = trim_end_char 46 host
           in h = lit ''localhost'' \<or> ends_with (lit ''.localhost'') h)
      | None \<Rightarrow> False)"

definition host_is_loopback :: "url \<Rightarrow> bool" where
  "host_is_loopback u =
     (case url_hostpart u of
        Some (Domain host) \<Rightarrow> eq_ignore_ascii_case host (lit ''localhost'')
      | Some (HostV4 address) \<Rightarrow> v4_is_loopback address
      | Some (HostV6 address) \<Rightarrow> v6_is_loopback address
      | None \<Rightarrow> False)"

definition is_https_or_loopback_http :: "url \<Rightarrow> bool" where
  "is_https_or_loopback_http u =
     (if url_scheme u = lit ''https'' then True
      else if url_scheme u = lit ''http'' then host_is_loopback u
      else False)"

section \<open>The forbidden IPv4 space, as address ranges\<close>

fun v4_number :: "ipv4 \<Rightarrow> nat" where
  "v4_number (IPv4 a b c d) =
     ((unat a * 256 + unat b) * 256 + unat c) * 256 + unat d"

definition v4_net :: "nat \<Rightarrow> nat \<Rightarrow> nat \<Rightarrow> nat \<Rightarrow> nat" where
  "v4_net a b c d = ((a * 256 + b) * 256 + c) * 256 + d"

definition in_cidr :: "nat \<Rightarrow> nat \<Rightarrow> nat \<Rightarrow> bool" where
  "in_cidr base bits n \<longleftrightarrow> n div 2 ^ (32 - bits) = base div 2 ^ (32 - bits)"

definition special_v4_blocks :: "(nat \<times> nat) list" where
  "special_v4_blocks =
     [(v4_net 0 0 0 0, 8), (v4_net 10 0 0 0, 8), (v4_net 100 64 0 0, 10),
      (v4_net 127 0 0 0, 8), (v4_net 169 254 0 0, 16), (v4_net 172 16 0 0, 12),
      (v4_net 192 168 0 0, 16), (v4_net 224 0 0 0, 4), (v4_net 240 0 0 0, 4)]"

lemma byte_bound: "unat (x :: 8 word) < 256"
proof -
  have "unat x < 2 ^ LENGTH(8)" by (rule unsigned_less)
  then show ?thesis by simp
qed

lemma byte_eq_iff: "(x :: 8 word) = numeral n \<longleftrightarrow> unat x = unat (numeral n :: 8 word)"
  by (simp add: word_unat_eq_iff)

lemma and_mask_shift: "(n :: nat) AND push_bit k (mask j) = push_bit k (take_bit j (drop_bit k n))"
  by (rule bit_eqI) (auto simp: bit_simps)

lemma and_192: "(n :: nat) < 256 \<Longrightarrow> (n AND 192 = 64) \<longleftrightarrow> (n div 64 = 1)"
  using and_mask_shift [of n 6 2]
  by (simp add: push_bit_eq_mult take_bit_eq_mod drop_bit_eq_div mask_eq_exp_minus_1)

lemma shared_space_mask: "(b :: 8 word) AND 0xc0 = 64 \<longleftrightarrow> unat b div 64 = 1"
  using and_192 [OF byte_bound [of b]] by (simp add: word_unat_eq_iff unsigned_and_eq)

lemma number_div_8:
  "b < 256 \<Longrightarrow> c < 256 \<Longrightarrow> d < (256 :: nat) \<Longrightarrow>
   (((a * 256 + b) * 256 + c) * 256 + d) div 16777216 = a"
  by (simp add: div_mult2_eq [of _ 65536 256, simplified] div_mult2_eq [of _ 256 256, simplified])

lemma number_div_16:
  "c < 256 \<Longrightarrow> d < (256 :: nat) \<Longrightarrow>
   (((a * 256 + b) * 256 + c) * 256 + d) div 65536 = a * 256 + b"
  by (simp add: div_mult2_eq [of _ 256 256, simplified])

lemma number_div_12:
  "c < 256 \<Longrightarrow> d < (256 :: nat) \<Longrightarrow>
   (((a * 256 + b) * 256 + c) * 256 + d) div 1048576 = (a * 256 + b) div 16"
  using number_div_16 [of c d a b] by (simp add: div_mult2_eq [of _ 65536 16, simplified])

lemma number_div_10:
  "c < 256 \<Longrightarrow> d < (256 :: nat) \<Longrightarrow>
   (((a * 256 + b) * 256 + c) * 256 + d) div 4194304 = (a * 256 + b) div 64"
  using number_div_16 [of c d a b] by (simp add: div_mult2_eq [of _ 65536 64, simplified])

lemma number_div_4:
  "b < 256 \<Longrightarrow> c < 256 \<Longrightarrow> d < (256 :: nat) \<Longrightarrow>
   (((a * 256 + b) * 256 + c) * 256 + d) div 268435456 = a div 16"
  using number_div_8 [of b c d a] by (simp add: div_mult2_eq [of _ 16777216 16, simplified])

lemma div_window: "0 < k \<Longrightarrow> (n :: nat) div k = q \<longleftrightarrow> q * k \<le> n \<and> n < q * k + k"
  by (metis div_nat_eqI dividend_less_div_times mult.commute mult_Suc times_div_less_eq_dividend add.commute)

lemma high_byte:
  fixes a b k l h :: nat
  assumes "b < 256" "h \<le> 256"
  shows "k * 256 + l \<le> a * 256 + b \<and> a * 256 + b < k * 256 + h \<longleftrightarrow> a = k \<and> l \<le> b \<and> b < h"
proof (cases a k rule: linorder_cases)
  case less
  then have "a * 256 + 256 \<le> k * 256" by simp
  with less assms show ?thesis by linarith
next
  case equal
  then show ?thesis by simp
next
  case greater
  then have "k * 256 + 256 \<le> a * 256" by simp
  with greater assms show ?thesis by linarith
qed

lemma block_arith:
  fixes a b :: nat
  assumes "b < 256"
  shows "(a * 256 + b) div 64 = 401 \<longleftrightarrow> a = 100 \<and> b div 64 = 1"
    and "(a * 256 + b) div 16 = 2753 \<longleftrightarrow> a = 172 \<and> 16 \<le> b \<and> b \<le> 31"
    and "a * 256 + b = 43518 \<longleftrightarrow> a = 169 \<and> b = 254"
    and "a * 256 + b = 49320 \<longleftrightarrow> a = 192 \<and> b = 168"
proof -
  show "(a * 256 + b) div 64 = 401 \<longleftrightarrow> a = 100 \<and> b div 64 = 1"
    using high_byte [OF assms, of 128 100 64 a] by (simp add: div_window)
  show "(a * 256 + b) div 16 = 2753 \<longleftrightarrow> a = 172 \<and> 16 \<le> b \<and> b \<le> 31"
    using high_byte [OF assms, of 32 172 16 a] by (simp add: div_window less_Suc_eq_le [of b 31, simplified])
  show "a * 256 + b = 43518 \<longleftrightarrow> a = 169 \<and> b = 254"
    using high_byte [OF assms, of 255 169 254 a] by linarith
  show "a * 256 + b = 49320 \<longleftrightarrow> a = 192 \<and> b = 168"
    using high_byte [OF assms, of 169 192 168 a] by linarith
qed

lemma high_blocks:
  fixes a :: nat
  assumes "a < 256"
  shows "a div 16 = 14 \<longleftrightarrow> 224 \<le> a \<and> a \<le> 239" and "a div 16 = 15 \<longleftrightarrow> 240 \<le> a"
  using assms by (auto simp: div_window)

lemma special_blocks_bytes:
  assumes "a < 256" "b < 256" "c < 256" "d < (256 :: nat)"
  shows "(\<exists>(base, bits) \<in> set special_v4_blocks.
           in_cidr base bits (((a * 256 + b) * 256 + c) * 256 + d)) \<longleftrightarrow>
     a = 0 \<or> a = 10 \<or> (a = 100 \<and> b div 64 = 1) \<or> a = 127 \<or> (a = 169 \<and> b = 254) \<or>
     (a = 172 \<and> 16 \<le> b \<and> b \<le> 31) \<or> (a = 192 \<and> b = 168) \<or>
     (224 \<le> a \<and> a \<le> 239) \<or> 240 \<le> a"
proof -
  define n where "n = ((a * 256 + b) * 256 + c) * 256 + d"
  have n8: "n div 16777216 = a" and n16: "n div 65536 = a * 256 + b"
    and n10: "n div 4194304 = (a * 256 + b) div 64" and n12: "n div 1048576 = (a * 256 + b) div 16"
    and n4: "n div 268435456 = a div 16"
    using assms unfolding n_def
    by (simp_all only: number_div_8 number_div_16 number_div_10 number_div_12 number_div_4)
  have "in_cidr (v4_net 0 0 0 0) 8 n \<longleftrightarrow> a = 0" "in_cidr (v4_net 10 0 0 0) 8 n \<longleftrightarrow> a = 10"
    "in_cidr (v4_net 127 0 0 0) 8 n \<longleftrightarrow> a = 127"
    "in_cidr (v4_net 100 64 0 0) 10 n \<longleftrightarrow> (a * 256 + b) div 64 = 401"
    "in_cidr (v4_net 169 254 0 0) 16 n \<longleftrightarrow> a * 256 + b = 43518"
    "in_cidr (v4_net 172 16 0 0) 12 n \<longleftrightarrow> (a * 256 + b) div 16 = 2753"
    "in_cidr (v4_net 192 168 0 0) 16 n \<longleftrightarrow> a * 256 + b = 49320"
    "in_cidr (v4_net 224 0 0 0) 4 n \<longleftrightarrow> a div 16 = 14"
    "in_cidr (v4_net 240 0 0 0) 4 n \<longleftrightarrow> a div 16 = 15"
    by (simp_all add: in_cidr_def v4_net_def n8 n10 n12 n16 n4)
  then show ?thesis
    unfolding n_def [symmetric] special_v4_blocks_def
    by (simp only: list.set bex_simps prod.case block_arith [OF assms(2)] high_blocks [OF assms(1)]
        simp_thms)
qed

lemma forbidden_v4_ranges:
  "forbidden_v4 address \<longleftrightarrow>
     (\<exists>(base, bits) \<in> set special_v4_blocks. in_cidr base bits (v4_number address))"
proof (cases address)
  case (IPv4 a b c d)
  have le: "16 \<le> b \<longleftrightarrow> 16 \<le> unat b" "b \<le> 31 \<longleftrightarrow> unat b \<le> 31" "224 \<le> a \<longleftrightarrow> 224 \<le> unat a"
    "a \<le> 239 \<longleftrightarrow> unat a \<le> 239" "240 \<le> a \<longleftrightarrow> 240 \<le> unat a"
    by (simp_all add: word_le_nat_alt)
  have "forbidden_v4 address \<longleftrightarrow>
      unat a = 0 \<or> unat a = 10 \<or> (unat a = 100 \<and> unat b div 64 = 1) \<or> unat a = 127 \<or>
      (unat a = 169 \<and> unat b = 254) \<or> (unat a = 172 \<and> 16 \<le> unat b \<and> unat b \<le> 31) \<or>
      (unat a = 192 \<and> unat b = 168) \<or> (224 \<le> unat a \<and> unat a \<le> 239) \<or> 240 \<le> unat a"
    unfolding IPv4
    by (simp add: shared_space_mask le byte_eq_iff [of a] byte_eq_iff [of b] unat_eq_0) arith
  also have "\<dots> \<longleftrightarrow> (\<exists>(base, bits) \<in> set special_v4_blocks. in_cidr base bits (v4_number address))"
    unfolding IPv4 v4_number.simps
    by (rule special_blocks_bytes [symmetric]) (rule byte_bound)+
  finally show ?thesis .
qed

text \<open>An IPv4-mapped IPv6 literal is judged as the IPv4 address it carries.\<close>

lemma byte_pair:
  fixes a b :: "8 word"
  shows "(ucast (drop_bit 8 (push_bit 8 (ucast a) OR ucast b :: 16 word)) :: 8 word) = a"
    and "(ucast (push_bit 8 (ucast a) OR ucast b :: 16 word) :: 8 word) = b"
proof -
  have "\<not> bit b (8 + n)" for n
    using bit_imp_le_length [of b "8 + n"] by auto
  then show "(ucast (drop_bit 8 (push_bit 8 (ucast a) OR ucast b :: 16 word)) :: 8 word) = a"
    by (auto intro!: bit_word_eqI simp: bit_simps)
  show "(ucast (push_bit 8 (ucast a) OR ucast b :: 16 word) :: 8 word) = b"
    by (auto intro!: bit_word_eqI simp: bit_simps)
qed

lemma mapped_v4_roundtrip:
  fixes a b c d :: "8 word"
  shows "v6_to_ipv4_mapped
     (IPv6 0 0 0 0 0 0xffff (push_bit 8 (ucast a) OR ucast b) (push_bit 8 (ucast c) OR ucast d)) =
     Some (IPv4 a b c d)"
  unfolding v6_to_ipv4_mapped.simps byte_pair by simp

end
