(* ===== verification/SB_Decimal.thy ===== *)
theory SB_Decimal
  imports SB_Prelude
begin

text \<open>
  Decimal counters of external providers (\<open>src/crates/backend/src/decimal.rs\<close>): the parser
  into integer millionths, with its \<open>u64\<close>, \<open>i64\<close> and \<open>i128\<close> arithmetic, against exact
  rounding of the number the text denotes.
\<close>

section \<open>The parser\<close>

datatype decimal_error = DInvalid | DNegative | DOverflow

definition U64_MAX :: nat where "U64_MAX = 18446744073709551615"

definition I64_MAX :: int where "I64_MAX = 9223372036854775807"

definition checked_mul_u64 :: "nat \<Rightarrow> nat \<Rightarrow> nat option" where
  "checked_mul_u64 a b = (if a * b \<le> U64_MAX then Some (a * b) else None)"

definition checked_add_u64 :: "nat \<Rightarrow> nat \<Rightarrow> nat option" where
  "checked_add_u64 a b = (if a + b \<le> U64_MAX then Some (a + b) else None)"

definition saturating_i64 :: "int \<Rightarrow> int" where
  "saturating_i64 x = (if x > I64_MAX then I64_MAX else if x < - I64_MAX - 1 then - I64_MAX - 1 else x)"

definition exponent_fold :: "str \<Rightarrow> int" where
  "exponent_fold digits =
     foldl (\<lambda>v d. saturating_i64 (saturating_i64 (v * 10) + int (d - 48))) 0 digits"

definition parse_exponent :: "str \<Rightarrow> decimal_error + int" where
  "parse_exponent value =
     (let negative = starts_with [45] value;
          digits = (case value of [] \<Rightarrow> value | c # r \<Rightarrow> if c = 43 \<or> c = 45 then r else value)
      in if digits = [] \<or> \<not> list_all is_ascii_digit digits then Inl DInvalid
         else (let exponent = exponent_fold digits in Inr (if negative then - exponent else exponent)))"

text \<open>\<open>value.find(['e', 'E'])\<close> and the two slices around the match.\<close>

definition split_exponent :: "str \<Rightarrow> (str \<times> str) option" where
  "split_exponent value =
     (case dropWhile (\<lambda>c. c \<noteq> 101 \<and> c \<noteq> 69) value of
        [] \<Rightarrow> None
      | _ # rest \<Rightarrow> Some (takeWhile (\<lambda>c. c \<noteq> 101 \<and> c \<noteq> 69) value, rest))"

fun digit_loop :: "nat \<Rightarrow> str \<Rightarrow> decimal_error + nat" where
  "digit_loop result [] = Inr result"
| "digit_loop result (d # ds) =
     (case checked_mul_u64 result 10 of
        None \<Rightarrow> Inl DOverflow
      | Some v \<Rightarrow>
          (case checked_add_u64 v (d - 48) of
             None \<Rightarrow> Inl DOverflow
           | Some w \<Rightarrow> digit_loop w ds))"

fun zero_loop :: "nat \<Rightarrow> nat \<Rightarrow> decimal_error + nat" where
  "zero_loop result 0 = Inr result"
| "zero_loop result (Suc n) =
     (case checked_mul_u64 result 10 of None \<Rightarrow> Inl DOverflow | Some v \<Rightarrow> zero_loop v n)"

definition decimal_finish :: "str \<Rightarrow> nat \<Rightarrow> bool \<Rightarrow> decimal_error + nat" where
  "decimal_finish kept_digits trailing_zeros round_up =
     tryE (digit_loop 0 kept_digits) (\<lambda>r.
     tryE (zero_loop r trailing_zeros) (\<lambda>r.
       ok_or DOverflow (checked_add_u64 r (of_bool round_up))))"

definition decimal_scale :: "str \<Rightarrow> str \<Rightarrow> int \<Rightarrow> decimal_error + nat" where
  "decimal_scale whole fraction exponent =
     (let digits = dropWhile (\<lambda>d. d = 48) (whole @ fraction) in
      if digits = [] then Inr 0
      else
        let shift = exponent + 6 - int (length fraction) in
        if shift \<ge> 0 then
          if int (length digits) + shift > 20 then Inl DOverflow
          else decimal_finish digits (nat shift) False
        else
          let removed = - shift in
          if removed > int (length digits) then Inr 0
          else
            let kept = length digits - nat removed in
            decimal_finish (take kept digits) 0 (digits ! kept \<ge> 53))"

definition decimal_mantissa :: "str \<Rightarrow> int \<Rightarrow> decimal_error + nat" where
  "decimal_mantissa mantissa exponent =
     (let (whole, fraction) = (case split_once 46 mantissa of Some p \<Rightarrow> p | None \<Rightarrow> (mantissa, [])) in
      if (whole = [] \<and> fraction = []) \<or> \<not> list_all is_ascii_digit whole \<or>
         \<not> list_all is_ascii_digit fraction
      then Inl DInvalid
      else decimal_scale whole fraction exponent)"

definition decimal_to_millionths :: "str \<Rightarrow> decimal_error + nat" where
  "decimal_to_millionths text =
     (let value = trim text in
      if starts_with [45] value then Inl DNegative
      else
        let value = (case strip_prefix [43] value of Some r \<Rightarrow> r | None \<Rightarrow> value) in
        case split_exponent value of
          Some (mantissa, e) \<Rightarrow> tryE (parse_exponent e) (\<lambda>x. decimal_mantissa mantissa x)
        | None \<Rightarrow> decimal_mantissa value 0)"

section \<open>What a decimal text denotes\<close>

text \<open>
  \<open>decimal_form t whole fraction x\<close>: the text is an optional plus sign, the digits with an
  optional point, and an optional exponent part whose unbounded value is \<open>x\<close>.
\<close>

definition digits :: "str \<Rightarrow> bool" where
  "digits s \<longleftrightarrow> list_all is_ascii_digit s"

definition exponent_form :: "str \<Rightarrow> int \<Rightarrow> bool" where
  "exponent_form es x \<longleftrightarrow>
     (es = [] \<and> x = 0) \<or>
     (\<exists>e ds. (e = 101 \<or> e = 69) \<and> ds \<noteq> [] \<and> digits ds \<and>
        ((es = e # ds \<or> es = e # 43 # ds) \<and> x = int (dec_value ds) \<or>
         es = e # 45 # ds \<and> x = - int (dec_value ds)))"

definition mantissa_form :: "str \<Rightarrow> str \<Rightarrow> str \<Rightarrow> bool" where
  "mantissa_form m whole fraction \<longleftrightarrow>
     digits whole \<and> digits fraction \<and> (whole \<noteq> [] \<or> fraction \<noteq> []) \<and>
     ((m = whole \<and> fraction = []) \<or> m = whole @ 46 # fraction)"

definition decimal_form :: "str \<Rightarrow> str \<Rightarrow> str \<Rightarrow> int \<Rightarrow> bool" where
  "decimal_form t whole fraction x \<longleftrightarrow>
     (\<exists>sg m es. t = sg @ m @ es \<and> (sg = [] \<or> sg = [43]) \<and>
        mantissa_form m whole fraction \<and> exponent_form es x)"

text \<open>The coefficient \<open>d\<close> shifted by \<open>s\<close> decimal places, to the nearest integer, ties up.\<close>

definition shift_round :: "nat \<Rightarrow> int \<Rightarrow> nat" where
  "shift_round d s =
     (if s \<ge> 0 then d * 10 ^ nat s
      else (2 * d + 10 ^ nat (- s)) div (2 * 10 ^ nat (- s)))"

definition millionths :: "str \<Rightarrow> str \<Rightarrow> int \<Rightarrow> nat" where
  "millionths whole fraction x =
     shift_round (dec_value (whole @ fraction)) (x - int (length fraction) + 6)"

definition u64_result :: "nat \<Rightarrow> decimal_error + nat" where
  "u64_result n = (if n \<le> U64_MAX then Inr n else Inl DOverflow)"

section \<open>Digit arithmetic\<close>

lemma digits_simps [simp]:
  "digits []" "digits (d # ds) \<longleftrightarrow> is_ascii_digit d \<and> digits ds"
  "digits (a @ b) \<longleftrightarrow> digits a \<and> digits b"
  by (simp_all add: digits_def)

lemma digits_take_drop: "digits ds \<Longrightarrow> digits (take k ds) \<and> digits (drop k ds)"
  by (metis append_take_drop_id digits_simps(3))

lemma digits_dropWhile: "digits ds \<Longrightarrow> digits (dropWhile P ds)"
  by (induction ds) auto

lemma digit_value: "is_ascii_digit d \<Longrightarrow> d - 48 \<le> 9"
  unfolding is_ascii_digit_def by linarith

lemma le_times_pow: "(r :: nat) \<le> r * 10 ^ n"
  by simp

lemma exceeds_times_pow: "\<not> (r :: nat) \<le> b \<Longrightarrow> \<not> r * 10 ^ n + c \<le> b"
  using le_times_pow [of r n] by linarith

lemma dec_value_append: "dec_value (a @ b) = dec_value a * 10 ^ length b + dec_value b"
  by (induction b rule: rev_induct)
     (simp_all add: append_assoc [symmetric] algebra_simps del: append_assoc)

lemma dec_value_single [simp]: "dec_value [d] = d - 48"
  by (simp add: dec_value_def)

lemma dec_value_Cons: "dec_value (d # ds) = (d - 48) * 10 ^ length ds + dec_value ds"
  using dec_value_append [of "[d]" ds] by simp

lemma dec_value_bound: "digits ds \<Longrightarrow> dec_value ds < 10 ^ length ds"
proof (induction ds)
  case (Cons d ds)
  then have "dec_value ds < 10 ^ length ds" by simp
  moreover have "(d - 48) * 10 ^ length ds \<le> 9 * 10 ^ length ds"
    using digit_value [of d] Cons.prems by (intro mult_le_mono1) simp
  ultimately have "(d - 48) * 10 ^ length ds + dec_value ds < 10 * 10 ^ length ds" by linarith
  then show ?case by (simp add: dec_value_Cons)
qed simp

lemma dec_value_skip_zeros: "dec_value (dropWhile (\<lambda>d. d = 48) ds) = dec_value ds"
  by (induction ds) (auto simp: dec_value_Cons)

lemma dec_value_leading:
  assumes "ds \<noteq> []" "hd ds \<noteq> 48" "digits ds"
  shows "10 ^ (length ds - 1) \<le> dec_value ds"
proof (cases ds)
  case (Cons d r)
  with assms have "1 \<le> d - 48" by (auto simp: is_ascii_digit_def)
  then have "1 * 10 ^ length r \<le> (d - 48) * 10 ^ length r" by (rule mult_le_mono1)
  then have "10 ^ length r \<le> (d - 48) * 10 ^ length r + dec_value r" by linarith
  with Cons show ?thesis by (simp add: dec_value_Cons)
qed (use assms in simp)

section \<open>The accumulating loops\<close>

lemma digit_loop_value:
  "r \<le> U64_MAX \<Longrightarrow> digit_loop r ds = u64_result (r * 10 ^ length ds + dec_value ds)"
proof (induction ds arbitrary: r)
  case Nil
  then show ?case by (simp add: u64_result_def)
next
  case (Cons d ds)
  let ?v = "r * 10 + (d - 48)"
  have step: "r * 10 ^ length (d # ds) + dec_value (d # ds) = ?v * 10 ^ length ds + dec_value ds"
    by (simp add: dec_value_Cons algebra_simps)
  show ?case
  proof (cases "?v \<le> U64_MAX")
    case True
    then have "digit_loop r (d # ds) = digit_loop ?v ds"
      by (simp add: checked_mul_u64_def checked_add_u64_def)
    with Cons.IH [OF True] show ?thesis by (simp only: step)
  next
    case False
    have "\<not> ?v * 10 ^ length ds + dec_value ds \<le> U64_MAX"
      by (rule exceeds_times_pow [OF False])
    moreover from False have "digit_loop r (d # ds) = Inl DOverflow"
      by (auto simp: checked_mul_u64_def checked_add_u64_def)
    ultimately show ?thesis by (simp only: step u64_result_def if_False)
  qed
qed

lemma zero_loop_value: "r \<le> U64_MAX \<Longrightarrow> zero_loop r n = u64_result (r * 10 ^ n)"
proof (induction n arbitrary: r)
  case 0
  then show ?case by (simp add: u64_result_def)
next
  case (Suc n)
  show ?case
  proof (cases "r * 10 \<le> U64_MAX")
    case True
    with Suc.IH [OF True] show ?thesis
      by (simp add: checked_mul_u64_def algebra_simps)
  next
    case False
    have "\<not> r * 10 ^ Suc n \<le> U64_MAX"
      using exceeds_times_pow [OF False, of n 0] by (simp add: mult.assoc)
    with False show ?thesis
      by (simp only: zero_loop.simps checked_mul_u64_def u64_result_def if_False option.case)
  qed
qed

lemma decimal_finish_value:
  "decimal_finish ds z up = u64_result (dec_value ds * 10 ^ z + of_bool up)"
proof -
  have 0: "digit_loop 0 ds = u64_result (dec_value ds)"
    using digit_loop_value [of 0 ds] by simp
  show ?thesis
  proof (cases "dec_value ds \<le> U64_MAX")
    case True
    then show ?thesis
      by (auto simp: decimal_finish_def 0 u64_result_def zero_loop_value checked_add_u64_def)
  next
    case False
    have "\<not> dec_value ds * 10 ^ z + of_bool up \<le> U64_MAX" by (rule exceeds_times_pow [OF False])
    with False show ?thesis by (simp add: decimal_finish_def 0 u64_result_def)
  qed
qed

section \<open>Rounding\<close>

lemma shift_round_split:
  assumes "lo < 10 ^ k" "0 < k"
  shows "shift_round (hi * 10 ^ k + lo) (- int k) = hi + of_bool (10 ^ k \<le> 2 * lo)"
proof -
  have "(2 * (hi * 10 ^ k + lo) + 10 ^ k) div (2 * 10 ^ k) = hi + (2 * lo + 10 ^ k) div (2 * 10 ^ k)"
    using div_mult_self3 [of "2 * 10 ^ k :: nat" hi "2 * lo + 10 ^ k"]
    by (simp add: algebra_simps)
  moreover have "(2 * lo + 10 ^ k) div (2 * 10 ^ k) = of_bool (10 ^ k \<le> 2 * lo)"
    using assms(1) by (auto intro: div_nat_eqI)
  ultimately show ?thesis
    using assms(2) by (simp add: shift_round_def)
qed

lemma shift_round_small: "d < 10 ^ (k - 1) \<Longrightarrow> 0 < k \<Longrightarrow> shift_round d (- int k) = 0"
proof (cases k)
  case (Suc j)
  assume "d < 10 ^ (k - 1)"
  with Suc shift_round_split [of d k 0] show ?thesis by simp
qed simp

lemma half_by_first_digit:
  assumes "digits (d # ds)"
  shows "10 ^ length (d # ds) \<le> 2 * dec_value (d # ds) \<longleftrightarrow> 53 \<le> d"
proof -
  define m :: nat where "m = 10 ^ length ds"
  define v where "v = d - 48"
  have b: "dec_value ds < m" using assms dec_value_bound by (simp add: m_def)
  have d: "53 \<le> d \<longleftrightarrow> 5 \<le> v" using assms by (auto simp: v_def is_ascii_digit_def)
  have "10 * m \<le> 2 * (v * m + dec_value ds) \<longleftrightarrow> 5 \<le> v"
  proof (cases "5 \<le> v")
    case True
    then have "5 * m \<le> v * m" by (rule mult_le_mono1)
    then have "2 * (5 * m) \<le> 2 * (v * m + dec_value ds)" by (intro mult_le_mono2 trans_le_add1)
    with True show ?thesis by simp
  next
    case False
    then have "v * m \<le> 4 * m" by (intro mult_le_mono1) simp
    moreover have "q \<le> 4 * m \<Longrightarrow> 2 * (q + dec_value ds) < 10 * m" for q using b by simp
    ultimately have "2 * (v * m + dec_value ds) < 10 * m" by blast
    with False show ?thesis by (simp only: not_le [symmetric])
  qed
  then show ?thesis by (simp add: dec_value_Cons d m_def v_def)
qed

lemma pow10_20: "(10 :: nat) ^ 20 > U64_MAX"
  by (simp add: U64_MAX_def)

lemma large_overflows:
  assumes "10 ^ (n - 1) \<le> d" "0 < n" "20 < int n + s" "s \<ge> 0"
  shows "\<not> shift_round d s \<le> U64_MAX"
proof -
  have "(10 :: nat) ^ 20 \<le> 10 ^ (n - 1 + nat s)"
    using assms by (intro power_increasing) auto
  also have "\<dots> \<le> d * 10 ^ nat s"
    using assms(1) by (simp add: power_add mult_le_mono1)
  finally show ?thesis using pow10_20 assms(4) by (simp add: shift_round_def)
qed

lemma shift_round_zero [simp]: "shift_round 0 s = 0"
  by (simp add: shift_round_def)

lemma decimal_scale_exact:
  assumes "digits whole" "digits fraction"
  shows "decimal_scale whole fraction x = u64_result (millionths whole fraction x)"
proof -
  define ds where "ds = dropWhile (\<lambda>d. d = 48) (whole @ fraction)"
  define s where "s = x + 6 - int (length fraction)"
  have dg: "digits ds" using assms by (simp add: ds_def digits_dropWhile)
  have m: "millionths whole fraction x = shift_round (dec_value ds) s"
    by (simp add: millionths_def ds_def dec_value_skip_zeros s_def algebra_simps)
  have code: "decimal_scale whole fraction x =
     (if ds = [] then Inr 0
      else if s \<ge> 0 then (if int (length ds) + s > 20 then Inl DOverflow
                           else decimal_finish ds (nat s) False)
      else if - s > int (length ds) then Inr 0
      else decimal_finish (take (length ds - nat (- s)) ds) 0 (ds ! (length ds - nat (- s)) \<ge> 53))"
    by (simp add: decimal_scale_def Let_def ds_def s_def)
  show ?thesis
  proof (cases "ds = []")
    case True
    then show ?thesis by (simp add: code m u64_result_def)
  next
    case ne: False
    then have hd: "hd ds \<noteq> 48"
      using hd_dropWhile [of "\<lambda>d. d = 48" "whole @ fraction"] by (simp add: ds_def)
    show ?thesis
    proof (cases "s \<ge> 0")
      case True
      then show ?thesis
        using ne large_overflows [OF dec_value_leading [OF ne hd dg], of s]
        by (auto simp: code m decimal_finish_value shift_round_def u64_result_def)
    next
      case neg: False
      define k where "k = nat (- s)"
      have s: "s = - int k" and k: "0 < k" using neg by (auto simp: k_def)
      show ?thesis
      proof (cases "k > length ds")
        case True
        have "dec_value ds < 10 ^ length ds" by (rule dec_value_bound [OF dg])
        also have "\<dots> \<le> 10 ^ (k - 1)" using True by (intro power_increasing) auto
        finally show ?thesis
          using neg k True ne shift_round_small [of "dec_value ds" k]
          by (simp add: code m s u64_result_def)
      next
        case False
        define p where "p = length ds - k"
        have p: "p < length ds" using k False ne by (simp add: p_def)
        have len: "length (drop p ds) = k" using False by (simp add: p_def)
        have split: "drop p ds = ds ! p # drop (Suc p) ds" by (rule Cons_nth_drop_Suc [OF p, symmetric])
        have dd: "digits (drop p ds)" using digits_take_drop [OF dg] by blast
        have "dec_value ds = dec_value (take p ds) * 10 ^ k + dec_value (drop p ds)"
          using dec_value_append [of "take p ds" "drop p ds"] len by simp
        moreover have "dec_value (drop p ds) < 10 ^ k" using dec_value_bound [OF dd] len by simp
        moreover have "10 ^ k \<le> 2 * dec_value (drop p ds) \<longleftrightarrow> 53 \<le> ds ! p"
          using half_by_first_digit [of "ds ! p" "drop (Suc p) ds"] dd
          by (simp only: split [symmetric] len)
        ultimately have "shift_round (dec_value ds) s = dec_value (take p ds) + of_bool (53 \<le> ds ! p)"
          using shift_round_split [of "dec_value (drop p ds)" k "dec_value (take p ds)"] k s by simp
        moreover have "\<not> - s > int (length ds)" using False neg by (auto simp: k_def)
        ultimately show ?thesis
          using ne neg by (simp only: code m decimal_finish_value p_def k_def if_False power_0 mult_1_right)
      qed
    qed
  qed
qed

section \<open>The saturating exponent\<close>

lemma exponent_fold_clamps: "digits ds \<Longrightarrow> exponent_fold ds = min (int (dec_value ds)) I64_MAX"
proof (induction ds rule: rev_induct)
  case Nil
  then show ?case by (simp add: exponent_fold_def I64_MAX_def)
next
  case (snoc d ds)
  have "d - 48 \<le> 9" using snoc.prems digit_value [of d] by simp
  then show ?case
    using snoc by (simp add: exponent_fold_def saturating_i64_def I64_MAX_def min_def)
qed

text \<open>The clamp cannot change the result of a text that fits in memory.\<close>

lemma clamp_keeps_result:
  assumes dg: "digits whole" "digits fraction"
    and len: "int (length whole + length fraction) + 20 \<le> I64_MAX"
    and x: "int n > I64_MAX"
  shows "u64_result (millionths whole fraction (int n)) = u64_result (millionths whole fraction I64_MAX)"
    and "u64_result (millionths whole fraction (- int n)) = u64_result (millionths whole fraction (- I64_MAX))"
proof -
  let ?d = "dec_value (whole @ fraction)" and ?f = "int (length fraction)"
  have b: "?d < 10 ^ (length whole + length fraction)"
    using dec_value_bound [of "whole @ fraction"] dg by simp
  show "u64_result (millionths whole fraction (int n)) = u64_result (millionths whole fraction I64_MAX)"
  proof (cases "?d = 0")
    case True
    then show ?thesis by (simp add: millionths_def)
  next
    case False
    have "\<not> shift_round ?d s \<le> U64_MAX" if "s > 20" for s
      using large_overflows [of 1 ?d s] False that by simp
    with x len show ?thesis by (simp add: millionths_def u64_result_def)
  qed
  have small: "shift_round ?d s = 0" if "s < - int (length whole + length fraction)" for s
  proof -
    have "?d < 10 ^ (nat (- s) - 1)"
      using b by (rule less_le_trans) (use that in \<open>auto intro!: power_increasing\<close>)
    then have "shift_round ?d (- int (nat (- s))) = 0"
      by (rule shift_round_small) (use that in simp)
    with that show ?thesis by simp
  qed
  from x len show "u64_result (millionths whole fraction (- int n)) =
      u64_result (millionths whole fraction (- I64_MAX))"
    by (simp add: millionths_def small)
qed

section \<open>The grammar\<close>

lemma digit_not_special:
  "digits ds \<Longrightarrow> c \<in> set ds \<Longrightarrow> 48 \<le> c \<and> c \<le> 57"
  by (auto simp: digits_def list_all_iff is_ascii_digit_def)

lemma parse_exponent_form:
  assumes "e = 101 \<or> e = 69"
  shows "parse_exponent r = Inr y \<longleftrightarrow>
     (\<exists>x. exponent_form (e # r) x \<and> y = max (- I64_MAX) (min x I64_MAX))"
proof -
  define clamp where "clamp x = max (- I64_MAX) (min x I64_MAX)" for x
  have pos: "exponent_fold ds = clamp (int (dec_value ds))" if "digits ds" for ds
    using exponent_fold_clamps [OF that] by (simp add: clamp_def I64_MAX_def)
  have neg: "- exponent_fold ds = clamp (- int (dec_value ds))" if "digits ds" for ds
    using exponent_fold_clamps [OF that] by (simp add: clamp_def I64_MAX_def min_def max_def)
  have form: "exponent_form (e # r) x \<longleftrightarrow>
      (\<exists>ds. ds \<noteq> [] \<and> digits ds \<and>
        ((r = ds \<or> r = 43 # ds) \<and> x = int (dec_value ds) \<or>
         r = 45 # ds \<and> x = - int (dec_value ds)))" for x
    using assms by (auto simp: exponent_form_def)
  show ?thesis
  proof (cases r)
    case Nil
    have "\<not> exponent_form (e # r) x" for x unfolding form unfolding Nil by simp
    with Nil show ?thesis by (simp add: parse_exponent_def)
  next
    case (Cons c t)
    consider "c = 43" | "c = 45" | "c \<noteq> 43" "c \<noteq> 45" by blast
    then show ?thesis
    proof cases
      case 1
      have "exponent_form (e # r) x \<longleftrightarrow> t \<noteq> [] \<and> digits t \<and> x = int (dec_value t)" for x
        unfolding form unfolding Cons 1 by (auto simp: Cons_eq_append_conv is_ascii_digit_def)
      with 1 Cons show ?thesis
        by (auto simp: parse_exponent_def Let_def digits_def [symmetric] pos clamp_def [symmetric])
    next
      case 2
      have "exponent_form (e # r) x \<longleftrightarrow> t \<noteq> [] \<and> digits t \<and> x = - int (dec_value t)" for x
        unfolding form unfolding Cons 2 by (auto simp: Cons_eq_append_conv is_ascii_digit_def)
      with 2 Cons show ?thesis
        by (auto simp: parse_exponent_def Let_def digits_def [symmetric] neg clamp_def [symmetric])
    next
      case 3
      then have "exponent_form (e # r) x \<longleftrightarrow> digits r \<and> x = int (dec_value r)" for x
        unfolding form unfolding Cons by (auto simp: Cons_eq_append_conv)
      with 3 Cons show ?thesis
        by (auto simp: parse_exponent_def Let_def digits_def [symmetric] pos clamp_def [symmetric]
            simp del: digits_simps)
    qed
  qed
qed

lemma mantissa_form_chars: "mantissa_form m w f \<Longrightarrow> c \<in> set m \<Longrightarrow> c = 46 \<or> 48 \<le> c \<and> c \<le> 57"
  by (auto simp: mantissa_form_def dest: digit_not_special)

lemma mantissa_form_nonempty: "mantissa_form m w f \<Longrightarrow> m \<noteq> []"
  by (auto simp: mantissa_form_def)

lemma mantissa_form_split:
  "mantissa_form m w f \<longleftrightarrow>
     (w, f) = (case split_once 46 m of Some p \<Rightarrow> p | None \<Rightarrow> (m, [])) \<and>
     (w \<noteq> [] \<or> f \<noteq> []) \<and> digits w \<and> digits f"
proof (cases "split_once 46 m")
  case None
  then have "46 \<notin> set m" by (simp add: split_once_None_iff)
  with None show ?thesis by (auto simp: mantissa_form_def)
next
  case (Some p)
  obtain a b where p: "p = (a, b)" by fastforce
  with Some have m: "m = a @ 46 # b" "46 \<notin> set a" by (simp_all add: split_once_Some_iff)
  have no46: "46 \<notin> set w" if "digits w" for w
    using digit_not_special [OF that, of 46] by auto
  show ?thesis
  proof
    assume mf: "mantissa_form m w f"
    then have w: "46 \<notin> set w" using no46 by (simp add: mantissa_form_def)
    with mf m(1) have "m = w @ 46 # f" by (auto simp: mantissa_form_def)
    with w have "split_once 46 m = Some (w, f)" by (simp add: split_once_Some_iff)
    with mf show "(w, f) = (case split_once 46 m of Some p \<Rightarrow> p | None \<Rightarrow> (m, [])) \<and>
       (w \<noteq> [] \<or> f \<noteq> []) \<and> digits w \<and> digits f"
      by (simp add: mantissa_form_def)
  next
    assume "(w, f) = (case split_once 46 m of Some p \<Rightarrow> p | None \<Rightarrow> (m, [])) \<and>
       (w \<noteq> [] \<or> f \<noteq> []) \<and> digits w \<and> digits f"
    with Some p m(1) show "mantissa_form m w f" by (auto simp: mantissa_form_def)
  qed
qed

lemma decimal_mantissa_form: "mantissa_form m w f \<Longrightarrow> decimal_mantissa m x = decimal_scale w f x"
  unfolding mantissa_form_split decimal_mantissa_def
  by (auto simp: digits_def split: prod.splits)

lemma decimal_mantissa_invalid:
  "(\<And>w f. \<not> mantissa_form m w f) \<Longrightarrow> decimal_mantissa m x = Inl DInvalid"
  unfolding mantissa_form_split decimal_mantissa_def digits_def
  by (auto split: prod.splits)

lemma split_exponent_None: "split_exponent v = None \<longleftrightarrow> 101 \<notin> set v \<and> 69 \<notin> set v"
proof (cases "dropWhile (\<lambda>c. c \<noteq> 101 \<and> c \<noteq> 69) v")
  case Nil
  then have "split_exponent v = None" by (simp only: split_exponent_def list.case)
  moreover from Nil have "101 \<notin> set v \<and> 69 \<notin> set v" by (auto simp: dropWhile_eq_Nil_conv)
  ultimately show ?thesis by simp
next
  case (Cons e r)
  then have "e \<in> set v" using set_dropWhileD [of e "\<lambda>c. c \<noteq> 101 \<and> c \<noteq> 69" v] by simp
  moreover have "e = 101 \<or> e = 69"
    using hd_dropWhile [of "\<lambda>c. c \<noteq> 101 \<and> c \<noteq> 69" v] Cons by auto
  moreover have "split_exponent v \<noteq> None" by (simp add: split_exponent_def Cons)
  ultimately show ?thesis by auto
qed

lemma split_exponent_Some:
  "split_exponent v = Some (m, r) \<longleftrightarrow>
     (\<exists>e. v = m @ e # r \<and> (e = 101 \<or> e = 69)) \<and> 101 \<notin> set m \<and> 69 \<notin> set m"
proof
  assume "split_exponent v = Some (m, r)"
  then obtain e where d: "dropWhile (\<lambda>c. c \<noteq> 101 \<and> c \<noteq> 69) v = e # r"
    and m: "m = takeWhile (\<lambda>c. c \<noteq> 101 \<and> c \<noteq> 69) v"
    by (auto simp: split_exponent_def split: list.splits)
  have "v = m @ e # r" using takeWhile_dropWhile_id [of "\<lambda>c. c \<noteq> 101 \<and> c \<noteq> 69" v] d m by simp
  moreover have "e = 101 \<or> e = 69"
    using hd_dropWhile [of "\<lambda>c. c \<noteq> 101 \<and> c \<noteq> 69" v] d by auto
  moreover have "101 \<notin> set m \<and> 69 \<notin> set m"
    unfolding m by (auto dest: set_takeWhileD)
  ultimately show "(\<exists>e. v = m @ e # r \<and> (e = 101 \<or> e = 69)) \<and> 101 \<notin> set m \<and> 69 \<notin> set m" by blast
next
  assume a: "(\<exists>e. v = m @ e # r \<and> (e = 101 \<or> e = 69)) \<and> 101 \<notin> set m \<and> 69 \<notin> set m"
  then obtain e where v: "v = m @ e # r" and e: "e = 101 \<or> e = 69" by blast
  have n: "\<And>c. c \<in> set m \<Longrightarrow> c \<noteq> 101 \<and> c \<noteq> 69" using a by auto
  have "dropWhile (\<lambda>c. c \<noteq> 101 \<and> c \<noteq> 69) v = dropWhile (\<lambda>c. c \<noteq> 101 \<and> c \<noteq> 69) (e # r)"
    "takeWhile (\<lambda>c. c \<noteq> 101 \<and> c \<noteq> 69) v = m @ takeWhile (\<lambda>c. c \<noteq> 101 \<and> c \<noteq> 69) (e # r)"
    unfolding v by (rule dropWhile_append2 takeWhile_append2, erule n)+
  with e have "dropWhile (\<lambda>c. c \<noteq> 101 \<and> c \<noteq> 69) v = e # r"
    "takeWhile (\<lambda>c. c \<noteq> 101 \<and> c \<noteq> 69) v = m" by auto
  then show "split_exponent v = Some (m, r)" by (simp add: split_exponent_def)
qed

lemma unsigned_code:
  "decimal_to_millionths t =
     (let v = trim t in
      if starts_with [45] v then Inl DNegative
      else
        let b = (if starts_with [43] v then tl v else v) in
        case split_exponent b of
          Some (m, e) \<Rightarrow> tryE (parse_exponent e) (\<lambda>x. decimal_mantissa m x)
        | None \<Rightarrow> decimal_mantissa b 0)"
proof (cases "trim t")
  case Nil
  then show ?thesis by (simp add: decimal_to_millionths_def strip_prefix_def starts_with_def)
next
  case (Cons a l)
  then show ?thesis by (cases "a = 43") (simp_all add: decimal_to_millionths_def Let_def)
qed

lemma exponent_clamp_result:
  assumes mf: "mantissa_form m w f" and ef: "exponent_form es x"
    and len: "int (length m + length es) \<le> I64_MAX"
  shows "decimal_scale w f (max (- I64_MAX) (min x I64_MAX)) = u64_result (millionths w f x)"
proof -
  have dg: "digits w" "digits f" using mf by (auto simp: mantissa_form_def)
  have wf: "length w + length f \<le> length m" using mf by (auto simp: mantissa_form_def)
  show ?thesis
  proof (cases "\<bar>x\<bar> \<le> I64_MAX")
    case True
    then have "max (- I64_MAX) (min x I64_MAX) = x" by simp
    then show ?thesis by (simp add: decimal_scale_exact [OF dg])
  next
    case False
    then have "x \<noteq> 0" by (auto simp: I64_MAX_def)
    with ef obtain e ds where ds: "digits ds"
      and alt: "(es = e # ds \<or> es = e # 43 # ds) \<and> x = int (dec_value ds) \<or>
        es = e # 45 # ds \<and> x = - int (dec_value ds)"
      by (simp add: exponent_form_def) blast
    then have es: "Suc (length ds) \<le> length es" and x: "x = int (dec_value ds) \<or> x = - int (dec_value ds)"
      by auto
    have big: "I64_MAX < int (dec_value ds)" using False x by auto
    have "19 \<le> length ds"
    proof (rule ccontr)
      assume "\<not> 19 \<le> length ds"
      then have "(10 :: nat) ^ length ds \<le> 10 ^ 18" by (intro power_increasing) auto
      with dec_value_bound [OF ds] have "dec_value ds < 10 ^ 18" by linarith
      with big show False by (simp add: I64_MAX_def)
    qed
    with es wf len have len': "int (length w + length f) + 20 \<le> I64_MAX" by simp
    from x show ?thesis
    proof
      assume x: "x = int (dec_value ds)"
      with big have "max (- I64_MAX) (min x I64_MAX) = I64_MAX" by (simp add: I64_MAX_def)
      then show ?thesis
        using clamp_keeps_result(1) [OF dg len' big] by (simp add: decimal_scale_exact [OF dg] x)
    next
      assume x: "x = - int (dec_value ds)"
      with big have "max (- I64_MAX) (min x I64_MAX) = - I64_MAX" by (simp add: I64_MAX_def)
      then show ?thesis
        using clamp_keeps_result(2) [OF dg len' big] by (simp add: decimal_scale_exact [OF dg] x)
    qed
  qed
qed

lemma form_head:
  assumes "mantissa_form m w f" "exponent_form es x"
  shows "\<not> starts_with [45] (m @ es)" "\<not> starts_with [43] (m @ es)"
proof -
  obtain c r where m: "m = c # r" using mantissa_form_nonempty [OF assms(1)] by (cases m) auto
  then have "c = 46 \<or> 48 \<le> c \<and> c \<le> 57" using mantissa_form_chars [OF assms(1), of c] by simp
  then show "\<not> starts_with [45] (m @ es)" "\<not> starts_with [43] (m @ es)" by (auto simp: m)
qed

lemma form_split_exponent:
  assumes "mantissa_form m w f" "exponent_form es x"
  shows "split_exponent (m @ es) = (case es of [] \<Rightarrow> None | e # r \<Rightarrow> Some (m, r))"
proof (cases es)
  case Nil
  then show ?thesis
    using mantissa_form_chars [OF assms(1), of 101] mantissa_form_chars [OF assms(1), of 69]
    by (auto simp: split_exponent_None)
next
  case (Cons e r)
  then have "e = 101 \<or> e = 69" using assms(2) by (auto simp: exponent_form_def)
  then show ?thesis
    using mantissa_form_chars [OF assms(1), of 101] mantissa_form_chars [OF assms(1), of 69]
    by (auto simp: Cons split_exponent_Some)
qed

lemma decimal_of_form:
  assumes len: "int (length t) \<le> I64_MAX" and df: "decimal_form (trim t) w f x"
  shows "decimal_to_millionths t = u64_result (millionths w f x)"
proof -
  from df obtain sg m es where t: "trim t = sg @ m @ es" and sg: "sg = [] \<or> sg = [43]"
    and mf: "mantissa_form m w f" and ef: "exponent_form es x"
    by (auto simp: decimal_form_def)
  have body: "(if starts_with [43] (trim t) then tl (trim t) else trim t) = m @ es"
    and nneg: "\<not> starts_with [45] (trim t)"
    using sg form_head [OF mf ef] by (auto simp: t)
  have l: "int (length m + length es) \<le> I64_MAX"
    using len length_trim [of t] by (simp add: t)
  show ?thesis
  proof (cases es)
    case Nil
    with ef have "x = 0" by (simp add: exponent_form_def)
    moreover have "decimal_to_millionths t = decimal_mantissa m 0"
      using form_split_exponent [OF mf ef] body nneg by (simp add: unsigned_code Nil)
    ultimately show ?thesis
      using exponent_clamp_result [OF mf ef l] by (simp add: decimal_mantissa_form [OF mf] I64_MAX_def)
  next
    case (Cons e r)
    then have e: "e = 101 \<or> e = 69" using ef by (auto simp: exponent_form_def)
    have "parse_exponent r = Inr (max (- I64_MAX) (min x I64_MAX))"
      using parse_exponent_form [OF e] ef Cons by blast
    then have "decimal_to_millionths t = decimal_mantissa m (max (- I64_MAX) (min x I64_MAX))"
      using form_split_exponent [OF mf ef] body nneg by (simp add: unsigned_code Cons)
    then show ?thesis
      using exponent_clamp_result [OF mf ef l] by (simp add: decimal_mantissa_form [OF mf])
  qed
qed

lemma decimal_of_no_form:
  assumes none: "\<And>w f x. \<not> decimal_form (trim t) w f x"
  shows "decimal_to_millionths t = (if starts_with [45] (trim t) then Inl DNegative else Inl DInvalid)"
proof -
  define b where "b = (if starts_with [43] (trim t) then tl (trim t) else trim t)"
  have t: "\<exists>sg. trim t = sg @ b \<and> (sg = [] \<or> sg = [43])"
    by (cases "trim t") (auto simp: b_def)
  have nf: "\<not> (mantissa_form m w f \<and> exponent_form es x)" if "b = m @ es" for m es w f x
    using none t that unfolding decimal_form_def by metis
  have "(case split_exponent b of Some (m, e) \<Rightarrow> tryE (parse_exponent e) (\<lambda>x. decimal_mantissa m x)
        | None \<Rightarrow> decimal_mantissa b 0) = Inl DInvalid"
  proof (cases "split_exponent b")
    case None
    have "\<not> mantissa_form b w f" for w f
      using nf [of b "[]" w f 0] by (simp add: exponent_form_def)
    with None show ?thesis by (simp add: decimal_mantissa_invalid)
  next
    case (Some p)
    obtain m r where p: "p = (m, r)" by fastforce
    with Some obtain e where b: "b = m @ e # r" and e: "e = 101 \<or> e = 69"
      by (auto simp: split_exponent_Some)
    show ?thesis
    proof (cases "parse_exponent r")
      case (Inl er)
      then have "er = DInvalid" by (auto simp: parse_exponent_def Let_def split: if_splits list.splits)
      with Inl Some p show ?thesis by simp
    next
      case (Inr y)
      then obtain x where "exponent_form (e # r) x" using parse_exponent_form [OF e] by blast
      with nf [OF b] have "\<not> mantissa_form m w f" for w f by blast
      with Inr Some p show ?thesis by (simp add: decimal_mantissa_invalid)
    qed
  qed
  then show ?thesis by (simp add: unsigned_code b_def [symmetric] Let_def)
qed

lemma negative_no_form: "starts_with [45] t \<Longrightarrow> \<not> decimal_form t w f x"
  using form_head by (fastforce simp: decimal_form_def)

section \<open>Properties\<close>

text \<open>C37: The parser returns exactly what the text denotes: for every text that fits in memory,
  the number of millionths rounded to the nearest integer with ties up when the text is a
  decimal and the number fits in a \<open>u64\<close>, an overflow when it does not fit, a sign error for a
  leading minus, and an invalid-input error for every other text. In particular the saturating
  exponent and the early exits never change a result.\<close>

theorem decimal_to_millionths_exact:
  assumes "int (length t) \<le> I64_MAX"
  shows "decimal_to_millionths t = r \<longleftrightarrow>
    (\<exists>w f x. decimal_form (trim t) w f x \<and> r = u64_result (millionths w f x)) \<or>
    ((\<nexists>w f x. decimal_form (trim t) w f x) \<and>
       r = Inl (if starts_with [45] (trim t) then DNegative else DInvalid))"
  using decimal_of_form [OF assms] decimal_of_no_form [of t] by fastforce

theorem decimal_to_millionths_exact_witness:
  "decimal_form (trim (lit ''1.2345675e0'')) (lit ''1'') (lit ''2345675'') 0 \<and>
   decimal_to_millionths (lit ''1.2345675e0'') = Inr 1234568"
proof -
  have t: "trim (lit ''1.2345675e0'') = lit ''1.2345675e0''"
    by (simp add: str_simps is_whitespace_def)
  have form: "decimal_form (lit ''1.2345675e0'') (lit ''1'') (lit ''2345675'') 0"
    unfolding decimal_form_def mantissa_form_def exponent_form_def
    by (rule exI [of _ "[]"], rule exI [of _ "lit ''1.2345675''"], rule exI [of _ "lit ''e0''"])
       (simp add: lit_def digits_def is_ascii_digit_def dec_value_def)
  have v: "u64_result (millionths (lit ''1'') (lit ''2345675'') 0) = Inr 1234568"
    by (simp add: u64_result_def millionths_def shift_round_def lit_def dec_value_def U64_MAX_def)
  have "int (length (lit ''1.2345675e0'')) \<le> I64_MAX" by (simp add: I64_MAX_def)
  from decimal_to_millionths_exact [OF this, of "Inr 1234568"] form v t show ?thesis by metis
qed

end
