(* ===== verification/SB_Model.thy ===== *)
theory SB_Model
  imports SB_Access SB_Url
begin

text \<open>
  The shared data model (\<open>src/crates/shared/src/model.rs\<close>): identities' tokens, profiles,
  sessions, recordings, usage, search and fetch requests, with every request validator.

  A \<open>DateTime<Utc>\<close> is an integer number of nanoseconds since the epoch and a \<open>NaiveDate\<close>
  the number of a day. URL parsing is the parameter \<open>url_parser\<close>.
\<close>

type_synonym instant = int
type_synonym date = int

definition NANOS_PER_SECOND :: int where "NANOS_PER_SECOND = 1000000000"

text \<open>\<open>TimeDelta::num_seconds\<close> truncates towards zero.\<close>

definition num_seconds :: "int \<Rightarrow> int" where
  "num_seconds d = (if d < 0 then - (- d div NANOS_PER_SECOND) else d div NANOS_PER_SECOND)"

definition date_naive :: "instant \<Rightarrow> date" where
  "date_naive t = t div (86400 * NANOS_PER_SECOND)"

section \<open>Authentication requests and sessions\<close>

definition opaque_auth_token :: "str \<Rightarrow> string \<Rightarrow> label \<Rightarrow> validation_error + unit" where
  "opaque_auth_token value pre field =
     (if \<not> starts_with (lit pre) value \<or> utf8_len value = utf8_len (lit pre) \<or>
         utf8_len value > 16 * 1024 \<or> list_ex (\<lambda>c. is_whitespace c \<or> is_control c) value
      then Inl (VInvalid field
             (''expected one bounded '' @ pre @ '' token without whitespace or controls''))
      else Inr ())"

definition auth_exchange_validate :: "str \<Rightarrow> validation_error + unit" where
  "auth_exchange_validate short_lived_token =
     tryE (opaque_auth_token short_lived_token ''slt_'' ''short_lived_token'') (\<lambda>_. Inr ())"

definition auth_refresh_validate :: "str \<Rightarrow> validation_error + unit" where
  "auth_refresh_validate refresh_token =
     tryE (opaque_auth_token refresh_token ''sar_'' ''refresh_token'') (\<lambda>_. Inr ())"

record auth_session =
  as_access_token :: str
  as_refresh_token :: str
  as_expires_at :: instant
  as_identity :: identity
  as_services :: "str list"

definition auth_session_validate :: "'u uuid_api \<Rightarrow> auth_session \<Rightarrow> validation_error + unit" where
  "auth_session_validate u s =
     tryE (guardE (accounts_access_token (as_access_token s))
            (VInvalid ''access_token'' ''expected a bounded Silicon Accounts JWT'')) (\<lambda>_.
     tryE (opaque_auth_token (as_refresh_token s) ''sar_'' ''refresh_token'') (\<lambda>_.
     tryE (identity_validate u (as_identity s)) (\<lambda>_.
       checkallE (\<lambda>service. safe_identifier service ''services'') (as_services s))))"

section \<open>Profiles\<close>

record proxy_location =
  pl_code :: str
  pl_name :: str
  pl_country :: "str option"

definition location_validate :: "proxy_location \<Rightarrow> validation_error + unit" where
  "location_validate l =
     tryE (required_field (pl_code l) ''location.code'') (\<lambda>_.
       required_field (pl_name l) ''location.name'')"

datatype profile_status = PActive | PRetired

record profile =
  p_id :: str
  p_name :: str
  p_fingerprint :: str
  p_location :: proxy_location
  p_access :: access_list
  p_owner_id :: str
  p_sessions_run :: nat
  p_status :: profile_status
  p_created_at :: instant
  p_ended_at :: "instant option"
  p_end_note :: "str option"

record profile_create =
  pc_name :: str
  pc_location :: str
  pc_access :: access_list

definition profile_create_validate :: "'u uuid_api \<Rightarrow> profile_create \<Rightarrow> validation_error + unit" where
  "profile_create_validate u r =
     tryE (bounded (pc_name r) ''name'' 100) (\<lambda>_.
       if utf8_len (pc_location r) \<noteq> 2 \<or> \<not> list_all is_ascii_alphabetic (pc_location r)
       then Inl (VInvalid ''location'' ''expected a two-letter provider location code'')
       else access_validate u (pc_access r))"

record profile_update =
  pu_name :: "str option"
  pu_access :: "access_list option"

definition profile_update_validate :: "'u uuid_api \<Rightarrow> profile_update \<Rightarrow> validation_error + unit" where
  "profile_update_validate u r =
     (if pu_name r = None \<and> pu_access r = None then Inl (VRequired ''name or access'')
      else
        tryE (case pu_name r of Some name \<Rightarrow> bounded name ''name'' 100 | None \<Rightarrow> Inr ()) (\<lambda>_.
          case pu_access r of Some access \<Rightarrow> access_validate u access | None \<Rightarrow> Inr ()))"

definition profile_end_validate :: "str \<Rightarrow> validation_error + unit" where
  "profile_end_validate note = bounded note ''note'' 4000"

section \<open>Sessions\<close>

datatype session_ttl = Minutes15 | Minutes30 | Minutes45 | Minutes60 | Minutes120 | Minutes240

definition ttl_all :: "session_ttl list" where
  "ttl_all = [Minutes15, Minutes30, Minutes45, Minutes60, Minutes120, Minutes240]"

fun ttl_minutes :: "session_ttl \<Rightarrow> nat" where
  "ttl_minutes Minutes15 = 15"
| "ttl_minutes Minutes30 = 30"
| "ttl_minutes Minutes45 = 45"
| "ttl_minutes Minutes60 = 60"
| "ttl_minutes Minutes120 = 120"
| "ttl_minutes Minutes240 = 240"

definition ttl_seconds :: "session_ttl \<Rightarrow> int" where
  "ttl_seconds t = int (ttl_minutes t) * 60"

definition ttl_display :: "session_ttl \<Rightarrow> str" where
  "ttl_display t = dec_digits (ttl_minutes t) @ [109]"

definition ttl_from_str :: "str \<Rightarrow> validation_error + session_ttl" where
  "ttl_from_str value =
     (if value = lit ''15m'' then Inr Minutes15
      else if value = lit ''30m'' then Inr Minutes30
      else if value = lit ''45m'' then Inr Minutes45
      else if value = lit ''60m'' then Inr Minutes60
      else if value = lit ''120m'' then Inr Minutes120
      else if value = lit ''240m'' then Inr Minutes240
      else Inl (VInvalid ''ttl'' ''expected 15m, 30m, 45m, 60m, 120m, or 240m''))"

datatype session_status = SActive | SEnded | SExpired

record money =
  m_currency :: str
  m_micros :: nat

record usage_cost =
  uc_browser :: money
  uc_proxy_in :: money
  uc_proxy_out :: money
  uc_proxy_unclassified :: money
  uc_total :: money

record usage_total =
  ut_sessions :: nat
  ut_browser_seconds :: nat
  ut_proxy_bytes_in :: nat
  ut_proxy_bytes_out :: nat
  ut_proxy_bytes_unclassified :: nat
  ut_cost :: usage_cost

record session =
  s_id :: str
  s_profile_id :: "str option"
  s_incognito :: bool
  s_location :: "proxy_location option"
  s_name :: str
  s_description :: str
  s_status :: session_status
  s_initiator_id :: str
  s_participant_ids :: "str list"
  s_ttl :: session_ttl
  s_started_at :: instant
  s_expires_at :: instant
  s_ended_at :: "instant option"
  s_end_note :: "str option"
  s_usage :: usage_total

definition session_is_participant :: "session \<Rightarrow> str \<Rightarrow> bool" where
  "session_is_participant s identity_id \<longleftrightarrow>
     same_principal (s_initiator_id s) identity_id \<or>
     list_ex (\<lambda>p. same_principal p identity_id) (s_participant_ids s)"

definition ttl_left_seconds_at :: "session \<Rightarrow> instant \<Rightarrow> nat" where
  "ttl_left_seconds_at s now =
     (if s_status s = SActive then nat (max (num_seconds (s_expires_at s - now)) 0) else 0)"

record session_create =
  sc_profile_id :: "str option"
  sc_incognito :: bool
  sc_name :: str
  sc_description :: str
  sc_ttl :: session_ttl

definition session_create_validate :: "session_create \<Rightarrow> validation_error + unit" where
  "session_create_validate r =
     tryE (case (sc_profile_id r, sc_incognito r) of
             (Some _, True) \<Rightarrow> Inl (VConflict ''profile_id'' ''incognito'')
           | (None, False) \<Rightarrow> Inl (VRequired ''profile_id or incognito'')
           | (Some profile_id, False) \<Rightarrow> safe_identifier profile_id ''profile_id''
           | (None, True) \<Rightarrow> Inr ()) (\<lambda>_.
     tryE (bounded (sc_name r) ''name'' 120) (\<lambda>_.
       bounded (sc_description r) ''description'' 2000))"

definition session_end_validate :: "str \<Rightarrow> validation_error + unit" where
  "session_end_validate note = bounded note ''note'' 4000"

definition live_redeem_validate :: "str \<Rightarrow> validation_error + unit" where
  "live_redeem_validate grant =
     tryE (bounded grant ''grant'' (64 * 1024)) (\<lambda>_.
       if list_ex (\<lambda>c. is_whitespace c \<or> is_control c) grant
       then Inl (VInvalid ''grant'' ''expected one opaque value without whitespace or controls'')
       else Inr ())"

definition validate_http_url :: "url_parser \<Rightarrow> str \<Rightarrow> label \<Rightarrow> validation_error + unit" where
  "validate_http_url parse value field =
     (if length value > 16384 then Inl (VTooLong field 16384)
      else
        tryE (map_err (VInvalid field) (parse value)) (\<lambda>parsed.
          if (url_scheme parsed \<noteq> lit ''http'' \<and> url_scheme parsed \<noteq> lit ''https'') \<or>
             url_hostpart parsed = None
          then Inl (VInvalid field ''expected an absolute http(s) URL'')
          else Inr ()))"

record live_link =
  ll_session_id :: str
  ll_url :: str
  ll_expires_at :: instant

definition live_link_validate :: "url_parser \<Rightarrow> live_link \<Rightarrow> validation_error + unit" where
  "live_link_validate parse l =
     tryE (safe_identifier (ll_session_id l) ''session_id'') (\<lambda>_.
       validate_http_url parse (ll_url l) ''url'')"

section \<open>Recordings and usage\<close>

datatype recording_status = RPending | RAvailable | RTrashed | RFailed

record recording =
  r_session_id :: str
  r_profile_id :: "str option"
  r_incognito :: bool
  r_session_name :: str
  r_session_description :: str
  r_owner_id :: str
  r_participant_ids :: "str list"
  r_briefcase_path :: str
  r_briefcase_link :: "str option"
  r_delivery_error :: "str option"
  r_duration_seconds :: nat
  r_size_bytes :: nat
  r_status :: recording_status
  r_created_at :: instant
  r_trashed_at :: "instant option"
  r_purge_at :: "instant option"

definition recording_private_path :: "str \<Rightarrow> str \<Rightarrow> validation_error + str" where
  "recording_private_path owner_id session_id =
     tryE (safe_identifier owner_id ''owner_id'') (\<lambda>_.
     tryE (safe_identifier session_id ''session_id'') (\<lambda>_.
       Inr (lit ''private/'' @ owner_id @ lit ''/sb/'' @ session_id)))"

definition recording_is_participant :: "recording \<Rightarrow> str \<Rightarrow> bool" where
  "recording_is_participant r identity_id \<longleftrightarrow>
     same_principal (r_owner_id r) identity_id \<or>
     list_ex (\<lambda>p. same_principal p identity_id) (r_participant_ids r)"

record usage =
  u_session_id :: str
  u_started_at :: instant
  u_principal_ids :: "str list"
  u_browser_seconds :: nat
  u_proxy_bytes_in :: nat
  u_proxy_bytes_out :: nat
  u_proxy_bytes_unclassified :: nat
  u_cost :: usage_cost

definition usage_is_for :: "usage \<Rightarrow> str \<Rightarrow> bool" where
  "usage_is_for u identity_id \<longleftrightarrow> list_ex (\<lambda>p. same_principal p identity_id) (u_principal_ids u)"

section \<open>Search, fetch and run requests\<close>

datatype search_type = Web | News | Research

record search_request =
  sq_query :: str
  sq_type :: search_type
  sq_include_domains :: "str list"
  sq_exclude_domains :: "str list"
  sq_location :: "str option"
  sq_language :: "str option"
  sq_recency_minutes :: "nat option"
  sq_after :: "date option"
  sq_before :: "date option"
  sq_pub_year_min :: "int option"
  sq_pub_year_max :: "int option"
  sq_page :: nat

text \<open>\<open>trim_start_matches("*.")\<close> for the two-character pattern.\<close>

fun trim_wildcards :: "str \<Rightarrow> str" where
  "trim_wildcards (a # b # s) = (if a = 42 \<and> b = 46 then trim_wildcards s else a # b # s)"
| "trim_wildcards s = s"

definition validate_domain :: "url_parser \<Rightarrow> str \<Rightarrow> label \<Rightarrow> validation_error + unit" where
  "validate_domain parse value field =
     tryE (bounded value field 253) (\<lambda>_.
       if list_ex is_whitespace value \<or> 47 \<in> set value \<or> contains_sub (lit ''://'') value
       then Inl (VInvalid field ''expected a hostname, not a URL'')
       else
         tryE (map_err (VInvalid field) (parse (lit ''https://'' @ trim_wildcards value))) (\<lambda>parsed.
           if url_hostpart parsed = None then Inl (VInvalid field ''expected a hostname'') else Inr ()))"

definition option_gt :: "'a option \<Rightarrow> 'a option \<Rightarrow> ('a \<Rightarrow> 'a \<Rightarrow> bool) \<Rightarrow> bool" where
  "option_gt a b gt = (case (a, b) of (Some x, Some y) \<Rightarrow> gt x y | _ \<Rightarrow> False)"

definition search_request_validate :: "url_parser \<Rightarrow> search_request \<Rightarrow> validation_error + unit" where
  "search_request_validate parse r =
     tryE (bounded (sq_query r) ''query'' 16384) (\<lambda>_.
     tryE (collection_len (length (sq_include_domains r)) ''include_domains'' 100) (\<lambda>_.
     tryE (collection_len (length (sq_exclude_domains r)) ''exclude_domains'' 100) (\<lambda>_.
     tryE (guardE (\<not> sq_page r > 10) (VOutOfRange ''page'' 0 10)) (\<lambda>_.
     tryE (guardE (sq_recency_minutes r \<noteq> Some 0) (VOutOfRange ''recency_minutes'' 1 (2 ^ 64 - 1))) (\<lambda>_.
     tryE (guardE (\<not> (sq_recency_minutes r \<noteq> None \<and> (sq_after r \<noteq> None \<or> sq_before r \<noteq> None)))
            (VConflict ''recency_minutes'' ''after/before'')) (\<lambda>_.
     tryE (guardE (\<not> option_gt (sq_after r) (sq_before r) (>))
            (VInvalid ''after'' ''must not be later than before'')) (\<lambda>_.
     tryE (guardE (\<not> ((sq_pub_year_min r \<noteq> None \<or> sq_pub_year_max r \<noteq> None) \<and> sq_type r \<noteq> Research))
            (VInvalid ''pub_year_min/pub_year_max''
               ''publication years are available only for research search'')) (\<lambda>_.
     tryE (guardE (\<not> option_gt (sq_pub_year_min r) (sq_pub_year_max r) (>))
            (VInvalid ''pub_year_min'' ''must not exceed pub_year_max'')) (\<lambda>_.
     tryE (checkallE (\<lambda>d. validate_domain parse d ''include_domains'') (sq_include_domains r)) (\<lambda>_.
     tryE (checkallE (\<lambda>d. validate_domain parse d ''exclude_domains'') (sq_exclude_domains r)) (\<lambda>_.
     tryE (case sq_location r of Some v \<Rightarrow> bounded v ''location'' 256 | None \<Rightarrow> Inr ()) (\<lambda>_.
       case sq_language r of Some v \<Rightarrow> bounded v ''language'' 256 | None \<Rightarrow> Inr ()))))))))))))"

datatype fetch_format = Markdown | Html | Json

record fetch_request =
  fr_urls :: "str list"
  fr_format :: fetch_format
  fr_links :: bool
  fr_image_links :: bool
  fr_ttl_seconds :: "nat option"
  fr_timeout_ms :: "nat option"
  fr_include_selectors :: "str list"
  fr_exclude_selectors :: "str list"

definition UPSTREAM_BATCH_SIZE :: nat where "UPSTREAM_BATCH_SIZE = 10"

text \<open>\<open>chunks(n)\<close> of a slice, for a positive \<open>n\<close>.\<close>

function chunks :: "nat \<Rightarrow> 'a list \<Rightarrow> 'a list list" where
  "chunks n xs = (if xs = [] \<or> n = 0 then [] else take n xs # chunks n (drop n xs))"
  by auto
termination by (relation "measure (\<lambda>(n, xs). length xs)") auto

declare chunks.simps [simp del]

definition batches :: "fetch_request \<Rightarrow> str list list" where
  "batches r = chunks UPSTREAM_BATCH_SIZE (fr_urls r)"

definition validate_selectors :: "str list \<Rightarrow> label \<Rightarrow> validation_error + unit" where
  "validate_selectors selectors field =
     tryE (collection_len (length selectors) field 20) (\<lambda>_.
       checkallE (\<lambda>selector. bounded selector field 4096) selectors)"

definition USIZE_MAX :: nat where "USIZE_MAX = 18446744073709551615"

definition fetch_request_validate :: "url_parser \<Rightarrow> fetch_request \<Rightarrow> validation_error + unit" where
  "fetch_request_validate parse r =
     (if fr_urls r = [] then Inl (VRequired ''urls'')
      else
       tryE (collection_len (length (fr_urls r)) ''urls'' 1000) (\<lambda>_.
       tryE (checkallE (\<lambda>u. validate_http_url parse u ''urls'') (fr_urls r)) (\<lambda>_.
       tryE (case fr_timeout_ms r of
               Some timeout \<Rightarrow>
                 guardE (1 \<le> timeout \<and> timeout \<le> 110000) (VOutOfRange ''timeout_ms'' 1 110000)
             | None \<Rightarrow> Inr ()) (\<lambda>_.
       tryE (collection_len
              (min (length (fr_include_selectors r) + length (fr_exclude_selectors r)) USIZE_MAX)
              ''include_selectors/exclude_selectors'' 20) (\<lambda>_.
       tryE (validate_selectors (fr_include_selectors r) ''include_selectors'') (\<lambda>_.
         validate_selectors (fr_exclude_selectors r) ''exclude_selectors''))))))"

record run_request =
  rr_session_id :: str
  rr_command :: str
  rr_flags :: "str list"

definition run_request_validate :: "run_request \<Rightarrow> validation_error + unit" where
  "run_request_validate r =
     tryE (safe_identifier (rr_session_id r) ''session_id'') (\<lambda>_.
     tryE (bounded (rr_command r) ''command'' 1048576) (\<lambda>_.
     tryE (guardE (0 \<notin> set (rr_command r)) (VInvalid ''command'' ''must not contain NUL'')) (\<lambda>_.
     tryE (collection_len (length (rr_flags r)) ''flags'' 256) (\<lambda>_.
       checkallE (\<lambda>flag.
         if length flag > 16384 then Inl (VTooLong ''flags'' 16384)
         else if 0 \<in> set flag then Inl (VInvalid ''flags'' ''must not contain NUL'')
         else Inr ()) (rr_flags r)))))"

record search_result =
  sr_rank :: nat
  sr_title :: str
  sr_url :: str
  sr_snippet :: "str option"
  sr_published_at :: "instant option"

record search_response =
  sp_results :: "search_result list"
  sp_page :: nat
  sp_queued_ms :: nat

datatype fetch_status = FetchOk | FetchError

record field_error =
  fe_field :: str
  fe_message :: str

record api_error =
  ae_code :: str
  ae_message :: str
  ae_fields :: "field_error list"
  ae_details :: "(str \<times> str) list"
  ae_request_id :: "str option"
  ae_retry_after_ms :: "nat option"

record fetch_item =
  fi_url :: str
  fi_status :: fetch_status
  fi_content :: "str option"
  fi_links :: "str list"
  fi_image_links :: "str list"
  fi_error :: "api_error option"
  fi_cached :: bool

record fetch_response =
  fp_items :: "fetch_item list"
  fp_queued_ms :: nat

record 'a envelope =
  env_data :: 'a
  env_request_id :: "str option"

definition envelope_map :: "('a \<Rightarrow> 'b) \<Rightarrow> 'a envelope \<Rightarrow> 'b envelope" where
  "envelope_map f e = \<lparr>env_data = f (env_data e), env_request_id = env_request_id e\<rparr>"

section \<open>What the validators guarantee\<close>

lemma ttl_display_texts [simp]:
  "ttl_display Minutes15 = lit ''15m''" "ttl_display Minutes30 = lit ''30m''"
  "ttl_display Minutes45 = lit ''45m''" "ttl_display Minutes60 = lit ''60m''"
  "ttl_display Minutes120 = lit ''120m''" "ttl_display Minutes240 = lit ''240m''"
  by (simp_all add: ttl_display_def lit_def dec_digits.simps)

lemma ttl_from_str_display: "ttl_from_str (ttl_display t) = Inr t"
  by (cases t) (simp_all add: ttl_from_str_def lit_def)

lemma ttl_from_str_Inr: "ttl_from_str v = Inr t \<Longrightarrow> v = ttl_display t"
  by (auto simp: ttl_from_str_def split: if_splits)

lemma ttl_seconds_bounds: "900 \<le> ttl_seconds t" "ttl_seconds t \<le> 14400"
  by (cases t; simp add: ttl_seconds_def)+

lemma ttl_seconds_inject [simp]: "ttl_seconds a = ttl_seconds b \<longleftrightarrow> a = b"
  by (cases a; cases b) (simp_all add: ttl_seconds_def)

lemma session_create_validate_ok:
  "session_create_validate r = Inr u \<longleftrightarrow>
     (sc_incognito r \<longleftrightarrow> sc_profile_id r = None) \<and>
     (\<forall>p. sc_profile_id r = Some p \<longrightarrow> safe_identifier p ''profile_id'' = Inr ()) \<and>
     trim (sc_name r) \<noteq> [] \<and> length (sc_name r) \<le> 120 \<and>
     trim (sc_description r) \<noteq> [] \<and> length (sc_description r) \<le> 2000"
  by (auto simp: session_create_validate_def split: option.splits bool.splits)

lemma profile_update_validate_ok:
  "profile_update_validate u r = Inr x \<longleftrightarrow>
     (pu_name r \<noteq> None \<or> pu_access r \<noteq> None) \<and>
     (\<forall>n. pu_name r = Some n \<longrightarrow> trim n \<noteq> [] \<and> length n \<le> 100) \<and>
     (\<forall>a. pu_access r = Some a \<longrightarrow> access_validate u a = Inr ())"
  by (auto simp: profile_update_validate_def split: option.splits)

lemma ttl_left_bound:
  assumes "s_started_at s \<le> now" "s_expires_at s = s_started_at s + ttl_seconds (s_ttl s) * NANOS_PER_SECOND"
  shows "int (ttl_left_seconds_at s now) \<le> ttl_seconds (s_ttl s)"
proof -
  have "num_seconds (s_expires_at s - now) \<le> ttl_seconds (s_ttl s)"
  proof (cases "s_expires_at s - now < 0")
    case True
    then have "num_seconds (s_expires_at s - now) \<le> 0"
      by (simp add: num_seconds_def NANOS_PER_SECOND_def pos_imp_zdiv_nonneg_iff)
    then show ?thesis using ttl_seconds_bounds(1) [of "s_ttl s"] by linarith
  next
    case False
    have "(s_expires_at s - now) div NANOS_PER_SECOND \<le>
          (ttl_seconds (s_ttl s) * NANOS_PER_SECOND) div NANOS_PER_SECOND"
      using assms by (intro zdiv_mono1) (simp_all add: NANOS_PER_SECOND_def)
    with False show ?thesis by (simp add: num_seconds_def NANOS_PER_SECOND_def)
  qed
  then show ?thesis
    using ttl_seconds_bounds(1) [of "s_ttl s"] by (simp add: ttl_left_seconds_at_def)
qed

text \<open>Batches keep the caller's order and lose nothing.\<close>

lemma chunks_Nil [simp]: "chunks n [] = []"
  by (simp add: chunks.simps)

lemma chunks_nonempty: "0 < n \<Longrightarrow> xs \<noteq> [] \<Longrightarrow> chunks n xs = take n xs # chunks n (drop n xs)"
  by (subst chunks.simps) simp

lemma concat_chunks: "0 < n \<Longrightarrow> concat (chunks n xs) = xs"
proof (induction n xs rule: chunks.induct)
  case (1 n xs)
  then show ?case by (cases "xs = []") (simp_all add: chunks_nonempty)
qed

lemma chunk_sizes: "c \<in> set (chunks n xs) \<Longrightarrow> 0 < length c \<and> length c \<le> n"
proof (induction n xs rule: chunks.induct)
  case (1 n xs)
  show ?case
  proof (cases "xs = [] \<or> n = 0")
    case True
    with 1 show ?thesis by (auto simp: chunks.simps [of n xs])
  next
    case False
    with 1 show ?thesis by (auto simp: chunks_nonempty)
  qed
qed

lemma length_chunks: "0 < n \<Longrightarrow> length (chunks n xs) = (length xs + n - 1) div n"
proof (induction n xs rule: chunks.induct)
  case (1 n xs)
  show ?case
  proof (cases "xs = []")
    case True
    with 1 show ?thesis by simp
  next
    case ne: False
    have "0 < n" by (rule 1(2))
    show ?thesis
    proof (cases "n \<le> length xs")
      case True
      then have "(length xs + n - 1) div n = Suc ((length xs - 1) div n)"
        using 1(2) by (metis Nat.add_diff_assoc2 One_nat_def Suc_leI add.commute div_add_self2 length_greater_0_conv ne not_gr0 plus_1_eq_Suc)
      with 1 ne True show ?thesis by (simp add: chunks_nonempty)
    next
      case False
      obtain a where a: "length xs = Suc a" using ne by (cases xs) auto
      have "(length xs + n - 1) div n = 1"
        using False \<open>0 < n\<close> by (intro div_nat_eqI) (simp_all add: a)
      with False ne 1(2) show ?thesis by (simp add: chunks_nonempty)
    qed
  qed
qed

lemma fetch_request_ok_bounds:
  assumes "fetch_request_validate parse r = Inr u"
  shows "fr_urls r \<noteq> []" "length (fr_urls r) \<le> 1000"
    "length (fr_include_selectors r) \<le> 20" "length (fr_exclude_selectors r) \<le> 20"
  using assms by (auto simp: fetch_request_validate_def validate_selectors_def split: if_splits)

end
