(* ===== verification/SB_Filter.thy ===== *)
theory SB_Filter
  imports SB_Model
begin

text \<open>
  Filter pipelines (\<open>src/crates/shared/src/filter.rs\<close>): text patterns, the stage parser and
  the three services' parsers and matchers. Unicode case folding (\<open>to_lowercase\<close>) and the date
  parser of the \<open>chrono\<close> crate are parameters.
\<close>

section \<open>Errors and patterns\<close>

datatype filter_error =
    FEmptyStage nat
  | FMissingColon nat
  | FUnsupported string str
  | FInvalid str string

definition MAX_FILTER_CHARS :: nat where "MAX_FILTER_CHARS = 16384"
definition MAX_FILTER_STAGES :: nat where "MAX_FILTER_STAGES = 64"
definition MAX_FILTER_VALUE_CHARS :: nat where "MAX_FILTER_VALUE_CHARS = 4096"
definition MAX_FILTER_PRINCIPAL_CHARS :: nat where "MAX_FILTER_PRINCIPAL_CHARS = 512"

type_synonym text_pattern = str

definition text_pattern_new :: "str \<Rightarrow> filter_error + text_pattern" where
  "text_pattern_new value =
     (if trim value = [] then Inl (FInvalid (lit ''pattern'') ''value is required'')
      else if length value > MAX_FILTER_VALUE_CHARS
        then Inl (FInvalid (lit ''pattern'') ''must be at most 4096 characters'')
      else Inr (trim value))"

text \<open>The loop of \<open>glob_matches\<close>; offsets count characters, a slice is a \<open>drop\<close>.\<close>

fun glob_loop :: "bool \<Rightarrow> nat \<Rightarrow> str \<Rightarrow> nat \<Rightarrow> str list \<Rightarrow> nat option" where
  "glob_loop starts_with_wildcard index candidate offset [] = Some offset"
| "glob_loop starts_with_wildcard index candidate offset (part # parts) =
     (case find_sub part (drop offset candidate) of
        None \<Rightarrow> None
      | Some found \<Rightarrow>
          if index = 0 \<and> \<not> starts_with_wildcard \<and> found \<noteq> 0 then None
          else glob_loop starts_with_wildcard (index + 1) candidate (offset + (found + length part)) parts)"

definition glob_matches :: "str \<Rightarrow> str \<Rightarrow> bool \<Rightarrow> bool" where
  "glob_matches pattern candidate prefix_only =
     (if 42 \<notin> set pattern then pattern = candidate
      else
        let starts_with_wildcard = starts_with [42] pattern;
            ends_with_wildcard = ends_with [42] pattern;
            parts = filter (\<lambda>part. part \<noteq> []) (split_char 42 pattern)
        in if parts = [] then True
           else case glob_loop starts_with_wildcard 0 candidate 0 parts of
                  None \<Rightarrow> False
                | Some offset \<Rightarrow> prefix_only \<or> ends_with_wildcard \<or> offset = length candidate)"

definition pattern_matches :: "(str \<Rightarrow> str) \<Rightarrow> text_pattern \<Rightarrow> str \<Rightarrow> bool" where
  "pattern_matches lower self text =
     (let pattern = lower self; candidate = lower text in
      case strip_prefix [94] pattern of
        Some pre \<Rightarrow>
          if 42 \<in> set pre then glob_matches pre candidate True else starts_with pre candidate
      | None \<Rightarrow> glob_matches pattern candidate False)"

section \<open>Stages\<close>

type_synonym stage = "nat \<times> str \<times> str"

definition filter_invalid :: "str \<Rightarrow> string \<Rightarrow> filter_error" where
  "filter_invalid key reason = FInvalid key reason"

definition stage_key :: "nat \<Rightarrow> str \<Rightarrow> str" where
  "stage_key n key = key @ lit '' (stage '' @ dec_digits n @ lit '')''"

definition stage_step :: "nat \<times> str \<Rightarrow> filter_error + stage" where
  "stage_step = (\<lambda>(index, raw).
     let stage = index + 1 in
     if stage > MAX_FILTER_STAGES
     then Inl (filter_invalid (lit ''filter'') ''must contain at most 64 stages'')
     else
       let raw = trim raw in
       if raw = [] then Inl (FEmptyStage stage)
       else case split_once 58 raw of
              None \<Rightarrow> Inl (FMissingColon stage)
            | Some (key, value) \<Rightarrow>
                let key = to_ascii_lower (trim key); value = trim value in
                if key = [] then Inl (FMissingColon stage) else Inr (stage, key, value))"

definition stages :: "str \<Rightarrow> filter_error + stage list" where
  "stages value =
     (if trim value = [] then Inr []
      else if length value > MAX_FILTER_CHARS
        then Inl (filter_invalid (lit ''filter'') ''must be at most 16384 characters'')
      else traverseE stage_step (enumerate 0 (split_pair 45 62 value)))"

definition filter_principal :: "'u uuid_api \<Rightarrow> str \<Rightarrow> str \<Rightarrow> filter_error + str" where
  "filter_principal u key raw =
     (let value = (case strip_prefix [64] (trim raw) of Some r \<Rightarrow> r | None \<Rightarrow> trim raw) in
      if is_ok (account_id u value ''for'') then Inr value
      else tryE (map_err (\<lambda>_. filter_invalid key
                   ''invalid for: expected c:<carbon-handle> or si:<silicon-handle>'')
                  (actor_id value ''for'')) (\<lambda>_. Inr value))"

definition resource_id :: "str \<Rightarrow> str \<Rightarrow> string \<Rightarrow> filter_error + str" where
  "resource_id key raw expected =
     (let value = trim raw in
      if value = [] \<or> length value > MAX_FILTER_PRINCIPAL_CHARS \<or>
         list_ex (\<lambda>ch. is_control ch \<or> is_whitespace ch \<or> ch = 47 \<or> ch = 92) value
      then Inl (filter_invalid key (''expected '' @ expected))
      else Inr value)"

definition filter_pattern :: "str \<Rightarrow> str \<Rightarrow> filter_error + text_pattern" where
  "filter_pattern key value =
     map_err (\<lambda>_. filter_invalid key ''value is required'') (text_pattern_new value)"

definition filter_date :: "(str \<Rightarrow> date option) \<Rightarrow> str \<Rightarrow> str \<Rightarrow> filter_error + date" where
  "filter_date parse_date key value =
     ok_or (filter_invalid key ''expected a valid DD-MM-YYYY date'') (parse_date (trim value))"

section \<open>The session service\<close>

datatype session_facet = FacetActive | FacetEnded | FacetExpired | FacetIncognito | FacetMine

datatype session_predicate =
    SessionIs session_facet
  | SessionFor str
  | SessionName text_pattern
  | SessionDescription text_pattern

definition session_stage :: "'u uuid_api \<Rightarrow> stage \<Rightarrow> filter_error + session_predicate" where
  "session_stage u = (\<lambda>(stage, key, value).
     if key = lit ''is'' then
       (let v = to_ascii_lower value in
        if v = lit ''active'' then Inr (SessionIs FacetActive)
        else if v = lit ''ended'' then Inr (SessionIs FacetEnded)
        else if v = lit ''expired'' then Inr (SessionIs FacetExpired)
        else if v = lit ''incognito'' then Inr (SessionIs FacetIncognito)
        else if v = lit ''mine'' then Inr (SessionIs FacetMine)
        else Inl (filter_invalid key ''expected active, ended, expired, incognito, or mine''))
     else if key = lit ''for'' then tryE (filter_principal u key value) (\<lambda>p. Inr (SessionFor p))
     else if key = lit ''name'' then tryE (filter_pattern key value) (\<lambda>p. Inr (SessionName p))
     else if key = lit ''description'' then
       tryE (filter_pattern key value) (\<lambda>p. Inr (SessionDescription p))
     else Inl (FUnsupported ''session'' (stage_key stage key)))"

definition session_filter_parse :: "'u uuid_api \<Rightarrow> str \<Rightarrow> filter_error + session_predicate list" where
  "session_filter_parse u value = tryE (stages value) (traverseE (session_stage u))"

fun session_predicate_matches :: "(str \<Rightarrow> str) \<Rightarrow> session \<Rightarrow> str \<Rightarrow> session_predicate \<Rightarrow> bool" where
  "session_predicate_matches lower s viewer_id (SessionIs FacetActive) = (s_status s = SActive)"
| "session_predicate_matches lower s viewer_id (SessionIs FacetEnded) = (s_status s = SEnded)"
| "session_predicate_matches lower s viewer_id (SessionIs FacetExpired) = (s_status s = SExpired)"
| "session_predicate_matches lower s viewer_id (SessionIs FacetIncognito) = s_incognito s"
| "session_predicate_matches lower s viewer_id (SessionIs FacetMine) = session_is_participant s viewer_id"
| "session_predicate_matches lower s viewer_id (SessionFor i) = session_is_participant s i"
| "session_predicate_matches lower s viewer_id (SessionName p) = pattern_matches lower p (s_name s)"
| "session_predicate_matches lower s viewer_id (SessionDescription p) =
     pattern_matches lower p (s_description s)"

definition session_filter_matches :: "(str \<Rightarrow> str) \<Rightarrow> session_predicate list \<Rightarrow> session \<Rightarrow> str \<Rightarrow> bool" where
  "session_filter_matches lower ps s viewer_id =
     list_all (session_predicate_matches lower s viewer_id) ps"

section \<open>The recording service\<close>

datatype recording_facet = RecIncognito | RecMine | RecShared

datatype recording_predicate =
    RecordingContains str
  | RecordingProfile str
  | RecordingFor str
  | RecordingName text_pattern
  | RecordingDescription text_pattern
  | RecordingIs recording_facet

definition recording_stage :: "'u uuid_api \<Rightarrow> stage \<Rightarrow> filter_error + recording_predicate" where
  "recording_stage u = (\<lambda>(stage, key, value).
     if key = lit ''contains'' \<and> length value > MAX_FILTER_VALUE_CHARS then
       Inl (filter_invalid key ''must be at most 4096 characters'')
     else if key = lit ''contains'' \<and> value \<noteq> [] then Inr (RecordingContains value)
     else if key = lit ''contains'' then Inl (filter_invalid key ''value is required'')
     else if key = lit ''profile'' then
       tryE (resource_id key value ''profile id'') (\<lambda>p. Inr (RecordingProfile p))
     else if key = lit ''for'' then tryE (filter_principal u key value) (\<lambda>p. Inr (RecordingFor p))
     else if key = lit ''name'' then tryE (filter_pattern key value) (\<lambda>p. Inr (RecordingName p))
     else if key = lit ''description'' then
       tryE (filter_pattern key value) (\<lambda>p. Inr (RecordingDescription p))
     else if key = lit ''is'' then
       (let v = to_ascii_lower value in
        if v = lit ''incognito'' then Inr (RecordingIs RecIncognito)
        else if v = lit ''mine'' then Inr (RecordingIs RecMine)
        else if v = lit ''shared'' then Inr (RecordingIs RecShared)
        else Inl (filter_invalid key ''expected incognito, mine, or shared''))
     else Inl (FUnsupported ''recording'' (stage_key stage key)))"

definition recording_filter_parse :: "'u uuid_api \<Rightarrow> str \<Rightarrow> filter_error + recording_predicate list" where
  "recording_filter_parse u value = tryE (stages value) (traverseE (recording_stage u))"

fun recording_predicate_matches ::
  "(str \<Rightarrow> str) \<Rightarrow> recording \<Rightarrow> identity \<Rightarrow> recording_predicate \<Rightarrow> bool" where
  "recording_predicate_matches lower r viewer (RecordingContains needle) =
     (contains_sub (lower needle) (lower (r_session_name r)) \<or>
      contains_sub (lower needle) (lower (r_session_description r)))"
| "recording_predicate_matches lower r viewer (RecordingProfile p) = (r_profile_id r = Some p)"
| "recording_predicate_matches lower r viewer (RecordingFor i) = recording_is_participant r i"
| "recording_predicate_matches lower r viewer (RecordingName p) =
     pattern_matches lower p (r_session_name r)"
| "recording_predicate_matches lower r viewer (RecordingDescription p) =
     pattern_matches lower p (r_session_description r)"
| "recording_predicate_matches lower r viewer (RecordingIs RecIncognito) = r_incognito r"
| "recording_predicate_matches lower r viewer (RecordingIs RecMine) = matches_principal viewer (r_owner_id r)"
| "recording_predicate_matches lower r viewer (RecordingIs RecShared) =
     (\<not> matches_principal viewer (r_owner_id r))"

definition recording_filter_matches ::
  "(str \<Rightarrow> str) \<Rightarrow> recording_predicate list \<Rightarrow> recording \<Rightarrow> identity \<Rightarrow> bool" where
  "recording_filter_matches lower ps r viewer = list_all (recording_predicate_matches lower r viewer) ps"

section \<open>The usage service\<close>

datatype usage_predicate = UsageBetween date date | UsageFor str

definition usage_stage ::
  "'u uuid_api \<Rightarrow> (str \<Rightarrow> date option) \<Rightarrow> stage \<Rightarrow> filter_error + usage_predicate" where
  "usage_stage u parse_date = (\<lambda>(stage, key, value).
     if key = lit ''between'' then
       tryE (ok_or (filter_invalid key ''expected DD-MM-YYYY=DD-MM-YYYY'') (split_once 61 value))
         (\<lambda>(start, fin).
       tryE (filter_date parse_date key start) (\<lambda>start.
       tryE (filter_date parse_date key fin) (\<lambda>fin.
         if start > fin then Inl (filter_invalid key ''start must not be later than end'')
         else Inr (UsageBetween start fin))))
     else if key = lit ''for'' then tryE (filter_principal u key value) (\<lambda>p. Inr (UsageFor p))
     else Inl (FUnsupported ''usage'' (stage_key stage key)))"

definition usage_filter_parse ::
  "'u uuid_api \<Rightarrow> (str \<Rightarrow> date option) \<Rightarrow> str \<Rightarrow> filter_error + usage_predicate list" where
  "usage_filter_parse u parse_date value = tryE (stages value) (traverseE (usage_stage u parse_date))"

fun usage_predicate_matches :: "usage \<Rightarrow> usage_predicate \<Rightarrow> bool" where
  "usage_predicate_matches x (UsageBetween start fin) =
     (start \<le> date_naive (u_started_at x) \<and> date_naive (u_started_at x) \<le> fin)"
| "usage_predicate_matches x (UsageFor i) = usage_is_for x i"

definition usage_filter_matches :: "usage_predicate list \<Rightarrow> usage \<Rightarrow> bool" where
  "usage_filter_matches ps x = list_all (usage_predicate_matches x) ps"

section \<open>Patterns against their specification\<close>

text \<open>
  A pattern denotes its pieces between wildcards, in order, with any text in place of each
  wildcard. \<open>open_tail\<close> leaves the end free, \<open>closed_tail\<close> ends with the last piece.
\<close>

fun open_tail :: "str list \<Rightarrow> str \<Rightarrow> bool" where
  "open_tail [] r \<longleftrightarrow> True"
| "open_tail (p # ps) r \<longleftrightarrow> (\<exists>x s. r = x @ p @ s \<and> open_tail ps s)"

fun closed_tail :: "str list \<Rightarrow> str \<Rightarrow> bool" where
  "closed_tail [] r \<longleftrightarrow> r = []"
| "closed_tail (p # ps) r \<longleftrightarrow> (\<exists>x s. r = x @ p @ s \<and> closed_tail ps s)"

definition wildcard_match :: "str \<Rightarrow> str \<Rightarrow> bool" where
  "wildcard_match pattern text \<longleftrightarrow>
     (\<exists>r. text = hd (split_char 42 pattern) @ r \<and> closed_tail (tl (split_char 42 pattern)) r)"

definition wildcard_prefix_match :: "str \<Rightarrow> str \<Rightarrow> bool" where
  "wildcard_prefix_match pattern text \<longleftrightarrow>
     (\<exists>r. text = hd (split_char 42 pattern) @ r \<and> open_tail (tl (split_char 42 pattern)) r)"

lemma open_tail_extend: "open_tail ps s \<Longrightarrow> open_tail ps (x @ s)"
proof (cases ps)
  case (Cons p qs)
  moreover assume "open_tail ps s"
  ultimately obtain y t where "s = y @ p @ t" "open_tail qs t" by auto
  then have "x @ s = (x @ y) @ p @ t" "open_tail qs t" by simp_all
  with Cons show ?thesis by (metis open_tail.simps(2))
qed simp

lemma open_tail_filter: "open_tail (filter (\<lambda>p. p \<noteq> []) ps) r \<longleftrightarrow> open_tail ps r"
proof (induction ps arbitrary: r)
  case (Cons p ps)
  show ?case
  proof (cases "p = []")
    case True
    have "open_tail (p # ps) r \<longleftrightarrow> open_tail ps r"
      using open_tail_extend [of ps] True by auto
    with Cons True show ?thesis by simp
  qed (simp add: Cons)
qed simp

lemma closed_open_snoc: "closed_tail (ps @ [[]]) r \<longleftrightarrow> open_tail ps r"
  by (induction ps arbitrary: r) auto

lemma open_open_snoc: "open_tail (ps @ [[]]) r \<longleftrightarrow> open_tail ps r"
  by (induction ps arbitrary: r) auto

lemma piece_split:
  assumes "take (length p) (drop i d) = p"
  shows "d = take i d @ p @ drop (i + length p) d"
proof -
  have "drop i d = p @ drop (length p) (drop i d)"
    using append_take_drop_id [of "length p" "drop i d"] assms by simp
  then have "d = take i d @ p @ drop (length p) (drop i d)"
    using append_take_drop_id [of i d] by simp
  then show ?thesis by (simp add: add.commute)
qed

text \<open>The leftmost-match loop succeeds exactly when the pieces occur in order.\<close>

lemma glob_loop_open:
  assumes "0 < index \<or> sw"
  shows "(\<exists>off. glob_loop sw index c offset parts = Some off) \<longleftrightarrow> open_tail parts (drop offset c)"
  using assms
proof (induction parts arbitrary: index offset)
  case (Cons p ps)
  show ?case
  proof (cases "find_sub p (drop offset c)")
    case None
    have "\<not> drop offset c = x @ p @ s" for x s
      using find_sub_least [of p "length x" "x @ p @ s"] None by auto
    with None show ?thesis by auto
  next
    case (Some i)
    let ?d = "drop offset c"
    have split: "?d = take i ?d @ p @ drop (i + length p) ?d"
      using find_sub_Some [OF Some] by (intro piece_split) blast
    have rest: "drop (offset + (i + length p)) c = drop (i + length p) ?d"
      by (simp add: drop_drop add.commute)
    have "open_tail (p # ps) ?d \<longleftrightarrow> open_tail ps (drop (i + length p) ?d)"
    proof
      assume "open_tail (p # ps) ?d"
      then obtain x s where d: "?d = x @ p @ s" and t: "open_tail ps s" by auto
      obtain j where "j \<le> length x" "find_sub p ?d = Some j"
        using find_sub_least [of p "length x" ?d] d by auto
      with Some have i: "i \<le> length x" by simp
      have "drop (i + length p) ?d = drop (i + length p) (x @ p) @ s"
        using i by (simp add: d)
      with t show "open_tail ps (drop (i + length p) ?d)" by (simp add: open_tail_extend)
    next
      assume "open_tail ps (drop (i + length p) ?d)"
      with split show "open_tail (p # ps) ?d" by auto
    qed
    with Some Cons.prems Cons.IH [of "index + 1" "offset + (i + length p)"] show ?thesis
      by (auto simp: rest)
  qed
qed simp

lemma glob_loop_closed:
  "glob_loop sw index c offset parts = Some off \<Longrightarrow> offset \<le> length c \<Longrightarrow>
   closed_tail parts (drop offset (take off c)) \<and> offset \<le> off \<and> off \<le> length c"
proof (induction parts arbitrary: index offset)
  case Nil
  then show ?case by simp
next
  case (Cons p ps)
  then obtain i where f: "find_sub p (drop offset c) = Some i"
    and r: "glob_loop sw (index + 1) c (offset + (i + length p)) ps = Some off"
    by (auto split: option.splits if_splits)
  have fs: "i + length p \<le> length c - offset" "take (length p) (drop i (drop offset c)) = p"
    using find_sub_Some [OF f] by auto
  with Cons.prems have le: "offset + (i + length p) \<le> length c" by simp
  from Cons.IH [OF r le] have ih: "closed_tail ps (drop (offset + (i + length p)) (take off c))"
    "offset + (i + length p) \<le> off" "off \<le> length c" by auto
  let ?d = "drop offset (take off c)"
  have "take (length p) (drop i ?d) = p"
  proof -
    have "length p \<le> off - (offset + i)" using ih(2) by linarith
    with fs(2) show ?thesis by (simp add: drop_take min_def add.commute)
  qed
  then have "?d = take i ?d @ p @ drop (i + length p) ?d"
    by (rule piece_split)
  moreover have "drop (i + length p) ?d = drop (offset + (i + length p)) (take off c)"
    by (simp add: drop_drop add.commute)
  ultimately have "?d = take i ?d @ p @ drop (i + length p) ?d \<and> closed_tail ps (drop (i + length p) ?d)"
    using ih(1) by simp
  then have "closed_tail (p # ps) ?d" unfolding closed_tail.simps by blast
  with ih(2,3) show ?case by simp
qed


lemma split_char_no_star: "42 \<notin> set p \<Longrightarrow> split_char 42 p = [p]"
  by (induction p) auto

lemma split_char_star: "42 \<in> set p \<Longrightarrow> tl (split_char 42 p) \<noteq> []"
  by (induction p) (auto split: list.splits)

lemma split_char_hd: "hd (split_char 42 p) = [] \<longleftrightarrow> p = [] \<or> starts_with [42] p"
  by (cases p) (auto split: list.splits)

lemma split_char_snoc:
  "split_char c (p @ [d]) =
     (if d = c then split_char c p @ [[]]
      else butlast (split_char c p) @ [last (split_char c p) @ [d]])"
  by (induction p) (auto split: list.splits)

lemma ends_with_star: "ends_with [42] p \<longleftrightarrow> p \<noteq> [] \<and> last p = 42"
  by (cases p rule: rev_cases) (auto simp: ends_with_def starts_with_def)

lemma last_split_star: "ends_with [42] p \<Longrightarrow> 42 \<in> set p \<Longrightarrow>
   \<exists>ps. tl (split_char 42 p) = ps @ [[]]"
proof (cases p rule: rev_cases)
  case (snoc q d)
  moreover assume "ends_with [42] p"
  ultimately have "split_char 42 p = split_char 42 q @ [[]]" by (simp add: ends_with_star split_char_snoc)
  then have "tl (split_char 42 p) = tl (split_char 42 q) @ [[]]" by (simp add: tl_append2)
  then show ?thesis by blast
qed simp

text \<open>An open end (a trailing wildcard, or an anchored prefix): the match is exact.\<close>

lemma glob_first:
  assumes "p0 \<noteq> []"
  shows "(\<exists>off. glob_loop False 0 c 0 (p0 # parts) = Some off) \<longleftrightarrow>
         (\<exists>r. c = p0 @ r \<and> open_tail parts r)"
proof (cases "starts_with p0 c")
  case True
  then have c: "c = p0 @ drop (length p0) c"
    by (metis append_take_drop_id starts_with_def)
  then have "find_sub p0 c = Some 0"
    using find_sub_least [of p0 0 c] True by (auto simp: starts_with_def)
  then have "glob_loop False 0 c 0 (p0 # parts) = glob_loop False 1 c (length p0) parts" by simp
  then have "(\<exists>off. glob_loop False 0 c 0 (p0 # parts) = Some off) \<longleftrightarrow> open_tail parts (drop (length p0) c)"
    using glob_loop_open [of 1 False c "length p0" parts] by simp
  also have "\<dots> \<longleftrightarrow> (\<exists>r. c = p0 @ r \<and> open_tail parts r)"
    using c by (metis append_eq_conv_conj)
  finally show ?thesis .
next
  case False
  have "\<not> (\<exists>r. c = p0 @ r)" using False by (auto simp: starts_with_def)
  moreover have "find_sub p0 c \<noteq> Some 0"
    using find_sub_Some [of p0 c 0] False by (auto simp: starts_with_def)
  ultimately show ?thesis by (auto split: option.splits)
qed

lemma glob_parts:
  assumes "42 \<in> set p"
  shows "(filter (\<lambda>q. q \<noteq> []) (split_char 42 p) = [] \<or>
          (\<exists>off. glob_loop (starts_with [42] p) 0 c 0 (filter (\<lambda>q. q \<noteq> []) (split_char 42 p)) = Some off))
         \<longleftrightarrow> wildcard_prefix_match p c"
proof -
  obtain p0 ps where sp: "split_char 42 p = p0 # ps" by (cases "split_char 42 p") auto
  let ?ps = "filter (\<lambda>q. q \<noteq> []) ps"
  have w: "wildcard_prefix_match p c \<longleftrightarrow> (\<exists>r. c = p0 @ r \<and> open_tail ?ps r)"
    by (simp add: wildcard_prefix_match_def sp open_tail_filter)
  have sw: "starts_with [42] p \<longleftrightarrow> p0 = []"
    using split_char_hd [of p] assms by (auto simp: sp)
  show ?thesis
  proof (cases "p0 = []")
    case True
    have "open_tail ?ps c \<longleftrightarrow> ?ps = [] \<or> (\<exists>off. glob_loop True 0 c 0 ?ps = Some off)"
      using glob_loop_open [of 0 True c 0 ?ps] by (cases "?ps = []") simp_all
    with True show ?thesis by (simp add: w sw sp)
  next
    case False
    then show ?thesis using glob_first [OF False, of c ?ps] by (simp add: w sw sp del: glob_loop.simps)
  qed
qed

lemma glob_open_exact:
  assumes "42 \<in> set p" "prefix_only \<or> ends_with [42] p"
  shows "glob_matches p c prefix_only \<longleftrightarrow> wildcard_prefix_match p c"
  using assms(2) glob_parts [OF assms(1), of c] assms(1)
  by (auto simp: glob_matches_def Let_def split: option.splits)

lemma wildcard_open: "42 \<in> set p \<Longrightarrow> ends_with [42] p \<Longrightarrow> wildcard_match p c \<longleftrightarrow> wildcard_prefix_match p c"
  using last_split_star [of p]
  by (auto simp: wildcard_match_def wildcard_prefix_match_def closed_open_snoc open_open_snoc)

lemma glob_trailing_exact:
  assumes "ends_with [42] p"
  shows "glob_matches p c False \<longleftrightarrow> wildcard_match p c"
proof -
  have star: "42 \<in> set p" using assms by (cases p rule: rev_cases) (auto simp: ends_with_star)
  then show ?thesis
    using glob_open_exact [OF star, of False c] wildcard_open [OF star assms] assms by simp
qed

lemma glob_literal_exact: "42 \<notin> set p \<Longrightarrow> glob_matches p c b \<longleftrightarrow> wildcard_match p c"
  by (auto simp: glob_matches_def wildcard_match_def split_char_no_star)

lemma closed_tail_unfilter: "closed_tail (filter (\<lambda>p. p \<noteq> []) ps) r \<Longrightarrow> closed_tail ps r"
proof (induction ps arbitrary: r)
  case (Cons p ps)
  show ?case
  proof (cases "p = []")
    case True
    with Cons have "r = [] @ p @ r \<and> closed_tail ps r" by simp
    then show ?thesis unfolding closed_tail.simps by blast
  next
    case False
    with Cons show ?thesis by auto
  qed
qed simp

lemma glob_sound:
  assumes "glob_matches p c False"
  shows "wildcard_match p c"
proof (cases "42 \<notin> set p \<or> ends_with [42] p")
  case True
  with assms show ?thesis using glob_literal_exact glob_trailing_exact by blast
next
  case False
  then have star: "42 \<in> set p" and nend: "\<not> ends_with [42] p" by auto
  obtain p0 ps where sp: "split_char 42 p = p0 # ps" by (cases "split_char 42 p") auto
  let ?ps = "filter (\<lambda>q. q \<noteq> []) ps" and ?all = "filter (\<lambda>q. q \<noteq> []) (split_char 42 p)"
  have sw: "starts_with [42] p \<longleftrightarrow> p0 = []"
    using split_char_hd [of p] star by (auto simp: sp)
  have ne: "?all \<noteq> []"
  proof
    assume "?all = []"
    then have e: "\<forall>q \<in> set (split_char 42 p). q = []" by (simp add: filter_empty_conv)
    obtain q d where p: "p = q @ [d]" using star by (cases p rule: rev_cases) auto
    with nend have "d \<noteq> 42" by (simp add: ends_with_star)
    with p have "last (split_char 42 p) \<noteq> []" "last (split_char 42 p) \<in> set (split_char 42 p)"
      by (simp_all add: split_char_snoc)
    with e show False by blast
  qed
  with assms star nend have loop: "glob_loop (starts_with [42] p) 0 c 0 ?all = Some (length c)"
    by (auto simp: glob_matches_def Let_def split: option.splits)
  have "\<exists>r. c = p0 @ r \<and> closed_tail ?ps r"
  proof (cases "p0 = []")
    case True
    with glob_loop_closed [OF loop] show ?thesis by (simp add: sp)
  next
    case nz: False
    with loop have f: "find_sub p0 c = Some 0"
      and l: "glob_loop False 1 c (length p0) ?ps = Some (length c)"
      by (auto simp: sw sp split: option.splits if_splits)
    from find_sub_Some [OF f] have "c = p0 @ drop (length p0) c"
      by (metis append_take_drop_id drop0)
    moreover have "closed_tail ?ps (drop (length p0) c)"
      using glob_loop_closed [OF l] find_sub_Some [OF f] by simp
    ultimately show ?thesis by blast
  qed
  then show ?thesis
    using closed_tail_unfilter by (auto simp: wildcard_match_def sp)
qed

section \<open>Which of them a closed end finds\<close>

text \<open>The texts in which every piece is taken where it occurs first.\<close>

fun first_tail :: "str list \<Rightarrow> str \<Rightarrow> bool" where
  "first_tail [] r \<longleftrightarrow> r = []"
| "first_tail (p # ps) r \<longleftrightarrow>
     (\<exists>x s. r = x @ p @ s \<and> (\<forall>y t. r = y @ p @ t \<longrightarrow> length x \<le> length y) \<and> first_tail ps s)"

definition leftmost_match :: "str \<Rightarrow> str \<Rightarrow> bool" where
  "leftmost_match pattern text \<longleftrightarrow>
     (\<exists>r. text = hd (split_char 42 pattern) @ r \<and>
        first_tail (filter (\<lambda>part. part \<noteq> []) (tl (split_char 42 pattern))) r)"

definition only_at_end :: "str \<Rightarrow> str \<Rightarrow> bool" where
  "only_at_end q text \<longleftrightarrow> (\<forall>x y. text = x @ q @ y \<longrightarrow> y = [])"

lemma find_sub_piece:
  assumes "find_sub p d = Some i"
  shows "d = take i d @ p @ drop (i + length p) d" "i \<le> length d"
proof -
  from find_sub_Some [OF assms] have at: "i + length p \<le> length d" "take (length p) (drop i d) = p" by auto
  from at(2) show "d = take i d @ p @ drop (i + length p) d" by (rule piece_split)
  from at(1) show "i \<le> length d" by simp
qed

lemma first_tail_Cons:
  "first_tail (p # ps) d \<longleftrightarrow> (\<exists>i. find_sub p d = Some i \<and> first_tail ps (drop (i + length p) d))"
proof
  assume "first_tail (p # ps) d"
  then obtain x s where d: "d = x @ p @ s" and first: "\<And>y t. d = y @ p @ t \<Longrightarrow> length x \<le> length y" and t: "first_tail ps s"
    by auto
  obtain j where j: "j \<le> length x" "find_sub p d = Some j" using find_sub_least [of p "length x" d] d by auto
  with first [OF find_sub_piece(1) [OF j(2)]] find_sub_piece(2) [OF j(2)] have "j = length x" by simp
  with j(2) t d show "\<exists>i. find_sub p d = Some i \<and> first_tail ps (drop (i + length p) d)" by auto
next
  assume "\<exists>i. find_sub p d = Some i \<and> first_tail ps (drop (i + length p) d)"
  then obtain i where i: "find_sub p d = Some i" "first_tail ps (drop (i + length p) d)" by blast
  have "length (take i d) \<le> length y" if "d = y @ p @ t" for y t
    using find_sub_least [of p "length y" d] that i(1) by auto
  with i(2) find_sub_piece [OF i(1)] show "first_tail (p # ps) d" unfolding first_tail.simps by blast
qed

lemma glob_loop_first:
  assumes "0 < index \<or> sw" "offset \<le> length c"
  shows "glob_loop sw index c offset parts = Some (length c) \<longleftrightarrow> first_tail parts (drop offset c)"
  using assms
proof (induction parts arbitrary: index offset)
  case (Cons p ps)
  show ?case
  proof (cases "find_sub p (drop offset c)")
    case None
    then show ?thesis by (simp add: first_tail_Cons del: first_tail.simps)
  next
    case (Some i)
    with find_sub_Some [OF Some] Cons.prems have "offset + (i + length p) \<le> length c" by auto
    with Cons.IH [of "index + 1" "offset + (i + length p)"] Some Cons.prems show ?thesis
      by (auto simp: first_tail_Cons drop_drop add.commute add.left_commute simp del: first_tail.simps)
  qed
qed auto

lemma parts_of_closed:
  assumes "42 \<in> set p" "\<not> ends_with [42] p"
  shows "last (split_char 42 p) \<noteq> []" "tl (split_char 42 p) \<noteq> []"
proof -
  obtain q d where p: "p = q @ [d]" using assms(1) by (cases p rule: rev_cases) auto
  with assms(2) show "last (split_char 42 p) \<noteq> []" by (auto simp: ends_with_star split_char_snoc)
  show "tl (split_char 42 p) \<noteq> []" by (rule split_char_star [OF assms(1)])
qed

lemma glob_closed_loop:
  assumes "42 \<in> set p" "\<not> ends_with [42] p"
  shows "glob_matches p c False \<longleftrightarrow>
    glob_loop (starts_with [42] p) 0 c 0 (filter (\<lambda>q. q \<noteq> []) (split_char 42 p)) = Some (length c)"
proof -
  have "last (split_char 42 p) \<in> set (split_char 42 p)" by (cases "split_char 42 p") auto
  with parts_of_closed [OF assms] have "filter (\<lambda>q. q \<noteq> []) (split_char 42 p) \<noteq> []"
    by (auto simp: filter_empty_conv)
  with assms show ?thesis by (auto simp: glob_matches_def Let_def split: option.splits)
qed

lemma glob_leftmost:
  assumes "42 \<in> set p" "\<not> ends_with [42] p"
  shows "glob_matches p c False \<longleftrightarrow> leftmost_match p c"
proof -
  obtain p0 ps where sp: "split_char 42 p = p0 # ps" by (cases "split_char 42 p") auto
  let ?ps = "filter (\<lambda>q. q \<noteq> []) ps"
  have sw: "starts_with [42] p \<longleftrightarrow> p0 = []" using split_char_hd [of p] assms by (auto simp: sp)
  show ?thesis
  proof (cases "p0 = []")
    case True
    then show ?thesis
      using glob_loop_first [of 0 True 0 c ?ps] by (simp add: glob_closed_loop [OF assms] sw leftmost_match_def sp)
  next
    case ne: False
    show ?thesis
    proof (cases "starts_with p0 c")
      case True
      then have c: "c = p0 @ drop (length p0) c" by (metis append_take_drop_id starts_with_def)
      then have "find_sub p0 c = Some 0" using find_sub_least [of p0 0 c] True by (auto simp: starts_with_def)
      then have "glob_matches p c False \<longleftrightarrow> glob_loop False 1 c (length p0) ?ps = Some (length c)"
        using ne by (simp add: glob_closed_loop [OF assms] sw sp)
      also have "\<dots> \<longleftrightarrow> first_tail ?ps (drop (length p0) c)"
      proof (rule glob_loop_first)
        show "length p0 \<le> length c" using c by (metis length_append le_add1)
      qed simp
      also have "\<dots> \<longleftrightarrow> leftmost_match p c" using c by (auto simp: leftmost_match_def sp)
      finally show ?thesis .
    next
      case False
      then have "find_sub p0 c \<noteq> Some 0" using find_sub_Some [of p0 c 0] by (auto simp: starts_with_def)
      then have "\<not> glob_matches p c False" using ne by (auto simp: glob_closed_loop [OF assms] sw sp split: option.splits)
      moreover have "\<not> leftmost_match p c" using False by (auto simp: leftmost_match_def sp starts_with_def)
      ultimately show ?thesis by simp
    qed
  qed
qed

text \<open>The loop ends behind an occurrence of its last piece.\<close>

lemma glob_loop_last:
  "glob_loop sw index c offset (ps @ [q]) = Some off \<Longrightarrow> offset \<le> length c \<Longrightarrow>
   \<exists>x y. c = x @ q @ y \<and> off = length x + length q"
proof (induction ps arbitrary: index offset)
  case Nil
  then obtain i where f: "find_sub q (drop offset c) = Some i" "off = offset + (i + length q)"
    by (auto split: option.splits if_splits)
  have "c = (take offset c @ take i (drop offset c)) @ q @ drop (i + length q) (drop offset c)"
    using find_sub_piece(1) [OF f(1)] by (metis append.assoc append_take_drop_id)
  moreover have "off = length (take offset c @ take i (drop offset c)) + length q"
    using f find_sub_piece(2) [OF f(1)] Nil.prems(2) by simp
  ultimately show ?case by blast
next
  case (Cons p ps)
  from Cons.prems(1) obtain i where f: "find_sub p (drop offset c) = Some i"
    and loop: "glob_loop sw (index + 1) c (offset + (i + length p)) (ps @ [q]) = Some off"
    by (auto split: option.splits if_splits)
  from find_sub_Some [OF f] Cons.prems(2) have "offset + (i + length p) \<le> length c" by auto
  from Cons.IH [OF loop this] show ?case .
qed

lemma glob_single_end:
  assumes "42 \<in> set p" "\<not> ends_with [42] p" "only_at_end (last (split_char 42 p)) c"
  shows "glob_matches p c False \<longleftrightarrow> wildcard_match p c"
proof
  assume "glob_matches p c False"
  then show "wildcard_match p c" by (rule glob_sound)
next
  assume "wildcard_match p c"
  then obtain r where "c = hd (split_char 42 p) @ r" "closed_tail (tl (split_char 42 p)) r"
    by (auto simp: wildcard_match_def)
  moreover have "closed_tail ps r \<Longrightarrow> open_tail ps r" for ps r by (induction ps arbitrary: r) auto
  ultimately have "wildcard_prefix_match p c" by (auto simp: wildcard_prefix_match_def)
  moreover have "split_char 42 p \<noteq> []" using parts_of_closed(2) [OF assms(1,2)] by auto
  then obtain ps where ps: "split_char 42 p = ps @ [last (split_char 42 p)]" by (metis append_butlast_last_id)
  have parts: "filter (\<lambda>q. q \<noteq> []) (split_char 42 p) = filter (\<lambda>q. q \<noteq> []) ps @ [last (split_char 42 p)]"
    by (subst ps) (simp add: parts_of_closed(1) [OF assms(1,2)])
  ultimately obtain off where loop: "glob_loop (starts_with [42] p) 0 c 0
      (filter (\<lambda>q. q \<noteq> []) ps @ [last (split_char 42 p)]) = Some off"
    using glob_parts [OF assms(1), of c] by auto
  from glob_loop_last [OF this] obtain x y where "c = x @ last (split_char 42 p) @ y" "off = length x + length (last (split_char 42 p))"
    by auto
  with assms(3) have "off = length c" by (auto simp: only_at_end_def)
  with loop parts show "glob_matches p c False" by (simp add: glob_closed_loop [OF assms(1,2)])
qed


section \<open>Pipelines\<close>

lemma split_pair_join:
  "a \<noteq> b \<Longrightarrow> split_pair a b (u @ a # b # v) = split_pair a b u @ split_pair a b v"
proof (induction a b u rule: split_pair.induct)
  case (2 a b x)
  then show ?case by (cases "split_pair a b v") auto
next
  case (3 a b x y xs)
  then show ?case by (auto split: list.splits)
qed simp

lemma enumerate_append: "enumerate n (xs @ ys) = enumerate n xs @ enumerate (n + length xs) ys"
  by (simp add: enumerate_append_eq)

lemma stage_step_Inr:
  "stage_step (n, raw) = Inr (k, key, v) \<Longrightarrow> m < MAX_FILTER_STAGES \<Longrightarrow>
   stage_step (m, raw) = Inr (m + 1, key, v)"
  by (auto simp: stage_step_def Let_def split: if_splits option.splits)

lemma stage_step_bound: "stage_step (n, raw) = Inr x \<Longrightarrow> n < MAX_FILTER_STAGES"
  by (auto simp: stage_step_def Let_def split: if_splits)

text \<open>
  The contract of a filter service: its parser runs the shared stage splitter and then its own
  stage parser, whose success does not depend on the stage's number.
\<close>

locale filter_service =
  fixes parse :: "str \<Rightarrow> filter_error + 'p list"
    and stage_parser :: "stage \<Rightarrow> filter_error + 'p"
  assumes parse_eq: "parse v = tryE (stages v) (traverseE stage_parser)"
    and stage_number: "stage_parser (n, key, value) = Inr p \<Longrightarrow> stage_parser (m, key, value) = Inr p"
begin

lemma blank: "trim v = [] \<Longrightarrow> parse v = Inr []"
  by (simp add: parse_eq stages_def)

definition one :: "str \<Rightarrow> 'p \<Rightarrow> bool" where
  "one raw p \<longleftrightarrow> (\<exists>n key value. stage_step (0, raw) = Inr (n, key, value) \<and> stage_parser (n, key, value) = Inr p)"

lemma numbered:
  "(\<exists>ss. traverseE stage_step (enumerate n raws) = Inr ss \<and> traverseE stage_parser ss = Inr ps) \<longleftrightarrow>
     (raws = [] \<or> n + length raws \<le> MAX_FILTER_STAGES) \<and> list_all2 one raws ps"
proof (induction raws arbitrary: n ps)
  case Nil
  then show ?case by auto
next
  case (Cons raw raws)
  show ?case
  proof (cases "stage_step (n, raw)")
    case (Inl e)
    have "\<not> (n + length (raw # raws) \<le> MAX_FILTER_STAGES \<and> one raw p)" for p
    proof
      assume a: "n + length (raw # raws) \<le> MAX_FILTER_STAGES \<and> one raw p"
      then obtain k key v where "stage_step (0, raw) = Inr (k, key, v)" by (auto simp: one_def)
      from stage_step_Inr [OF this, of n] a Inl show False by simp
    qed
    with Inl show ?thesis by (auto simp: list_all2_Cons1)
  next
    case (Inr s)
    obtain k key v where s: "s = (k, key, v)" by (cases s)
    have n: "n < MAX_FILTER_STAGES" using stage_step_bound [OF Inr] .
    have z: "stage_step (0, raw) = Inr (1, key, v)"
      using stage_step_Inr [OF Inr [unfolded s], of 0] by (simp add: MAX_FILTER_STAGES_def)
    have one: "one raw p \<longleftrightarrow> stage_parser s = Inr p" for p
      using stage_number [of k key v p 1] stage_number [of 1 key v p k] z s
      by (auto simp: one_def)
    have rest: "raws = [] \<or> Suc n + length raws \<le> MAX_FILTER_STAGES \<longleftrightarrow>
        n + length (raw # raws) \<le> MAX_FILTER_STAGES"
      using n by auto
    have "(\<exists>ss. traverseE stage_step (enumerate n (raw # raws)) = Inr ss \<and>
              traverseE stage_parser ss = Inr ps) \<longleftrightarrow>
       (\<exists>q qs. ps = q # qs \<and> stage_parser s = Inr q \<and>
          (\<exists>ss. traverseE stage_step (enumerate (Suc n) raws) = Inr ss \<and> traverseE stage_parser ss = Inr qs))"
      by (auto simp: Inr split: sum.splits)
    also have "\<dots> \<longleftrightarrow> n + length (raw # raws) \<le> MAX_FILTER_STAGES \<and> list_all2 one (raw # raws) ps"
      unfolding Cons.IH rest by (auto simp: list_all2_Cons1 one)
    finally show ?thesis by simp
  qed
qed

lemma parse_Inr:
  assumes "trim v \<noteq> []"
  shows "parse v = Inr ps \<longleftrightarrow>
     length v \<le> MAX_FILTER_CHARS \<and> length (split_pair 45 62 v) \<le> MAX_FILTER_STAGES \<and>
     list_all2 one (split_pair 45 62 v) ps"
  using assms numbered [of 0 "split_pair 45 62 v" ps] by (auto simp: parse_eq stages_def)

lemma parse_bounded: "parse v = Inr ps \<Longrightarrow> length ps \<le> MAX_FILTER_STAGES"
  using blank [of v] parse_Inr [of v ps] by (cases "trim v = []") (auto dest: list_all2_lengthD)

lemma composes:
  assumes "parse a = Inr ps" "parse b = Inr qs" "trim a \<noteq> []" "trim b \<noteq> []"
    and "length (a @ lit ''->'' @ b) \<le> MAX_FILTER_CHARS" "length ps + length qs \<le> MAX_FILTER_STAGES"
  shows "parse (a @ lit ''->'' @ b) = Inr (ps @ qs)"
proof -
  have l: "lit ''->'' = [45, 62]" by (simp add: lit_def)
  have ne: "trim (a @ [45, 62] @ b) \<noteq> []"
    by (simp add: trim_eq_Nil_iff is_whitespace_def)
  have "list_all2 one (split_pair 45 62 (a @ [45, 62] @ b)) (ps @ qs)"
    using assms parse_Inr [of a ps] parse_Inr [of b qs]
    by (simp add: split_pair_join list_all2_appendI)
  moreover from this have "length (split_pair 45 62 (a @ [45, 62] @ b)) = length ps + length qs"
    by (auto dest: list_all2_lengthD)
  ultimately show ?thesis
    using assms(5,6) ne by (simp add: l parse_Inr)
qed

end

lemma stage_key_free:
  "session_stage u (n, key, v) = Inr p \<Longrightarrow> session_stage u (m, key, v) = Inr p"
  "recording_stage u (n, key, v) = Inr q \<Longrightarrow> recording_stage u (m, key, v) = Inr q"
  "usage_stage u d (n, key, v) = Inr r \<Longrightarrow> usage_stage u d (m, key, v) = Inr r"
  unfolding session_stage_def recording_stage_def usage_stage_def prod.case
  by (simp_all only: split: if_splits) auto

interpretation session_svc: filter_service "session_filter_parse u" "session_stage u" for u
  by unfold_locales (simp add: session_filter_parse_def, rule stage_key_free)

interpretation recording_svc: filter_service "recording_filter_parse u" "recording_stage u" for u
  by unfold_locales (simp add: recording_filter_parse_def, rule stage_key_free)

interpretation usage_svc: filter_service "usage_filter_parse u d" "usage_stage u d" for u d
  by unfold_locales (simp add: usage_filter_parse_def, rule stage_key_free)

lemma session_matches_append:
  "session_filter_matches lower (ps @ qs) s v \<longleftrightarrow>
     session_filter_matches lower ps s v \<and> session_filter_matches lower qs s v"
  by (simp add: session_filter_matches_def)

section \<open>Properties\<close>

text \<open>C40: A text pattern never matches a text outside its wildcard language. It matches exactly that
  language when it has no wildcard or ends with one, and also on every text that holds the
  pattern's last piece at its end only; in general a pattern with a closed end matches the texts in
  which every piece can be taken at its first occurrence. An anchored pattern with a wildcard
  matches exactly the texts with a prefix in its language.\<close>

theorem glob_matches_language:
  "(glob_matches p c False \<longrightarrow> wildcard_match p c) \<and>
   (42 \<notin> set p \<or> ends_with [42] p \<or> only_at_end (last (split_char 42 p)) c \<longrightarrow>
      glob_matches p c False = wildcard_match p c) \<and>
   (42 \<in> set p \<and> \<not> ends_with [42] p \<longrightarrow> glob_matches p c False = leftmost_match p c) \<and>
   (42 \<in> set p \<longrightarrow> glob_matches p c True = wildcard_prefix_match p c)"
  using glob_sound glob_literal_exact glob_trailing_exact glob_open_exact glob_single_end glob_leftmost by blast

theorem glob_matches_language_witness:
  "glob_matches (lit ''ma*et*'') (lit ''market'') False \<and> wildcard_match (lit ''ma*et*'') (lit ''market'') \<and>
   glob_matches (lit ''ma*et'') (lit ''market'') False \<and> leftmost_match (lit ''ma*et'') (lit ''market'')"
proof -
  have "glob_matches (lit ''ma*et*'') (lit ''market'') False" by code_simp
  moreover have star: "42 \<in> set (lit ''ma*et'')" "\<not> ends_with [42] (lit ''ma*et'')" by code_simp+
  moreover have "last (split_char 42 (lit ''ma*et'')) = lit ''et''" by code_simp
  moreover have "wildcard_match (lit ''ma*et'') (lit ''market'')"
  proof -
    have "lit ''market'' = lit ''ma'' @ lit ''rket''" "split_char 42 (lit ''ma*et'') = [lit ''ma'', lit ''et'']"
      "lit ''rket'' = lit ''rk'' @ lit ''et'' @ []" by code_simp+
    then show ?thesis unfolding wildcard_match_def by (metis closed_tail.simps list.sel(1,3))
  qed
  moreover have "only_at_end (lit ''et'') (lit ''market'')"
    unfolding only_at_end_def
  proof (intro allI impI)
    fix x y assume e: "lit ''market'' = x @ lit ''et'' @ y"
    then have "length x \<le> 4" by (auto simp: lit_def dest: arg_cong [of _ _ length])
    with e show "y = []" by (auto simp: lit_def numeral_eq_Suc le_Suc_eq length_Suc_conv)
  qed
  ultimately show ?thesis
    using glob_matches_language [of "lit ''ma*et*''" "lit ''market''"]
      glob_matches_language [of "lit ''ma*et''" "lit ''market''"] by auto
qed

text \<open>A wildcard followed by a repeated text can be missed: the pattern \<open>*abc\<close> denotes
  \<open>abcabc\<close>, but the leftmost-match loop rejects it.\<close>

theorem glob_matches_misses_repeated_tail:
  "wildcard_match (lit ''*abc'') (lit ''abcabc'') \<and> \<not> glob_matches (lit ''*abc'') (lit ''abcabc'') False"
proof
  have "closed_tail [lit ''abc''] (lit ''abcabc'')"
    unfolding closed_tail.simps
    by (rule exI [of _ "lit ''abc''"], rule exI [of _ "[]"]) (simp add: lit_def)
  then show "wildcard_match (lit ''*abc'') (lit ''abcabc'')"
    by (simp add: wildcard_match_def lit_def)
  show "\<not> glob_matches (lit ''*abc'') (lit ''abcabc'') False" by code_simp
qed

text \<open>Pipelines compose: joining two session filters with an arrow parses to both filters'
  predicates, and matches exactly the sessions both match.\<close>

theorem session_pipeline_narrows:
  assumes "session_filter_parse u a = Inr ps" "session_filter_parse u b = Inr qs"
    and "trim a \<noteq> []" "trim b \<noteq> []"
    and "length (a @ lit ''->'' @ b) \<le> MAX_FILTER_CHARS" "length ps + length qs \<le> MAX_FILTER_STAGES"
  shows "\<exists>rs. session_filter_parse u (a @ lit ''->'' @ b) = Inr rs \<and>
     (session_filter_matches lower rs s v \<longleftrightarrow>
        session_filter_matches lower ps s v \<and> session_filter_matches lower qs s v)"
  using session_svc.composes [OF assms] session_matches_append by blast

theorem session_pipeline_narrows_witness:
  "\<exists>rs. session_filter_parse no_uuids (lit ''is:active'' @ lit ''->'' @ lit ''is:mine'') = Inr rs"
proof -
  have a: "session_filter_parse no_uuids (lit ''is:active'') = Inr [SessionIs FacetActive]"
    and b: "session_filter_parse no_uuids (lit ''is:mine'') = Inr [SessionIs FacetMine]"
    by (simp_all add: session_filter_parse_def stages_def session_stage_def stage_step_def
        str_simps is_whitespace_def enumerate_eq_zip MAX_FILTER_CHARS_def MAX_FILTER_STAGES_def)
  have "trim (lit ''is:active'') \<noteq> []" "trim (lit ''is:mine'') \<noteq> []"
    "length (lit ''is:active'' @ lit ''->'' @ lit ''is:mine'') \<le> MAX_FILTER_CHARS"
    "length [SessionIs FacetActive] + length [SessionIs FacetMine] \<le> MAX_FILTER_STAGES"
    by (simp_all add: trim_eq_Nil_iff lit_def is_whitespace_def MAX_FILTER_CHARS_def MAX_FILTER_STAGES_def)
  from session_pipeline_narrows [OF a b this] show ?thesis by blast
qed

end
