(* ===== verification/SB_Crypto.thy ===== *)
theory SB_Crypto
  imports SB_Prelude
begin

text \<open>
  The authenticated-encryption boundary (\<open>src/crates/backend/src/crypto.rs\<close>) and the contexts
  the store and the server bind their secrets to. The cipher, base64 and the key digest are
  parameters, the record \<open>secret_box\<close>; what the code relies on is \<open>secret_box_ok\<close> (decryption
  and decoding invert encryption and encoding, and the encoding has no full stop) and
  \<open>secret_box_binding\<close> (a ciphertext authenticates one associated text only).
\<close>

type_synonym bytes = "nat list"

record secret_box =
  sb_key_id :: str
  sb_encrypt :: "bytes \<Rightarrow> bytes \<Rightarrow> bytes \<Rightarrow> bytes option"  \<comment> \<open>nonce, message, associated data\<close>
  sb_decrypt :: "bytes \<Rightarrow> bytes \<Rightarrow> bytes \<Rightarrow> bytes option"
  sb_b64_encode :: "bytes \<Rightarrow> str"
  sb_b64_decode :: "str \<Rightarrow> bytes option"
  sb_as_bytes :: "str \<Rightarrow> bytes"
  sb_from_utf8 :: "bytes \<Rightarrow> str option"

definition validate_context :: "str \<Rightarrow> string + unit" where
  "validate_context context =
     (if context = [] \<or> utf8_len context > 1024 \<or> 0 \<in> set context
      then Inl ''encryption context is invalid'' else Inr ())"

text \<open>\<open>seal_for\<close>; the random nonce is an argument.\<close>

definition seal_for :: "secret_box \<Rightarrow> bytes \<Rightarrow> str \<Rightarrow> str \<Rightarrow> string + str" where
  "seal_for box nonce context plaintext =
     tryE (validate_context context) (\<lambda>_.
     tryE (ok_or ''encryption failed''
            (sb_encrypt box nonce (sb_as_bytes box plaintext) (sb_as_bytes box context))) (\<lambda>encrypted.
       Inr (lit ''sb1.'' @ sb_key_id box @ [46] @ sb_b64_encode box (nonce @ encrypted))))"

definition open_for :: "secret_box \<Rightarrow> str \<Rightarrow> str \<Rightarrow> string + str" where
  "open_for box context envelope =
     tryE (validate_context context) (\<lambda>_.
       case split_char 46 envelope of
         p0 # p1 # rest \<Rightarrow>
           if p0 \<noteq> lit ''sb1'' \<or> p1 \<noteq> sb_key_id box
           then Inl ''encrypted value uses an unknown format or key''
           else (case rest of
               [] \<Rightarrow> Inl ''encrypted value is malformed''
             | encoded # extra \<Rightarrow>
                 if extra \<noteq> [] then Inl ''encrypted value is malformed''
                 else
                   tryE (ok_or ''encrypted value is malformed'' (sb_b64_decode box encoded)) (\<lambda>payload.
                   if length payload < 12 then Inl ''encrypted value is too short''
                   else
                     tryE (ok_or ''encrypted value failed authentication''
                            (sb_decrypt box (take 12 payload) (drop 12 payload) (sb_as_bytes box context)))
                       (\<lambda>plaintext. ok_or ''encrypted value is not UTF-8'' (sb_from_utf8 box plaintext))))
       | _ \<Rightarrow> Inl ''encrypted value uses an unknown format or key'')"

section \<open>What the code relies on\<close>

definition secret_box_ok :: "secret_box \<Rightarrow> bool" where
  "secret_box_ok box \<longleftrightarrow>
     46 \<notin> set (sb_key_id box) \<and>
     (\<forall>p. sb_b64_decode box (sb_b64_encode box p) = Some p \<and> 46 \<notin> set (sb_b64_encode box p)) \<and>
     (\<forall>s. sb_from_utf8 box (sb_as_bytes box s) = Some s) \<and>
     (\<forall>n m a c. sb_encrypt box n m a = Some c \<longrightarrow> sb_decrypt box n c a = Some m)"

definition secret_box_binding :: "secret_box \<Rightarrow> bool" where
  "secret_box_binding box \<longleftrightarrow>
     (\<forall>n m a c a'. sb_encrypt box n m a = Some c \<longrightarrow> sb_decrypt box n c a' \<noteq> None \<longrightarrow> a' = a)"

lemma split_envelope:
  assumes "46 \<notin> set k" "46 \<notin> set e"
  shows "split_char 46 (lit ''sb1.'' @ k @ 46 # e) = [lit ''sb1'', k, e]"
proof -
  have one: "46 \<notin> set x \<Longrightarrow> split_char 46 x = [x]" for x
    by (induction x) auto
  have step: "46 \<notin> set x \<Longrightarrow> split_char 46 (x @ 46 # y) = x # split_char 46 y" for x y
    by (induction x) auto
  have "split_char 46 (lit ''sb1'' @ 46 # (k @ 46 # e)) = [lit ''sb1'', k, e]"
    using assms by (subst step) (simp_all add: one step lit_def)
  then show ?thesis by (simp add: lit_def)
qed

lemma seal_for_Inr:
  "seal_for box nonce ctx t = Inr env \<longleftrightarrow>
     validate_context ctx = Inr () \<and>
     (\<exists>c. sb_encrypt box nonce (sb_as_bytes box t) (sb_as_bytes box ctx) = Some c \<and>
          env = lit ''sb1.'' @ sb_key_id box @ 46 # sb_b64_encode box (nonce @ c))"
  by (auto simp: seal_for_def)

lemma open_sealed:
  assumes ok: "secret_box_ok box" and n: "length nonce = 12"
    and v: "validate_context ctx = Inr ()"
  shows "open_for box ctx (lit ''sb1.'' @ sb_key_id box @ 46 # sb_b64_encode box (nonce @ c)) =
     tryE (ok_or ''encrypted value failed authentication'' (sb_decrypt box nonce c (sb_as_bytes box ctx)))
       (\<lambda>p. ok_or ''encrypted value is not UTF-8'' (sb_from_utf8 box p))"
proof -
  have s: "split_char 46 (lit ''sb1.'' @ sb_key_id box @ 46 # sb_b64_encode box (nonce @ c)) =
      [lit ''sb1'', sb_key_id box, sb_b64_encode box (nonce @ c)]"
    using ok by (intro split_envelope) (auto simp: secret_box_ok_def)
  have d: "sb_b64_decode box (sb_b64_encode box (nonce @ c)) = Some (nonce @ c)"
    using ok by (simp add: secret_box_ok_def)
  show ?thesis unfolding open_for_def s by (simp add: v d n)
qed

lemma seal_open:
  assumes "secret_box_ok box" "length nonce = 12" "seal_for box nonce ctx t = Inr env"
  shows "open_for box ctx env = Inr t"
proof -
  from assms(3) obtain c where c: "sb_encrypt box nonce (sb_as_bytes box t) (sb_as_bytes box ctx) = Some c"
    and env: "env = lit ''sb1.'' @ sb_key_id box @ 46 # sb_b64_encode box (nonce @ c)"
    and v: "validate_context ctx = Inr ()"
    by (auto simp: seal_for_Inr)
  have "sb_decrypt box nonce c (sb_as_bytes box ctx) = Some (sb_as_bytes box t)"
    and "sb_from_utf8 box (sb_as_bytes box t) = Some t"
    using assms(1) c by (auto simp: secret_box_ok_def)
  then show ?thesis by (simp add: env open_sealed [OF assms(1,2) v])
qed

lemma seal_bound_to_context:
  assumes "secret_box_ok box" "secret_box_binding box" "length nonce = 12"
    and "seal_for box nonce ctx t = Inr env" "open_for box ctx' env = Inr t'"
  shows "ctx' = ctx"
proof -
  from assms(4) obtain c where c: "sb_encrypt box nonce (sb_as_bytes box t) (sb_as_bytes box ctx) = Some c"
    and env: "env = lit ''sb1.'' @ sb_key_id box @ 46 # sb_b64_encode box (nonce @ c)"
    by (auto simp: seal_for_Inr)
  have "validate_context ctx' = Inr ()" using assms(5) by (auto simp: open_for_def)
  from assms(5) [unfolded env open_sealed [OF assms(1,3) this]]
  have "sb_decrypt box nonce c (sb_as_bytes box ctx') \<noteq> None" by auto
  with c assms(2) have "sb_as_bytes box ctx' = sb_as_bytes box ctx"
    unfolding secret_box_binding_def by blast
  then show ?thesis using assms(1) unfolding secret_box_ok_def by (metis option.inject)
qed

section \<open>The contexts\<close>

definition session_secret_context :: "str \<Rightarrow> str \<Rightarrow> str \<Rightarrow> str" where
  "session_secret_context org_id session_id field =
     lit ''silicon-browser:v1:org['' @ dec_digits (utf8_len org_id) @ lit '']:'' @ org_id @
     lit '':session['' @ dec_digits (utf8_len session_id) @ lit '']:'' @ session_id @
     lit '':field:'' @ field"

definition command_secret_context :: "str \<Rightarrow> str \<Rightarrow> int \<Rightarrow> str \<Rightarrow> str" where
  "command_secret_context org_id session_id sequence actor =
     session_secret_context org_id session_id (lit ''command'') @
     lit '':sequence:'' @ dec_int sequence @ lit '':actor['' @ dec_digits (utf8_len actor) @
     lit '']:'' @ actor"

definition live_grant_context :: "str \<Rightarrow> str \<Rightarrow> str" where
  "live_grant_context org_id session_id =
     lit ''silicon-browser:v1:live-grant:org['' @ dec_digits (utf8_len org_id) @ lit '']:'' @ org_id @
     lit '':session['' @ dec_digits (utf8_len session_id) @ lit '']:'' @ session_id"

lemma dec_digits_small: "n < 10 \<Longrightarrow> dec_digits n = [48 + n]"
  by (simp add: dec_digits.simps)

text \<open>A length-prefixed field is read back unambiguously.\<close>

lemma sized_field_inject:
  assumes "dec_digits (utf8_len a) @ lit '']:'' @ a @ s = dec_digits (utf8_len b) @ lit '']:'' @ b @ t"
  shows "a = b \<and> s = t"
proof -
  have "dec_digits (utf8_len a) @ 93 # 58 # a @ s = dec_digits (utf8_len b) @ 93 # 58 # b @ t"
    using assms by (simp add: lit_def)
  from digits_delimited_unique [OF this] have "utf8_len a = utf8_len b" "a @ s = b @ t" by simp_all
  then show ?thesis using utf8_prefix_unique by blast
qed

lemma session_secret_context_tail:
  "session_secret_context o1 s1 f1 @ t1 = session_secret_context o2 s2 f2 @ t2 \<Longrightarrow>
   o1 = o2 \<and> s1 = s2 \<and> f1 @ t1 = f2 @ t2"
proof -
  assume "session_secret_context o1 s1 f1 @ t1 = session_secret_context o2 s2 f2 @ t2"
  then have "dec_digits (utf8_len o1) @ lit '']:'' @ o1 @
      (lit '':session['' @ dec_digits (utf8_len s1) @ lit '']:'' @ s1 @ lit '':field:'' @ f1 @ t1) =
      dec_digits (utf8_len o2) @ lit '']:'' @ o2 @
      (lit '':session['' @ dec_digits (utf8_len s2) @ lit '']:'' @ s2 @ lit '':field:'' @ f2 @ t2)"
    by (simp add: session_secret_context_def)
  from sized_field_inject [OF this] have o: "o1 = o2"
    and "dec_digits (utf8_len s1) @ lit '']:'' @ s1 @ (lit '':field:'' @ f1 @ t1) =
         dec_digits (utf8_len s2) @ lit '']:'' @ s2 @ (lit '':field:'' @ f2 @ t2)"
    by simp_all
  from this(1) sized_field_inject [OF this(2)] show ?thesis by simp
qed

lemma session_secret_context_inject:
  "session_secret_context o1 s1 f1 = session_secret_context o2 s2 f2 \<longleftrightarrow>
     o1 = o2 \<and> s1 = s2 \<and> f1 = f2"
  using session_secret_context_tail [of o1 s1 f1 "[]" o2 s2 f2 "[]"] by auto

lemma dec_int_chars: "c \<in> set (dec_int i) \<Longrightarrow> c = 45 \<or> 48 \<le> c \<and> c \<le> 57"
  by (auto simp: dec_int_def dest: dec_digits_set split: if_splits)

lemma dec_digits_not_Nil [simp]: "dec_digits n \<noteq> []"
  by (subst dec_digits.simps) simp

lemma dec_digits_no_minus: "45 # x \<noteq> dec_digits n" "dec_digits n \<noteq> 45 # x"
proof -
  have "45 \<notin> set (dec_digits n)" using dec_digits_set [of 45 n] by auto
  then show "45 # x \<noteq> dec_digits n" "dec_digits n \<noteq> 45 # x" by (metis list.set_intros(1))+
qed

lemma dec_int_inject: "dec_int i = dec_int j \<longleftrightarrow> i = j"
  by (auto simp: dec_int_def dec_digits_no_minus split: if_splits)

lemma dec_int_delimited:
  assumes "dec_int i @ 58 # s = dec_int j @ 58 # t"
  shows "i = j \<and> s = t"
proof -
  have "takeWhile (\<lambda>c. c \<noteq> 58) (dec_int k @ 58 # u) = dec_int k" for k u
    using dec_int_chars [of 58 k] by (subst takeWhile_append2) auto
  with assms have "dec_int i = dec_int j" by metis
  with assms show ?thesis by (simp add: dec_int_inject)
qed

lemma command_secret_context_inject:
  "command_secret_context o1 s1 n1 a1 = command_secret_context o2 s2 n2 a2 \<longleftrightarrow>
     o1 = o2 \<and> s1 = s2 \<and> n1 = n2 \<and> a1 = a2"
proof
  assume "command_secret_context o1 s1 n1 a1 = command_secret_context o2 s2 n2 a2"
  from session_secret_context_tail [OF this [unfolded command_secret_context_def]]
  have os: "o1 = o2" "s1 = s2"
    and "dec_int n1 @ 58 # (lit ''actor['' @ dec_digits (utf8_len a1) @ lit '']:'' @ a1 @ []) =
         dec_int n2 @ 58 # (lit ''actor['' @ dec_digits (utf8_len a2) @ lit '']:'' @ a2 @ [])"
    by (simp_all add: lit_def)
  from dec_int_delimited [OF this(3)] have n: "n1 = n2"
    and "dec_digits (utf8_len a1) @ lit '']:'' @ a1 @ [] = dec_digits (utf8_len a2) @ lit '']:'' @ a2 @ []"
    by simp_all
  from sized_field_inject [OF this(2)] os n show "o1 = o2 \<and> s1 = s2 \<and> n1 = n2 \<and> a1 = a2" by simp
qed simp

lemma live_grant_context_inject:
  "live_grant_context o1 s1 = live_grant_context o2 s2 \<longleftrightarrow> o1 = o2 \<and> s1 = s2"
proof
  assume "live_grant_context o1 s1 = live_grant_context o2 s2"
  then have "dec_digits (utf8_len o1) @ lit '']:'' @ o1 @
      (lit '':session['' @ dec_digits (utf8_len s1) @ lit '']:'' @ s1 @ []) =
      dec_digits (utf8_len o2) @ lit '']:'' @ o2 @
      (lit '':session['' @ dec_digits (utf8_len s2) @ lit '']:'' @ s2 @ [])"
    by (simp add: live_grant_context_def)
  from sized_field_inject [OF this] have o: "o1 = o2"
    and "dec_digits (utf8_len s1) @ lit '']:'' @ s1 @ [] = dec_digits (utf8_len s2) @ lit '']:'' @ s2 @ []"
    by simp_all
  from o sized_field_inject [OF this(2)] show "o1 = o2 \<and> s1 = s2" by simp
qed simp

lemma live_grant_not_secret: "live_grant_context o1 s1 \<noteq> session_secret_context o2 s2 f"
  by (simp add: live_grant_context_def session_secret_context_def lit_def)

lemma command_not_field:
  assumes "take 8 f \<noteq> lit ''command:''"
  shows "command_secret_context o1 s1 n a \<noteq> session_secret_context o2 s2 f"
proof
  assume e: "command_secret_context o1 s1 n a = session_secret_context o2 s2 f"
  obtain t where t: "command_secret_context o1 s1 n a =
      session_secret_context o1 s1 (lit ''command'') @ 58 # t"
    by (simp add: command_secret_context_def lit_def)
  with e have "session_secret_context o1 s1 (lit ''command'') @ 58 # t =
      session_secret_context o2 s2 f @ []" by simp
  from session_secret_context_tail [OF this] have "f = lit ''command'' @ 58 # t" by simp
  with assms show False by (simp add: lit_def)
qed

section \<open>Properties\<close>

text \<open>A value sealed for a context opens again to the same value under that context.\<close>

theorem seal_open_roundtrip:
  assumes "secret_box_ok box" "length nonce = 12" "seal_for box nonce context t = Inr envelope"
  shows "open_for box context envelope = Inr t"
  using assms by (rule seal_open)

text \<open>A cipher without secrecy whose laws hold; it instantiates the parameters.\<close>

definition plain_box :: secret_box where
  "plain_box = \<lparr>sb_key_id = [48],
     sb_encrypt = (\<lambda>n m a. Some (length a # a @ m)),
     sb_decrypt = (\<lambda>n c a. case c of [] \<Rightarrow> None
                    | l # r \<Rightarrow> if l = length a \<and> take l r = a \<and> length a \<le> length r then Some (drop l r) else None),
     sb_b64_encode = map (\<lambda>b. b + 47), sb_b64_decode = (\<lambda>t. Some (map (\<lambda>b. b - 47) t)),
     sb_as_bytes = (\<lambda>t. t), sb_from_utf8 = Some\<rparr>"

lemma plain_box_laws: "secret_box_ok plain_box" "secret_box_binding plain_box"
proof -
  show "secret_box_ok plain_box"
    by (auto simp: secret_box_ok_def plain_box_def comp_def)
  have "a' = a" if "a' @ x = a @ y" "length a = length a'" for a' a x y :: bytes
    using that by simp
  then show "secret_box_binding plain_box"
    by (auto simp: secret_box_binding_def plain_box_def split: if_splits)
qed

theorem seal_open_roundtrip_witness:
  "\<exists>e. seal_for plain_box (replicate 12 7) (lit ''ctx'') (lit ''wss://x'') = Inr e \<and>
       open_for plain_box (lit ''ctx'') e = Inr (lit ''wss://x'')"
proof -
  obtain e where e: "seal_for plain_box (replicate 12 7) (lit ''ctx'') (lit ''wss://x'') = Inr e"
    by (auto simp: seal_for_def validate_context_def plain_box_def lit_def utf8_width_def)
  with seal_open_roundtrip [OF plain_box_laws(1) _ e] show ?thesis by simp
qed

text \<open>C38: A sealed session secret cannot be read as another tenant's, another session's or
  another column's: it opens under the context of the same organization, session and field
  only, and never as a command or a live grant.\<close>

theorem session_secret_confined:
  assumes "secret_box_ok box" "secret_box_binding box" "length nonce = 12"
    and "seal_for box nonce (session_secret_context org sid field) t = Inr envelope"
  shows "(is_ok (open_for box (session_secret_context org' sid' field') envelope) \<longrightarrow>
            org' = org \<and> sid' = sid \<and> field' = field) \<and>
         (take 8 field \<noteq> lit ''command:'' \<longrightarrow>
            \<not> is_ok (open_for box (command_secret_context org' sid' n actor) envelope)) \<and>
         \<not> is_ok (open_for box (live_grant_context org' sid') envelope)"
proof -
  have bound: "is_ok (open_for box c envelope) \<Longrightarrow> c = session_secret_context org sid field" for c
    using seal_bound_to_context [OF assms] by (auto simp: is_ok_iff)
  show ?thesis
    using bound [of "session_secret_context org' sid' field'"]
      bound [of "command_secret_context org' sid' n actor"] bound [of "live_grant_context org' sid'"]
      command_not_field [of field org' sid' n actor org sid]
      live_grant_not_secret [of org' sid' org sid field]
    by (simp only: session_secret_context_inject) blast
qed

theorem session_secret_confined_witness:
  "\<exists>e. seal_for plain_box (replicate 12 7) (session_secret_context (lit ''o'') (lit ''s'') (lit ''cdp_url''))
          (lit ''wss://x'') = Inr e \<and>
     \<not> is_ok (open_for plain_box (session_secret_context (lit ''o'') (lit ''t'') (lit ''cdp_url'')) e)"
proof -
  let ?c = "session_secret_context (lit ''o'') (lit ''s'') (lit ''cdp_url'')"
  have "validate_context ?c = Inr ()" by code_simp
  moreover have "sb_encrypt plain_box n m a = Some (length a # a @ m)" for n m a
    by (simp add: plain_box_def)
  ultimately obtain e where e: "seal_for plain_box (replicate 12 7) ?c (lit ''wss://x'') = Inr e"
    unfolding seal_for_Inr by blast
  have l: "length (replicate 12 (7 :: nat)) = 12" by simp
  have "lit ''t'' \<noteq> lit ''s''" by (simp add: lit_def)
  with session_secret_confined [OF plain_box_laws l e, of "lit ''o''" "lit ''t''" "lit ''cdp_url''" 0 "[]"] e
  show ?thesis by blast
qed

text \<open>The encryption contexts are injective: the organization, the session, and the field
  or the command's sequence number and actor can be read back from them, whatever the texts.\<close>

theorem secret_contexts_injective:
  "(session_secret_context o1 s1 f1 = session_secret_context o2 s2 f2 \<longleftrightarrow> o1 = o2 \<and> s1 = s2 \<and> f1 = f2) \<and>
   (command_secret_context o1 s1 n1 a1 = command_secret_context o2 s2 n2 a2 \<longleftrightarrow>
      o1 = o2 \<and> s1 = s2 \<and> n1 = n2 \<and> a1 = a2) \<and>
   (live_grant_context o1 s1 = live_grant_context o2 s2 \<longleftrightarrow> o1 = o2 \<and> s1 = s2)"
  by (intro conjI session_secret_context_inject command_secret_context_inject live_grant_context_inject)

end
