(* ===== verification/SB_Quota.thy ===== *)
theory SB_Quota
  imports SB_Prelude
begin

text \<open>
  The quota of the search-provider pool (\<open>SlidingQuota\<close> and the scheduler of
  \<open>src/crates/backend/src/providers/pool.rs\<close>): sliding windows per provider key, refunds and
  rejections, the exact waiting time, and the round-robin queues of the actors.

  An \<open>Instant\<close> and a \<open>Duration\<close> are integers of one time unit; the reservation counter is
  the code's wrapping 64-bit counter. An index out of range, which panics, is \<open>None\<close>.
\<close>

section \<open>The sliding quota\<close>

record charge =
  ch_reservation :: nat
  ch_at :: int

record sliding_quota =
  q_used_at :: "charge list list"
  q_blocked_until :: "int option list"
  q_max_units :: nat
  q_window :: int
  q_next_reservation :: nat

definition quota_new :: "nat \<Rightarrow> nat \<Rightarrow> int \<Rightarrow> sliding_quota" where
  "quota_new provider_count max_units window =
     \<lparr>q_used_at = replicate provider_count [], q_blocked_until = replicate provider_count None,
      q_max_units = max_units, q_window = window, q_next_reservation = 1\<rparr>"

definition saturating_since :: "int \<Rightarrow> int \<Rightarrow> int" where
  "saturating_since now at = max 0 (now - at)"

definition charge_expired :: "int \<Rightarrow> int \<Rightarrow> charge \<Rightarrow> bool" where
  "charge_expired window now c \<longleftrightarrow> saturating_since now (ch_at c) \<ge> window"

definition prune :: "int \<Rightarrow> sliding_quota \<Rightarrow> sliding_quota" where
  "prune now q =
     q\<lparr>q_used_at := map (dropWhile (charge_expired (q_window q) now)) (q_used_at q),
       q_blocked_until := map (\<lambda>b. case b of Some deadline \<Rightarrow> if deadline \<le> now then None else b | None \<Rightarrow> None)
                            (q_blocked_until q)\<rparr>"

text \<open>\<open>min_by_key\<close>: the first element with the least key.\<close>

fun min_by_key :: "('a \<Rightarrow> 'b :: linorder) \<Rightarrow> 'a list \<Rightarrow> 'a option" where
  "min_by_key key [] = None"
| "min_by_key key (x # xs) =
     (case min_by_key key xs of None \<Rightarrow> Some x | Some y \<Rightarrow> if key x \<le> key y then Some x else Some y)"

definition provider_free :: "sliding_quota \<Rightarrow> nat \<Rightarrow> nat \<Rightarrow> bool" where
  "provider_free q units i \<longleftrightarrow>
     q_blocked_until q ! i = None \<and> length (q_used_at q ! i) + units \<le> q_max_units q"

definition next_reservation :: "nat \<Rightarrow> nat" where
  "next_reservation r = max ((r + 1) mod 2 ^ 64) 1"

definition take_units :: "nat \<Rightarrow> int \<Rightarrow> sliding_quota \<Rightarrow> (nat \<times> nat) option \<times> sliding_quota" where
  "take_units units now q0 =
     (let q = prune now q0 in
      case min_by_key (\<lambda>i. length (q_used_at q ! i))
             (filter (provider_free q units) [0..<length (q_used_at q)]) of
        None \<Rightarrow> (None, q)
      | Some provider \<Rightarrow>
          let reservation = q_next_reservation q in
          (Some (provider, reservation),
           q\<lparr>q_next_reservation := next_reservation reservation,
             q_used_at := (q_used_at q)[provider :=
               q_used_at q ! provider @ replicate units \<lparr>ch_reservation = reservation, ch_at = now\<rparr>]\<rparr>))"

definition nth_opt :: "'a list \<Rightarrow> nat \<Rightarrow> 'a option" where
  "nth_opt xs i = (if i < length xs then Some (xs ! i) else None)"

definition provider_wait :: "sliding_quota \<Rightarrow> nat \<Rightarrow> int \<Rightarrow> nat \<Rightarrow> int option" where
  "provider_wait q units now provider =
     (let used = q_used_at q ! provider;
          must_expire = length used + units - q_max_units q;
          block_wait = (case q_blocked_until q ! provider of
                          Some deadline \<Rightarrow> saturating_since deadline now | None \<Rightarrow> 0)
      in if must_expire > 0
         then (case nth_opt used (must_expire - 1) of
                 None \<Rightarrow> None
               | Some c \<Rightarrow> Some (max (saturating_since (ch_at c + q_window q) now) block_wait))
         else Some (max 0 block_wait))"

fun all_some :: "'a option list \<Rightarrow> 'a list option" where
  "all_some [] = Some []"
| "all_some (x # xs) =
     (case x of None \<Rightarrow> None | Some y \<Rightarrow> (case all_some xs of None \<Rightarrow> None | Some ys \<Rightarrow> Some (y # ys)))"

definition wait_for :: "nat \<Rightarrow> int \<Rightarrow> sliding_quota \<Rightarrow> int option \<times> sliding_quota" where
  "wait_for units now q0 =
     (let q = prune now q0 in
      (case all_some (map (provider_wait q units now) [0..<length (q_used_at q)]) of
         None \<Rightarrow> None
       | Some ws \<Rightarrow> Some (case min_by_key (\<lambda>w. w) ws of Some w \<Rightarrow> w | None \<Rightarrow> 0), q))"

text \<open>The \<open>retain\<close> of \<open>refund\<close>: drops the first charges of the reservation.\<close>

fun retain_unless :: "nat \<Rightarrow> nat \<Rightarrow> charge list \<Rightarrow> charge list" where
  "retain_unless reservation remaining [] = []"
| "retain_unless reservation remaining (c # cs) =
     (if remaining > 0 \<and> ch_reservation c = reservation
      then retain_unless reservation (remaining - 1) cs
      else c # retain_unless reservation remaining cs)"

definition refund :: "nat \<Rightarrow> nat \<Rightarrow> nat \<Rightarrow> sliding_quota \<Rightarrow> sliding_quota" where
  "refund provider reservation units q =
     (if provider < length (q_used_at q)
      then q\<lparr>q_used_at := (q_used_at q)[provider := retain_unless reservation units (q_used_at q ! provider)]\<rparr>
      else q)"

definition quota_reject :: "nat \<Rightarrow> nat \<Rightarrow> nat \<Rightarrow> int \<Rightarrow> int \<Rightarrow> sliding_quota \<Rightarrow> sliding_quota" where
  "quota_reject provider reservation units retry_after now q0 =
     (let q = refund provider reservation units q0 in
      if provider < length (q_blocked_until q)
      then (let deadline = now + retry_after in
            if (case q_blocked_until q ! provider of None \<Rightarrow> True | Some current \<Rightarrow> current < deadline)
            then q\<lparr>q_blocked_until := (q_blocked_until q)[provider := Some deadline]\<rparr>
            else q)
      else q)"

section \<open>Shape of the quota\<close>

definition deque_ok :: "int \<Rightarrow> nat \<Rightarrow> charge list \<Rightarrow> bool" where
  "deque_ok t mx cs \<longleftrightarrow> sorted (map ch_at cs) \<and> (\<forall>c \<in> set cs. ch_at c \<le> t) \<and> length cs \<le> mx"

definition quota_shape :: "int \<Rightarrow> sliding_quota \<Rightarrow> bool" where
  "quota_shape t q \<longleftrightarrow>
     0 < q_window q \<and> length (q_blocked_until q) = length (q_used_at q) \<and>
     (\<forall>i < length (q_used_at q). deque_ok t (q_max_units q) (q_used_at q ! i))"

lemma min_by_key_None [simp]: "min_by_key key xs = None \<longleftrightarrow> xs = []"
  by (induction xs) (auto split: option.splits)

lemma min_by_key_Some:
  "min_by_key key xs = Some x \<Longrightarrow> x \<in> set xs \<and> (\<forall>y \<in> set xs. key x \<le> key y)"
  by (induction xs arbitrary: x) (fastforce split: option.splits if_splits)+

lemma prune_fields [simp]:
  "q_max_units (prune now q) = q_max_units q" "q_window (prune now q) = q_window q"
  "length (q_used_at (prune now q)) = length (q_used_at q)"
  "length (q_blocked_until (prune now q)) = length (q_blocked_until q)"
  "q_next_reservation (prune now q) = q_next_reservation q"
  by (simp_all add: prune_def)

lemma prune_nth:
  "i < length (q_used_at q) \<Longrightarrow>
     q_used_at (prune now q) ! i = dropWhile (charge_expired (q_window q) now) (q_used_at q ! i)"
  "i < length (q_blocked_until q) \<Longrightarrow>
     q_blocked_until (prune now q) ! i =
       (case q_blocked_until q ! i of Some d \<Rightarrow> if d \<le> now then None else Some d | None \<Rightarrow> None)"
  by (auto simp: prune_def split: option.splits)

lemma sorted_map_dropWhile: "sorted (map f xs) \<Longrightarrow> sorted (map f (dropWhile P xs))"
  by (induction xs) auto

lemma deque_ok_later: "deque_ok t mx cs \<Longrightarrow> t \<le> now \<Longrightarrow> deque_ok now mx cs"
  by (auto simp: deque_ok_def)

lemma deque_ok_prune: "deque_ok t mx cs \<Longrightarrow> deque_ok t mx (dropWhile P cs)"
  by (auto simp: deque_ok_def sorted_map_dropWhile dest: set_dropWhileD
      intro: le_trans [OF length_dropWhile_le])

lemma deque_ok_extend:
  "deque_ok now mx cs \<Longrightarrow> length cs + n \<le> mx \<Longrightarrow>
   deque_ok now mx (cs @ replicate n \<lparr>ch_reservation = r, ch_at = now\<rparr>)"
  by (auto simp: deque_ok_def sorted_append)

lemma prune_shape: "quota_shape t q \<Longrightarrow> t \<le> now \<Longrightarrow> quota_shape now (prune now q)"
  by (auto simp: quota_shape_def prune_nth intro: deque_ok_prune deque_ok_later)

lemma retain_set: "set (retain_unless r n cs) \<subseteq> set cs"
  by (induction r n cs rule: retain_unless.induct) auto

lemma retain_length: "length (retain_unless r n cs) \<le> length cs"
  by (induction r n cs rule: retain_unless.induct) auto

lemma retain_sorted: "sorted (map ch_at cs) \<Longrightarrow> sorted (map ch_at (retain_unless r n cs))"
proof (induction r n cs rule: retain_unless.induct)
  case (2 r n c cs)
  then show ?case using retain_set [of r n cs] by auto
qed simp

lemma deque_ok_retain: "deque_ok t mx cs \<Longrightarrow> deque_ok t mx (retain_unless r n cs)"
  using retain_set [of r n cs] retain_length [of r n cs]
  by (auto simp: deque_ok_def retain_sorted)

lemma refund_fields [simp]:
  "q_max_units (refund p r n q) = q_max_units q" "q_window (refund p r n q) = q_window q"
  "length (q_used_at (refund p r n q)) = length (q_used_at q)"
  "q_blocked_until (refund p r n q) = q_blocked_until q"
  by (simp_all add: refund_def)

lemma refund_nth:
  "i < length (q_used_at q) \<Longrightarrow> q_used_at (refund p r n q) ! i =
     (if i = p then retain_unless r n (q_used_at q ! i) else q_used_at q ! i)"
  by (auto simp: refund_def)

lemma refund_shape: "quota_shape t q \<Longrightarrow> quota_shape t (refund p r n q)"
  by (auto simp: quota_shape_def refund_nth intro: deque_ok_retain)

lemma reject_used: "q_used_at (quota_reject p r n d now q) = q_used_at (refund p r n q)"
  by (simp add: quota_reject_def Let_def)

lemma reject_fields [simp]:
  "q_max_units (quota_reject p r n d now q) = q_max_units q"
  "q_window (quota_reject p r n d now q) = q_window q"
  "length (q_blocked_until (quota_reject p r n d now q)) = length (q_blocked_until q)"
  by (simp_all add: quota_reject_def Let_def)

lemma reject_shape: "quota_shape t q \<Longrightarrow> quota_shape t (quota_reject p r n d now q)"
  using refund_shape [of t q p r n] by (simp add: quota_shape_def reject_used)

lemma take_units_cases:
  obtains (none) "take_units units now q = (None, prune now q)"
    "\<forall>i < length (q_used_at q). \<not> provider_free (prune now q) units i"
  | (some) p where "p < length (q_used_at q)" "provider_free (prune now q) units p"
    "\<forall>i < length (q_used_at q). provider_free (prune now q) units i \<longrightarrow>
       length (q_used_at (prune now q) ! p) \<le> length (q_used_at (prune now q) ! i)"
    "take_units units now q = (Some (p, q_next_reservation q),
       (prune now q)\<lparr>q_next_reservation := next_reservation (q_next_reservation q),
         q_used_at := (q_used_at (prune now q))[p := q_used_at (prune now q) ! p @
           replicate units \<lparr>ch_reservation = q_next_reservation q, ch_at = now\<rparr>]\<rparr>)"
proof (cases "min_by_key (\<lambda>i. length (q_used_at (prune now q) ! i))
             (filter (provider_free (prune now q) units) [0..<length (q_used_at (prune now q))])")
  case None
  then show ?thesis
    by (intro none) (simp_all add: take_units_def Let_def filter_empty_conv)
next
  case (Some p)
  with min_by_key_Some [OF Some] show ?thesis
    by (intro some [of p]) (auto simp: take_units_def Let_def)
qed

lemma take_shape:
  assumes "quota_shape t q" "t \<le> now"
  shows "quota_shape now (snd (take_units units now q))"
proof (cases rule: take_units_cases [of units now q])
  case none
  then show ?thesis using prune_shape [OF assms] by simp
next
  case (some p)
  then show ?thesis
    using prune_shape [OF assms]
    by (auto simp: quota_shape_def nth_list_update provider_free_def intro: deque_ok_extend)
qed

section \<open>The sliding window bound\<close>

text \<open>
  A trace of the quota keeps, per provider, the charges that have left the deque by expiry:
  together with the deque they are all the units ever granted and not given back.
\<close>

datatype quota_op =
    OpTake nat int
  | OpWait nat int
  | OpRefund nat nat nat
  | OpReject nat nat nat int int

fun op_time :: "int \<Rightarrow> quota_op \<Rightarrow> int" where
  "op_time t (OpTake _ now) = now"
| "op_time t (OpWait _ now) = now"
| "op_time t (OpRefund _ _ _) = t"
| "op_time t (OpReject _ _ _ _ now) = now"

fun exec_op :: "quota_op \<Rightarrow> sliding_quota \<Rightarrow> sliding_quota" where
  "exec_op (OpTake units now) q = snd (take_units units now q)"
| "exec_op (OpWait units now) q = snd (wait_for units now q)"
| "exec_op (OpRefund p r n) q = refund p r n q"
| "exec_op (OpReject p r n d now) q = quota_reject p r n d now q"

fun prunes_at :: "quota_op \<Rightarrow> int option" where
  "prunes_at (OpTake _ now) = Some now"
| "prunes_at (OpWait _ now) = Some now"
| "prunes_at _ = None"

definition expired_now :: "quota_op \<Rightarrow> sliding_quota \<Rightarrow> nat \<Rightarrow> charge list" where
  "expired_now p q i =
     (case prunes_at p of
        Some now \<Rightarrow> takeWhile (charge_expired (q_window q) now) (q_used_at q ! i) | None \<Rightarrow> [])"

inductive quota_trace :: "nat \<Rightarrow> nat \<Rightarrow> int \<Rightarrow> int \<Rightarrow> sliding_quota \<Rightarrow> (nat \<Rightarrow> charge list) \<Rightarrow> bool"
  for providers :: nat and mx :: nat and window :: int
where
  start: "quota_trace providers mx window t (quota_new providers mx window) (\<lambda>_. [])"
| step: "quota_trace providers mx window t q gone \<Longrightarrow> t \<le> op_time t p \<Longrightarrow>
     quota_trace providers mx window (op_time t p) (exec_op p q) (\<lambda>i. gone i @ expired_now p q i)"

definition window_count :: "int \<Rightarrow> int \<Rightarrow> charge list \<Rightarrow> nat" where
  "window_count window t cs = length (filter (\<lambda>c. t - window < ch_at c \<and> ch_at c \<le> t) cs)"

lemma window_count_append: "window_count w s (a @ b) = window_count w s a + window_count w s b"
  by (simp add: window_count_def)

lemma window_count_retain: "window_count w s (retain_unless r n cs) \<le> window_count w s cs"
  by (induction r n cs rule: retain_unless.induct) (auto simp: window_count_def)

lemma window_count_le_length: "window_count w s cs \<le> length cs"
  by (simp add: window_count_def)

lemma window_count_none: "(\<forall>c \<in> set cs. \<not> (s - w < ch_at c \<and> ch_at c \<le> s)) \<Longrightarrow> window_count w s cs = 0"
  by (auto simp: window_count_def filter_empty_conv)

definition traced_ok :: "nat \<Rightarrow> nat \<Rightarrow> int \<Rightarrow> int \<Rightarrow> sliding_quota \<Rightarrow> (nat \<Rightarrow> charge list) \<Rightarrow> bool" where
  "traced_ok providers mx window t q gone \<longleftrightarrow>
     quota_shape t q \<and> q_max_units q = mx \<and> q_window q = window \<and> length (q_used_at q) = providers \<and>
     (\<forall>i < providers. (\<forall>c \<in> set (gone i). ch_at c + window \<le> t) \<and>
        (\<forall>s. window_count window s (gone i @ q_used_at q ! i) \<le> mx))"

lemma traced_start: "0 < window \<Longrightarrow> traced_ok providers mx window t (quota_new providers mx window) (\<lambda>_. [])"
  by (simp add: traced_ok_def quota_new_def quota_shape_def deque_ok_def window_count_def)

lemma takeWhile_expired:
  "c \<in> set (takeWhile (charge_expired w now) cs) \<Longrightarrow> 0 < w \<Longrightarrow> ch_at c + w \<le> now"
  by (auto simp: charge_expired_def saturating_since_def dest!: set_takeWhileD)

lemma traced_prune:
  assumes "traced_ok n mx w t q gone" "t \<le> now"
  shows "traced_ok n mx w now (prune now q)
           (\<lambda>i. gone i @ takeWhile (charge_expired (q_window q) now) (q_used_at q ! i))"
proof -
  have "0 < q_window q" using assms(1) by (simp add: traced_ok_def quota_shape_def)
  then show ?thesis
    using assms prune_shape [of t q now]
    by (force simp: traced_ok_def prune_nth dest: takeWhile_expired)
qed

lemma traced_take:
  assumes "traced_ok n mx w now q gone" "p < n" "length (q_used_at q ! p) + units \<le> mx"
  shows "traced_ok n mx w now
     (q\<lparr>q_next_reservation := x,
        q_used_at := (q_used_at q)[p := q_used_at q ! p @ replicate units \<lparr>ch_reservation = r, ch_at = now\<rparr>]\<rparr>)
     gone"
proof -
  let ?new = "replicate units \<lparr>ch_reservation = r, ch_at = now\<rparr>"
  have w: "0 < w" and old: "\<And>c. c \<in> set (gone p) \<Longrightarrow> ch_at c + w \<le> now"
    and le: "\<And>s. window_count w s (gone p @ q_used_at q ! p) \<le> mx"
    using assms(1,2) by (auto simp: traced_ok_def quota_shape_def)
  have "window_count w s (gone p @ q_used_at q ! p @ ?new) \<le> mx" for s
  proof (cases "s - w < now \<and> now \<le> s")
    case True
    then have "window_count w s (gone p) = 0"
      using old by (intro window_count_none) fastforce
    moreover have "window_count w s (q_used_at q ! p @ ?new) \<le> mx"
      using window_count_le_length [of w s "q_used_at q ! p @ ?new"] assms(3) by simp
    ultimately show ?thesis by (simp add: window_count_append)
  next
    case False
    then have "window_count w s ?new = 0" by (intro window_count_none) auto
    with le [of s] show ?thesis by (simp add: window_count_append)
  qed
  then show ?thesis
    using assms by (auto simp: traced_ok_def quota_shape_def nth_list_update intro: deque_ok_extend)
qed

lemma traced_refund:
  assumes "traced_ok n mx w t q gone"
  shows "traced_ok n mx w t (refund p r k q) gone"
proof -
  have "window_count w s (gone i @ q_used_at (refund p r k q) ! i) \<le> mx" if "i < n" for i s
  proof -
    have "window_count w s (q_used_at (refund p r k q) ! i) \<le> window_count w s (q_used_at q ! i)"
      using that assms by (simp add: traced_ok_def refund_nth window_count_retain)
    moreover have "window_count w s (gone i @ q_used_at q ! i) \<le> mx"
      using that assms by (simp add: traced_ok_def)
    ultimately show ?thesis by (simp add: window_count_append)
  qed
  with assms refund_shape show ?thesis by (simp add: traced_ok_def)
qed

lemma traced_later: "traced_ok n mx w t q gone \<Longrightarrow> t \<le> now \<Longrightarrow> traced_ok n mx w now q gone"
  unfolding traced_ok_def quota_shape_def
  by (intro conjI allI impI ballI; elim conjE) (auto intro: deque_ok_later order_trans [of _ t])

lemma traced_reject:
  assumes "traced_ok n mx w t q gone" "t \<le> now"
  shows "traced_ok n mx w now (quota_reject p r k d now q) gone"
proof -
  have l: "traced_ok n mx w now (refund p r k q) gone"
    by (rule traced_later [OF traced_refund [OF assms(1)] assms(2)])
  have "quota_shape now q" using traced_later [OF assms] by (simp add: traced_ok_def)
  then have "quota_shape now (quota_reject p r k d now q)" by (rule reject_shape)
  with l show ?thesis by (simp add: traced_ok_def reject_used)
qed

lemma snd_wait_for [simp]: "snd (wait_for units now q) = prune now q"
  by (simp add: wait_for_def Let_def)

lemma traced_exec:
  assumes "traced_ok n mx w t q gone" "t \<le> op_time t p"
  shows "traced_ok n mx w (op_time t p) (exec_op p q) (\<lambda>i. gone i @ expired_now p q i)"
proof (cases p)
  case (OpTake units now)
  with assms have pr: "traced_ok n mx w now (prune now q) (\<lambda>i. gone i @ expired_now p q i)"
    using traced_prune [of n mx w t q gone now] by (simp add: expired_now_def)
  show ?thesis
  proof (cases rule: take_units_cases [of units now q])
    case none
    with OpTake pr show ?thesis by simp
  next
    case (some j)
    with OpTake traced_take [OF pr, of j units] assms show ?thesis
      by (simp add: provider_free_def traced_ok_def [of n mx w t])
  qed
next
  case (OpWait units now)
  with assms traced_prune [of n mx w t q gone now] show ?thesis
    by (simp add: expired_now_def)
next
  case (OpRefund i r k)
  with assms show ?thesis by (simp add: expired_now_def traced_refund)
next
  case (OpReject i r k d now)
  with assms show ?thesis by (simp add: expired_now_def traced_reject)
qed

lemma quota_trace_ok: "quota_trace n mx w t q gone \<Longrightarrow> 0 < w \<Longrightarrow> traced_ok n mx w t q gone"
  by (induction rule: quota_trace.induct) (auto intro: traced_start traced_exec)

section \<open>The waiting time is exact\<close>

lemma all_some_map:
  "(\<forall>x \<in> set xs. f x \<noteq> None) \<Longrightarrow> all_some (map f xs) = Some (map (\<lambda>x. the (f x)) xs)"
  by (induction xs) auto

lemma nth_sorted_expired:
  "sorted (map ch_at cs) \<Longrightarrow> k < length cs \<Longrightarrow>
   charge_expired w t (cs ! k) \<longleftrightarrow> k < length (takeWhile (charge_expired w t) cs)"
proof (induction cs arbitrary: k)
  case (Cons c cs)
  show ?case
  proof (cases k)
    case (Suc j)
    show ?thesis
    proof (cases "charge_expired w t c")
      case True
      with Cons Suc show ?thesis by simp
    next
      case False
      have "ch_at c \<le> ch_at (cs ! j)" using Cons.prems Suc by simp
      with False have "\<not> charge_expired w t (cs ! j)"
        by (auto simp: charge_expired_def saturating_since_def)
      with False Suc show ?thesis by simp
    qed
  qed simp
qed simp

text \<open>When a provider is free again: its block is over and enough charges have expired.\<close>

lemma provider_wait_Some:
  assumes shape: "quota_shape now q" and i: "i < length (q_used_at q)" and u: "units \<le> q_max_units q"
  shows "\<exists>d. provider_wait q units now i = Some d \<and> 0 \<le> d"
proof -
  have "length (q_used_at q ! i) \<le> q_max_units q"
    using shape i by (simp add: quota_shape_def deque_ok_def)
  with u show ?thesis
    by (auto simp: provider_wait_def Let_def nth_opt_def saturating_since_def split: option.splits)
qed

lemma provider_wait_exact:
  assumes shape: "quota_shape now q" and i: "i < length (q_used_at q)" and u: "units \<le> q_max_units q"
    and d: "provider_wait q units now i = Some d" and t: "now \<le> t"
    and unexpired: "\<forall>c \<in> set (q_used_at q ! i). now - ch_at c < q_window q"
    and unblocked: "\<forall>b. q_blocked_until q ! i = Some b \<longrightarrow> now < b"
  shows "provider_free (prune t q) units i \<longleftrightarrow> now + d \<le> t"
proof -
  let ?cs = "q_used_at q ! i"
  define k where "k = length ?cs + units - q_max_units q"
  have ok: "deque_ok now (q_max_units q) ?cs" and bl: "i < length (q_blocked_until q)"
    using shape i by (simp_all add: quota_shape_def)
  have block: "q_blocked_until (prune t q) ! i = None \<longleftrightarrow>
      now + (case q_blocked_until q ! i of Some b \<Rightarrow> saturating_since b now | None \<Rightarrow> 0) \<le> t"
    using t unblocked bl by (auto simp: prune_nth saturating_since_def split: option.splits)
  have len: "length (q_used_at (prune t q) ! i) =
      length ?cs - length (takeWhile (charge_expired (q_window q) t) ?cs)"
    by (simp add: prune_nth(1) [OF i] dropWhile_eq_drop)
  show ?thesis
  proof (cases "k = 0")
    case True
    then have "d = max 0 (case q_blocked_until q ! i of Some b \<Rightarrow> saturating_since b now | None \<Rightarrow> 0)"
      using d by (simp add: provider_wait_def k_def Let_def)
    moreover have "length (q_used_at (prune t q) ! i) + units \<le> q_max_units q"
      using True by (simp add: len k_def)
    ultimately show ?thesis
      using block t by (auto simp: provider_free_def saturating_since_def split: option.splits)
  next
    case False
    have kl: "k - 1 < length ?cs"
      using False u ok by (auto simp: k_def deque_ok_def)
    let ?c = "?cs ! (k - 1)"
    have dd: "d = max (saturating_since (ch_at ?c + q_window q) now)
        (case q_blocked_until q ! i of Some b \<Rightarrow> saturating_since b now | None \<Rightarrow> 0)"
      using d False kl unfolding k_def by (simp add: provider_wait_def Let_def nth_opt_def)
    have "length (q_used_at (prune t q) ! i) + units \<le> q_max_units q \<longleftrightarrow>
        k - 1 < length (takeWhile (charge_expired (q_window q) t) ?cs)"
      using False u length_takeWhile_le [of "charge_expired (q_window q) t" ?cs]
      unfolding len k_def by linarith
    also have "\<dots> \<longleftrightarrow> charge_expired (q_window q) t ?c"
      using nth_sorted_expired [of ?cs "k - 1"] ok kl by (simp add: deque_ok_def)
    also have "\<dots> \<longleftrightarrow> now + saturating_since (ch_at ?c + q_window q) now \<le> t"
      using t unexpired kl shape
      by (auto simp: charge_expired_def saturating_since_def quota_shape_def max_def)
    finally show ?thesis
      using block unfolding provider_free_def dd by auto
  qed
qed

lemma dropWhile_sorted_unexpired:
  "sorted (map ch_at cs) \<Longrightarrow> c \<in> set (dropWhile (charge_expired w t) cs) \<Longrightarrow> \<not> charge_expired w t c"
  by (induction cs) (auto simp: charge_expired_def saturating_since_def split: if_splits)

lemma pruned_fresh:
  assumes "quota_shape t q" "i < length (q_used_at q)"
  shows "\<forall>c \<in> set (q_used_at (prune now q) ! i). now - ch_at c < q_window q"
    and "\<forall>b. q_blocked_until (prune now q) ! i = Some b \<longrightarrow> now < b"
proof -
  have "sorted (map ch_at (q_used_at q ! i))" and bl: "i < length (q_blocked_until q)"
    using assms by (simp_all add: quota_shape_def deque_ok_def)
  then show "\<forall>c \<in> set (q_used_at (prune now q) ! i). now - ch_at c < q_window q"
    using dropWhile_sorted_unexpired [of "q_used_at q ! i" _ "q_window q" now] assms(2)
    by (fastforce simp: prune_nth(1) charge_expired_def saturating_since_def)
  show "\<forall>b. q_blocked_until (prune now q) ! i = Some b \<longrightarrow> now < b"
    using bl by (auto simp: prune_nth(2) split: option.splits if_splits)
qed

lemma take_succeeds_iff:
  "fst (take_units units now q) \<noteq> None \<longleftrightarrow>
     (\<exists>i < length (q_used_at q). provider_free (prune now q) units i)"
  by (cases rule: take_units_cases [of units now q]) auto

lemma wait_exact:
  assumes shape: "quota_shape t q" "t \<le> now" and u: "units \<le> q_max_units q"
    and n: "q_used_at q \<noteq> []"
  shows "\<exists>d \<ge> 0. fst (wait_for units now q) = Some d \<and>
     (\<forall>s \<ge> now. fst (take_units units s (snd (wait_for units now q))) \<noteq> None \<longleftrightarrow> now + d \<le> s)"
proof -
  let ?q = "prune now q" and ?is = "[0..<length (q_used_at q)]"
  define w where "w i = the (provider_wait ?q units now i)" for i
  have sh: "quota_shape now ?q" by (rule prune_shape [OF shape])
  have some: "provider_wait ?q units now i = Some (w i) \<and> 0 \<le> w i" if "i < length (q_used_at q)" for i
    using provider_wait_Some [OF sh, of i units] that u unfolding w_def by auto
  have free: "provider_free (prune s ?q) units i \<longleftrightarrow> now + w i \<le> s"
    if "i < length (q_used_at q)" "now \<le> s" for i s
    using that u some [OF that(1)] pruned_fresh [OF shape(1) that(1), of now]
    by (intro provider_wait_exact [OF sh]) simp_all
  have ws: "all_some (map (provider_wait ?q units now) ?is) = Some (map w ?is)"
    unfolding w_def by (rule all_some_map) (use some in force)
  have "min_by_key (\<lambda>w. w) (map w ?is) \<noteq> None" using n by simp
  then obtain d where d: "min_by_key (\<lambda>w. w) (map w ?is) = Some d" by blast
  from min_by_key_Some [OF d] obtain i where i: "i < length (q_used_at q)" "d = w i"
    and least: "\<forall>j < length (q_used_at q). d \<le> w j" by auto
  have "fst (wait_for units now q) = Some d"
    by (simp add: wait_for_def Let_def ws d)
  moreover have "fst (take_units units s (snd (wait_for units now q))) \<noteq> None \<longleftrightarrow> now + d \<le> s"
    if "now \<le> s" for s
    unfolding take_succeeds_iff snd_wait_for prune_fields using free that i least by force
  moreover have "0 \<le> d" using some i by simp
  ultimately show ?thesis by blast
qed

section \<open>The scheduler\<close>

record quota_request =
  rq_actor :: str
  rq_units :: nat
  rq_queued_at :: int
  rq_reply :: nat  \<comment> \<open>the reply channel\<close>

record quota_permit =
  pm_provider :: nat
  pm_waited :: int
  pm_reservation :: nat
  pm_units :: nat

definition queued_ms :: "quota_permit \<Rightarrow> nat" where
  "queued_ms p = min (nat (pm_waited p div 1000000)) (2 ^ 64 - 1)"

datatype quota_message =
    Acquire quota_request
  | RefundMsg nat nat nat
  | RejectMsg nat nat nat int

record scheduler =
  sd_quota :: sliding_quota
  sd_by_actor :: "str \<rightharpoonup> quota_request list"
  sd_order :: "str list"

definition enqueue_request :: "quota_request \<Rightarrow> scheduler \<Rightarrow> scheduler" where
  "enqueue_request r st =
     (let actor = rq_actor r;
          queue = (case sd_by_actor st actor of Some q \<Rightarrow> q | None \<Rightarrow> [])
      in st\<lparr>sd_order := (if queue = [] then sd_order st @ [actor] else sd_order st),
            sd_by_actor := (sd_by_actor st)(actor \<mapsto> queue @ [r])\<rparr>)"

definition apply_message :: "int \<Rightarrow> quota_message \<Rightarrow> scheduler \<Rightarrow> scheduler" where
  "apply_message now m st =
     (case m of
        Acquire r \<Rightarrow> enqueue_request r st
      | RefundMsg p r u \<Rightarrow> st\<lparr>sd_quota := refund p r u (sd_quota st)\<rparr>
      | RejectMsg p r u d \<Rightarrow> st\<lparr>sd_quota := quota_reject p r u d now (sd_quota st)\<rparr>)"

definition discard_cancelled :: "nat set \<Rightarrow> scheduler \<Rightarrow> scheduler" where
  "discard_cancelled closed st =
     (let kept = (\<lambda>a. case sd_by_actor st a of
                         None \<Rightarrow> None
                       | Some q \<Rightarrow> (let q' = filter (\<lambda>r. rq_reply r \<notin> closed) q
                                    in if q' = [] then None else Some q'))
      in st\<lparr>sd_by_actor := kept, sd_order := filter (\<lambda>a. kept a \<noteq> None) (sd_order st)\<rparr>)"

text \<open>One pass over the front of the queue: nothing to do, a grant, a delay, or a panic.\<close>

datatype turn = Idle | Grant quota_request quota_permit | Delay int | Panic

definition grant_turn :: "bool \<Rightarrow> int \<Rightarrow> scheduler \<Rightarrow> turn \<times> scheduler" where
  "grant_turn receiver_alive now st =
     (case sd_order st of
        [] \<Rightarrow> (Idle, st)
      | actor # rest \<Rightarrow>
          (case sd_by_actor st actor of
             None \<Rightarrow> (Panic, st)
           | Some [] \<Rightarrow> (Panic, st)
           | Some (r # queue) \<Rightarrow>
               (case take_units (rq_units r) now (sd_quota st) of
                  (Some (provider, reservation), q) \<Rightarrow>
                    (let permit = \<lparr>pm_provider = provider,
                           pm_waited = saturating_since now (rq_queued_at r),
                           pm_reservation = reservation, pm_units = rq_units r\<rparr>;
                         st' = (if queue = []
                                then st\<lparr>sd_by_actor := (sd_by_actor st)(actor := None), sd_order := rest\<rparr>
                                else st\<lparr>sd_by_actor := (sd_by_actor st)(actor \<mapsto> queue),
                                        sd_order := rest @ [actor]\<rparr>)
                     in (Grant r permit,
                         st'\<lparr>sd_quota := (if receiver_alive then q
                                          else refund provider reservation (rq_units r) q)\<rparr>))
                | (None, q) \<Rightarrow>
                    (case wait_for (rq_units r) now q of
                       (None, q') \<Rightarrow> (Panic, st\<lparr>sd_quota := q'\<rparr>)
                     | (Some d, q') \<Rightarrow> (Delay d, st\<lparr>sd_quota := q'\<rparr>)))))"

text \<open>\<open>FairQuota::acquire\<close> admits a request of between one and the maximum of units only.\<close>

definition acquire_admits :: "nat \<Rightarrow> nat \<Rightarrow> bool" where
  "acquire_admits max_units units \<longleftrightarrow> \<not> (units = 0 \<or> units > max_units)"

datatype sched_event =
    Received quota_message
  | Cancelled "nat set"
  | Turn turn

inductive sched_step :: "sched_event \<Rightarrow> scheduler \<Rightarrow> scheduler \<Rightarrow> bool" where
  receive: "(\<forall>r. m = Acquire r \<longrightarrow> acquire_admits (q_max_units (sd_quota st)) (rq_units r)) \<Longrightarrow>
     sched_step (Received m) st (apply_message now m st)"
| cancel: "sched_step (Cancelled closed) st (discard_cancelled closed st)"
| turn: "grant_turn alive now st = (t, st') \<Longrightarrow> sched_step (Turn t) st st'"

inductive_cases sched_step_elim: "sched_step e st st'"

definition sched_ok :: "scheduler \<Rightarrow> bool" where
  "sched_ok st \<longleftrightarrow>
     distinct (sd_order st) \<and> set (sd_order st) = dom (sd_by_actor st) \<and>
     (\<forall>a q. sd_by_actor st a = Some q \<longrightarrow>
        q \<noteq> [] \<and> (\<forall>r \<in> set q. rq_actor r = a \<and> acquire_admits (q_max_units (sd_quota st)) (rq_units r)))"

lemma take_keeps [simp]:
  "q_max_units (snd (take_units u now q)) = q_max_units q"
  "length (q_used_at (snd (take_units u now q))) = length (q_used_at q)"
  by (cases rule: take_units_cases [of u now q]; simp)+

lemma reject_max [simp]: "length (q_used_at (quota_reject p r n d now q)) = length (q_used_at q)"
  by (simp add: reject_used)

lemma enqueue_ok:
  assumes "sched_ok st" "acquire_admits (q_max_units (sd_quota st)) (rq_units r)"
  shows "sched_ok (enqueue_request r st)"
proof (cases "sd_by_actor st (rq_actor r)")
  case None
  then have "rq_actor r \<notin> set (sd_order st)" using assms(1) by (auto simp: sched_ok_def)
  with None assms show ?thesis by (auto simp: sched_ok_def enqueue_request_def Let_def)
next
  case (Some q)
  then have "q \<noteq> []" using assms(1) by (auto simp: sched_ok_def)
  with Some assms show ?thesis by (auto simp: sched_ok_def enqueue_request_def Let_def)
qed

lemma apply_message_ok:
  assumes "sched_ok st" "\<forall>r. m = Acquire r \<longrightarrow> acquire_admits (q_max_units (sd_quota st)) (rq_units r)"
  shows "sched_ok (apply_message now m st)"
proof (cases m)
  case (Acquire r)
  then show ?thesis using assms enqueue_ok by (simp add: apply_message_def)
next
  case (RefundMsg p r u)
  then show ?thesis using assms(1) by (simp add: apply_message_def sched_ok_def)
next
  case (RejectMsg p r u d)
  then show ?thesis using assms(1) by (simp add: apply_message_def sched_ok_def)
qed

lemma discard_ok: "sched_ok st \<Longrightarrow> sched_ok (discard_cancelled closed st)"
  by (auto simp: sched_ok_def discard_cancelled_def Let_def split: option.splits if_splits)

lemma front_request:
  assumes "sched_ok st" "sd_order st = actor # rest"
  shows "\<exists>r queue. sd_by_actor st actor = Some (r # queue)"
proof -
  have "actor \<in> dom (sd_by_actor st)" using assms unfolding sched_ok_def by (metis list.set_intros(1))
  then obtain q where q: "sd_by_actor st actor = Some q" by blast
  with assms(1) have "q \<noteq> []" by (simp add: sched_ok_def)
  with q show ?thesis by (cases q) auto
qed

lemma grant_ok:
  assumes ok: "sched_ok st" and g: "grant_turn alive now st = (t, st')"
  shows "sched_ok st'"
proof (cases "sd_order st")
  case Nil
  with assms show ?thesis by (simp add: grant_turn_def)
next
  case (Cons actor rest)
  then obtain r queue where q: "sd_by_actor st actor = Some (r # queue)"
    using front_request [OF ok] by blast
  obtain p q' where tk: "take_units (rq_units r) now (sd_quota st) = (p, q')" by fastforce
  have mx: "q_max_units q' = q_max_units (sd_quota st)"
    using take_keeps(1) [of "rq_units r" now "sd_quota st"] tk by simp
  show ?thesis
  proof (cases p)
    case None
    have "sd_by_actor st' = sd_by_actor st \<and> sd_order st' = sd_order st \<and>
        q_max_units (sd_quota st') = q_max_units (sd_quota st)"
      using g Cons q tk None mx
      by (auto simp: grant_turn_def wait_for_def Let_def split: option.splits)
    with ok show ?thesis by (simp add: sched_ok_def)
  next
    case (Some pr)
    obtain pv rv where pr: "pr = (pv, rv)" by fastforce
    have mx': "q_max_units (sd_quota st') = q_max_units (sd_quota st)"
      and by_actor: "sd_by_actor st' = (if queue = [] then (sd_by_actor st)(actor := None)
                        else (sd_by_actor st)(actor \<mapsto> queue))"
      and ord: "sd_order st' = (if queue = [] then rest else rest @ [actor])"
      using g Cons q tk Some pr mx by (auto simp: grant_turn_def Let_def)
    have r: "actor \<notin> set rest" "distinct rest" "dom (sd_by_actor st) = insert actor (set rest)"
      using ok Cons unfolding sched_ok_def by simp_all
    have old: "qs \<noteq> [] \<and> (\<forall>r \<in> set qs. rq_actor r = a \<and>
        acquire_admits (q_max_units (sd_quota st)) (rq_units r))" if "sd_by_actor st a = Some qs" for a qs
      using ok that unfolding sched_ok_def by blast
    have "dom (sd_by_actor st') = set (sd_order st')"
      using r by (auto simp: by_actor ord)
    moreover have "distinct (sd_order st')" using r by (simp add: ord)
    moreover have "qs \<noteq> [] \<and> (\<forall>r \<in> set qs. rq_actor r = a \<and>
        acquire_admits (q_max_units (sd_quota st)) (rq_units r))" if "sd_by_actor st' a = Some qs" for a qs
    proof (cases "a = actor")
      case True
      with that have "queue \<noteq> []" "qs = queue" by (auto simp: by_actor split: if_splits)
      with old [OF q] True show ?thesis by simp
    next
      case False
      with that have "sd_by_actor st a = Some qs" by (auto simp: by_actor split: if_splits)
      then show ?thesis by (rule old)
    qed
    ultimately show ?thesis unfolding sched_ok_def mx' by simp
  qed
qed

lemma sched_step_ok: "sched_step e st st' \<Longrightarrow> sched_ok st \<Longrightarrow> sched_ok st'"
  by (induction rule: sched_step.induct) (auto intro: apply_message_ok discard_ok grant_ok)

lemma grant_no_panic:
  assumes ok: "sched_ok st" and shape: "quota_shape t (sd_quota st)" "t \<le> now"
    and providers: "q_used_at (sd_quota st) \<noteq> []"
  shows "fst (grant_turn alive now st) \<noteq> Panic"
proof (cases "sd_order st")
  case Nil
  then show ?thesis by (simp add: grant_turn_def)
next
  case (Cons actor rest)
  then obtain r queue where q: "sd_by_actor st actor = Some (r # queue)"
    using front_request [OF ok] by blast
  obtain p q' where tk: "take_units (rq_units r) now (sd_quota st) = (p, q')" by fastforce
  have q': "q' = snd (take_units (rq_units r) now (sd_quota st))" by (simp add: tk)
  have "rq_units r \<le> q_max_units q'"
    using ok q by (fastforce simp: sched_ok_def acquire_admits_def q')
  moreover have "q_used_at q' \<noteq> []"
    using providers take_keeps(2) [of "rq_units r" now "sd_quota st"] unfolding q'
    by (metis length_0_conv)
  ultimately obtain d where "fst (wait_for (rq_units r) now q') = Some d"
    using wait_exact [of now q' now "rq_units r"] take_shape [OF shape, of "rq_units r"] q' by auto
  then show ?thesis
    using Cons q tk by (auto simp: grant_turn_def Let_def split: option.splits prod.splits)
qed

definition scheduler_start :: "nat \<Rightarrow> nat \<Rightarrow> int \<Rightarrow> scheduler" where
  "scheduler_start providers max_units window =
     \<lparr>sd_quota = quota_new providers max_units window, sd_by_actor = Map.empty, sd_order = []\<rparr>"

interpretation scheduler: step_system "\<lambda>st. \<exists>n m w. st = scheduler_start n m w" sched_step sched_ok
proof
  show "\<exists>n m w. st = scheduler_start n m w \<Longrightarrow> sched_ok st" for st
    by (auto simp: scheduler_start_def sched_ok_def)
  show "sched_step e st st' \<Longrightarrow> sched_ok st \<Longrightarrow> sched_ok st'" for e st st'
    by (rule sched_step_ok)
qed

section \<open>Round robin\<close>

definition ahead :: "str \<Rightarrow> str \<Rightarrow> str list \<Rightarrow> bool" where
  "ahead b a order \<longleftrightarrow> b \<in> set (takeWhile (\<lambda>x. x \<noteq> a) order)"

definition grants_to :: "str \<Rightarrow> sched_event \<Rightarrow> bool" where
  "grants_to b e \<longleftrightarrow> (\<exists>r p. e = Turn (Grant r p) \<and> rq_actor r = b)"

text \<open>A run during which actor \<open>a\<close> stays queued and is not served.\<close>

inductive waits :: "str \<Rightarrow> scheduler \<Rightarrow> sched_event list \<Rightarrow> scheduler \<Rightarrow> bool" for a where
  waits_nil: "a \<in> set (sd_order st) \<Longrightarrow> waits a st [] st"
| waits_cons: "a \<in> set (sd_order st) \<Longrightarrow> sched_step e st st' \<Longrightarrow> \<not> grants_to a e \<Longrightarrow>
     waits a st' es st'' \<Longrightarrow> waits a st (e # es) st''"

lemma ahead_snoc: "a \<in> set xs \<Longrightarrow> ahead b a (xs @ ys) \<longleftrightarrow> ahead b a xs"
  by (simp add: ahead_def takeWhile_append1)

lemma ahead_filter: "P a \<Longrightarrow> ahead b a (filter P xs) \<Longrightarrow> ahead b a xs"
  by (induction xs) (auto simp: ahead_def split: if_splits)

lemma grant_turn_Grant:
  assumes "sched_ok st" "grant_turn alive now st = (Grant r p, st')"
  shows "\<exists>rest. sd_order st = rq_actor r # rest \<and>
     (sd_order st' = rest \<or> sd_order st' = rest @ [rq_actor r])"
proof -
  obtain actor rest where o: "sd_order st = actor # rest"
    using assms(2) by (cases "sd_order st") (auto simp: grant_turn_def)
  obtain r' queue where q: "sd_by_actor st actor = Some (r' # queue)"
    using front_request [OF assms(1) o] by blast
  have "rq_actor r' = actor" using assms(1) q by (fastforce simp: sched_ok_def)
  then show ?thesis
    using assms(2) o q
    by (auto simp: grant_turn_def Let_def split: prod.splits option.splits if_splits)
qed

lemma grant_turn_other:
  assumes "grant_turn alive now st = (t, st')" "\<And>r p. t \<noteq> Grant r p"
  shows "sd_order st' = sd_order st"
  using assms by (auto simp: grant_turn_def Let_def split: list.splits option.splits prod.splits)

lemma step_ahead:
  assumes ok: "sched_ok st" and step: "sched_step e st st'" and a: "a \<in> set (sd_order st)"
    and a': "a \<in> set (sd_order st')" and na: "\<not> grants_to a e" and ab: "a \<noteq> b"
  shows "of_bool (grants_to b e) + of_bool (ahead b a (sd_order st')) \<le>
         (of_bool (ahead b a (sd_order st)) :: nat)"
  using step
proof (cases rule: sched_step.cases)
  case (receive m now)
  have "sd_order st' = sd_order st \<or> (\<exists>x. sd_order st' = sd_order st @ [x])"
    using receive by (auto simp: apply_message_def enqueue_request_def Let_def split: quota_message.splits)
  with a have "ahead b a (sd_order st') \<longleftrightarrow> ahead b a (sd_order st)" by (auto simp: ahead_snoc)
  with receive show ?thesis by (simp add: grants_to_def)
next
  case (cancel closed)
  let ?P = "\<lambda>x. sd_by_actor (discard_cancelled closed st) x \<noteq> None"
  have o: "sd_order st' = filter ?P (sd_order st)"
    by (simp add: cancel discard_cancelled_def Let_def)
  with a' have "?P a" by simp
  with ahead_filter [of ?P a b "sd_order st"] have "ahead b a (sd_order st') \<Longrightarrow> ahead b a (sd_order st)"
    unfolding o by blast
  with cancel show ?thesis by (auto simp: grants_to_def)
next
  case (turn alive now t)
  show ?thesis
  proof (cases "\<exists>r p. t = Grant r p")
    case True
    then obtain r p where t: "t = Grant r p" by blast
    from grant_turn_Grant [OF ok turn(2) [unfolded t]] obtain rest where
      o: "sd_order st = rq_actor r # rest"
      and o': "sd_order st' = rest \<or> sd_order st' = rest @ [rq_actor r]" by blast
    have ra: "rq_actor r \<noteq> a" using na turn(1) t by (auto simp: grants_to_def)
    with a o have ar: "a \<in> set rest" by auto
    have "distinct (rq_actor r # rest)" using ok o by (simp add: sched_ok_def)
    then have nr: "\<not> ahead (rq_actor r) a rest" by (auto simp: ahead_def dest: set_takeWhileD)
    have "ahead b a (sd_order st') \<longleftrightarrow> ahead b a rest" using o' ar ahead_snoc by auto
    moreover have "ahead b a (sd_order st) \<longleftrightarrow> b = rq_actor r \<or> ahead b a rest"
      using ra by (auto simp: o ahead_def)
    moreover have "grants_to b e \<longleftrightarrow> b = rq_actor r" using turn(1) t by (auto simp: grants_to_def)
    ultimately show ?thesis using nr by auto
  next
    case False
    then have "sd_order st' = sd_order st" using grant_turn_other [OF turn(2)] by blast
    with False turn show ?thesis by (auto simp: grants_to_def)
  qed
qed

lemma waits_start: "waits a st es st' \<Longrightarrow> a \<in> set (sd_order st)"
  by (erule waits.cases) auto

lemma overtaking_bounded:
  "waits a st es st' \<Longrightarrow> sched_ok st \<Longrightarrow> a \<noteq> b \<Longrightarrow>
   length (filter (grants_to b) es) \<le> (of_bool (ahead b a (sd_order st)) :: nat)"
proof (induction rule: waits.induct)
  case (waits_cons st e st' es st'')
  have "of_bool (grants_to b e) + of_bool (ahead b a (sd_order st')) \<le>
         (of_bool (ahead b a (sd_order st)) :: nat)"
    using step_ahead waits_cons waits_start by blast
  moreover have "length (filter (grants_to b) es) \<le> (of_bool (ahead b a (sd_order st')) :: nat)"
    using waits_cons sched_step_ok by blast
  moreover have "length (filter (grants_to b) (e # es)) =
      of_bool (grants_to b e) + length (filter (grants_to b) es)" by simp
  ultimately show ?case by linarith
qed simp

section \<open>Properties\<close>

text \<open>C29: Whatever sequence of takes, waits, refunds and rejections the pool performs at
  non-decreasing times, the units granted on a provider key within any window and not given back
  never exceed its maximum. A unit given back while it was live is not counted: it may be granted
  again within the same window.\<close>

theorem quota_window_bound:
  assumes "quota_trace providers mx window t q gone" "0 < window" "provider < providers"
  shows "window_count window s (gone provider @ q_used_at q ! provider) \<le> mx"
  using quota_trace_ok [OF assms(1,2)] assms(3) by (simp add: traced_ok_def)

theorem quota_window_bound_witness:
  "\<exists>gone. window_count 60 61 (gone 0 @ q_used_at (exec_op (OpTake 2 61) (exec_op (OpTake 1 0) (quota_new 1 2 60))) ! 0) \<le> 2"
proof -
  have "quota_trace 1 2 60 0 (quota_new 1 2 60) (\<lambda>_. [])" by (rule quota_trace.start)
  from quota_trace.step [OF this, of "OpTake 1 0"]
  have "quota_trace 1 2 60 0 (exec_op (OpTake 1 0) (quota_new 1 2 60))
     (\<lambda>i. [] @ expired_now (OpTake 1 0) (quota_new 1 2 60) i)" by simp
  from quota_trace.step [OF this, of "OpTake 2 61"]
  obtain gone where "quota_trace 1 2 60 61 (exec_op (OpTake 2 61) (exec_op (OpTake 1 0) (quota_new 1 2 60))) gone"
    by auto
  from quota_window_bound [OF this, of 0 61] show ?thesis by auto
qed

text \<open>The waiting time the scheduler sleeps is exact: for a request that fits the quota it
  never panics, a take after that time succeeds, and no earlier take would have.\<close>

theorem wait_for_exact:
  assumes "quota_shape t q" "t \<le> now" "units \<le> q_max_units q" "q_used_at q \<noteq> []"
  shows "\<exists>d \<ge> 0. fst (wait_for units now q) = Some d \<and>
     (\<forall>s \<ge> now. fst (take_units units s (snd (wait_for units now q))) \<noteq> None \<longleftrightarrow> now + d \<le> s)"
  using wait_exact [OF assms] .

theorem wait_for_exact_witness:
  "\<exists>d \<ge> 0. fst (wait_for 2 10 (exec_op (OpTake 1 0) (quota_new 1 2 60))) = Some d"
proof -
  have s: "quota_shape 0 (exec_op (OpTake 1 0) (quota_new 1 2 60))"
    using take_shape [of 0 "quota_new 1 2 60" 0 1]
    by (simp add: quota_new_def quota_shape_def deque_ok_def)
  have "length (q_used_at (exec_op (OpTake 1 0) (quota_new 1 2 60))) = 1"
    "2 \<le> q_max_units (exec_op (OpTake 1 0) (quota_new 1 2 60))"
    unfolding exec_op.simps take_keeps by (simp_all add: quota_new_def)
  then have "q_used_at (exec_op (OpTake 1 0) (quota_new 1 2 60)) \<noteq> []"
    "2 \<le> q_max_units (exec_op (OpTake 1 0) (quota_new 1 2 60))" by (metis length_0_conv zero_neq_one)+
  with wait_for_exact [OF s, of 10 2] show ?thesis by auto
qed

text \<open>C30: The scheduler is fair: while an actor is queued and not served, every other actor is
  granted at most one permit, and none at all when it is queued behind.\<close>

theorem scheduler_round_robin:
  assumes "scheduler_start n m w = st0" "run sched_step st0 before st" "waits a st es st'" "a \<noteq> b"
  shows "length (filter (grants_to b) es) \<le> of_bool (ahead b a (sd_order st))"
proof -
  have "sched_ok st" using scheduler.reachable_inv [OF _ assms(2)] assms(1) by blast
  from overtaking_bounded [OF assms(3) this assms(4)] show ?thesis .
qed

definition sample_request :: "nat \<Rightarrow> quota_request" where
  "sample_request n = \<lparr>rq_actor = [n], rq_units = 1, rq_queued_at = 0, rq_reply = n\<rparr>"

definition sample_scheduler :: scheduler where
  "sample_scheduler =
     apply_message 0 (Acquire (sample_request 97))
       (apply_message 0 (Acquire (sample_request 98)) (scheduler_start 1 2 60))"

lemma sample_scheduler_eq:
  "sample_scheduler = \<lparr>sd_quota = quota_new 1 2 60,
     sd_by_actor = [[98] \<mapsto> [sample_request 98], [97] \<mapsto> [sample_request 97]],
     sd_order = [[98], [97]]\<rparr>"
  by (simp add: sample_scheduler_def apply_message_def enqueue_request_def scheduler_start_def
      sample_request_def Let_def)

lemma sample_turn:
  "\<exists>p st'. grant_turn True 0 sample_scheduler = (Grant (sample_request 98) p, st') \<and> sd_order st' = [[97]]"
  by (simp add: sample_scheduler_eq grant_turn_def take_units_def Let_def prune_def quota_new_def
      provider_free_def sample_request_def)

theorem scheduler_round_robin_witness:
  "\<exists>es st'. waits [97] sample_scheduler es st' \<and> length (filter (grants_to [98]) es) = 1"
proof -
  have a: "acquire_admits 2 (rq_units (sample_request n))" for n
    by (simp add: acquire_admits_def sample_request_def)
  let ?s0 = "scheduler_start 1 2 60" and ?s1 = "apply_message 0 (Acquire (sample_request 98)) (scheduler_start 1 2 60)"
  have s0: "sched_step (Received (Acquire (sample_request 98))) ?s0 ?s1"
    by (rule sched_step.receive) (simp add: a scheduler_start_def quota_new_def)
  have s1: "sched_step (Received (Acquire (sample_request 97))) ?s1 sample_scheduler"
    unfolding sample_scheduler_def
    by (rule sched_step.receive)
       (simp add: a apply_message_def enqueue_request_def scheduler_start_def quota_new_def Let_def)
  have r: "run sched_step ?s0 (([] @ [Received (Acquire (sample_request 98))]) @
      [Received (Acquire (sample_request 97))]) sample_scheduler"
    using run_snoc [where step = sched_step, OF run_snoc [where step = sched_step, OF run_nil s0] s1] .
  obtain p st' where g: "grant_turn True 0 sample_scheduler = (Grant (sample_request 98) p, st')"
    and o: "sd_order st' = [[97]]" using sample_turn by blast
  let ?e = "Turn (Grant (sample_request 98) p)"
  have "\<not> grants_to [97] ?e" and b: "grants_to [98] ?e"
    by (simp_all add: grants_to_def sample_request_def)
  then have w: "waits [97] sample_scheduler [?e] st'"
    using o by (intro waits_cons [OF _ sched_step.turn [OF g]] waits_nil) (simp_all add: sample_scheduler_eq)
  have "length (filter (grants_to [98]) [?e]) \<le> of_bool (ahead [98] [97] (sd_order sample_scheduler))"
    by (rule scheduler_round_robin [OF refl r w]) simp
  with w b show ?thesis by (intro exI [of _ "[?e]"] exI [of _ st']) simp
qed

text \<open>The scheduler never panics: in every reachable state whose quota is well formed, a turn
  over the queue finds the front actor's request and a delay for it.\<close>

theorem scheduler_never_panics:
  assumes "run sched_step (scheduler_start n m w) es st" "quota_shape t (sd_quota st)" "t \<le> now"
    and "q_used_at (sd_quota st) \<noteq> []"
  shows "fst (grant_turn alive now st) \<noteq> Panic"
proof -
  have "sched_ok st" using scheduler.reachable_inv [OF _ assms(1)] by blast
  then show ?thesis by (rule grant_no_panic [OF _ assms(2-4)])
qed

theorem scheduler_never_panics_witness:
  "fst (grant_turn True 5 (scheduler_start 1 2 60)) \<noteq> Panic"
proof -
  have "quota_shape 0 (sd_quota (scheduler_start 1 2 60))" "q_used_at (sd_quota (scheduler_start 1 2 60)) \<noteq> []"
    by (simp_all add: scheduler_start_def quota_new_def quota_shape_def deque_ok_def)
  with scheduler_never_panics [OF run_nil] show ?thesis by force
qed

end
