(* ===== verification/SB_Actions.thy ===== *)
theory SB_Actions
  imports SB_Prelude
begin

text \<open>
  Actions: functions over a state that may fail, as the asynchronous functions of the program are,
  with the rules by which invariants and triples are carried through them.
\<close>

section \<open>Actions that may fail\<close>

text \<open>An asynchronous function over some state \<open>'s\<close> that returns a \<open>Result\<close>.\<close>

type_synonym ('s, 'e, 'a) act = "'s \<Rightarrow> ('e + 'a) \<times> 's"

definition okA :: "'a \<Rightarrow> ('s, 'e, 'a) act" where "okA x s = (Inr x, s)"

definition errA :: "'e \<Rightarrow> ('s, 'e, 'a) act" where "errA e s = (Inl e, s)"

definition liftA :: "'e + 'a \<Rightarrow> ('s, 'e, 'a) act" where "liftA r s = (r, s)"

definition bindA :: "('s, 'e, 'a) act \<Rightarrow> ('a \<Rightarrow> ('s, 'e, 'b) act) \<Rightarrow> ('s, 'e, 'b) act" where
  "bindA m f s = (case m s of (Inl e, s') \<Rightarrow> (Inl e, s') | (Inr x, s') \<Rightarrow> f x s')"

text \<open>\<open>match m.await { Ok(x) => f(x), Err(e) => g(e) }\<close>\<close>

definition matchA ::
  "('s, 'e, 'a) act \<Rightarrow> ('a \<Rightarrow> ('s, 'f, 'b) act) \<Rightarrow> ('e \<Rightarrow> ('s, 'f, 'b) act) \<Rightarrow> ('s, 'f, 'b) act" where
  "matchA m f g s = (case m s of (Inl e, s') \<Rightarrow> g e s' | (Inr x, s') \<Rightarrow> f x s')"

definition map_errA :: "('e \<Rightarrow> 'f) \<Rightarrow> ('s, 'e, 'a) act \<Rightarrow> ('s, 'f, 'a) act" where
  "map_errA g m s = (case m s of (Inl e, s') \<Rightarrow> (Inl (g e), s') | (Inr x, s') \<Rightarrow> (Inr x, s'))"

lemma act_simps [simp]:
  "okA x s = (Inr x, s)" "errA e s = (Inl e, s)" "liftA r s = (r, s)"
  by (simp_all add: okA_def errA_def liftA_def)

lemma bindA_Inr: "bindA m f s = (Inr y, s') \<longleftrightarrow> (\<exists>x t. m s = (Inr x, t) \<and> f x t = (Inr y, s'))"
  by (auto simp: bindA_def split: prod.splits sum.splits)

lemma map_errA_Inr: "map_errA g m s = (Inr y, s') \<longleftrightarrow> m s = (Inr y, s')"
  by (auto simp: map_errA_def split: prod.splits sum.splits)

section \<open>Preservation\<close>

definition keepsA :: "('w \<Rightarrow> bool) \<Rightarrow> ('w \<Rightarrow> 'r \<times> 'w) \<Rightarrow> bool" where
  "keepsA I m \<longleftrightarrow> (\<forall>w. I w \<longrightarrow> I (snd (m w)))"

lemma keepsAD: "keepsA I m \<Longrightarrow> I w \<Longrightarrow> I (snd (m w))"
  by (simp add: keepsA_def)

lemma keepsA_pure [intro, simp]: "keepsA I (okA x)" "keepsA I (errA e)" "keepsA I (liftA r)"
  by (simp_all add: keepsA_def)

lemma keepsA_bindA [intro]: "keepsA I m \<Longrightarrow> (\<And>x. keepsA I (f x)) \<Longrightarrow> keepsA I (bindA m f)"
  unfolding keepsA_def bindA_def by (fastforce split: prod.splits sum.splits)

lemma keepsA_matchA [intro]:
  "keepsA I m \<Longrightarrow> (\<And>x. keepsA I (f x)) \<Longrightarrow> (\<And>e. keepsA I (g e)) \<Longrightarrow> keepsA I (matchA m f g)"
  unfolding keepsA_def matchA_def by (fastforce split: prod.splits sum.splits)

lemma keepsA_map_errA [intro]: "keepsA I m \<Longrightarrow> keepsA I (map_errA g m)"
  unfolding keepsA_def map_errA_def by (fastforce split: prod.splits sum.splits)

lemma keepsA_if: "(c \<Longrightarrow> keepsA I a) \<Longrightarrow> (\<not> c \<Longrightarrow> keepsA I b) \<Longrightarrow> keepsA I (if c then a else b)"
  by simp

lemma keepsA_Let: "(\<And>x. keepsA I (f x)) \<Longrightarrow> keepsA I (Let v f)"
  by simp

lemma keepsA_case_option:
  "keepsA I a \<Longrightarrow> (\<And>x. keepsA I (f x)) \<Longrightarrow> keepsA I (case v of None \<Rightarrow> a | Some x \<Rightarrow> f x)"
  by (cases v) simp_all

lemma keepsA_case_sum:
  "(\<And>e. keepsA I (g e)) \<Longrightarrow> (\<And>x. keepsA I (f x)) \<Longrightarrow> keepsA I (case v of Inl e \<Rightarrow> g e | Inr x \<Rightarrow> f x)"
  by (cases v) simp_all

lemma keepsA_case_prod: "(\<And>x y. keepsA I (f x y)) \<Longrightarrow> keepsA I (case v of (x, y) \<Rightarrow> f x y)"
  by (cases v) simp

text \<open>The same for actions that take the world apart.\<close>

lemma keepsA_step:
  "keepsA I m \<Longrightarrow> (\<And>r. keepsA I (f r)) \<Longrightarrow> keepsA I (\<lambda>w. case m w of (r, w') \<Rightarrow> f r w')"
  unfolding keepsA_def by (fastforce split: prod.splits)

lemma keepsA_ret [simp]: "keepsA I (\<lambda>w. (r, w))"
  by (simp add: keepsA_def)

lemma keepsA_sum:
  "(\<And>e. keepsA I (g e)) \<Longrightarrow> (\<And>x. keepsA I (f x)) \<Longrightarrow> keepsA I (\<lambda>w. case v of Inl e \<Rightarrow> g e w | Inr x \<Rightarrow> f x w)"
  by (cases v) simp_all

lemma keepsA_option:
  "keepsA I a \<Longrightarrow> (\<And>x. keepsA I (f x)) \<Longrightarrow> keepsA I (\<lambda>w. case v of None \<Rightarrow> a w | Some x \<Rightarrow> f x w)"
  by (cases v) simp_all

lemma keepsA_bool:
  "keepsA I f \<Longrightarrow> keepsA I g \<Longrightarrow> keepsA I (\<lambda>w. case v of True \<Rightarrow> f w | False \<Rightarrow> g w)"
  by (cases v) simp_all

lemma keepsA_cond:
  "(c \<Longrightarrow> keepsA I f) \<Longrightarrow> (\<not> c \<Longrightarrow> keepsA I g) \<Longrightarrow> keepsA I (\<lambda>w. if c then f w else g w)"
  by (cases c) simp_all

lemma keepsA_snd: "keepsA I m \<Longrightarrow> keepsA I (\<lambda>w. (r, snd (m w)))"
  by (simp add: keepsA_def)

lemma keepsA_fold: "(\<And>x. keepsA I (\<lambda>w. ((), f x w))) \<Longrightarrow> I w \<Longrightarrow> I (fold f xs w)"
  by (induction xs arbitrary: w) (auto simp: keepsA_def)

lemma keepsA_result: "keepsA I m \<Longrightarrow> I w \<Longrightarrow> m w = (r, w') \<Longrightarrow> I w'"
  by (auto simp: keepsA_def)

section \<open>Triples\<close>

text \<open>Triples of actions: from \<open>P\<close>, a result satisfies \<open>Q\<close> and an error leaves \<open>I\<close>.\<close>

definition tripleA ::
  "('w \<Rightarrow> bool) \<Rightarrow> ('w \<Rightarrow> bool) \<Rightarrow> ('w, 'e, 'a) act \<Rightarrow> ('a \<Rightarrow> 'w \<Rightarrow> bool) \<Rightarrow> bool" where
  "tripleA I P m Q \<longleftrightarrow> (\<forall>w. P w \<longrightarrow> (case m w of (Inl e, w') \<Rightarrow> I w' | (Inr x, w') \<Rightarrow> Q x w'))"

lemma tripleA_bind: "tripleA I P m Q \<Longrightarrow> (\<And>x. tripleA I (Q x) (f x) R) \<Longrightarrow> tripleA I P (bindA m f) R"
  unfolding tripleA_def bindA_def by (fastforce split: prod.splits sum.splits)

lemma tripleA_lift: "(\<And>w. P w \<Longrightarrow> I w) \<Longrightarrow> tripleA I P (liftA r) (\<lambda>_. P)"
  by (cases r) (simp_all add: tripleA_def)

lemma tripleA_map_err: "tripleA I P m Q \<Longrightarrow> tripleA I P (map_errA g m) Q"
  unfolding tripleA_def map_errA_def by (fastforce split: prod.splits sum.splits)

lemma tripleA_keeps: "keepsA P m \<Longrightarrow> (\<And>w. P w \<Longrightarrow> I w) \<Longrightarrow> tripleA I P m (\<lambda>_. P)"
  unfolding tripleA_def keepsA_def by (fastforce split: prod.splits sum.splits)

lemma tripleAD: "tripleA I P m Q \<Longrightarrow> P w \<Longrightarrow> m w = (r, w') \<Longrightarrow> (case r of Inl e \<Rightarrow> I w' | Inr x \<Rightarrow> Q x w')"
  by (auto simp: tripleA_def)

end
