(* ===== verification/SB_Proxy.thy ===== *)
theory SB_Proxy
  imports SB_Model
begin

text \<open>
  The proxy locations of the browser provider (\<open>src/crates/backend/src/providers/proxy.rs\<close>):
  the pinned table of codes and names, and the test on a code.
\<close>

text \<open>\<open>ProviderProxyLocation\<close>: a code and a name.\<close>

type_synonym provider_proxy_location = "string \<times> str"

definition BROWSER_USE_PROXY_LOCATIONS :: "provider_proxy_location list" where
  "BROWSER_USE_PROXY_LOCATIONS = [
    (''ad'', lit ''Andorra''), (''ae'', lit ''United Arab Emirates''), (''af'', lit ''Afghanistan''),
    (''ag'', lit ''Antigua & Barbuda''), (''ai'', lit ''Anguilla''), (''al'', lit ''Albania''),
    (''am'', lit ''Armenia''), (''an'', lit ''Netherlands Antilles''), (''ao'', lit ''Angola''),
    (''aq'', lit ''Antarctica''), (''ar'', lit ''Argentina''), (''as'', lit ''American Samoa''),
    (''at'', lit ''Austria''), (''au'', lit ''Australia''), (''aw'', lit ''Aruba''),
    (''az'', lit ''Azerbaijan''), (''ba'', lit ''Bosnia & Herzegovina''), (''bb'', lit ''Barbados''),
    (''bd'', lit ''Bangladesh''), (''be'', lit ''Belgium''), (''bf'', lit ''Burkina Faso''),
    (''bg'', lit ''Bulgaria''), (''bh'', lit ''Bahrain''), (''bi'', lit ''Burundi''),
    (''bj'', lit ''Benin''), (''bl'', lit ''Saint Barth'' @ [233] @ lit ''lemy''), (''bm'', lit ''Bermuda''),
    (''bn'', lit ''Brunei''), (''bo'', lit ''Bolivia''), (''bq'', lit ''Caribbean Netherlands''),
    (''br'', lit ''Brazil''), (''bs'', lit ''Bahamas''), (''bt'', lit ''Bhutan''),
    (''bv'', lit ''Bouvet Island''), (''bw'', lit ''Botswana''), (''by'', lit ''Belarus''),
    (''bz'', lit ''Belize''), (''ca'', lit ''Canada''), (''cc'', lit ''Cocos (Keeling) Islands''),
    (''cd'', lit ''Democratic Republic of the Congo''), (''cf'', lit ''Central African Republic''),
    (''cg'', lit ''Republic of the Congo''), (''ch'', lit ''Switzerland''), (''ck'', lit ''Cook Islands''),
    (''cl'', lit ''Chile''), (''cm'', lit ''Cameroon''), (''co'', lit ''Colombia''),
    (''cr'', lit ''Costa Rica''), (''cs'', lit ''Serbia and Montenegro''), (''cu'', lit ''Cuba''),
    (''cv'', lit ''Cape Verde''), (''cw'', lit ''Cura'' @ [231] @ lit ''ao''),
    (''cx'', lit ''Christmas Island''), (''cy'', lit ''Cyprus''), (''cz'', lit ''Czech Republic''),
    (''de'', lit ''Germany''), (''dj'', lit ''Djibouti''), (''dk'', lit ''Denmark''),
    (''dm'', lit ''Dominica''), (''do'', lit ''Dominican Republic''), (''dz'', lit ''Algeria''),
    (''ec'', lit ''Ecuador''), (''ee'', lit ''Estonia''), (''eg'', lit ''Egypt''),
    (''eh'', lit ''Western Sahara''), (''er'', lit ''Eritrea''), (''es'', lit ''Spain''),
    (''et'', lit ''Ethiopia''), (''fi'', lit ''Finland''), (''fj'', lit ''Fiji''),
    (''fk'', lit ''Falkland Islands''), (''fm'', lit ''Micronesia''), (''fo'', lit ''Faroe Islands''),
    (''fr'', lit ''France''), (''ga'', lit ''Gabon''), (''gd'', lit ''Grenada''), (''ge'', lit ''Georgia''),
    (''gf'', lit ''French Guiana''), (''gg'', lit ''Guernsey''), (''gh'', lit ''Ghana''),
    (''gi'', lit ''Gibraltar''), (''gl'', lit ''Greenland''), (''gm'', lit ''Gambia''),
    (''gn'', lit ''Guinea''), (''gp'', lit ''Guadeloupe''), (''gq'', lit ''Equatorial Guinea''),
    (''gr'', lit ''Greece''), (''gs'', lit ''South Georgia & South Sandwich Islands''),
    (''gt'', lit ''Guatemala''), (''gu'', lit ''Guam''), (''gw'', lit ''Guinea-Bissau''),
    (''gy'', lit ''Guyana''), (''hk'', lit ''Hong Kong''), (''hm'', lit ''Heard Island & McDonald Islands''),
    (''hn'', lit ''Honduras''), (''hr'', lit ''Croatia''), (''ht'', lit ''Haiti''),
    (''hu'', lit ''Hungary''), (''id'', lit ''Indonesia''), (''ie'', lit ''Ireland''),
    (''il'', lit ''Israel''), (''im'', lit ''Isle of Man''), (''in'', lit ''India''), (''iq'', lit ''Iraq''),
    (''ir'', lit ''Iran''), (''is'', lit ''Iceland''), (''it'', lit ''Italy''), (''je'', lit ''Jersey''),
    (''jm'', lit ''Jamaica''), (''jo'', lit ''Jordan''), (''jp'', lit ''Japan''), (''ke'', lit ''Kenya''),
    (''kg'', lit ''Kyrgyzstan''), (''kh'', lit ''Cambodia''), (''ki'', lit ''Kiribati''),
    (''km'', lit ''Comoros''), (''kn'', lit ''Saint Kitts & Nevis''), (''kp'', lit ''North Korea''),
    (''kr'', lit ''South Korea''), (''kw'', lit ''Kuwait''), (''ky'', lit ''Cayman Islands''),
    (''kz'', lit ''Kazakhstan''), (''la'', lit ''Laos''), (''lb'', lit ''Lebanon''),
    (''lc'', lit ''Saint Lucia''), (''li'', lit ''Liechtenstein''), (''lk'', lit ''Sri Lanka''),
    (''lr'', lit ''Liberia''), (''ls'', lit ''Lesotho''), (''lt'', lit ''Lithuania''),
    (''lu'', lit ''Luxembourg''), (''lv'', lit ''Latvia''), (''ly'', lit ''Libya''),
    (''ma'', lit ''Morocco''), (''mc'', lit ''Monaco''), (''md'', lit ''Moldova''),
    (''me'', lit ''Montenegro''), (''mf'', lit ''Saint Martin''), (''mg'', lit ''Madagascar''),
    (''mh'', lit ''Marshall Islands''), (''mk'', lit ''North Macedonia''), (''ml'', lit ''Mali''),
    (''mm'', lit ''Myanmar''), (''mn'', lit ''Mongolia''), (''mo'', lit ''Macau''),
    (''mp'', lit ''Northern Mariana Islands''), (''mq'', lit ''Martinique''), (''mr'', lit ''Mauritania''),
    (''ms'', lit ''Montserrat''), (''mt'', lit ''Malta''), (''mu'', lit ''Mauritius''),
    (''mv'', lit ''Maldives''), (''mw'', lit ''Malawi''), (''mx'', lit ''Mexico''),
    (''my'', lit ''Malaysia''), (''mz'', lit ''Mozambique''), (''na'', lit ''Namibia''),
    (''nc'', lit ''New Caledonia''), (''ne'', lit ''Niger''), (''nf'', lit ''Norfolk Island''),
    (''ng'', lit ''Nigeria''), (''ni'', lit ''Nicaragua''), (''nl'', lit ''Netherlands''),
    (''no'', lit ''Norway''), (''np'', lit ''Nepal''), (''nr'', lit ''Nauru''), (''nu'', lit ''Niue''),
    (''nz'', lit ''New Zealand''), (''om'', lit ''Oman''), (''pa'', lit ''Panama''), (''pe'', lit ''Peru''),
    (''pf'', lit ''French Polynesia''), (''pg'', lit ''Papua New Guinea''), (''ph'', lit ''Philippines''),
    (''pk'', lit ''Pakistan''), (''pl'', lit ''Poland''), (''pm'', lit ''Saint Pierre & Miquelon''),
    (''pn'', lit ''Pitcairn Islands''), (''pr'', lit ''Puerto Rico''), (''ps'', lit ''Palestine''),
    (''pt'', lit ''Portugal''), (''pw'', lit ''Palau''), (''py'', lit ''Paraguay''), (''qa'', lit ''Qatar''),
    (''re'', lit ''R'' @ [233] @ lit ''union''), (''ro'', lit ''Romania''), (''rs'', lit ''Serbia''),
    (''ru'', lit ''Russia''), (''rw'', lit ''Rwanda''), (''sa'', lit ''Saudi Arabia''),
    (''sb'', lit ''Solomon Islands''), (''sc'', lit ''Seychelles''), (''sd'', lit ''Sudan''),
    (''se'', lit ''Sweden''), (''sg'', lit ''Singapore''), (''sh'', lit ''Saint Helena''),
    (''si'', lit ''Slovenia''), (''sj'', lit ''Svalbard & Jan Mayen''), (''sk'', lit ''Slovakia''),
    (''sl'', lit ''Sierra Leone''), (''sm'', lit ''San Marino''), (''sn'', lit ''Senegal''),
    (''so'', lit ''Somalia''), (''sr'', lit ''Suriname''), (''ss'', lit ''South Sudan''),
    (''st'', lit ''S'' @ [227] @ lit ''o Tom'' @ [233] @ lit '' & Pr'' @ [237] @ lit ''ncipe''),
    (''sv'', lit ''El Salvador''), (''sx'', lit ''Sint Maarten''), (''sy'', lit ''Syria''),
    (''sz'', lit ''Eswatini''), (''tc'', lit ''Turks & Caicos Islands''), (''td'', lit ''Chad''),
    (''tf'', lit ''French Southern Territories''), (''tg'', lit ''Togo''), (''th'', lit ''Thailand''),
    (''tj'', lit ''Tajikistan''), (''tk'', lit ''Tokelau''), (''tl'', lit ''Timor-Leste''),
    (''tm'', lit ''Turkmenistan''), (''tn'', lit ''Tunisia''), (''to'', lit ''Tonga''),
    (''tr'', lit ''T'' @ [252] @ lit ''rkiye''), (''tt'', lit ''Trinidad & Tobago''),
    (''tv'', lit ''Tuvalu''), (''tw'', lit ''Taiwan''), (''tz'', lit ''Tanzania''),
    (''ua'', lit ''Ukraine''), (''ug'', lit ''Uganda''), (''uk'', lit ''United Kingdom''),
    (''us'', lit ''United States''), (''uy'', lit ''Uruguay''), (''uz'', lit ''Uzbekistan''),
    (''va'', lit ''Vatican City''), (''vc'', lit ''Saint Vincent & the Grenadines''),
    (''ve'', lit ''Venezuela''), (''vg'', lit ''British Virgin Islands''),
    (''vi'', lit ''U.S. Virgin Islands''), (''vn'', lit ''Vietnam''), (''vu'', lit ''Vanuatu''),
    (''wf'', lit ''Wallis & Futuna''), (''ws'', lit ''Samoa''), (''xk'', lit ''Kosovo''),
    (''ye'', lit ''Yemen''), (''yt'', lit ''Mayotte''), (''za'', lit ''South Africa''),
    (''zm'', lit ''Zambia''), (''zw'', lit ''Zimbabwe'')
   ]"

definition is_proxy_location :: "str \<Rightarrow> bool" where
  "is_proxy_location code \<longleftrightarrow>
     list_ex (\<lambda>location. eq_ignore_ascii_case (lit (fst location)) code) BROWSER_USE_PROXY_LOCATIONS"

text \<open>The locations the server offers (\<open>default_proxy_locations\<close> of \<open>src/crates/backend/src/server.rs\<close>).\<close>

definition default_proxy_locations :: "proxy_location list" where
  "default_proxy_locations = map (\<lambda>(code, name). \<lparr>pl_code = lit code, pl_name = name,
     pl_country = Some (to_ascii_upper (lit code))\<rparr>) BROWSER_USE_PROXY_LOCATIONS"

lemma is_proxy_location_iff:
  "is_proxy_location code \<longleftrightarrow> (\<exists>l \<in> set default_proxy_locations. eq_ignore_ascii_case (pl_code l) code)"
  by (auto simp: is_proxy_location_def default_proxy_locations_def list_ex_iff case_prod_beta)

lemma proxy_codes_lower:
  "list_all (\<lambda>l. length (fst l) = 2 \<and> list_all is_ascii_lowercase (lit (fst l))) BROWSER_USE_PROXY_LOCATIONS"
  by (simp add: BROWSER_USE_PROXY_LOCATIONS_def lit_def is_ascii_lowercase_def)

end
