(* ===== verification/SB_Provider.thy ===== *)
theory SB_Provider
  imports SB_Actions SB_Proxy SB_Url SB_Decimal SB_Crypto
begin

text \<open>
  The boundary to the browser provider: its error type and the bounded decoding of responses
  (\<open>src/crates/backend/src/providers/error.rs\<close>), the adapter with its input checks and its
  paginated searches (\<open>src/crates/backend/src/providers/browser.rs\<close>). The HTTP client, the
  JSON decoders and the provider's own state are parameters.
\<close>

section \<open>Provider errors\<close>

text \<open>A duration in nanoseconds stands for \<open>retry_after\<close>.\<close>

datatype provider_error =
    PInvalidInput str
  | PUnsupported string string
  | PTransport string str
  | PHttp string nat str "nat option"
  | PInvalidResponse string str
  | POverloaded string nat

definition DEFAULT_MAX_JSON_RESPONSE_BYTES :: nat where
  "DEFAULT_MAX_JSON_RESPONSE_BYTES = 16 * 1024 * 1024"

text \<open>A response as the HTTP client hands it over: the chunks of its body, or the client's
  message where the stream breaks off.\<close>

record http_response =
  rs_status :: nat
  rs_retry_after :: "str option"
  rs_content_length :: "nat option"
  rs_chunks :: "(str + bytes) list"

definition response_too_large :: "string \<Rightarrow> nat \<Rightarrow> provider_error" where
  "response_too_large provider max_bytes =
     PInvalidResponse provider (lit ''provider response exceeded the '' @ dec_digits max_bytes @ lit ''-byte safety limit'')"

definition append_limited :: "bytes \<Rightarrow> bytes \<Rightarrow> nat \<Rightarrow> unit + bytes" where
  "append_limited destination chunk limit =
     (if length chunk > limit - length destination then Inl () else Inr (destination @ chunk))"

fun read_body :: "string \<Rightarrow> nat \<Rightarrow> bytes \<Rightarrow> (str + bytes) list \<Rightarrow> provider_error + bytes" where
  "read_body provider max_bytes body [] = Inr body"
| "read_body provider max_bytes body (Inl message # rest) = Inl (PTransport provider message)"
| "read_body provider max_bytes body (Inr chunk # rest) =
     (case append_limited body chunk max_bytes of
        Inl _ \<Rightarrow> Inl (response_too_large provider max_bytes)
      | Inr body' \<Rightarrow> read_body provider max_bytes body' rest)"

text \<open>\<open>str::parse::<u64>\<close>: an optional plus sign and at least one digit, within the range.\<close>

definition parse_u64 :: "str \<Rightarrow> nat option" where
  "parse_u64 s =
     (let digits = (if s \<noteq> [] \<and> hd s = 43 then tl s else s) in
      if digits = [] \<or> \<not> list_all is_ascii_digit digits \<or> dec_value digits > U64_MAX then None
      else Some (dec_value digits))"

definition parse_retry_after :: "(str \<Rightarrow> instant option) \<Rightarrow> instant \<Rightarrow> str \<Rightarrow> nat option" where
  "parse_retry_after rfc2822 now value =
     (case parse_u64 (trim value) of
        Some seconds \<Rightarrow> Some (seconds * nat NANOS_PER_SECOND)
      | None \<Rightarrow> map_option (\<lambda>deadline. nat (max (num_seconds (deadline - now)) 0) * nat NANOS_PER_SECOND)
                  (rfc2822 value))"

definition json_response_with_limit ::
  "(str \<Rightarrow> instant option) \<Rightarrow> instant \<Rightarrow> (bytes \<Rightarrow> 'a option) \<Rightarrow> string \<Rightarrow> http_response \<Rightarrow> nat \<Rightarrow> provider_error + 'a" where
  "json_response_with_limit rfc2822 now decode provider response max_bytes =
     (let retry_after = Option.bind (rs_retry_after response) (parse_retry_after rfc2822 now) in
      if (case rs_content_length response of Some n \<Rightarrow> n > max_bytes | None \<Rightarrow> False)
      then Inl (response_too_large provider max_bytes)
      else tryE (read_body provider max_bytes [] (rs_chunks response)) (\<lambda>body.
        if \<not> (200 \<le> rs_status response \<and> rs_status response < 300)
        then Inl (PHttp provider (rs_status response) (lit ''provider response body redacted'') retry_after)
        else ok_or (PInvalidResponse provider (lit ''provider response did not match the expected JSON contract''))
               (decode body)))"

section \<open>The provider's interface\<close>

record provider_profile =
  pp_id :: str
  pp_user_id :: "str option"
  pp_name :: "str option"
  pp_created_at :: "str option"
  pp_updated_at :: "str option"
  pp_last_used_at :: "str option"
  pp_cookie_domains :: "str list"

record start_browser =
  sb_profile_id :: "str option"
  sb_proxy_country_code :: "str option"
  sb_timeout_minutes :: nat
  sb_enable_recording :: bool
  sb_reconciliation_id :: str

record provider_browser =
  pb_id :: str
  pb_status :: str
  pb_timeout_at :: "str option"
  pb_started_at :: "str option"
  pb_live_url :: "str option"
  pb_cdp_url :: "str option"
  pb_finished_at :: "str option"
  pb_proxy_used_mb :: str
  pb_proxy_cost :: str
  pb_browser_cost :: str
  pb_agent_session_id :: "str option"
  pb_recording_url :: "str option"
  pb_recording_available :: "bool option"
  pb_metadata :: "str \<rightharpoonup> str"

record provider_limits =
  lm_concurrent :: nat
  lm_rate :: "nat option"

text \<open>The trait \<open>BrowserProvider\<close>.\<close>

record 'p browser_api =
  ba_account_limits :: "('p, provider_error, provider_limits) act"
  ba_create_profile :: "str \<Rightarrow> str \<Rightarrow> ('p, provider_error, provider_profile) act"  \<comment> \<open>name, user id\<close>
  ba_update_profile :: "str \<Rightarrow> str option \<Rightarrow> str option \<Rightarrow> ('p, provider_error, provider_profile) act"
  ba_start_browser :: "start_browser \<Rightarrow> ('p, provider_error, provider_browser) act"
  ba_get_browser :: "str \<Rightarrow> ('p, provider_error, provider_browser) act"
  ba_stop_browser :: "str \<Rightarrow> ('p, provider_error, provider_browser) act"
  ba_find_profile :: "str \<Rightarrow> ('p, provider_error, provider_profile option) act"
  ba_find_browser :: "str \<Rightarrow> ('p, provider_error, provider_browser option) act"

section \<open>The adapter\<close>

abbreviation PROVIDER :: string where "PROVIDER \<equiv> ''browser-use''"

definition SESSION_METADATA_KEY :: str where "SESSION_METADATA_KEY = lit ''sb_session_id''"

definition PROFILE_RECONCILIATION_PAGE_SIZE :: nat where "PROFILE_RECONCILIATION_PAGE_SIZE = 100"

definition MAX_PROFILE_RECONCILIATION_PAGES :: nat where "MAX_PROFILE_RECONCILIATION_PAGES = 100"

text \<open>The requests of the adapter, with what their path, query and body carry.\<close>

datatype http_request =
    GetAccount
  | PostProfile str str
  | PatchProfile str "str option" "str option"
  | PostBrowser "str option" "str option" nat bool str
  | GetBrowser str
  | PatchStop str
  | SearchProfiles str nat nat  \<comment> \<open>query, page size, page number\<close>
  | SearchBrowsers str nat nat  \<comment> \<open>metadata filter, page size, page number\<close>

record 'a provider_page =
  pg_items :: "'a list"
  pg_total_items :: nat
  pg_page_number :: nat
  pg_page_size :: nat

text \<open>The HTTP client, the JSON decoders and the calendar.\<close>

record 'p backend =
  bk_send :: "http_request \<Rightarrow> ('p, str, http_response) act"
  bk_limits :: "bytes \<Rightarrow> provider_limits option"
  bk_profile :: "bytes \<Rightarrow> provider_profile option"
  bk_browser :: "bytes \<Rightarrow> provider_browser option"
  bk_profile_page :: "bytes \<Rightarrow> provider_profile provider_page option"
  bk_browser_page :: "bytes \<Rightarrow> provider_browser provider_page option"
  bk_rfc2822 :: "str \<Rightarrow> instant option"
  bk_now :: "'p \<Rightarrow> instant"

definition call_with_limit ::
  "'p backend \<Rightarrow> http_request \<Rightarrow> (bytes \<Rightarrow> 'a option) \<Rightarrow> nat \<Rightarrow> ('p, provider_error, 'a) act" where
  "call_with_limit bk request decode max_bytes =
     bindA (map_errA (PTransport PROVIDER) (bk_send bk request)) (\<lambda>response p.
       (json_response_with_limit (bk_rfc2822 bk) (bk_now bk p) decode PROVIDER response max_bytes, p))"

definition call :: "'p backend \<Rightarrow> http_request \<Rightarrow> (bytes \<Rightarrow> 'a option) \<Rightarrow> ('p, provider_error, 'a) act" where
  "call bk request decode = call_with_limit bk request decode DEFAULT_MAX_JSON_RESPONSE_BYTES"

definition invalid_input :: "string \<Rightarrow> provider_error" where
  "invalid_input message = PInvalidInput (lit message)"

definition provider_id_ok :: "str \<Rightarrow> bool" where
  "provider_id_ok rid \<longleftrightarrow>
     rid \<noteq> [] \<and> utf8_len rid \<le> 255 \<and> list_all (\<lambda>c. is_ascii_alphanumeric c \<or> c = 45 \<or> c = 95) rid"

definition validate_path_id :: "str \<Rightarrow> string \<Rightarrow> provider_error + unit" where
  "validate_path_id rid kind =
     (if provider_id_ok rid then Inr () else Inl (invalid_input (''invalid '' @ kind @ '' provider id'')))"

definition validate_reconciliation_value :: "str \<Rightarrow> string \<Rightarrow> provider_error + unit" where
  "validate_reconciliation_value value kind =
     (if trim value = [] \<or> utf8_len value > 255 \<or> list_ex is_control value
      then Inl (invalid_input (''invalid '' @ kind @ '' for provider reconciliation'')) else Inr ())"

definition validate_browser_start :: "start_browser \<Rightarrow> provider_error + unit" where
  "validate_browser_start r =
     (if \<not> (1 \<le> sb_timeout_minutes r \<and> sb_timeout_minutes r \<le> 240)
      then Inl (invalid_input ''browser timeout must be between 1 and 240 minutes'')
      else if \<not> sb_enable_recording r
      then Inl (invalid_input ''managed browser sessions must enable recording'')
      else
      (case (sb_profile_id r, sb_proxy_country_code r) of
         (Some _, Some country) \<Rightarrow>
           if is_proxy_location country
           then validate_reconciliation_value (sb_reconciliation_id r) ''session id''
           else Inl (invalid_input ''proxy country must be a two-letter ISO code'')
       | (Some _, None) \<Rightarrow> Inl (invalid_input ''profile sessions must use their pinned proxy location'')
       | (None, Some _) \<Rightarrow> Inl (invalid_input ''incognito sessions cannot use a proxy'')
       | (None, None) \<Rightarrow> validate_reconciliation_value (sb_reconciliation_id r) ''session id''))"

definition name_out_of_range :: "str \<Rightarrow> bool" where
  "name_out_of_range name \<longleftrightarrow> trim name = [] \<or> length name > 100"

definition user_id_out_of_range :: "str \<Rightarrow> bool" where
  "user_id_out_of_range user_id \<longleftrightarrow> trim user_id = [] \<or> utf8_len user_id > 255"

definition bu_account_limits :: "'p backend \<Rightarrow> ('p, provider_error, provider_limits) act" where
  "bu_account_limits bk = call_with_limit bk GetAccount (bk_limits bk) (64 * 1024)"

definition bu_create_profile :: "'p backend \<Rightarrow> str \<Rightarrow> str \<Rightarrow> ('p, provider_error, provider_profile) act" where
  "bu_create_profile bk name user_id =
     (if name_out_of_range name then errA (invalid_input ''profile name must be 1..=100 characters'')
      else if user_id_out_of_range user_id then errA (invalid_input ''profile user id must be 1..=255 bytes'')
      else call bk (PostProfile name user_id) (bk_profile bk))"

definition bu_update_profile ::
  "'p backend \<Rightarrow> str \<Rightarrow> str option \<Rightarrow> str option \<Rightarrow> ('p, provider_error, provider_profile) act" where
  "bu_update_profile bk rid name user_id =
     bindA (liftA (validate_path_id rid ''profile'')) (\<lambda>_.
       if name = None \<and> user_id = None then errA (invalid_input ''profile update is empty'')
       else if (case name of Some n \<Rightarrow> name_out_of_range n | None \<Rightarrow> False)
       then errA (invalid_input ''profile name must be 1..=100 characters'')
       else if (case user_id of Some u \<Rightarrow> user_id_out_of_range u | None \<Rightarrow> False)
       then errA (invalid_input ''profile user id must be 1..=255 bytes'')
       else call bk (PatchProfile rid name user_id) (bk_profile bk))"

definition bu_start_browser :: "'p backend \<Rightarrow> start_browser \<Rightarrow> ('p, provider_error, provider_browser) act" where
  "bu_start_browser bk request =
     bindA (liftA (validate_browser_start request)) (\<lambda>_.
       call bk (PostBrowser (sb_profile_id request) (map_option to_ascii_lower (sb_proxy_country_code request))
                  (sb_timeout_minutes request) (sb_enable_recording request) (sb_reconciliation_id request))
         (bk_browser bk))"

definition bu_get_browser :: "'p backend \<Rightarrow> str \<Rightarrow> ('p, provider_error, provider_browser) act" where
  "bu_get_browser bk rid =
     bindA (liftA (validate_path_id rid ''browser'')) (\<lambda>_. call bk (GetBrowser rid) (bk_browser bk))"

definition bu_stop_browser :: "'p backend \<Rightarrow> str \<Rightarrow> ('p, provider_error, provider_browser) act" where
  "bu_stop_browser bk rid =
     bindA (liftA (validate_path_id rid ''browser'')) (\<lambda>_. call bk (PatchStop rid) (bk_browser bk))"

section \<open>Paginated searches\<close>

definition pagination :: "string \<Rightarrow> provider_error" where
  "pagination message = PInvalidResponse PROVIDER (lit message)"

definition duplicate_reconciliation :: "string \<Rightarrow> provider_error" where
  "duplicate_reconciliation kind =
     PInvalidResponse PROVIDER (lit (''multiple '' @ kind @ '' matched one Silicon Browser reconciliation key''))"

definition div_ceil :: "nat \<Rightarrow> nat \<Rightarrow> nat" where
  "div_ceil a b = (a + b - 1) div b"

text \<open>The checks on one page of the profile search, as one loop iteration makes them. What
  remains is the answer or the next iteration's matches and count.\<close>

datatype ('m, 'a) page_outcome = Done "'a option" | Continue 'm nat

definition profile_page ::
  "str \<Rightarrow> nat \<Rightarrow> provider_profile list \<Rightarrow> nat option \<Rightarrow> nat \<Rightarrow> provider_profile provider_page \<Rightarrow>
   provider_error + (provider_profile list, provider_profile) page_outcome" where
  "profile_page user_id page_number exact expected received page =
     tryE (guardE (pg_page_number page = page_number)
            (pagination ''profile search returned a repeated or unexpected page number'')) (\<lambda>_.
     tryE (guardE (pg_page_size page = PROFILE_RECONCILIATION_PAGE_SIZE)
            (pagination ''profile search did not honor the requested page size'')) (\<lambda>_.
     tryE (guardE (expected = None \<or> expected = Some (pg_total_items page))
            (pagination ''profile search changed totalItems between pages'')) (\<lambda>_.
     let total_pages = div_ceil (pg_total_items page) PROFILE_RECONCILIATION_PAGE_SIZE in
     tryE (guardE (total_pages \<le> MAX_PROFILE_RECONCILIATION_PAGES)
            (pagination ''profile search totalItems exceeded the reconciliation limit'')) (\<lambda>_.
     let page_offset = (page_number - 1) * PROFILE_RECONCILIATION_PAGE_SIZE in
     tryE (guardE (page_offset \<le> USIZE_MAX) (pagination ''profile search page offset overflowed'')) (\<lambda>_.
     let expected_items = min (pg_total_items page - page_offset) (pg_page_size page) in
     tryE (guardE (length (pg_items page) = expected_items)
            (pagination ''profile search item count contradicted its page metadata'')) (\<lambda>_.
     let received' = received + length (pg_items page) in
     tryE (guardE (received' \<le> USIZE_MAX) (pagination ''profile search item count overflowed'')) (\<lambda>_.
     tryE (guardE (\<not> (received' > pg_total_items page \<or> length (pg_items page) > pg_page_size page))
            (pagination ''profile search item counts contradicted its pagination metadata'')) (\<lambda>_.
     let exact' = exact @ filter (\<lambda>profile. pp_user_id profile = Some user_id) (pg_items page) in
     tryE (guardE (length exact' \<le> 1) (duplicate_reconciliation ''profiles'')) (\<lambda>_.
     if page_number \<ge> max total_pages 1
     then tryE (guardE (received' = pg_total_items page)
                 (pagination ''profile search returned fewer items than its totalItems metadata'')) (\<lambda>_.
          Inr (Done (if exact' = [] then None else Some (last exact'))))
     else tryE (guardE (page_number + 1 \<le> USIZE_MAX) (pagination ''profile search page number overflowed'')) (\<lambda>_.
          Inr (Continue exact' received')))))))))))"

function find_profile_loop ::
  "'p backend \<Rightarrow> str \<Rightarrow> nat \<Rightarrow> provider_profile list \<Rightarrow> nat option \<Rightarrow> nat \<Rightarrow>
   ('p, provider_error, provider_profile option) act" where
  "find_profile_loop bk user_id page_number exact expected received p =
     (if page_number > MAX_PROFILE_RECONCILIATION_PAGES
      then (Inl (pagination ''profile search exceeded its bounded page count''), p)
      else case call bk (SearchProfiles user_id PROFILE_RECONCILIATION_PAGE_SIZE page_number) (bk_profile_page bk) p of
        (Inl e, p') \<Rightarrow> (Inl e, p')
      | (Inr page, p') \<Rightarrow>
          (case profile_page user_id page_number exact expected received page of
             Inl e \<Rightarrow> (Inl e, p')
           | Inr (Done answer) \<Rightarrow> (Inr answer, p')
           | Inr (Continue exact' received') \<Rightarrow>
               find_profile_loop bk user_id (page_number + 1) exact' (Some (pg_total_items page)) received' p'))"
  by pat_completeness auto
termination
  by (relation "measure (\<lambda>(_, _, n, _). Suc MAX_PROFILE_RECONCILIATION_PAGES - n)") auto

declare find_profile_loop.simps [simp del]

definition bu_find_profile :: "'p backend \<Rightarrow> str \<Rightarrow> ('p, provider_error, provider_profile option) act" where
  "bu_find_profile bk user_id =
     bindA (liftA (validate_reconciliation_value user_id ''profile user id'')) (\<lambda>_.
       find_profile_loop bk user_id 1 [] None 0)"

text \<open>One iteration of the browser search.\<close>

fun exact_browsers :: "str \<Rightarrow> str option \<Rightarrow> provider_browser list \<Rightarrow> provider_error + str option" where
  "exact_browsers session_id exact [] = Inr exact"
| "exact_browsers session_id exact (browser # rest) =
     (if pb_metadata browser SESSION_METADATA_KEY \<noteq> Some session_id
      then Inl (pagination ''browser search returned metadata outside the exact filter'')
      else if exact \<noteq> None then Inl (duplicate_reconciliation ''browsers'')
      else exact_browsers session_id (Some (pb_id browser)) rest)"

definition browser_page ::
  "str \<Rightarrow> nat \<Rightarrow> str option \<Rightarrow> nat option \<Rightarrow> provider_browser provider_page \<Rightarrow>
   provider_error + (str option, str) page_outcome" where
  "browser_page session_id page_number exact expected page =
     tryE (guardE (pg_page_number page = page_number \<and> pg_page_size page = PROFILE_RECONCILIATION_PAGE_SIZE)
            (pagination ''browser search returned unexpected pagination'')) (\<lambda>_.
     tryE (guardE (expected = None \<or> expected = Some (pg_total_items page))
            (pagination ''browser search changed totalItems between pages'')) (\<lambda>_.
     let total_pages = max (div_ceil (pg_total_items page) PROFILE_RECONCILIATION_PAGE_SIZE) 1 in
     tryE (guardE (total_pages \<le> MAX_PROFILE_RECONCILIATION_PAGES)
            (pagination ''browser search totalItems exceeded the reconciliation limit'')) (\<lambda>_.
     let offset = (page_number - 1) * PROFILE_RECONCILIATION_PAGE_SIZE in
     tryE (guardE (length (pg_items page) = min (pg_total_items page - offset) (pg_page_size page))
            (pagination ''browser search item count contradicted pagination'')) (\<lambda>_.
     tryE (exact_browsers session_id exact (pg_items page)) (\<lambda>exact'.
       Inr (if page_number = total_pages then Done exact' else Continue exact' 0))))))"

function find_browser_loop ::
  "'p backend \<Rightarrow> str \<Rightarrow> nat \<Rightarrow> str option \<Rightarrow> nat option \<Rightarrow> ('p, provider_error, str option) act" where
  "find_browser_loop bk session_id page_number exact expected p =
     (if page_number > MAX_PROFILE_RECONCILIATION_PAGES
      then (Inl (pagination ''browser search exceeded its bounded page count''), p)
      else case call bk (SearchBrowsers (SESSION_METADATA_KEY @ lit ''='' @ session_id)
                           PROFILE_RECONCILIATION_PAGE_SIZE page_number) (bk_browser_page bk) p of
        (Inl e, p') \<Rightarrow> (Inl e, p')
      | (Inr page, p') \<Rightarrow>
          (case browser_page session_id page_number exact expected page of
             Inl e \<Rightarrow> (Inl e, p')
           | Inr (Done answer) \<Rightarrow> (Inr answer, p')
           | Inr (Continue exact' _) \<Rightarrow>
               find_browser_loop bk session_id (page_number + 1) exact' (Some (pg_total_items page)) p'))"
  by pat_completeness auto
termination
  by (relation "measure (\<lambda>(_, _, n, _). Suc MAX_PROFILE_RECONCILIATION_PAGES - n)") auto

declare find_browser_loop.simps [simp del]

definition browser_detail :: "'p backend \<Rightarrow> str \<Rightarrow> str \<Rightarrow> ('p, provider_error, provider_browser option) act" where
  "browser_detail bk session_id rid =
     bindA (bu_get_browser bk rid) (\<lambda>browser.
       if pb_id browser \<noteq> rid \<or> pb_metadata browser SESSION_METADATA_KEY \<noteq> Some session_id
       then errA (pagination ''browser detail did not match reconciliation identity'')
       else okA (Some browser))"

definition bu_find_browser :: "'p backend \<Rightarrow> str \<Rightarrow> ('p, provider_error, provider_browser option) act" where
  "bu_find_browser bk session_id =
     bindA (liftA (validate_reconciliation_value session_id ''session id'')) (\<lambda>_.
     bindA (find_browser_loop bk session_id 1 None None) (\<lambda>found.
       case found of None \<Rightarrow> okA None | Some rid \<Rightarrow> browser_detail bk session_id rid))"

definition browser_use_v3 :: "'p backend \<Rightarrow> 'p browser_api" where
  "browser_use_v3 bk = \<lparr>ba_account_limits = bu_account_limits bk, ba_create_profile = bu_create_profile bk,
     ba_update_profile = bu_update_profile bk, ba_start_browser = bu_start_browser bk,
     ba_get_browser = bu_get_browser bk, ba_stop_browser = bu_stop_browser bk,
     ba_find_profile = bu_find_profile bk, ba_find_browser = bu_find_browser bk\<rparr>"

section \<open>Bounded responses\<close>

lemma read_body_Inr:
  "read_body provider max_bytes body cs = Inr x \<Longrightarrow> length body \<le> max_bytes \<Longrightarrow>
   length x \<le> max_bytes \<and> x = body @ concat (map (\<lambda>c. case c of Inr b \<Rightarrow> b | Inl _ \<Rightarrow> []) cs)"
proof (induction provider max_bytes body cs rule: read_body.induct)
  case (3 provider max_bytes body chunk rest)
  then show ?case by (auto simp: append_limited_def not_less le_diff_conv2 split: if_splits)
qed auto

text \<open>A decoded response fits its limit, was read completely and successfully, and every
  failure is one of four errors whose text carries nothing of the response's body.\<close>
theorem responses_bounded_and_redacted:
  "case json_response_with_limit rfc2822 now decode provider response max_bytes of
     Inr x \<Rightarrow> \<exists>body. decode body = Some x \<and> length body \<le> max_bytes \<and>
       body = concat (map (\<lambda>c. case c of Inr b \<Rightarrow> b | Inl _ \<Rightarrow> []) (rs_chunks response)) \<and>
       200 \<le> rs_status response \<and> rs_status response < 300
   | Inl e \<Rightarrow> e = response_too_large provider max_bytes \<or>
       (\<exists>m. Inl m \<in> set (rs_chunks response) \<and> e = PTransport provider m) \<or>
       (\<exists>retry. e = PHttp provider (rs_status response) (lit ''provider response body redacted'') retry) \<or>
       e = PInvalidResponse provider (lit ''provider response did not match the expected JSON contract'')"
proof -
  have err: "read_body provider max_bytes body cs = Inl e \<Longrightarrow>
      e = response_too_large provider max_bytes \<or> (\<exists>m. Inl m \<in> set cs \<and> e = PTransport provider m)"
    for body cs e
    by (induction provider max_bytes body cs rule: read_body.induct) (auto split: sum.splits)
  show ?thesis
  proof (cases "read_body provider max_bytes [] (rs_chunks response)")
    case (Inl e)
    with err [OF Inl] show ?thesis by (auto simp: json_response_with_limit_def Let_def split: option.splits)
  next
    case (Inr body)
    with read_body_Inr [OF Inr] show ?thesis
      by (auto simp: json_response_with_limit_def Let_def ok_or_def split: option.splits)
  qed
qed

section \<open>Searches over pages\<close>

definition profile_matches :: "str \<Rightarrow> provider_profile list \<Rightarrow> provider_profile list" where
  "profile_matches user_id items = filter (\<lambda>profile. pp_user_id profile = Some user_id) items"

lemma profile_page_Done:
  assumes "profile_page user_id n exact expected received page = Inr (Done answer)"
  shows "pg_page_number page = n" "length (pg_items page) \<le> 100" "expected \<in> {None, Some (pg_total_items page)}"
    "received + length (pg_items page) = pg_total_items page" "pg_total_items page \<le> 10000"
    "exact @ profile_matches user_id (pg_items page) = (case answer of None \<Rightarrow> [] | Some x \<Rightarrow> [x])"
proof -
  let ?all = "exact @ profile_matches user_id (pg_items page)"
  from assms have one: "length ?all \<le> 1" and ans: "answer = (if ?all = [] then None else Some (last ?all))"
    by (auto simp: profile_page_def profile_matches_def Let_def split: if_splits)
  show "?all = (case answer of None \<Rightarrow> [] | Some x \<Rightarrow> [x])"
    using one by (cases ?all rule: rev_cases) (auto simp: ans)
  from assms have "div_ceil (pg_total_items page) 100 \<le> 100"
    by (auto simp: profile_page_def Let_def PROFILE_RECONCILIATION_PAGE_SIZE_def MAX_PROFILE_RECONCILIATION_PAGES_def)
  then show "pg_total_items page \<le> 10000" by (simp add: div_ceil_def)
qed (use assms in \<open>auto simp: profile_page_def Let_def PROFILE_RECONCILIATION_PAGE_SIZE_def split: if_splits\<close>)

lemma profile_page_Continue:
  assumes "profile_page user_id n exact expected received page = Inr (Continue exact' received')"
  shows "pg_page_number page = n" "length (pg_items page) \<le> 100" "expected \<in> {None, Some (pg_total_items page)}"
    "received' = received + length (pg_items page)" "exact' = exact @ profile_matches user_id (pg_items page)"
  using assms
  by (auto simp: profile_page_def Let_def PROFILE_RECONCILIATION_PAGE_SIZE_def profile_matches_def split: if_splits)

lemma find_profile_loop_sound:
  "find_profile_loop bk user_id n exact expected received p = (Inr answer, p') \<Longrightarrow>
   \<exists>(pages :: provider_profile provider_page list) total. (\<forall>i < length pages. pg_page_number (pages ! i) = n + i \<and> pg_total_items (pages ! i) = total) \<and>
     (expected = None \<or> expected = Some total) \<and> total \<le> 10000 \<and>
     received + length (concat (map pg_items pages)) = total \<and>
     exact @ profile_matches user_id (concat (map pg_items pages)) = (case answer of None \<Rightarrow> [] | Some x \<Rightarrow> [x])"
proof (induction bk user_id n exact expected received p rule: find_profile_loop.induct)
  case (1 bk user_id n exact expected received p)
  let ?call = "call bk (SearchProfiles user_id PROFILE_RECONCILIATION_PAGE_SIZE n) (bk_profile_page bk) p"
  from "1.prems" have n: "\<not> n > MAX_PROFILE_RECONCILIATION_PAGES"
    by (auto simp: find_profile_loop.simps [of bk user_id n])
  from "1.prems" n obtain page q where c: "?call = (Inr page, q)"
    by (auto simp: find_profile_loop.simps [of bk user_id n] split: prod.splits sum.splits)
  show ?case
  proof (cases "profile_page user_id n exact expected received page")
    case (Inl e)
    with "1.prems" n c show ?thesis by (simp add: find_profile_loop.simps [of bk user_id n])
  next
    case (Inr out)
    show ?thesis
    proof (cases out)
      case (Done a)
      with "1.prems" n c Inr have "a = answer" by (simp add: find_profile_loop.simps [of bk user_id n])
      note pd = profile_page_Done [OF Inr [unfolded Done], unfolded this]
      show ?thesis
        by (rule exI [of _ "[page]"], rule exI [of _ "pg_total_items page"]) (use pd in auto)
    next
      case (Continue exact' received')
      with "1.prems" n c Inr have "find_profile_loop bk user_id (n + 1) exact' (Some (pg_total_items page)) received' q = (Inr answer, p')"
        by (simp add: find_profile_loop.simps [of bk user_id n])
      from "1.IH" [OF n c [symmetric] refl Inr Continue this] obtain pages :: "provider_profile provider_page list" where
        rest: "\<forall>i < length pages. pg_page_number (pages ! i) = n + 1 + i \<and> pg_total_items (pages ! i) = pg_total_items page"
          "pg_total_items page \<le> 10000" "received' + length (concat (map pg_items pages)) = pg_total_items page"
          "exact' @ profile_matches user_id (concat (map pg_items pages)) = (case answer of None \<Rightarrow> [] | Some x \<Rightarrow> [x])"
        by auto
      note pc = profile_page_Continue [OF Inr [unfolded Continue]]
      have "pg_page_number ((page # pages) ! i) = n + i \<and> pg_total_items ((page # pages) ! i) = pg_total_items page"
        if "i < length (page # pages)" for i
        using that rest(1) pc(1) by (cases i) auto
      note all = this
      show ?thesis
        by (rule exI [of _ "page # pages"], rule exI [of _ "pg_total_items page"]) (use all rest pc in \<open>auto simp: profile_matches_def\<close>)
    qed
  qed
qed


text \<open>Whatever the provider's pages say, an answered profile search has read consistent,
  consecutively numbered pages from the first on that together hold all of its at most ten
  thousand results, and the answer is the only result with the reconciled user id.\<close>
theorem profile_search_sound:
  assumes "bu_find_profile bk user_id p = (Inr answer, p')"
  shows "\<exists>(pages :: provider_profile provider_page list) total. (\<forall>i < length pages. pg_page_number (pages ! i) = Suc i \<and> pg_total_items (pages ! i) = total) \<and>
     total \<le> 10000 \<and> length (concat (map pg_items pages)) = total \<and>
     profile_matches user_id (concat (map pg_items pages)) = (case answer of None \<Rightarrow> [] | Some x \<Rightarrow> [x])"
proof -
  from assms have "find_profile_loop bk user_id 1 [] None 0 p = (Inr answer, p')"
    by (auto simp: bu_find_profile_def bindA_def split: sum.splits)
  from find_profile_loop_sound [OF this] show ?thesis by simp
qed

text \<open>A provider that serves a fixed list of profiles page by page.\<close>

definition honest_page :: "provider_profile list \<Rightarrow> nat \<Rightarrow> provider_profile provider_page" where
  "honest_page items n = \<lparr>pg_items = take 100 (drop ((n - 1) * 100) items), pg_total_items = length items,
     pg_page_number = n, pg_page_size = 100\<rparr>"

definition search_answer :: "provider_profile list \<Rightarrow> provider_error + provider_profile option" where
  "search_answer found =
     (case found of [] \<Rightarrow> Inr None | [x] \<Rightarrow> Inr (Some x) | _ \<Rightarrow> Inl (duplicate_reconciliation ''profiles''))"

lemma matches_append: "profile_matches u (xs @ ys) = profile_matches u xs @ profile_matches u ys"
  by (simp add: profile_matches_def)

lemma search_answer_many: "length found > 1 \<Longrightarrow> search_answer found = Inl (duplicate_reconciliation ''profiles'')"
  by (auto simp: search_answer_def split: list.splits)

lemma honest_page_outcome:
  assumes "length items \<le> 10000" "1 \<le> n" "n \<le> max (div_ceil (length items) 100) 1"
    and "exact = profile_matches user_id (take ((n - 1) * 100) items)" "received = (n - 1) * 100"
    and "expected = None \<or> expected = Some (length items)"
  shows "profile_page user_id n exact expected received (honest_page items n) =
     (if length (profile_matches user_id (take (n * 100) items)) > 1 then Inl (duplicate_reconciliation ''profiles'')
      else if n < max (div_ceil (length items) 100) 1
      then Inr (Continue (profile_matches user_id (take (n * 100) items)) (n * 100))
      else Inr (Done (case profile_matches user_id items of [] \<Rightarrow> None | x # _ \<Rightarrow> Some x)))"
proof -
  have split: "take (n * 100) items = take ((n - 1) * 100) items @ take 100 (drop ((n - 1) * 100) items)"
    using assms(2) by (cases n) (simp_all add: take_add [symmetric] add.commute)
  have exact': "exact @ profile_matches user_id (take 100 (drop ((n - 1) * 100) items)) =
      profile_matches user_id (take (n * 100) items)"
    by (simp add: assms(4) split matches_append)
  have filtered: "exact @ filter (\<lambda>profile. pp_user_id profile = Some user_id) (take 100 (drop ((n - Suc 0) * 100) items)) =
      profile_matches user_id (take (n * 100) items)"
    using exact' by (simp add: profile_matches_def)
  have off: "(n - 1) * 100 \<le> length items" using assms(2,3) by (auto simp: div_ceil_def)
  have len: "length (take 100 (drop ((n - 1) * 100) items)) = min (length items - (n - 1) * 100) 100" by simp
  have pages: "div_ceil (length items) 100 \<le> 100" using assms(1) by (simp add: div_ceil_def)
  have small: "length items \<le> USIZE_MAX" "n + 1 \<le> USIZE_MAX" "(n - 1) * 100 \<le> USIZE_MAX"
    using assms(1,3) pages by (auto simp: USIZE_MAX_def)
  have sizes: "min (length items - (n - 1) * 100) 100 \<le> 100"
    "(n - 1) * 100 + min (length items - (n - 1) * 100) 100 \<le> length items" using off by auto
  show ?thesis
  proof (cases "n < max (div_ceil (length items) 100) 1")
    case True
    with assms(2) have "n * 100 < length items" by (auto simp: div_ceil_def)
    then have full: "(n - 1) * 100 + min (length items - (n - 1) * 100) 100 = n * 100" using assms(2) by (cases n) auto
    from True assms(2) have "n < div_ceil (length items) 100" by auto
    then show ?thesis
      using off pages small sizes full assms(1,5,6)
      by (simp add: profile_page_def honest_page_def Let_def PROFILE_RECONCILIATION_PAGE_SIZE_def
          MAX_PROFILE_RECONCILIATION_PAGES_def filtered)
  next
    case False
    have last: "n * 100 \<ge> length items"
      using False by (auto simp: div_ceil_def)
    then have all: "take (n * 100) items = items"
      "(n - 1) * 100 + min (length items - (n - 1) * 100) 100 = length items" using off assms(2) by (cases n; auto)+
    have answer: "(case profile_matches user_id items of [] \<Rightarrow> None | x # _ \<Rightarrow> Some x) =
        (if profile_matches user_id items = [] then None else Some (List.last (profile_matches user_id items)))"
      if "length (profile_matches user_id items) \<le> 1"
      using that by (cases "profile_matches user_id items") auto
    have tail: "take 100 (drop ((n - Suc 0) * 100) items) = drop ((n - Suc 0) * 100) items"
      using last assms(2) by (cases n) auto
    have here: "div_ceil (length items) 100 \<le> n" "Suc 0 \<le> n" "\<not> 100 < length items - (n - Suc 0) * 100"
      using False last assms(2) by auto
    show ?thesis
      using False here off pages small all answer assms(1,5,6)
      by (simp add: profile_page_def honest_page_def Let_def PROFILE_RECONCILIATION_PAGE_SIZE_def
          MAX_PROFILE_RECONCILIATION_PAGES_def tail filtered [unfolded tail all(1)])
  qed
qed


lemma find_profile_loop_honest:
  assumes "length items \<le> 10000"
    and "\<And>n q. call bk (SearchProfiles user_id 100 n) (bk_profile_page bk) q = (Inr (honest_page items n), q)"
  shows "1 \<le> n \<Longrightarrow> n \<le> max (div_ceil (length items) 100) 1 \<Longrightarrow>
     exact = profile_matches user_id (take ((n - 1) * 100) items) \<Longrightarrow> received = (n - 1) * 100 \<Longrightarrow>
     expected = None \<or> expected = Some (length items) \<Longrightarrow> length exact \<le> 1 \<Longrightarrow>
     find_profile_loop bk user_id n exact expected received p = (search_answer (profile_matches user_id items), p)"
proof (induction "max (div_ceil (length items) 100) 1 - n" arbitrary: n exact expected received rule: less_induct)
  case less
  let ?last = "max (div_ceil (length items) 100) 1"
  let ?m = "profile_matches user_id (take (n * 100) items)"
  have n: "\<not> n > MAX_PROFILE_RECONCILIATION_PAGES"
    using less.prems(2) assms(1) by (auto simp: MAX_PROFILE_RECONCILIATION_PAGES_def div_ceil_def)
  note out = honest_page_outcome [OF assms(1) less.prems(1-5)]
  have step: "find_profile_loop bk user_id n exact expected received p =
      (case profile_page user_id n exact expected received (honest_page items n) of
         Inl e \<Rightarrow> (Inl e, p)
       | Inr (Done answer) \<Rightarrow> (Inr answer, p)
       | Inr (Continue exact' received') \<Rightarrow>
           find_profile_loop bk user_id (n + 1) exact' (Some (pg_total_items (honest_page items n))) received' p)"
    using n by (simp add: find_profile_loop.simps [of bk user_id n] assms(2) PROFILE_RECONCILIATION_PAGE_SIZE_def)
  have total: "pg_total_items (honest_page items n) = length items" by (simp add: honest_page_def)
  have more: "profile_matches user_id items = ?m @ profile_matches user_id (drop (n * 100) items)"
    using matches_append [of user_id "take (n * 100) items" "drop (n * 100) items"] by simp
  show ?case
  proof (cases "length ?m > 1")
    case True
    then have "search_answer (profile_matches user_id items) = Inl (duplicate_reconciliation ''profiles'')"
      by (intro search_answer_many) (simp add: more)
    with True show ?thesis by (simp add: step out)
  next
    case few: False
    show ?thesis
    proof (cases "n < ?last")
      case True
      have "find_profile_loop bk user_id (n + 1) ?m (Some (length items)) (n * 100) p =
          (search_answer (profile_matches user_id items), p)"
        using True few less.prems by (intro less.hyps) auto
      with True few show ?thesis by (simp add: step out total)
    next
      case False
      then have "take (n * 100) items = items" by (auto simp: div_ceil_def)
      with False few show ?thesis
        by (auto simp: step out search_answer_def split: list.splits)
    qed
  qed
qed

text \<open>Against a provider that serves a fixed list of at most ten thousand profiles page by page,
  the search is the plain filter over that list: nothing for no match, the match when there is
  exactly one, and the duplicate error otherwise.\<close>
theorem profile_search_exact:
  assumes "length items \<le> 10000" "validate_reconciliation_value user_id ''profile user id'' = Inr ()"
    and "\<And>n q. call bk (SearchProfiles user_id 100 n) (bk_profile_page bk) q = (Inr (honest_page items n), q)"
  shows "bu_find_profile bk user_id p =
     (search_answer (filter (\<lambda>profile. pp_user_id profile = Some user_id) items), p)"
proof -
  have "find_profile_loop bk user_id 1 [] None 0 p = (search_answer (profile_matches user_id items), p)"
    by (rule find_profile_loop_honest [OF assms(1) assms(3)]) (auto simp: profile_matches_def)
  then show ?thesis by (simp add: bu_find_profile_def assms(2) bindA_def profile_matches_def)
qed

text \<open>A backend that serves a list of profiles, used to instantiate the properties.\<close>

definition page_backend :: "provider_profile list \<Rightarrow> unit backend" where
  "page_backend items = \<lparr>
     bk_send = (\<lambda>r p. case r of
        SearchProfiles q per n \<Rightarrow> (Inr \<lparr>rs_status = 200, rs_retry_after = None, rs_content_length = None,
          rs_chunks = [Inr [n]]\<rparr>, p)
      | _ \<Rightarrow> (Inl [], p)),
     bk_limits = (\<lambda>_. None), bk_profile = (\<lambda>_. None), bk_browser = (\<lambda>_. None),
     bk_profile_page = (\<lambda>b. Some (honest_page items (hd b))), bk_browser_page = (\<lambda>_. None),
     bk_rfc2822 = (\<lambda>_. None), bk_now = (\<lambda>_. 0)\<rparr>"

lemma page_backend_honest:
  "call (page_backend items) (SearchProfiles u 100 n) (bk_profile_page (page_backend items)) q =
     (Inr (honest_page items n), q)"
  by (simp add: call_def call_with_limit_def bindA_def map_errA_def page_backend_def json_response_with_limit_def
      append_limited_def DEFAULT_MAX_JSON_RESPONSE_BYTES_def)

definition sample_provider_profile :: provider_profile where
  "sample_provider_profile = \<lparr>pp_id = [112], pp_user_id = Some [117], pp_name = None, pp_created_at = None,
     pp_updated_at = None, pp_last_used_at = None, pp_cookie_domains = []\<rparr>"

lemma sample_user_id: "validate_reconciliation_value [117] ''profile user id'' = Inr ()"
  by (simp add: validate_reconciliation_value_def str_simps)

theorem profile_search_exact_witness:
  "bu_find_profile (page_backend [sample_provider_profile]) [117] () = (Inr (Some sample_provider_profile), ())"
  using profile_search_exact [of "[sample_provider_profile]" "[117]" "page_backend [sample_provider_profile]" "()"]
    sample_user_id page_backend_honest [of "[sample_provider_profile]" "[117]"]
  by (simp add: search_answer_def sample_provider_profile_def)

theorem profile_search_sound_witness:
  "\<exists>(pages :: provider_profile provider_page list). length (concat (map pg_items pages)) \<le> 10000 \<and>
     profile_matches [117] (concat (map pg_items pages)) = [sample_provider_profile]"
proof -
  let ?bk = "page_backend [sample_provider_profile]"
  have "find_profile_loop ?bk [117] 1 [] None 0 () =
      (search_answer (profile_matches [117] [sample_provider_profile]), ())"
    by (rule find_profile_loop_honest [OF _ page_backend_honest]) (auto simp: profile_matches_def)
  then have "bu_find_profile ?bk [117] () = (Inr (Some sample_provider_profile), ())"
    using sample_user_id
    by (simp add: bu_find_profile_def bindA_def search_answer_def profile_matches_def sample_provider_profile_def)
  from profile_search_sound [OF this] show ?thesis by auto
qed

lemma exact_browsers_Inr:
  "exact_browsers sid exact items = Inr e \<Longrightarrow>
   (items = [] \<and> e = exact) \<or>
   (\<exists>x. items = [x] \<and> exact = None \<and> e = Some (pb_id x) \<and> pb_metadata x SESSION_METADATA_KEY = Some sid)"
proof (induction sid exact items rule: exact_browsers.induct)
  case (2 sid exact browser rest)
  then show ?case by (cases rest) (auto split: if_splits)
qed simp

text \<open>The first page decides a browser search. An answer means that the provider listed at most
  one browser for the exact session label, with consistent totals, and a browser is returned only
  when it is that one and its own detail record still carries the label.\<close>
theorem browser_search_decided_by_first_page:
  assumes "bu_find_browser bk session_id p = (Inr answer, p')"
  shows "\<exists>page q. call bk (SearchBrowsers (SESSION_METADATA_KEY @ lit ''='' @ session_id) 100 1) (bk_browser_page bk) p =
       (Inr page, q) \<and> pg_total_items page = length (pg_items page) \<and>
     (case answer of
        None \<Rightarrow> pg_items page = []
      | Some b \<Rightarrow> map pb_id (pg_items page) = [pb_id b] \<and> provider_id_ok (pb_id b) \<and>
          pb_metadata b SESSION_METADATA_KEY = Some session_id)"
proof -
  let ?call = "call bk (SearchBrowsers (SESSION_METADATA_KEY @ lit ''='' @ session_id) 100 1) (bk_browser_page bk) p"
  from assms obtain found q where loop: "find_browser_loop bk session_id 1 None None p = (Inr found, q)"
    and detail: "(case found of None \<Rightarrow> okA None | Some rid \<Rightarrow> browser_detail bk session_id rid) q = (Inr answer, p')"
    by (auto simp: bu_find_browser_def bindA_def split: sum.splits prod.splits)
  from loop obtain page q1 where c: "?call = (Inr page, q1)"
    by (auto simp: find_browser_loop.simps [of bk session_id "Suc 0"] PROFILE_RECONCILIATION_PAGE_SIZE_def
        MAX_PROFILE_RECONCILIATION_PAGES_def split: prod.splits sum.splits)
  with loop obtain out where out: "browser_page session_id 1 None None page = Inr out"
    by (cases "browser_page session_id 1 None None page")
       (auto simp: find_browser_loop.simps [of bk session_id "Suc 0"] PROFILE_RECONCILIATION_PAGE_SIZE_def
        MAX_PROFILE_RECONCILIATION_PAGES_def)
  then obtain exact where e: "exact_browsers session_id None (pg_items page) = Inr exact"
    and len: "length (pg_items page) = min (pg_total_items page) 100"
    and o: "out = (if 1 = max (div_ceil (pg_total_items page) 100) 1 then Done exact else Continue exact 0)"
    by (auto simp: browser_page_def Let_def PROFILE_RECONCILIATION_PAGE_SIZE_def)
  from exact_browsers_Inr [OF e] have few: "length (pg_items page) \<le> 1" by auto
  with len have total: "pg_total_items page = length (pg_items page)" by auto
  with few have "out = Done exact" by (auto simp: o div_ceil_def)
  with loop c out have found: "found = exact"
    by (simp add: find_browser_loop.simps [of bk session_id "Suc 0"] PROFILE_RECONCILIATION_PAGE_SIZE_def
        MAX_PROFILE_RECONCILIATION_PAGES_def)
  show ?thesis
  proof (cases exact)
    case None
    with exact_browsers_Inr [OF e] detail found c total show ?thesis by auto
  next
    case (Some rid)
    with exact_browsers_Inr [OF e] obtain x where x: "pg_items page = [x]" "rid = pb_id x" by auto
    from detail found Some obtain b where "answer = Some b" "pb_id b = rid" "provider_id_ok rid"
      "pb_metadata b SESSION_METADATA_KEY = Some session_id"
      by (auto simp: browser_detail_def bindA_def bu_get_browser_def validate_path_id_def split: sum.splits prod.splits if_splits)
    with c total x show ?thesis by auto
  qed
qed

definition sample_browser :: provider_browser where
  "sample_browser = \<lparr>pb_id = [98], pb_status = lit ''active'', pb_timeout_at = None, pb_started_at = None,
     pb_live_url = None, pb_cdp_url = None, pb_finished_at = None, pb_proxy_used_mb = [48], pb_proxy_cost = [48],
     pb_browser_cost = [48], pb_agent_session_id = None, pb_recording_url = None, pb_recording_available = None,
     pb_metadata = [SESSION_METADATA_KEY \<mapsto> [115]]\<rparr>"

text \<open>A backend with one browser.\<close>

definition browser_backend :: "unit backend" where
  "browser_backend = (page_backend [])\<lparr>
     bk_send := (\<lambda>r p. (Inr \<lparr>rs_status = 200, rs_retry_after = None, rs_content_length = None, rs_chunks = []\<rparr>, p)),
     bk_browser := (\<lambda>_. Some sample_browser),
     bk_browser_page := (\<lambda>_. Some \<lparr>pg_items = [sample_browser], pg_total_items = 1, pg_page_number = 1,
       pg_page_size = 100\<rparr>)\<rparr>"

theorem browser_search_decided_by_first_page_witness:
  "bu_find_browser browser_backend [115] () = (Inr (Some sample_browser), ()) \<and> provider_id_ok (pb_id sample_browser)"
proof -
  have v: "validate_reconciliation_value [115] ''session id'' = Inr ()" "validate_path_id [98] ''browser'' = Inr ()"
    by (simp_all add: validate_reconciliation_value_def validate_path_id_def provider_id_ok_def str_simps)
  have call: "call browser_backend r decode () =
      (ok_or (PInvalidResponse PROVIDER (lit ''provider response did not match the expected JSON contract'')) (decode []), ())"
    for r and decode :: "bytes \<Rightarrow> 'a option"
    by (simp add: call_def call_with_limit_def bindA_def map_errA_def browser_backend_def json_response_with_limit_def
        Let_def)
  have fields: "bk_browser browser_backend [] = Some sample_browser"
    "bk_browser_page browser_backend [] = Some \<lparr>pg_items = [sample_browser], pg_total_items = 1, pg_page_number = 1,
       pg_page_size = 100\<rparr>"
    by (simp_all add: browser_backend_def)
  have one: "pb_id sample_browser = [98]" "pb_metadata sample_browser SESSION_METADATA_KEY = Some [115]"
    by (simp_all add: sample_browser_def)
  have "find_browser_loop browser_backend [115] 1 None None () = (Inr (Some [98]), ())"
    by (subst find_browser_loop.simps)
       (simp add: call fields one browser_page_def Let_def PROFILE_RECONCILIATION_PAGE_SIZE_def
          MAX_PROFILE_RECONCILIATION_PAGES_def div_ceil_def)
  then have found: "bu_find_browser browser_backend [115] () = (Inr (Some sample_browser), ())"
    by (simp add: bu_find_browser_def v bindA_def browser_detail_def bu_get_browser_def call fields one)
  with browser_search_decided_by_first_page [OF found] show ?thesis by auto
qed

end
