(* ===== verification/SB_Store.thy ===== *)
theory SB_Store
  imports SB_Model SB_Crypto SB_Decimal "HOL-Library.Product_Lexorder" "HOL-Library.List_Lexorder"
begin

text \<open>
  The SQLite store (\<open>src/crates/backend/src/store.rs\<close> and its migrations): the tables as
  lists of rows, the constraints of the schema, statements that report the rows they affect,
  transactions, and the profile operations.

  A method is a function from the database to a result and a database. Inside a transaction an
  error restores the database (\<open>atomically\<close>); outside one, the statements already executed
  stay. A stored timestamp is the number of milliseconds that \<open>timestamp\<close> keeps of an instant;
  for years 0 to 9999 the order of its text is the order of that number. JSON columns hold the
  value they encode. A generated UUID is the argument \<open>fresh\<close>.
\<close>

section \<open>Errors and the statement monad\<close>

datatype db_error = UniqueViolation | CheckViolation

datatype store_error =
    SDatabase db_error
  | SInvalid string
  | SInvalidField validation_error
  | SInvalidCost decimal_error
  | SNotFound string str
  | SForbidden string str
  | SProfileRetired str
  | SProfileBusy str str str instant  \<comment> \<open>profile, session, actor, expiry\<close>
  | SSessionState str string
  | SCorrupt string string
  | SCrypto string

type_synonym ('s, 'a) st = "'s \<Rightarrow> (store_error + 'a) \<times> 's"

definition okS :: "'a \<Rightarrow> ('s, 'a) st" where "okS x s = (Inr x, s)"

definition errS :: "store_error \<Rightarrow> ('s, 'a) st" where "errS e s = (Inl e, s)"

definition bindS :: "('s, 'a) st \<Rightarrow> ('a \<Rightarrow> ('s, 'b) st) \<Rightarrow> ('s, 'b) st" where
  "bindS m f s = (case m s of (Inl e, s') \<Rightarrow> (Inl e, s') | (Inr x, s') \<Rightarrow> f x s')"

definition liftS :: "store_error + 'a \<Rightarrow> ('s, 'a) st" where "liftS r s = (r, s)"

definition readS :: "('s \<Rightarrow> store_error + 'a) \<Rightarrow> ('s, 'a) st" where "readS f s = (f s, s)"

definition modifyS :: "('s \<Rightarrow> 's) \<Rightarrow> ('s, unit) st" where "modifyS f s = (Inr (), f s)"

text \<open>A transaction: \<open>BEGIN\<close>, the body, \<open>COMMIT\<close>; an error drops it, which rolls back.\<close>

definition atomically :: "('s, 'a) st \<Rightarrow> ('s, 'a) st" where
  "atomically m s = (case m s of (Inl e, _) \<Rightarrow> (Inl e, s) | (Inr x, s') \<Rightarrow> (Inr x, s'))"

definition result_of :: "('s, 'a) st \<Rightarrow> 's \<Rightarrow> store_error + 'a" where "result_of m s = fst (m s)"

definition state_after :: "('s, 'a) st \<Rightarrow> 's \<Rightarrow> 's" where "state_after m s = snd (m s)"

lemma stS_simps [simp]:
  "okS x s = (Inr x, s)" "errS e s = (Inl e, s)" "liftS r s = (r, s)" "readS f s = (f s, s)"
  "modifyS g s = (Inr (), g s)"
  by (simp_all add: okS_def errS_def liftS_def readS_def modifyS_def)

lemma bindS_Inr: "m s = (Inr x, s') \<Longrightarrow> bindS m f s = f x s'"
  and bindS_Inl: "m s = (Inl e, s') \<Longrightarrow> bindS m f s = (Inl e, s')"
  by (simp_all add: bindS_def)

lemma bindS_okS [simp]: "bindS (okS x) f s = f x s"
  and bindS_errS [simp]: "bindS (errS e) f s = (Inl e, s)"
  by (simp_all add: bindS_def)

lemma bindS_liftS [simp]:
  "bindS (liftS r) f s = (case r of Inl e \<Rightarrow> (Inl e, s) | Inr x \<Rightarrow> f x s)"
  by (cases r) (simp_all add: bindS_def)

lemma bindS_readS [simp]:
  "bindS (readS g) f s = (case g s of Inl e \<Rightarrow> (Inl e, s) | Inr x \<Rightarrow> f x s)"
  by (cases "g s") (simp_all add: bindS_def)

lemma bindS_modifyS [simp]: "bindS (modifyS g) f s = f () (g s)"
  by (simp add: bindS_def)

lemma bindS_cases:
  obtains e s' where "m s = (Inl e, s')" "bindS m f s = (Inl e, s')"
  | x s' where "m s = (Inr x, s')" "bindS m f s = f x s'"
proof (cases "m s")
  case (Pair r s')
  then show ?thesis by (cases r) (auto intro: that simp: bindS_def)
qed

lemma atomically_cases:
  obtains e s' where "m s = (Inl e, s')" "atomically m s = (Inl e, s)"
  | x s' where "m s = (Inr x, s')" "atomically m s = (Inr x, s')"
proof (cases "m s")
  case (Pair r s')
  then show ?thesis by (cases r) (auto intro: that simp: atomically_def)
qed

text \<open>Preservation of a predicate of the state, through the statement monad.\<close>

definition keeps :: "('s \<Rightarrow> bool) \<Rightarrow> ('s, 'a) st \<Rightarrow> bool" where
  "keeps P m \<longleftrightarrow> (\<forall>s. P s \<longrightarrow> P (snd (m s)))"

lemma keepsD: "keeps P m \<Longrightarrow> P s \<Longrightarrow> P (snd (m s))"
  by (simp add: keeps_def)

lemma keeps_basic [intro, simp]:
  "keeps P (okS x)" "keeps P (errS e)" "keeps P (liftS r)" "keeps P (readS f)"
  by (simp_all add: keeps_def)

lemma keeps_modifyS: "(\<And>s. P s \<Longrightarrow> P (g s)) \<Longrightarrow> keeps P (modifyS g)"
  by (simp add: keeps_def)

lemma keeps_bindS [intro]: "keeps P m \<Longrightarrow> (\<And>x. keeps P (f x)) \<Longrightarrow> keeps P (bindS m f)"
  unfolding keeps_def
proof (intro allI impI)
  fix s assume m: "\<forall>s. P s \<longrightarrow> P (snd (m s))" and f: "\<And>x. \<forall>s. P s \<longrightarrow> P (snd (f x s))" and "P s"
  show "P (snd (bindS m f s))"
    by (rule bindS_cases [of m s f]) (use m f \<open>P s\<close> in \<open>force\<close>)+
qed

lemma keeps_atomically [intro]: "keeps P m \<Longrightarrow> keeps P (atomically m)"
  unfolding keeps_def
proof (intro allI impI)
  fix s assume m: "\<forall>s. P s \<longrightarrow> P (snd (m s))" and "P s"
  show "P (snd (atomically m s))"
    by (rule atomically_cases [of m s]) (use m \<open>P s\<close> in \<open>force\<close>)+
qed

text \<open>A failed transaction leaves the database as it was.\<close>

lemma atomically_error: "atomically m s = (Inl e, s') \<Longrightarrow> s' = s"
  by (rule atomically_cases [of m s]) auto

section \<open>The tables\<close>

type_synonym millis = int

definition timestamp :: "instant \<Rightarrow> millis" where "timestamp t = t div 1000000"

definition parse_timestamp :: "millis \<Rightarrow> instant" where "parse_timestamp m = m * 1000000"

datatype profile_state = Provisioning | ProfileActive | ProfileEnded | ProfileFailed

fun profile_state_text :: "profile_state \<Rightarrow> string" where
  "profile_state_text Provisioning = ''provisioning''"
| "profile_state_text ProfileActive = ''active''"
| "profile_state_text ProfileEnded = ''ended''"
| "profile_state_text ProfileFailed = ''failed''"

record profile_row =
  pr_id :: str
  pr_org_id :: str
  pr_name :: str
  pr_provider_profile_id :: str
  pr_fingerprint :: str
  pr_location :: str
  pr_access :: access_list
  pr_owner_id :: str
  pr_status :: profile_state
  pr_created_at :: millis
  pr_ended_at :: "millis option"
  pr_end_note :: "str option"

datatype session_state = Starting | Active | Ending | Ended | Expired | Failed

fun session_state_text :: "session_state \<Rightarrow> string" where
  "session_state_text Starting = ''starting''"
| "session_state_text Active = ''active''"
| "session_state_text Ending = ''ending''"
| "session_state_text Ended = ''ended''"
| "session_state_text Expired = ''expired''"
| "session_state_text Failed = ''failed''"

record session_row =
  se_id :: str
  se_org_id :: str
  se_profile_id :: "str option"
  se_provider_session_id :: "str option"
  se_started_by :: str
  se_started_by_kind :: identity_kind
  se_name :: str
  se_description :: str
  se_status :: session_state
  se_started_at :: millis
  se_expires_at :: millis
  se_ended_at :: "millis option"
  se_end_note :: "str option"
  se_cdp_url_enc :: "str option"
  se_live_url_enc :: "str option"
  se_recording_url_enc :: "str option"
  se_stop_lease_id :: "str option"
  se_stop_lease_until :: "millis option"

datatype participant_role = Initiator | Runner | Viewer

record participant_row =
  pt_session_id :: str
  pt_actor_id :: str
  pt_role :: participant_role
  pt_first_seen_at :: millis

datatype recording_state = RecRecording | RecPending | RecAvailable | RecTrashed | RecFailed

record recording_row =
  re_session_id :: str
  re_owner_id :: str
  re_status :: recording_state
  re_artifact_path :: str
  re_briefcase_url_enc :: "str option"
  re_duration_ms :: "int option"
  re_size_bytes :: "int option"
  re_trashed_at :: "millis option"
  re_purge_after :: "millis option"

record usage_row =
  us_session_id :: str
  us_browser_millis :: int
  us_proxy_bytes_in :: "int option"
  us_proxy_bytes_out :: "int option"
  us_proxy_bytes_unclassified :: "int option"
  us_browser_cost :: str
  us_proxy_cost :: str
  us_currency :: str
  us_sampled_at :: millis

datatype outbox_kind = ResolveEvent | StoreEvent | TrashEvent

text \<open>An outbox identifier is the event type and the session, \<open>recording.resolve:<session>\<close>.\<close>

record outbox_row =
  ob_kind :: outbox_kind
  ob_session_id :: str
  ob_org_id :: str
  ob_attempts :: int
  ob_next_attempt_at :: millis
  ob_created_at :: millis
  ob_done_at :: "millis option"

record db =
  db_profiles :: "profile_row list"
  db_sessions :: "session_row list"
  db_participants :: "participant_row list"
  db_recordings :: "recording_row list"
  db_usage :: "usage_row list"
  db_outbox :: "outbox_row list"

definition empty_db :: db where
  "empty_db = \<lparr>db_profiles = [], db_sessions = [], db_participants = [], db_recordings = [],
     db_usage = [], db_outbox = []\<rparr>"

section \<open>Statements\<close>

text \<open>\<open>UPDATE ... WHERE\<close>, and the number of rows it affects.\<close>

definition update_where :: "('r \<Rightarrow> bool) \<Rightarrow> ('r \<Rightarrow> 'r) \<Rightarrow> 'r list \<Rightarrow> 'r list" where
  "update_where P f rows = map (\<lambda>r. if P r then f r else r) rows"

definition affected :: "('r \<Rightarrow> bool) \<Rightarrow> 'r list \<Rightarrow> nat" where
  "affected P rows = length (filter P rows)"

text \<open>\<open>SELECT ... LIMIT 1\<close>\<close>

definition select_one :: "('r \<Rightarrow> bool) \<Rightarrow> 'r list \<Rightarrow> 'r option" where
  "select_one P rows = List.find P rows"

text \<open>SQLite's \<open>length()\<close> stops at the first NUL.\<close>

definition sql_length :: "str \<Rightarrow> nat" where
  "sql_length s = length (takeWhile (\<lambda>c. c \<noteq> 0) s)"

definition live_state :: "session_state \<Rightarrow> bool" where
  "live_state s \<longleftrightarrow> s = Starting \<or> s = Active \<or> s = Ending"

definition is_live :: "session_row \<Rightarrow> bool" where
  "is_live r \<longleftrightarrow> live_state (se_status r)"

text \<open>The keys and partial indexes of the two tables, and their checks.\<close>

definition live_profiles :: "session_row list \<Rightarrow> str list" where
  "live_profiles rows = List.map_filter (\<lambda>r. if is_live r then se_profile_id r else None) rows"

definition sessions_unique :: "session_row list \<Rightarrow> bool" where
  "sessions_unique rows \<longleftrightarrow>
     distinct (map se_id rows) \<and>
     distinct (List.map_filter se_provider_session_id rows) \<and>
     distinct (live_profiles rows)"

definition profiles_unique :: "profile_row list \<Rightarrow> bool" where
  "profiles_unique rows \<longleftrightarrow>
     distinct (map pr_id rows) \<and> distinct (map pr_provider_profile_id rows) \<and>
     distinct (map pr_fingerprint rows)"

definition session_checks :: "session_row \<Rightarrow> bool" where
  "session_checks r \<longleftrightarrow>
     1 \<le> sql_length (se_name r) \<and> sql_length (se_name r) \<le> 120 \<and>
     1 \<le> sql_length (se_description r) \<and> sql_length (se_description r) \<le> 2000"

definition profile_checks :: "profile_row \<Rightarrow> bool" where
  "profile_checks r \<longleftrightarrow>
     1 \<le> sql_length (pr_name r) \<and> sql_length (pr_name r) \<le> 100 \<and> sql_length (pr_location r) = 2"

definition write_sessions :: "session_row list \<Rightarrow> (db, unit) st" where
  "write_sessions rows =
     (if \<not> list_all session_checks rows then errS (SDatabase CheckViolation)
      else if \<not> sessions_unique rows then errS (SDatabase UniqueViolation)
      else modifyS (\<lambda>db. db\<lparr>db_sessions := rows\<rparr>))"

definition write_profiles :: "profile_row list \<Rightarrow> (db, unit) st" where
  "write_profiles rows =
     (if \<not> list_all profile_checks rows then errS (SDatabase CheckViolation)
      else if \<not> profiles_unique rows then errS (SDatabase UniqueViolation)
      else modifyS (\<lambda>db. db\<lparr>db_profiles := rows\<rparr>))"

text \<open>\<open>UPDATE sessions SET ... WHERE ...\<close>, returning \<open>rows_affected\<close>.\<close>

definition update_sessions ::
  "(session_row \<Rightarrow> bool) \<Rightarrow> (session_row \<Rightarrow> session_row) \<Rightarrow> (db, nat) st" where
  "update_sessions P f db =
     bindS (write_sessions (update_where P f (db_sessions db)))
       (\<lambda>_. okS (affected P (db_sessions db))) db"

definition update_profiles ::
  "(profile_row \<Rightarrow> bool) \<Rightarrow> (profile_row \<Rightarrow> profile_row) \<Rightarrow> (db, nat) st" where
  "update_profiles P f db =
     bindS (write_profiles (update_where P f (db_profiles db)))
       (\<lambda>_. okS (affected P (db_profiles db))) db"

definition update_recordings ::
  "(db \<Rightarrow> recording_row \<Rightarrow> bool) \<Rightarrow> (recording_row \<Rightarrow> recording_row) \<Rightarrow> (db, nat) st" where
  "update_recordings P f db =
     (Inr (affected (P db) (db_recordings db)),
      db\<lparr>db_recordings := update_where (P db) f (db_recordings db)\<rparr>)"

definition update_outbox ::
  "(outbox_row \<Rightarrow> bool) \<Rightarrow> (outbox_row \<Rightarrow> outbox_row) \<Rightarrow> (db, nat) st" where
  "update_outbox P f db =
     (Inr (affected P (db_outbox db)), db\<lparr>db_outbox := update_where P f (db_outbox db)\<rparr>)"

text \<open>\<open>INSERT OR IGNORE INTO outbox\<close>\<close>

definition insert_outbox :: "outbox_row \<Rightarrow> (db, unit) st" where
  "insert_outbox r =
     modifyS (\<lambda>db. if \<exists>x \<in> set (db_outbox db). ob_kind x = ob_kind r \<and> ob_session_id x = ob_session_id r
                   then db else db\<lparr>db_outbox := db_outbox db @ [r]\<rparr>)"

section \<open>Helpers\<close>

definition required_text :: "str \<Rightarrow> string \<Rightarrow> store_error + unit" where
  "required_text value field =
     (if trim value = [] then Inl (SInvalid (field @ '' is required'')) else Inr ())"

definition safe_id :: "str \<Rightarrow> string \<Rightarrow> store_error + unit" where
  "safe_id value field =
     tryE (required_text value field) (\<lambda>_.
       if list_ex (\<lambda>c. is_control c \<or> is_whitespace c \<or> c = 47 \<or> c = 92) value
       then Inl (SInvalid (field @ '' contains unsafe characters'')) else Inr ())"

definition I64_MAX_NAT :: nat where "I64_MAX_NAT = 9223372036854775807"

definition to_i64 :: "nat \<Rightarrow> string \<Rightarrow> store_error + int" where
  "to_i64 value field =
     (if value \<le> I64_MAX_NAT then Inr (int value) else Inl (SInvalid (field @ '' is too large'')))"

definition optional_i64 :: "nat option \<Rightarrow> string \<Rightarrow> store_error + int option" where
  "optional_i64 value field =
     (case value of None \<Rightarrow> Inr None | Some v \<Rightarrow> tryE (to_i64 v field) (\<lambda>x. Inr (Some x)))"

definition nonnegative :: "int \<Rightarrow> string \<Rightarrow> store_error + nat" where
  "nonnegative value field =
     (if value < 0 then Inl (SCorrupt ''integer'' (field @ '' is negative'')) else Inr (nat value))"

definition ttl_from_dates :: "millis \<Rightarrow> millis \<Rightarrow> store_error + session_ttl" where
  "ttl_from_dates started expires =
     (let seconds = num_seconds (parse_timestamp expires - parse_timestamp started)
      in ok_or (SCorrupt ''session'' ''unsupported persisted TTL'')
           (List.find (\<lambda>ttl. ttl_seconds ttl = seconds) ttl_all))"

definition proxy_location_of :: "str \<Rightarrow> proxy_location" where
  "proxy_location_of code =
     \<lparr>pl_code = code, pl_name = to_ascii_upper code, pl_country = Some (to_ascii_upper code)\<rparr>"

definition map_profile_write :: "(db, 'a) st \<Rightarrow> (db, 'a) st" where
  "map_profile_write m db =
     (case m db of
        (Inl e, db') \<Rightarrow>
          (Inl (if e = SDatabase UniqueViolation
                then SInvalid ''provider profile or fingerprint already exists'' else e), db')
      | (Inr x, db') \<Rightarrow> (Inr x, db'))"

section \<open>Profiles\<close>

definition profile_row_of :: "str \<Rightarrow> str \<Rightarrow> (db, profile_row) st" where
  "profile_row_of org_id profile_id =
     readS (\<lambda>db. ok_or (SNotFound ''profile'' profile_id)
       (select_one (\<lambda>r. pr_org_id r = org_id \<and> pr_id r = profile_id) (db_profiles db)))"

definition map_profile :: "profile_row \<Rightarrow> (db, profile) st" where
  "map_profile row =
     readS (\<lambda>db.
       let sessions_run = affected (\<lambda>s. se_profile_id s = Some (pr_id row)) (db_sessions db) in
       Inr \<lparr>p_id = pr_id row, p_name = pr_name row, p_fingerprint = pr_fingerprint row,
         p_location = proxy_location_of (pr_location row), p_access = pr_access row,
         p_owner_id = pr_owner_id row, p_sessions_run = sessions_run,
         p_status = (case pr_status row of
             ProfileActive \<Rightarrow> PActive | Provisioning \<Rightarrow> PActive
           | ProfileEnded \<Rightarrow> PRetired | ProfileFailed \<Rightarrow> PRetired),
         p_created_at = parse_timestamp (pr_created_at row),
         p_ended_at = map_option parse_timestamp (pr_ended_at row), p_end_note = pr_end_note row\<rparr>)"

definition profile_unchecked :: "str \<Rightarrow> str \<Rightarrow> (db, profile) st" where
  "profile_unchecked org_id profile_id = bindS (profile_row_of org_id profile_id) map_profile"

definition insert_profile :: "profile_row \<Rightarrow> (db, unit) st" where
  "insert_profile row db = map_profile_write (write_profiles (db_profiles db @ [row])) db"

definition reserve_profile ::
  "'u uuid_api \<Rightarrow> str \<Rightarrow> str \<Rightarrow> identity \<Rightarrow> profile_create \<Rightarrow> instant \<Rightarrow> (db, profile) st" where
  "reserve_profile u fresh org_id owner request now =
     bindS (liftS (map_err SInvalidField (profile_create_validate u request))) (\<lambda>_.
     bindS (liftS (safe_id org_id ''org_id'')) (\<lambda>_.
     bindS (liftS (safe_id (i_id owner) ''owner_id'')) (\<lambda>_.
     if length (pc_name request) > 100
     then errS (SInvalid ''profile name must contain at most 100 characters'')
     else if length (pc_location request) \<noteq> 2 \<or> \<not> list_all is_ascii_alphabetic (pc_location request)
     then errS (SInvalid ''profile location must be a two-letter location code'')
     else
     bindS (liftS (map_err SInvalidField (normalized_with_owner (pc_access request) (i_id owner)))) (\<lambda>access.
     bindS (insert_profile
       \<lparr>pr_id = fresh, pr_org_id = org_id, pr_name = trim (pc_name request),
        pr_provider_profile_id = lit ''pending-'' @ fresh, pr_fingerprint = lit ''pending-'' @ fresh,
        pr_location = to_ascii_lower (trim (pc_location request)), pr_access = access,
        pr_owner_id = i_id owner, pr_status = Provisioning, pr_created_at = timestamp now,
        pr_ended_at = None, pr_end_note = None\<rparr>) (\<lambda>_.
       profile_unchecked org_id fresh)))))"

definition activate_profile :: "str \<Rightarrow> str \<Rightarrow> str \<Rightarrow> str \<Rightarrow> (db, profile) st" where
  "activate_profile org_id profile_id provider_profile_id fingerprint =
     bindS (liftS (safe_id provider_profile_id ''provider_profile_id'')) (\<lambda>_.
     bindS (liftS (required_text fingerprint ''fingerprint'')) (\<lambda>_.
     bindS (map_profile_write (update_profiles
              (\<lambda>r. pr_org_id r = org_id \<and> pr_id r = profile_id \<and> pr_status r = Provisioning)
              (\<lambda>r. r\<lparr>pr_provider_profile_id := provider_profile_id, pr_fingerprint := fingerprint,
                     pr_status := ProfileActive\<rparr>))) (\<lambda>rows.
     if rows = 0
     then bindS (profile_row_of org_id profile_id) (\<lambda>row.
            errS (SSessionState profile_id (profile_state_text (pr_status row))))
     else profile_unchecked org_id profile_id)))"

definition provisioning_profiles :: "(db, (str \<times> str) list) st" where
  "provisioning_profiles =
     readS (\<lambda>db. Inr (map (\<lambda>r. (pr_org_id r, pr_id r))
       (sort_key (\<lambda>r. (pr_created_at r, pr_id r))
         (filter (\<lambda>r. pr_status r = Provisioning) (db_profiles db)))))"

definition fail_profile :: "str \<Rightarrow> str \<Rightarrow> str \<Rightarrow> instant \<Rightarrow> (db, profile) st" where
  "fail_profile org_id profile_id reason now =
     bindS (liftS (required_text reason ''reason'')) (\<lambda>_.
     bindS (update_profiles
              (\<lambda>r. pr_org_id r = org_id \<and> pr_id r = profile_id \<and> pr_status r = Provisioning)
              (\<lambda>r. r\<lparr>pr_status := ProfileFailed, pr_ended_at := Some (timestamp now),
                     pr_end_note := Some (trim reason)\<rparr>)) (\<lambda>rows.
     if rows = 0
     then bindS (profile_row_of org_id profile_id) (\<lambda>row.
            errS (SSessionState profile_id (profile_state_text (pr_status row))))
     else profile_unchecked org_id profile_id))"

definition store_create_profile ::
  "'u uuid_api \<Rightarrow> str \<Rightarrow> str \<Rightarrow> identity \<Rightarrow> profile_create \<Rightarrow> str \<Rightarrow> str \<Rightarrow> instant \<Rightarrow> (db, profile) st" where
  "store_create_profile u fresh org_id owner request provider_profile_id fingerprint now =
     bindS (liftS (map_err SInvalidField (profile_create_validate u request))) (\<lambda>_.
     bindS (liftS (safe_id org_id ''org_id'')) (\<lambda>_.
     bindS (liftS (safe_id (i_id owner) ''owner_id'')) (\<lambda>_.
     bindS (liftS (safe_id provider_profile_id ''provider_profile_id'')) (\<lambda>_.
     bindS (liftS (required_text fingerprint ''fingerprint'')) (\<lambda>_.
     if length (pc_name request) > 100
     then errS (SInvalid ''profile name must contain at most 100 characters'')
     else if length (pc_location request) \<noteq> 2
     then errS (SInvalid ''profile location must be a two-letter location code'')
     else
     bindS (liftS (map_err SInvalidField (normalized_with_owner (pc_access request) (i_id owner)))) (\<lambda>access.
     bindS (insert_profile
       \<lparr>pr_id = fresh, pr_org_id = org_id, pr_name = trim (pc_name request),
        pr_provider_profile_id = provider_profile_id, pr_fingerprint = fingerprint,
        pr_location = to_ascii_lower (trim (pc_location request)), pr_access = access,
        pr_owner_id = i_id owner, pr_status = ProfileActive, pr_created_at = timestamp now,
        pr_ended_at = None, pr_end_note = None\<rparr>) (\<lambda>_.
       profile_unchecked org_id fresh)))))))"

fun map_profiles :: "profile_row list \<Rightarrow> (db, profile list) st" where
  "map_profiles [] = okS []"
| "map_profiles (row # rows) =
     bindS (map_profile row) (\<lambda>p. bindS (map_profiles rows) (\<lambda>ps. okS (p # ps)))"

definition profiles_visible :: "str \<Rightarrow> identity \<Rightarrow> (db, profile list) st" where
  "profiles_visible org_id viewer =
     bindS (readS (\<lambda>db. Inr (filter (\<lambda>r. allows (pr_access r) viewer)
       (sort_key (\<lambda>r. - pr_created_at r)
         (filter (\<lambda>r. pr_org_id r = org_id \<and> pr_status r \<noteq> Provisioning) (db_profiles db))))))
       map_profiles"

definition profile_get :: "str \<Rightarrow> identity \<Rightarrow> str \<Rightarrow> (db, profile) st" where
  "profile_get org_id viewer profile_id =
     bindS (profile_row_of org_id profile_id) (\<lambda>row.
       if pr_status row = Provisioning \<or> \<not> allows (pr_access row) viewer
       then errS (SNotFound ''profile'' profile_id)
       else map_profile row)"

definition provider_profile_id :: "str \<Rightarrow> identity \<Rightarrow> str \<Rightarrow> (db, str) st" where
  "provider_profile_id org_id viewer profile_id =
     bindS (profile_row_of org_id profile_id) (\<lambda>row.
       if \<not> allows (pr_access row) viewer then errS (SNotFound ''profile'' profile_id)
       else if pr_status row \<noteq> ProfileActive then errS (SProfileRetired profile_id)
       else okS (pr_provider_profile_id row))"

definition update_profile ::
  "'u uuid_api \<Rightarrow> str \<Rightarrow> identity \<Rightarrow> str \<Rightarrow> profile_update \<Rightarrow> (db, profile) st" where
  "update_profile u org_id actor profile_id request =
     bindS (liftS (map_err SInvalidField (profile_update_validate u request))) (\<lambda>_.
     if (case pu_name request of Some name \<Rightarrow> length name > 100 | None \<Rightarrow> False)
     then errS (SInvalid ''profile name must contain at most 100 characters'')
     else
     bindS (atomically (
       bindS (profile_row_of org_id profile_id) (\<lambda>row.
       if \<not> matches_principal actor (pr_owner_id row) then errS (SForbidden ''profile'' profile_id)
       else if pr_status row = ProfileEnded then errS (SProfileRetired profile_id)
       else if pr_status row \<noteq> ProfileActive \<and> pr_status row \<noteq> Provisioning
       then errS (SSessionState profile_id (profile_state_text (pr_status row)))
       else
       bindS (liftS (case pu_access request of
                Some access \<Rightarrow> map_err SInvalidField (normalized_with_owner access (pr_owner_id row))
              | None \<Rightarrow> Inr (pr_access row))) (\<lambda>access.
       let name = trim (case pu_name request of Some n \<Rightarrow> n | None \<Rightarrow> pr_name row) in
       update_profiles (\<lambda>r. pr_org_id r = org_id \<and> pr_id r = profile_id)
         (\<lambda>r. r\<lparr>pr_name := name, pr_access := access\<rparr>))))) (\<lambda>_.
     profile_unchecked org_id profile_id))"

definition end_profile :: "str \<Rightarrow> identity \<Rightarrow> str \<Rightarrow> str \<Rightarrow> instant \<Rightarrow> (db, profile) st" where
  "end_profile org_id actor profile_id note now =
     bindS (liftS (map_err SInvalidField (profile_end_validate note))) (\<lambda>_.
     bindS (atomically (
       bindS (profile_row_of org_id profile_id) (\<lambda>row.
       if \<not> matches_principal actor (pr_owner_id row) then errS (SForbidden ''profile'' profile_id)
       else
       bindS (readS (\<lambda>db. Inr (select_one (\<lambda>s. se_profile_id s = Some profile_id \<and> is_live s)
                                  (db_sessions db)))) (\<lambda>live.
       case live of
         Some s \<Rightarrow> errS (SProfileBusy profile_id (se_id s) (se_started_by s)
                            (parse_timestamp (se_expires_at s)))
       | None \<Rightarrow>
           update_profiles
             (\<lambda>r. pr_org_id r = org_id \<and> pr_id r = profile_id \<and> pr_status r \<noteq> ProfileEnded)
             (\<lambda>r. r\<lparr>pr_status := ProfileEnded, pr_ended_at := Some (timestamp now),
                    pr_end_note := Some (trim note)\<rparr>))))) (\<lambda>_.
     profile_unchecked org_id profile_id))"

end
