(* ===== verification/SB_Usage.thy ===== *)
theory SB_Usage
  imports SB_Store
begin

text \<open>
  Metered usage (\<open>src/crates/backend/src/store.rs\<close>): the mapping of a usage row to the
  public model with its cost split, the checked totals, and the write of a provider snapshot
  with its monotonicity rules.
\<close>

section \<open>From rows to the public model\<close>

definition parse_cost_micros :: "str \<Rightarrow> store_error + nat" where
  "parse_cost_micros value = map_err SInvalidCost (decimal_to_millionths value)"

definition validate_currency :: "str \<Rightarrow> store_error + unit" where
  "validate_currency value =
     (if utf8_len value \<noteq> 3 \<or> \<not> list_all is_ascii_alphabetic value
      then Inl (SInvalid ''currency must be a three-letter code'') else Inr ())"

definition money_of :: "str \<Rightarrow> nat \<Rightarrow> money" where
  "money_of currency micros = \<lparr>m_currency = currency, m_micros = micros\<rparr>"

text \<open>The products and sums are \<open>u128\<close>, the quotients \<open>u64\<close>.\<close>

definition split_proxy_cost :: "nat \<Rightarrow> nat \<Rightarrow> nat \<Rightarrow> nat \<Rightarrow> nat \<times> nat \<times> nat" where
  "split_proxy_cost cost bytes_in bytes_out bytes_unclassified =
     (let bytes = bytes_in + bytes_out + bytes_unclassified in
      if bytes = 0 then (0, 0, cost)
      else
        let inbound = cost * bytes_in div bytes;
            outbound = cost * bytes_out div bytes
        in (inbound, outbound, cost - inbound - outbound))"

definition map_usage :: "usage_row \<Rightarrow> millis \<Rightarrow> str list \<Rightarrow> store_error + usage" where
  "map_usage row started_at principals =
     tryE (parse_cost_micros (us_browser_cost row)) (\<lambda>browser_cost.
     tryE (parse_cost_micros (us_proxy_cost row)) (\<lambda>proxy_cost.
     tryE (nonnegative (case us_proxy_bytes_in row of Some b \<Rightarrow> b | None \<Rightarrow> 0) ''usage.proxy_bytes_in'') (\<lambda>bytes_in.
     tryE (nonnegative (case us_proxy_bytes_out row of Some b \<Rightarrow> b | None \<Rightarrow> 0) ''usage.proxy_bytes_out'') (\<lambda>bytes_out.
     tryE (nonnegative (case us_proxy_bytes_unclassified row of Some b \<Rightarrow> b | None \<Rightarrow> 0)
             ''usage.proxy_bytes_unclassified'') (\<lambda>bytes_unclassified.
     let (proxy_in_cost, proxy_out_cost, proxy_unclassified_cost) =
           split_proxy_cost proxy_cost bytes_in bytes_out bytes_unclassified in
     tryE (ok_or (SCorrupt ''usage'' ''cost total overflow'') (checked_add_u64 browser_cost proxy_cost)) (\<lambda>sum.
     tryE (nonnegative (us_browser_millis row) ''usage.browser_millis'') (\<lambda>millis.
       Inr \<lparr>u_session_id = us_session_id row, u_started_at = parse_timestamp started_at,
         u_principal_ids = principals, u_browser_seconds = millis div 1000,
         u_proxy_bytes_in = bytes_in, u_proxy_bytes_out = bytes_out,
         u_proxy_bytes_unclassified = bytes_unclassified,
         u_cost = \<lparr>uc_browser = money_of (us_currency row) browser_cost,
           uc_proxy_in = money_of (us_currency row) proxy_in_cost,
           uc_proxy_out = money_of (us_currency row) proxy_out_cost,
           uc_proxy_unclassified = money_of (us_currency row) proxy_unclassified_cost,
           uc_total = money_of (us_currency row) sum\<rparr>\<rparr>)))))))"

definition default_money :: money where "default_money = \<lparr>m_currency = [], m_micros = 0\<rparr>"

definition default_usage_total :: usage_total where
  "default_usage_total = \<lparr>ut_sessions = 0, ut_browser_seconds = 0, ut_proxy_bytes_in = 0,
     ut_proxy_bytes_out = 0, ut_proxy_bytes_unclassified = 0,
     ut_cost = \<lparr>uc_browser = default_money, uc_proxy_in = default_money, uc_proxy_out = default_money,
       uc_proxy_unclassified = default_money, uc_total = default_money\<rparr>\<rparr>"

definition checked_total :: "nat \<Rightarrow> nat \<Rightarrow> string \<Rightarrow> store_error + nat" where
  "checked_total target value name = ok_or (SCorrupt ''usage'' (name @ '' overflow'')) (checked_add_u64 target value)"

definition add_money :: "money \<Rightarrow> money \<Rightarrow> string \<Rightarrow> store_error + money" where
  "add_money t m name =
     tryE (checked_total (m_micros t) (m_micros m) name) (\<lambda>x. Inr (t\<lparr>m_micros := x\<rparr>))"

definition usage_total_step :: "str \<Rightarrow> usage_total \<Rightarrow> usage \<Rightarrow> store_error + usage_total" where
  "usage_total_step currency t row =
     tryE (guardE (m_currency (uc_total (u_cost row)) = currency)
            (SCorrupt ''usage'' ''cannot aggregate different currencies'')) (\<lambda>_.
     tryE (checked_total (ut_browser_seconds t) (u_browser_seconds row) ''browser seconds'') (\<lambda>seconds.
     tryE (checked_total (ut_proxy_bytes_in t) (u_proxy_bytes_in row) ''proxy bytes in'') (\<lambda>bin.
     tryE (checked_total (ut_proxy_bytes_out t) (u_proxy_bytes_out row) ''proxy bytes out'') (\<lambda>bout.
     tryE (checked_total (ut_proxy_bytes_unclassified t) (u_proxy_bytes_unclassified row)
             ''proxy bytes unclassified'') (\<lambda>bun.
     tryE (add_money (uc_browser (ut_cost t)) (uc_browser (u_cost row)) ''browser cost'') (\<lambda>cb.
     tryE (add_money (uc_proxy_in (ut_cost t)) (uc_proxy_in (u_cost row)) ''proxy-in cost'') (\<lambda>ci.
     tryE (add_money (uc_proxy_out (ut_cost t)) (uc_proxy_out (u_cost row)) ''proxy-out cost'') (\<lambda>co.
     tryE (add_money (uc_proxy_unclassified (ut_cost t)) (uc_proxy_unclassified (u_cost row))
             ''unclassified proxy cost'') (\<lambda>cu.
     tryE (add_money (uc_total (ut_cost t)) (uc_total (u_cost row)) ''total cost'') (\<lambda>ct.
       Inr (t\<lparr>ut_browser_seconds := seconds, ut_proxy_bytes_in := bin, ut_proxy_bytes_out := bout,
              ut_proxy_bytes_unclassified := bun,
              ut_cost := \<lparr>uc_browser = cb, uc_proxy_in = ci, uc_proxy_out = co,
                uc_proxy_unclassified = cu, uc_total = ct\<rparr>\<rparr>)))))))))))"

fun usage_total_loop :: "str \<Rightarrow> usage_total \<Rightarrow> usage list \<Rightarrow> store_error + usage_total" where
  "usage_total_loop currency t [] = Inr t"
| "usage_total_loop currency t (row # rows) =
     tryE (usage_total_step currency t row) (\<lambda>t'. usage_total_loop currency t' rows)"

definition usage_total_of :: "usage list \<Rightarrow> store_error + usage_total" where
  "usage_total_of rows =
     (case rows of
        [] \<Rightarrow> Inr default_usage_total
      | first # _ \<Rightarrow>
          let currency = m_currency (uc_total (u_cost first));
              zero = \<lparr>m_currency = currency, m_micros = 0\<rparr>
          in usage_total_loop currency
               (default_usage_total\<lparr>ut_sessions := length rows,
                  ut_cost := \<lparr>uc_browser = zero, uc_proxy_in = zero, uc_proxy_out = zero,
                    uc_proxy_unclassified = zero, uc_total = zero\<rparr>\<rparr>) rows)"

section \<open>Reading\<close>

text \<open>\<open>SELECT DISTINCT actor_id ... ORDER BY first_seen_at, actor_id\<close>\<close>

definition participant_ids :: "str \<Rightarrow> db \<Rightarrow> str list" where
  "participant_ids session_id db =
     rev (remdups (rev (map pt_actor_id
       (sort_key (\<lambda>p. (pt_first_seen_at p, pt_actor_id p))
         (filter (\<lambda>p. pt_session_id p = session_id) (db_participants db))))))"

definition usage_unchecked :: "str \<Rightarrow> (db, usage) st" where
  "usage_unchecked session_id =
     readS (\<lambda>db.
       case (select_one (\<lambda>u. us_session_id u = session_id) (db_usage db),
             select_one (\<lambda>s. se_id s = session_id) (db_sessions db)) of
         (Some u, Some s) \<Rightarrow> map_usage u (se_started_at s) (participant_ids session_id db)
       | _ \<Rightarrow> Inl (SNotFound ''usage'' session_id))"

section \<open>Recording a provider snapshot\<close>

text \<open>
  The transaction reads the session and the usage row and decides. The condition on the
  session's status in its \<open>UPDATE\<close> is the one just checked on the row it read, so within one
  transaction the zero-row branch behind it cannot be taken.
\<close>

record usage_sample =
  sm_browser_millis :: nat
  sm_proxy_bytes_in :: "nat option"
  sm_proxy_bytes_out :: "nat option"
  sm_proxy_bytes_unclassified :: "nat option"
  sm_browser_cost :: str
  sm_proxy_cost :: str
  sm_currency :: str
  sm_sampled_at :: instant

definition monotonic_terminal_counter :: "int option \<Rightarrow> int option \<Rightarrow> bool \<Rightarrow> int option" where
  "monotonic_terminal_counter next current terminal =
     (if terminal
      then map_option (\<lambda>n. case current of None \<Rightarrow> n | Some c \<Rightarrow> max n c) next
      else next)"

definition option_less :: "int option \<Rightarrow> int option \<Rightarrow> bool" where
  "option_less next current = (case (next, current) of (Some n, Some c) \<Rightarrow> n < c | _ \<Rightarrow> False)"

definition coalesce :: "'a option \<Rightarrow> 'a option \<Rightarrow> 'a option" where
  "coalesce a b = (case a of Some x \<Rightarrow> Some x | None \<Rightarrow> b)"

definition counters_decreased :: "usage_row \<Rightarrow> int \<Rightarrow> int option \<Rightarrow> int option \<Rightarrow> int option \<Rightarrow> bool" where
  "counters_decreased u browser_millis bytes_in bytes_out bytes_un \<longleftrightarrow>
     browser_millis < us_browser_millis u \<or> option_less bytes_in (us_proxy_bytes_in u) \<or>
     option_less bytes_out (us_proxy_bytes_out u) \<or> option_less bytes_un (us_proxy_bytes_unclassified u)"

text \<open>The columns the \<open>UPDATE\<close> sets; \<open>COALESCE\<close> keeps a counter the provider left out.\<close>

definition next_usage_row ::
  "usage_row \<Rightarrow> usage_sample \<Rightarrow> int \<Rightarrow> int option \<Rightarrow> int option \<Rightarrow> int option \<Rightarrow> bool \<Rightarrow> usage_row" where
  "next_usage_row u sample browser_millis bytes_in bytes_out bytes_un terminal =
     u\<lparr>us_browser_millis := (if terminal then max browser_millis (us_browser_millis u) else browser_millis),
       us_proxy_bytes_in := coalesce
         (monotonic_terminal_counter bytes_in (us_proxy_bytes_in u) terminal) (us_proxy_bytes_in u),
       us_proxy_bytes_out := coalesce
         (monotonic_terminal_counter bytes_out (us_proxy_bytes_out u) terminal) (us_proxy_bytes_out u),
       us_proxy_bytes_unclassified := coalesce
         (monotonic_terminal_counter bytes_un (us_proxy_bytes_unclassified u) terminal)
         (us_proxy_bytes_unclassified u),
       us_browser_cost := sm_browser_cost sample, us_proxy_cost := sm_proxy_cost sample,
       us_currency := to_ascii_upper (sm_currency sample),
       us_sampled_at := timestamp (sm_sampled_at sample)\<rparr>"

text \<open>What the transaction of \<open>record_usage_snapshot\<close> decides about the row it read.\<close>

datatype usage_verdict =
    Unchanged               \<comment> \<open>roll back and return the stored usage\<close>
  | Refused store_error
  | Write usage_row

definition usage_verdict_of ::
  "session_row \<Rightarrow> usage_row \<Rightarrow> usage_sample \<Rightarrow> int \<Rightarrow> int option \<Rightarrow> int option \<Rightarrow> int option \<Rightarrow> bool \<Rightarrow>
   usage_verdict" where
  "usage_verdict_of s u sample browser_millis bytes_in bytes_out bytes_un terminal =
     (if terminal \<and> (se_status s = Ended \<or> se_status s = Expired \<or> se_status s = Failed) then Unchanged
      else if terminal \<and> se_status s \<noteq> Starting \<and> se_status s \<noteq> Ending
      then Refused (SSessionState (se_id s) (session_state_text (se_status s)))
      else if \<not> terminal \<and> se_status s \<noteq> Active then Unchanged
      else if se_profile_id s \<noteq> None \<and> sm_proxy_bytes_in sample = None \<and>
              sm_proxy_bytes_out sample = None \<and> sm_proxy_bytes_unclassified sample = None
      then Refused (SInvalid ''profile sessions must report proxy counters'')
      else
        case tryE (parse_cost_micros (us_browser_cost u)) (\<lambda>cb.
             tryE (parse_cost_micros (us_proxy_cost u)) (\<lambda>cp.
             tryE (parse_cost_micros (sm_browser_cost sample)) (\<lambda>nb.
             tryE (parse_cost_micros (sm_proxy_cost sample)) (\<lambda>np. Inr (nb < cb \<or> np < cp))))) of
          Inl e \<Rightarrow> Refused e
        | Inr costs_decreased \<Rightarrow>
            if \<not> terminal \<and> (counters_decreased u browser_millis bytes_in bytes_out bytes_un \<or> costs_decreased)
            then Refused (SInvalid ''usage counters cannot decrease'')
            else if \<not> eq_ignore_ascii_case (us_currency u) (sm_currency sample)
            then Refused (SInvalid ''usage currency cannot change within a session'')
            else Write (next_usage_row u sample browser_millis bytes_in bytes_out bytes_un terminal))"

definition write_usage_row :: "usage_row \<Rightarrow> (db, unit) st" where
  "write_usage_row row =
     modifyS (\<lambda>db. db\<lparr>db_usage := update_where (\<lambda>u. us_session_id u = us_session_id row) (\<lambda>_. row) (db_usage db)\<rparr>)"

definition record_usage_snapshot :: "str \<Rightarrow> str \<Rightarrow> usage_sample \<Rightarrow> bool \<Rightarrow> (db, usage) st" where
  "record_usage_snapshot org_id session_id sample terminal =
     bindS (liftS (to_i64 (sm_browser_millis sample) ''usage.browser_millis'')) (\<lambda>browser_millis.
     bindS (liftS (optional_i64 (sm_proxy_bytes_in sample) ''usage.proxy_bytes_in'')) (\<lambda>bytes_in.
     bindS (liftS (optional_i64 (sm_proxy_bytes_out sample) ''usage.proxy_bytes_out'')) (\<lambda>bytes_out.
     bindS (liftS (optional_i64 (sm_proxy_bytes_unclassified sample) ''usage.proxy_bytes_unclassified'')) (\<lambda>bytes_un.
     bindS (liftS (parse_cost_micros (sm_browser_cost sample))) (\<lambda>_.
     bindS (liftS (parse_cost_micros (sm_proxy_cost sample))) (\<lambda>_.
     bindS (liftS (validate_currency (sm_currency sample))) (\<lambda>_.
     bindS (atomically (
       bindS (readS (\<lambda>db.
         case (select_one (\<lambda>s. se_org_id s = org_id \<and> se_id s = session_id) (db_sessions db),
               select_one (\<lambda>u. us_session_id u = session_id) (db_usage db)) of
           (Some s, Some u) \<Rightarrow> Inr (s, u)
         | _ \<Rightarrow> Inl (SNotFound ''usage'' session_id))) (\<lambda>(s, u).
       case usage_verdict_of s u sample browser_millis bytes_in bytes_out bytes_un terminal of
         Unchanged \<Rightarrow> okS ()
       | Refused e \<Rightarrow> errS e
       | Write row \<Rightarrow> write_usage_row row))) (\<lambda>_.
     usage_unchecked session_id))))))))"

definition record_usage :: "str \<Rightarrow> str \<Rightarrow> usage_sample \<Rightarrow> (db, usage) st" where
  "record_usage org_id session_id sample = record_usage_snapshot org_id session_id sample False"

definition record_terminal_usage :: "str \<Rightarrow> str \<Rightarrow> usage_sample \<Rightarrow> (db, usage) st" where
  "record_terminal_usage org_id session_id sample = record_usage_snapshot org_id session_id sample True"

section \<open>The cost split\<close>

lemma split_parts_fit:
  assumes "0 < bytes" "a + b \<le> (bytes :: nat)"
  shows "t * a div bytes + t * b div bytes \<le> t"
proof -
  have "t * a div bytes * bytes + t * b div bytes * bytes \<le> t * a + t * b"
    using div_times_less_eq_dividend [of "t * a" bytes] div_times_less_eq_dividend [of "t * b" bytes]
    by linarith
  also have "\<dots> \<le> t * bytes" using assms(2) by (simp add: distrib_left [symmetric])
  finally have "(t * a div bytes + t * b div bytes) * bytes \<le> t * bytes"
    by (simp add: distrib_right)
  then show ?thesis using assms(1) by simp
qed

lemma split_proxy_cost_sum:
  "case split_proxy_cost t i b n of (ci, co, cn) \<Rightarrow> ci + co + cn = t"
  using split_parts_fit [of "i + b + n" i b t]
  by (auto simp: split_proxy_cost_def Let_def)

section \<open>Totals\<close>

definition cost_balanced :: "usage_cost \<Rightarrow> bool" where
  "cost_balanced c \<longleftrightarrow>
     m_micros (uc_total c) = m_micros (uc_browser c) + m_micros (uc_proxy_in c) +
       m_micros (uc_proxy_out c) + m_micros (uc_proxy_unclassified c) \<and>
     m_micros (uc_total c) \<le> U64_MAX"

lemma split_proxy_cost_parts:
  "fst (split_proxy_cost t i b n) +
     (fst (snd (split_proxy_cost t i b n)) + snd (snd (split_proxy_cost t i b n))) = t"
  using split_proxy_cost_sum [of t i b n] by (simp add: case_prod_beta)

lemma map_usage_balanced: "map_usage row started ps = Inr x \<Longrightarrow> cost_balanced (u_cost x)"
  by (auto simp: map_usage_def Let_def case_prod_beta checked_add_u64_def cost_balanced_def money_of_def
      split_proxy_cost_parts add.assoc split: if_splits)

lemma checked_total_Inr: "checked_total a b n = Inr x \<longleftrightarrow> x = a + b \<and> a + b \<le> U64_MAX"
  by (auto simp: checked_total_def checked_add_u64_def)

lemma add_money_Inr: "add_money t m n = Inr x \<longleftrightarrow> x = t\<lparr>m_micros := m_micros t + m_micros m\<rparr> \<and>
    m_micros t + m_micros m \<le> U64_MAX"
  by (auto simp: add_money_def checked_total_Inr)

lemma usage_total_step_fields:
  assumes "usage_total_step c t r = Inr t'"
  shows "ut_browser_seconds t' = ut_browser_seconds t + u_browser_seconds r"
    "m_micros (uc_total (ut_cost t')) = m_micros (uc_total (ut_cost t)) + m_micros (uc_total (u_cost r))"
    "m_micros (uc_browser (ut_cost t')) = m_micros (uc_browser (ut_cost t)) + m_micros (uc_browser (u_cost r))"
    "m_micros (uc_proxy_in (ut_cost t')) = m_micros (uc_proxy_in (ut_cost t)) + m_micros (uc_proxy_in (u_cost r))"
    "m_micros (uc_proxy_out (ut_cost t')) = m_micros (uc_proxy_out (ut_cost t)) + m_micros (uc_proxy_out (u_cost r))"
    "m_micros (uc_proxy_unclassified (ut_cost t')) =
       m_micros (uc_proxy_unclassified (ut_cost t)) + m_micros (uc_proxy_unclassified (u_cost r))"
    "m_micros (uc_total (ut_cost t')) \<le> U64_MAX" "ut_sessions t' = ut_sessions t"
    "m_currency (uc_total (u_cost r)) = c"
  using assms by (auto simp: usage_total_step_def checked_total_Inr add_money_Inr)

lemma usage_total_loop_fields:
  assumes "usage_total_loop c t rows = Inr t'"
  shows "ut_browser_seconds t' = ut_browser_seconds t + sum_list (map u_browser_seconds rows)"
    "m_micros (uc_total (ut_cost t')) =
       m_micros (uc_total (ut_cost t)) + sum_list (map (\<lambda>r. m_micros (uc_total (u_cost r))) rows)"
    "ut_sessions t' = ut_sessions t"
    "\<forall>r \<in> set rows. m_currency (uc_total (u_cost r)) = c"
  using assms
proof (induction rows arbitrary: t)
  case (Cons r rows)
  case 1
  then obtain u where u: "usage_total_step c t r = Inr u" "usage_total_loop c u rows = Inr t'" by auto
  with Cons.IH(1) [OF u(2)] usage_total_step_fields(1) [OF u(1)] show ?case by simp
next
  case (Cons r rows)
  case 2
  then obtain u where u: "usage_total_step c t r = Inr u" "usage_total_loop c u rows = Inr t'" by auto
  with Cons.IH(2) [OF u(2)] usage_total_step_fields(2) [OF u(1)] show ?case by simp
next
  case (Cons r rows)
  case 3
  then obtain u where u: "usage_total_step c t r = Inr u" "usage_total_loop c u rows = Inr t'" by auto
  with Cons.IH(3) [OF u(2)] usage_total_step_fields(8) [OF u(1)] show ?case by simp
next
  case (Cons r rows)
  case 4
  then obtain u where u: "usage_total_step c t r = Inr u" "usage_total_loop c u rows = Inr t'" by auto
  with Cons.IH(4) [OF u(2)] usage_total_step_fields(9) [OF u(1)] show ?case by simp
qed simp_all

lemma usage_total_loop_balanced:
  "usage_total_loop c t rows = Inr t' \<Longrightarrow> cost_balanced (ut_cost t) \<Longrightarrow>
   \<forall>r \<in> set rows. cost_balanced (u_cost r) \<Longrightarrow> cost_balanced (ut_cost t')"
proof (induction rows arbitrary: t)
  case (Cons r rows)
  then obtain u where u: "usage_total_step c t r = Inr u" "usage_total_loop c u rows = Inr t'" by auto
  have "cost_balanced (ut_cost u)"
    using Cons.prems(2,3) usage_total_step_fields [OF u(1)] by (simp add: cost_balanced_def)
  with Cons.IH [OF u(2)] Cons.prems(3) show ?case by simp
qed simp

section \<open>The verdict on a snapshot\<close>

lemma usage_verdict_Write:
  assumes "usage_verdict_of s u sample m bi bo bu terminal = Write row"
  shows "row = next_usage_row u sample m bi bo bu terminal"
    "if terminal then se_status s = Starting \<or> se_status s = Ending else se_status s = Active"
    "\<not> terminal \<Longrightarrow> \<not> counters_decreased u m bi bo bu"
  using assms by (auto simp: usage_verdict_of_def split: if_splits sum.splits)

definition counter_le :: "int option \<Rightarrow> int option \<Rightarrow> bool" where
  "counter_le a b \<longleftrightarrow> (case a of None \<Rightarrow> True | Some x \<Rightarrow> (case b of None \<Rightarrow> False | Some y \<Rightarrow> x \<le> y))"

definition usage_le :: "usage_row \<Rightarrow> usage_row \<Rightarrow> bool" where
  "usage_le u v \<longleftrightarrow>
     us_session_id v = us_session_id u \<and> us_browser_millis u \<le> us_browser_millis v \<and>
     counter_le (us_proxy_bytes_in u) (us_proxy_bytes_in v) \<and>
     counter_le (us_proxy_bytes_out u) (us_proxy_bytes_out v) \<and>
     counter_le (us_proxy_bytes_unclassified u) (us_proxy_bytes_unclassified v)"

lemma coalesce_terminal: "counter_le c (coalesce (monotonic_terminal_counter n c True) c)"
  by (cases n; cases c) (simp_all add: counter_le_def coalesce_def monotonic_terminal_counter_def)

lemma coalesce_active: "\<not> option_less n c \<Longrightarrow> counter_le c (coalesce (monotonic_terminal_counter n c False) c)"
  by (cases n; cases c) (simp_all add: counter_le_def coalesce_def monotonic_terminal_counter_def option_less_def)

lemma next_usage_row_le:
  "terminal \<or> \<not> counters_decreased u m bi bo bu \<Longrightarrow>
   usage_le u (next_usage_row u sample m bi bo bu terminal)"
  by (cases terminal)
     (simp_all add: usage_le_def next_usage_row_def coalesce_terminal coalesce_active counters_decreased_def)

lemma verdict_monotone:
  "usage_verdict_of s u sample m bi bo bu terminal = Write row \<Longrightarrow> usage_le u row"
  using usage_verdict_Write next_usage_row_le by metis

lemma counter_le_trans: "counter_le a b \<Longrightarrow> counter_le b c \<Longrightarrow> counter_le a c"
  by (auto simp: counter_le_def split: option.splits)

lemma usage_le_trans: "usage_le u v \<Longrightarrow> usage_le v w \<Longrightarrow> usage_le u w"
  by (auto simp: usage_le_def intro: counter_le_trans)

lemma usage_le_refl: "usage_le u u"
  by (auto simp: usage_le_def counter_le_def split: option.splits)

end
