(* ===== verification/SB_Sessions.thy ===== *)
theory SB_Sessions
  imports SB_Usage SB_Filter
begin

text \<open>
  The session lifecycle of the store (\<open>src/crates/backend/src/store.rs\<close> and
  \<open>store/connection.rs\<close>): reservation of a profile's live slot, activation with sealed provider
  URLs, retention after a failed activation, the end and expiry protocols with their leases, and
  the reads that decide who sees a session.
\<close>

section \<open>Provider data and its encryption\<close>

record provider_session =
  pv_id :: str
  pv_cdp_url :: str
  pv_live_url :: str
  pv_recording_url :: "str option"

record provider_runtime =
  rt_provider_session_id :: str
  rt_cdp_url :: str
  rt_live_url :: str
  rt_recording_url :: "str option"

record sealed_urls =
  sl_cdp :: str
  sl_live :: str
  sl_recording :: "str option"

type_synonym nonces = "string \<Rightarrow> bytes"

definition seal_field :: "secret_box \<Rightarrow> nonces \<Rightarrow> str \<Rightarrow> str \<Rightarrow> string \<Rightarrow> str \<Rightarrow> store_error + str" where
  "seal_field box nonce org_id session_id field text =
     map_err SCrypto (seal_for box (nonce field) (session_secret_context org_id session_id (lit field)) text)"

definition open_field :: "secret_box \<Rightarrow> str \<Rightarrow> str \<Rightarrow> string \<Rightarrow> str \<Rightarrow> store_error + str" where
  "open_field box org_id session_id field envelope =
     map_err SCrypto (open_for box (session_secret_context org_id session_id (lit field)) envelope)"

definition optE :: "('a \<Rightarrow> store_error + 'b) \<Rightarrow> 'a option \<Rightarrow> store_error + 'b option" where
  "optE f x = (case x of None \<Rightarrow> Inr None | Some y \<Rightarrow> tryE (f y) (\<lambda>z. Inr (Some z)))"

definition seal_provider ::
  "secret_box \<Rightarrow> nonces \<Rightarrow> str \<Rightarrow> str \<Rightarrow> provider_session \<Rightarrow> store_error + sealed_urls" where
  "seal_provider box nonce org_id session_id provider =
     tryE (seal_field box nonce org_id session_id ''provider-cdp-url'' (pv_cdp_url provider)) (\<lambda>cdp.
     tryE (seal_field box nonce org_id session_id ''provider-live-url'' (pv_live_url provider)) (\<lambda>live.
     tryE (optE (seal_field box nonce org_id session_id ''provider-recording-url'')
             (pv_recording_url provider)) (\<lambda>recording.
       Inr \<lparr>sl_cdp = cdp, sl_live = live, sl_recording = recording\<rparr>)))"

definition runtime_from_row :: "secret_box \<Rightarrow> str \<Rightarrow> str \<Rightarrow> session_row \<Rightarrow> store_error + provider_runtime" where
  "runtime_from_row box org_id session_id row =
     tryE (ok_or (SCorrupt ''session'' ''active session has no provider session ID'')
             (se_provider_session_id row)) (\<lambda>provider_id.
     tryE (ok_or (SCorrupt ''session'' ''active session has no CDP URL'') (se_cdp_url_enc row)) (\<lambda>cdp_enc.
     tryE (open_field box org_id session_id ''provider-cdp-url'' cdp_enc) (\<lambda>cdp.
     tryE (ok_or (SCorrupt ''session'' ''active session has no live URL'') (se_live_url_enc row)) (\<lambda>live_enc.
     tryE (open_field box org_id session_id ''provider-live-url'' live_enc) (\<lambda>live.
     tryE (optE (open_field box org_id session_id ''provider-recording-url'') (se_recording_url_enc row))
       (\<lambda>recording.
       Inr \<lparr>rt_provider_session_id = provider_id, rt_cdp_url = cdp, rt_live_url = live,
            rt_recording_url = recording\<rparr>))))))"

section \<open>Reads\<close>

definition find_session :: "str \<Rightarrow> str \<Rightarrow> db \<Rightarrow> session_row option" where
  "find_session org_id session_id db =
     select_one (\<lambda>s. se_org_id s = org_id \<and> se_id s = session_id) (db_sessions db)"

definition session_row_of :: "str \<Rightarrow> str \<Rightarrow> (db, session_row) st" where
  "session_row_of org_id session_id =
     readS (\<lambda>db. ok_or (SNotFound ''session'' session_id) (find_session org_id session_id db))"

definition profile_location :: "session_row \<Rightarrow> db \<Rightarrow> str option" where
  "profile_location row db =
     (case se_profile_id row of
        None \<Rightarrow> None
      | Some p \<Rightarrow> map_option pr_location (select_one (\<lambda>r. pr_id r = p) (db_profiles db)))"

fun public_status :: "session_state \<Rightarrow> session_status" where
  "public_status Starting = SActive"
| "public_status Active = SActive"
| "public_status Ending = SActive"
| "public_status Ended = SEnded"
| "public_status Failed = SEnded"
| "public_status Expired = SExpired"

definition map_session_model ::
  "session_row \<Rightarrow> str option \<Rightarrow> str list \<Rightarrow> usage \<Rightarrow> store_error + session" where
  "map_session_model row location participants u =
     tryE (ttl_from_dates (se_started_at row) (se_expires_at row)) (\<lambda>ttl.
     tryE (usage_total_of [u]) (\<lambda>t.
       Inr \<lparr>s_id = se_id row, s_profile_id = se_profile_id row, s_incognito = (se_profile_id row = None),
         s_location = map_option proxy_location_of location, s_name = se_name row,
         s_description = se_description row, s_status = public_status (se_status row),
         s_initiator_id = se_started_by row, s_participant_ids = participants, s_ttl = ttl,
         s_started_at = parse_timestamp (se_started_at row),
         s_expires_at = parse_timestamp (se_expires_at row),
         s_ended_at = map_option parse_timestamp (se_ended_at row), s_end_note = se_end_note row,
         s_usage = t\<rparr>))"

definition map_session :: "session_row \<Rightarrow> (db, session) st" where
  "map_session row =
     bindS (usage_unchecked (se_id row)) (\<lambda>u.
       readS (\<lambda>db. map_session_model row (profile_location row db) (participant_ids (se_id row) db) u))"

definition session_unchecked :: "str \<Rightarrow> str \<Rightarrow> (db, session) st" where
  "session_unchecked org_id session_id = bindS (session_row_of org_id session_id) map_session"

definition is_session_actor :: "str \<Rightarrow> str \<Rightarrow> db \<Rightarrow> bool" where
  "is_session_actor session_id actor db \<longleftrightarrow>
     list_ex (\<lambda>p. pt_session_id p = session_id \<and> pt_actor_id p = actor) (db_participants db)"

definition session_visible :: "session_row \<Rightarrow> identity \<Rightarrow> db \<Rightarrow> bool" where
  "session_visible row viewer db \<longleftrightarrow>
     list_ex (\<lambda>p. is_session_actor (se_id row) p db) (principal_ids viewer) \<or>
     (case se_profile_id row of
        None \<Rightarrow> False
      | Some pid \<Rightarrow>
          (case select_one (\<lambda>r. pr_id r = pid) (db_profiles db) of
             None \<Rightarrow> False
           | Some p \<Rightarrow> allows (pr_access p) viewer))"

definition session_get :: "str \<Rightarrow> identity \<Rightarrow> str \<Rightarrow> (db, session) st" where
  "session_get org_id viewer session_id =
     bindS (session_row_of org_id session_id) (\<lambda>row.
     bindS (readS (\<lambda>db. Inr (session_visible row viewer db))) (\<lambda>visible.
       if \<not> visible then errS (SNotFound ''session'' session_id) else map_session row))"

definition store_live_link :: "secret_box \<Rightarrow> str \<Rightarrow> identity \<Rightarrow> str \<Rightarrow> (db, live_link) st" where
  "store_live_link box org_id viewer session_id =
     bindS (session_get org_id viewer session_id) (\<lambda>s.
       if s_status s \<noteq> SActive then errS (SSessionState session_id
            (case s_status s of SActive \<Rightarrow> ''Active'' | SEnded \<Rightarrow> ''Ended'' | SExpired \<Rightarrow> ''Expired''))
       else
       bindS (readS (\<lambda>db. ok_or (SCorrupt ''session'' ''active session has no live URL'')
                (Option.bind (find_session org_id session_id db) se_live_url_enc))) (\<lambda>encrypted.
       bindS (liftS (open_field box org_id session_id ''provider-live-url'' encrypted)) (\<lambda>url.
         okS \<lparr>ll_session_id = session_id, ll_url = url, ll_expires_at = s_expires_at s\<rparr>)))"

definition get_provider_runtime :: "secret_box \<Rightarrow> str \<Rightarrow> identity \<Rightarrow> str \<Rightarrow> (db, provider_runtime) st" where
  "get_provider_runtime box org_id viewer session_id =
     bindS (session_get org_id viewer session_id) (\<lambda>_.
     bindS (session_row_of org_id session_id) (\<lambda>row.
       if se_status row \<noteq> Active
       then errS (SSessionState session_id (session_state_text (se_status row)))
       else liftS (runtime_from_row box org_id session_id row)))"

text \<open>The current access list of an active profile, or a participant of an incognito session.\<close>

definition connection_authorized :: "identity \<Rightarrow> session_row \<Rightarrow> db \<Rightarrow> bool" where
  "connection_authorized actor row db \<longleftrightarrow>
     (case se_profile_id row of
        Some pid \<Rightarrow>
          (case select_one (\<lambda>p. pr_id p = pid \<and> pr_org_id p = se_org_id row) (db_profiles db) of
             None \<Rightarrow> False
           | Some p \<Rightarrow> pr_status p = ProfileActive \<and> allows (pr_access p) actor)
      | None \<Rightarrow> list_ex (\<lambda>i. is_session_actor (se_id row) i db) (principal_ids actor))"

definition connection_runtime ::
  "secret_box \<Rightarrow> str \<Rightarrow> identity \<Rightarrow> str \<Rightarrow> instant \<Rightarrow> (db, provider_runtime \<times> instant) st" where
  "connection_runtime box org actor session_id now =
     atomically (
     bindS (session_row_of org session_id) (\<lambda>row.
     bindS (readS (\<lambda>db. Inr (connection_authorized actor row db))) (\<lambda>authorized.
     if \<not> authorized then errS (SNotFound ''session'' session_id)
     else
       let expires_at = parse_timestamp (se_expires_at row) in
       if se_status row \<noteq> Active \<or> expires_at \<le> now
       then errS (SSessionState session_id (session_state_text (se_status row)))
       else bindS (liftS (runtime_from_row box org session_id row)) (\<lambda>runtime.
              okS (runtime, expires_at)))))"

section \<open>Reservation\<close>

definition profile_busy :: "str \<Rightarrow> str \<Rightarrow> db \<Rightarrow> store_error option" where
  "profile_busy org_id profile_id db =
     map_option (\<lambda>s. SProfileBusy profile_id (se_id s) (se_started_by s) (parse_timestamp (se_expires_at s)))
       (select_one (\<lambda>s. se_org_id s = org_id \<and> se_profile_id s = Some profile_id \<and> is_live s)
          (db_sessions db))"

definition reserved_row ::
  "str \<Rightarrow> str \<Rightarrow> identity \<Rightarrow> session_create \<Rightarrow> instant \<Rightarrow> session_row" where
  "reserved_row fresh org_id initiator request now =
     \<lparr>se_id = fresh, se_org_id = org_id, se_profile_id = sc_profile_id request,
      se_provider_session_id = None, se_started_by = i_id initiator, se_started_by_kind = i_kind initiator,
      se_name = trim (sc_name request), se_description = trim (sc_description request),
      se_status = Starting, se_started_at = timestamp now,
      se_expires_at = timestamp (now + ttl_seconds (sc_ttl request) * NANOS_PER_SECOND),
      se_ended_at = None, se_end_note = None, se_cdp_url_enc = None, se_live_url_enc = None,
      se_recording_url_enc = None, se_stop_lease_id = None, se_stop_lease_until = None\<rparr>"

definition profile_ready :: "str \<Rightarrow> identity \<Rightarrow> str \<Rightarrow> (db, unit) st" where
  "profile_ready org_id initiator profile_id =
     bindS (profile_row_of org_id profile_id) (\<lambda>row.
       if pr_status row = ProfileEnded \<or> pr_status row = ProfileFailed
       then errS (SProfileRetired profile_id)
       else if pr_status row \<noteq> ProfileActive
       then errS (SInvalid (''profile is not ready ('' @ profile_state_text (pr_status row) @ '')''))
       else if \<not> allows (pr_access row) initiator then errS (SNotFound ''profile'' profile_id)
       else okS ())"

text \<open>The four inserts of the reservation; a violated key is reported after the rollback.\<close>

definition insert_session :: "str \<Rightarrow> session_create \<Rightarrow> session_row \<Rightarrow> (db, unit) st" where
  "insert_session org_id request row db =
     (case write_sessions (db_sessions db @ [row]) db of
        (Inl e, _) \<Rightarrow>
          (case (if e = SDatabase UniqueViolation
                 then Option.bind (sc_profile_id request) (\<lambda>pid. profile_busy org_id pid db) else None) of
             Some busy \<Rightarrow> (Inl busy, db)
           | None \<Rightarrow> (Inl e, db))
      | (Inr x, db') \<Rightarrow> (Inr x, db'))"

definition insert_session_side_rows :: "session_create \<Rightarrow> session_row \<Rightarrow> db \<Rightarrow> db" where
  "insert_session_side_rows request row db =
     db\<lparr>db_participants := db_participants db @
          [\<lparr>pt_session_id = se_id row, pt_actor_id = se_started_by row, pt_role = Initiator,
            pt_first_seen_at = se_started_at row\<rparr>],
        db_recordings := db_recordings db @
          [\<lparr>re_session_id = se_id row, re_owner_id = se_started_by row, re_status = RecRecording,
            re_artifact_path = [], re_briefcase_url_enc = None, re_duration_ms = None, re_size_bytes = None,
            re_trashed_at = None, re_purge_after = None\<rparr>],
        db_usage := db_usage db @
          (let proxy_counter = (case sc_profile_id request of Some _ \<Rightarrow> Some 0 | None \<Rightarrow> None) in
          [\<lparr>us_session_id = se_id row, us_browser_millis = 0, us_proxy_bytes_in = proxy_counter,
            us_proxy_bytes_out = proxy_counter, us_proxy_bytes_unclassified = proxy_counter,
            us_browser_cost = lit ''0'', us_proxy_cost = lit ''0'', us_currency = lit ''USD'',
            us_sampled_at = se_started_at row\<rparr>])\<rparr>"

definition reserve_session ::
  "str \<Rightarrow> str \<Rightarrow> identity \<Rightarrow> session_create \<Rightarrow> instant \<Rightarrow> (db, session) st" where
  "reserve_session fresh org_id initiator request now =
     bindS (liftS (map_err SInvalidField (session_create_validate request))) (\<lambda>_.
     bindS (liftS (safe_id org_id ''org_id'')) (\<lambda>_.
     bindS (liftS (safe_id (i_id initiator) ''initiator_id'')) (\<lambda>_.
     if length (sc_name request) > 120
     then errS (SInvalid ''session name must contain at most 120 characters'')
     else if length (sc_description request) > 2000
     then errS (SInvalid ''session description must contain at most 2000 characters'')
     else
     bindS (atomically (
       bindS (case sc_profile_id request of
                Some profile_id \<Rightarrow> profile_ready org_id initiator profile_id
              | None \<Rightarrow> okS ()) (\<lambda>_.
       let row = reserved_row fresh org_id initiator request now in
       bindS (insert_session org_id request row) (\<lambda>_.
         modifyS (insert_session_side_rows request row))))) (\<lambda>_.
     session_unchecked org_id fresh))))"

section \<open>Activation and retention\<close>

definition activate_session ::
  "secret_box \<Rightarrow> nonces \<Rightarrow> str \<Rightarrow> str \<Rightarrow> provider_session \<Rightarrow> instant \<Rightarrow> (db, session) st" where
  "activate_session box nonce org_id session_id provider now =
     bindS (liftS (safe_id (pv_id provider) ''provider_session_id'')) (\<lambda>_.
     bindS (liftS (required_text (pv_cdp_url provider) ''provider.cdp_url'')) (\<lambda>_.
     bindS (liftS (required_text (pv_live_url provider) ''provider.live_url'')) (\<lambda>_.
     bindS (liftS (seal_provider box nonce org_id session_id provider)) (\<lambda>urls.
     bindS (update_sessions
       (\<lambda>s. se_org_id s = org_id \<and> se_id s = session_id \<and> se_status s = Starting \<and>
            se_expires_at s > timestamp now)
       (\<lambda>s. s\<lparr>se_status := Active, se_provider_session_id := Some (pv_id provider),
              se_cdp_url_enc := Some (sl_cdp urls), se_live_url_enc := Some (sl_live urls),
              se_recording_url_enc := sl_recording urls\<rparr>)) (\<lambda>rows.
     if rows \<noteq> 0 then session_unchecked org_id session_id
     else
     bindS (session_row_of org_id session_id) (\<lambda>row.
       if parse_timestamp (se_expires_at row) \<le> now \<and> is_live row
       then
         bindS (update_sessions
           (\<lambda>s. se_org_id s = org_id \<and> se_id s = session_id \<and> se_status s = Starting)
           (\<lambda>s. s\<lparr>se_status := Ending, se_end_note := Some (lit ''ttl reached''),
                  se_provider_session_id := Some (pv_id provider),
                  se_cdp_url_enc := Some (sl_cdp urls), se_live_url_enc := Some (sl_live urls),
                  se_recording_url_enc := sl_recording urls\<rparr>)) (\<lambda>_.
           errS (SSessionState session_id ''ending''))
       else errS (SSessionState session_id (session_state_text (se_status row)))))))))"

definition retain_session_runtime ::
  "secret_box \<Rightarrow> nonces \<Rightarrow> str \<Rightarrow> str \<Rightarrow> provider_session \<Rightarrow> str \<Rightarrow> (db, unit) st" where
  "retain_session_runtime box nonce org_id session_id provider reason =
     bindS (liftS (safe_id org_id ''org_id'')) (\<lambda>_.
     bindS (liftS (safe_id session_id ''session_id'')) (\<lambda>_.
     bindS (liftS (safe_id (pv_id provider) ''provider_session_id'')) (\<lambda>_.
     bindS (liftS (required_text (pv_cdp_url provider) ''provider.cdp_url'')) (\<lambda>_.
     bindS (liftS (required_text (pv_live_url provider) ''provider.live_url'')) (\<lambda>_.
     bindS (liftS (required_text reason ''reason'')) (\<lambda>_.
     bindS (liftS (seal_provider box nonce org_id session_id provider)) (\<lambda>urls.
     bindS (update_sessions
       (\<lambda>s. se_org_id s = org_id \<and> se_id s = session_id \<and> is_live s \<and>
            (se_provider_session_id s = None \<or> se_provider_session_id s = Some (pv_id provider)))
       (\<lambda>s. s\<lparr>se_status := Ending, se_end_note := coalesce (se_end_note s) (Some (trim reason)),
              se_provider_session_id := coalesce (se_provider_session_id s) (Some (pv_id provider)),
              se_cdp_url_enc := coalesce (se_cdp_url_enc s) (Some (sl_cdp urls)),
              se_live_url_enc := coalesce (se_live_url_enc s) (Some (sl_live urls)),
              se_recording_url_enc := coalesce (se_recording_url_enc s) (sl_recording urls)\<rparr>)) (\<lambda>rows.
     if rows \<noteq> 0 then okS ()
     else
     bindS (session_row_of org_id session_id) (\<lambda>row.
       if (case se_provider_session_id row of Some existing \<Rightarrow> existing \<noteq> pv_id provider | None \<Rightarrow> False)
       then errS (SCorrupt ''session'' ''provider session identity changed during activation recovery'')
       else errS (SSessionState session_id (session_state_text (se_status row))))))))))))"

section \<open>Failure\<close>

definition fail_recording_of :: "str \<Rightarrow> (db, nat) st" where
  "fail_recording_of session_id =
     update_recordings (\<lambda>_ r. re_session_id r = session_id \<and> re_status r = RecRecording)
       (\<lambda>r. r\<lparr>re_status := RecFailed\<rparr>)"

definition pend_recording_of :: "str \<Rightarrow> (db, nat) st" where
  "pend_recording_of session_id =
     update_recordings (\<lambda>_ r. re_session_id r = session_id \<and> re_status r = RecRecording)
       (\<lambda>r. r\<lparr>re_status := RecPending\<rparr>)"

definition fail_session :: "str \<Rightarrow> str \<Rightarrow> str \<Rightarrow> instant \<Rightarrow> (db, session) st" where
  "fail_session org_id session_id reason now =
     bindS (liftS (required_text reason ''reason'')) (\<lambda>_.
     bindS (atomically (
       bindS (update_sessions
         (\<lambda>s. se_org_id s = org_id \<and> se_id s = session_id \<and> is_live s)
         (\<lambda>s. s\<lparr>se_status := Failed, se_ended_at := Some (timestamp now),
                se_end_note := Some (trim reason)\<rparr>)) (\<lambda>rows.
       if rows \<noteq> 0 then bindS (fail_recording_of session_id) (\<lambda>_. okS ()) else okS ()))) (\<lambda>_.
     session_unchecked org_id session_id))"

definition pending_outbox :: "outbox_kind \<Rightarrow> str \<Rightarrow> str \<Rightarrow> instant \<Rightarrow> instant \<Rightarrow> outbox_row" where
  "pending_outbox kind org_id session_id first_attempt now =
     \<lparr>ob_kind = kind, ob_session_id = session_id, ob_org_id = org_id, ob_attempts = 0,
      ob_next_attempt_at = timestamp first_attempt, ob_created_at = timestamp now, ob_done_at = None\<rparr>"

definition RECORDING_SOURCE_INITIAL_DELAY :: int where
  "RECORDING_SOURCE_INITIAL_DELAY = 15 * NANOS_PER_SECOND"

record failed_finalization =
  ff_provider_session_id :: str
  ff_reason :: str
  ff_duration_ms :: nat
  ff_has_recording_source :: bool
  ff_at :: instant

definition finalize_failed_session_after_stop ::
  "str \<Rightarrow> str \<Rightarrow> failed_finalization \<Rightarrow> (db, session) st" where
  "finalize_failed_session_after_stop org_id session_id f =
     bindS (liftS (safe_id (ff_provider_session_id f) ''provider_session_id'')) (\<lambda>_.
     bindS (liftS (required_text (ff_reason f) ''reason'')) (\<lambda>_.
     bindS (atomically (
       bindS (update_sessions
         (\<lambda>s. se_org_id s = org_id \<and> se_id s = session_id \<and> is_live s \<and>
              (se_provider_session_id s = None \<or>
               se_provider_session_id s = Some (ff_provider_session_id f)))
         (\<lambda>s. s\<lparr>se_status := Failed, se_ended_at := Some (timestamp (ff_at f)),
                se_end_note := Some (trim (ff_reason f)),
                se_provider_session_id :=
                  coalesce (se_provider_session_id s) (Some (ff_provider_session_id f))\<rparr>)) (\<lambda>rows.
       bindS (if rows \<noteq> 0 then okS ()
              else
              bindS (session_row_of org_id session_id) (\<lambda>row.
                if (case se_provider_session_id row of
                      Some stored \<Rightarrow> stored \<noteq> ff_provider_session_id f | None \<Rightarrow> False)
                then errS (SCorrupt ''session'' ''provider session identity changed during stop finalization'')
                else if se_status row = Failed then okS ()
                else errS (SSessionState session_id (session_state_text (se_status row))))) (\<lambda>_.
       bindS (liftS (to_i64 (ff_duration_ms f) ''recording.duration_ms'')) (\<lambda>duration.
       bindS (update_recordings
         (\<lambda>_ r. re_session_id r = session_id \<and> (re_status r = RecRecording \<or> re_status r = RecPending))
         (\<lambda>r. r\<lparr>re_status := RecPending, re_duration_ms := Some duration,
                re_size_bytes := coalesce (re_size_bytes r) (Some 0)\<rparr>)) (\<lambda>_.
       if ff_has_recording_source f
       then insert_outbox (pending_outbox StoreEvent org_id session_id (ff_at f) (ff_at f))
       else insert_outbox (pending_outbox ResolveEvent org_id session_id
              (ff_at f + RECORDING_SOURCE_INITIAL_DELAY) (ff_at f)))))))) (\<lambda>_.
     session_unchecked org_id session_id)))"

section \<open>Participants\<close>

definition associate_participant ::
  "str \<Rightarrow> str \<Rightarrow> str \<Rightarrow> participant_role \<Rightarrow> instant \<Rightarrow> (db, bool) st" where
  "associate_participant org_id session_id actor role now =
     bindS (liftS (safe_id actor ''actor_id'')) (\<lambda>_.
     atomically (
     bindS (session_row_of org_id session_id) (\<lambda>row.
       let expires_at = parse_timestamp (se_expires_at row) in
       if se_status row \<noteq> Active \<or> expires_at \<le> now
       then errS (SSessionState session_id
              (if expires_at \<le> now then ''expired'' else session_state_text (se_status row)))
       else (\<lambda>db.
         if \<exists>p \<in> set (db_participants db).
              pt_session_id p = session_id \<and> pt_actor_id p = actor \<and> pt_role p = role
         then (Inr False, db)
         else (Inr True, db\<lparr>db_participants := db_participants db @
                [\<lparr>pt_session_id = session_id, pt_actor_id = actor, pt_role = role,
                  pt_first_seen_at = timestamp now\<rparr>]\<rparr>)))))"

section \<open>Ending\<close>

definition begin_end_session ::
  "secret_box \<Rightarrow> str \<Rightarrow> identity \<Rightarrow> str \<Rightarrow> str \<Rightarrow> (db, provider_runtime) st" where
  "begin_end_session box org_id actor session_id note =
     bindS (liftS (map_err SInvalidField (session_end_validate note))) (\<lambda>_.
     bindS (session_get org_id actor session_id) (\<lambda>_.
     bindS (update_sessions
       (\<lambda>s. se_org_id s = org_id \<and> se_id s = session_id \<and> se_status s = Active)
       (\<lambda>s. s\<lparr>se_status := Ending, se_end_note := Some (trim note)\<rparr>)) (\<lambda>_.
     bindS (session_row_of org_id session_id) (\<lambda>row.
       if se_status row \<noteq> Ending
       then errS (SSessionState session_id (session_state_text (se_status row)))
       else liftS (runtime_from_row box org_id session_id row)))))"

definition finalize_end_session :: "str \<Rightarrow> str \<Rightarrow> instant \<Rightarrow> (db, session) st" where
  "finalize_end_session org_id session_id now =
     bindS (atomically (
       bindS (update_sessions
         (\<lambda>s. se_org_id s = org_id \<and> se_id s = session_id \<and> se_status s = Ending)
         (\<lambda>s. s\<lparr>se_status := Ended, se_ended_at := Some (timestamp now)\<rparr>)) (\<lambda>rows.
       bindS (if rows \<noteq> 0 then okS ()
              else
              bindS (session_row_of org_id session_id) (\<lambda>row.
                if se_status row = Ended then okS ()
                else errS (SSessionState session_id (session_state_text (se_status row))))) (\<lambda>_.
         pend_recording_of session_id)))) (\<lambda>_.
     session_unchecked org_id session_id)"

section \<open>Expiry\<close>

record expiring_session =
  ex_org_id :: str
  ex_session_id :: str
  ex_incognito :: bool
  ex_started_at :: instant
  ex_lease_id :: str
  ex_runtime :: provider_runtime

definition due_starting :: "instant \<Rightarrow> session_row \<Rightarrow> bool" where
  "due_starting now s \<longleftrightarrow> se_status s = Starting \<and> se_expires_at s \<le> timestamp now"

definition claimable :: "instant \<Rightarrow> session_row \<Rightarrow> bool" where
  "claimable now s \<longleftrightarrow>
     se_status s = Ending \<and> se_expires_at s \<le> timestamp now \<and> se_provider_session_id s \<noteq> None \<and>
     (case se_stop_lease_until s of None \<Rightarrow> True | Some t \<Rightarrow> t \<le> timestamp now)"

definition claim_selection :: "instant \<Rightarrow> nat \<Rightarrow> session_row list \<Rightarrow> str list" where
  "claim_selection now limit rows =
     map se_id (take limit (sort_key (\<lambda>s. (se_expires_at s, se_id s)) (filter (claimable now) rows)))"

definition expiring_of :: "secret_box \<Rightarrow> str \<Rightarrow> session_row \<Rightarrow> store_error + expiring_session" where
  "expiring_of box lease s =
     tryE (runtime_from_row box (se_org_id s) (se_id s) s) (\<lambda>runtime.
       Inr \<lparr>ex_org_id = se_org_id s, ex_session_id = se_id s, ex_incognito = (se_profile_id s = None),
         ex_started_at = parse_timestamp (se_started_at s), ex_lease_id = lease, ex_runtime = runtime\<rparr>)"

definition claim_expired_sessions ::
  "secret_box \<Rightarrow> str \<Rightarrow> instant \<Rightarrow> instant \<Rightarrow> nat \<Rightarrow> (db, expiring_session list) st" where
  "claim_expired_sessions box lease now lease_until limit =
     (if limit = 0 \<or> limit > 100
      then errS (SInvalid ''expired-session claim limit must be between 1 and 100'')
      else if lease_until \<le> now
      then errS (SInvalid ''expired-session lease must end in the future'')
      else
      bindS (atomically (
        bindS (readS (\<lambda>db. Inr (map se_id (filter (due_starting now) (db_sessions db))))) (\<lambda>starting.
        bindS (update_sessions (due_starting now)
          (\<lambda>s. s\<lparr>se_status := Expired, se_ended_at := Some (timestamp now),
                 se_end_note := Some (lit ''ttl reached'')\<rparr>)) (\<lambda>_.
        bindS (update_recordings
          (\<lambda>_ r. re_session_id r \<in> set starting \<and> re_status r = RecRecording)
          (\<lambda>r. r\<lparr>re_status := RecFailed\<rparr>)) (\<lambda>_.
        bindS (update_sessions (\<lambda>s. se_status s = Active \<and> se_expires_at s \<le> timestamp now)
          (\<lambda>s. s\<lparr>se_status := Ending,
                 se_end_note := coalesce (se_end_note s) (Some (lit ''ttl reached''))\<rparr>)) (\<lambda>_.
        bindS (readS (\<lambda>db. Inr (claim_selection now limit (db_sessions db)))) (\<lambda>chosen.
        bindS (update_sessions (\<lambda>s. se_id s \<in> set chosen)
          (\<lambda>s. s\<lparr>se_stop_lease_id := Some lease, se_stop_lease_until := Some (timestamp lease_until)\<rparr>)) (\<lambda>_.
          readS (\<lambda>db. Inr (filter (\<lambda>s. se_id s \<in> set chosen) (db_sessions db))))))))))) (\<lambda>rows.
      liftS (traverseE (expiring_of box lease) rows)))"

definition finalize_expired_session :: "str \<Rightarrow> str \<Rightarrow> str \<Rightarrow> instant \<Rightarrow> (db, unit) st" where
  "finalize_expired_session org_id session_id lease now =
     atomically (
       bindS (update_sessions
         (\<lambda>s. se_org_id s = org_id \<and> se_id s = session_id \<and> se_status s = Ending \<and>
              se_expires_at s \<le> timestamp now \<and> se_stop_lease_id s = Some lease)
         (\<lambda>s. s\<lparr>se_status := Expired, se_ended_at := Some (timestamp now),
                se_end_note := Some (lit ''ttl reached'')\<rparr>)) (\<lambda>rows.
       bindS (if rows \<noteq> 0 then okS ()
              else
              bindS (session_row_of org_id session_id) (\<lambda>row.
                if se_status row = Expired then okS ()
                else errS (SSessionState session_id (session_state_text (se_status row))))) (\<lambda>_.
       bindS (pend_recording_of session_id) (\<lambda>_. okS ()))))"

definition expired_claim_is_current :: "str \<Rightarrow> str \<Rightarrow> str \<Rightarrow> instant \<Rightarrow> (db, bool) st" where
  "expired_claim_is_current org_id session_id lease now =
     readS (\<lambda>db. Inr (list_ex
       (\<lambda>s. se_org_id s = org_id \<and> se_id s = session_id \<and> se_status s = Ending \<and>
            se_stop_lease_id s = Some lease \<and>
            (case se_stop_lease_until s of None \<Rightarrow> False | Some t \<Rightarrow> t > timestamp now))
       (db_sessions db)))"

definition release_expired_claim :: "str \<Rightarrow> str \<Rightarrow> str \<Rightarrow> (db, unit) st" where
  "release_expired_claim org_id session_id lease =
     bindS (update_sessions
       (\<lambda>s. se_org_id s = org_id \<and> se_id s = session_id \<and> se_stop_lease_id s = Some lease)
       (\<lambda>s. s\<lparr>se_stop_lease_id := None, se_stop_lease_until := None\<rparr>)) (\<lambda>_. okS ())"

definition remember_provider_recording_url ::
  "secret_box \<Rightarrow> nonces \<Rightarrow> str \<Rightarrow> str \<Rightarrow> str \<Rightarrow> (db, unit) st" where
  "remember_provider_recording_url box nonce org_id session_id recording_url =
     bindS (liftS (required_text recording_url ''recording_url'')) (\<lambda>_.
     bindS (liftS (seal_field box nonce org_id session_id ''provider-recording-url'' recording_url)) (\<lambda>encrypted.
     bindS (update_sessions (\<lambda>s. se_org_id s = org_id \<and> se_id s = session_id)
       (\<lambda>s. s\<lparr>se_recording_url_enc := Some encrypted\<rparr>)) (\<lambda>rows.
       if rows = 0 then errS (SNotFound ''session'' session_id) else okS ())))"

end
