(* ===== verification/SB_Recordings.thy ===== *)
theory SB_Recordings
  imports SB_Sessions
begin

text \<open>
  Recordings of the store (\<open>src/crates/backend/src/store.rs\<close>): the durable outbox of lookups
  for a provider's recording URL, their leases and compare-and-swap completion, the terminal and
  trash transitions, and the public projection of a recording row. The table of the retired
  artifact delivery is a parameter: the diagnostic of a session's video, where one is stored.
\<close>

section \<open>Reads\<close>

definition find_recording :: "str \<Rightarrow> str \<Rightarrow> db \<Rightarrow> (recording_row \<times> session_row) option" where
  "find_recording org_id session_id db =
     (case select_one (\<lambda>s. se_org_id s = org_id \<and> se_id s = session_id) (db_sessions db) of
        None \<Rightarrow> None
      | Some s \<Rightarrow> map_option (\<lambda>r. (r, s))
          (select_one (\<lambda>r. re_session_id r = session_id) (db_recordings db)))"

text \<open>The check on a native link before it is offered.\<close>

definition native_link_ok :: "url_parser \<Rightarrow> str \<Rightarrow> bool" where
  "native_link_ok parse value =
     (case parse value of
        Inl _ \<Rightarrow> False
      | Inr u \<Rightarrow> url_scheme u = lit ''https'' \<and> url_username u = [] \<and> url_password u = None \<and>
                 \<not> has_forbidden_host u)"

definition public_recording_status :: "recording_state \<Rightarrow> bool \<Rightarrow> recording_status" where
  "public_recording_status s native_available =
     (case s of
        RecPending \<Rightarrow> if native_available then RAvailable else RPending
      | RecRecording \<Rightarrow> RPending
      | RecAvailable \<Rightarrow> RAvailable
      | RecTrashed \<Rightarrow> RTrashed
      | RecFailed \<Rightarrow> RFailed)"

definition recording_unchecked ::
  "url_parser \<Rightarrow> (str \<Rightarrow> str option) \<Rightarrow> secret_box option \<Rightarrow> str \<Rightarrow> str \<Rightarrow> (db, recording) st" where
  "recording_unchecked parse video_error secrets org_id session_id =
     readS (\<lambda>db.
       tryE (ok_or (SNotFound ''recording'' session_id) (find_recording org_id session_id db)) (\<lambda>(r, s).
       tryE (if re_status r = RecTrashed then Inr None
             else optE (\<lambda>e. tryE (ok_or (SCorrupt ''recording'' ''encrypted Briefcase link requires SecretBox'') secrets)
                         (\<lambda>box. open_field box org_id session_id ''briefcase-url'' e))
                    (re_briefcase_url_enc r)) (\<lambda>link.
       tryE (if org_id = lit ''browser'' \<and> re_status r \<noteq> RecTrashed \<and> secrets \<noteq> None
             then optE (\<lambda>e. tryE (ok_or (SCorrupt ''recording'' ''encrypted recording link requires SecretBox'') secrets)
                         (\<lambda>box. open_field box org_id session_id ''provider-recording-url'' e))
                    (se_recording_url_enc s)
             else Inr None) (\<lambda>opened.
       let native_link = (case opened of Some l \<Rightarrow> if native_link_ok parse l then Some l else None | None \<Rightarrow> None);
           native_available = (native_link \<noteq> None)
       in
       tryE (nonnegative (case re_duration_ms r of Some d \<Rightarrow> d | None \<Rightarrow> 0) ''recording.duration_ms'') (\<lambda>duration.
       tryE (nonnegative (case re_size_bytes r of Some d \<Rightarrow> d | None \<Rightarrow> 0) ''recording.size_bytes'') (\<lambda>size.
         Inr \<lparr>r_session_id = session_id, r_profile_id = se_profile_id s,
           r_incognito = (se_profile_id s = None), r_session_name = se_name s,
           r_session_description = se_description s, r_owner_id = re_owner_id r,
           r_participant_ids = participant_ids session_id db,
           r_briefcase_path = (if re_briefcase_url_enc r \<noteq> None then re_artifact_path r else []),
           r_briefcase_link = coalesce link native_link,
           r_delivery_error = (if re_status r = RecTrashed then None else video_error session_id),
           r_duration_seconds = duration div 1000, r_size_bytes = size,
           r_status = public_recording_status (re_status r) native_available,
           r_created_at = parse_timestamp (se_started_at s),
           r_trashed_at = map_option parse_timestamp (re_trashed_at r),
           r_purge_at = map_option parse_timestamp (re_purge_after r)\<rparr>))))))"

definition recording_get ::
  "url_parser \<Rightarrow> (str \<Rightarrow> str option) \<Rightarrow> secret_box \<Rightarrow> str \<Rightarrow> identity \<Rightarrow> str \<Rightarrow> (db, recording) st" where
  "recording_get parse video_error box org_id viewer session_id =
     bindS (session_get org_id viewer session_id) (\<lambda>_.
       recording_unchecked parse video_error (Some box) org_id session_id)"

section \<open>Resolution of a recording's source\<close>

definition resolvable_recording :: "recording_row \<Rightarrow> bool" where
  "resolvable_recording r \<longleftrightarrow> re_status r = RecRecording \<or> re_status r = RecPending"

definition finished_state :: "session_state \<Rightarrow> bool" where
  "finished_state s \<longleftrightarrow> s = Ended \<or> s = Expired \<or> s = Failed"

definition queue_recording_source_resolution ::
  "url_parser \<Rightarrow> (str \<Rightarrow> str option) \<Rightarrow> str \<Rightarrow> str \<Rightarrow> nat \<Rightarrow> instant \<Rightarrow> (db, recording) st" where
  "queue_recording_source_resolution parse video_error org_id session_id duration_ms now =
     bindS (atomically (
       bindS (liftS (to_i64 duration_ms ''recording.duration_ms'')) (\<lambda>duration.
       bindS (update_recordings
         (\<lambda>db r. re_session_id r = session_id \<and> resolvable_recording r \<and>
            (\<exists>s \<in> set (db_sessions db). se_id s = re_session_id r \<and> se_org_id s = org_id \<and>
               (se_status s = Ending \<or> finished_state (se_status s)) \<and>
               se_provider_session_id s \<noteq> None \<and> se_recording_url_enc s = None))
         (\<lambda>r. r\<lparr>re_status := RecPending, re_duration_ms := Some duration,
                re_size_bytes := coalesce (re_size_bytes r) (Some 0)\<rparr>)) (\<lambda>rows.
       if rows = 0 then errS (SNotFound ''recording'' session_id)
       else insert_outbox (pending_outbox ResolveEvent org_id session_id
              (now + RECORDING_SOURCE_INITIAL_DELAY) now))))) (\<lambda>_.
     recording_unchecked parse video_error None org_id session_id)"

record source_claim =
  cl_org_id :: str
  cl_session_id :: str
  cl_provider_session_id :: str
  cl_attempt :: nat

definition claimable_event :: "db \<Rightarrow> instant \<Rightarrow> outbox_row \<Rightarrow> bool" where
  "claimable_event db now x \<longleftrightarrow>
     ob_kind x = ResolveEvent \<and> ob_done_at x = None \<and> ob_next_attempt_at x \<le> timestamp now \<and>
     (\<exists>s \<in> set (db_sessions db). se_id s = ob_session_id x \<and> se_provider_session_id s \<noteq> None \<and>
        se_recording_url_enc s = None \<and> finished_state (se_status s)) \<and>
     (\<exists>r \<in> set (db_recordings db). re_session_id r = ob_session_id x \<and>
        (resolvable_recording r \<or> re_status r = RecFailed))"

definition event_selection :: "db \<Rightarrow> instant \<Rightarrow> nat \<Rightarrow> str list" where
  "event_selection db now limit =
     map ob_session_id (take limit
       (sort_key (\<lambda>x. (ob_next_attempt_at x, ob_created_at x, ob_session_id x))
         (filter (claimable_event db now) (db_outbox db))))"

definition claim_of_event :: "db \<Rightarrow> outbox_row \<Rightarrow> store_error + source_claim" where
  "claim_of_event db x =
     tryE (guardE (0 \<le> ob_attempts x \<and> ob_attempts x < 2 ^ 32)
            (SCorrupt ''outbox'' ''recording resolution attempt is outside the supported range'')) (\<lambda>_.
     tryE (ok_or (SCorrupt ''outbox'' ''recording resolution has no matching session'')
            (select_one (\<lambda>s. se_id s = ob_session_id x) (db_sessions db))) (\<lambda>s.
     tryE (ok_or (SCorrupt ''session'' ''recording resolution has no provider session id'')
            (se_provider_session_id s)) (\<lambda>provider.
       Inr \<lparr>cl_org_id = se_org_id s, cl_session_id = se_id s, cl_provider_session_id = provider,
         cl_attempt = nat (ob_attempts x)\<rparr>)))"

definition claim_recording_source_resolutions ::
  "instant \<Rightarrow> instant \<Rightarrow> nat \<Rightarrow> (db, source_claim list) st" where
  "claim_recording_source_resolutions now lease_until limit =
     (if limit = 0 \<or> limit > 100
      then errS (SInvalid ''recording resolution claim limit must be between 1 and 100'')
      else if lease_until \<le> now
      then errS (SInvalid ''recording resolution lease must end in the future'')
      else atomically (
        bindS (readS (\<lambda>db. Inr (event_selection db now limit))) (\<lambda>chosen.
        bindS (update_outbox (\<lambda>x. ob_kind x = ResolveEvent \<and> ob_session_id x \<in> set chosen)
          (\<lambda>x. x\<lparr>ob_attempts := ob_attempts x + 1, ob_next_attempt_at := timestamp lease_until\<rparr>)) (\<lambda>_.
          readS (\<lambda>db. traverseE (claim_of_event db)
            (filter (\<lambda>x. ob_kind x = ResolveEvent \<and> ob_session_id x \<in> set chosen) (db_outbox db)))))))"

text \<open>The compare-and-swap on the attempt number that guards every worker's answer.\<close>

definition owns_event :: "source_claim \<Rightarrow> outbox_row \<Rightarrow> bool" where
  "owns_event claim x \<longleftrightarrow>
     ob_kind x = ResolveEvent \<and> ob_session_id x = cl_session_id claim \<and>
     ob_attempts x = int (cl_attempt claim) \<and> ob_done_at x = None"

definition reschedule_recording_source_resolution :: "source_claim \<Rightarrow> instant \<Rightarrow> (db, bool) st" where
  "reschedule_recording_source_resolution claim next_attempt_at =
     bindS (update_outbox (owns_event claim)
       (\<lambda>x. x\<lparr>ob_next_attempt_at := timestamp next_attempt_at\<rparr>)) (\<lambda>rows. okS (rows \<noteq> 0))"

definition complete_recording_source_resolution ::
  "secret_box \<Rightarrow> nonces \<Rightarrow> source_claim \<Rightarrow> str \<Rightarrow> instant \<Rightarrow> (db, bool) st" where
  "complete_recording_source_resolution box nonce claim recording_url now =
     bindS (liftS (required_text recording_url ''recording_url'')) (\<lambda>_.
     bindS (liftS (seal_field box nonce (cl_org_id claim) (cl_session_id claim)
                     ''provider-recording-url'' recording_url)) (\<lambda>encrypted.
     atomically (
       bindS (update_outbox (owns_event claim) (\<lambda>x. x\<lparr>ob_done_at := Some (timestamp now)\<rparr>)) (\<lambda>owned.
       if owned = 0 then okS False
       else
       bindS (readS (\<lambda>db.
         case select_one (\<lambda>s. se_org_id s = cl_org_id claim \<and> se_id s = cl_session_id claim \<and>
                se_provider_session_id s = Some (cl_provider_session_id claim) \<and>
                finished_state (se_status s)) (db_sessions db) of
           None \<Rightarrow> Inl (SCorrupt ''outbox'' ''recording resolution target changed'')
         | Some s \<Rightarrow>
             ok_or (SCorrupt ''outbox'' ''recording resolution target changed'')
               (map_option re_status
                 (select_one (\<lambda>r. re_session_id r = se_id s) (db_recordings db))))) (\<lambda>status.
       if status = RecTrashed then okS False
       else if status \<noteq> RecRecording \<and> status \<noteq> RecPending \<and> status \<noteq> RecFailed
       then errS (SCorrupt ''recording'' ''cannot resolve recording in this state'')
       else
       bindS (update_sessions
         (\<lambda>s. se_org_id s = cl_org_id claim \<and> se_id s = cl_session_id claim \<and>
              se_provider_session_id s = Some (cl_provider_session_id claim) \<and>
              se_recording_url_enc s = None)
         (\<lambda>s. s\<lparr>se_recording_url_enc := Some encrypted\<rparr>)) (\<lambda>_.
       bindS (update_recordings
         (\<lambda>_ r. re_session_id r = cl_session_id claim \<and> resolvable_recording r)
         (\<lambda>r. r\<lparr>re_status := RecPending\<rparr>)) (\<lambda>_.
       bindS (insert_outbox (pending_outbox StoreEvent (cl_org_id claim) (cl_session_id claim) now now)) (\<lambda>_.
         okS True))))))))"

definition fail_recording_source_resolution :: "source_claim \<Rightarrow> instant \<Rightarrow> (db, bool) st" where
  "fail_recording_source_resolution claim now =
     atomically (
       bindS (update_outbox (owns_event claim) (\<lambda>x. x\<lparr>ob_done_at := Some (timestamp now)\<rparr>)) (\<lambda>owned.
       if owned = 0 then okS False
       else
       bindS (update_recordings
         (\<lambda>db r. re_session_id r = cl_session_id claim \<and> resolvable_recording r \<and>
            (\<exists>s \<in> set (db_sessions db). se_id s = re_session_id r \<and> se_org_id s = cl_org_id claim \<and>
               se_provider_session_id s = Some (cl_provider_session_id claim) \<and>
               finished_state (se_status s)))
         (\<lambda>r. r\<lparr>re_status := RecFailed, re_size_bytes := coalesce (re_size_bytes r) (Some 0)\<rparr>)) (\<lambda>_.
         okS True)))"

section \<open>Pending, failed and trashed recordings\<close>

definition mark_recording_pending ::
  "url_parser \<Rightarrow> (str \<Rightarrow> str option) \<Rightarrow> str \<Rightarrow> str \<Rightarrow> nat \<Rightarrow> nat \<Rightarrow> instant \<Rightarrow> (db, recording) st" where
  "mark_recording_pending parse video_error org_id session_id duration_ms size_bytes now =
     bindS (atomically (
       bindS (liftS (to_i64 duration_ms ''recording.duration_ms'')) (\<lambda>duration.
       bindS (liftS (to_i64 size_bytes ''recording.size_bytes'')) (\<lambda>size.
       bindS (update_recordings
         (\<lambda>db r. re_session_id r = session_id \<and> resolvable_recording r \<and>
            (\<exists>s \<in> set (db_sessions db). se_id s = re_session_id r \<and> se_org_id s = org_id \<and>
               (se_status s = Ending \<or> finished_state (se_status s)) \<and> se_recording_url_enc s \<noteq> None))
         (\<lambda>r. r\<lparr>re_status := RecPending, re_duration_ms := Some duration, re_size_bytes := Some size\<rparr>)) (\<lambda>rows.
       if rows = 0 then errS (SNotFound ''recording'' session_id)
       else insert_outbox (pending_outbox StoreEvent org_id session_id now now)))))) (\<lambda>_.
     recording_unchecked parse video_error None org_id session_id)"

definition finish_event :: "outbox_kind \<Rightarrow> str \<Rightarrow> instant \<Rightarrow> (db, nat) st" where
  "finish_event kind session_id now =
     update_outbox (\<lambda>x. ob_kind x = kind \<and> ob_session_id x = session_id)
       (\<lambda>x. x\<lparr>ob_done_at := coalesce (ob_done_at x) (Some (timestamp now))\<rparr>)"

definition mark_recording_failed ::
  "url_parser \<Rightarrow> (str \<Rightarrow> str option) \<Rightarrow> str \<Rightarrow> str \<Rightarrow> nat \<Rightarrow> instant \<Rightarrow> (db, recording) st" where
  "mark_recording_failed parse video_error org_id session_id duration_ms now =
     bindS (atomically (
       bindS (liftS (to_i64 duration_ms ''recording.duration_ms'')) (\<lambda>duration.
       bindS (update_recordings
         (\<lambda>db r. re_session_id r = session_id \<and> resolvable_recording r \<and>
            (\<exists>s \<in> set (db_sessions db). se_id s = re_session_id r \<and> se_org_id s = org_id \<and>
               (se_status s = Ending \<or> finished_state (se_status s))))
         (\<lambda>r. r\<lparr>re_status := RecFailed, re_duration_ms := Some duration,
                re_size_bytes := coalesce (re_size_bytes r) (Some 0)\<rparr>)) (\<lambda>rows.
       if rows = 0 then errS (SNotFound ''recording'' session_id)
       else
       bindS (finish_event StoreEvent session_id now) (\<lambda>_.
         finish_event ResolveEvent session_id now))))) (\<lambda>_.
     recording_unchecked parse video_error None org_id session_id)"

definition trash_recording ::
  "url_parser \<Rightarrow> (str \<Rightarrow> str option) \<Rightarrow> secret_box \<Rightarrow> str \<Rightarrow> identity \<Rightarrow> str \<Rightarrow> instant \<Rightarrow> (db, recording) st" where
  "trash_recording parse video_error box org_id actor session_id now =
     bindS (atomically (
       bindS (readS (\<lambda>db. ok_or (SNotFound ''recording'' session_id) (find_recording org_id session_id db)))
         (\<lambda>(r, s).
       if \<not> matches_principal actor (re_owner_id r) then errS (SForbidden ''recording'' session_id)
       else if is_live s then errS (SSessionState session_id (session_state_text (se_status s)))
       else if re_status r = RecRecording then errS (SSessionState session_id ''recording'')
       else
       bindS (update_recordings (\<lambda>_ x. re_session_id x = session_id \<and> re_status x \<noteq> RecTrashed)
         (\<lambda>x. x\<lparr>re_status := RecTrashed,
                re_trashed_at := coalesce (re_trashed_at x) (Some (timestamp now)),
                re_purge_after := None\<rparr>)) (\<lambda>_.
       bindS (finish_event StoreEvent session_id now) (\<lambda>_.
       bindS (finish_event ResolveEvent session_id now) (\<lambda>_.
         finish_event TrashEvent session_id now)))))) (\<lambda>_.
     recording_unchecked parse video_error (Some box) org_id session_id)"

end
