(* ===== verification/SB_Lifecycle.thy ===== *)
theory SB_Lifecycle
  imports SB_Recordings
begin

text \<open>
  What every method of the store keeps. The invariant \<open>db_inv\<close> says how rows of different
  tables fit together; \<open>row_evolves\<close> is the abstract session: identity and ownership never
  change, the status only moves along the lifecycle, a provider session once bound stays bound,
  and a finished row is frozen. Each method of the store is shown to keep both, and the store as
  a whole is the step relation \<open>store_step\<close>, an instance of \<open>step_system\<close>.
\<close>

section \<open>Triples for the statement monad\<close>

text \<open>\<open>triple I P m Q\<close>: from \<open>P\<close>, a result of \<open>m\<close> satisfies \<open>Q\<close> and an error leaves \<open>I\<close>.\<close>

definition triple ::
  "('s \<Rightarrow> bool) \<Rightarrow> ('s \<Rightarrow> bool) \<Rightarrow> ('s, 'a) st \<Rightarrow> ('a \<Rightarrow> 's \<Rightarrow> bool) \<Rightarrow> bool" where
  "triple I P m Q \<longleftrightarrow>
     (\<forall>s. P s \<longrightarrow> (case m s of (Inl e, s') \<Rightarrow> I s' | (Inr x, s') \<Rightarrow> Q x s'))"

lemma triple_bindS:
  assumes "triple I P m Q" "\<And>x. triple I (Q x) (f x) R"
  shows "triple I P (bindS m f) R"
  unfolding triple_def
proof (intro allI impI)
  fix s assume "P s"
  with assms(1) have m: "case m s of (Inl e, s') \<Rightarrow> I s' | (Inr x, s') \<Rightarrow> Q x s'"
    by (simp add: triple_def)
  show "case bindS m f s of (Inl e, s') \<Rightarrow> I s' | (Inr x, s') \<Rightarrow> R x s'"
    by (rule bindS_cases [of m s f]) (use m assms(2) in \<open>auto simp: triple_def\<close>)
qed

lemma triple_liftS:
  "(\<And>s. P s \<Longrightarrow> I s) \<Longrightarrow> triple I P (liftS r) (\<lambda>x s. P s \<and> r = Inr x)"
  by (auto simp: triple_def split: sum.splits)

lemma triple_readS:
  "(\<And>s. P s \<Longrightarrow> I s) \<Longrightarrow> triple I P (readS g) (\<lambda>x s. P s \<and> g s = Inr x)"
  by (auto simp: triple_def split: sum.splits)

lemma triple_weaken:
  assumes "triple I P' m Q'" "\<And>s. P s \<Longrightarrow> P' s" "\<And>x s. Q' x s \<Longrightarrow> Q x s"
  shows "triple I P m Q"
  using assms by (fastforce simp: triple_def split: prod.splits sum.splits)

lemma triple_keeps: "keeps I m \<Longrightarrow> (\<And>s. P s \<Longrightarrow> I s) \<Longrightarrow> triple I P m (\<lambda>_. I)"
  by (auto simp: triple_def keeps_def split: prod.splits sum.splits) (metis snd_conv)+

lemma keeps_triple: "triple I I m (\<lambda>_. I) \<Longrightarrow> keeps I m"
  unfolding keeps_def triple_def
  by (metis (mono_tags, lifting) case_prod_conv old.sum.exhaust old.sum.simps(5,6) prod.collapse)

lemma triple_errS: "(\<And>s. P s \<Longrightarrow> I s) \<Longrightarrow> triple I P (errS e) Q"
  by (simp add: triple_def)

lemma triple_okS: "(\<And>s. P s \<Longrightarrow> Q x s) \<Longrightarrow> triple I P (okS x) Q"
  by (simp add: triple_def)

section \<open>The abstract session\<close>

fun lifecycle_edge :: "session_state \<Rightarrow> session_state \<Rightarrow> bool" where
  "lifecycle_edge Starting b \<longleftrightarrow> b = Active \<or> b = Ending \<or> b = Failed \<or> b = Expired"
| "lifecycle_edge Active b \<longleftrightarrow> b = Ending \<or> b = Failed"
| "lifecycle_edge Ending b \<longleftrightarrow> b = Ended \<or> b = Expired \<or> b = Failed"
| "lifecycle_edge Ended b \<longleftrightarrow> False"
| "lifecycle_edge Expired b \<longleftrightarrow> False"
| "lifecycle_edge Failed b \<longleftrightarrow> False"

fun lifecycle_rank :: "session_state \<Rightarrow> nat" where
  "lifecycle_rank Starting = 0"
| "lifecycle_rank Active = 1"
| "lifecycle_rank Ending = 2"
| "lifecycle_rank _ = 3"

text \<open>Zero or more edges; by rank it is decidable.\<close>

definition lifecycle_path :: "session_state \<Rightarrow> session_state \<Rightarrow> bool" where
  "lifecycle_path a b \<longleftrightarrow> a = b \<or> lifecycle_rank a < lifecycle_rank b"

lemma lifecycle_path_edges: "lifecycle_path a b \<longleftrightarrow> lifecycle_edge\<^sup>*\<^sup>* a b"
proof
  have e: "lifecycle_edge\<^sup>*\<^sup>* Starting Active" "lifecycle_edge\<^sup>*\<^sup>* Starting Ending"
    "lifecycle_edge\<^sup>*\<^sup>* Starting Failed" "lifecycle_edge\<^sup>*\<^sup>* Starting Expired"
    "lifecycle_edge\<^sup>*\<^sup>* Active Ending" "lifecycle_edge\<^sup>*\<^sup>* Active Failed"
    "lifecycle_edge\<^sup>*\<^sup>* Ending Ended" "lifecycle_edge\<^sup>*\<^sup>* Ending Expired"
    "lifecycle_edge\<^sup>*\<^sup>* Ending Failed"
    by (rule r_into_rtranclp, simp)+
  have e2: "lifecycle_edge\<^sup>*\<^sup>* Starting Ended" "lifecycle_edge\<^sup>*\<^sup>* Active Ended"
    "lifecycle_edge\<^sup>*\<^sup>* Active Expired"
    by (rule rtranclp_trans [OF e(2) e(7)], rule rtranclp_trans [OF e(5) e(7)],
        rule rtranclp_trans [OF e(5) e(8)])
  show "lifecycle_path a b \<Longrightarrow> lifecycle_edge\<^sup>*\<^sup>* a b"
    by (cases a; cases b) (simp_all add: lifecycle_path_def e e2)
next
  assume "lifecycle_edge\<^sup>*\<^sup>* a b"
  then show "lifecycle_path a b"
  proof (induction rule: rtranclp_induct)
    case (step b c)
    then have "lifecycle_rank b < lifecycle_rank c" by (cases b; cases c) auto
    with step.IH show ?case by (auto simp: lifecycle_path_def)
  qed (simp add: lifecycle_path_def)
qed

lemma lifecycle_path_refl [simp]: "lifecycle_path a a"
  by (simp add: lifecycle_path_def)

lemma lifecycle_path_trans: "lifecycle_path a b \<Longrightarrow> lifecycle_path b c \<Longrightarrow> lifecycle_path a c"
  by (auto simp: lifecycle_path_def)

lemma lifecycle_path_finished: "\<not> live_state a \<Longrightarrow> lifecycle_path a b \<longleftrightarrow> b = a"
  by (cases a; cases b) (auto simp: lifecycle_path_def live_state_def)

lemma lifecycle_path_live: "lifecycle_path a b \<Longrightarrow> live_state b \<Longrightarrow> live_state a"
  by (cases a; cases b) (auto simp: lifecycle_path_def live_state_def)

definition option_kept :: "'a option \<Rightarrow> 'a option \<Rightarrow> bool" where
  "option_kept a b \<longleftrightarrow> a = None \<or> b = a"

lemma option_kept_simps [simp]: "option_kept a a" "option_kept None b"
  "option_kept a (coalesce a b)" "option_kept (Some x) b \<longleftrightarrow> b = Some x"
  by (cases a; auto simp: option_kept_def coalesce_def)+

lemma option_kept_trans: "option_kept a b \<Longrightarrow> option_kept b c \<Longrightarrow> option_kept a c"
  by (auto simp: option_kept_def)

definition row_evolves :: "session_row \<Rightarrow> session_row \<Rightarrow> bool" where
  "row_evolves a b \<longleftrightarrow>
     se_id b = se_id a \<and> se_org_id b = se_org_id a \<and> se_profile_id b = se_profile_id a \<and>
     se_started_by b = se_started_by a \<and> se_started_by_kind b = se_started_by_kind a \<and>
     se_name b = se_name a \<and> se_description b = se_description a \<and>
     se_started_at b = se_started_at a \<and> se_expires_at b = se_expires_at a \<and>
     lifecycle_path (se_status a) (se_status b) \<and>
     option_kept (se_provider_session_id a) (se_provider_session_id b) \<and>
     option_kept (se_cdp_url_enc a) (se_cdp_url_enc b) \<and>
     option_kept (se_live_url_enc a) (se_live_url_enc b) \<and>
     (\<not> is_live a \<longrightarrow> se_ended_at b = se_ended_at a \<and> se_end_note b = se_end_note a)"

lemma row_evolves_refl [simp]: "row_evolves a a"
  by (simp add: row_evolves_def)

lemma row_evolves_trans:
  assumes "row_evolves a b" "row_evolves b c"
  shows "row_evolves a c"
proof -
  note a = assms(1) [unfolded row_evolves_def] and b = assms(2) [unfolded row_evolves_def]
  have dead: "\<not> is_live a \<Longrightarrow> \<not> is_live b"
    using a lifecycle_path_live unfolding is_live_def by blast
  show ?thesis
    unfolding row_evolves_def
  proof (intro conjI impI)
    show "lifecycle_path (se_status a) (se_status c)"
      using a b lifecycle_path_trans by blast
    show "option_kept (se_provider_session_id a) (se_provider_session_id c)"
      "option_kept (se_cdp_url_enc a) (se_cdp_url_enc c)"
      "option_kept (se_live_url_enc a) (se_live_url_enc c)"
      using a b by (blast intro: option_kept_trans)+
  qed (simp_all add: a b dead)
qed

lemma row_evolves_live: "row_evolves a b \<Longrightarrow> is_live b \<Longrightarrow> is_live a"
  using lifecycle_path_live by (auto simp: row_evolves_def is_live_def)

lemma row_evolves_finished: "row_evolves a b \<Longrightarrow> \<not> is_live a \<Longrightarrow> se_status b = se_status a"
  using lifecycle_path_finished by (auto simp: row_evolves_def is_live_def)

section \<open>The invariant\<close>

definition provider_bound :: "session_row \<Rightarrow> bool" where
  "provider_bound s \<longleftrightarrow>
     se_provider_session_id s \<noteq> None \<and> se_cdp_url_enc s \<noteq> None \<and> se_live_url_enc s \<noteq> None"

definition session_row_ok :: "session_row \<Rightarrow> bool" where
  "session_row_ok s \<longleftrightarrow>
     (se_status s = Starting \<longrightarrow> se_provider_session_id s = None \<and> se_cdp_url_enc s = None \<and>
        se_live_url_enc s = None) \<and>
     (se_status s = Active \<or> se_status s = Ending \<longrightarrow> provider_bound s) \<and>
     (is_live s \<longleftrightarrow> se_ended_at s = None) \<and>
     (is_live s \<or> se_end_note s \<noteq> None \<or> se_status s = Ended) \<and>
     list_ex (\<lambda>ttl. se_expires_at s = se_started_at s + ttl_seconds ttl * 1000) ttl_all"

definition profile_row_ok :: "profile_row \<Rightarrow> bool" where
  "profile_row_ok p \<longleftrightarrow> contains_principal (pr_access p) (pr_owner_id p) \<and> profile_checks p"

definition count_ok :: "int option \<Rightarrow> bool" where
  "count_ok c \<longleftrightarrow> (case c of None \<Rightarrow> True | Some n \<Rightarrow> 0 \<le> n)"

definition usage_row_ok :: "usage_row \<Rightarrow> bool" where
  "usage_row_ok u \<longleftrightarrow>
     0 \<le> us_browser_millis u \<and> count_ok (us_proxy_bytes_in u) \<and> count_ok (us_proxy_bytes_out u) \<and>
     count_ok (us_proxy_bytes_unclassified u) \<and>
     is_ok (parse_cost_micros (us_browser_cost u)) \<and> is_ok (parse_cost_micros (us_proxy_cost u))"

text \<open>A session's profile exists in its own organization, and is active while the session is live.\<close>

definition profile_supports :: "session_row \<Rightarrow> profile_row \<Rightarrow> bool" where
  "profile_supports s p \<longleftrightarrow>
     se_profile_id s = Some (pr_id p) \<and> pr_org_id p = se_org_id s \<and>
     (is_live s \<longrightarrow> pr_status p = ProfileActive)"

definition live_on_active :: "db \<Rightarrow> bool" where
  "live_on_active db \<longleftrightarrow>
     (\<forall>s \<in> set (db_sessions db). se_profile_id s \<noteq> None \<longrightarrow>
        (\<exists>p \<in> set (db_profiles db). profile_supports s p))"

definition has_initiator :: "db \<Rightarrow> bool" where
  "has_initiator db \<longleftrightarrow>
     (\<forall>s \<in> set (db_sessions db). \<exists>p \<in> set (db_participants db).
        pt_session_id p = se_id s \<and> pt_actor_id p = se_started_by s \<and> pt_role p = Initiator)"

text \<open>One recording and one usage row per session, the recording owned by its initiator.\<close>

definition side_rows_aligned :: "db \<Rightarrow> bool" where
  "side_rows_aligned db \<longleftrightarrow>
     map (\<lambda>r. (re_session_id r, re_owner_id r)) (db_recordings db) =
       map (\<lambda>s. (se_id s, se_started_by s)) (db_sessions db) \<and>
     map us_session_id (db_usage db) = map se_id (db_sessions db) \<and>
     (\<forall>p \<in> set (db_participants db). pt_session_id p \<in> set (map se_id (db_sessions db)))"

text \<open>One event of each kind per session, its attempts counted from zero.\<close>

definition outbox_ok :: "outbox_row list \<Rightarrow> bool" where
  "outbox_ok rows \<longleftrightarrow>
     distinct (map (\<lambda>x. (ob_kind x, ob_session_id x)) rows) \<and> list_all (\<lambda>x. 0 \<le> ob_attempts x) rows"

definition db_inv :: "db \<Rightarrow> bool" where
  "db_inv db \<longleftrightarrow>
     outbox_ok (db_outbox db) \<and>
     list_all session_checks (db_sessions db) \<and> sessions_unique (db_sessions db) \<and>
     list_all session_row_ok (db_sessions db) \<and>
     profiles_unique (db_profiles db) \<and> list_all profile_row_ok (db_profiles db) \<and>
     list_all usage_row_ok (db_usage db) \<and>
     live_on_active db \<and> has_initiator db \<and> side_rows_aligned db"

section \<open>Histories\<close>

text \<open>Rows are never deleted, and each evolves along a preorder of its table.\<close>

definition rows_evolve :: "('r \<Rightarrow> 'r \<Rightarrow> bool) \<Rightarrow> 'r list \<Rightarrow> 'r list \<Rightarrow> bool" where
  "rows_evolve R xs ys \<longleftrightarrow> length xs \<le> length ys \<and> (\<forall>i < length xs. R (xs ! i) (ys ! i))"

locale evolving_rows =
  fixes R :: "'r \<Rightarrow> 'r \<Rightarrow> bool"
  assumes R_refl: "R r r"
    and R_trans: "R a b \<Longrightarrow> R b c \<Longrightarrow> R a c"
begin

lemma evolve_refl [simp]: "rows_evolve R xs xs"
  by (simp add: rows_evolve_def R_refl)

lemma evolve_append: "rows_evolve R xs ys \<Longrightarrow> rows_evolve R xs (ys @ zs)"
  by (auto simp: rows_evolve_def nth_append)

lemma evolve_trans: "rows_evolve R xs ys \<Longrightarrow> rows_evolve R ys zs \<Longrightarrow> rows_evolve R xs zs"
  unfolding rows_evolve_def by (meson dual_order.trans less_le_trans R_trans)

lemma evolve_update:
  assumes "rows_evolve R xs ys" "\<And>r. r \<in> set ys \<Longrightarrow> P r \<Longrightarrow> R r (f r)"
  shows "rows_evolve R xs (update_where P f ys)"
proof (rule evolve_trans [OF assms(1)])
  show "rows_evolve R ys (update_where P f ys)"
    using assms(2) by (auto simp: rows_evolve_def update_where_def R_refl)
qed

end

fun recording_rank :: "recording_state \<Rightarrow> nat" where
  "recording_rank RecRecording = 0"
| "recording_rank RecPending = 1"
| "recording_rank RecAvailable = 2"
| "recording_rank RecFailed = 2"
| "recording_rank RecTrashed = 3"

definition recording_evolves :: "recording_row \<Rightarrow> recording_row \<Rightarrow> bool" where
  "recording_evolves a b \<longleftrightarrow>
     re_session_id b = re_session_id a \<and> re_owner_id b = re_owner_id a \<and>
     (re_status b = re_status a \<or> recording_rank (re_status a) < recording_rank (re_status b)) \<and>
     option_kept (re_trashed_at a) (re_trashed_at b)"

interpretation session_rows: evolving_rows row_evolves
  by unfold_locales (auto intro: row_evolves_trans)

interpretation recording_rows: evolving_rows recording_evolves
  by unfold_locales (auto simp: recording_evolves_def intro: option_kept_trans)

interpretation usage_rows: evolving_rows usage_le
  by unfold_locales (auto intro: usage_le_refl usage_le_trans)

definition db_evolves :: "db \<Rightarrow> db \<Rightarrow> bool" where
  "db_evolves db0 db \<longleftrightarrow>
     rows_evolve row_evolves (db_sessions db0) (db_sessions db) \<and>
     rows_evolve recording_evolves (db_recordings db0) (db_recordings db) \<and>
     rows_evolve usage_le (db_usage db0) (db_usage db)"

definition store_good :: "db \<Rightarrow> db \<Rightarrow> bool" where
  "store_good db0 db \<longleftrightarrow> db_inv db \<and> db_evolves db0 db"

lemma db_evolves_refl [simp]: "db_evolves db db"
  by (simp add: db_evolves_def)

lemma store_goodI: "db_inv db \<Longrightarrow> store_good db db"
  by (simp add: store_good_def)

section \<open>Statements\<close>

lemma in_update_where:
  assumes "x \<in> set (update_where P f rows)"
  obtains r where "r \<in> set rows" "x = (if P r then f r else r)"
  using assms unfolding update_where_def by auto

lemma update_sessions_result:
  obtains e where "update_sessions P f db = (Inl e, db)"
  | "update_sessions P f db =
       (Inr (affected P (db_sessions db)), db\<lparr>db_sessions := update_where P f (db_sessions db)\<rparr>)"
    "list_all session_checks (update_where P f (db_sessions db))"
    "sessions_unique (update_where P f (db_sessions db))"
  by (cases "list_all session_checks (update_where P f (db_sessions db))";
      cases "sessions_unique (update_where P f (db_sessions db))")
     (simp_all add: update_sessions_def write_sessions_def bindS_def)

lemma update_profiles_result:
  obtains e where "update_profiles P f db = (Inl e, db)"
  | "update_profiles P f db =
       (Inr (affected P (db_profiles db)), db\<lparr>db_profiles := update_where P f (db_profiles db)\<rparr>)"
    "list_all profile_checks (update_where P f (db_profiles db))"
    "profiles_unique (update_where P f (db_profiles db))"
  by (cases "list_all profile_checks (update_where P f (db_profiles db))";
      cases "profiles_unique (update_where P f (db_profiles db))")
     (simp_all add: update_profiles_def write_profiles_def bindS_def)

lemma live_on_active_sessions:
  assumes "live_on_active db"
    "\<And>s'. s' \<in> set rows \<Longrightarrow> \<exists>s \<in> set (db_sessions db). (is_live s' \<longrightarrow> is_live s) \<and>
       se_profile_id s = se_profile_id s' \<and> se_org_id s = se_org_id s'"
  shows "live_on_active (db\<lparr>db_sessions := rows\<rparr>)"
  unfolding live_on_active_def
proof (intro ballI impI)
  fix s assume s: "s \<in> set (db_sessions (db\<lparr>db_sessions := rows\<rparr>))" "se_profile_id s \<noteq> None"
  then obtain t where t: "t \<in> set (db_sessions db)" "is_live s \<longrightarrow> is_live t"
    "se_profile_id t = se_profile_id s" "se_org_id t = se_org_id s" using assms(2) [of s] by auto
  with assms(1) s(2) obtain p where "p \<in> set (db_profiles db)" "profile_supports t p"
    unfolding live_on_active_def by metis
  with t show "\<exists>p \<in> set (db_profiles (db\<lparr>db_sessions := rows\<rparr>)). profile_supports s p"
    by (auto simp: profile_supports_def)
qed

lemma db_inv_update_sessions:
  assumes inv: "db_inv db"
    and f: "\<And>r. P r \<Longrightarrow> session_row_ok r \<Longrightarrow> session_row_ok (f r) \<and> row_evolves r (f r)"
    and ok: "list_all session_checks (update_where P f (db_sessions db))"
      "sessions_unique (update_where P f (db_sessions db))"
  shows "db_inv (db\<lparr>db_sessions := update_where P f (db_sessions db)\<rparr>)"
proof -
  let ?rows = "update_where P f (db_sessions db)"
  from inv have row: "r \<in> set (db_sessions db) \<Longrightarrow> session_row_ok r" for r
    by (simp add: db_inv_def list_all_iff)
  have ev: "r \<in> set (db_sessions db) \<Longrightarrow> row_evolves r (if P r then f r else r)" for r
    using f row by auto
  have "list_all session_row_ok ?rows"
    using f row by (auto simp: update_where_def list_all_iff)
  moreover have "live_on_active (db\<lparr>db_sessions := ?rows\<rparr>)"
  proof (rule live_on_active_sessions)
    show "live_on_active db" using inv by (simp add: db_inv_def)
    fix s' assume "s' \<in> set ?rows"
    then obtain r where r: "r \<in> set (db_sessions db)" "s' = (if P r then f r else r)"
      by (auto elim: in_update_where)
    have e: "row_evolves r s'" using ev [OF r(1)] r(2) by simp
    then have "is_live s' \<longrightarrow> is_live r" "se_profile_id r = se_profile_id s'" "se_org_id r = se_org_id s'"
      using row_evolves_live by (auto simp: row_evolves_def)
    with r(1) show "\<exists>s \<in> set (db_sessions db). (is_live s' \<longrightarrow> is_live s) \<and>
        se_profile_id s = se_profile_id s' \<and> se_org_id s = se_org_id s'"
      by blast
  qed
  moreover have keys: "map se_id ?rows = map se_id (db_sessions db)"
    "map (\<lambda>s. (se_id s, se_started_by s)) ?rows = map (\<lambda>s. (se_id s, se_started_by s)) (db_sessions db)"
    using ev by (auto simp: update_where_def row_evolves_def)
  moreover have "has_initiator (db\<lparr>db_sessions := ?rows\<rparr>)"
    unfolding has_initiator_def
  proof
    fix s assume "s \<in> set (db_sessions (db\<lparr>db_sessions := ?rows\<rparr>))"
    then obtain r where r: "r \<in> set (db_sessions db)" "s = (if P r then f r else r)"
      by (auto elim: in_update_where)
    then have "se_id s = se_id r" "se_started_by s = se_started_by r"
      using ev [OF r(1)] by (auto simp: row_evolves_def)
    then show "\<exists>p \<in> set (db_participants (db\<lparr>db_sessions := ?rows\<rparr>)).
        pt_session_id p = se_id s \<and> pt_actor_id p = se_started_by s \<and> pt_role p = Initiator"
      using inv r(1) by (simp add: db_inv_def has_initiator_def)
  qed
  ultimately show ?thesis
    using inv ok by (simp add: db_inv_def side_rows_aligned_def)
qed

lemma keeps_update_sessions:
  assumes f: "\<And>r. P r \<Longrightarrow> session_row_ok r \<Longrightarrow> session_row_ok (f r) \<and> row_evolves r (f r)"
  shows "keeps (store_good db0) (update_sessions P f)"
  unfolding keeps_def
proof (intro allI impI)
  fix db assume good: "store_good db0 db"
  show "store_good db0 (snd (update_sessions P f db))"
  proof (cases rule: update_sessions_result [of P f db])
    case (1 e)
    with good show ?thesis by simp
  next
    case 2
    from good have inv: "db_inv db" by (simp add: store_good_def)
    have "rows_evolve row_evolves (db_sessions db0) (update_where P f (db_sessions db))"
      using f inv good
      by (intro session_rows.evolve_update) (auto simp: store_good_def db_evolves_def db_inv_def list_all_iff)
    with 2 good db_inv_update_sessions [OF inv f 2(2,3)] show ?thesis
      by (simp add: store_good_def db_evolves_def)
  qed
qed

text \<open>Statements on the other tables.\<close>

lemma keeps_update_recordings:
  assumes "\<And>db r. P db r \<Longrightarrow> recording_evolves r (f r)"
  shows "keeps (store_good db0) (update_recordings P f)"
proof -
  have "map (\<lambda>r. (re_session_id r, re_owner_id r)) (update_where (P db) f rows) =
        map (\<lambda>r. (re_session_id r, re_owner_id r)) rows" for db rows
    using assms by (auto simp: update_where_def recording_evolves_def)
  moreover have "rows_evolve recording_evolves (db_recordings db0) (update_where (P db) f (db_recordings db))"
    if "rows_evolve recording_evolves (db_recordings db0) (db_recordings db)" for db
    using that assms by (intro recording_rows.evolve_update) auto
  ultimately show ?thesis
    by (simp add: keeps_def update_recordings_def store_good_def db_evolves_def db_inv_def
        live_on_active_def has_initiator_def side_rows_aligned_def)
qed

definition event_kept :: "(outbox_row \<Rightarrow> outbox_row) \<Rightarrow> bool" where
  "event_kept f \<longleftrightarrow> (\<forall>x. ob_kind (f x) = ob_kind x \<and> ob_session_id (f x) = ob_session_id x \<and>
     ob_attempts x \<le> ob_attempts (f x))"

lemma keeps_update_outbox:
  assumes "event_kept f"
  shows "keeps (store_good db0) (update_outbox P f)"
proof -
  have "outbox_ok (update_where P f rows)" if "outbox_ok rows" for rows
  proof -
    have "map (\<lambda>x. (ob_kind x, ob_session_id x)) (update_where P f rows) =
        map (\<lambda>x. (ob_kind x, ob_session_id x)) rows"
      using assms by (auto simp: update_where_def event_kept_def)
    moreover have "list_all (\<lambda>x. 0 \<le> ob_attempts x) (update_where P f rows)"
      unfolding list_all_iff
    proof
      fix x assume "x \<in> set (update_where P f rows)"
      then obtain r where r: "r \<in> set rows" "x = (if P r then f r else r)" by (rule in_update_where)
      with that have "0 \<le> ob_attempts r" by (simp add: outbox_ok_def list_all_iff)
      moreover have "ob_attempts r \<le> ob_attempts (f r)" using assms by (simp add: event_kept_def)
      ultimately show "0 \<le> ob_attempts x" using r(2) by simp
    qed
    ultimately show ?thesis using that by (simp add: outbox_ok_def)
  qed
  then show ?thesis
    by (simp add: keeps_def update_outbox_def store_good_def db_evolves_def db_inv_def
        live_on_active_def has_initiator_def side_rows_aligned_def)
qed

lemma keeps_insert_outbox:
  assumes "0 \<le> ob_attempts r"
  shows "keeps (store_good db0) (insert_outbox r)"
proof -
  have "outbox_ok (rows @ [r])" if "outbox_ok rows"
    "\<not> (\<exists>x \<in> set rows. ob_kind x = ob_kind r \<and> ob_session_id x = ob_session_id r)" for rows
    using that assms by (auto simp: outbox_ok_def)
  then show ?thesis
    by (simp add: keeps_def insert_outbox_def store_good_def db_evolves_def db_inv_def
        live_on_active_def has_initiator_def side_rows_aligned_def)
qed

lemma keeps_map_profile_write: "keeps I m \<Longrightarrow> keeps I (map_profile_write m)"
  unfolding keeps_def map_profile_write_def
  by (fastforce split: prod.splits sum.splits)

lemma store_good_profiles:
  assumes "store_good db0 db" "profiles_unique rows" "list_all profile_row_ok rows"
    "live_on_active (db\<lparr>db_profiles := rows\<rparr>)"
  shows "store_good db0 (db\<lparr>db_profiles := rows\<rparr>)"
  using assms
  by (simp add: store_good_def db_evolves_def db_inv_def has_initiator_def side_rows_aligned_def)

lemma triple_update_profiles:
  assumes f: "\<And>db r. Q db \<Longrightarrow> r \<in> set (db_profiles db) \<Longrightarrow> P r \<Longrightarrow> db_inv db \<Longrightarrow>
      contains_principal (pr_access (f r)) (pr_owner_id (f r)) \<and> pr_id (f r) = pr_id r \<and>
      pr_org_id (f r) = pr_org_id r \<and>
      (pr_status r = ProfileActive \<longrightarrow> pr_status (f r) = ProfileActive \<or>
         (\<forall>s \<in> set (db_sessions db). is_live s \<longrightarrow> se_profile_id s \<noteq> Some (pr_id r)))"
  shows "triple (store_good db0) (\<lambda>db. store_good db0 db \<and> Q db) (update_profiles P f) (\<lambda>_. store_good db0)"
  unfolding triple_def
proof (intro allI impI)
  fix db assume pre: "store_good db0 db \<and> Q db"
  then have inv: "db_inv db" by (simp add: store_good_def)
  show "case update_profiles P f db of (Inl e, s') \<Rightarrow> store_good db0 s' | (Inr x, s') \<Rightarrow> store_good db0 s'"
  proof (cases rule: update_profiles_result [of P f db])
    case (1 e)
    with pre show ?thesis by simp
  next
    case 2
    let ?rows = "update_where P f (db_profiles db)"
    have rows: "list_all profile_row_ok ?rows"
    proof -
      have "x \<in> set ?rows \<Longrightarrow> contains_principal (pr_access x) (pr_owner_id x)" for x
        using f pre inv by (elim in_update_where) (auto simp: db_inv_def list_all_iff profile_row_ok_def)
      with 2(2) show ?thesis by (simp add: list_all_iff profile_row_ok_def)
    qed
    have "live_on_active (db\<lparr>db_profiles := ?rows\<rparr>)"
      unfolding live_on_active_def
    proof (intro ballI impI)
      fix s assume "s \<in> set (db_sessions (db\<lparr>db_profiles := ?rows\<rparr>))"
        and s: "se_profile_id s \<noteq> None"
      then have m: "s \<in> set (db_sessions db)" by simp
      with s inv obtain p where p: "p \<in> set (db_profiles db)" "profile_supports s p"
        unfolding db_inv_def live_on_active_def by blast
      let ?q = "if P p then f p else p"
      have "?q \<in> set ?rows" using p(1) by (simp add: update_where_def)
      moreover have "profile_supports s ?q"
        using f [of db p] pre inv p m by (auto simp: profile_supports_def)
      ultimately show "\<exists>p \<in> set (db_profiles (db\<lparr>db_profiles := ?rows\<rparr>)). profile_supports s p" by auto
    qed
    with 2 rows pre store_good_profiles show ?thesis by auto
  qed
qed

lemma keeps_update_profiles:
  assumes "\<And>r. P r \<Longrightarrow> contains_principal (pr_access r) (pr_owner_id r) \<Longrightarrow>
      contains_principal (pr_access (f r)) (pr_owner_id (f r)) \<and> pr_id (f r) = pr_id r \<and>
      pr_org_id (f r) = pr_org_id r \<and>
      (pr_status r = ProfileActive \<longrightarrow> pr_status (f r) = ProfileActive)"
  shows "keeps (store_good db0) (update_profiles P f)"
  by (rule keeps_triple, rule triple_weaken [where Q = "\<lambda>_. store_good db0", OF triple_update_profiles [where Q = "\<lambda>_. True"]])
     (use assms in \<open>auto simp: db_inv_def list_all_iff profile_row_ok_def\<close>)

section \<open>Every method keeps the invariant\<close>

lemma keeps_if: "(c \<Longrightarrow> keeps I a) \<Longrightarrow> (\<not> c \<Longrightarrow> keeps I b) \<Longrightarrow> keeps I (if c then a else b)"
  by simp

lemma keeps_Let: "(\<And>x. keeps I (f x)) \<Longrightarrow> keeps I (Let v f)"
  by simp

lemma keeps_case_option:
  "keeps I a \<Longrightarrow> (\<And>x. keeps I (f x)) \<Longrightarrow> keeps I (case v of None \<Rightarrow> a | Some x \<Rightarrow> f x)"
  by (cases v) simp_all

lemma keeps_case_prod: "(\<And>x y. keeps I (f x y)) \<Longrightarrow> keeps I (case v of (x, y) \<Rightarrow> f x y)"
  by (cases v) simp

lemmas keeps_rules = keeps_basic keeps_bindS keeps_atomically keeps_if keeps_Let keeps_case_option
  keeps_case_prod

lemma keeps_reads [simp]:
  "keeps I (profile_row_of org pid)" "keeps I (map_profile row)" "keeps I (profile_unchecked org pid)"
  "keeps I (session_row_of org sid)" "keeps I (usage_unchecked sid)" "keeps I (map_session srow)"
  "keeps I (session_unchecked org sid)" "keeps I (session_get org viewer sid)"
  "keeps I (profile_get org viewer pid)" "keeps I (provider_profile_id org viewer pid)"
  "keeps I (store_live_link box org viewer sid)" "keeps I (get_provider_runtime box org viewer sid)"
  "keeps I (connection_runtime box org viewer sid now)"
  "keeps I (recording_unchecked parse err secrets org sid)"
  "keeps I (recording_get parse err box org viewer sid)"
  "keeps I (expired_claim_is_current org sid lease now)"
  "keeps I provisioning_profiles"
  unfolding profile_row_of_def map_profile_def profile_unchecked_def session_row_of_def
    usage_unchecked_def map_session_def session_unchecked_def session_get_def profile_get_def
    provider_profile_id_def store_live_link_def get_provider_runtime_def connection_runtime_def
    recording_unchecked_def recording_get_def expired_claim_is_current_def provisioning_profiles_def
  by (intro keeps_rules)+

lemma keeps_map_profiles [simp]: "keeps I (map_profiles rows)"
proof (induction rows)
  case (Cons row rows)
  then show ?case unfolding map_profiles.simps by (intro keeps_rules keeps_reads)
qed (unfold map_profiles.simps, rule keeps_basic)

lemma keeps_profiles_visible [simp]: "keeps I (profiles_visible org viewer)"
  unfolding profiles_visible_def by (intro keeps_rules keeps_map_profiles)

lemma recording_rank_trashed [simp]: "recording_rank s < 3 \<longleftrightarrow> s \<noteq> RecTrashed"
  by (cases s) simp_all

lemmas rec_defs = recording_evolves_def resolvable_recording_def event_kept_def pending_outbox_def

lemmas row_defs = session_row_ok_def row_evolves_def provider_bound_def is_live_def live_state_def
  lifecycle_path_def

lemma keeps_activate_session:
  "keeps (store_good db0) (activate_session box nonce org sid provider now)"
  unfolding activate_session_def
  by (intro keeps_rules keeps_update_sessions keeps_reads) (auto simp: row_defs)

lemma coalesce_Some [simp]: "coalesce a (Some b) \<noteq> None"
  by (cases a) (simp_all add: coalesce_def)

lemma keeps_retain_session_runtime:
  "keeps (store_good db0) (retain_session_runtime box nonce org sid provider reason)"
  unfolding retain_session_runtime_def
  by (intro keeps_rules keeps_update_sessions keeps_reads)
     (auto simp: row_defs)

lemma keeps_fail_recording_of [simp]: "keeps (store_good db0) (fail_recording_of sid)"
  unfolding fail_recording_of_def
  by (rule keeps_update_recordings) (auto simp: recording_evolves_def)

lemma keeps_pend_recording_of [simp]: "keeps (store_good db0) (pend_recording_of sid)"
  unfolding pend_recording_of_def
  by (rule keeps_update_recordings) (auto simp: recording_evolves_def)

lemma keeps_finish_event [simp]: "keeps (store_good db0) (finish_event kind sid now)"
  unfolding finish_event_def by (rule keeps_update_outbox) (simp add: event_kept_def)

lemma keeps_fail_session: "keeps (store_good db0) (fail_session org sid reason now)"
  unfolding fail_session_def
  by (intro keeps_rules keeps_update_sessions keeps_reads keeps_fail_recording_of) (auto simp: row_defs)

lemma keeps_finalize_failed:
  "keeps (store_good db0) (finalize_failed_session_after_stop org sid f)"
  unfolding finalize_failed_session_after_stop_def
  by (intro keeps_rules keeps_update_sessions keeps_reads keeps_update_recordings keeps_insert_outbox)
     (auto simp: row_defs rec_defs)

lemma keeps_begin_end_session: "keeps (store_good db0) (begin_end_session box org actor sid note)"
  unfolding begin_end_session_def
  by (intro keeps_rules keeps_update_sessions keeps_reads) (auto simp: row_defs)

lemma keeps_finalize_end_session: "keeps (store_good db0) (finalize_end_session org sid now)"
  unfolding finalize_end_session_def
  by (intro keeps_rules keeps_update_sessions keeps_reads keeps_pend_recording_of) (auto simp: row_defs)

lemma keeps_claim_expired_sessions:
  "keeps (store_good db0) (claim_expired_sessions box lease now until limit)"
  unfolding claim_expired_sessions_def
  by (intro keeps_rules keeps_update_sessions keeps_reads keeps_update_recordings)
     (auto simp: row_defs rec_defs due_starting_def)

lemma keeps_finalize_expired_session:
  "keeps (store_good db0) (finalize_expired_session org sid lease now)"
  unfolding finalize_expired_session_def
  by (intro keeps_rules keeps_update_sessions keeps_reads keeps_pend_recording_of) (auto simp: row_defs)

lemma keeps_release_expired_claim: "keeps (store_good db0) (release_expired_claim org sid lease)"
  unfolding release_expired_claim_def
  by (intro keeps_rules keeps_update_sessions) (auto simp: row_defs)

lemma keeps_remember_recording_url:
  "keeps (store_good db0) (remember_provider_recording_url box nonce org sid url)"
  unfolding remember_provider_recording_url_def
  by (intro keeps_rules keeps_update_sessions) (auto simp: row_defs)

lemma keeps_queue_resolution:
  "keeps (store_good db0) (queue_recording_source_resolution parse err org sid ms now)"
  unfolding queue_recording_source_resolution_def
  by (intro keeps_rules keeps_reads keeps_update_recordings keeps_insert_outbox) (auto simp: rec_defs)

lemma keeps_claim_resolutions:
  "keeps (store_good db0) (claim_recording_source_resolutions now until limit)"
  unfolding claim_recording_source_resolutions_def
  by (intro keeps_rules keeps_update_outbox) (simp_all add: event_kept_def)

lemma keeps_reschedule: "keeps (store_good db0) (reschedule_recording_source_resolution claim next)"
  unfolding reschedule_recording_source_resolution_def by (intro keeps_rules keeps_update_outbox) (simp_all add: event_kept_def)

lemma keeps_complete:
  "keeps (store_good db0) (complete_recording_source_resolution box nonce claim url now)"
  unfolding complete_recording_source_resolution_def
  by (intro keeps_rules keeps_update_sessions keeps_update_recordings keeps_update_outbox
      keeps_insert_outbox) (auto simp: row_defs rec_defs)

lemma keeps_fail_resolution: "keeps (store_good db0) (fail_recording_source_resolution claim now)"
  unfolding fail_recording_source_resolution_def
  by (intro keeps_rules keeps_update_recordings keeps_update_outbox) (auto simp: rec_defs)

lemma keeps_mark_pending:
  "keeps (store_good db0) (mark_recording_pending parse err org sid ms sz now)"
  unfolding mark_recording_pending_def
  by (intro keeps_rules keeps_reads keeps_update_recordings keeps_insert_outbox) (auto simp: rec_defs)

lemma keeps_mark_failed:
  "keeps (store_good db0) (mark_recording_failed parse err org sid ms now)"
  unfolding mark_recording_failed_def
  by (intro keeps_rules keeps_reads keeps_update_recordings keeps_finish_event) (auto simp: rec_defs)

lemma keeps_trash: "keeps (store_good db0) (trash_recording parse err box org actor sid now)"
  unfolding trash_recording_def
  by (intro keeps_rules keeps_reads keeps_update_recordings keeps_finish_event) (auto simp: rec_defs)

text \<open>The methods whose update depends on what they have just read.\<close>

lemma select_one_Some: "select_one P rows = Some r \<Longrightarrow> r \<in> set rows \<and> P r"
  unfolding select_one_def by (induction rows) (auto split: if_splits)

lemma select_one_None: "select_one P rows = None \<longleftrightarrow> (\<forall>r \<in> set rows. \<not> P r)"
  unfolding select_one_def by (auto simp: find_None_iff)

lemma distinct_key: "distinct (map k rows) \<Longrightarrow> a \<in> set rows \<Longrightarrow> b \<in> set rows \<Longrightarrow> k a = k b \<Longrightarrow> a = b"
  by (simp add: distinct_map inj_on_def)

lemma keeps_bindS_liftS:
  "(\<And>x. r = Inr x \<Longrightarrow> keeps I (f x)) \<Longrightarrow> keeps I (bindS (liftS r) f)"
  by (cases r) (auto simp: keeps_def)

lemma triple_session_row_of:
  "triple I I (session_row_of org sid) (\<lambda>row db. I db \<and> row \<in> set (db_sessions db) \<and>
     se_org_id row = org \<and> se_id row = sid)"
  unfolding session_row_of_def find_session_def
  by (auto simp: triple_def ok_or_def dest: select_one_Some split: option.splits)

lemma triple_if:
  "(c \<Longrightarrow> triple I P a Q) \<Longrightarrow> (\<not> c \<Longrightarrow> triple I P b Q) \<Longrightarrow> triple I P (if c then a else b) Q"
  by simp

lemma store_good_participant:
  assumes "store_good db0 db" "row \<in> set (db_sessions db)" "pt_session_id p = se_id row"
  shows "store_good db0 (db\<lparr>db_participants := db_participants db @ [p]\<rparr>)"
  using assms unfolding store_good_def db_evolves_def db_inv_def live_on_active_def has_initiator_def
    side_rows_aligned_def by auto

lemma keeps_associate_participant:
  "keeps (store_good db0) (associate_participant org sid actor role now)"
  unfolding associate_participant_def Let_def
  by (rule keeps_bindS [OF keeps_basic(3)], rule keeps_atomically, rule keeps_triple,
      rule triple_bindS [OF triple_session_row_of], intro triple_if triple_errS)
     (auto simp: triple_def intro: store_good_participant)

lemma to_i64_nonneg: "to_i64 v f = Inr x \<Longrightarrow> 0 \<le> x"
  by (auto simp: to_i64_def split: if_splits)

lemma optional_i64_ok: "optional_i64 v f = Inr x \<Longrightarrow> count_ok x"
  by (cases v) (auto simp: optional_i64_def count_ok_def to_i64_nonneg)

lemma coalesce_count_ok: "count_ok b \<Longrightarrow> count_ok c \<Longrightarrow> count_ok (coalesce (monotonic_terminal_counter b c t) c)"
  by (cases b; cases c) (auto simp: count_ok_def coalesce_def monotonic_terminal_counter_def)

lemma verdict_row_ok:
  assumes "usage_verdict_of s u sample m bi bo bu terminal = Write row" "usage_row_ok u"
    "0 \<le> m" "count_ok bi" "count_ok bo" "count_ok bu"
  shows "usage_row_ok row" "us_session_id row = us_session_id u"
proof -
  have row: "row = next_usage_row u sample m bi bo bu terminal"
    using usage_verdict_Write(1) [OF assms(1)] .
  have "is_ok (parse_cost_micros (sm_browser_cost sample))" "is_ok (parse_cost_micros (sm_proxy_cost sample))"
    using assms(1) by (auto simp: usage_verdict_of_def is_ok_iff split: if_splits sum.splits)
  then show "usage_row_ok row" "us_session_id row = us_session_id u"
    using assms coalesce_count_ok by (auto simp: row next_usage_row_def usage_row_ok_def)
qed

lemma store_good_write_usage:
  assumes "store_good db0 db" "u \<in> set (db_usage db)" "us_session_id row = us_session_id u" "usage_row_ok row"
    "usage_le u row"
  shows "store_good db0 (snd (write_usage_row row db))"
proof -
  let ?rows = "update_where (\<lambda>x. us_session_id x = us_session_id row) (\<lambda>_. row) (db_usage db)"
  have "map us_session_id ?rows = map us_session_id (db_usage db)"
    by (simp add: update_where_def)
  moreover have "list_all usage_row_ok (db_usage db) \<Longrightarrow> list_all usage_row_ok ?rows"
    using assms(4) by (auto simp: update_where_def list_all_iff)
  moreover have "rows_evolve usage_le (db_usage db0) ?rows"
  proof (rule usage_rows.evolve_update)
    show "rows_evolve usage_le (db_usage db0) (db_usage db)"
      using assms(1) by (simp add: store_good_def db_evolves_def)
    fix r assume "r \<in> set (db_usage db)" "us_session_id r = us_session_id row"
    moreover have "distinct (map us_session_id (db_usage db))"
      using assms(1) by (simp add: store_good_def db_inv_def side_rows_aligned_def sessions_unique_def)
    ultimately have "r = u" using distinct_key assms(2,3) by metis
    with assms(5) show "usage_le r row" by simp
  qed
  ultimately show ?thesis
    using assms(1)
    by (simp add: write_usage_row_def store_good_def db_evolves_def db_inv_def live_on_active_def
        has_initiator_def side_rows_aligned_def)
qed

lemma both_rows:
  "(case (a, b) of (Some s, Some u) \<Rightarrow> Inr (s, u) | _ \<Rightarrow> Inl e) = Inr (s', u') \<longleftrightarrow> a = Some s' \<and> b = Some u'"
  by (cases a; cases b) auto

lemma keeps_record_usage_snapshot:
  "keeps (store_good db0) (record_usage_snapshot org sid sample terminal)"
  unfolding record_usage_snapshot_def
proof ((rule keeps_bindS_liftS)+, rule keeps_bindS [OF keeps_atomically keeps_reads(5)])
  fix m bi bo bu
  assume i64: "to_i64 (sm_browser_millis sample) ''usage.browser_millis'' = Inr m"
    "optional_i64 (sm_proxy_bytes_in sample) ''usage.proxy_bytes_in'' = Inr bi"
    "optional_i64 (sm_proxy_bytes_out sample) ''usage.proxy_bytes_out'' = Inr bo"
    "optional_i64 (sm_proxy_bytes_unclassified sample) ''usage.proxy_bytes_unclassified'' = Inr bu"
  let ?read = "readS (\<lambda>db. case (select_one (\<lambda>s. se_org_id s = org \<and> se_id s = sid) (db_sessions db),
           select_one (\<lambda>u. us_session_id u = sid) (db_usage db)) of
         (Some s, Some u) \<Rightarrow> Inr (s, u) | _ \<Rightarrow> Inl (SNotFound ''usage'' sid))"
  let ?body = "\<lambda>(s, u). case usage_verdict_of s u sample m bi bo bu terminal of
       Unchanged \<Rightarrow> okS () | Refused e \<Rightarrow> errS e | Write row \<Rightarrow> write_usage_row row"
  show "keeps (store_good db0) (bindS ?read ?body)"
    unfolding keeps_def
  proof (intro allI impI)
    fix db assume good: "store_good db0 db"
    show "store_good db0 (snd (bindS ?read ?body db))"
    proof (rule bindS_cases [of ?read db ?body])
      fix e s' assume "?read db = (Inl e, s')" "bindS ?read ?body db = (Inl e, s')"
      with good show ?thesis by simp
    next
      fix x s' assume r: "?read db = (Inr x, s')" "bindS ?read ?body db = ?body x s'"
      obtain s u where x: "x = (s, u)" by (cases x)
      from r(1) have "s' = db" "select_one (\<lambda>u. us_session_id u = sid) (db_usage db) = Some u"
        unfolding x stS_simps prod.inject both_rows by auto
      then have u: "u \<in> set (db_usage db)" by (intro conjunct1 [OF select_one_Some])
      from good have "list_all usage_row_ok (db_usage db)" by (simp add: store_good_def db_inv_def)
      with u have uok: "usage_row_ok u" by (simp add: list_all_iff)
      show ?thesis
      proof (cases "usage_verdict_of s u sample m bi bo bu terminal")
        case (Write row)
        have ok: "usage_row_ok row" "us_session_id row = us_session_id u"
          using verdict_row_ok [OF Write uok] i64 to_i64_nonneg optional_i64_ok by blast+
        show ?thesis using r(2) x \<open>s' = db\<close> Write store_good_write_usage [OF good u ok(2) ok(1) verdict_monotone [OF Write]]
          by simp
      qed (use r(2) x \<open>s' = db\<close> good in simp_all)
    qed
  qed
qed

lemma triple_profile_row:
  "triple I I (profile_row_of org pid) (\<lambda>row db. I db \<and> row \<in> set (db_profiles db) \<and>
     pr_org_id row = org \<and> pr_id row = pid)"
  unfolding profile_row_of_def by (auto simp: triple_def ok_or_def dest: select_one_Some split: option.splits)

lemma keeps_update_profile: "keeps (store_good db0) (update_profile u org actor pid request)"
  unfolding update_profile_def
proof (rule keeps_bindS [OF keeps_basic(3)], rule keeps_if [OF keeps_basic(2)],
       rule keeps_bindS [OF keeps_atomically keeps_reads(3)], rule keeps_triple,
       rule triple_bindS [OF triple_profile_row], intro triple_if triple_errS, simp_all only: Let_def)
  fix row :: profile_row
  let ?P = "\<lambda>db. store_good db0 db \<and> row \<in> set (db_profiles db) \<and> pr_org_id row = org \<and> pr_id row = pid"
  let ?acc = "case pu_access request of
      None \<Rightarrow> Inr (pr_access row)
    | Some access \<Rightarrow> map_err SInvalidField (normalized_with_owner access (pr_owner_id row))"
  let ?f = "\<lambda>access r. r\<lparr>pr_name := trim (case pu_name request of None \<Rightarrow> pr_name row | Some n \<Rightarrow> n), pr_access := access\<rparr>"
  show "triple (store_good db0) ?P
     (bindS (liftS ?acc) (\<lambda>access. update_profiles (\<lambda>r. pr_org_id r = org \<and> pr_id r = pid) (?f access)))
     (\<lambda>_. store_good db0)"
  proof (rule triple_bindS [OF triple_liftS])
    fix access
    show "triple (store_good db0) (\<lambda>db. ?P db \<and> ?acc = Inr access)
        (update_profiles (\<lambda>r. pr_org_id r = org \<and> pr_id r = pid) (?f access)) (\<lambda>_. store_good db0)"
    proof (rule triple_weaken [where Q = "\<lambda>_. store_good db0", OF triple_update_profiles
        [where Q = "\<lambda>db. row \<in> set (db_profiles db) \<and> pr_id row = pid \<and> ?acc = Inr access"]])
      fix db r
      assume q: "row \<in> set (db_profiles db) \<and> pr_id row = pid \<and> ?acc = Inr access"
        and r: "r \<in> set (db_profiles db)" "pr_org_id r = org \<and> pr_id r = pid" and inv: "db_inv db"
      have "r = row"
        using distinct_key [of pr_id "db_profiles db" r row] inv q r
        by (simp add: db_inv_def profiles_unique_def)
      moreover have "contains_principal access (pr_owner_id row)"
        using q inv with_owner_contains_owner
        by (auto simp: normalized_with_owner_def db_inv_def list_all_iff profile_row_ok_def split: option.splits)
      ultimately show "contains_principal (pr_access (?f access r)) (pr_owner_id (?f access r)) \<and>
          pr_id (?f access r) = pr_id r \<and> pr_org_id (?f access r) = pr_org_id r \<and>
          (pr_status r = ProfileActive \<longrightarrow> pr_status (?f access r) = ProfileActive \<or>
           (\<forall>s \<in> set (db_sessions db). is_live s \<longrightarrow> se_profile_id s \<noteq> Some (pr_id r)))" by simp
    qed auto
  qed auto
qed

lemma keeps_end_profile: "keeps (store_good db0) (end_profile org actor pid note now)"
  unfolding end_profile_def
proof (rule keeps_bindS [OF keeps_basic(3)], rule keeps_bindS [OF keeps_atomically keeps_reads(3)],
       rule keeps_triple, rule triple_bindS [OF triple_profile_row], intro triple_if triple_errS)
  fix row :: profile_row
  let ?P = "\<lambda>db. store_good db0 db \<and> row \<in> set (db_profiles db) \<and> pr_org_id row = org \<and> pr_id row = pid"
  let ?live = "\<lambda>db. select_one (\<lambda>s. se_profile_id s = Some pid \<and> is_live s) (db_sessions db)"
  let ?upd = "update_profiles (\<lambda>r. pr_org_id r = org \<and> pr_id r = pid \<and> pr_status r \<noteq> ProfileEnded)
      (\<lambda>r. r\<lparr>pr_status := ProfileEnded, pr_ended_at := Some (timestamp now), pr_end_note := Some (trim note)\<rparr>)"
  show "triple (store_good db0) ?P
     (bindS (readS (\<lambda>db. Inr (?live db))) (\<lambda>live. case live of
        None \<Rightarrow> ?upd
      | Some s \<Rightarrow> errS (SProfileBusy pid (se_id s) (se_started_by s) (parse_timestamp (se_expires_at s)))))
     (\<lambda>_. store_good db0)"
  proof (rule triple_bindS [OF triple_readS])
    fix live
    show "triple (store_good db0) (\<lambda>db. ?P db \<and> Inr (?live db) = Inr live)
      (case live of None \<Rightarrow> ?upd
       | Some s \<Rightarrow> errS (SProfileBusy pid (se_id s) (se_started_by s) (parse_timestamp (se_expires_at s))))
      (\<lambda>_. store_good db0)"
    proof (cases live)
      case None
      show ?thesis unfolding None option.case
      proof (rule triple_weaken [where Q = "\<lambda>_. store_good db0", OF triple_update_profiles
          [where Q = "\<lambda>db. ?live db = None"]])
        fix db r
        assume "?live db = None" "r \<in> set (db_profiles db)" "db_inv db"
          "pr_org_id r = org \<and> pr_id r = pid \<and> pr_status r \<noteq> ProfileEnded"
        moreover from this have "\<forall>s \<in> set (db_sessions db). is_live s \<longrightarrow> se_profile_id s \<noteq> Some (pr_id r)"
          unfolding select_one_None by auto
        ultimately show "contains_principal
            (pr_access (r\<lparr>pr_status := ProfileEnded, pr_ended_at := Some (timestamp now), pr_end_note := Some (trim note)\<rparr>))
            (pr_owner_id (r\<lparr>pr_status := ProfileEnded, pr_ended_at := Some (timestamp now), pr_end_note := Some (trim note)\<rparr>)) \<and>
            pr_id (r\<lparr>pr_status := ProfileEnded, pr_ended_at := Some (timestamp now), pr_end_note := Some (trim note)\<rparr>) = pr_id r \<and>
            pr_org_id (r\<lparr>pr_status := ProfileEnded, pr_ended_at := Some (timestamp now), pr_end_note := Some (trim note)\<rparr>) = pr_org_id r \<and>
            (pr_status r = ProfileActive \<longrightarrow>
              pr_status (r\<lparr>pr_status := ProfileEnded, pr_ended_at := Some (timestamp now), pr_end_note := Some (trim note)\<rparr>) = ProfileActive \<or>
              (\<forall>s \<in> set (db_sessions db). is_live s \<longrightarrow> se_profile_id s \<noteq> Some (pr_id r)))"
          by (simp add: db_inv_def list_all_iff profile_row_ok_def)
      qed auto
    next
      case (Some s)
      show ?thesis unfolding Some option.case by (rule triple_errS) simp
    qed
  qed simp
qed simp

lemma live_on_active_new_profile:
  "live_on_active db \<Longrightarrow> live_on_active (db\<lparr>db_profiles := db_profiles db @ ps\<rparr>)"
  unfolding live_on_active_def by auto

lemma keeps_insert_profile:
  assumes "contains_principal (pr_access row) (pr_owner_id row)"
  shows "keeps (store_good db0) (insert_profile row)"
proof -
  have "keeps (store_good db0) (\<lambda>db. write_profiles (db_profiles db @ [row]) db)"
    unfolding keeps_def
  proof (intro allI impI)
    fix db assume good: "store_good db0 db"
    show "store_good db0 (snd (write_profiles (db_profiles db @ [row]) db))"
    proof (cases "list_all profile_checks (db_profiles db @ [row]) \<and> profiles_unique (db_profiles db @ [row])")
      case True
      have "store_good db0 (db\<lparr>db_profiles := db_profiles db @ [row]\<rparr>)"
        using good True assms
        by (intro store_good_profiles live_on_active_new_profile)
           (auto simp: store_good_def db_inv_def profile_row_ok_def)
      with True show ?thesis by (simp add: write_profiles_def)
    qed (use good in \<open>auto simp: write_profiles_def\<close>)
  qed
  then have "keeps (store_good db0) (map_profile_write (\<lambda>db. write_profiles (db_profiles db @ [row]) db))"
    by (rule keeps_map_profile_write)
  then show ?thesis by (simp add: keeps_def insert_profile_def map_profile_write_def)
qed

lemma normalized_owner: "normalized_with_owner a owner = Inr access \<Longrightarrow> contains_principal access owner"
  using with_owner_contains_owner by (simp add: normalized_with_owner_def)

lemma keeps_reserve_profile: "keeps (store_good db0) (reserve_profile u fresh org owner request now)"
  unfolding reserve_profile_def
  by (intro keeps_bindS_liftS keeps_bindS keeps_if keeps_basic keeps_reads keeps_insert_profile)
     (auto dest: normalized_owner)

lemma keeps_store_create_profile:
  "keeps (store_good db0) (store_create_profile u fresh org owner request provider_id print now)"
  unfolding store_create_profile_def
  by (intro keeps_bindS_liftS keeps_bindS keeps_if keeps_basic keeps_reads keeps_insert_profile)
     (auto dest: normalized_owner)

lemma keeps_activate_profile: "keeps (store_good db0) (activate_profile org pid provider_id print)"
  unfolding activate_profile_def
  by (intro keeps_rules keeps_map_profile_write keeps_update_profiles keeps_reads) auto

lemma keeps_fail_profile: "keeps (store_good db0) (fail_profile org pid reason now)"
  unfolding fail_profile_def
  by (intro keeps_rules keeps_update_profiles keeps_reads) auto

text \<open>The reservation: the new row, its side rows, and the profile they were checked against.\<close>

lemma reserved_row_ok: "session_row_ok (reserved_row fresh org initiator request now)"
proof -
  have "now + ttl_seconds ttl * NANOS_PER_SECOND = now + (ttl_seconds ttl * 1000) * 1000000" for ttl
    by (simp add: NANOS_PER_SECOND_def)
  then have "timestamp (now + ttl_seconds ttl * NANOS_PER_SECOND) = timestamp now + ttl_seconds ttl * 1000" for ttl
    unfolding timestamp_def by (metis div_mult_self3 zero_neq_numeral add.commute)
  moreover have "sc_ttl request \<in> set ttl_all" by (cases "sc_ttl request") (simp_all add: ttl_all_def)
  ultimately show ?thesis
    by (auto simp: session_row_ok_def reserved_row_def is_live_def live_state_def list_ex_iff)
qed

lemma insert_session_result:
  obtains "\<exists>e. insert_session org request row db = (Inl e, db)"
  | "insert_session org request row db = (Inr (), db\<lparr>db_sessions := db_sessions db @ [row]\<rparr>)"
    "list_all session_checks (db_sessions db @ [row])" "sessions_unique (db_sessions db @ [row])"
proof (cases "list_all session_checks (db_sessions db @ [row]) \<and> sessions_unique (db_sessions db @ [row])")
  case True
  then show ?thesis by (intro that(2)) (simp_all add: insert_session_def write_sessions_def)
next
  case False
  then have "\<exists>e. write_sessions (db_sessions db @ [row]) db = (Inl e, db)"
    by (auto simp: write_sessions_def)
  then obtain e where "write_sessions (db_sessions db @ [row]) db = (Inl e, db)" by blast
  then show ?thesis
    by (intro that(1), cases "if e = SDatabase UniqueViolation
          then Option.bind (sc_profile_id request) (\<lambda>pid. profile_busy org pid db) else None")
       (simp_all add: insert_session_def)
qed

definition profile_available :: "str \<Rightarrow> session_create \<Rightarrow> db \<Rightarrow> bool" where
  "profile_available org request db \<longleftrightarrow>
     (\<forall>pid. sc_profile_id request = Some pid \<longrightarrow>
        (\<exists>p \<in> set (db_profiles db). pr_id p = pid \<and> pr_org_id p = org \<and> pr_status p = ProfileActive))"

lemma usage_row_new_ok: "is_ok (parse_cost_micros (lit ''0''))"
  by code_simp

lemma db_inv_new_session:
  assumes inv: "db_inv db" and row: "session_row_ok row" "se_org_id row = org"
      "se_profile_id row = sc_profile_id request"
    and ok: "list_all session_checks (db_sessions db @ [row])" "sessions_unique (db_sessions db @ [row])"
    and prof: "profile_available org request db"
  shows "db_inv (insert_session_side_rows request row (db\<lparr>db_sessions := db_sessions db @ [row]\<rparr>))"
proof -
  let ?db = "insert_session_side_rows request row (db\<lparr>db_sessions := db_sessions db @ [row]\<rparr>)"
  have "live_on_active ?db"
    using inv prof row
    by (auto simp: db_inv_def live_on_active_def insert_session_side_rows_def profile_available_def
        profile_supports_def)
  moreover have "has_initiator ?db"
    using inv by (auto simp: db_inv_def has_initiator_def insert_session_side_rows_def)
  moreover have "side_rows_aligned ?db"
    using inv by (simp add: db_inv_def side_rows_aligned_def insert_session_side_rows_def Let_def)
  moreover have "list_all usage_row_ok (db_usage ?db)"
    using inv usage_row_new_ok
    by (simp add: db_inv_def insert_session_side_rows_def Let_def usage_row_ok_def count_ok_def split: option.split)
  ultimately show ?thesis
    using inv row(1) ok by (simp add: db_inv_def insert_session_side_rows_def)
qed

lemma triple_profile_ready:
  "triple I I (profile_ready org initiator pid) (\<lambda>_ db. I db \<and>
     (\<exists>p \<in> set (db_profiles db). pr_id p = pid \<and> pr_org_id p = org \<and> pr_status p = ProfileActive))"
  unfolding profile_ready_def
  by (rule triple_bindS [OF triple_profile_row]) (auto simp: triple_def)

lemma triple_reserve_ready:
  "triple I I (case sc_profile_id request of
       Some profile_id \<Rightarrow> profile_ready org initiator profile_id | None \<Rightarrow> okS ())
     (\<lambda>_ db. I db \<and> profile_available org request db)"
  by (cases "sc_profile_id request")
     (auto simp: profile_available_def intro: triple_okS triple_weaken [OF triple_profile_ready])

lemma keeps_reserve_session: "keeps (store_good db0) (reserve_session fresh org initiator request now)"
  unfolding reserve_session_def
proof (rule keeps_bindS [OF keeps_basic(3)], rule keeps_bindS [OF keeps_basic(3)],
       rule keeps_bindS [OF keeps_basic(3)], rule keeps_if [OF keeps_basic(2)],
       rule keeps_if [OF keeps_basic(2)], rule keeps_bindS [OF keeps_atomically keeps_reads(7)],
       rule keeps_triple, rule triple_bindS [OF triple_reserve_ready], unfold Let_def)
  let ?row = "reserved_row fresh org initiator request now"
  show "triple (store_good db0) (\<lambda>db. store_good db0 db \<and> profile_available org request db)
     (bindS (insert_session org request ?row) (\<lambda>_. modifyS (insert_session_side_rows request ?row)))
     (\<lambda>_. store_good db0)"
    unfolding triple_def
  proof (intro allI impI)
    fix db assume pre: "store_good db0 db \<and> profile_available org request db"
    show "case bindS (insert_session org request ?row) (\<lambda>_. modifyS (insert_session_side_rows request ?row)) db of
        (Inl e, s') \<Rightarrow> store_good db0 s' | (Inr x, s') \<Rightarrow> store_good db0 s'"
    proof (cases rule: insert_session_result [of org request ?row db])
      case 1
      with pre show ?thesis by (auto simp: bindS_def)
    next
      case 2
      have "db_inv (insert_session_side_rows request ?row (db\<lparr>db_sessions := db_sessions db @ [?row]\<rparr>))"
        using pre by (intro db_inv_new_session [OF _ reserved_row_ok _ _ 2(2,3)])
          (auto simp: store_good_def reserved_row_def)
      moreover have "db_evolves db0 (insert_session_side_rows request ?row (db\<lparr>db_sessions := db_sessions db @ [?row]\<rparr>))"
        using pre
        by (auto simp: store_good_def db_evolves_def insert_session_side_rows_def
            intro: session_rows.evolve_append recording_rows.evolve_append usage_rows.evolve_append)
      ultimately show ?thesis using 2(1) by (simp add: bindS_def store_good_def)
    qed
  qed
qed

end
