(* ===== verification/SB_Protocols.thy ===== *)
theory SB_Protocols
  imports SB_Lifecycle
begin

text \<open>
  The store as a labelled step relation, and the protocols its methods form together: the live
  slot of a profile, activation and the sealed runtime, ending, expiry under leases, and the
  compare-and-swap of recording lookups. Each property is stated over the methods themselves.
\<close>

section \<open>The store as a step relation\<close>

text \<open>What the process gives every call: the libraries it links and its secret box.\<close>

record 'u store_env =
  en_uuid :: "'u uuid_api"
  en_parse :: url_parser
  en_video_error :: "str \<Rightarrow> str option"
  en_box :: secret_box

text \<open>One constructor per method that writes, with the arguments of the method; except for
  \<open>remember_identity_projection\<close>, which nothing but a test calls.\<close>

datatype store_op =
    ReserveProfile str str identity profile_create instant
  | ActivateProfile str str str str
  | FailProfile str str str instant
  | CreateProfile str str identity profile_create str str instant
  | UpdateProfile str identity str profile_update
  | EndProfile str identity str str instant
  | ReserveSession str str identity session_create instant
  | ActivateSession nonces str str provider_session instant
  | RetainRuntime nonces str str provider_session str
  | FailSession str str str instant
  | FinalizeFailed str str failed_finalization
  | AssociateParticipant str str str participant_role instant
  | BeginEnd str identity str str
  | FinalizeEnd str str instant
  | ClaimExpired str instant instant nat
  | FinalizeExpired str str str instant
  | ReleaseClaim str str str
  | RememberRecordingUrl nonces str str str
  | RecordUsage str str usage_sample
  | RecordTerminalUsage str str usage_sample
  | QueueResolution str str nat instant
  | ClaimResolutions instant instant nat
  | RescheduleResolution source_claim instant
  | CompleteResolution nonces source_claim str instant
  | FailResolution source_claim instant
  | MarkPending str str nat nat instant
  | MarkRecordingFailed str str nat instant
  | TrashRecording str identity str instant

definition void :: "(db, 'a) st \<Rightarrow> (db, unit) st" where
  "void m = bindS m (\<lambda>_. okS ())"

fun exec_store :: "'u store_env \<Rightarrow> store_op \<Rightarrow> (db, unit) st" where
  "exec_store v (ReserveProfile fresh org owner r now) = void (reserve_profile (en_uuid v) fresh org owner r now)"
| "exec_store v (ActivateProfile org pid provider print) = void (activate_profile org pid provider print)"
| "exec_store v (FailProfile org pid reason now) = void (fail_profile org pid reason now)"
| "exec_store v (CreateProfile fresh org owner r provider print now) =
     void (store_create_profile (en_uuid v) fresh org owner r provider print now)"
| "exec_store v (UpdateProfile org actor pid r) = void (update_profile (en_uuid v) org actor pid r)"
| "exec_store v (EndProfile org actor pid note now) = void (end_profile org actor pid note now)"
| "exec_store v (ReserveSession fresh org i r now) = void (reserve_session fresh org i r now)"
| "exec_store v (ActivateSession nonce org sid p now) = void (activate_session (en_box v) nonce org sid p now)"
| "exec_store v (RetainRuntime nonce org sid p reason) =
     void (retain_session_runtime (en_box v) nonce org sid p reason)"
| "exec_store v (FailSession org sid reason now) = void (fail_session org sid reason now)"
| "exec_store v (FinalizeFailed org sid f) = void (finalize_failed_session_after_stop org sid f)"
| "exec_store v (AssociateParticipant org sid actor role now) = void (associate_participant org sid actor role now)"
| "exec_store v (BeginEnd org actor sid note) = void (begin_end_session (en_box v) org actor sid note)"
| "exec_store v (FinalizeEnd org sid now) = void (finalize_end_session org sid now)"
| "exec_store v (ClaimExpired lease now until limit) = void (claim_expired_sessions (en_box v) lease now until limit)"
| "exec_store v (FinalizeExpired org sid lease now) = void (finalize_expired_session org sid lease now)"
| "exec_store v (ReleaseClaim org sid lease) = void (release_expired_claim org sid lease)"
| "exec_store v (RememberRecordingUrl nonce org sid u) =
     void (remember_provider_recording_url (en_box v) nonce org sid u)"
| "exec_store v (RecordUsage org sid sample) = void (record_usage org sid sample)"
| "exec_store v (RecordTerminalUsage org sid sample) = void (record_terminal_usage org sid sample)"
| "exec_store v (QueueResolution org sid ms now) =
     void (queue_recording_source_resolution (en_parse v) (en_video_error v) org sid ms now)"
| "exec_store v (ClaimResolutions now until limit) = void (claim_recording_source_resolutions now until limit)"
| "exec_store v (RescheduleResolution claim next) = void (reschedule_recording_source_resolution claim next)"
| "exec_store v (CompleteResolution nonce claim u now) =
     void (complete_recording_source_resolution (en_box v) nonce claim u now)"
| "exec_store v (FailResolution claim now) = void (fail_recording_source_resolution claim now)"
| "exec_store v (MarkPending org sid ms n now) =
     void (mark_recording_pending (en_parse v) (en_video_error v) org sid ms n now)"
| "exec_store v (MarkRecordingFailed org sid ms now) =
     void (mark_recording_failed (en_parse v) (en_video_error v) org sid ms now)"
| "exec_store v (TrashRecording org actor sid now) =
     void (trash_recording (en_parse v) (en_video_error v) (en_box v) org actor sid now)"

definition store_step :: "'u store_env \<Rightarrow> store_op \<Rightarrow> db \<Rightarrow> db \<Rightarrow> bool" where
  "store_step v e db db' \<longleftrightarrow> db' = snd (exec_store v e db)"

lemma keeps_void: "keeps I m \<Longrightarrow> keeps I (void m)"
  unfolding void_def by (intro keeps_rules)

lemmas keeps_methods = keeps_reserve_profile keeps_activate_profile keeps_fail_profile
  keeps_store_create_profile keeps_update_profile keeps_end_profile keeps_reserve_session
  keeps_activate_session keeps_retain_session_runtime keeps_fail_session keeps_finalize_failed
  keeps_associate_participant keeps_begin_end_session keeps_finalize_end_session
  keeps_claim_expired_sessions keeps_finalize_expired_session keeps_release_expired_claim
  keeps_remember_recording_url keeps_queue_resolution keeps_claim_resolutions keeps_reschedule
  keeps_complete keeps_fail_resolution keeps_mark_pending keeps_mark_failed keeps_trash
  keeps_record_usage_snapshot

lemma keeps_exec_store: "keeps (store_good db0) (exec_store v e)"
  by (cases e) (simp_all add: keeps_void keeps_methods record_usage_def record_terminal_usage_def)

interpretation store_history: step_system "\<lambda>db. db = db0 \<and> db_inv db0" "store_step v" "store_good db0"
  for v :: "'u store_env" and db0
  by unfold_locales
     (auto simp: store_step_def store_goodI intro: keepsD [OF keeps_exec_store])

lemma db_inv_empty: "db_inv empty_db"
  by (simp add: db_inv_def outbox_ok_def empty_db_def sessions_unique_def profiles_unique_def live_profiles_def
      live_on_active_def has_initiator_def side_rows_aligned_def List.map_filter_def)

interpretation store: step_system "\<lambda>db. db = empty_db" "store_step v" db_inv for v :: "'u store_env"
proof
  show "db = empty_db \<Longrightarrow> db_inv db" for db by (simp add: db_inv_empty)
  show "store_step v e db db' \<Longrightarrow> db_inv db \<Longrightarrow> db_inv db'" for e db db'
    using keepsD [OF keeps_exec_store store_goodI] by (auto simp: store_step_def store_good_def)
qed

lemma run_good: "run (store_step v) db0 es db \<Longrightarrow> db_inv db0 \<Longrightarrow> store_good db0 db"
  using store_history.reachable_inv by blast

section \<open>A sample history\<close>

text \<open>A small history on which the properties below are instantiated: a profile, a session
  reserved on it, and its activation.\<close>

definition sample_env :: "unit store_env" where
  "sample_env = \<lparr>en_uuid = no_uuids, en_parse = (\<lambda>_. Inl ''no parser''),
     en_video_error = (\<lambda>_. None), en_box = plain_box\<rparr>"

definition alice :: identity where
  "alice = \<lparr>i_id = [97], i_name = [65], i_kind = Carbon, i_tags = [], i_aliases = []\<rparr>"

definition sample_profile :: profile_create where
  "sample_profile = \<lparr>pc_name = [80], pc_location = [117, 115], pc_access = []\<rparr>"

definition sample_session_request :: session_create where
  "sample_session_request = \<lparr>sc_profile_id = Some [112], sc_incognito = False, sc_name = [78],
     sc_description = [68], sc_ttl = Minutes15\<rparr>"

definition sample_provider :: provider_session where
  "sample_provider = \<lparr>pv_id = [118], pv_cdp_url = [99], pv_live_url = [108], pv_recording_url = None\<rparr>"

definition sample_nonces :: nonces where
  "sample_nonces = (\<lambda>_. replicate 12 7)"

definition sample_profile_row :: profile_row where
  "sample_profile_row = \<lparr>pr_id = [112], pr_org_id = [111], pr_name = [80], pr_provider_profile_id = [119],
     pr_fingerprint = [102], pr_location = [117, 115], pr_access = [[64, 97]], pr_owner_id = [97],
     pr_status = ProfileActive, pr_created_at = 0, pr_ended_at = None, pr_end_note = None\<rparr>"

definition sample_db1 :: db where
  "sample_db1 = empty_db\<lparr>db_profiles := [sample_profile_row]\<rparr>"


lemma snd_void [simp]: "snd (void m db) = snd (m db)"
  unfolding void_def by (rule bindS_cases [of m db "\<lambda>_. okS ()"]) simp_all

lemma snd_read: "keeps (\<lambda>s. s = db) m \<Longrightarrow> snd (m db) = db"
  by (simp add: keeps_def)

lemmas text_eval = str_simps safe_id_def required_text_def normalized_with_owner_def with_owner_def
  canonical_principal_def access_new_def normalize_entry_def has_access_delimiter_def bounded_def
  required_field_def collection_len_def MAX_ENTRIES_def MAX_ENTRY_CHARS_def MAX_IDENTIFIER_CHARS_def
  safe_identifier_def unsafe_id_char_def

lemma sample_texts:
  "safe_id [111] f = Inr ()" "safe_id [97] f = Inr ()" "safe_id [119] f = Inr ()" "safe_id [118] f = Inr ()"
  "required_text [102] f = Inr ()" "required_text [99] f = Inr ()" "required_text [108] f = Inr ()"
  "trim [80] = [80]" "trim [117, 115] = [117, 115]" "trim [78] = [78]" "trim [68] = [68]"
  "to_ascii_lower [117, 115] = [117, 115]"
  by (simp_all add: text_eval)

lemma sample_owner:  "normalized_with_owner [] [97] = Inr [[64, 97]]"
  by (simp add: text_eval)

lemma sample_valid: "profile_create_validate no_uuids sample_profile = Inr ()"
  "session_create_validate sample_session_request = Inr ()"
  by (simp_all add: profile_create_validate_def session_create_validate_def sample_profile_def
    sample_session_request_def text_eval access_validate_def)

lemma sample_allows:  "allows [[64, 97]] alice"
  by (simp add: alice_def allows_def principal_ids_def allows_principal_and_tags_def text_eval)

lemma sample_create:
  "snd (exec_store sample_env (CreateProfile [112] [111] alice sample_profile [119] [102] 0) empty_db) = sample_db1"
  by (simp add: store_create_profile_def sample_texts sample_owner sample_valid alice_def sample_env_def sample_profile_def
     bindS_def insert_profile_def map_profile_write_def write_profiles_def
     sample_valid [unfolded sample_profile_def]
     profile_checks_def profiles_unique_def empty_db_def sql_length_def sample_db1_def sample_profile_row_def
     profile_unchecked_def profile_row_of_def map_profile_def select_one_def timestamp_def)

definition sample_row :: session_row where
  "sample_row = reserved_row [115] [111] alice sample_session_request 0"

definition sample_db2 :: db where
  "sample_db2 = insert_session_side_rows sample_session_request sample_row (sample_db1\<lparr>db_sessions := [sample_row]\<rparr>)"

lemma sample_reserve_call:
  "reserve_session [115] [111] alice sample_session_request 0 sample_db1 = session_unchecked [111] [115] sample_db2"
proof -
  have c: "list_all session_checks [sample_row]" "sessions_unique [sample_row]"
    by (simp_all add: sample_row_def reserved_row_def sample_session_request_def sample_texts session_checks_def
       sql_length_def sessions_unique_def live_profiles_def List.map_filter_def)
  have p: "profile_ready [111] alice [112] sample_db1 = (Inr (), sample_db1)"
    by (simp add: profile_ready_def profile_row_of_def sample_db1_def empty_db_def sample_profile_row_def
      select_one_def sample_allows)
  have b: "sc_profile_id sample_session_request = Some [112]" "length (sc_name sample_session_request) = 1"
    "length (sc_description sample_session_request) = 1" "i_id alice = [97]"
    by (simp_all add: sample_session_request_def alice_def)
  have i: "insert_session [111] sample_session_request sample_row sample_db1 =
     (Inr (), sample_db1\<lparr>db_sessions := [sample_row]\<rparr>)"
    using c by (simp add: insert_session_def write_sessions_def sample_db1_def empty_db_def)
  show ?thesis
    by (simp add: reserve_session_def sample_texts sample_valid b bindS_def atomically_def p i
      sample_row_def [symmetric] sample_db2_def [symmetric] Let_def)
qed

lemma sample_reserve:
  "snd (exec_store sample_env (ReserveSession [115] [111] alice sample_session_request 0) sample_db1) = sample_db2"
  using snd_read [of sample_db2 "session_unchecked [111] [115]"] by (simp add: sample_reserve_call)

definition sample_urls :: sealed_urls where
  "sample_urls = (case seal_provider plain_box sample_nonces [111] [115] sample_provider of
     Inr u \<Rightarrow> u | Inl _ \<Rightarrow> \<lparr>sl_cdp = [], sl_live = [], sl_recording = None\<rparr>)"

lemma sample_seal: "seal_provider plain_box sample_nonces [111] [115] sample_provider = Inr sample_urls"
proof -
  have ctx: "validate_context (session_secret_context [111] [115] (lit ''provider-cdp-url'')) = Inr ()"
    "validate_context (session_secret_context [111] [115] (lit ''provider-live-url'')) = Inr ()"
    by (simp_all add: validate_context_def session_secret_context_def str_simps)
  have "sb_encrypt plain_box n m a = Some (length a # a @ m)" for n m a by (simp add: plain_box_def)
  then have "is_ok (seal_provider plain_box sample_nonces [111] [115] sample_provider)"
    by (simp add: seal_provider_def seal_field_def seal_for_def ctx sample_provider_def optE_def)
  then show ?thesis by (auto simp: sample_urls_def is_ok_iff)
qed

definition sample_active :: session_row where
  "sample_active = sample_row\<lparr>se_status := Active, se_provider_session_id := Some [118],
     se_cdp_url_enc := Some (sl_cdp sample_urls), se_live_url_enc := Some (sl_live sample_urls),
     se_recording_url_enc := sl_recording sample_urls\<rparr>"

definition sample_db3 :: db where
  "sample_db3 = sample_db2\<lparr>db_sessions := [sample_active]\<rparr>"

lemma sample_activate_call:
  "activate_session plain_box sample_nonces [111] [115] sample_provider 1 sample_db2 =
     session_unchecked [111] [115] sample_db3"
proof -
  have row: "db_sessions sample_db2 = [sample_row]"
    by (simp add: sample_db2_def insert_session_side_rows_def)
  have due: "se_org_id sample_row = [111]" "se_id sample_row = [115]" "se_status sample_row = Starting"
    "se_expires_at sample_row > timestamp 1"
    by (simp_all add: sample_row_def reserved_row_def timestamp_def sample_session_request_def ttl_seconds_def
        NANOS_PER_SECOND_def)
  have c: "list_all session_checks [sample_active]" "sessions_unique [sample_active]"
    by (simp_all add: sample_active_def sample_row_def reserved_row_def sample_session_request_def sample_texts
        session_checks_def sql_length_def sessions_unique_def live_profiles_def List.map_filter_def)
  have w: "update_where (\<lambda>s. se_org_id s = [111] \<and> se_id s = [115] \<and> se_status s = Starting \<and>
        se_expires_at s > timestamp 1)
      (\<lambda>s. s\<lparr>se_status := Active, se_provider_session_id := Some [118],
              se_cdp_url_enc := Some (sl_cdp sample_urls), se_live_url_enc := Some (sl_live sample_urls),
              se_recording_url_enc := sl_recording sample_urls\<rparr>) [sample_row] = [sample_active]"
    by (simp add: update_where_def due sample_active_def)
  have p: "pv_id sample_provider = [118]" "pv_cdp_url sample_provider = [99]" "pv_live_url sample_provider = [108]"
    by (simp_all add: sample_provider_def)
  show ?thesis
    by (simp add: activate_session_def p sample_texts sample_seal update_sessions_def row w bindS_def
        write_sessions_def c [simplified] affected_def due sample_db3_def [symmetric])
qed

lemma sample_activate:
  "snd (exec_store sample_env (ActivateSession sample_nonces [111] [115] sample_provider 1) sample_db2) = sample_db3"
  using snd_read [of sample_db3 "session_unchecked [111] [115]"]
  by (simp add: sample_activate_call sample_env_def)

lemma parse_zero: "parse_cost_micros (lit ''0'') = Inr 0"
  by code_simp

lemma sample_ttl: "ttl_from_dates 0 900000 = Inr Minutes15"
  by (simp add: ttl_from_dates_def parse_timestamp_def num_seconds_def ttl_all_def ttl_seconds_def
      NANOS_PER_SECOND_def Let_def)

lemma sample_read: "\<exists>ses. session_unchecked [111] [115] sample_db3 = (Inr ses, sample_db3)"
  by (simp add: session_unchecked_def session_row_of_def find_session_def map_session_def map_session_model_def
      usage_total_of_def usage_total_step_def checked_total_def add_money_def money_of_def
      default_usage_total_def default_money_def
      usage_unchecked_def sample_db3_def sample_db2_def insert_session_side_rows_def sample_db1_def empty_db_def
      Let_def sample_row_def reserved_row_def sample_session_request_def select_one_def sample_active_def
      map_usage_def parse_zero nonnegative_def split_proxy_cost_def checked_add_u64_def bindS_def
      timestamp_def ttl_seconds_def NANOS_PER_SECOND_def sample_ttl)

lemma sample_run:
  "run (store_step sample_env) empty_db
     [CreateProfile [112] [111] alice sample_profile [119] [102] 0,
      ReserveSession [115] [111] alice sample_session_request 0,
      ActivateSession sample_nonces [111] [115] sample_provider 1] sample_db3"
proof -
  have "run (store_step sample_env) empty_db [] empty_db" by (rule run_nil)
  from run_snoc [where step = "store_step sample_env", OF this, of _ sample_db1]
  have "run (store_step sample_env) empty_db
      [CreateProfile [112] [111] alice sample_profile [119] [102] 0] sample_db1"
    by (simp add: store_step_def sample_create del: exec_store.simps)
  from run_snoc [where step = "store_step sample_env", OF this, of _ sample_db2]
  have "run (store_step sample_env) empty_db
      [CreateProfile [112] [111] alice sample_profile [119] [102] 0,
       ReserveSession [115] [111] alice sample_session_request 0] sample_db2"
    by (simp add: store_step_def sample_reserve del: exec_store.simps)
  from run_snoc [where step = "store_step sample_env", OF this, of _ sample_db3]
  show ?thesis by (simp add: store_step_def sample_activate del: exec_store.simps)
qed

section \<open>Invariant and histories\<close>

lemma live_profiles_distinct:
  "distinct (live_profiles rows) \<Longrightarrow> i < length rows \<Longrightarrow> j < length rows \<Longrightarrow>
   is_live (rows ! i) \<Longrightarrow> is_live (rows ! j) \<Longrightarrow> se_profile_id (rows ! i) = Some p \<Longrightarrow>
   se_profile_id (rows ! j) = Some p \<Longrightarrow> i = j"
proof (induction rows arbitrary: i j)
  case (Cons r rows)
  have mem: "p \<in> set (live_profiles rows)" if "k < length rows" "is_live (rows ! k)" "se_profile_id (rows ! k) = Some p" for k
    using that by (force simp: live_profiles_def List.map_filter_def)
  have d: "distinct (live_profiles rows)" "is_live r \<Longrightarrow> se_profile_id r = Some p \<Longrightarrow> p \<notin> set (live_profiles rows)"
    using Cons.prems(1) by (auto simp: live_profiles_def List.map_filter_def split: if_splits option.splits)
  show ?case
    using Cons.prems d mem Cons.IH [OF d(1)] by (cases i; cases j) auto
qed simp

text \<open>C3: In every history of the store the rows of all tables fit together: keys and the partial
  index of live slots hold, an active or ending session has its provider session and both sealed
  URLs, a session has an end time exactly when it is no longer live, its deadline is one of
  the six supported TTLs after its start, every session has one recording, one usage row and its
  initiator as a participant, a live session's profile is active, every profile's owner is on its
  access list, and every usage row has non-negative counters and readable costs.\<close>

theorem store_invariant:
  assumes "run (store_step v) empty_db es db"
  shows "db_inv db"
  using store.reachable_inv [OF refl assms] .

theorem store_invariant_witness: "db_inv sample_db3 \<and> db_sessions sample_db3 \<noteq> []"
  using store_invariant [OF sample_run] by (simp add: sample_db3_def)

text \<open>C4: A profile never has two live sessions, and the profile of a live session is an active
  profile of the same organization.\<close>

theorem one_live_session_per_profile:
  assumes "run (store_step v) empty_db es db"
    and "i < length (db_sessions db)" "is_live (db_sessions db ! i)" "se_profile_id (db_sessions db ! i) = Some pid"
  shows "(\<forall>j < length (db_sessions db). is_live (db_sessions db ! j) \<and>
             se_profile_id (db_sessions db ! j) = Some pid \<longrightarrow> j = i) \<and>
         (\<exists>p \<in> set (db_profiles db). pr_id p = pid \<and> pr_org_id p = se_org_id (db_sessions db ! i) \<and>
             pr_status p = ProfileActive)"
proof -
  have inv: "db_inv db" by (rule store.reachable_inv [OF refl assms(1)])
  then have d: "distinct (live_profiles (db_sessions db))" by (simp add: db_inv_def sessions_unique_def)
  have "live_on_active db" using inv by (simp add: db_inv_def)
  with nth_mem [OF assms(2)] assms(4) obtain p where "p \<in> set (db_profiles db)" "profile_supports (db_sessions db ! i) p"
    unfolding live_on_active_def by fastforce
  then have "\<exists>p \<in> set (db_profiles db). pr_id p = pid \<and> pr_org_id p = se_org_id (db_sessions db ! i) \<and>
             pr_status p = ProfileActive"
    using assms(3,4) by (auto simp: profile_supports_def)
  then show ?thesis using live_profiles_distinct [OF d _ assms(2) _ assms(3) _ assms(4)] by blast
qed

lemma sample_session: "db_sessions sample_db3 ! 0 = sample_active" "length (db_sessions sample_db3) = 1"
  "is_live sample_active" "se_profile_id sample_active = Some [112]" "se_status sample_active = Active"
  "se_id sample_active = [115]" "se_org_id sample_active = [111]"
  by (simp_all add: sample_db3_def sample_active_def is_live_def live_state_def sample_row_def
      reserved_row_def sample_session_request_def)

theorem one_live_session_per_profile_witness:
  "\<exists>p \<in> set (db_profiles sample_db3). pr_id p = [112] \<and> pr_status p = ProfileActive"
  using one_live_session_per_profile [OF sample_run, of 0 "[112]"] sample_session by auto

text \<open>C8: Through every later history of the store methods that the service calls, a session keeps its
  identity, its initiator and its times, its status only moves along the lifecycle edges, a bound
  provider session and its sealed URLs are never replaced, and a finished session keeps its status,
  end time and end note. (\<open>remember_identity_projection\<close>, which renames a principal and which no part of
  the service calls, is not among these methods.)\<close>

theorem session_history:
  assumes "run (store_step v) empty_db es0 db0" "run (store_step v) db0 es db"
    and "i < length (db_sessions db0)"
  shows "i < length (db_sessions db) \<and> row_evolves (db_sessions db0 ! i) (db_sessions db ! i) \<and>
     lifecycle_edge\<^sup>*\<^sup>* (se_status (db_sessions db0 ! i)) (se_status (db_sessions db ! i)) \<and>
     (\<not> is_live (db_sessions db0 ! i) \<longrightarrow> se_status (db_sessions db ! i) = se_status (db_sessions db0 ! i))"
proof -
  have "store_good db0 db" by (rule run_good [OF assms(2) store.reachable_inv [OF refl assms(1)]])
  with assms(3) have i: "i < length (db_sessions db)" and
    e: "row_evolves (db_sessions db0 ! i) (db_sessions db ! i)"
    by (auto simp: store_good_def db_evolves_def rows_evolve_def)
  then have "lifecycle_path (se_status (db_sessions db0 ! i)) (se_status (db_sessions db ! i))"
    by (simp add: row_evolves_def)
  then have "lifecycle_edge\<^sup>*\<^sup>* (se_status (db_sessions db0 ! i)) (se_status (db_sessions db ! i))"
    by (simp only: lifecycle_path_edges)
  with i e row_evolves_finished [OF e] show ?thesis by blast
qed

lemma sample_end_run:
  "run (store_step sample_env) sample_db3 [FinalizeEnd [111] [115] 5]
     (snd (exec_store sample_env (FinalizeEnd [111] [115] 5) sample_db3))"
  using run_snoc [where step = "store_step sample_env", OF run_nil [of _ sample_db3], of "FinalizeEnd [111] [115] 5"]
  by (simp add: store_step_def del: exec_store.simps)

theorem session_history_witness:
  "row_evolves sample_active (db_sessions (snd (exec_store sample_env (FinalizeEnd [111] [115] 5) sample_db3)) ! 0)"
  using session_history [OF sample_run sample_end_run, of 0] sample_session by simp

text \<open>C16: Metered usage never decreases: over any history a session's counters stay or grow and a
  counter once reported stays reported, whatever active or terminal snapshots arrive.\<close>

theorem usage_history_monotone:
  assumes "run (store_step v) empty_db es0 db0" "run (store_step v) db0 es db"
    and "i < length (db_usage db0)"
  shows "i < length (db_usage db) \<and>
     us_session_id (db_usage db ! i) = us_session_id (db_usage db0 ! i) \<and>
     us_browser_millis (db_usage db0 ! i) \<le> us_browser_millis (db_usage db ! i) \<and>
     counter_le (us_proxy_bytes_in (db_usage db0 ! i)) (us_proxy_bytes_in (db_usage db ! i)) \<and>
     counter_le (us_proxy_bytes_out (db_usage db0 ! i)) (us_proxy_bytes_out (db_usage db ! i)) \<and>
     counter_le (us_proxy_bytes_unclassified (db_usage db0 ! i)) (us_proxy_bytes_unclassified (db_usage db ! i))"
proof -
  have "store_good db0 db" by (rule run_good [OF assms(2) store.reachable_inv [OF refl assms(1)]])
  with assms(3) show ?thesis by (auto simp: store_good_def db_evolves_def rows_evolve_def usage_le_def)
qed

theorem usage_history_monotone_witness:
  "us_session_id (db_usage (snd (exec_store sample_env (FinalizeEnd [111] [115] 5) sample_db3)) ! 0) =
     us_session_id (db_usage sample_db3 ! 0)"
proof -
  have "length (db_usage sample_db3) = 1"
    by (simp add: sample_db3_def sample_db2_def insert_session_side_rows_def sample_db1_def empty_db_def Let_def)
  with usage_history_monotone [OF sample_run sample_end_run, of 0] show ?thesis by simp
qed

text \<open>C17: A trashed recording stays trashed with its first trash time, and a recording never goes back
  to an earlier state, whatever workers answer late.\<close>

theorem recording_history:
  assumes "run (store_step v) empty_db es0 db0" "run (store_step v) db0 es db"
    and "i < length (db_recordings db0)"
  shows "i < length (db_recordings db) \<and>
     re_session_id (db_recordings db ! i) = re_session_id (db_recordings db0 ! i) \<and>
     re_owner_id (db_recordings db ! i) = re_owner_id (db_recordings db0 ! i) \<and>
     recording_rank (re_status (db_recordings db0 ! i)) \<le> recording_rank (re_status (db_recordings db ! i)) \<and>
     (re_status (db_recordings db0 ! i) = RecTrashed \<longrightarrow> re_status (db_recordings db ! i) = RecTrashed) \<and>
     option_kept (re_trashed_at (db_recordings db0 ! i)) (re_trashed_at (db_recordings db ! i))"
proof -
  have "store_good db0 db" by (rule run_good [OF assms(2) store.reachable_inv [OF refl assms(1)]])
  with assms(3) have i: "i < length (db_recordings db)" and
    e: "recording_evolves (db_recordings db0 ! i) (db_recordings db ! i)"
    by (auto simp: store_good_def db_evolves_def rows_evolve_def)
  have "\<not> recording_rank RecTrashed < recording_rank s" for s by (cases s) simp_all
  with i e show ?thesis by (auto simp: recording_evolves_def)
qed

theorem recording_history_witness:
  "re_owner_id (db_recordings (snd (exec_store sample_env (FinalizeEnd [111] [115] 5) sample_db3)) ! 0) = [97]"
proof -
  have "length (db_recordings sample_db3) = 1" "re_owner_id (db_recordings sample_db3 ! 0) = [97]"
    by (simp_all add: sample_db3_def sample_db2_def insert_session_side_rows_def sample_db1_def empty_db_def
        sample_row_def reserved_row_def alice_def)
  with recording_history [OF sample_run sample_end_run, of 0] show ?thesis by simp
qed

end
