(* ===== verification/SB_Guarantees.thy ===== *)
theory SB_Guarantees
  imports SB_Protocols
begin

text \<open>
  What single methods of the store promise in a consistent database: the live slot, the sealed
  runtime, the ends of a session, the leases of the reaper and the compare-and-swap of the
  recording workers.
\<close>

section \<open>Successful methods, step by step\<close>

lemma bindS_Inr_iff:
  "bindS m f s = (Inr y, s'') \<longleftrightarrow> (\<exists>x s'. m s = (Inr x, s') \<and> f x s' = (Inr y, s''))"
  by (rule bindS_cases [of m s f]) auto

lemma liftS_Inr_iff: "liftS r s = (Inr x, s') \<longleftrightarrow> r = Inr x \<and> s' = s"
  by auto

lemma readS_Inr_iff: "readS g s = (Inr x, s') \<longleftrightarrow> g s = Inr x \<and> s' = s"
  by auto

lemma errS_not_Inr: "errS e s = (Inr x, s') \<longleftrightarrow> False"
  by simp

lemma okS_Inr_iff: "okS v s = (Inr x, s') \<longleftrightarrow> v = x \<and> s' = s"
  by auto

lemma atomically_Inr_iff: "atomically m s = (Inr x, s') \<longleftrightarrow> m s = (Inr x, s')"
  by (rule atomically_cases [of m s]) auto

lemma if_Inr_iff: "(if c then m else k) s = r \<longleftrightarrow> (c \<and> m s = r) \<or> (\<not> c \<and> k s = r)"
  by simp

lemmas Inr_iffs = bindS_Inr_iff liftS_Inr_iff readS_Inr_iff errS_not_Inr okS_Inr_iff
  atomically_Inr_iff if_Inr_iff

section \<open>Looking a session up after an update\<close>

lemma find_session_Some:
  "find_session org sid db = Some r \<Longrightarrow> r \<in> set (db_sessions db) \<and> se_org_id r = org \<and> se_id r = sid"
  unfolding find_session_def by (blast dest: select_one_Some)

lemma find_session_unique:
  assumes "db_inv db" "r \<in> set (db_sessions db)"
  shows "find_session (se_org_id r) (se_id r) db = Some r"
proof -
  obtain x where x: "find_session (se_org_id r) (se_id r) db = Some x"
    using assms(2) unfolding find_session_def
    by (cases "select_one (\<lambda>s. se_org_id s = se_org_id r \<and> se_id s = se_id r) (db_sessions db)")
       (auto simp: select_one_None)
  with find_session_Some have "x \<in> set (db_sessions db)" "se_id x = se_id r" by blast+
  with assms have "x = r"
    using distinct_key [of se_id "db_sessions db" x r] by (simp add: db_inv_def sessions_unique_def)
  with x show ?thesis by simp
qed

lemma select_one_map:
  "(\<And>r. Q (g r) \<longleftrightarrow> Q r) \<Longrightarrow> select_one Q (map g rows) = map_option g (select_one Q rows)"
  unfolding select_one_def by (induction rows) auto

lemma find_session_update:
  assumes "\<And>r. P r \<Longrightarrow> se_id (f r) = se_id r \<and> se_org_id (f r) = se_org_id r"
  shows "find_session org sid (db\<lparr>db_sessions := update_where P f (db_sessions db)\<rparr>) =
         map_option (\<lambda>r. if P r then f r else r) (find_session org sid db)"
  unfolding find_session_def update_where_def
  by (simp, rule select_one_map) (use assms in auto)

lemma affected_pos: "affected P rows \<noteq> 0 \<longleftrightarrow> (\<exists>r \<in> set rows. P r)"
  by (auto simp: affected_def filter_empty_conv)

lemma affected_zero: "affected P rows = 0 \<longleftrightarrow> (\<forall>r \<in> set rows. \<not> P r)"
  by (auto simp: affected_def filter_empty_conv)

lemma update_where_mem: "r \<in> set rows \<Longrightarrow> (if P r then f r else r) \<in> set (update_where P f rows)"
  unfolding update_where_def by simp

lemma update_where_id: "(\<forall>r \<in> set rows. \<not> P r) \<Longrightarrow> update_where P f rows = rows"
  by (simp add: update_where_def map_idI)

lemma update_sessions_none:
  assumes "db_inv db" "\<forall>r \<in> set (db_sessions db). \<not> P r"
  shows "update_sessions P f db = (Inr 0, db)"
proof -
  have "update_where P f (db_sessions db) = db_sessions db" by (rule update_where_id [OF assms(2)])
  moreover have "affected P (db_sessions db) = 0" using assms(2) by (simp add: affected_zero)
  ultimately show ?thesis using assms(1)
    by (simp add: update_sessions_def write_sessions_def bindS_def db_inv_def)
qed

lemma update_sessions_Inr:
  assumes "update_sessions P f db = (Inr n, db')"
  shows "db' = db\<lparr>db_sessions := update_where P f (db_sessions db)\<rparr>" "n = affected P (db_sessions db)"
  by (rule update_sessions_result [of P f db]; use assms in simp)+

text \<open>An update of one session by its key.\<close>

lemma one_session:
  assumes "db_inv db" "r \<in> set (db_sessions db)" "se_org_id r = org" "se_id r = sid"
  shows "(\<exists>x \<in> set (db_sessions db). se_org_id x = org \<and> se_id x = sid \<and> Q x) \<longleftrightarrow> Q r"
  using find_session_unique [OF assms(1)] assms(2-4) by (metis option.inject)

section \<open>Sealing and opening the provider's URLs\<close>

lemma open_seal_field:
  assumes "secret_box_ok box" "length (nonce field) = 12" "seal_field box nonce org sid field t = Inr e"
  shows "open_field box org sid field e = Inr t"
  using seal_open [OF assms(1,2)] assms(3) by (simp add: seal_field_def open_field_def)

lemma runtime_of_sealed:
  assumes box: "secret_box_ok box" "\<And>f. length (nonce f) = 12"
    and urls: "seal_provider box nonce org sid provider = Inr urls"
    and row: "se_provider_session_id r = Some (pv_id provider)" "se_cdp_url_enc r = Some (sl_cdp urls)"
      "se_live_url_enc r = Some (sl_live urls)" "se_recording_url_enc r = sl_recording urls"
  shows "runtime_from_row box org sid r = Inr \<lparr>rt_provider_session_id = pv_id provider,
     rt_cdp_url = pv_cdp_url provider, rt_live_url = pv_live_url provider,
     rt_recording_url = pv_recording_url provider\<rparr>"
proof -
  from urls obtain cdp live rec where s:
    "seal_field box nonce org sid ''provider-cdp-url'' (pv_cdp_url provider) = Inr cdp"
    "seal_field box nonce org sid ''provider-live-url'' (pv_live_url provider) = Inr live"
    "optE (seal_field box nonce org sid ''provider-recording-url'') (pv_recording_url provider) = Inr rec"
    and u: "urls = \<lparr>sl_cdp = cdp, sl_live = live, sl_recording = rec\<rparr>"
    by (auto simp: seal_provider_def)
  have "optE (open_field box org sid ''provider-recording-url'') rec = Inr (pv_recording_url provider)"
    using s(3) open_seal_field [OF box] by (cases "pv_recording_url provider") (auto simp: optE_def)
  then show ?thesis
    using open_seal_field [OF box s(1)] open_seal_field [OF box s(2)]
    by (simp add: runtime_from_row_def row u)
qed

section \<open>Activation\<close>

text \<open>A successful activation is the first update: it found the session starting and unexpired.\<close>

lemma activate_success:
  assumes "activate_session box nonce org sid provider now db = (Inr ses, db')" "db_inv db"
  obtains r urls where "find_session org sid db = Some r" "se_status r = Starting"
    "timestamp now < se_expires_at r" "seal_provider box nonce org sid provider = Inr urls"
    "find_session org sid db' = Some (r\<lparr>se_status := Active, se_provider_session_id := Some (pv_id provider),
       se_cdp_url_enc := Some (sl_cdp urls), se_live_url_enc := Some (sl_live urls),
       se_recording_url_enc := sl_recording urls\<rparr>)"
    "db_profiles db' = db_profiles db" "db_participants db' = db_participants db"
    "session_unchecked org sid db' = (Inr ses, db')"
proof -
  let ?P = "\<lambda>s. se_org_id s = org \<and> se_id s = sid \<and> se_status s = Starting \<and> se_expires_at s > timestamp now"
  let ?f = "\<lambda>urls s. s\<lparr>se_status := Active, se_provider_session_id := Some (pv_id provider),
              se_cdp_url_enc := Some (sl_cdp urls), se_live_url_enc := Some (sl_live urls),
              se_recording_url_enc := sl_recording urls\<rparr>"
  from assms(1) obtain urls n db1 where urls: "seal_provider box nonce org sid provider = Inr urls"
    and up: "update_sessions ?P (?f urls) db = (Inr n, db1)"
    and rest: "n \<noteq> 0" "session_unchecked org sid db1 = (Inr ses, db')"
    unfolding activate_session_def Inr_iffs
    by (elim exE conjE disjE; hypsubst?; blast)
  have snd: "snd (session_unchecked org sid db1) = db1" by (rule snd_read) simp
  from rest(2) snd have "db' = db1" by simp
  from update_sessions_Inr [OF up] have db1: "db1 = db\<lparr>db_sessions := update_where ?P (?f urls) (db_sessions db)\<rparr>"
    and n: "n = affected ?P (db_sessions db)" .
  from rest(1) obtain r where r: "r \<in> set (db_sessions db)" "?P r"
    unfolding n affected_pos by blast
  from find_session_unique [OF assms(2) r(1)] r(2) have f: "find_session org sid db = Some r" by simp
  have "find_session org sid db1 = map_option (\<lambda>r. if ?P r then ?f urls r else r) (find_session org sid db)"
    unfolding db1 by (rule find_session_update) simp
  then show thesis
    using that [OF f _ _ urls] r(2) f rest(2) \<open>db' = db1\<close> db1 by simp
qed

text \<open>C9: What the browser provider handed over at activation is what an authorized caller gets back:
  after a successful activation, until the deadline, a caller on the current access list (or a
  participant of an incognito session) receives exactly the provider's session and URLs, and
  the session's deadline.\<close>

theorem activation_connection_roundtrip:
  assumes "run (store_step v) empty_db es db" "secret_box_ok box" "\<forall>f. length (nonce f) = 12"
    and "activate_session box nonce org sid provider now db = (Inr ses, db')"
    and "find_session org sid db = Some r" "connection_authorized actor r db"
    and "later < parse_timestamp (se_expires_at r)"
  shows "connection_runtime box org actor sid later db' =
     (Inr (\<lparr>rt_provider_session_id = pv_id provider, rt_cdp_url = pv_cdp_url provider,
        rt_live_url = pv_live_url provider, rt_recording_url = pv_recording_url provider\<rparr>,
        parse_timestamp (se_expires_at r)), db')"
proof -
  have inv: "db_inv db" by (rule store.reachable_inv [OF refl assms(1)])
  from activate_success [OF assms(4) inv] obtain urls where
    urls: "seal_provider box nonce org sid provider = Inr urls" and
    f: "find_session org sid db' = Some (r\<lparr>se_status := Active, se_provider_session_id := Some (pv_id provider),
       se_cdp_url_enc := Some (sl_cdp urls), se_live_url_enc := Some (sl_live urls),
       se_recording_url_enc := sl_recording urls\<rparr>)" (is "_ = Some ?r'")
    and p: "db_profiles db' = db_profiles db" "db_participants db' = db_participants db"
    using assms(5) by (metis option.inject)
  have a: "connection_authorized actor ?r' db'"
    using assms(6) p by (cases "se_profile_id r") (simp_all add: connection_authorized_def is_session_actor_def)
  have rt: "runtime_from_row box org sid ?r' = Inr \<lparr>rt_provider_session_id = pv_id provider,
     rt_cdp_url = pv_cdp_url provider, rt_live_url = pv_live_url provider,
     rt_recording_url = pv_recording_url provider\<rparr>"
    by (rule runtime_of_sealed [OF assms(2) _ urls]) (use assms(3) in simp_all)
  show ?thesis
    using a rt f assms(7)
    by (simp add: connection_runtime_def atomically_def session_row_of_def bindS_def Let_def)
qed

text \<open>C10: A connection is handed out only for a session that is active and not past its deadline,
  and to a caller who is on the current access list of its active profile, or who took part in
  the session when it is incognito; nothing is written.\<close>

theorem connection_runtime_sound:
  assumes "connection_runtime box org actor sid now db = (Inr (runtime, expires), db')"
  shows "db' = db \<and> (\<exists>row. find_session org sid db = Some row \<and> se_status row = Active \<and>
     now < expires \<and> expires = parse_timestamp (se_expires_at row) \<and>
     runtime_from_row box org sid row = Inr runtime \<and>
     (case se_profile_id row of
        Some pid \<Rightarrow> \<exists>p \<in> set (db_profiles db). pr_id p = pid \<and> pr_org_id p = org \<and>
                      pr_status p = ProfileActive \<and> allows (pr_access p) actor
      | None \<Rightarrow> \<exists>q \<in> set (db_participants db). pt_session_id q = sid \<and>
                   pt_actor_id q \<in> set (principal_ids actor)))"
proof -
  from assms obtain row where row: "find_session org sid db = Some row" "db' = db"
    and auth: "connection_authorized actor row db"
    and act: "\<not> (se_status row \<noteq> Active \<or> parse_timestamp (se_expires_at row) \<le> now)"
    and rt: "runtime_from_row box org sid row = Inr runtime" "expires = parse_timestamp (se_expires_at row)"
    unfolding connection_runtime_def Inr_iffs session_row_of_def Let_def
    by (auto split: if_splits sum.splits)
  have "se_org_id row = org" "se_id row = sid" using find_session_Some [OF row(1)] by auto
  with auth have "case se_profile_id row of
        Some pid \<Rightarrow> \<exists>p \<in> set (db_profiles db). pr_id p = pid \<and> pr_org_id p = org \<and>
                      pr_status p = ProfileActive \<and> allows (pr_access p) actor
      | None \<Rightarrow> \<exists>q \<in> set (db_participants db). pt_session_id q = sid \<and>
                   pt_actor_id q \<in> set (principal_ids actor)"
    by (auto simp: connection_authorized_def is_session_actor_def list_ex_iff
        split: option.splits dest: select_one_Some)
  with row act rt show ?thesis by auto
qed

lemma sample_found: "find_session [111] [115] sample_db2 = Some sample_row"
  "find_session [111] [115] sample_db3 = Some sample_active"
  by (simp_all add: find_session_def sample_db2_def sample_db3_def insert_session_side_rows_def
      select_one_def sample_row_def reserved_row_def sample_active_def)

lemma sample_authorized: "connection_authorized alice sample_row sample_db2"
  by (simp add: connection_authorized_def sample_row_def reserved_row_def sample_session_request_def
      select_one_def sample_db2_def sample_db1_def insert_session_side_rows_def sample_profile_row_def
      sample_allows)

lemma sample_run2:
  "run (store_step sample_env) empty_db
     [CreateProfile [112] [111] alice sample_profile [119] [102] 0,
      ReserveSession [115] [111] alice sample_session_request 0] sample_db2"
proof -
  have "run (store_step sample_env) empty_db [] empty_db" by (rule run_nil)
  from run_snoc [where step = "store_step sample_env", OF this, of _ sample_db1]
  have "run (store_step sample_env) empty_db
      [CreateProfile [112] [111] alice sample_profile [119] [102] 0] sample_db1"
    by (simp add: store_step_def sample_create del: exec_store.simps)
  from run_snoc [where step = "store_step sample_env", OF this, of _ sample_db2]
  show ?thesis by (simp add: store_step_def sample_reserve del: exec_store.simps)
qed

lemma sample_deadline: "parse_timestamp (se_expires_at sample_row) = 900000000000"
  by (simp add: sample_row_def reserved_row_def sample_session_request_def timestamp_def ttl_seconds_def
      NANOS_PER_SECOND_def parse_timestamp_def)

theorem activation_connection_roundtrip_witness:
  "connection_runtime plain_box [111] alice [115] 2 sample_db3 =
     (Inr (\<lparr>rt_provider_session_id = [118], rt_cdp_url = [99], rt_live_url = [108],
        rt_recording_url = None\<rparr>, 900000000000), sample_db3)"
proof -
  obtain ses where a: "activate_session plain_box sample_nonces [111] [115] sample_provider 1 sample_db2 = (Inr ses, sample_db3)"
    using sample_activate_call sample_read by auto
  have n: "\<forall>f. length (sample_nonces f) = 12" by (simp add: sample_nonces_def)
  from activation_connection_roundtrip [OF sample_run2 plain_box_laws(1) n a sample_found(1) sample_authorized, of 2]
  show ?thesis by (simp add: sample_deadline sample_provider_def)
qed

theorem connection_runtime_sound_witness:
  "\<exists>rt expires. connection_runtime plain_box [111] alice [115] 2 sample_db3 = (Inr (rt, expires), sample_db3) \<and>
     2 < expires \<and> (\<exists>p \<in> set (db_profiles sample_db3). pr_status p = ProfileActive \<and> allows (pr_access p) alice)"
proof -
  obtain urls where u: "runtime_from_row plain_box [111] [115] sample_active = Inr urls"
    using runtime_of_sealed [OF plain_box_laws(1) _ sample_seal, of sample_active]
    by (auto simp: sample_nonces_def sample_active_def sample_provider_def)
  have "connection_authorized alice sample_active sample_db3"
    using sample_authorized by (simp add: connection_authorized_def sample_active_def sample_db3_def
        sample_row_def reserved_row_def sample_session_request_def)
  moreover have "parse_timestamp (se_expires_at sample_active) = 900000000000"
    using sample_deadline by (simp add: sample_active_def)
  ultimately have c: "connection_runtime plain_box [111] alice [115] 2 sample_db3 = (Inr (urls, 900000000000), sample_db3)"
    by (simp add: connection_runtime_def atomically_def session_row_of_def bindS_def Let_def sample_found
        sample_session u)
  from connection_runtime_sound [OF c] sample_session(4) c show ?thesis
    by (auto simp: sample_found)
qed

section \<open>Ending\<close>

lemma pend_recording_sessions [simp]:
  "db_sessions (snd (pend_recording_of sid db)) = db_sessions db"
  by (simp add: pend_recording_of_def update_recordings_def)

lemma pend_recording_done:
  "\<forall>r \<in> set (db_recordings (snd (pend_recording_of sid db))). re_session_id r = sid \<longrightarrow> re_status r \<noteq> RecRecording"
proof (intro ballI impI)
  fix x assume "x \<in> set (db_recordings (snd (pend_recording_of sid db)))" "re_session_id x = sid"
  then obtain r where "x = (if re_session_id r = sid \<and> re_status r = RecRecording
      then r\<lparr>re_status := RecPending\<rparr> else r)"
    by (simp add: pend_recording_of_def update_recordings_def) (erule in_update_where)
  with \<open>re_session_id x = sid\<close> show "re_status x \<noteq> RecRecording" by (simp split: if_splits)
qed

text \<open>A successful \<open>begin_end_session\<close> leaves the session ending.\<close>

lemma begin_end_success:
  assumes "begin_end_session box org actor sid note db = (Inr rt, db1)" "db_inv db"
  shows "\<exists>row row1. find_session org sid db = Some row \<and> find_session org sid db1 = Some row1 \<and>
     (se_status row = Active \<or> se_status row = Ending) \<and> se_status row1 = Ending \<and>
     se_end_note row1 = (if se_status row = Active then Some (trim note) else se_end_note row) \<and>
     se_profile_id row1 = se_profile_id row \<and>
     runtime_from_row box org sid row1 = Inr rt \<and> db_inv db1"
proof -
  let ?P = "\<lambda>s. se_org_id s = org \<and> se_id s = sid \<and> se_status s = Active"
  let ?f = "\<lambda>s. s\<lparr>se_status := Ending, se_end_note := Some (trim note)\<rparr>"
  have "\<exists>n row1 x db0. session_get org actor sid db = (Inr x, db0) \<and> update_sessions ?P ?f db0 = (Inr n, db1) \<and>
      find_session org sid db1 = Some row1 \<and> se_status row1 = Ending \<and> runtime_from_row box org sid row1 = Inr rt"
    using assms(1) unfolding begin_end_session_def session_row_of_def Inr_iffs ok_or_simps
    by (elim exE conjE disjE; hypsubst?; blast)
  then obtain n row1 x db0 where get: "session_get org actor sid db = (Inr x, db0)"
    and up: "update_sessions ?P ?f db0 = (Inr n, db1)"
    and row1: "find_session org sid db1 = Some row1" "se_status row1 = Ending"
      "runtime_from_row box org sid row1 = Inr rt" by blast
  have "snd (session_get org actor sid db) = db" by (rule snd_read) simp
  with get have "db0 = db" by simp
  with update_sessions_Inr [OF up] have db1: "db1 = db\<lparr>db_sessions := update_where ?P ?f (db_sessions db)\<rparr>" by simp
  have "find_session org sid db1 = map_option (\<lambda>r. if ?P r then ?f r else r) (find_session org sid db)"
    unfolding db1 by (rule find_session_update) simp
  with row1 obtain row where row: "find_session org sid db = Some row" "row1 = (if ?P row then ?f row else row)"
    by auto
  have "store_good db db1"
    using keepsD [OF keeps_begin_end_session [of db box org actor sid "note"] store_goodI [OF assms(2)]] assms(1)
    by simp
  then have "db_inv db1" by (simp add: store_good_def)
  with row row1 find_session_Some [OF row(1)] show ?thesis by (intro exI [of _ row] exI [of _ row1]) auto
qed

text \<open>An update that keeps the keys and starts no session cannot violate a constraint.\<close>

lemma live_profiles_update:
  assumes "\<And>r. r \<in> set rows \<Longrightarrow> P r \<Longrightarrow> se_profile_id (f r) = se_profile_id r \<and> (is_live (f r) \<longrightarrow> is_live r)"
    and "distinct (live_profiles rows)"
  shows "distinct (live_profiles (update_where P f rows))"
proof -
  have "distinct (live_profiles (update_where P f rows)) \<and>
      set (live_profiles (update_where P f rows)) \<subseteq> set (live_profiles rows)"
    using assms
    by (induction rows)
       (auto simp: live_profiles_def List.map_filter_def update_where_def split: if_splits)
  then show ?thesis by blast
qed

lemma map_filter_update:
  assumes "\<And>r. r \<in> set rows \<Longrightarrow> P r \<Longrightarrow> k (f r) = k r"
  shows "List.map_filter k (update_where P f rows) = List.map_filter k rows"
  using assms by (induction rows) (auto simp: List.map_filter_def update_where_def)

lemma update_sessions_ok:
  assumes inv: "db_inv db"
    and f: "\<And>r. r \<in> set (db_sessions db) \<Longrightarrow> P r \<Longrightarrow> se_id (f r) = se_id r \<and> se_name (f r) = se_name r \<and>
        se_description (f r) = se_description r \<and> se_profile_id (f r) = se_profile_id r \<and>
        se_provider_session_id (f r) = se_provider_session_id r \<and> (is_live (f r) \<longrightarrow> is_live r)"
  shows "update_sessions P f db =
     (Inr (affected P (db_sessions db)), db\<lparr>db_sessions := update_where P f (db_sessions db)\<rparr>)"
proof -
  let ?rows = "update_where P f (db_sessions db)"
  have "list_all session_checks ?rows"
    using inv f by (auto simp: db_inv_def list_all_iff update_where_def session_checks_def)
  moreover have "map se_id ?rows = map se_id (db_sessions db)"
    using f by (auto simp: update_where_def)
  moreover have "distinct (live_profiles ?rows)"
    using inv f by (intro live_profiles_update) (auto simp: db_inv_def sessions_unique_def)
  moreover have "List.map_filter se_provider_session_id ?rows = List.map_filter se_provider_session_id (db_sessions db)"
    by (rule map_filter_update) (use f in blast)
  ultimately have "list_all session_checks ?rows \<and> sessions_unique ?rows"
    using inv by (simp add: sessions_unique_def db_inv_def)
  then show ?thesis by (simp add: update_sessions_def write_sessions_def bindS_def)
qed

text \<open>Ending the live session of a profile frees its slot.\<close>

lemma slot_released:
  assumes inv: "db_inv db" and r: "r \<in> set (db_sessions db)" "is_live r" "se_profile_id r = Some pid"
    and s: "\<And>x. x \<in> set rows \<Longrightarrow> is_live x \<Longrightarrow> se_profile_id x = Some pid \<Longrightarrow>
        x \<in> set (db_sessions db) \<and> x \<noteq> r"
  shows "profile_busy org pid (db\<lparr>db_sessions := rows\<rparr>) = None"
proof -
  have d: "distinct (live_profiles (db_sessions db))" using inv by (simp add: db_inv_def sessions_unique_def)
  obtain i where i: "i < length (db_sessions db)" "db_sessions db ! i = r" using r(1) by (auto simp: in_set_conv_nth)
  have "\<not> (se_org_id x = org \<and> se_profile_id x = Some pid \<and> is_live x)" if "x \<in> set rows" for x
  proof
    assume x: "se_org_id x = org \<and> se_profile_id x = Some pid \<and> is_live x"
    with s that have "x \<in> set (db_sessions db)" "x \<noteq> r" by blast+
    then obtain j where j: "j < length (db_sessions db)" "db_sessions db ! j = x" by (auto simp: in_set_conv_nth)
    with live_profiles_distinct [OF d j(1) i(1)] x r i \<open>x \<noteq> r\<close> show False by simp
  qed
  then show ?thesis by (auto simp: profile_busy_def select_one_None)
qed

lemma finalize_end_state:
  assumes inv: "db_inv db" and row: "find_session org sid db = Some row" "se_status row = Ending"
  shows "snd (finalize_end_session org sid now db) = snd (pend_recording_of sid
     (db\<lparr>db_sessions := update_where (\<lambda>s. se_org_id s = org \<and> se_id s = sid \<and> se_status s = Ending)
        (\<lambda>s. s\<lparr>se_status := Ended, se_ended_at := Some (timestamp now)\<rparr>) (db_sessions db)\<rparr>))"
proof -
  let ?P = "\<lambda>s. se_org_id s = org \<and> se_id s = sid \<and> se_status s = Ending"
  let ?f = "\<lambda>s. s\<lparr>se_status := Ended, se_ended_at := Some (timestamp now)\<rparr>"
  let ?db = "db\<lparr>db_sessions := update_where ?P ?f (db_sessions db)\<rparr>"
  have up: "update_sessions ?P ?f db = (Inr (affected ?P (db_sessions db)), ?db)"
    by (rule update_sessions_ok [OF inv]) (auto simp: is_live_def live_state_def)
  have hit: "affected ?P (db_sessions db) \<noteq> 0"
    unfolding affected_pos using row find_session_Some [OF row(1)] by blast
  obtain n db2 where p: "pend_recording_of sid ?db = (Inr n, db2)"
    by (simp add: pend_recording_of_def update_recordings_def)
  have "snd (session_unchecked org sid db2) = db2" by (rule snd_read) simp
  then show ?thesis
    using hit p by (simp add: finalize_end_session_def bindS_def atomically_def up)
qed

text \<open>C18: The two halves of an end fit together: when the first half has handed out the runtime to
  stop, the second half records the end: the session is ended at that time with the note of the
  call that moved it to ending, its recording is no longer recording, and its profile is free.\<close>

theorem end_protocol:
  assumes "run (store_step v) empty_db es db"
    and "begin_end_session box org actor sid end_note db = (Inr rt, db1)"
  shows "\<exists>row row2. find_session org sid db = Some row \<and>
     find_session org sid (snd (finalize_end_session org sid now db1)) = Some row2 \<and>
     se_status row2 = Ended \<and> se_ended_at row2 = Some (timestamp now) \<and>
     se_end_note row2 = (if se_status row = Active then Some (trim end_note) else se_end_note row) \<and>
     (\<forall>r \<in> set (db_recordings (snd (finalize_end_session org sid now db1))).
        re_session_id r = sid \<longrightarrow> re_status r \<noteq> RecRecording) \<and>
     (\<forall>pid. se_profile_id row = Some pid \<longrightarrow>
        profile_busy org pid (snd (finalize_end_session org sid now db1)) = None)"
proof -
  let ?P = "\<lambda>s. se_org_id s = org \<and> se_id s = sid \<and> se_status s = Ending"
  let ?f = "\<lambda>s. s\<lparr>se_status := Ended, se_ended_at := Some (timestamp now)\<rparr>"
  let ?rows = "update_where ?P ?f (db_sessions db1)"
  have "db_inv db" by (rule store.reachable_inv [OF refl assms(1)])
  from begin_end_success [OF assms(2) this] obtain row row1 where
    row: "find_session org sid db = Some row" and row1: "find_session org sid db1 = Some row1" "se_status row1 = Ending"
    and note1: "se_end_note row1 = (if se_status row = Active then Some (trim end_note) else se_end_note row)"
    and pid: "se_profile_id row1 = se_profile_id row" and inv: "db_inv db1" by blast
  let ?db2 = "snd (finalize_end_session org sid now db1)"
  have db2: "?db2 = snd (pend_recording_of sid (db1\<lparr>db_sessions := ?rows\<rparr>))"
    by (rule finalize_end_state [OF inv row1])
  have sess: "db_sessions ?db2 = ?rows" unfolding db2 by simp
  have same: "find_session org sid ?db2 = find_session org sid (db1\<lparr>db_sessions := ?rows\<rparr>)"
    by (simp add: find_session_def sess)
  have hit: "?P row1" using row1 find_session_Some [OF row1(1)] by simp
  have "find_session org sid (db1\<lparr>db_sessions := ?rows\<rparr>) = map_option (\<lambda>r. if ?P r then ?f r else r) (find_session org sid db1)"
    by (rule find_session_update) simp
  with row1(1) hit have r2: "find_session org sid ?db2 = Some (?f row1)" by (simp add: same)
  have "\<forall>r \<in> set (db_recordings ?db2). re_session_id r = sid \<longrightarrow> re_status r \<noteq> RecRecording"
    unfolding db2 by (rule pend_recording_done)
  moreover have "profile_busy org p ?db2 = None" if "se_profile_id row = Some p" for p
  proof -
    have "profile_busy org p ?db2 = profile_busy org p (db1\<lparr>db_sessions := ?rows\<rparr>)"
      by (simp add: profile_busy_def sess)
    also have "\<dots> = None"
    proof (rule slot_released [OF inv])
      show "row1 \<in> set (db_sessions db1)" using find_session_Some [OF row1(1)] by blast
      show "is_live row1" using row1(2) by (simp add: is_live_def live_state_def)
      show "se_profile_id row1 = Some p" using pid that by simp
      fix x assume "x \<in> set ?rows" "is_live x" "se_profile_id x = Some p"
      then obtain y where "y \<in> set (db_sessions db1)" "x = (if ?P y then ?f y else y)" by (auto elim: in_update_where)
      with \<open>is_live x\<close> hit show "x \<in> set (db_sessions db1) \<and> x \<noteq> row1"
        by (auto simp: is_live_def live_state_def split: if_splits)
    qed
    finally show ?thesis .
  qed
  ultimately show ?thesis using row r2 note1 by (intro exI [of _ row] exI [of _ "?f row1"]) auto
qed

lemma sample_visible: "session_get [111] alice [115] sample_db3 = session_unchecked [111] [115] sample_db3"
proof -
  have "session_visible sample_active alice sample_db3"
    by (simp add: session_visible_def is_session_actor_def principal_ids_def alice_def sample_db3_def
        sample_db2_def insert_session_side_rows_def sample_active_def sample_row_def reserved_row_def)
  then show ?thesis
    by (simp add: session_get_def session_unchecked_def session_row_of_def sample_found bindS_def)
qed

lemma sample_inv: "db_inv sample_db3"
  by (rule store.reachable_inv [OF refl sample_run])

theorem end_protocol_witness:
  "\<exists>row2. find_session [111] [115] (snd (finalize_end_session [111] [115] 5
        (sample_db3\<lparr>db_sessions := [sample_active\<lparr>se_status := Ending, se_end_note := Some [120]\<rparr>]\<rparr>))) = Some row2 \<and>
     se_status row2 = Ended \<and> se_end_note row2 = Some [120]"
proof -
  let ?P = "\<lambda>s. se_org_id s = [111] \<and> se_id s = [115] \<and> se_status s = Active"
  let ?f = "\<lambda>s. s\<lparr>se_status := Ending, se_end_note := Some [120]\<rparr>"
  let ?db1 = "sample_db3\<lparr>db_sessions := [sample_active\<lparr>se_status := Ending, se_end_note := Some [120]\<rparr>]\<rparr>"
  have up: "update_sessions ?P ?f sample_db3 = (Inr 1, ?db1)"
    by (subst update_sessions_ok [OF sample_inv])
       (auto simp: is_live_def live_state_def affected_def update_where_def sample_db3_def sample_session)
  have t: "trim [120] = [120]" and v: "session_end_validate [120] = Inr ()"
    by (simp_all add: session_end_validate_def text_eval)
  obtain rt where rt: "runtime_from_row plain_box [111] [115] (?f sample_active) = Inr rt"
    using runtime_of_sealed [OF plain_box_laws(1) _ sample_seal, of "?f sample_active"]
    by (auto simp: sample_nonces_def sample_active_def sample_provider_def)
  have f: "find_session [111] [115] ?db1 = Some (?f sample_active)"
    by (simp add: find_session_def select_one_def sample_session)
  obtain ses where g: "session_get [111] alice [115] sample_db3 = (Inr ses, sample_db3)"
    using sample_visible sample_read by auto
  have "begin_end_session plain_box [111] alice [115] [120] sample_db3 = (Inr rt, ?db1)"
    by (simp add: begin_end_session_def bindS_def v t g up session_row_of_def f rt)
  from end_protocol [OF sample_run this, of 5] show ?thesis
    by (auto simp: sample_found sample_session t)
qed

section \<open>Rows through the methods\<close>

text \<open>A session row with a property, found by its key.\<close>

definition row_is :: "str \<Rightarrow> str \<Rightarrow> (session_row \<Rightarrow> bool) \<Rightarrow> db \<Rightarrow> bool" where
  "row_is org sid Q db \<longleftrightarrow> (\<exists>row \<in> set (db_sessions db). se_org_id row = org \<and> se_id row = sid \<and> Q row)"

lemma row_is_find: "db_inv db \<Longrightarrow> row_is org sid Q db \<longleftrightarrow> (\<exists>row. find_session org sid db = Some row \<and> Q row)"
  unfolding row_is_def by (metis find_session_unique find_session_Some)

lemma keeps_row_update:
  assumes "\<And>r. P r \<Longrightarrow> se_org_id r = org \<Longrightarrow> se_id r = sid \<Longrightarrow> Q r \<Longrightarrow>
     se_org_id (f r) = org \<and> se_id (f r) = sid \<and> Q (f r)"
  shows "keeps (row_is org sid Q) (update_sessions P f)"
  unfolding keeps_def
proof (intro allI impI)
  fix db assume "row_is org sid Q db"
  then obtain r where r: "r \<in> set (db_sessions db)" "se_org_id r = org" "se_id r = sid" "Q r"
    unfolding row_is_def by blast
  show "row_is org sid Q (snd (update_sessions P f db))"
  proof (cases rule: update_sessions_result [of P f db])
    case (1 e)
    with r show ?thesis by (auto simp: row_is_def)
  next
    case 2
    then show ?thesis using update_where_mem [OF r(1), of P f] assms r by (auto simp: row_is_def split: if_splits)
  qed
qed

lemma keeps_row_others [simp]:
  "keeps (row_is org sid Q) (update_recordings R g)" "keeps (row_is org sid Q) (update_outbox S h)"
  "keeps (row_is org sid Q) (insert_outbox ob)" "keeps (row_is org sid Q) (write_usage_row us)"
  by (auto simp: keeps_def row_is_def update_recordings_def update_outbox_def insert_outbox_def write_usage_row_def)

lemma keeps_row_reserve: "keeps (row_is org sid Q) (reserve_session fresh org' initiator request now)"
  unfolding reserve_session_def profile_ready_def Let_def
proof (intro keeps_rules keeps_reads keeps_modifyS)
  fix db
  show "keeps (row_is org sid Q) (insert_session org' request row)" for row
    by (auto simp: keeps_def row_is_def insert_session_def write_sessions_def split: option.splits)
qed (simp add: row_is_def insert_session_side_rows_def)

lemma keeps_row_snapshot: "keeps (row_is org sid Q) (record_usage_snapshot org' sid' sample final)"
  unfolding record_usage_snapshot_def
  by (intro keeps_rules keeps_row_others keeps_reads) (auto split: usage_verdict.split)

section \<open>Leases of the reaper\<close>

lemma due_starting_not_claimable: "due_starting now s \<Longrightarrow> \<not> claimable now s"
  by (simp add: due_starting_def claimable_def)

lemma chosen_claimable: "x \<in> set (claim_selection now limit rows) \<Longrightarrow>
    \<exists>s \<in> set rows. se_id s = x \<and> claimable now s"
  by (auto simp: claim_selection_def dest!: in_set_takeD)

lemma length_chosen: "length (claim_selection now limit rows) \<le> limit"
  by (simp add: claim_selection_def)

lemma traverseE_mem: "traverseE f xs = Inr ys \<Longrightarrow> y \<in> set ys \<Longrightarrow> \<exists>x \<in> set xs. f x = Inr y"
  by (induction xs arbitrary: ys) (auto split: sum.splits)

lemma filter_by_ids:
  assumes "distinct (map k rows)"
  shows "length (filter (\<lambda>s. k s \<in> set ids) rows) \<le> length ids"
proof -
  have "distinct (map k (filter (\<lambda>s. k s \<in> set ids) rows))" using assms by (rule distinct_map_filter)
  from distinct_card [OF this]
  have "length (filter (\<lambda>s. k s \<in> set ids) rows) = card (k ` set (filter (\<lambda>s. k s \<in> set ids) rows))"
    by simp
  also have "\<dots> \<le> card (set ids)" by (intro card_mono) auto
  also have "\<dots> \<le> length ids" by (rule card_length)
  finally show ?thesis .
qed

text \<open>The steps of a claim: what is due becomes expired or ending, then the chosen rows are leased.\<close>

lemma claim_steps:
  assumes "claim_expired_sessions box lease now until limit db = (Inr claimed, db')"
  obtains f1 f2 P2 n n1 n3 dba dbb dbx where
    "update_sessions (due_starting now) f1 db = (Inr n1, dba)" "db_sessions dbb = db_sessions dba"
    "update_sessions P2 f2 dbb = (Inr n3, dbx)"
    "\<And>s. se_id (f1 s) = se_id s \<and> se_stop_lease_until (f1 s) = se_stop_lease_until s"
    "\<And>s. se_id (f2 s) = se_id s \<and> se_stop_lease_until (f2 s) = se_stop_lease_until s"
    "update_sessions (\<lambda>s. se_id s \<in> set (claim_selection now limit (db_sessions dbx)))
       (\<lambda>s. s\<lparr>se_stop_lease_id := Some lease, se_stop_lease_until := Some (timestamp until)\<rparr>) dbx = (Inr n, db')"
    "traverseE (expiring_of box lease)
       (filter (\<lambda>s. se_id s \<in> set (claim_selection now limit (db_sessions dbx))) (db_sessions db')) = Inr claimed"
    "now < until"
proof -
  let ?f1 = "\<lambda>s. s\<lparr>se_status := Expired, se_ended_at := Some (timestamp now), se_end_note := Some (lit ''ttl reached'')\<rparr>"
  let ?f2 = "\<lambda>s. s\<lparr>se_status := Ending, se_end_note := coalesce (se_end_note s) (Some (lit ''ttl reached''))\<rparr>"
  let ?P2 = "\<lambda>s. se_status s = Active \<and> se_expires_at s \<le> timestamp now"
  let ?lease = "\<lambda>s. s\<lparr>se_stop_lease_id := Some lease, se_stop_lease_until := Some (timestamp until)\<rparr>"
  have "\<exists>n n1 n2 n3 dba dbb dbx P f chosen. update_sessions (due_starting now) ?f1 db = (Inr n1, dba) \<and>
      update_recordings P f dba = (Inr n2, dbb) \<and> update_sessions ?P2 ?f2 dbb = (Inr n3, dbx) \<and>
      claim_selection now limit (db_sessions dbx) = chosen \<and> now < until \<and>
      update_sessions (\<lambda>s. se_id s \<in> set chosen) ?lease dbx = (Inr n, db') \<and>
      traverseE (expiring_of box lease) (filter (\<lambda>s. se_id s \<in> set chosen) (db_sessions db')) = Inr claimed"
    using assms unfolding claim_expired_sessions_def Inr_iffs not_le sum.inject
    by (elim exE conjE disjE; hypsubst?; blast)
  then obtain n n1 n2 n3 dba dbb dbx P f where u: "update_sessions (due_starting now) ?f1 db = (Inr n1, dba)"
    "update_recordings P f dba = (Inr n2, dbb)" "update_sessions ?P2 ?f2 dbb = (Inr n3, dbx)" "now < until"
    "update_sessions (\<lambda>s. se_id s \<in> set (claim_selection now limit (db_sessions dbx))) ?lease dbx = (Inr n, db')"
    "traverseE (expiring_of box lease)
       (filter (\<lambda>s. se_id s \<in> set (claim_selection now limit (db_sessions dbx))) (db_sessions db')) = Inr claimed"
    by blast
  have "db_sessions dbb = db_sessions dba" using u(2) by (auto simp: update_recordings_def)
  with u show thesis by (intro that [of ?f1 n1 dba dbb ?P2 ?f2 n3 dbx n]) auto
qed

text \<open>What a claim returns, and the leases it leaves.\<close>

lemma claim_success:
  assumes "claim_expired_sessions box lease now until limit db = (Inr claimed, db')" "db_inv db"
  shows "\<forall>c \<in> set claimed. \<exists>s \<in> set (db_sessions db'). se_id s = ex_session_id c \<and> se_org_id s = ex_org_id c \<and>
     se_status s = Ending \<and> se_expires_at s \<le> timestamp now \<and> ex_lease_id c = lease \<and>
     se_stop_lease_id s = Some lease \<and> se_stop_lease_until s = Some (timestamp until) \<and>
     runtime_from_row box (se_org_id s) (se_id s) s = Inr (ex_runtime c)"
    "length claimed \<le> limit" "db_inv db'" "now < until"
    "\<forall>c \<in> set claimed. \<forall>s \<in> set (db_sessions db). se_id s = ex_session_id c \<longrightarrow>
       (case se_stop_lease_until s of None \<Rightarrow> True | Some t \<Rightarrow> t \<le> timestamp now)"
proof -
  obtain f1 f2 P2 n n1 n3 dba dbb dbx where
    u: "update_sessions (due_starting now) f1 db = (Inr n1, dba)" "db_sessions dbb = db_sessions dba"
    "update_sessions P2 f2 dbb = (Inr n3, dbx)"
    and f: "\<And>s. se_id (f1 s) = se_id s \<and> se_stop_lease_until (f1 s) = se_stop_lease_until s"
      "\<And>s. se_id (f2 s) = se_id s \<and> se_stop_lease_until (f2 s) = se_stop_lease_until s"
    and l: "update_sessions (\<lambda>s. se_id s \<in> set (claim_selection now limit (db_sessions dbx)))
       (\<lambda>s. s\<lparr>se_stop_lease_id := Some lease, se_stop_lease_until := Some (timestamp until)\<rparr>) dbx = (Inr n, db')"
      "traverseE (expiring_of box lease)
       (filter (\<lambda>s. se_id s \<in> set (claim_selection now limit (db_sessions dbx))) (db_sessions db')) = Inr claimed"
    and "now < until" by (rule claim_steps [OF assms(1)]) (rule that, assumption+)
  let ?chosen = "claim_selection now limit (db_sessions dbx)"
  let ?lease = "\<lambda>s. s\<lparr>se_stop_lease_id := Some lease, se_stop_lease_until := Some (timestamp until)\<rparr>"
  show "now < until" by fact
  have "store_good db db'"
    using keepsD [OF keeps_claim_expired_sessions [of db box lease now until limit] store_goodI [OF assms(2)]] assms(1) by simp
  then show inv: "db_inv db'" by (simp add: store_good_def)
  have sess: "db_sessions db' = update_where (\<lambda>s. se_id s \<in> set ?chosen) ?lease (db_sessions dbx)"
    using update_sessions_Inr [OF l(1)] by simp
  then have ids: "map se_id (db_sessions db') = map se_id (db_sessions dbx)" by (simp add: update_where_def)
  then have dx: "distinct (map se_id (db_sessions dbx))" "distinct (map se_id (db_sessions db'))"
    using inv by (simp_all add: db_inv_def sessions_unique_def)
  have len: "length claimed = length (filter (\<lambda>s. se_id s \<in> set ?chosen) (db_sessions db'))"
    using l(2) by (simp add: traverseE_Inr_iff list_all2_lengthD)
  then show "length claimed \<le> limit"
    using filter_by_ids [OF dx(2), of ?chosen] length_chosen [of now limit "db_sessions dbx"] by linarith
  have row: "\<exists>r \<in> set (db_sessions dbx). claimable now r \<and> ?lease r \<in> set (db_sessions db') \<and>
      expiring_of box lease (?lease r) = Inr c" if c: "c \<in> set claimed" for c
  proof -
    obtain s where s: "s \<in> set (db_sessions db')" "se_id s \<in> set ?chosen" "expiring_of box lease s = Inr c"
      using traverseE_mem [OF l(2) c] by auto
    obtain r where r: "r \<in> set (db_sessions dbx)" "s = (if se_id r \<in> set ?chosen then ?lease r else r)"
      using s(1) unfolding sess by (elim in_update_where) blast
    then have e: "se_id s = se_id r" by simp
    with s(2) r(2) have sl: "s = ?lease r" by simp
    from chosen_claimable [OF s(2)] obtain x where x: "x \<in> set (db_sessions dbx)" "se_id x = se_id s" "claimable now x"
      by blast
    have "x = r" using distinct_key [OF dx(1) x(1) r(1)] x(2) e by simp
    with x(3) r(1) s(1,3) show ?thesis unfolding sl by blast
  qed
  show "\<forall>c \<in> set claimed. \<exists>s \<in> set (db_sessions db'). se_id s = ex_session_id c \<and> se_org_id s = ex_org_id c \<and>
     se_status s = Ending \<and> se_expires_at s \<le> timestamp now \<and> ex_lease_id c = lease \<and>
     se_stop_lease_id s = Some lease \<and> se_stop_lease_until s = Some (timestamp until) \<and>
     runtime_from_row box (se_org_id s) (se_id s) s = Inr (ex_runtime c)"
  proof
    fix c assume "c \<in> set claimed"
    from row [OF this] obtain r where r: "claimable now r" "?lease r \<in> set (db_sessions db')"
      "expiring_of box lease (?lease r) = Inr c" by blast
    then show "\<exists>s \<in> set (db_sessions db'). se_id s = ex_session_id c \<and> se_org_id s = ex_org_id c \<and>
     se_status s = Ending \<and> se_expires_at s \<le> timestamp now \<and> ex_lease_id c = lease \<and>
     se_stop_lease_id s = Some lease \<and> se_stop_lease_until s = Some (timestamp until) \<and>
     runtime_from_row box (se_org_id s) (se_id s) s = Inr (ex_runtime c)"
      by (intro bexI [of _ "?lease r"]) (auto simp: expiring_of_def claimable_def)
  qed
  have dbx: "db_sessions dbx = update_where P2 f2 (update_where (due_starting now) f1 (db_sessions db))"
    using update_sessions_Inr [OF u(1)] update_sessions_Inr [OF u(3)] u(2) by simp
  show "\<forall>c \<in> set claimed. \<forall>s \<in> set (db_sessions db). se_id s = ex_session_id c \<longrightarrow>
       (case se_stop_lease_until s of None \<Rightarrow> True | Some t \<Rightarrow> t \<le> timestamp now)"
  proof (intro ballI impI)
    fix c s assume c: "c \<in> set claimed" and s: "s \<in> set (db_sessions db)" "se_id s = ex_session_id c"
    from row [OF c] obtain r where r: "r \<in> set (db_sessions dbx)" "claimable now r"
      "expiring_of box lease (?lease r) = Inr c" by blast
    then have rid: "se_id r = ex_session_id c" by (auto simp: expiring_of_def)
    let ?s1 = "if due_starting now s then f1 s else s"
    let ?s2 = "if P2 ?s1 then f2 ?s1 else ?s1"
    have "?s2 \<in> set (db_sessions dbx)" unfolding dbx by (intro update_where_mem s(1))
    moreover have e: "se_id ?s2 = se_id s" "se_stop_lease_until ?s2 = se_stop_lease_until s" by (simp_all add: f)
    ultimately have "r = ?s2" by (intro distinct_key [OF dx(1) r(1)]) (simp_all only: rid s(2) e)
    then have "se_stop_lease_until r = se_stop_lease_until s" using e(2) by simp
    with r(2) show "case se_stop_lease_until s of None \<Rightarrow> True | Some t \<Rightarrow> t \<le> timestamp now"
      by (simp add: claimable_def)
  qed
qed

text \<open>A lease stays where it is through every method except the one that gives it back and a claim
  made after it has run out.\<close>

abbreviation leased_until :: "str \<Rightarrow> millis \<Rightarrow> session_row \<Rightarrow> bool" where
  "leased_until lease t r \<equiv> se_stop_lease_id r = Some lease \<and> se_stop_lease_until r = Some t"

fun claims_before :: "millis \<Rightarrow> store_op \<Rightarrow> bool" where
  "claims_before t (ClaimExpired lease now until limit) = (timestamp now < t)"
| "claims_before t e = True"

lemma keeps_bind_readS:
  assumes "\<And>db. I db \<Longrightarrow> I (snd (F (g db) db))"
  shows "keeps I (bindS (readS (\<lambda>db. Inr (g db))) F)"
  using assms by (simp add: keeps_def bindS_def readS_def)

lemma snd_bind_readS: "snd (bindS m (\<lambda>_. readS f) db) = snd (m db)"
  by (simp add: bindS_def readS_def split: prod.split sum.split)

lemma lease_of_chosen:
  assumes "row_is org sid (leased_until lease t) db" "timestamp now < t"
  shows "row_is org sid (leased_until lease t)
    (snd (update_sessions (\<lambda>s. se_id s \<in> set (claim_selection now limit (db_sessions db)))
       (\<lambda>s. s\<lparr>se_stop_lease_id := x, se_stop_lease_until := y\<rparr>) db))"
proof (cases rule: update_sessions_result [of "\<lambda>s. se_id s \<in> set (claim_selection now limit (db_sessions db))"
      "\<lambda>s. s\<lparr>se_stop_lease_id := x, se_stop_lease_until := y\<rparr>" db])
  case (1 e)
  with assms(1) show ?thesis by simp
next
  case 2
  let ?P = "\<lambda>s. se_id s \<in> set (claim_selection now limit (db_sessions db))"
  let ?f = "\<lambda>s. s\<lparr>se_stop_lease_id := x, se_stop_lease_until := y\<rparr>"
  from assms(1) obtain r where r: "r \<in> set (db_sessions db)" "se_org_id r = org" "se_id r = sid" "leased_until lease t r"
    by (auto simp: row_is_def)
  have "map se_id (update_where ?P ?f (db_sessions db)) = map se_id (db_sessions db)" by (simp add: update_where_def)
  with 2(3) have distinct: "distinct (map se_id (db_sessions db))" by (simp add: sessions_unique_def)
  have "\<not> ?P r"
  proof
    assume "?P r"
    from chosen_claimable [OF this] obtain s where s: "s \<in> set (db_sessions db)" "se_id s = se_id r" "claimable now s" by blast
    with distinct_key [OF distinct s(1) r(1)] have "claimable now r" by simp
    with r(4) assms(2) show False by (simp add: claimable_def)
  qed
  with update_where_mem [OF r(1), of ?P ?f] r 2(1) show ?thesis by (auto simp: row_is_def)
qed

lemma keeps_lease_claim:
  assumes "timestamp now < t"
  shows "keeps (row_is org sid (leased_until lease t)) (claim_expired_sessions box lease' now until limit)"
proof -
  have chosen: "keeps (row_is org sid (leased_until lease t))
      (bindS (readS (\<lambda>db. Inr (claim_selection now limit (db_sessions db)))) (\<lambda>chosen.
       bindS (update_sessions (\<lambda>s. se_id s \<in> set chosen)
         (\<lambda>s. s\<lparr>se_stop_lease_id := Some lease', se_stop_lease_until := Some (timestamp until)\<rparr>)) (\<lambda>_.
         readS (\<lambda>db. Inr (filter (\<lambda>s. se_id s \<in> set chosen) (db_sessions db))))))"
  proof (rule keeps_bind_readS)
    fix db assume held: "row_is org sid (leased_until lease t) db"
    from lease_of_chosen [OF this assms]
    show "row_is org sid (leased_until lease t) (snd (bindS (update_sessions
         (\<lambda>s. se_id s \<in> set (claim_selection now limit (db_sessions db)))
         (\<lambda>s. s\<lparr>se_stop_lease_id := Some lease', se_stop_lease_until := Some (timestamp until)\<rparr>)) (\<lambda>_.
         readS (\<lambda>d. Inr (filter (\<lambda>s. se_id s \<in> set (claim_selection now limit (db_sessions db))) (db_sessions d)))) db))"
      by (simp add: snd_bind_readS)
  qed
  show ?thesis
    unfolding claim_expired_sessions_def
    by (intro keeps_rules chosen keeps_row_others keeps_row_update) auto
qed

lemma keeps_row_profiles [simp]:
  "keeps (row_is org sid Q) (update_profiles R g)"
  "keeps (row_is org sid Q) (insert_profile row)" "keeps (row_is org sid Q) (map_profile_write (update_profiles R g))"
  by (auto simp: keeps_def row_is_def update_profiles_def insert_profile_def map_profile_write_def write_profiles_def
      bindS_def split: prod.splits sum.splits)

lemma keeps_row_profile_methods:
  "keeps (row_is org sid Q) (reserve_profile api fresh org' owner request now)"
  "keeps (row_is org sid Q) (activate_profile org' pid provider print)"
  "keeps (row_is org sid Q) (fail_profile org' pid reason now)"
  "keeps (row_is org sid Q) (store_create_profile api fresh org' owner request provider print now)"
  "keeps (row_is org sid Q) (update_profile api org' actor pid patch)"
  "keeps (row_is org sid Q) (end_profile org' actor pid note now)"
  unfolding reserve_profile_def activate_profile_def fail_profile_def store_create_profile_def update_profile_def
    end_profile_def Let_def
  by (intro keeps_rules keeps_row_profiles keeps_reads)+

lemma keeps_row_recording_methods:
  "keeps (row_is org sid Q) (queue_recording_source_resolution parse err org' sid' ms now)"
  "keeps (row_is org sid Q) (claim_recording_source_resolutions now until limit)"
  "keeps (row_is org sid Q) (reschedule_recording_source_resolution claim next)"
  "keeps (row_is org sid Q) (fail_recording_source_resolution claim now)"
  "keeps (row_is org sid Q) (mark_recording_pending parse err org' sid' ms sz now)"
  "keeps (row_is org sid Q) (mark_recording_failed parse err org' sid' ms now)"
  "keeps (row_is org sid Q) (trash_recording parse err box org' actor sid' now)"
  unfolding queue_recording_source_resolution_def claim_recording_source_resolutions_def
    reschedule_recording_source_resolution_def fail_recording_source_resolution_def mark_recording_pending_def
    mark_recording_failed_def trash_recording_def finish_event_def
  by (intro keeps_rules keeps_row_others keeps_reads)+

lemma keeps_lease_session_methods:
  "keeps (row_is org sid (leased_until lease t)) (activate_session box nonce org' sid' provider now)"
  "keeps (row_is org sid (leased_until lease t)) (retain_session_runtime box nonce org' sid' provider reason)"
  "keeps (row_is org sid (leased_until lease t)) (fail_session org' sid' reason now)"
  "keeps (row_is org sid (leased_until lease t)) (finalize_failed_session_after_stop org' sid' f)"
  "keeps (row_is org sid (leased_until lease t)) (begin_end_session box org' actor sid' note)"
  "keeps (row_is org sid (leased_until lease t)) (finalize_end_session org' sid' now)"
  "keeps (row_is org sid (leased_until lease t)) (finalize_expired_session org' sid' lease' now)"
  "keeps (row_is org sid (leased_until lease t)) (remember_provider_recording_url box nonce org' sid' u)"
  "keeps (row_is org sid (leased_until lease t)) (complete_recording_source_resolution box nonce claim u now)"
  unfolding activate_session_def retain_session_runtime_def fail_session_def finalize_failed_session_after_stop_def
    begin_end_session_def finalize_end_session_def finalize_expired_session_def remember_provider_recording_url_def
    complete_recording_source_resolution_def fail_recording_of_def pend_recording_of_def
  by (intro keeps_rules keeps_row_update keeps_row_others keeps_reads; simp)+

lemma keeps_row_participant: "keeps (row_is org sid Q) (associate_participant org' sid' actor role now)"
  unfolding associate_participant_def Let_def
  by (intro keeps_rules keeps_reads) (auto simp: keeps_def row_is_def)

lemma keeps_lease_release:
  assumes "(org', sid', lease') \<noteq> (org, sid, lease)"
  shows "keeps (row_is org sid (leased_until lease t)) (release_expired_claim org' sid' lease')"
  unfolding release_expired_claim_def by (intro keeps_rules keeps_row_update) (use assms in auto)

lemma keeps_lease:
  assumes "claims_before t e" "e \<noteq> ReleaseClaim org sid lease"
  shows "keeps (row_is org sid (leased_until lease t)) (exec_store v e)"
  using assms
  by (cases e) (simp_all add: keeps_void keeps_row_profile_methods keeps_row_recording_methods keeps_lease_session_methods
      keeps_row_participant keeps_lease_release keeps_row_reserve keeps_lease_claim keeps_row_snapshot
      record_usage_def record_terminal_usage_def)

lemma lease_held:
  assumes "run (store_step v) db es db'" "row_is org sid (leased_until lease t) db"
    and "list_all (claims_before t) es" "ReleaseClaim org sid lease \<notin> set es"
  shows "row_is org sid (leased_until lease t) db'"
  using assms
proof (induction rule: run.induct)
  case (run_snoc db es d e d')
  then have "row_is org sid (leased_until lease t) d" "claims_before t e" "e \<noteq> ReleaseClaim org sid lease" by auto
  with run_snoc.hyps(2) keepsD [OF keeps_lease] show ?case by (simp add: store_step_def)
qed simp

text \<open>C19: Leases exclude: every session a reaper's claim returns is ending, past its deadline and leased
  to it with a runtime that opens, at most as many as asked for; and whatever the store does after
  that, before the lease runs out no other claim returns such a session, unless its lease has been
  given back in between.\<close>

theorem reaper_leases_exclusive:
  assumes "run (store_step v) empty_db es db"
    and "claim_expired_sessions box lease now until limit db = (Inr claimed, db1)"
    and "run (store_step v) db1 es2 db2" "list_all (claims_before (timestamp until)) es2"
    and "claim_expired_sessions box2 lease2 now2 until2 limit2 db2 = (Inr claimed2, db3)"
    and "timestamp now2 < timestamp until"
  shows "length claimed \<le> limit \<and>
     (\<forall>c \<in> set claimed. \<exists>s \<in> set (db_sessions db1). se_id s = ex_session_id c \<and> se_status s = Ending \<and>
        se_expires_at s \<le> timestamp now \<and> se_stop_lease_id s = Some lease \<and>
        runtime_from_row box (se_org_id s) (se_id s) s = Inr (ex_runtime c)) \<and>
     (\<forall>c \<in> set claimed. \<forall>d \<in> set claimed2. ex_session_id c = ex_session_id d \<longrightarrow>
        ReleaseClaim (ex_org_id c) (ex_session_id c) lease \<in> set es2)"
proof -
  have inv: "db_inv db" by (rule store.reachable_inv [OF refl assms(1)])
  note c1 = claim_success [OF assms(2) inv]
  note c2 = claim_success [OF assms(5) store.run_inv [OF assms(3) c1(3)]]
  have "ReleaseClaim (ex_org_id c) (ex_session_id c) lease \<in> set es2"
    if c: "c \<in> set claimed" "d \<in> set claimed2" "ex_session_id c = ex_session_id d" for c d
  proof (rule ccontr)
    assume kept: "\<not> ?thesis"
    from c1(1) c(1) have "row_is (ex_org_id c) (ex_session_id c) (leased_until lease (timestamp until)) db1"
      unfolding row_is_def by blast
    from lease_held [OF assms(3) this assms(4) kept] obtain s where "s \<in> set (db_sessions db2)" "se_id s = ex_session_id c"
      "se_stop_lease_until s = Some (timestamp until)" by (auto simp: row_is_def)
    with c2(5) c have "timestamp until \<le> timestamp now2" by (metis option.simps(5))
    with assms(6) show False by simp
  qed
  with c1 show ?thesis by blast
qed



definition sample_leased :: session_row where
  "sample_leased = sample_active\<lparr>se_status := Ending, se_end_note := Some (lit ''ttl reached''),
     se_stop_lease_id := Some [49], se_stop_lease_until := Some 960000\<rparr>"

lemma sample_due: "timestamp 900000000000 = 900000" "timestamp 960000000000 = 960000"
  "timestamp 901000000000 = 901000" "se_expires_at sample_active = 900000"
  by (simp_all add: timestamp_def sample_active_def sample_row_def reserved_row_def
      sample_session_request_def ttl_seconds_def NANOS_PER_SECOND_def)

lemma sample_claim:
  "\<exists>c. claim_expired_sessions plain_box [49] 900000000000 960000000000 8 sample_db3 =
     (Inr [c], sample_db3\<lparr>db_sessions := [sample_leased]\<rparr>) \<and> ex_session_id c = [115]"
proof -
  let ?ending = "sample_active\<lparr>se_status := Ending, se_end_note := Some (lit ''ttl reached'')\<rparr>"
  let ?stopped = "\<lambda>s. s\<lparr>se_status := Ending, se_end_note := coalesce (se_end_note s) (Some (lit ''ttl reached''))\<rparr>"
  let ?dbe = "sample_db3\<lparr>db_sessions := [?ending]\<rparr>"
  have rows: "db_sessions sample_db3 = [sample_active]" by (simp add: sample_db3_def)
  have none: "update_sessions (due_starting 900000000000) f sample_db3 = (Inr 0, sample_db3)" for f
    by (rule update_sessions_none [OF sample_inv]) (simp add: rows due_starting_def sample_session)
  have rec: "update_recordings (\<lambda>_ r. re_session_id r \<in> set [] \<and> re_status r = RecRecording) g sample_db3 = (Inr 0, sample_db3)" for g
    by (simp add: update_recordings_def affected_def update_where_def)
  have n: "se_end_note sample_active = None" by (simp add: sample_active_def sample_row_def reserved_row_def)
  have ending: "update_sessions (\<lambda>s. se_status s = Active \<and> se_expires_at s \<le> timestamp 900000000000) ?stopped sample_db3
      = (Inr 1, ?dbe)"
    by (subst update_sessions_ok [OF sample_inv])
       (auto simp: is_live_def live_state_def affected_def update_where_def rows sample_session sample_due coalesce_def n)
  have "store_good sample_db3 (snd (update_sessions (\<lambda>s. se_status s = Active \<and> se_expires_at s \<le> timestamp 900000000000) ?stopped sample_db3))"
    by (rule keepsD [OF keeps_update_sessions store_goodI [OF sample_inv]]) (auto simp: row_defs)
  then have inv: "db_inv ?dbe" by (simp add: ending store_good_def)
  have chosen: "claim_selection 900000000000 8 [?ending] = [[115]]"
    by (simp add: claim_selection_def claimable_def sample_due sample_session)
       (simp add: sample_active_def sample_row_def reserved_row_def)
  have lease: "update_sessions (\<lambda>s. se_id s = [115])
      (\<lambda>s. s\<lparr>se_stop_lease_id := Some [49], se_stop_lease_until := Some (timestamp 960000000000)\<rparr>) ?dbe
      = (Inr 1, sample_db3\<lparr>db_sessions := [sample_leased]\<rparr>)"
    by (subst update_sessions_ok [OF inv])
       (auto simp: is_live_def live_state_def affected_def update_where_def sample_session sample_due sample_leased_def)
  obtain rt where rt: "runtime_from_row plain_box [111] [115] sample_leased = Inr rt"
    using runtime_of_sealed [OF plain_box_laws(1) _ sample_seal, of sample_leased]
    by (auto simp: sample_nonces_def sample_leased_def sample_active_def sample_provider_def)
  have ids: "se_id sample_leased = [115]" "se_org_id sample_leased = [111]"
    by (simp_all add: sample_leased_def sample_session)
  have c: "expiring_of plain_box [49] sample_leased = Inr
      \<lparr>ex_org_id = [111], ex_session_id = [115], ex_incognito = (se_profile_id sample_leased = None),
       ex_started_at = parse_timestamp (se_started_at sample_leased), ex_lease_id = [49], ex_runtime = rt\<rparr>"
    by (simp add: expiring_of_def ids rt)
  have due: "\<not> due_starting 900000000000 sample_active" by (simp add: due_starting_def sample_session)
  show ?thesis
    by (intro exI [of _ "\<lparr>ex_org_id = [111], ex_session_id = [115], ex_incognito = (se_profile_id sample_leased = None),
       ex_started_at = parse_timestamp (se_started_at sample_leased), ex_lease_id = [49], ex_runtime = rt\<rparr>"])
       (simp add: claim_expired_sessions_def bindS_def atomically_def rows none due rec [simplified] ending
         chosen ids c lease)
qed

lemma sample_claim_again:
  "claim_expired_sessions plain_box [50] 901000000000 961000000000 8 (sample_db3\<lparr>db_sessions := [sample_leased]\<rparr>) =
     (Inr [], sample_db3\<lparr>db_sessions := [sample_leased]\<rparr>)"
proof -
  let ?db = "sample_db3\<lparr>db_sessions := [sample_leased]\<rparr>"
  obtain c where "claim_expired_sessions plain_box [49] 900000000000 960000000000 8 sample_db3 = (Inr [c], ?db)"
    using sample_claim by blast
  from claim_success(3) [OF this sample_inv] have inv: "db_inv ?db" .
  have st: "se_status sample_leased = Ending" "se_stop_lease_until sample_leased = Some 960000"
    by (simp_all add: sample_leased_def)
  have none: "update_sessions (due_starting 901000000000) f ?db = (Inr 0, ?db)"
    "update_sessions (\<lambda>s. se_status s = Active \<and> se_expires_at s \<le> timestamp 901000000000) f ?db = (Inr 0, ?db)"
    "update_sessions (\<lambda>_. False) f ?db = (Inr 0, ?db)" for f
    by (rule update_sessions_none [OF inv], simp add: due_starting_def st)+
  have rec: "update_recordings (\<lambda>_ r. re_session_id r \<in> set [] \<and> re_status r = RecRecording) g ?db = (Inr 0, ?db)" for g
    by (simp add: update_recordings_def affected_def update_where_def)
  have chosen: "claim_selection 901000000000 8 [sample_leased] = []"
    by (simp add: claim_selection_def claimable_def st sample_due)
  have due: "\<not> due_starting 901000000000 sample_leased" by (simp add: due_starting_def st)
  show ?thesis
    by (simp add: claim_expired_sessions_def bindS_def atomically_def none due rec [simplified] chosen)
qed

lemma sample_other_release:
  "run (store_step v) (sample_db3\<lparr>db_sessions := [sample_leased]\<rparr>) [ReleaseClaim [111] [115] [50]]
     (sample_db3\<lparr>db_sessions := [sample_leased]\<rparr>)"
proof -
  let ?db = "sample_db3\<lparr>db_sessions := [sample_leased]\<rparr>"
  obtain c where "claim_expired_sessions plain_box [49] 900000000000 960000000000 8 sample_db3 = (Inr [c], ?db)"
    using sample_claim by blast
  from claim_success(3) [OF this sample_inv] have inv: "db_inv ?db" .
  have "update_sessions (\<lambda>s. se_org_id s = [111] \<and> se_id s = [115] \<and> se_stop_lease_id s = Some [50])
      (\<lambda>s. s\<lparr>se_stop_lease_id := None, se_stop_lease_until := None\<rparr>) ?db = (Inr 0, ?db)"
    by (rule update_sessions_none [OF inv]) (simp add: sample_leased_def)
  then have "store_step v (ReleaseClaim [111] [115] [50]) ?db ?db"
    by (simp add: store_step_def release_expired_claim_def bindS_def)
  from run_snoc [where step = "store_step v" and es = "[]", OF run_nil this] show ?thesis by simp
qed

theorem reaper_leases_exclusive_witness:
  "\<exists>c. claim_expired_sessions plain_box [49] 900000000000 960000000000 8 sample_db3 =
       (Inr [c], sample_db3\<lparr>db_sessions := [sample_leased]\<rparr>) \<and>
     (\<exists>s \<in> set [sample_leased]. se_id s = ex_session_id c \<and> se_stop_lease_id s = Some [49])"
proof -
  obtain c where c: "claim_expired_sessions plain_box [49] 900000000000 960000000000 8 sample_db3 =
       (Inr [c], sample_db3\<lparr>db_sessions := [sample_leased]\<rparr>)" using sample_claim by blast
  have "timestamp 901000000000 < timestamp 960000000000" by (simp add: sample_due)
  from reaper_leases_exclusive [OF sample_run c sample_other_release _ sample_claim_again this] c show ?thesis by auto
qed
section \<open>Stale workers\<close>

text \<open>A reaper whose lease is gone changes nothing: finalizing, re-checking or releasing with
  another lease than the stored one is refused or does nothing.\<close>

theorem stale_lease_harmless:
  assumes "run (store_step v) empty_db es db"
    and "find_session org sid db = Some row" "se_stop_lease_id row \<noteq> Some lease"
  shows "(se_status row \<noteq> Expired \<longrightarrow> finalize_expired_session org sid lease now db =
       (Inl (SSessionState sid (session_state_text (se_status row))), db)) \<and>
     expired_claim_is_current org sid lease now db = (Inr False, db) \<and>
     release_expired_claim org sid lease db = (Inr (), db)"
proof -
  have inv: "db_inv db" by (rule store.reachable_inv [OF refl assms(1)])
  have only: "s = row" if "s \<in> set (db_sessions db)" "se_org_id s = org" "se_id s = sid" for s
    using find_session_unique [OF inv that(1)] that assms(2) by simp
  have none: "update_sessions (\<lambda>s. se_org_id s = org \<and> se_id s = sid \<and> se_status s = Ending \<and>
       se_expires_at s \<le> timestamp now \<and> se_stop_lease_id s = Some lease) f db = (Inr 0, db)"
    "update_sessions (\<lambda>s. se_org_id s = org \<and> se_id s = sid \<and> se_stop_lease_id s = Some lease) f db = (Inr 0, db)" for f
    by (rule update_sessions_none [OF inv], use only assms(3) in blast)+
  have "se_status row \<noteq> Expired \<longrightarrow> finalize_expired_session org sid lease now db =
       (Inl (SSessionState sid (session_state_text (se_status row))), db)"
    by (simp add: finalize_expired_session_def atomically_def bindS_def none session_row_of_def assms(2))
  moreover have "expired_claim_is_current org sid lease now db = (Inr False, db)"
    using only assms(3) by (auto simp: expired_claim_is_current_def list_ex_iff)
  moreover have "release_expired_claim org sid lease db = (Inr (), db)"
    by (simp add: release_expired_claim_def bindS_def none)
  ultimately show ?thesis by blast
qed

theorem stale_lease_harmless_witness:
  "finalize_expired_session [111] [115] [50] 901000000000 sample_db3 = (Inl (SSessionState [115] ''active''), sample_db3)"
proof -
  have "se_stop_lease_id sample_active \<noteq> Some [50]"
    by (simp add: sample_active_def sample_row_def reserved_row_def)
  from stale_lease_harmless [OF sample_run sample_found(2) this] show ?thesis by (simp add: sample_session)
qed

lemma outbox_key:
  assumes "db_inv db" "x \<in> set (db_outbox db)" "y \<in> set (db_outbox db)"
    "ob_kind x = ob_kind y" "ob_session_id x = ob_session_id y"
  shows "x = y"
  using assms distinct_key [of "\<lambda>x. (ob_kind x, ob_session_id x)" "db_outbox db" x y]
  by (simp add: db_inv_def outbox_ok_def)

lemma update_outbox_none:
  "\<forall>x \<in> set (db_outbox db). \<not> P x \<Longrightarrow> update_outbox P f db = (Inr 0, db)"
  by (simp add: update_outbox_def update_where_id affected_zero)

text \<open>The answer of a recording worker counts only for its own attempt: when the event was claimed
  again or is done, rescheduling, completing and failing report False and change nothing.\<close>

theorem superseded_lookup_harmless:
  assumes "\<forall>x \<in> set (db_outbox db). \<not> owns_event claim x"
    and "required_text recording_url ''recording_url'' = Inr ()"
    and "seal_field box nonce (cl_org_id claim) (cl_session_id claim) ''provider-recording-url'' recording_url = Inr enc"
  shows "reschedule_recording_source_resolution claim next_attempt db = (Inr False, db) \<and>
     complete_recording_source_resolution box nonce claim recording_url now db = (Inr False, db) \<and>
     fail_recording_source_resolution claim now db = (Inr False, db)"
proof -
  have none: "update_outbox (owns_event claim) f db = (Inr 0, db)" for f
    by (rule update_outbox_none [OF assms(1)])
  show ?thesis
    by (simp add: reschedule_recording_source_resolution_def complete_recording_source_resolution_def
        fail_recording_source_resolution_def bindS_def atomically_def none assms(2,3))
qed

theorem superseded_lookup_harmless_witness:
  "fail_recording_source_resolution
     \<lparr>cl_org_id = [111], cl_session_id = [115], cl_provider_session_id = [118], cl_attempt = 1\<rparr> 5
     (sample_db3\<lparr>db_outbox := [\<lparr>ob_kind = ResolveEvent, ob_session_id = [115], ob_org_id = [111], ob_attempts = 2,
        ob_next_attempt_at = 0, ob_created_at = 0, ob_done_at = None\<rparr>]\<rparr>) =
   (Inr False, sample_db3\<lparr>db_outbox := [\<lparr>ob_kind = ResolveEvent, ob_session_id = [115], ob_org_id = [111], ob_attempts = 2,
        ob_next_attempt_at = 0, ob_created_at = 0, ob_done_at = None\<rparr>]\<rparr>)"
proof -
  let ?claim = "\<lparr>cl_org_id = [111], cl_session_id = [115], cl_provider_session_id = [118], cl_attempt = 1\<rparr>"
  have "validate_context (session_secret_context [111] [115] (lit ''provider-recording-url'')) = Inr ()"
    by (simp add: validate_context_def session_secret_context_def str_simps)
  moreover have "sb_encrypt plain_box n m a = Some (length a # a @ m)" for n m a by (simp add: plain_box_def)
  ultimately obtain enc where e: "seal_field plain_box sample_nonces (cl_org_id ?claim) (cl_session_id ?claim)
      ''provider-recording-url'' [102] = Inr enc"
    by (simp add: seal_field_def seal_for_def)
  let ?db = "sample_db3\<lparr>db_outbox := [\<lparr>ob_kind = ResolveEvent, ob_session_id = [115], ob_org_id = [111], ob_attempts = 2,
        ob_next_attempt_at = 0, ob_created_at = 0, ob_done_at = None\<rparr>]\<rparr>"
  have "\<forall>x \<in> set (db_outbox ?db). \<not> owns_event ?claim x" by (simp add: owns_event_def)
  from superseded_lookup_harmless [OF this sample_texts(5) e, of 0 5] show ?thesis by blast
qed

text \<open>Claiming a recording lookup takes it over: the returned claim owns the event, which is put
  off to the end of the lease, and no claim that owned it before owns any event now.\<close>

theorem lookup_claim_takes_over:
  assumes "run (store_step v) empty_db es db"
    and "claim_recording_source_resolutions now lease_until limit db = (Inr claims, db')" "c \<in> set claims"
  shows "(\<exists>x \<in> set (db_outbox db'). owns_event c x \<and> ob_next_attempt_at x = timestamp lease_until) \<and>
     (\<forall>old. cl_session_id old = cl_session_id c \<and> (\<exists>x \<in> set (db_outbox db). owns_event old x) \<longrightarrow>
        (\<forall>x \<in> set (db_outbox db'). \<not> owns_event old x))"
proof -
  let ?f = "\<lambda>x. x\<lparr>ob_attempts := ob_attempts x + 1, ob_next_attempt_at := timestamp lease_until\<rparr>"
  have inv: "db_inv db" by (rule store.reachable_inv [OF refl assms(1)])
  have "\<exists>chosen n. event_selection db now limit = chosen \<and>
      update_outbox (\<lambda>x. ob_kind x = ResolveEvent \<and> ob_session_id x \<in> set chosen) ?f db = (Inr n, db') \<and>
      traverseE (claim_of_event db') (filter (\<lambda>x. ob_kind x = ResolveEvent \<and> ob_session_id x \<in> set chosen) (db_outbox db')) = Inr claims"
    using assms(2) unfolding claim_recording_source_resolutions_def Inr_iffs sum.inject
    by (elim exE conjE disjE; hypsubst?; blast)
  then obtain n where up: "update_outbox (\<lambda>x. ob_kind x = ResolveEvent \<and> ob_session_id x \<in> set (event_selection db now limit)) ?f db = (Inr n, db')"
    and tr: "traverseE (claim_of_event db') (filter (\<lambda>x. ob_kind x = ResolveEvent \<and>
        ob_session_id x \<in> set (event_selection db now limit)) (db_outbox db')) = Inr claims" by blast
  let ?P = "\<lambda>x. ob_kind x = ResolveEvent \<and> ob_session_id x \<in> set (event_selection db now limit)"
  have out: "db_outbox db' = update_where ?P ?f (db_outbox db)" using up by (auto simp: update_outbox_def)
  from traverseE_mem [OF tr assms(3)] obtain y where y: "y \<in> set (db_outbox db')" "?P y" "claim_of_event db' y = Inr c"
    by auto
  have inv': "db_inv db'"
    using keepsD [OF keeps_claim_resolutions [of db now lease_until limit] store_goodI [OF inv]] assms(2)
    by (simp add: store_good_def)
  obtain x where x: "x \<in> set (db_outbox db)" "y = (if ?P x then ?f x else x)"
    using y(1) unfolding out by (rule in_update_where)
  then have key: "ob_kind y = ob_kind x" "ob_session_id y = ob_session_id x" by simp_all
  with x(2) y(2) have yf: "y = ?f x" by simp
  obtain z where z: "z \<in> set (db_outbox db)" "ob_session_id z = ob_session_id y" "claimable_event db now z"
    using y(2) by (auto simp: event_selection_def dest!: in_set_takeD)
  with y(2) key have "z = x" by (intro outbox_key [OF inv z(1) x(1)]) (auto simp: claimable_event_def)
  with z(3) have undone: "ob_done_at x = None" by (simp add: claimable_event_def)
  have cc: "cl_session_id c = ob_session_id y" "int (cl_attempt c) = ob_attempts y"
    using y(3) by (auto simp: claim_of_event_def dest!: select_one_Some)
  have "owns_event c y" "ob_next_attempt_at y = timestamp lease_until"
    using cc y(2) yf undone by (auto simp: owns_event_def)
  moreover have "\<not> owns_event old w"
    if "cl_session_id old = cl_session_id c" "u \<in> set (db_outbox db)" "owns_event old u" "w \<in> set (db_outbox db')" for old u w
  proof
    assume w: "owns_event old w"
    have "w = y" by (rule outbox_key [OF inv' that(4) y(1)]) (use w that(1) cc y(2) in \<open>auto simp: owns_event_def\<close>)
    moreover have "u = x" by (rule outbox_key [OF inv that(2) x(1)]) (use that(1,3) cc y(2) key in \<open>auto simp: owns_event_def\<close>)
    ultimately show False using w that(3) yf by (simp add: owns_event_def)
  qed
  ultimately show ?thesis using y(1) by blast
qed

definition sample_failed :: session_row where
  "sample_failed = sample_active\<lparr>se_status := Failed, se_ended_at := Some 0, se_end_note := Some [102],
     se_provider_session_id := Some [118]\<rparr>"

definition sample_event :: "int \<Rightarrow> millis \<Rightarrow> outbox_row" where
  "sample_event attempts next = \<lparr>ob_kind = ResolveEvent, ob_session_id = [115], ob_org_id = [111],
     ob_attempts = attempts, ob_next_attempt_at = next, ob_created_at = 0, ob_done_at = None\<rparr>"

definition sample_db4 :: db where
  "sample_db4 = sample_db3\<lparr>db_sessions := [sample_failed],
     db_recordings := map (\<lambda>r. r\<lparr>re_status := RecPending, re_duration_ms := Some 0, re_size_bytes := Some 0\<rparr>)
       (db_recordings sample_db3),
     db_outbox := [sample_event 0 15000]\<rparr>"

definition sample_finalization :: failed_finalization where
  "sample_finalization = \<lparr>ff_provider_session_id = [118], ff_reason = [102], ff_duration_ms = 0,
     ff_has_recording_source = False, ff_at = 0\<rparr>"

lemma sample_recordings: "db_recordings sample_db3 =
  [\<lparr>re_session_id = [115], re_owner_id = [97], re_status = RecRecording, re_artifact_path = [],
    re_briefcase_url_enc = None, re_duration_ms = None, re_size_bytes = None, re_trashed_at = None, re_purge_after = None\<rparr>]"
  "db_outbox sample_db3 = []"
  by (simp_all add: sample_db3_def sample_db2_def insert_session_side_rows_def sample_db1_def empty_db_def
      sample_row_def reserved_row_def alice_def)

lemma sample_fail_run:
  "run (store_step sample_env) empty_db
     [CreateProfile [112] [111] alice sample_profile [119] [102] 0,
      ReserveSession [115] [111] alice sample_session_request 0,
      ActivateSession sample_nonces [111] [115] sample_provider 1,
      FinalizeFailed [111] [115] sample_finalization] sample_db4"
proof -
  let ?P = "\<lambda>s. se_org_id s = [111] \<and> se_id s = [115] \<and> is_live s \<and>
              (se_provider_session_id s = None \<or> se_provider_session_id s = Some [118])"
  let ?f = "\<lambda>s. s\<lparr>se_status := Failed, se_ended_at := Some 0, se_end_note := Some [102],
                se_provider_session_id := coalesce (se_provider_session_id s) (Some [118])\<rparr>"
  have pv: "se_provider_session_id sample_active = Some [118]" by (simp add: sample_active_def)
  have up: "update_sessions ?P ?f sample_db3 = (Inr 1, sample_db3\<lparr>db_sessions := [sample_failed]\<rparr>)"
    by (subst update_sessions_ok [OF sample_inv])
       (auto simp: is_live_def live_state_def affected_def update_where_def sample_db3_def sample_session
          sample_failed_def coalesce_def pv)
  have t: "trim [102] = [102]" "timestamp 0 = 0" "timestamp 15000000000 = 15000"
    by (simp_all add: text_eval timestamp_def)
  have r: "snd (session_unchecked [111] [115] d) = d" for d by (rule snd_read) simp
  have "snd (finalize_failed_session_after_stop [111] [115] sample_finalization sample_db3) = sample_db4"
    by (simp add: finalize_failed_session_after_stop_def sample_finalization_def sample_texts t bindS_def atomically_def
        up to_i64_def I64_MAX_NAT_def update_recordings_def update_where_def sample_recordings insert_outbox_def
        pending_outbox_def RECORDING_SOURCE_INITIAL_DELAY_def NANOS_PER_SECOND_def r)
       (simp add: sample_db4_def sample_recordings sample_event_def coalesce_def)
  then have "store_step sample_env (FinalizeFailed [111] [115] sample_finalization) sample_db3 sample_db4"
    by (simp add: store_step_def)
  from run_snoc [where step = "store_step sample_env", OF sample_run this] show ?thesis by simp
qed

lemma sample_unrecorded: "sl_recording sample_urls = None"
proof -
  have "sl_recording u = None" if "seal_provider plain_box sample_nonces [111] [115] sample_provider = Inr u" for u
    using that by (auto simp: seal_provider_def sample_provider_def optE_def split: sum.splits)
  then show ?thesis using sample_seal by blast
qed

lemma sample_lookup_claim:
  "claim_recording_source_resolutions 20000000000 30000000000 8 sample_db4 =
     (Inr [\<lparr>cl_org_id = [111], cl_session_id = [115], cl_provider_session_id = [118], cl_attempt = 1\<rparr>],
      sample_db4\<lparr>db_outbox := [sample_event 1 30000]\<rparr>)"
proof -
  have s: "se_id sample_failed = [115]" "se_org_id sample_failed = [111]" "se_status sample_failed = Failed"
    "se_provider_session_id sample_failed = Some [118]" "se_recording_url_enc sample_failed = None"
    by (simp_all add: sample_failed_def sample_active_def sample_row_def reserved_row_def sample_unrecorded)
  have t: "timestamp 20000000000 = 20000" "timestamp 30000000000 = 30000" by (simp_all add: timestamp_def)
  have sel: "event_selection sample_db4 20000000000 8 = [[115]]"
    by (simp add: event_selection_def claimable_event_def sample_db4_def sample_event_def s t finished_state_def
        sample_recordings resolvable_recording_def)
  show ?thesis
    by (simp add: claim_recording_source_resolutions_def bindS_def atomically_def sel update_outbox_def)
       (simp add: update_where_def sample_db4_def sample_event_def t claim_of_event_def select_one_def s)
qed

theorem lookup_claim_takes_over_witness:
  "\<exists>x \<in> set (db_outbox (sample_db4\<lparr>db_outbox := [sample_event 1 30000]\<rparr>)).
     ob_attempts x = 1 \<and> ob_next_attempt_at x = timestamp 30000000000"
  using lookup_claim_takes_over [OF sample_fail_run sample_lookup_claim] by (auto simp: owns_event_def)

end
