(* ===== verification/SB_Reads.thy ===== *)
theory SB_Reads
  imports SB_Guarantees
begin

text \<open>
  The list reads of the store (\<open>src/crates/backend/src/store.rs\<close>): \<open>sessions\<close>, \<open>recordings\<close>,
  \<open>usage\<close>, \<open>usage_list\<close> and \<open>usage_total\<close>. The two queries behind a list replace one read per
  session; the lemmas show that they answer as those reads would.
\<close>

section \<open>The two queries of a list\<close>

text \<open>\<open>MIN(first_seen_at)\<close> of a group of participant rows\<close>

definition first_seen :: "str \<Rightarrow> str \<Rightarrow> participant_row list \<Rightarrow> millis" where
  "first_seen session_id actor rows =
     Min (set (map pt_first_seen_at
       (filter (\<lambda>p. pt_session_id p = session_id \<and> pt_actor_id p = actor) rows)))"

text \<open>\<open>GROUP BY sp.session_id, sp.actor_id ORDER BY first_seen, sp.actor_id\<close>\<close>

definition participant_groups :: "str \<Rightarrow> db \<Rightarrow> (str \<times> str) list" where
  "participant_groups org_id db =
     (let rows = filter (\<lambda>p. list_ex (\<lambda>s. se_id s = pt_session_id p \<and> se_org_id s = org_id) (db_sessions db))
                   (db_participants db)
      in sort_key (\<lambda>(session_id, actor). (first_seen session_id actor rows, actor))
           (remdups (map (\<lambda>p. (pt_session_id p, pt_actor_id p)) rows)))"

text \<open>The hash map from a session to its actors, filled by \<open>entry(...).or_default().push(...)\<close>\<close>

definition or_default :: "(str \<rightharpoonup> str list) \<Rightarrow> str \<Rightarrow> str list" where
  "or_default actors session_id = (case actors session_id of Some xs \<Rightarrow> xs | None \<Rightarrow> [])"

fun collect_actors :: "(str \<rightharpoonup> str list) \<Rightarrow> (str \<times> str) list \<Rightarrow> (str \<rightharpoonup> str list)" where
  "collect_actors actors [] = actors"
| "collect_actors actors ((session_id, actor) # rest) =
     collect_actors (actors(session_id \<mapsto> or_default actors session_id @ [actor])) rest"

text \<open>\<open>LEFT JOIN profiles p ON p.id = s.profile_id AND p.org_id = s.org_id\<close>\<close>

definition row_profile :: "db \<Rightarrow> session_row \<Rightarrow> profile_row option" where
  "row_profile db s = select_one (\<lambda>p. se_profile_id s = Some (pr_id p) \<and> pr_org_id p = se_org_id s) (db_profiles db)"

text \<open>A row of the first query: a session with its usage and, where it has one, its profile.\<close>

definition session_rows :: "str \<Rightarrow> db \<Rightarrow> (session_row \<times> profile_row option \<times> usage_row) list" where
  "session_rows org_id db =
     concat (map (\<lambda>s.
         case select_one (\<lambda>u. us_session_id u = se_id s) (db_usage db) of
           None \<Rightarrow> []
         | Some u \<Rightarrow> [(s, row_profile db s, u)])
       (sort_key (\<lambda>s. (- se_started_at s, se_id s)) (filter (\<lambda>s. se_org_id s = org_id) (db_sessions db))))"

fun visible_loop ::
  "identity \<Rightarrow> (str \<rightharpoonup> str list) \<Rightarrow> (session_row \<times> profile_row option \<times> usage_row) list \<Rightarrow>
   store_error + (session \<times> usage) list" where
  "visible_loop viewer actors [] = Inr []"
| "visible_loop viewer actors ((s, p, u) # rows) =
     (let participants = or_default actors (se_id s);
          others = actors(se_id s := None);
          participant = list_ex (\<lambda>i. i \<in> set participants) (principal_ids viewer);
          allowed = (participant \<or> (case p of Some profile \<Rightarrow> allows (pr_access profile) viewer | None \<Rightarrow> False))
      in if allowed
         then tryE (map_usage u (se_started_at s) participants) (\<lambda>usage.
              tryE (map_session_model s (map_option pr_location p) participants usage) (\<lambda>session.
              tryE (visible_loop viewer others rows) (\<lambda>rest. Inr ((session, usage) # rest))))
         else visible_loop viewer others rows)"

definition visible_sessions_with_usage :: "str \<Rightarrow> identity \<Rightarrow> (db, (session \<times> usage) list) st" where
  "visible_sessions_with_usage org_id viewer =
     readS (\<lambda>db. visible_loop viewer (collect_actors Map.empty (participant_groups org_id db))
                   (session_rows org_id db))"

section \<open>The public list reads\<close>

definition store_sessions :: "str \<Rightarrow> identity \<Rightarrow> (db, session list) st" where
  "store_sessions org_id viewer = bindS (visible_sessions_with_usage org_id viewer) (\<lambda>xs. okS (map fst xs))"

fun recordings_loop ::
  "(str \<Rightarrow> (db, recording) st) \<Rightarrow> (recording \<Rightarrow> bool) \<Rightarrow> session list \<Rightarrow> (db, recording list) st" where
  "recordings_loop read keep [] = okS []"
| "recordings_loop read keep (s # ss) =
     bindS (read (s_id s)) (\<lambda>r.
     bindS (recordings_loop read keep ss) (\<lambda>rs. okS (if keep r then r # rs else rs)))"

definition recordings ::
  "url_parser \<Rightarrow> (str \<Rightarrow> str option) \<Rightarrow> (str \<Rightarrow> str) \<Rightarrow> str \<Rightarrow> identity \<Rightarrow> recording_predicate list option \<Rightarrow>
   secret_box \<Rightarrow> (db, recording list) st" where
  "recordings parse video_error lower org_id viewer filter_by box =
     bindS (store_sessions org_id viewer)
       (recordings_loop (recording_unchecked parse video_error (Some box) org_id)
          (\<lambda>r. case filter_by of None \<Rightarrow> True | Some f \<Rightarrow> recording_filter_matches lower f r viewer))"

definition usage_get :: "str \<Rightarrow> identity \<Rightarrow> str \<Rightarrow> (db, usage) st" where
  "usage_get org_id viewer session_id =
     bindS (session_get org_id viewer session_id) (\<lambda>_. usage_unchecked session_id)"

definition usage_list :: "str \<Rightarrow> identity \<Rightarrow> usage_predicate list option \<Rightarrow> (db, usage list) st" where
  "usage_list org_id viewer filter_by =
     bindS (visible_sessions_with_usage org_id viewer) (\<lambda>xs.
       okS (filter (\<lambda>u. case filter_by of None \<Rightarrow> True | Some f \<Rightarrow> usage_filter_matches f u) (map snd xs)))"

definition usage_total_get :: "str \<Rightarrow> identity \<Rightarrow> usage_predicate list option \<Rightarrow> (db, usage_total) st" where
  "usage_total_get org_id viewer filter_by =
     bindS (usage_list org_id viewer filter_by) (\<lambda>us. liftS (usage_total_of us))"

section \<open>Participants in order of appearance\<close>

definition first_time :: "('p \<Rightarrow> 't :: linorder) \<Rightarrow> ('p \<Rightarrow> 'a) \<Rightarrow> 'p list \<Rightarrow> 'a \<Rightarrow> 't" where
  "first_time t a rows x = Min (t ` {p \<in> set rows. a p = x})"

lemma first_time_snoc_old:
  assumes "\<forall>q \<in> set rows. t q \<le> t p" "x \<in> a ` set rows"
  shows "first_time t a (rows @ [p]) x = first_time t a rows x"
proof (cases "a p = x")
  case True
  then have "{q \<in> set (rows @ [p]). a q = x} = insert p {q \<in> set rows. a q = x}" by auto
  then have "first_time t a (rows @ [p]) x = min (t p) (first_time t a rows x)"
    using assms(2) by (auto simp: first_time_def intro!: Min_insert)
  moreover have "first_time t a rows x \<le> t p"
    unfolding first_time_def using assms by (intro Min_le_iff [THEN iffD2]) auto
  ultimately show ?thesis by (simp add: min_absorb2)
next
  case False
  then have "{q \<in> set (rows @ [p]). a q = x} = {q \<in> set rows. a q = x}" by auto
  then show ?thesis by (simp add: first_time_def)
qed

lemma first_time_snoc_new: "a p \<notin> a ` set rows \<Longrightarrow> first_time t a (rows @ [p]) (a p) = t p"
proof -
  assume "a p \<notin> a ` set rows"
  then have "\<forall>q \<in> set rows. a q \<noteq> a p" by (metis imageI)
  then have "{q \<in> set (rows @ [p]). a q = a p} = {p}" by auto
  then show ?thesis by (simp add: first_time_def)
qed

lemma first_time_le: "p \<in> set rows \<Longrightarrow> first_time t a rows (a p) \<le> t p"
  unfolding first_time_def by (auto intro!: Min_le)

lemma appearance_sorted:
  "sorted (map (\<lambda>p. (t p, a p)) rows) \<Longrightarrow>
   sorted (map (\<lambda>x. (first_time t a rows x, x)) (rev (remdups (rev (map a rows)))))"
  for a :: "'p \<Rightarrow> 'a :: linorder" and t :: "'p \<Rightarrow> 't :: linorder"
proof (induction rows rule: rev_induct)
  case (snoc p rows)
  let ?xs = "rev (remdups (rev (map a rows)))"
  from snoc.prems have sorted: "sorted (map (\<lambda>p. (t p, a p)) rows)"
    and last: "\<forall>q \<in> set rows. (t q, a q) \<le> (t p, a p)" by (auto simp: sorted_append)
  then have le: "\<forall>q \<in> set rows. t q \<le> t p" by (auto simp: less_eq_prod_def)
  have same: "map (\<lambda>x. (first_time t a (rows @ [p]) x, x)) ?xs = map (\<lambda>x. (first_time t a rows x, x)) ?xs"
    using first_time_snoc_old [OF le, where a = a] by auto
  have old: "sorted (map (\<lambda>x. (first_time t a (rows @ [p]) x, x)) ?xs)"
    unfolding same by (rule snoc.IH [OF sorted])
  show ?case
  proof (cases "a p \<in> a ` set rows")
    case True
    then show ?thesis using old by simp
  next
    case False
    have "(first_time t a rows x, x) \<le> (t p, a p)" if x: "x \<in> a ` set rows" for x
    proof -
      from x obtain q where q: "q \<in> set rows" "x = a q" by auto
      with last first_time_le [OF q(1), of t a] show ?thesis by (fastforce simp: less_eq_prod_def)
    qed
    with False show ?thesis
      using old first_time_snoc_new [OF False, of t] first_time_snoc_old [OF le, where a = a]
      by (auto simp: sorted_append)
  qed
qed simp

lemma order_unique:
  assumes "sorted (map (\<lambda>x. (f x, x)) xs)" "sorted (map (\<lambda>x. (f x, x)) ys)"
    and "distinct xs" "distinct ys" "set xs = set ys"
  shows "xs = ys"
proof -
  have "map (\<lambda>x. (f x, x)) xs = map (\<lambda>x. (f x, x)) ys"
    using assms by (intro sorted_distinct_set_unique) (auto simp: distinct_map inj_on_def)
  from this [THEN arg_cong, where f = "map snd"] show ?thesis by (simp add: comp_def)
qed

lemma first_time_sort: "first_time t a (sort_key k rows) x = first_time t a rows x"
  by (simp add: first_time_def)

lemma groups_participants:
  assumes "s \<in> set (db_sessions db)" "se_org_id s = org" "se_id s = sid"
  shows "map snd (filter (\<lambda>g. fst g = sid) (participant_groups org db)) = participant_ids sid db"
proof -
  let ?mine = "filter (\<lambda>p. pt_session_id p = sid) (db_participants db)"
  let ?T = "first_time pt_first_seen_at pt_actor_id ?mine"
  let ?rows = "filter (\<lambda>p. list_ex (\<lambda>s. se_id s = pt_session_id p \<and> se_org_id s = org) (db_sessions db))
                 (db_participants db)"
  let ?pairs = "filter (\<lambda>g. fst g = sid) (remdups (map (\<lambda>p. (pt_session_id p, pt_actor_id p)) ?rows))"
  let ?key = "\<lambda>(session_id, actor). (first_seen session_id actor ?rows, actor)"
  have here: "list_ex (\<lambda>s. se_id s = sid \<and> se_org_id s = org) (db_sessions db)"
    using assms by (auto simp: list_ex_iff)
  have seen: "first_seen sid x ?rows = ?T x" for x
  proof -
    have "filter (\<lambda>p. pt_session_id p = sid \<and> pt_actor_id p = x) ?rows =
        filter (\<lambda>p. pt_actor_id p = x) ?mine"
      using here by (auto simp: filter_filter intro!: filter_cong)
    then show ?thesis by (simp add: first_seen_def first_time_def)
  qed
  have groups: "filter (\<lambda>g. fst g = sid) (participant_groups org db) = sort_key ?key ?pairs"
    by (simp add: participant_groups_def Let_def filter_sort)
  have "sorted (map (\<lambda>x. (?T x, x)) (map snd (sort_key ?key ?pairs)))"
  proof -
    have "map ?key (sort_key ?key ?pairs) = map (\<lambda>x. (?T x, x)) (map snd (sort_key ?key ?pairs))"
      using seen by (auto simp: comp_def)
    then show ?thesis using sorted_sort_key [of ?key ?pairs] by (simp only:)
  qed
  moreover have "sorted (map (\<lambda>x. (?T x, x)) (participant_ids sid db))"
    using appearance_sorted [of pt_first_seen_at pt_actor_id
        "sort_key (\<lambda>p. (pt_first_seen_at p, pt_actor_id p)) ?mine"]
    by (simp add: participant_ids_def first_time_sort)
  moreover have "distinct (map snd (sort_key ?key ?pairs))"
    by (auto simp: distinct_map inj_on_def)
  moreover have "distinct (participant_ids sid db)" by (simp add: participant_ids_def)
  moreover have "set (map snd (sort_key ?key ?pairs)) = set (participant_ids sid db)"
    using here by (force simp: participant_ids_def)
  ultimately show ?thesis unfolding groups by (intro order_unique [of ?T]) auto
qed

lemma or_default_simps [simp]:
  "or_default (m(k := v)) j = (if j = k then (case v of Some xs \<Rightarrow> xs | None \<Rightarrow> []) else or_default m j)"
  "or_default Map.empty j = []"
  by (simp_all add: or_default_def)

lemma collect_actors_get:
  "or_default (collect_actors m gs) sid = or_default m sid @ map snd (filter (\<lambda>g. fst g = sid) gs)"
  by (induction gs arbitrary: m) auto

section \<open>A list answers as the single reads\<close>

text \<open>What one row of the list answers: the two reads of that session, one after the other.\<close>

definition read_one :: "str \<Rightarrow> identity \<Rightarrow> db \<Rightarrow> session_row \<Rightarrow> store_error + session \<times> usage" where
  "read_one org viewer db s =
     tryE (result_of (usage_get org viewer (se_id s)) db) (\<lambda>u.
     tryE (result_of (session_get org viewer (se_id s)) db) (\<lambda>x. Inr (x, u)))"

lemma select_unique:
  assumes "distinct (map k rows)" "r \<in> set rows" "P r" "\<forall>x \<in> set rows. P x \<longrightarrow> k x = k r"
  shows "select_one P rows = Some r"
proof (cases "select_one P rows")
  case None
  with assms show ?thesis by (auto simp: select_one_None)
next
  case (Some x)
  then have "x \<in> set rows" "P x" by (auto dest: select_one_Some)
  with assms Some show ?thesis by (auto dest: distinct_key)
qed


lemma row_profile_none: "se_profile_id s = None \<Longrightarrow> row_profile db s = None"
  by (simp add: row_profile_def select_one_None)

lemma row_profile_some:
  assumes "db_inv db" "s \<in> set (db_sessions db)" "se_profile_id s = Some pid"
  shows "\<exists>p. row_profile db s = Some p \<and> select_one (\<lambda>r. pr_id r = pid) (db_profiles db) = Some p"
proof -
  from assms obtain p where p: "p \<in> set (db_profiles db)" "pr_id p = pid" "pr_org_id p = se_org_id s"
    by (auto simp: db_inv_def live_on_active_def profile_supports_def)
  from assms(1) have d: "distinct (map pr_id (db_profiles db))" by (simp add: db_inv_def profiles_unique_def)
  have "row_profile db s = Some p"
    unfolding row_profile_def using p assms(3) by (intro select_unique [OF d]) auto
  moreover have "select_one (\<lambda>r. pr_id r = pid) (db_profiles db) = Some p"
    using p by (intro select_unique [OF d]) auto
  ultimately show ?thesis by blast
qed

lemma row_profile_reads:
  assumes "db_inv db" "s \<in> set (db_sessions db)"
  shows "map_option pr_location (row_profile db s) = profile_location s db"
    "(list_ex (\<lambda>i. i \<in> set (participant_ids (se_id s) db)) (principal_ids viewer) \<or>
      (case row_profile db s of Some p \<Rightarrow> allows (pr_access p) viewer | None \<Rightarrow> False)) = session_visible s viewer db"
proof -
  have actor: "i \<in> set (participant_ids (se_id s) db) \<longleftrightarrow> is_session_actor (se_id s) i db" for i
    by (auto simp: participant_ids_def is_session_actor_def list_ex_iff)
  consider (incognito) "se_profile_id s = None" | (profile) pid where "se_profile_id s = Some pid"
    by (cases "se_profile_id s") auto
  then have "map_option pr_location (row_profile db s) = profile_location s db \<and>
    (list_ex (\<lambda>i. i \<in> set (participant_ids (se_id s) db)) (principal_ids viewer) \<or>
      (case row_profile db s of Some p \<Rightarrow> allows (pr_access p) viewer | None \<Rightarrow> False)) = session_visible s viewer db"
  proof cases
    case incognito
    then show ?thesis by (simp add: row_profile_none profile_location_def session_visible_def actor)
  next
    case profile
    from row_profile_some [OF assms profile] profile show ?thesis
      by (auto simp: profile_location_def session_visible_def actor)
  qed
  then show "map_option pr_location (row_profile db s) = profile_location s db"
    "(list_ex (\<lambda>i. i \<in> set (participant_ids (se_id s) db)) (principal_ids viewer) \<or>
      (case row_profile db s of Some p \<Rightarrow> allows (pr_access p) viewer | None \<Rightarrow> False)) = session_visible s viewer db"
    by auto
qed

lemma side_usage:
  assumes "db_inv db" "s \<in> set (db_sessions db)"
  obtains u where "select_one (\<lambda>u. us_session_id u = se_id s) (db_usage db) = Some u"
    "usage_unchecked (se_id s) db = (map_usage u (se_started_at s) (participant_ids (se_id s) db), db)"
proof -
  have ids: "distinct (map us_session_id (db_usage db))" "se_id s \<in> set (map us_session_id (db_usage db))"
    using assms by (auto simp: db_inv_def side_rows_aligned_def sessions_unique_def)
  then obtain u where u: "u \<in> set (db_usage db)" "us_session_id u = se_id s" by auto
  have U: "select_one (\<lambda>u. us_session_id u = se_id s) (db_usage db) = Some u"
    using u by (intro select_unique [OF ids(1)]) auto
  have S: "select_one (\<lambda>x. se_id x = se_id s) (db_sessions db) = Some s"
    using assms by (intro select_unique [of se_id]) (auto simp: db_inv_def sessions_unique_def)
  from U S show ?thesis by (intro that [OF U]) (simp add: usage_unchecked_def readS_def)
qed

lemma read_one_visible:
  assumes "db_inv db" "s \<in> set (db_sessions db)" "se_org_id s = org" "session_visible s viewer db"
  shows "read_one org viewer db s =
     tryE (result_of (usage_unchecked (se_id s)) db) (\<lambda>u.
     tryE (map_session_model s (profile_location s db) (participant_ids (se_id s) db) u) (\<lambda>x. Inr (x, u)))"
proof -
  from side_usage [OF assms(1,2)] obtain u where
    u: "usage_unchecked (se_id s) db = (map_usage u (se_started_at s) (participant_ids (se_id s) db), db)" by metis
  have row: "session_row_of org (se_id s) db = (Inr s, db)"
    using find_session_unique [OF assms(1,2)] assms(3) by (simp add: session_row_of_def readS_def)
  show ?thesis
    by (cases "map_usage u (se_started_at s) (participant_ids (se_id s) db)")
       (auto simp: read_one_def usage_get_def session_get_def map_session_def bindS_def row result_of_def readS_def
          assms(4) u tryE_def split: sum.splits)
qed

text \<open>The rows of a list in its order, and the sessions of the organization behind them.\<close>

definition listed :: "str \<Rightarrow> db \<Rightarrow> session_row list" where
  "listed org db = sort_key (\<lambda>s. (- se_started_at s, se_id s)) (filter (\<lambda>s. se_org_id s = org) (db_sessions db))"

lemma visible_loop_reads:
  assumes "db_inv db" "\<forall>s \<in> set ss. s \<in> set (db_sessions db) \<and> se_org_id s = org"
    and "distinct (map se_id ss)" "\<forall>s \<in> set ss. or_default m (se_id s) = participant_ids (se_id s) db"
  shows "visible_loop viewer m (concat (map (\<lambda>s.
         case select_one (\<lambda>u. us_session_id u = se_id s) (db_usage db) of
           None \<Rightarrow> [] | Some u \<Rightarrow> [(s, row_profile db s, u)]) ss)) =
       traverseE (read_one org viewer db) (filter (\<lambda>s. session_visible s viewer db) ss)"
  using assms(2-)
proof (induction ss arbitrary: m)
  case (Cons s ss)
  from Cons.prems(1) have s: "s \<in> set (db_sessions db)" "se_org_id s = org" by auto
  from side_usage [OF assms(1) s(1)] obtain u where
    u: "select_one (\<lambda>u. us_session_id u = se_id s) (db_usage db) = Some u"
      "usage_unchecked (se_id s) db = (map_usage u (se_started_at s) (participant_ids (se_id s) db), db)" by metis
  note reads = row_profile_reads(1) [OF assms(1) s(1)] row_profile_reads(2) [OF assms(1) s(1), of viewer]
  have "visible_loop viewer (m(se_id s := None)) (concat (map (\<lambda>s.
         case select_one (\<lambda>u. us_session_id u = se_id s) (db_usage db) of
           None \<Rightarrow> [] | Some u \<Rightarrow> [(s, row_profile db s, u)]) ss)) =
       traverseE (read_one org viewer db) (filter (\<lambda>s. session_visible s viewer db) ss)"
    using Cons.prems by (intro Cons.IH) (auto simp del: fun_upd_apply, metis imageI)
  moreover from Cons.prems(3) have "or_default m (se_id s) = participant_ids (se_id s) db" by simp
  ultimately show ?case
    using reads read_one_visible [OF assms(1) s, of viewer]
    by (simp add: u Let_def result_of_def tryE_def split: sum.splits)
qed simp

lemma batched_reads:
  assumes "run (store_step v) empty_db es db"
  shows "visible_sessions_with_usage org viewer db =
     (traverseE (\<lambda>s. tryE (result_of (usage_get org viewer (se_id s)) db) (\<lambda>u.
                     tryE (result_of (session_get org viewer (se_id s)) db) (\<lambda>x. Inr (x, u))))
        (filter (\<lambda>s. session_visible s viewer db) (listed org db)), db)"
proof -
  from run_good [OF assms db_inv_empty] have inv: "db_inv db" by (simp add: store_good_def)
  let ?m = "collect_actors Map.empty (participant_groups org db)"
  have mem: "\<forall>s \<in> set (listed org db). s \<in> set (db_sessions db) \<and> se_org_id s = org"
    by (auto simp: listed_def)
  have ids: "distinct (map se_id (listed org db))"
    using inv by (auto simp: listed_def db_inv_def sessions_unique_def distinct_map intro: inj_on_subset)
  have "\<forall>s \<in> set (listed org db). or_default ?m (se_id s) = participant_ids (se_id s) db"
    using mem by (auto simp: collect_actors_get groups_participants)
  from visible_loop_reads [OF inv mem ids this, of viewer] show ?thesis
    by (simp add: visible_sessions_with_usage_def readS_def session_rows_def listed_def read_one_def [abs_def])
qed

lemma session_unchecked_parts:
  assumes "session_unchecked org sid db = (Inr x, db')"
  shows "s_id x = sid" "\<exists>u t. usage_unchecked sid db = (Inr u, db) \<and> usage_total_of [u] = Inr t"
proof -
  from assms obtain row where row: "find_session org sid db = Some row" and m: "map_session row db = (Inr x, db')"
    unfolding session_unchecked_def session_row_of_def Inr_iffs by (auto simp: ok_or_def split: option.splits)
  from find_session_Some [OF row] have id: "se_id row = sid" by simp
  from m obtain u db2 where "usage_unchecked (se_id row) db = (Inr u, db2)"
    "map_session_model row (profile_location row db2) (participant_ids (se_id row) db2) u = Inr x"
    unfolding map_session_def Inr_iffs by auto
  then show "s_id x = sid" "\<exists>u t. usage_unchecked sid db = (Inr u, db) \<and> usage_total_of [u] = Inr t"
    using id by (auto simp: map_session_model_def usage_unchecked_def readS_def)
qed

lemma sample_listing:
  "filter (\<lambda>s. session_visible s alice sample_db3) (listed [111] sample_db3) = [sample_active]"
  "\<exists>x u t. result_of (session_get [111] alice [115]) sample_db3 = Inr x \<and>
     result_of (usage_get [111] alice [115]) sample_db3 = Inr u \<and> usage_total_of [u] = Inr t \<and> s_id x = [115]"
proof -
  have "session_visible sample_active alice sample_db3"
    by (simp add: session_visible_def is_session_actor_def principal_ids_def alice_def sample_db3_def
        sample_db2_def insert_session_side_rows_def sample_active_def sample_row_def reserved_row_def)
  then show "filter (\<lambda>s. session_visible s alice sample_db3) (listed [111] sample_db3) = [sample_active]"
    using sample_session(7) by (simp add: listed_def sample_db3_def)
  obtain x where x: "session_unchecked [111] [115] sample_db3 = (Inr x, sample_db3)" using sample_read by blast
  from session_unchecked_parts [OF x] obtain u t where
    u: "s_id x = [115]" "usage_unchecked [115] sample_db3 = (Inr u, sample_db3)" "usage_total_of [u] = Inr t" by blast
  then show "\<exists>x u t. result_of (session_get [111] alice [115]) sample_db3 = Inr x \<and>
     result_of (usage_get [111] alice [115]) sample_db3 = Inr u \<and> usage_total_of [u] = Inr t \<and> s_id x = [115]"
    by (auto simp: result_of_def usage_get_def bindS_def sample_visible x)
qed

text \<open>In every state the store can reach, the batched listing answers exactly as one read of
  every visible session after the other would, in the order of the list, with the same sessions,
  usages, participants and the same first error.\<close>
theorem session_list_reads:
  assumes "run (store_step v) empty_db es db"
  shows "visible_sessions_with_usage org viewer db =
     (traverseE (\<lambda>s. tryE (result_of (usage_get org viewer (se_id s)) db) (\<lambda>u.
                     tryE (result_of (session_get org viewer (se_id s)) db) (\<lambda>x. Inr (x, u))))
        (filter (\<lambda>s. session_visible s viewer db) (listed org db)), db)"
  by (rule batched_reads [OF assms])

theorem session_list_reads_witness:
  "\<exists>x u. visible_sessions_with_usage [111] alice sample_db3 = (Inr [(x, u)], sample_db3) \<and> s_id x = [115]"
  using session_list_reads [OF sample_run, of "[111]" alice] sample_listing(2)
  by (auto simp: sample_listing(1) sample_session(6))

section \<open>Totals of visible sessions\<close>

lemma usage_total_loop_currency:
  "usage_total_loop c t rows = Inr t' \<Longrightarrow> m_currency (uc_total (ut_cost t')) = m_currency (uc_total (ut_cost t))"
proof (induction rows arbitrary: t)
  case (Cons r rows)
  then obtain u where "usage_total_step c t r = Inr u" "usage_total_loop c u rows = Inr t'" by auto
  with Cons.IH show ?case by (auto simp: usage_total_step_def add_money_Inr)
qed simp

lemma usage_get_sound:
  assumes "result_of (usage_get org viewer sid) db = Inr u"
  shows "u_session_id u = sid" "cost_balanced (u_cost u)"
proof -
  from assms obtain db' where "usage_get org viewer sid db = (Inr u, db')"
    by (cases "usage_get org viewer sid db") (auto simp: result_of_def)
  then obtain db2 where "usage_unchecked sid db2 = (Inr u, db')"
    unfolding usage_get_def Inr_iffs by auto
  then obtain row t ps where m: "map_usage row t ps = Inr u" "us_session_id row = sid"
    by (auto simp: usage_unchecked_def readS_def dest: select_one_Some split: option.splits)
  from m show "u_session_id u = sid" by (auto simp: map_usage_def Let_def case_prod_beta)
  from map_usage_balanced [OF m(1)] show "cost_balanced (u_cost u)" .
qed

text \<open>What the totals of a list are, whichever list it is.\<close>

lemma usage_total_of_exact:
  assumes "usage_total_of us = Inr t" "\<forall>u \<in> set us. cost_balanced (u_cost u)"
  shows "ut_sessions t = length us"
    "m_micros (uc_total (ut_cost t)) = sum_list (map (\<lambda>u. m_micros (uc_total (u_cost u))) us)"
    "cost_balanced (ut_cost t)"
    "\<forall>u \<in> set us. m_currency (uc_total (u_cost u)) = m_currency (uc_total (ut_cost t))"
proof -
  have "ut_sessions t = length us \<and>
    m_micros (uc_total (ut_cost t)) = sum_list (map (\<lambda>u. m_micros (uc_total (u_cost u))) us) \<and>
    cost_balanced (ut_cost t) \<and>
    (\<forall>u \<in> set us. m_currency (uc_total (u_cost u)) = m_currency (uc_total (ut_cost t)))"
  proof (cases us)
    case Nil
    with assms(1) show ?thesis
      by (auto simp: usage_total_of_def default_usage_total_def default_money_def cost_balanced_def)
  next
    case (Cons u rest)
    let ?c = "m_currency (uc_total (u_cost u))"
    let ?z = "\<lparr>m_currency = ?c, m_micros = 0\<rparr>"
    let ?t0 = "default_usage_total\<lparr>ut_sessions := length us, ut_cost := \<lparr>uc_browser = ?z, uc_proxy_in = ?z,
      uc_proxy_out = ?z, uc_proxy_unclassified = ?z, uc_total = ?z\<rparr>\<rparr>"
    from assms(1) Cons have loop: "usage_total_loop ?c ?t0 us = Inr t"
      by (simp add: usage_total_of_def Let_def)
    have "cost_balanced (ut_cost ?t0)" by (simp add: cost_balanced_def)
    from usage_total_loop_balanced [OF loop this assms(2)] usage_total_loop_fields [OF loop]
      usage_total_loop_currency [OF loop]
    show ?thesis by simp
  qed
  then show "ut_sessions t = length us"
    "m_micros (uc_total (ut_cost t)) = sum_list (map (\<lambda>u. m_micros (uc_total (u_cost u))) us)"
    "cost_balanced (ut_cost t)"
    "\<forall>u \<in> set us. m_currency (uc_total (u_cost u)) = m_currency (uc_total (ut_cost t))" by blast+
qed

text \<open>A usage total counts every usage of the filtered list of sessions visible to the viewer
  exactly once, its money is the exact sum in one currency, and its total is the sum of its
  browser and proxy parts.\<close>
theorem usage_totals_exact:
  assumes "run (store_step v) empty_db es db"
    and "usage_total_get org viewer filter_by db = (Inr t, db')"
  shows "db' = db \<and> (\<exists>us. usage_list org viewer filter_by db = (Inr us, db) \<and> ut_sessions t = length us \<and>
     distinct (map u_session_id us) \<and>
     m_micros (uc_total (ut_cost t)) = sum_list (map (\<lambda>u. m_micros (uc_total (u_cost u))) us) \<and>
     cost_balanced (ut_cost t) \<and>
     (\<forall>u \<in> set us. m_currency (uc_total (u_cost u)) = m_currency (uc_total (ut_cost t)) \<and>
        (\<exists>s \<in> set (db_sessions db). se_id s = u_session_id u \<and> se_org_id s = org \<and> session_visible s viewer db)))"
proof -
  let ?keep = "\<lambda>u. case filter_by of None \<Rightarrow> True | Some f \<Rightarrow> usage_filter_matches f u"
  let ?vis = "filter (\<lambda>s. session_visible s viewer db) (listed org db)"
  from run_good [OF assms(1) db_inv_empty] have inv: "db_inv db" by (simp add: store_good_def)
  from assms(2) obtain xs where xs: "visible_sessions_with_usage org viewer db = (Inr xs, db)"
    and t: "usage_total_of (filter ?keep (map snd xs)) = Inr t" and db': "db' = db"
    unfolding usage_total_get_def usage_list_def Inr_iffs
    using batched_reads [OF assms(1), of org viewer] by auto
  from xs have all: "list_all2 (\<lambda>s y. u_session_id (snd y) = se_id s \<and> cost_balanced (u_cost (snd y))) ?vis xs"
    unfolding batched_reads [OF assms(1)] prod.inject traverseE_Inr_iff
    by (auto elim!: list_all2_mono dest: usage_get_sound)
  then have ids: "map u_session_id (map snd xs) = map se_id ?vis"
    by (auto simp: list_all2_conv_all_nth intro!: nth_equalityI)
  have "distinct (map u_session_id (map snd xs))" unfolding ids
    using inv by (auto simp: listed_def db_inv_def sessions_unique_def distinct_map intro: inj_on_subset)
  moreover have "\<exists>s \<in> set (db_sessions db). se_id s = u_session_id u \<and> se_org_id s = org \<and> session_visible s viewer db"
    if "u \<in> set (map snd xs)" for u
  proof -
    from that have "u_session_id u \<in> set (map se_id ?vis)" unfolding ids [symmetric] by auto
    then show ?thesis by (auto simp: listed_def)
  qed
  moreover have "\<forall>u \<in> set (filter ?keep (map snd xs)). cost_balanced (u_cost u)"
    using all by (auto simp: list_all2_conv_all_nth in_set_conv_nth) (metis snd_conv)
  ultimately show ?thesis
    using usage_total_of_exact [OF t] db' xs
    by (auto simp: usage_list_def bindS_def okS_def intro: distinct_map_filter)
qed

theorem usage_totals_exact_witness:
  "\<exists>t. usage_total_get [111] alice None sample_db3 = (Inr t, sample_db3) \<and> ut_sessions t = 1 \<and>
     cost_balanced (ut_cost t)"
proof -
  from sample_listing(2) obtain x u t where
    r: "result_of (session_get [111] alice [115]) sample_db3 = Inr x"
      "result_of (usage_get [111] alice [115]) sample_db3 = Inr u" "usage_total_of [u] = Inr t" by blast
  have l: "visible_sessions_with_usage [111] alice sample_db3 = (Inr [(x, u)], sample_db3)"
    using batched_reads [OF sample_run, of "[111]" alice] r(1,2) by (simp add: sample_listing(1) sample_session(6))
  then have t: "usage_total_get [111] alice None sample_db3 = (Inr t, sample_db3)"
    by (simp add: usage_total_get_def usage_list_def bindS_def r(3) okS_def liftS_def)
  from usage_totals_exact [OF sample_run t] l t show ?thesis
    by (auto simp: usage_list_def bindS_def okS_def)
qed

end
