(* ===== verification/SB_Api.thy ===== *)
theory SB_Api
  imports SB_Provider SB_Reads SB_Filter
begin

text \<open>
  What the HTTP server answers and what it demands of the browser provider
  (\<open>src/crates/backend/src/server.rs\<close>): the failure type with its conversions from the errors of
  the store and of the provider, the checks on provider answers, and the confirmed stop.
\<close>

section \<open>Failures\<close>

record api_failure =
  af_status :: nat
  af_code :: string
  af_message :: str
  af_fields :: "field_error list"
  af_details :: "(string \<times> str) list"
  af_retry_after_ms :: "nat option"
  af_auth_rejected :: bool

definition api_failure_new :: "nat \<Rightarrow> string \<Rightarrow> str \<Rightarrow> api_failure" where
  "api_failure_new status code message =
     \<lparr>af_status = status, af_code = code, af_message = message, af_fields = [], af_details = [],
       af_retry_after_ms = None, af_auth_rejected = False\<rparr>"

definition before_handler :: "api_failure \<Rightarrow> api_failure" where
  "before_handler f = f\<lparr>af_auth_rejected := (af_status f = 401)\<rparr>"

definition bad_request :: "string \<Rightarrow> str \<Rightarrow> api_failure" where
  "bad_request code message = api_failure_new 400 code message"

definition bad_gateway :: "string \<Rightarrow> str \<Rightarrow> api_failure" where
  "bad_gateway code message = api_failure_new 502 code message"

definition api_conflict :: "string \<Rightarrow> str \<Rightarrow> api_failure" where
  "api_conflict code message = api_failure_new 409 code message"

definition field_failure :: "str \<Rightarrow> str \<Rightarrow> api_failure" where
  "field_failure field message =
     (bad_request ''invalid_request'' message)\<lparr>af_fields := [\<lparr>fe_field = field, fe_message = message\<rparr>]\<rparr>"

fun validation_text :: "validation_error \<Rightarrow> str" where
  "validation_text (VRequired field) = lit (field @ '' is required'')"
| "validation_text (VTooLong field most) = lit (field @ '' must be at most '') @ dec_digits most @ lit '' characters''"
| "validation_text (VTooMany field most) =
     lit (field @ '' must contain at most '') @ dec_digits most @ lit '' items''"
| "validation_text (VOutOfRange field least most) =
     lit (field @ '' must be between '') @ dec_digits least @ lit '' and '' @ dec_digits most"
| "validation_text (VInvalid field reason) = lit (''invalid '' @ field @ '': '' @ reason)"
| "validation_text (VConflict left right) = lit (left @ '' conflicts with '' @ right)"

fun decimal_text :: "decimal_error \<Rightarrow> string" where
  "decimal_text DInvalid = ''value is not a decimal''"
| "decimal_text DNegative = ''value must be non-negative''"
| "decimal_text DOverflow = ''value is too large''"

fun filter_text :: "filter_error \<Rightarrow> str" where
  "filter_text (FEmptyStage stage) = lit ''filter stage '' @ dec_digits stage @ lit '' is empty''"
| "filter_text (FMissingColon stage) = lit ''filter stage '' @ dec_digits stage @ lit '' must use key:value''"
| "filter_text (FUnsupported service key) = lit (service @ '' filters do not support '') @ key"
| "filter_text (FInvalid key reason) = lit ''invalid '' @ key @ lit ('' filter: '' @ reason)"

definition validation_failure :: "validation_error \<Rightarrow> api_failure" where
  "validation_failure e = bad_request ''invalid_request'' (validation_text e)"

definition unauthenticated :: api_failure where
  "unauthenticated = api_failure_new 401 ''unauthenticated'' (lit ''authentication is required or expired'')"

definition forbidden_failure :: "string \<Rightarrow> api_failure" where
  "forbidden_failure message = api_failure_new 403 ''forbidden'' (lit message)"

definition discovery_unavailable :: api_failure where
  "discovery_unavailable = api_failure_new 503 ''search_unavailable'' (lit ''search and fetch are not configured'')"

text \<open>\<open>impl From<StoreError> for ApiFailure\<close>; the parameter prints an instant in RFC 3339.\<close>

fun store_failure :: "(instant \<Rightarrow> str) \<Rightarrow> store_error \<Rightarrow> api_failure" where
  "store_failure show_time (SInvalid message) = bad_request ''invalid_request'' (lit message)"
| "store_failure show_time (SInvalidField e) = bad_request ''invalid_request'' (validation_text e)"
| "store_failure show_time (SInvalidCost e) = bad_request ''invalid_request'' (lit (''cost '' @ decimal_text e))"
| "store_failure show_time (SNotFound kind _) = api_failure_new 404 ''not_found'' (lit (kind @ '' was not found''))"
| "store_failure show_time (SForbidden kind _) = forbidden_failure (''not allowed to modify '' @ kind)"
| "store_failure show_time (SProfileRetired _) = api_conflict ''profile_retired'' (lit ''profile is retired'')"
| "store_failure show_time (SProfileBusy _ session actor expires_at) =
     (api_conflict ''profile_busy'' (lit ''profile already has a live session''))
       \<lparr>af_details := [(''actor_id'', actor), (''expires_at'', show_time expires_at), (''session_id'', session)]\<rparr>"
| "store_failure show_time (SSessionState _ status) =
     (api_conflict ''invalid_state'' (lit ''resource is not in the required state''))
       \<lparr>af_details := [(''status'', lit status)]\<rparr>"
| "store_failure show_time (SDatabase _) = api_failure_new 500 ''internal'' (lit ''an internal data operation failed'')"
| "store_failure show_time (SCorrupt _ _) = api_failure_new 500 ''internal'' (lit ''an internal data operation failed'')"
| "store_failure show_time (SCrypto _) = api_failure_new 500 ''internal'' (lit ''an internal data operation failed'')"

fun provider_failure :: "provider_error \<Rightarrow> api_failure" where
  "provider_failure (PInvalidInput message) = bad_request ''invalid_provider_request'' message"
| "provider_failure (PUnsupported _ feature) =
     api_failure_new 501 ''provider_unsupported'' (lit (feature @ '' is unavailable''))"
| "provider_failure (PHttp _ status _ _) =
     (if status = 429
      then api_failure_new 429 ''provider_rate_limited'' (lit ''provider rate limit reached'')
      else bad_gateway ''provider_failure'' (lit ''provider returned an invalid response''))"
| "provider_failure (PInvalidResponse _ _) =
     bad_gateway ''provider_failure'' (lit ''provider returned an invalid response'')"
| "provider_failure (PTransport _ _) =
     api_failure_new 503 ''provider_unavailable'' (lit ''provider is temporarily unavailable'')"
| "provider_failure (POverloaded _ capacity) =
     (api_failure_new 503 ''provider_queue_full'' (lit ''provider scheduling queue is full''))
       \<lparr>af_details := [(''capacity'', dec_digits capacity)], af_retry_after_ms := Some 1000\<rparr>"

text \<open>What \<open>into_response\<close> puts on the wire: the payload and the two headers it may add.\<close>

definition into_api_error :: "str \<Rightarrow> api_failure \<Rightarrow> api_error" where
  "into_api_error request_id f = \<lparr>ae_code = lit (af_code f), ae_message = af_message f, ae_fields = af_fields f,
     ae_details = map (\<lambda>(k, v). (lit k, v)) (af_details f), ae_request_id = Some request_id,
     ae_retry_after_ms = af_retry_after_ms f\<rparr>"

definition retry_after_header :: "api_failure \<Rightarrow> str option" where
  "retry_after_header f = map_option (\<lambda>ms. dec_digits (max (div_ceil ms 1000) 1)) (af_retry_after_ms f)"

text \<open>The bearer token of a request, from the value of its header.\<close>

definition bearer :: "str option \<Rightarrow> api_failure + str" where
  "bearer header =
     tryE (ok_or unauthenticated header) (\<lambda>value.
     tryE (ok_or unauthenticated (strip_prefix (lit ''Bearer '') value)) (\<lambda>token.
       if token = [] \<or> utf8_len token > 16 * 1024 \<or> list_ex (\<lambda>c. c < 32 \<or> c = 127) token
       then Inl unauthenticated else Inr token))"

section \<open>Checks on the provider's answers\<close>

definition provider_contract :: "string \<Rightarrow> provider_error" where
  "provider_contract message = PInvalidResponse ''browser-use'' (lit message)"

definition validate_provider_id :: "str \<Rightarrow> provider_error + unit" where
  "validate_provider_id rid =
     (if rid = [] \<or> utf8_len rid > 255 \<or>
         \<not> list_all (\<lambda>c. is_ascii_alphanumeric c \<or> c = 45 \<or> c = 95) rid
      then Inl (provider_contract ''provider returned an invalid resource id'') else Inr ())"

definition validate_provider_profile_identity :: "provider_profile \<Rightarrow> str \<Rightarrow> provider_error + unit" where
  "validate_provider_profile_identity profile expected =
     tryE (validate_provider_id (pp_id profile)) (\<lambda>_.
       if pp_user_id profile \<noteq> Some expected
       then Inl (provider_contract ''provider profile userId did not match its reservation'') else Inr ())"

definition provider_url_ok :: "url_parser \<Rightarrow> string list \<Rightarrow> str \<Rightarrow> bool" where
  "provider_url_ok parse schemes value =
     (case (if utf8_len value \<le> 16 * 1024 then parse value else Inl []) of
        Inl _ \<Rightarrow> False
      | Inr u \<Rightarrow> url_scheme u \<in> set (map lit schemes) \<and> \<not> url_cannot_be_a_base u \<and> url_hostpart u \<noteq> None \<and>
          url_username u = [] \<and> url_password u = None \<and> url_fragment u = None \<and> \<not> has_forbidden_host u)"

definition validate_provider_url :: "url_parser \<Rightarrow> str \<Rightarrow> string list \<Rightarrow> string \<Rightarrow> provider_error + unit" where
  "validate_provider_url parse value schemes kind =
     (if provider_url_ok parse schemes value then Inr ()
      else Inl (provider_contract (
        if kind = ''CDP'' then ''provider returned an invalid CDP endpoint''
        else if kind = ''live'' then ''provider returned an invalid live endpoint''
        else if kind = ''recording'' then ''provider returned an invalid recording endpoint''
        else ''provider returned an invalid endpoint'')))"

definition validate_provider_cdp_url :: "url_parser \<Rightarrow> str \<Rightarrow> provider_error + unit" where
  "validate_provider_cdp_url parse value = validate_provider_url parse value [''wss'', ''https''] ''CDP''"

definition validate_provider_browser_session :: "url_parser \<Rightarrow> provider_browser \<Rightarrow> bool \<Rightarrow> provider_error + unit" where
  "validate_provider_browser_session parse b require_runtime_urls =
     tryE (validate_provider_id (pb_id b)) (\<lambda>_.
     tryE (if pb_status b = lit ''active''
           then guardE (pb_finished_at b = None)
                  (provider_contract ''browser provider returned an inconsistent active browser'')
           else guardE (pb_status b = lit ''stopped'')
                  (provider_contract ''browser provider returned an invalid browser status'')) (\<lambda>_.
     tryE (guardE (\<not> (require_runtime_urls \<and> pb_status b \<noteq> lit ''active''))
            (provider_contract ''browser provider did not return an active browser'')) (\<lambda>_.
     tryE (case pb_cdp_url b of
             Some u \<Rightarrow> validate_provider_cdp_url parse u
           | None \<Rightarrow> guardE (\<not> require_runtime_urls) (provider_contract ''provider returned no CDP endpoint'')) (\<lambda>_.
     tryE (case pb_live_url b of
             Some u \<Rightarrow> validate_provider_url parse u [''https''] ''live''
           | None \<Rightarrow> guardE (\<not> require_runtime_urls) (provider_contract ''provider returned no live endpoint'')) (\<lambda>_.
       case pb_recording_url b of
         Some u \<Rightarrow> validate_provider_url parse u [''https''] ''recording''
       | None \<Rightarrow> Inr ())))))"

definition provider_session_of :: "url_parser \<Rightarrow> provider_browser \<Rightarrow> api_failure + provider_session" where
  "provider_session_of parse b =
     tryE (map_err provider_failure (validate_provider_browser_session parse b True)) (\<lambda>_.
     tryE (ok_or (bad_gateway ''browser_contract'' (lit ''browser provider returned no CDP endpoint''))
            (pb_cdp_url b)) (\<lambda>cdp_url.
     tryE (ok_or (bad_gateway ''browser_contract'' (lit ''browser provider returned no live endpoint''))
            (pb_live_url b)) (\<lambda>live_url.
       Inr \<lparr>pv_id = pb_id b, pv_cdp_url = cdp_url, pv_live_url = live_url, pv_recording_url = pb_recording_url b\<rparr>)))"

fun mutation_may_have_committed :: "provider_error \<Rightarrow> bool" where
  "mutation_may_have_committed (PTransport _ _) = True"
| "mutation_may_have_committed (PInvalidResponse _ _) = True"
| "mutation_may_have_committed (PHttp _ status _ _) \<longleftrightarrow> 500 \<le> status \<and> status \<le> 599"
| "mutation_may_have_committed _ = False"

fun http_status :: "provider_error \<Rightarrow> nat option" where
  "http_status (PHttp _ status _ _) = Some status"
| "http_status _ = None"

definition provider_browser_is_terminal :: "provider_browser \<Rightarrow> bool" where
  "provider_browser_is_terminal b \<longleftrightarrow> pb_status b = lit ''stopped''"

definition validated_terminal :: "url_parser \<Rightarrow> provider_browser \<Rightarrow> str \<Rightarrow> provider_error + provider_browser" where
  "validated_terminal parse b expected_id =
     tryE (validate_provider_browser_session parse b False) (\<lambda>_.
       if pb_id b \<noteq> expected_id then Inl (provider_contract ''provider stop returned a different browser id'')
       else if \<not> provider_browser_is_terminal b
       then Inl (provider_contract ''provider stop did not confirm a terminal browser'')
       else Inr b)"

definition stop_browser_confirmed ::
  "url_parser \<Rightarrow> 'p browser_api \<Rightarrow> str \<Rightarrow> ('p, provider_error, provider_browser) act" where
  "stop_browser_confirmed parse api provider_session_id =
     bindA (liftA (validate_provider_id provider_session_id)) (\<lambda>_.
     matchA (ba_stop_browser api provider_session_id)
       (\<lambda>session. liftA (validated_terminal parse session provider_session_id))
       (\<lambda>stop_error.
          if mutation_may_have_committed stop_error \<or> http_status stop_error \<in> {Some 404, Some 409}
          then matchA (ba_get_browser api provider_session_id)
                 (\<lambda>session. case validated_terminal parse session provider_session_id of
                      Inr b \<Rightarrow> okA b | Inl _ \<Rightarrow> errA stop_error)
                 (\<lambda>_. errA stop_error)
          else errA stop_error))"

section \<open>Metering a provider snapshot\<close>

text \<open>\<open>num_milliseconds().max(0)\<close> of a difference of instants\<close>

definition millis_between :: "instant \<Rightarrow> instant \<Rightarrow> nat" where
  "millis_between start finish =
     nat (max (if finish - start < 0 then - (- (finish - start) div 1000000) else (finish - start) div 1000000) 0)"

definition provider_duration_ms :: "(str \<Rightarrow> instant option) \<Rightarrow> provider_browser \<Rightarrow> nat option" where
  "provider_duration_ms rfc3339 b =
     Option.bind (Option.bind (pb_started_at b) rfc3339) (\<lambda>start.
     Option.bind (Option.bind (pb_finished_at b) rfc3339) (\<lambda>finish. Some (millis_between start finish)))"

definition browser_duration_ms :: "(str \<Rightarrow> instant option) \<Rightarrow> provider_browser \<Rightarrow> instant \<Rightarrow> instant \<Rightarrow> nat" where
  "browser_duration_ms rfc3339 b started_at observed_at =
     (case provider_duration_ms rfc3339 b of Some ms \<Rightarrow> ms | None \<Rightarrow> millis_between started_at observed_at)"

definition decimal_megabytes_to_bytes :: "str \<Rightarrow> nat option" where
  "decimal_megabytes_to_bytes value = (case decimal_to_millionths value of Inr n \<Rightarrow> Some n | Inl _ \<Rightarrow> None)"

definition provider_usage_sample ::
  "(str \<Rightarrow> instant option) \<Rightarrow> provider_browser \<Rightarrow> instant \<Rightarrow> instant \<Rightarrow> store_error + usage_sample" where
  "provider_usage_sample rfc3339 b started_at now =
     tryE (ok_or (SInvalid ''provider proxy usage is not a valid non-negative decimal'')
            (decimal_megabytes_to_bytes (pb_proxy_used_mb b))) (\<lambda>proxy_bytes.
       Inr \<lparr>sm_browser_millis = browser_duration_ms rfc3339 b started_at now, sm_proxy_bytes_in = None,
         sm_proxy_bytes_out = None, sm_proxy_bytes_unclassified = Some proxy_bytes,
         sm_browser_cost = pb_browser_cost b, sm_proxy_cost = pb_proxy_cost b, sm_currency = lit ''USD'',
         sm_sampled_at = now\<rparr>)"

datatype usage_observation = ObservedActive | ObservedTerminal

definition record_provider_usage ::
  "(str \<Rightarrow> instant option) \<Rightarrow> str \<Rightarrow> str \<Rightarrow> instant \<Rightarrow> provider_browser \<Rightarrow> instant \<Rightarrow> usage_observation \<Rightarrow>
   (db, unit) st" where
  "record_provider_usage rfc3339 org_id session_id started_at b now observation =
     bindS (liftS (provider_usage_sample rfc3339 b started_at now)) (\<lambda>sample.
     bindS (case observation of
              ObservedActive \<Rightarrow> record_usage org_id session_id sample
            | ObservedTerminal \<Rightarrow> record_terminal_usage org_id session_id sample) (\<lambda>_. okS ()))"

section \<open>Retry of recording lookups\<close>

definition RECORDING_RECONCILIATION_MAX_ATTEMPTS :: nat where "RECORDING_RECONCILIATION_MAX_ATTEMPTS = 10"

text \<open>\<open>1_u64 << attempt.saturating_sub(1).min(5)\<close>, in seconds\<close>

definition recording_reconciliation_backoff :: "nat \<Rightarrow> int" where
  "recording_reconciliation_backoff attempt =
     min (RECORDING_SOURCE_INITIAL_DELAY * 2 ^ min (attempt - 1) 5) (300 * NANOS_PER_SECOND)"

end
