(* ===== verification/SB_Server.thy ===== *)
theory SB_Server
  imports SB_Api
begin

text \<open>
  The handlers of the HTTP server and its background work (\<open>src/crates/backend/src/server.rs\<close>)
  over a world that holds the database and the provider's state: profiles and sessions as sagas
  across both, the end of a session, the live link, the reaper of expired sessions and the
  reconciliation of profiles and recordings. Each handler is the sequence of store methods and
  provider calls of its source; its extractors (the JSON body, the caller's identity) are done
  before it is entered.
\<close>

section \<open>The world\<close>

record 'p world =
  w_db :: db
  w_provider :: 'p

definition in_store :: "(db, 'a) st \<Rightarrow> ('p world, store_error, 'a) act" where
  "in_store m w = (case m (w_db w) of (r, d) \<Rightarrow> (r, w\<lparr>w_db := d\<rparr>))"

definition at_provider :: "('p, 'e, 'a) act \<Rightarrow> ('p world, 'e, 'a) act" where
  "at_provider m w = (case m (w_provider w) of (r, p) \<Rightarrow> (r, w\<lparr>w_provider := p\<rparr>))"

text \<open>What the process is configured with: the store's libraries, the provider's adapter, the
  calendar, the digest behind a profile's fingerprint, the accounts service, the JSON text of a
  live grant, and the case folding of filters.\<close>

record live_grant =
  lg_version :: nat
  lg_org_id :: str
  lg_session_id :: str
  lg_expires_at :: instant

record ('u, 'p) app_state =
  ap_store :: "'u store_env"
  ap_browser :: "'p browser_api"
  ap_rfc3339 :: "str \<Rightarrow> instant option"
  ap_show_time :: "instant \<Rightarrow> str"
  ap_fingerprint :: "str \<Rightarrow> str"
  ap_proxy_locations :: "proxy_location list"
  ap_resolve_account :: "str \<Rightarrow> api_failure + str"
  ap_subject_retired :: "str \<Rightarrow> bool"
  ap_public_origin :: str
  ap_grant_text :: "live_grant \<Rightarrow> str"
  ap_read_grant :: "str \<Rightarrow> live_grant option"
  ap_lower :: "str \<Rightarrow> str"
  ap_parse_date :: "str \<Rightarrow> date option"

text \<open>What a request draws from its surroundings: a fresh identifier, nonces, and the clock at the
  successive places that read it.\<close>

record ambient =
  am_fresh :: str
  am_nonce :: "nat \<Rightarrow> nonces"
  am_now :: "nat \<Rightarrow> instant"

type_synonym ('p, 'a) handler = "('p world, api_failure, 'a) act"

definition from_store :: "('u, 'p) app_state \<Rightarrow> (db, 'a) st \<Rightarrow> ('p, 'a) handler" where
  "from_store ap m = map_errA (store_failure (ap_show_time ap)) (in_store m)"

definition from_provider :: "('p, provider_error, 'a) act \<Rightarrow> ('p, 'a) handler" where
  "from_provider m = map_errA provider_failure (at_provider m)"

abbreviation ap_uuid :: "('u, 'p) app_state \<Rightarrow> 'u uuid_api" where "ap_uuid ap \<equiv> en_uuid (ap_store ap)"
abbreviation ap_parse :: "('u, 'p) app_state \<Rightarrow> url_parser" where "ap_parse ap \<equiv> en_parse (ap_store ap)"
abbreviation ap_box :: "('u, 'p) app_state \<Rightarrow> secret_box" where "ap_box ap \<equiv> en_box (ap_store ap)"
abbreviation ap_video :: "('u, 'p) app_state \<Rightarrow> str \<Rightarrow> str option" where "ap_video ap \<equiv> en_video_error (ap_store ap)"

text \<open>The confirmed stop, as a provider action within the world.\<close>

definition stop_confirmed :: "('u, 'p) app_state \<Rightarrow> str \<Rightarrow> ('p world, provider_error, provider_browser) act" where
  "stop_confirmed ap rid = at_provider (stop_browser_confirmed (ap_parse ap) (ap_browser ap) rid)"

section \<open>Accounts behind an access list\<close>

definition resolve_account_selector :: "('u, 'p) app_state \<Rightarrow> str \<Rightarrow> api_failure + str" where
  "resolve_account_selector ap selector =
     tryE (ap_resolve_account ap selector) (\<lambda>account.
       if ap_subject_retired ap account
       then Inl (field_failure (lit ''account'')
              (lit ''This account ID was retired. Resolve its current handle or sign in again.''))
       else Inr account)"

definition resolve_access :: "('u, 'p) app_state \<Rightarrow> access_list \<Rightarrow> api_failure + access_list" where
  "resolve_access ap access =
     tryE (traverseE (\<lambda>entry.
         tryE (ok_or (field_failure (lit ''access'')
                  (lit ''Accounts has no membership tags; share with @c:handle, @si:handle or @account-uuid''))
                (strip_prefix [64] entry)) (\<lambda>selector.
         tryE (resolve_account_selector ap selector) (\<lambda>account. Inr (64 # account)))) access) (\<lambda>resolved.
       map_err validation_failure (access_new resolved))"

section \<open>Profiles\<close>

definition create_profile_handler ::
  "('u, 'p) app_state \<Rightarrow> ambient \<Rightarrow> str \<Rightarrow> identity \<Rightarrow> profile_create \<Rightarrow> ('p, profile) handler" where
  "create_profile_handler ap am org_id owner request =
     bindA (liftA (map_err validation_failure (profile_create_validate (ap_uuid ap) request))) (\<lambda>_.
     if \<not> list_ex (\<lambda>l. eq_ignore_ascii_case (pl_code l) (trim (pc_location request))) (ap_proxy_locations ap)
     then errA (field_failure (lit ''location'')
            (lit ''location is not supported by the configured browser provider''))
     else
     bindA (liftA (resolve_access ap (pc_access request))) (\<lambda>access.
     let request' = request\<lparr>pc_access := access\<rparr> in
     bindA (from_store ap (reserve_profile (ap_uuid ap) (am_fresh am) org_id owner request' (am_now am 0))) (\<lambda>reserved.
     let fail = (\<lambda>reason error w.
           (case in_store (fail_profile org_id (p_id reserved) reason (am_now am 1)) w of
              (_, w') \<Rightarrow> (Inl (provider_failure error), w')));
         activate = (\<lambda>provider. from_store ap
           (activate_profile org_id (p_id reserved) (pp_id provider) (ap_fingerprint ap (p_id reserved))))
     in matchA (at_provider (ba_create_profile (ap_browser ap) (pc_name request') (p_id reserved)))
       (\<lambda>provider.
          case validate_provider_profile_identity provider (p_id reserved) of
            Inl error \<Rightarrow> fail (lit ''upstream profile response did not match its reservation'') error
          | Inr _ \<Rightarrow> activate provider)
       (\<lambda>error.
          if mutation_may_have_committed error
          then matchA (at_provider (ba_find_profile (ap_browser ap) (p_id reserved)))
                 (\<lambda>found. case found of
                    Some provider \<Rightarrow>
                      bindA (liftA (map_err provider_failure
                               (validate_provider_profile_identity provider (p_id reserved)))) (\<lambda>_.
                        activate provider)
                  | None \<Rightarrow> fail (lit ''upstream profile provisioning failed'') error)
                 (\<lambda>_. errA (provider_failure error))
          else fail (lit ''upstream profile provisioning failed'') error))))"

definition update_profile_handler ::
  "('u, 'p) app_state \<Rightarrow> str \<Rightarrow> identity \<Rightarrow> str \<Rightarrow> profile_update \<Rightarrow> ('p, profile) handler" where
  "update_profile_handler ap org_id actor profile_id request =
     bindA (liftA (map_err validation_failure (profile_update_validate (ap_uuid ap) request))) (\<lambda>_.
     bindA (from_store ap (profile_get org_id actor profile_id)) (\<lambda>profile.
     if \<not> matches_principal actor (p_owner_id profile)
     then errA (forbidden_failure ''only the profile owner may update it'')
     else
     bindA (liftA (case pu_access request of
                     None \<Rightarrow> Inr None
                   | Some access \<Rightarrow> tryE (resolve_access ap access) (\<lambda>a. Inr (Some a)))) (\<lambda>access.
     let request' = request\<lparr>pu_access := access\<rparr> in
     bindA (case pu_name request' of
              None \<Rightarrow> okA ()
            | Some name \<Rightarrow>
                bindA (from_store ap (provider_profile_id org_id actor profile_id)) (\<lambda>provider_id.
                bindA (from_provider (ba_update_profile (ap_browser ap) provider_id (Some name) None)) (\<lambda>provider.
                bindA (liftA (map_err provider_failure (validate_provider_profile_identity provider profile_id))) (\<lambda>_.
                  if pp_id provider \<noteq> provider_id
                  then errA (provider_failure
                         (provider_contract ''provider profile update returned a different resource id''))
                  else okA ())))) (\<lambda>_.
       from_store ap (update_profile (ap_uuid ap) org_id actor profile_id request')))))"

definition end_profile_handler ::
  "('u, 'p) app_state \<Rightarrow> ambient \<Rightarrow> str \<Rightarrow> identity \<Rightarrow> str \<Rightarrow> str \<Rightarrow> ('p, profile) handler" where
  "end_profile_handler ap am org_id actor profile_id note =
     bindA (liftA (map_err validation_failure (profile_end_validate note))) (\<lambda>_.
       from_store ap (end_profile org_id actor profile_id note (am_now am 0)))"

definition reconcile_profile :: "('u, 'p) app_state \<Rightarrow> str \<Rightarrow> str \<Rightarrow> 'p world \<Rightarrow> bool \<times> 'p world" where
  "reconcile_profile ap org_id profile_id w =
     (case at_provider (ba_find_profile (ap_browser ap) profile_id) w of
        (Inr (Some provider), w') \<Rightarrow>
          (case validate_provider_profile_identity provider profile_id of
             Inl _ \<Rightarrow> (False, w')
           | Inr _ \<Rightarrow>
               (case in_store (activate_profile org_id profile_id (pp_id provider) (ap_fingerprint ap profile_id)) w' of
                  (Inr _, w'') \<Rightarrow> (True, w'')
                | (Inl _, w'') \<Rightarrow> (False, w'')))
      | (Inr None, w') \<Rightarrow> (False, w')
      | (Inl _, w') \<Rightarrow> (False, w'))"

text \<open>One worker per provisioning profile, here in the order of the list.\<close>

fun reconcile_each :: "('u, 'p) app_state \<Rightarrow> (str \<times> str) list \<Rightarrow> 'p world \<Rightarrow> nat \<times> 'p world" where
  "reconcile_each ap [] w = (0, w)"
| "reconcile_each ap ((org_id, profile_id) # rest) w =
     (case reconcile_profile ap org_id profile_id w of
        (activated, w') \<Rightarrow>
          (case reconcile_each ap rest w' of (n, w'') \<Rightarrow> ((if activated then n + 1 else n), w'')))"

definition reconcile_profiles_once :: "('u, 'p) app_state \<Rightarrow> ('p world, store_error, nat) act" where
  "reconcile_profiles_once ap =
     bindA (in_store provisioning_profiles) (\<lambda>pending w.
       (case reconcile_each ap pending w of (n, w') \<Rightarrow> (Inr n, w')))"

section \<open>Sessions\<close>

text \<open>The end of every stop: the recording source, the terminal usage, and the closing write of the
  caller. \<open>has_source\<close> is what is known before the stop.\<close>

definition remember_source ::
  "('u, 'p) app_state \<Rightarrow> nonces \<Rightarrow> str \<Rightarrow> str \<Rightarrow> provider_browser \<Rightarrow> bool \<Rightarrow> (db, bool) st" where
  "remember_source ap nonce org_id session_id stopped has_source =
     (case pb_recording_url stopped of
        Some u \<Rightarrow> bindS (remember_provider_recording_url (ap_box ap) nonce org_id session_id u) (\<lambda>_. okS True)
      | None \<Rightarrow> okS has_source)"

text \<open>The compensation of a provider start that the local saga could not activate.\<close>

definition persist_failed_start ::
  "('u, 'p) app_state \<Rightarrow> ambient \<Rightarrow> str \<Rightarrow> session \<Rightarrow> str \<Rightarrow> str \<Rightarrow> bool \<Rightarrow> provider_browser \<Rightarrow> (db, unit) st" where
  "persist_failed_start ap am org_id reserved provider_session_id reason retained stopped =
     bindS (remember_source ap (am_nonce am 2) org_id (s_id reserved) stopped retained) (\<lambda>has_source.
     bindS (record_provider_usage (ap_rfc3339 ap) org_id (s_id reserved) (s_started_at reserved) stopped
              (am_now am 3) ObservedTerminal) (\<lambda>_.
     bindS (finalize_failed_session_after_stop org_id (s_id reserved)
              \<lparr>ff_provider_session_id = provider_session_id, ff_reason = reason,
                ff_duration_ms = browser_duration_ms (ap_rfc3339 ap) stopped (s_started_at reserved) (am_now am 3),
                ff_has_recording_source = has_source, ff_at = am_now am 3\<rparr>) (\<lambda>_. okS ())))"

definition retain_runtime ::
  "('u, 'p) app_state \<Rightarrow> ambient \<Rightarrow> str \<Rightarrow> session \<Rightarrow> provider_session option \<Rightarrow> str \<Rightarrow> 'p world \<Rightarrow> bool \<times> 'p world" where
  "retain_runtime ap am org_id reserved runtime reason w =
     (case runtime of
        None \<Rightarrow> (False, w)
      | Some rt \<Rightarrow>
          (case in_store (retain_session_runtime (ap_box ap) (am_nonce am 1) org_id (s_id reserved) rt reason) w of
             (Inr _, w') \<Rightarrow> (pv_recording_url rt \<noteq> None, w')
           | (Inl _, w') \<Rightarrow> (False, w')))"

definition recover_failed_session_start ::
  "('u, 'p) app_state \<Rightarrow> ambient \<Rightarrow> str \<Rightarrow> session \<Rightarrow> str \<Rightarrow> provider_session option \<Rightarrow> str \<Rightarrow> 'p world \<Rightarrow> 'p world" where
  "recover_failed_session_start ap am org_id reserved provider_session_id runtime reason w =
     (case retain_runtime ap am org_id reserved runtime reason w of
        (retained, w1) \<Rightarrow>
          (case stop_confirmed ap provider_session_id w1 of
             (Inl _, w2) \<Rightarrow> w2
           | (Inr stopped, w2) \<Rightarrow>
               snd (in_store (persist_failed_start ap am org_id reserved provider_session_id reason retained stopped) w2)))"

definition activate_reserved ::
  "('u, 'p) app_state \<Rightarrow> ambient \<Rightarrow> str \<Rightarrow> session \<Rightarrow> provider_session \<Rightarrow> (db, session) st" where
  "activate_reserved ap am org_id reserved runtime =
     activate_session (ap_box ap) (am_nonce am 0) org_id (s_id reserved) runtime (am_now am 1)"

text \<open>After the provider's start: validation of the runtime, activation, and compensation.\<close>

definition started_browser ::
  "('u, 'p) app_state \<Rightarrow> ambient \<Rightarrow> str \<Rightarrow> session \<Rightarrow> provider_browser \<Rightarrow> ('p, session) handler" where
  "started_browser ap am org_id reserved provider w =
     (case provider_session_of (ap_parse ap) provider of
        Inl error \<Rightarrow> (Inl error, recover_failed_session_start ap am org_id reserved (pb_id provider) None
            (lit ''upstream browser returned an invalid runtime'') w)
      | Inr runtime \<Rightarrow>
          (case in_store (activate_reserved ap am org_id reserved runtime) w of
             (Inr session, w') \<Rightarrow> (Inr session, w')
           | (Inl error, w') \<Rightarrow>
               (Inl (store_failure (ap_show_time ap) error),
                recover_failed_session_start ap am org_id reserved (pb_id provider) (Some runtime)
                  (lit ''local browser activation failed'') w')))"

text \<open>After a failed start: an ambiguous failure is looked up by the session's label before the
  reservation is given up.\<close>

definition failed_start ::
  "('u, 'p) app_state \<Rightarrow> ambient \<Rightarrow> str \<Rightarrow> session \<Rightarrow> provider_error \<Rightarrow> ('p, session) handler" where
  "failed_start ap am org_id reserved error =
     (if mutation_may_have_committed error
      then matchA (at_provider (ba_find_browser (ap_browser ap) (s_id reserved)))
             (\<lambda>found. case found of
                Some provider \<Rightarrow>
                  bindA (liftA (provider_session_of (ap_parse ap) provider)) (\<lambda>runtime.
                    from_store ap (activate_reserved ap am org_id reserved runtime))
              | None \<Rightarrow> errA (provider_failure error))
             (\<lambda>_. errA (provider_failure error))
      else (\<lambda>w. case in_store (fail_session org_id (s_id reserved) (lit ''upstream browser start failed'')
                          (am_now am 1)) w of (_, w') \<Rightarrow> (Inl (provider_failure error), w')))"

definition start_request :: "session_create \<Rightarrow> (str \<times> str) option \<Rightarrow> session \<Rightarrow> start_browser" where
  "start_request request profile reserved =
     \<lparr>sb_profile_id = map_option fst profile, sb_proxy_country_code = map_option snd profile,
       sb_timeout_minutes = ttl_minutes (sc_ttl request), sb_enable_recording = True,
       sb_reconciliation_id = s_id reserved\<rparr>"

text \<open>The provider's id and the pinned country of the profile a session is asked for.\<close>

definition session_profile ::
  "('u, 'p) app_state \<Rightarrow> str \<Rightarrow> identity \<Rightarrow> session_create \<Rightarrow> ('p, (str \<times> str) option) handler" where
  "session_profile ap org_id actor request =
     (case sc_profile_id request of
        None \<Rightarrow> okA None
      | Some local_profile \<Rightarrow>
          bindA (from_store ap (profile_get org_id actor local_profile)) (\<lambda>profile.
          bindA (from_store ap (provider_profile_id org_id actor local_profile)) (\<lambda>provider_id.
            okA (Some (provider_id, pl_code (p_location profile))))))"

definition create_session_handler ::
  "('u, 'p) app_state \<Rightarrow> ambient \<Rightarrow> str \<Rightarrow> identity \<Rightarrow> session_create \<Rightarrow> ('p, session) handler" where
  "create_session_handler ap am org_id actor request =
     bindA (liftA (map_err validation_failure (session_create_validate request))) (\<lambda>_.
     bindA (session_profile ap org_id actor request) (\<lambda>profile.
     bindA (from_store ap (reserve_session (am_fresh am) org_id actor request (am_now am 0))) (\<lambda>reserved.
       matchA (at_provider (ba_start_browser (ap_browser ap) (start_request request profile reserved)))
         (started_browser ap am org_id reserved)
         (failed_start ap am org_id reserved))))"

definition close_recording ::
  "('u, 'p) app_state \<Rightarrow> str \<Rightarrow> str \<Rightarrow> bool \<Rightarrow> nat \<Rightarrow> instant \<Rightarrow> (db, recording) st" where
  "close_recording ap org_id session_id has_source duration now =
     (if has_source then mark_recording_pending (ap_parse ap) (ap_video ap) org_id session_id duration 0 now
      else queue_recording_source_resolution (ap_parse ap) (ap_video ap) org_id session_id duration now)"

text \<open>What follows a confirmed stop of a session that ends or expires, up to its final write.\<close>

definition settle_stopped ::
  "('u, 'p) app_state \<Rightarrow> nonces \<Rightarrow> str \<Rightarrow> str \<Rightarrow> instant \<Rightarrow> bool \<Rightarrow> provider_browser \<Rightarrow> instant \<Rightarrow> (db, unit) st" where
  "settle_stopped ap nonce org_id session_id started_at known_source stopped now =
     bindS (remember_source ap nonce org_id session_id stopped known_source) (\<lambda>has_source.
     bindS (record_provider_usage (ap_rfc3339 ap) org_id session_id started_at stopped now ObservedTerminal) (\<lambda>_.
     bindS (close_recording ap org_id session_id has_source
              (browser_duration_ms (ap_rfc3339 ap) stopped started_at now) now) (\<lambda>_. okS ())))"

definition end_session_handler ::
  "('u, 'p) app_state \<Rightarrow> ambient \<Rightarrow> str \<Rightarrow> identity \<Rightarrow> str \<Rightarrow> str \<Rightarrow> ('p, session) handler" where
  "end_session_handler ap am org_id actor session_id note =
     bindA (liftA (map_err validation_failure (session_end_validate note))) (\<lambda>_.
     bindA (from_store ap (session_get org_id actor session_id)) (\<lambda>session.
     bindA (from_store ap (begin_end_session (ap_box ap) org_id actor session_id note)) (\<lambda>runtime.
     bindA (map_errA provider_failure (stop_confirmed ap (rt_provider_session_id runtime))) (\<lambda>stopped.
     bindA (from_store ap (settle_stopped ap (am_nonce am 0) org_id session_id (s_started_at session)
              (rt_recording_url runtime \<noteq> None) stopped (am_now am 0))) (\<lambda>_.
       from_store ap (finalize_end_session org_id session_id (am_now am 0)))))))"

section \<open>Reads that refresh usage\<close>

definition sample_active_usage ::
  "('u, 'p) app_state \<Rightarrow> ambient \<Rightarrow> str \<Rightarrow> identity \<Rightarrow> session \<Rightarrow> ('p, unit) handler" where
  "sample_active_usage ap am org_id actor session =
     bindA (from_store ap (get_provider_runtime (ap_box ap) org_id actor (s_id session))) (\<lambda>runtime.
     bindA (from_provider (ba_get_browser (ap_browser ap) (rt_provider_session_id runtime))) (\<lambda>provider.
     bindA (liftA (map_err provider_failure (validate_provider_browser_session (ap_parse ap) provider False))) (\<lambda>_.
     if pb_id provider \<noteq> rt_provider_session_id runtime
     then errA (provider_failure (provider_contract ''provider lookup returned a different browser id''))
     else from_store ap (record_provider_usage (ap_rfc3339 ap) org_id (s_id session) (s_started_at session) provider
            (am_now am 0) ObservedActive))))"

definition refresh_active_usage ::
  "('u, 'p) app_state \<Rightarrow> ambient \<Rightarrow> str \<Rightarrow> identity \<Rightarrow> session \<Rightarrow> 'p world \<Rightarrow> bool \<times> 'p world" where
  "refresh_active_usage ap am org_id actor session w =
     (if s_status session \<noteq> SActive then (False, w)
      else case sample_active_usage ap am org_id actor session w of
             (Inr _, w') \<Rightarrow> (True, w') | (Inl _, w') \<Rightarrow> (False, w'))"

definition get_session_handler ::
  "('u, 'p) app_state \<Rightarrow> ambient \<Rightarrow> str \<Rightarrow> identity \<Rightarrow> str \<Rightarrow> ('p, session) handler" where
  "get_session_handler ap am org_id actor session_id =
     bindA (from_store ap (session_get org_id actor session_id)) (\<lambda>session w.
       (case refresh_active_usage ap am org_id actor session w of
          (True, w') \<Rightarrow> from_store ap (session_get org_id actor session_id) w'
        | (False, w') \<Rightarrow> (Inr session, w')))"

definition get_usage_handler ::
  "('u, 'p) app_state \<Rightarrow> ambient \<Rightarrow> str \<Rightarrow> identity \<Rightarrow> str \<Rightarrow> ('p, usage) handler" where
  "get_usage_handler ap am org_id actor session_id =
     bindA (from_store ap (session_get org_id actor session_id)) (\<lambda>session w.
       (case refresh_active_usage ap am org_id actor session w of
          (_, w') \<Rightarrow> from_store ap (usage_get org_id actor session_id) w'))"

section \<open>Lists\<close>

definition present_filter :: "str option \<Rightarrow> str option" where
  "present_filter value = (case value of Some v \<Rightarrow> if trim v = [] then None else Some v | None \<Rightarrow> None)"

definition parse_filter :: "(str \<Rightarrow> filter_error + 'f) \<Rightarrow> str option \<Rightarrow> api_failure + 'f option" where
  "parse_filter parse value =
     (case present_filter value of
        None \<Rightarrow> Inr None
      | Some v \<Rightarrow> tryE (map_err (\<lambda>e. bad_request ''invalid_filter'' (filter_text e)) (parse v)) (\<lambda>f. Inr (Some f)))"

definition reject_profile_filter :: "str option \<Rightarrow> api_failure + unit" where
  "reject_profile_filter value =
     (if present_filter value \<noteq> None
      then Inl (bad_request ''invalid_filter'' (lit ''profile filters are not supported'')) else Inr ())"

fun resolve_session_predicate :: "('u, 'p) app_state \<Rightarrow> session_predicate \<Rightarrow> api_failure + session_predicate" where
  "resolve_session_predicate ap (SessionFor selector) =
     tryE (resolve_account_selector ap selector) (\<lambda>account. Inr (SessionFor account))"
| "resolve_session_predicate ap p = Inr p"

fun resolve_recording_predicate :: "('u, 'p) app_state \<Rightarrow> recording_predicate \<Rightarrow> api_failure + recording_predicate" where
  "resolve_recording_predicate ap (RecordingFor selector) =
     tryE (resolve_account_selector ap selector) (\<lambda>account. Inr (RecordingFor account))"
| "resolve_recording_predicate ap p = Inr p"

fun resolve_usage_predicate :: "('u, 'p) app_state \<Rightarrow> usage_predicate \<Rightarrow> api_failure + usage_predicate" where
  "resolve_usage_predicate ap (UsageFor selector) =
     tryE (resolve_account_selector ap selector) (\<lambda>account. Inr (UsageFor account))"
| "resolve_usage_predicate ap p = Inr p"

definition resolved_filter ::
  "(str \<Rightarrow> filter_error + 'f list) \<Rightarrow> ('f \<Rightarrow> api_failure + 'f) \<Rightarrow> str option \<Rightarrow> api_failure + 'f list option" where
  "resolved_filter parse resolve value =
     tryE (parse_filter parse value) (\<lambda>f. case f of
        None \<Rightarrow> Inr None
      | Some predicates \<Rightarrow> tryE (traverseE resolve predicates) (\<lambda>ps. Inr (Some ps)))"

definition list_sessions_handler ::
  "('u, 'p) app_state \<Rightarrow> str \<Rightarrow> identity \<Rightarrow> str option \<Rightarrow> ('p, session list) handler" where
  "list_sessions_handler ap org_id actor query =
     bindA (liftA (resolved_filter (session_filter_parse (ap_uuid ap)) (resolve_session_predicate ap) query)) (\<lambda>f.
     bindA (from_store ap (store_sessions org_id actor)) (\<lambda>sessions.
       okA (case f of
              None \<Rightarrow> sessions
            | Some ps \<Rightarrow> filter (\<lambda>s. session_filter_matches (ap_lower ap) ps s (i_id actor)) sessions)))"

definition list_recordings_handler ::
  "('u, 'p) app_state \<Rightarrow> str \<Rightarrow> identity \<Rightarrow> str option \<Rightarrow> ('p, recording list) handler" where
  "list_recordings_handler ap org_id actor query =
     bindA (liftA (resolved_filter (recording_filter_parse (ap_uuid ap)) (resolve_recording_predicate ap) query)) (\<lambda>f.
       from_store ap (recordings (ap_parse ap) (ap_video ap) (ap_lower ap) org_id actor f (ap_box ap)))"

definition list_usage_handler ::
  "('u, 'p) app_state \<Rightarrow> str \<Rightarrow> identity \<Rightarrow> str option \<Rightarrow> ('p, usage list) handler" where
  "list_usage_handler ap org_id actor query =
     bindA (liftA (resolved_filter (usage_filter_parse (ap_uuid ap) (ap_parse_date ap)) (resolve_usage_predicate ap)
                     query)) (\<lambda>f.
       from_store ap (usage_list org_id actor f))"

definition list_profiles_handler ::
  "('u, 'p) app_state \<Rightarrow> str \<Rightarrow> identity \<Rightarrow> str option \<Rightarrow> ('p, profile list) handler" where
  "list_profiles_handler ap org_id actor query =
     bindA (liftA (reject_profile_filter query)) (\<lambda>_. from_store ap (profiles_visible org_id actor))"

section \<open>Live links and connections\<close>

definition live_session_handler ::
  "('u, 'p) app_state \<Rightarrow> bytes \<Rightarrow> str \<Rightarrow> identity \<Rightarrow> str \<Rightarrow> ('p, live_link) handler" where
  "live_session_handler ap nonce org_id actor session_id =
     bindA (from_store ap (session_get org_id actor session_id)) (\<lambda>session.
     if s_status session \<noteq> SActive then errA (api_conflict ''session_not_active'' (lit ''the session is not active''))
     else
     bindA (liftA (map_err (\<lambda>_. api_failure_new 500 ''internal'' (lit ''could not create live grant''))
              (seal_for (ap_box ap) nonce (live_grant_context org_id session_id)
                (ap_grant_text ap \<lparr>lg_version = 1, lg_org_id = org_id, lg_session_id = s_id session,
                   lg_expires_at = s_expires_at session\<rparr>)))) (\<lambda>grant.
       okA \<lparr>ll_session_id = s_id session,
         ll_url = ap_public_origin ap @ lit ''/sessions/'' @ session_id @ lit ''/live#grant='' @ grant,
         ll_expires_at = s_expires_at session\<rparr>))"

definition invalid_live_grant :: api_failure where
  "invalid_live_grant = bad_request ''invalid_live_grant'' (lit ''live grant is invalid or expired'')"

definition redeem_live_handler ::
  "('u, 'p) app_state \<Rightarrow> instant \<Rightarrow> str \<Rightarrow> identity \<Rightarrow> str \<Rightarrow> str \<Rightarrow> ('p, live_link) handler" where
  "redeem_live_handler ap now org_id actor session_id grant =
     bindA (liftA (map_err validation_failure (live_redeem_validate grant))) (\<lambda>_.
     bindA (liftA (map_err (\<lambda>_. invalid_live_grant)
              (open_for (ap_box ap) (live_grant_context org_id session_id) grant))) (\<lambda>plaintext.
     bindA (liftA (ok_or invalid_live_grant (ap_read_grant ap plaintext))) (\<lambda>g.
     if lg_version g \<noteq> 1 \<or> lg_org_id g \<noteq> org_id \<or> lg_session_id g \<noteq> session_id \<or> lg_expires_at g \<le> now
     then errA invalid_live_grant
     else
     bindA (from_store ap (associate_participant org_id session_id (i_id actor) Viewer now)) (\<lambda>_.
     bindA (from_store ap (get_provider_runtime (ap_box ap) org_id actor session_id)) (\<lambda>runtime.
       okA \<lparr>ll_session_id = session_id, ll_url = rt_live_url runtime, ll_expires_at = lg_expires_at g\<rparr>)))))"

record session_connection =
  sx_session_id :: str
  sx_principal_id :: str
  sx_cdp_url :: str
  sx_expires_at :: instant

definition session_connection_handler ::
  "('u, 'p) app_state \<Rightarrow> instant \<Rightarrow> str \<Rightarrow> identity \<Rightarrow> str \<Rightarrow> ('p, session_connection) handler" where
  "session_connection_handler ap now org_id actor session_id =
     bindA (from_store ap (connection_runtime (ap_box ap) org_id actor session_id now)) (\<lambda>(runtime, expires_at).
     bindA (liftA (map_err provider_failure (validate_provider_cdp_url (ap_parse ap) (rt_cdp_url runtime)))) (\<lambda>_.
       okA \<lparr>sx_session_id = session_id, sx_principal_id = i_id actor, sx_cdp_url = rt_cdp_url runtime,
         sx_expires_at = expires_at\<rparr>))"

section \<open>The reaper of expired sessions\<close>

definition TTL_STOP_CONCURRENCY :: nat where "TTL_STOP_CONCURRENCY = 8"

definition TTL_STOP_LEASE :: int where "TTL_STOP_LEASE = 210 * NANOS_PER_SECOND"

definition release_claim :: "expiring_session \<Rightarrow> 'p world \<Rightarrow> 'p world" where
  "release_claim s w = snd (in_store (release_expired_claim (ex_org_id s) (ex_session_id s) (ex_lease_id s)) w)"

text \<open>Each failure after the lease was confirmed gives the lease back.\<close>

definition reap_claimed_session :: "('u, 'p) app_state \<Rightarrow> ambient \<Rightarrow> expiring_session \<Rightarrow> 'p world \<Rightarrow> 'p world" where
  "reap_claimed_session ap am s w =
     (case in_store (expired_claim_is_current (ex_org_id s) (ex_session_id s) (ex_lease_id s) (am_now am 0)) w of
        (Inl _, w1) \<Rightarrow> release_claim s w1
      | (Inr False, w1) \<Rightarrow> w1
      | (Inr True, w1) \<Rightarrow>
          (case stop_confirmed ap (rt_provider_session_id (ex_runtime s)) w1 of
             (Inl _, w2) \<Rightarrow> release_claim s w2
           | (Inr stopped, w2) \<Rightarrow>
               (case in_store (settle_stopped ap (am_nonce am 0) (ex_org_id s) (ex_session_id s) (ex_started_at s)
                       (rt_recording_url (ex_runtime s) \<noteq> None) stopped (am_now am 1)) w2 of
                  (Inl _, w3) \<Rightarrow> release_claim s w3
                | (Inr _, w3) \<Rightarrow>
                    (case in_store (finalize_expired_session (ex_org_id s) (ex_session_id s) (ex_lease_id s)
                            (am_now am 1)) w3 of
                       (Inl _, w4) \<Rightarrow> release_claim s w4
                     | (Inr _, w4) \<Rightarrow> w4))))"

text \<open>One turn of the reaper's loop: claim a batch and stop its sessions, one worker each, here in
  the order of the claim. The answer is the size of the batch.\<close>

definition reap_batch ::
  "('u, 'p) app_state \<Rightarrow> (nat \<Rightarrow> ambient) \<Rightarrow> str \<Rightarrow> instant \<Rightarrow> ('p world, store_error, nat) act" where
  "reap_batch ap ams lease_id now =
     bindA (in_store (claim_expired_sessions (ap_box ap) lease_id now (now + TTL_STOP_LEASE) TTL_STOP_CONCURRENCY))
       (\<lambda>batch w. (Inr (length batch),
          fold (\<lambda>(i, s). reap_claimed_session ap (ams i) s) (List.enumerate 0 batch) w))"

section \<open>Reconciliation of recordings\<close>

definition RECORDING_RECONCILIATION_BATCH :: nat where "RECORDING_RECONCILIATION_BATCH = 8"

definition RECORDING_RECONCILIATION_LEASE :: int where "RECORDING_RECONCILIATION_LEASE = 120 * NANOS_PER_SECOND"

definition defer_or_exhaust :: "source_claim \<Rightarrow> instant \<Rightarrow> 'p world \<Rightarrow> 'p world" where
  "defer_or_exhaust claim now w =
     (if cl_attempt claim \<ge> RECORDING_RECONCILIATION_MAX_ATTEMPTS
      then snd (in_store (fail_recording_source_resolution claim now) w)
      else snd (in_store (reschedule_recording_source_resolution claim
                  (now + recording_reconciliation_backoff (cl_attempt claim))) w))"

definition reconcile_recording_source ::
  "('u, 'p) app_state \<Rightarrow> nonces \<Rightarrow> source_claim \<Rightarrow> instant \<Rightarrow> 'p world \<Rightarrow> 'p world" where
  "reconcile_recording_source ap nonce claim now w =
     (if cl_attempt claim > RECORDING_RECONCILIATION_MAX_ATTEMPTS then defer_or_exhaust claim now w
      else
        case at_provider (ba_get_browser (ap_browser ap) (cl_provider_session_id claim)) w of
          (Inl _, w1) \<Rightarrow> defer_or_exhaust claim now w1
        | (Inr answer, w1) \<Rightarrow>
            (case validated_terminal (ap_parse ap) answer (cl_provider_session_id claim) of
               Inl _ \<Rightarrow> defer_or_exhaust claim now w1
             | Inr provider \<Rightarrow>
                 (case pb_recording_url provider of
                    Some recording_url \<Rightarrow>
                      snd (in_store (complete_recording_source_resolution (ap_box ap) nonce claim recording_url now) w1)
                  | None \<Rightarrow>
                      if pb_recording_available provider = Some False
                      then snd (in_store (fail_recording_source_resolution claim now) w1)
                      else defer_or_exhaust claim now w1)))"

definition reconcile_recordings_batch ::
  "('u, 'p) app_state \<Rightarrow> nonces \<Rightarrow> instant \<Rightarrow> ('p world, store_error, nat) act" where
  "reconcile_recordings_batch ap nonce now =
     bindA (in_store (claim_recording_source_resolutions now (now + RECORDING_RECONCILIATION_LEASE)
              RECORDING_RECONCILIATION_BATCH))
       (\<lambda>claims w. (Inr (length claims), fold (\<lambda>c. reconcile_recording_source ap nonce c now) claims w))"

section \<open>The remaining reads\<close>

definition get_profile_handler :: "('u, 'p) app_state \<Rightarrow> str \<Rightarrow> identity \<Rightarrow> str \<Rightarrow> ('p, profile) handler" where
  "get_profile_handler ap org_id actor profile_id = from_store ap (profile_get org_id actor profile_id)"

definition get_recording_handler :: "('u, 'p) app_state \<Rightarrow> str \<Rightarrow> identity \<Rightarrow> str \<Rightarrow> ('p, recording) handler" where
  "get_recording_handler ap org_id actor session_id =
     from_store ap (recording_get (ap_parse ap) (ap_video ap) (ap_box ap) org_id actor session_id)"

definition trash_recording_handler ::
  "('u, 'p) app_state \<Rightarrow> instant \<Rightarrow> str \<Rightarrow> identity \<Rightarrow> str \<Rightarrow> ('p, recording) handler" where
  "trash_recording_handler ap now org_id actor session_id =
     from_store ap (trash_recording (ap_parse ap) (ap_video ap) (ap_box ap) org_id actor session_id now)"

definition retired_command_history :: "nat \<times> string \<times> string" where
  "retired_command_history = (410, ''command_history_removed'',
     ''Command reporting and history have been removed. Update silicon-browser.'')"

section \<open>The loops of the background work\<close>

text \<open>A pass claims batches until one is empty or short, or until the deadline leaves no room for
  another attempt. A turn carries what the loop reads from its surroundings; the list of turns ends
  where the deadline does.\<close>

fun reap_expired_sessions_once ::
  "('u, 'p) app_state \<Rightarrow> (instant \<times> str \<times> (nat \<Rightarrow> ambient)) list \<Rightarrow> ('p world, store_error, nat) act" where
  "reap_expired_sessions_once ap [] = okA 0"
| "reap_expired_sessions_once ap ((now, lease_id, ams) # turns) =
     bindA (reap_batch ap ams lease_id now) (\<lambda>n.
       if n = 0 then okA 0
       else if n < TTL_STOP_CONCURRENCY then okA n
       else bindA (reap_expired_sessions_once ap turns) (\<lambda>m. okA (n + m)))"

fun reconcile_recording_sources_once ::
  "('u, 'p) app_state \<Rightarrow> (instant \<times> nonces) list \<Rightarrow> ('p world, store_error, nat) act" where
  "reconcile_recording_sources_once ap [] = okA 0"
| "reconcile_recording_sources_once ap ((now, nonce) # turns) =
     bindA (reconcile_recordings_batch ap nonce now) (\<lambda>n.
       if n = 0 then okA 0
       else if n < RECORDING_RECONCILIATION_BATCH then okA n
       else bindA (reconcile_recording_sources_once ap turns) (\<lambda>m. okA (n + m)))"

text \<open>The combined pass; the two halves touch different tables, here the sessions come first.\<close>

definition reap_expired_once ::
  "('u, 'p) app_state \<Rightarrow> (instant \<times> str \<times> (nat \<Rightarrow> ambient)) list \<Rightarrow> ('p world, store_error, nat) act" where
  "reap_expired_once ap turns w =
     (case reap_expired_sessions_once ap turns w of
        (r, w') \<Rightarrow> (case reconcile_profiles_once ap w' of (_, w'') \<Rightarrow> (r, w'')))"

end
