(* ===== verification/SB_Saga.thy ===== *)
theory SB_Saga
  imports SB_Server
begin

text \<open>
  What the handlers and the background work promise: every request leaves the database
  consistent, a browser that runs holds its profile's slot, and a slot is given up only after the
  provider has confirmed that its browser stopped.
\<close>

section \<open>Preservation through handlers\<close>

text \<open>A predicate of the database is kept by a store method that keeps it, and by the provider.\<close>

lemma keepsA_in_store: "keeps D m \<Longrightarrow> keepsA (\<lambda>w. D (w_db w)) (in_store m)"
  by (fastforce simp: keepsA_def keeps_def in_store_def split: prod.splits)

lemma keepsA_at_provider [simp]: "keepsA (\<lambda>w. D (w_db w)) (at_provider m)"
  by (auto simp: keepsA_def at_provider_def split: prod.splits)

lemma keepsA_from_store: "keeps D m \<Longrightarrow> keepsA (\<lambda>w. D (w_db w)) (from_store ap m)"
  unfolding from_store_def by (intro keepsA_map_errA keepsA_in_store)

lemma keepsA_from_provider [simp]: "keepsA (\<lambda>w. D (w_db w)) (from_provider m)"
  unfolding from_provider_def by (intro keepsA_map_errA keepsA_at_provider)

lemma keepsA_stop_confirmed [simp]: "keepsA (\<lambda>w. D (w_db w)) (stop_confirmed ap rid)"
  unfolding stop_confirmed_def by simp

lemmas keepsA_rules = keepsA_pure keepsA_bindA keepsA_matchA keepsA_map_errA keepsA_if keepsA_Let
  keepsA_case_option keepsA_case_sum keepsA_case_prod keepsA_at_provider keepsA_from_provider
  keepsA_stop_confirmed keepsA_from_store keepsA_in_store

text \<open>The provider's half of the world.\<close>

lemma provider_in_store [simp]: "w_provider (snd (in_store m w)) = w_provider w"
  by (simp add: in_store_def split: prod.splits)

lemma db_at_provider [simp]: "w_db (snd (at_provider m w)) = w_db w"
  by (simp add: at_provider_def split: prod.splits)

section \<open>Every request leaves a consistent database\<close>

lemma keeps_record_provider_usage:
  "keeps (store_good db0) (record_provider_usage rfc org sid started b now obs)"
  unfolding record_provider_usage_def record_usage_def record_terminal_usage_def
  by (cases obs) (auto intro!: keeps_rules keeps_methods)

lemma keeps_remember_source: "keeps (store_good db0) (remember_source ap nonce org sid stopped known)"
  unfolding remember_source_def by (intro keeps_rules keeps_methods)

lemma keeps_close_recording: "keeps (store_good db0) (close_recording ap org sid has_source ms now)"
  unfolding close_recording_def by (intro keeps_rules keeps_methods)

lemma keeps_settle_stopped:
  "keeps (store_good db0) (settle_stopped ap nonce org sid started known stopped now)"
  unfolding settle_stopped_def
  by (intro keeps_rules keeps_remember_source keeps_record_provider_usage keeps_close_recording)

lemma keeps_persist_failed_start:
  "keeps (store_good db0) (persist_failed_start ap am org reserved pid reason retained stopped)"
  unfolding persist_failed_start_def
  by (intro keeps_rules keeps_remember_source keeps_record_provider_usage keeps_methods)

lemma keeps_activate_reserved: "keeps (store_good db0) (activate_reserved ap am org reserved runtime)"
  unfolding activate_reserved_def by (intro keeps_methods)

lemmas keeps_server = keeps_methods keeps_record_provider_usage keeps_remember_source keeps_close_recording
  keeps_settle_stopped keeps_persist_failed_start keeps_activate_reserved keeps_reads keeps_profiles_visible

abbreviation consistent :: "db \<Rightarrow> 'p world \<Rightarrow> bool" where
  "consistent db0 w \<equiv> store_good db0 (w_db w)"

lemma keepsA_create_profile: "keepsA (consistent db0) (create_profile_handler ap am org owner request)"
  unfolding create_profile_handler_def Let_def
  by (intro keepsA_rules keepsA_step keepsA_ret keeps_server)

lemma keepsA_update_profile: "keepsA (consistent db0) (update_profile_handler ap org actor pid request)"
  unfolding update_profile_handler_def by (intro keepsA_rules keeps_server)

lemma keepsA_end_profile: "keepsA (consistent db0) (end_profile_handler ap am org actor pid note)"
  unfolding end_profile_handler_def by (intro keepsA_rules keeps_server)

lemma keepsA_reconcile_profile: "keepsA (consistent db0) (reconcile_profile ap org pid)"
  unfolding reconcile_profile_def
  by (intro keepsA_step keepsA_sum keepsA_option keepsA_rules keepsA_ret keeps_server)

lemma keepsA_reconcile_each: "keepsA (consistent db0) (reconcile_each ap pending)"
proof (induction pending)
  case (Cons p pending)
  then show ?case
    by (cases p) (simp, intro keepsA_step keepsA_reconcile_profile keepsA_ret)
qed (simp add: keepsA_def)

lemma keepsA_reconcile_profiles_once: "keepsA (consistent db0) (reconcile_profiles_once ap)"
  unfolding reconcile_profiles_once_def
  by (intro keepsA_rules keepsA_step keepsA_reconcile_each keepsA_ret keeps_server)

lemma keepsA_retain_runtime: "keepsA (consistent db0) (retain_runtime ap am org reserved runtime reason)"
  unfolding retain_runtime_def
  by (intro keepsA_option keepsA_step keepsA_sum keepsA_rules keepsA_ret keeps_server)

lemma keepsA_recover:
  "keepsA (consistent db0) (\<lambda>w. (r, recover_failed_session_start ap am org reserved pid runtime reason w))"
  unfolding recover_failed_session_start_def prod.case_distrib [of "Pair r"] sum.case_distrib [of "Pair r"]
  by (intro keepsA_step keepsA_sum keepsA_retain_runtime keepsA_snd keepsA_rules keepsA_ret keeps_server)

lemma keepsA_create_session: "keepsA (consistent db0) (create_session_handler ap am org actor request)"
  unfolding create_session_handler_def session_profile_def started_browser_def failed_start_def
  by (intro keepsA_rules keepsA_sum keepsA_step keepsA_recover keepsA_ret keeps_server)

lemma keepsA_end_session: "keepsA (consistent db0) (end_session_handler ap am org actor sid note)"
  unfolding end_session_handler_def by (intro keepsA_rules keeps_server)

lemma keepsA_sample_usage: "keepsA (consistent db0) (sample_active_usage ap am org actor session)"
  unfolding sample_active_usage_def by (intro keepsA_rules keeps_server)

lemma keepsA_refresh_usage: "keepsA (consistent db0) (refresh_active_usage ap am org actor session)"
  unfolding refresh_active_usage_def
  by (intro keepsA_cond keepsA_step keepsA_sum keepsA_sample_usage keepsA_ret)

lemma keepsA_get_session: "keepsA (consistent db0) (get_session_handler ap am org actor sid)"
  unfolding get_session_handler_def
  by (intro keepsA_rules keepsA_step keepsA_bool keepsA_refresh_usage keepsA_ret keeps_server)

lemma keepsA_get_usage: "keepsA (consistent db0) (get_usage_handler ap am org actor sid)"
  unfolding get_usage_handler_def usage_get_def
  by (intro keepsA_rules keepsA_step keepsA_refresh_usage keepsA_ret keeps_rules keeps_server)

lemma keepsA_live: "keepsA (consistent db0) (live_session_handler ap nonce org actor sid)"
  unfolding live_session_handler_def by (intro keepsA_rules keeps_server)

lemma keepsA_redeem: "keepsA (consistent db0) (redeem_live_handler ap now org actor sid grant)"
  unfolding redeem_live_handler_def by (intro keepsA_rules keeps_server)

lemma keepsA_connection: "keepsA (consistent db0) (session_connection_handler ap now org actor sid)"
  unfolding session_connection_handler_def by (intro keepsA_rules keeps_server)

lemma keepsA_trash: "keepsA (consistent db0) (trash_recording_handler ap now org actor sid)"
  unfolding trash_recording_handler_def by (intro keepsA_rules keeps_server)

lemma keepsA_release: "keepsA (consistent db0) (\<lambda>w. (r, release_claim s w))"
  unfolding release_claim_def by (intro keepsA_snd keepsA_rules keeps_server)

lemma keepsA_reap: "keepsA (consistent db0) (\<lambda>w. (r, reap_claimed_session ap am s w))"
  unfolding reap_claimed_session_def prod.case_distrib [of "Pair r"] sum.case_distrib [of "Pair r"]
    bool.case_distrib [of "Pair r"]
  by (intro keepsA_step keepsA_sum keepsA_bool keepsA_release keepsA_rules keepsA_ret keeps_server)

lemma keepsA_reap_batch: "keepsA (consistent db0) (reap_batch ap ams lease now)"
  unfolding reap_batch_def
proof (intro keepsA_bindA keepsA_in_store keeps_server)
  fix batch
  show "keepsA (consistent db0) (\<lambda>w. (Inr (length batch),
      fold (\<lambda>(i, s). reap_claimed_session ap (ams i) s) (List.enumerate 0 batch) w))"
    unfolding keepsA_def snd_conv split_def
    by (intro allI impI keepsA_fold [where I = "consistent db0"] keepsA_reap)
qed

lemma keepsA_reap_once: "keepsA (consistent db0) (reap_expired_sessions_once ap turns)"
proof (induction turns)
  case (Cons turn turns)
  then show ?case by (cases turn) (simp, intro keepsA_rules keepsA_reap_batch)
qed simp

lemma keepsA_reap_expired_once: "keepsA (consistent db0) (reap_expired_once ap turns)"
  unfolding reap_expired_once_def
  by (intro keepsA_step keepsA_reap_once keepsA_reconcile_profiles_once keepsA_ret)

lemma keepsA_defer: "keepsA (consistent db0) (\<lambda>w. (r, defer_or_exhaust claim now w))"
  unfolding defer_or_exhaust_def if_distrib [of "Pair r"]
  by (intro keepsA_cond keepsA_snd keepsA_rules keeps_server)

lemma keepsA_reconcile_recording:
  "keepsA (consistent db0) (\<lambda>w. (r, reconcile_recording_source ap nonce claim now w))"
  unfolding reconcile_recording_source_def if_distrib [of "Pair r"] prod.case_distrib [of "Pair r"]
    sum.case_distrib [of "Pair r"] option.case_distrib [of "Pair r"]
  by (intro keepsA_cond keepsA_step keepsA_sum keepsA_option keepsA_defer keepsA_snd keepsA_rules keeps_server)

lemma keepsA_reconcile_recordings: "keepsA (consistent db0) (reconcile_recordings_batch ap nonce now)"
  unfolding reconcile_recordings_batch_def
proof (intro keepsA_bindA keepsA_in_store keeps_server)
  fix claims
  show "keepsA (consistent db0) (\<lambda>w. (Inr (length claims),
      fold (\<lambda>c. reconcile_recording_source ap nonce c now) claims w))"
    unfolding keepsA_def snd_conv
    by (intro allI impI keepsA_fold [where I = "consistent db0"] keepsA_reconcile_recording)
qed

lemma keepsA_reconcile_recordings_once:
  "keepsA (consistent db0) (reconcile_recording_sources_once ap turns)"
proof (induction turns)
  case (Cons turn turns)
  then show ?case by (cases turn) (simp, intro keepsA_rules keepsA_reconcile_recordings)
qed simp

section \<open>The server as a step relation\<close>

text \<open>One constructor per request that may write and per background pass; \<open>ProviderMoves\<close> lets
  the provider change between them.\<close>

datatype 'p server_op =
    CreateProfileRequest ambient str identity profile_create
  | UpdateProfileRequest str identity str profile_update
  | EndProfileRequest ambient str identity str str
  | CreateSessionRequest ambient str identity session_create
  | EndSessionRequest ambient str identity str str
  | GetSessionRequest ambient str identity str
  | GetUsageRequest ambient str identity str
  | LiveRequest bytes str identity str
  | RedeemRequest instant str identity str str
  | ConnectionRequest instant str identity str
  | TrashRequest instant str identity str
  | ReapPass "(instant \<times> str \<times> (nat \<Rightarrow> ambient)) list"
  | ProfilePass
  | RecordingPass "(instant \<times> nonces) list"
  | ProviderMoves "'p \<Rightarrow> 'p"

fun exec_server :: "('u, 'p) app_state \<Rightarrow> 'p server_op \<Rightarrow> 'p world \<Rightarrow> 'p world" where
  "exec_server ap (CreateProfileRequest am org owner r) w = snd (create_profile_handler ap am org owner r w)"
| "exec_server ap (UpdateProfileRequest org actor pid r) w = snd (update_profile_handler ap org actor pid r w)"
| "exec_server ap (EndProfileRequest am org actor pid note) w = snd (end_profile_handler ap am org actor pid note w)"
| "exec_server ap (CreateSessionRequest am org actor r) w = snd (create_session_handler ap am org actor r w)"
| "exec_server ap (EndSessionRequest am org actor sid note) w = snd (end_session_handler ap am org actor sid note w)"
| "exec_server ap (GetSessionRequest am org actor sid) w = snd (get_session_handler ap am org actor sid w)"
| "exec_server ap (GetUsageRequest am org actor sid) w = snd (get_usage_handler ap am org actor sid w)"
| "exec_server ap (LiveRequest nonce org actor sid) w = snd (live_session_handler ap nonce org actor sid w)"
| "exec_server ap (RedeemRequest now org actor sid grant) w = snd (redeem_live_handler ap now org actor sid grant w)"
| "exec_server ap (ConnectionRequest now org actor sid) w = snd (session_connection_handler ap now org actor sid w)"
| "exec_server ap (TrashRequest now org actor sid) w = snd (trash_recording_handler ap now org actor sid w)"
| "exec_server ap (ReapPass turns) w = snd (reap_expired_once ap turns w)"
| "exec_server ap ProfilePass w = snd (reconcile_profiles_once ap w)"
| "exec_server ap (RecordingPass turns) w = snd (reconcile_recording_sources_once ap turns w)"
| "exec_server ap (ProviderMoves f) w = w\<lparr>w_provider := f (w_provider w)\<rparr>"

definition server_step :: "('u, 'p) app_state \<Rightarrow> 'p server_op \<Rightarrow> 'p world \<Rightarrow> 'p world \<Rightarrow> bool" where
  "server_step ap e w w' \<longleftrightarrow> w' = exec_server ap e w"

lemmas keepsA_server = keepsA_create_profile keepsA_update_profile keepsA_end_profile keepsA_create_session
  keepsA_end_session keepsA_get_session keepsA_get_usage keepsA_live keepsA_redeem keepsA_connection
  keepsA_trash keepsA_reap_expired_once keepsA_reconcile_profiles_once keepsA_reconcile_recordings_once

lemma exec_server_consistent: "consistent db0 w \<Longrightarrow> consistent db0 (exec_server ap e w)"
  by (cases e) (simp_all add: keepsAD [OF keepsA_create_profile] keepsAD [OF keepsA_update_profile]
      keepsAD [OF keepsA_end_profile] keepsAD [OF keepsA_create_session] keepsAD [OF keepsA_end_session]
      keepsAD [OF keepsA_get_session] keepsAD [OF keepsA_get_usage] keepsAD [OF keepsA_live]
      keepsAD [OF keepsA_redeem] keepsAD [OF keepsA_connection] keepsAD [OF keepsA_trash]
      keepsAD [OF keepsA_reap_expired_once] keepsAD [OF keepsA_reconcile_profiles_once]
      keepsAD [OF keepsA_reconcile_recordings_once])

interpretation server_history: step_system "\<lambda>w. w_db w = db0 \<and> db_inv db0" "server_step ap" "consistent db0"
  for ap :: "('u, 'p) app_state" and db0
  by unfold_locales (auto simp: server_step_def store_goodI intro: exec_server_consistent)

text \<open>C1: whatever requests, background passes and changes of the provider follow each other, and
  wherever their sagas break off, the database stays consistent, and every row has only moved
  forward: sessions along their lifecycle with what identifies them and the end they had
  recorded, recordings along theirs, and usage without ever decreasing.\<close>
theorem server_invariant:
  assumes "run (server_step ap) w0 es w" "db_inv (w_db w0)"
  shows "db_inv (w_db w) \<and> db_evolves (w_db w0) (w_db w)"
  using server_history.reachable_inv [OF conjI [OF refl assms(2)] assms(1)] by (simp add: store_good_def)

section \<open>A sample server\<close>

text \<open>A provider whose state is the list of its running browsers.\<close>

definition fake_browser :: "str \<Rightarrow> bool \<Rightarrow> provider_browser" where
  "fake_browser rid running = \<lparr>pb_id = rid, pb_status = (if running then lit ''active'' else lit ''stopped''),
     pb_timeout_at = None, pb_started_at = None, pb_live_url = Some [108], pb_cdp_url = Some [99],
     pb_finished_at = None, pb_proxy_used_mb = [48], pb_proxy_cost = [48], pb_browser_cost = [48],
     pb_agent_session_id = None, pb_recording_url = None, pb_recording_available = None,
     pb_metadata = (\<lambda>_. None)\<rparr>"

definition fake_profile :: provider_profile where
  "fake_profile = \<lparr>pp_id = [119], pp_user_id = Some [112], pp_name = None, pp_created_at = None, pp_updated_at = None,
     pp_last_used_at = None, pp_cookie_domains = []\<rparr>"

definition fake_api :: "str list browser_api" where
  "fake_api = \<lparr>ba_account_limits = errA (PTransport PROVIDER []),
     ba_create_profile = (\<lambda>_ _. okA fake_profile), ba_update_profile = (\<lambda>_ _ _. okA fake_profile),
     ba_start_browser = (\<lambda>_ p. (Inr (fake_browser [118] True), [118] # p)),
     ba_get_browser = (\<lambda>rid p. (Inr (fake_browser rid (rid \<in> set p)), p)),
     ba_stop_browser = (\<lambda>rid p. (Inr (fake_browser rid False), filter (\<lambda>x. x \<noteq> rid) p)),
     ba_find_profile = (\<lambda>_. okA None), ba_find_browser = (\<lambda>_. okA None)\<rparr>"

definition sample_url :: url where
  "sample_url = \<lparr>url_scheme = lit ''https'', url_hostpart = Some (Domain [120]), url_username = [], url_password = None,
     url_path = [], url_query = None, url_fragment = None, url_cannot_be_a_base = False\<rparr>"

text \<open>A text of a grant that can be read back.\<close>

definition plain_grant_text :: "live_grant \<Rightarrow> str" where
  "plain_grant_text g = [lg_version g, length (lg_org_id g), length (lg_session_id g),
     if lg_expires_at g < 0 then 1 else 0, nat (abs (lg_expires_at g))] @ lg_org_id g @ lg_session_id g"

fun plain_read_grant :: "str \<Rightarrow> live_grant option" where
  "plain_read_grant (v # lo # ls # sign # e # rest) =
     Some \<lparr>lg_version = v, lg_org_id = take lo rest, lg_session_id = take ls (drop lo rest),
       lg_expires_at = (if sign = 1 then - int e else int e)\<rparr>"
| "plain_read_grant _ = None"

definition sample_app :: "(unit, str list) app_state" where
  "sample_app = \<lparr>ap_store = sample_env\<lparr>en_parse := \<lambda>_. Inr sample_url\<rparr>, ap_browser = fake_api,
     ap_rfc3339 = (\<lambda>_. None), ap_show_time = (\<lambda>_. []), ap_fingerprint = (\<lambda>_. [102]),
     ap_proxy_locations = default_proxy_locations, ap_resolve_account = Inr, ap_subject_retired = (\<lambda>_. False),
     ap_public_origin = [111], ap_grant_text = plain_grant_text, ap_read_grant = plain_read_grant,
     ap_lower = to_ascii_lower, ap_parse_date = (\<lambda>_. None)\<rparr>"

definition sample_ambient :: ambient where
  "sample_ambient = \<lparr>am_fresh = [115], am_nonce = (\<lambda>_. sample_nonces), am_now = int\<rparr>"

definition sample_world :: "str list world" where
  "sample_world = \<lparr>w_db = sample_db1, w_provider = []\<rparr>"

definition sample_started :: "str list world" where
  "sample_started = \<lparr>w_db = sample_db3, w_provider = [[118]]\<rparr>"

lemma sample_app_simps [simp]:
  "ap_parse sample_app = (\<lambda>_. Inr sample_url)" "ap_box sample_app = plain_box" "ap_browser sample_app = fake_api"
  "am_fresh sample_ambient = [115]" "am_nonce sample_ambient k = sample_nonces" "am_now sample_ambient k = int k"
  by (simp_all add: sample_app_def sample_env_def sample_ambient_def)

lemma fake_simps [simp]:
  "ba_start_browser fake_api r p = (Inr (fake_browser [118] True), [118] # p)"
  "ba_get_browser fake_api rid p = (Inr (fake_browser rid (rid \<in> set p)), p)"
  "ba_stop_browser fake_api rid p = (Inr (fake_browser rid False), filter (\<lambda>x. x \<noteq> rid) p)"
  "ba_find_browser fake_api sid p = (Inr None, p)"
  by (simp_all add: fake_api_def)

lemma fake_browser_valid:
  "validate_provider_id rid = Inr () \<Longrightarrow>
   validate_provider_browser_session (\<lambda>_. Inr sample_url) (fake_browser rid running) require =
     (if require \<and> \<not> running then Inl (provider_contract ''browser provider did not return an active browser'') else Inr ())"
  by (simp add: validate_provider_browser_session_def fake_browser_def validate_provider_cdp_url_def
      validate_provider_url_def provider_url_ok_def sample_url_def has_forbidden_host_def str_simps)

lemma sample_provider_id: "validate_provider_id [118] = Inr ()"
  by (simp add: validate_provider_id_def str_simps)

lemma sample_runtime: "provider_session_of (\<lambda>_. Inr sample_url) (fake_browser [118] True) = Inr sample_provider"
  by (simp add: provider_session_of_def fake_browser_valid [OF sample_provider_id])
     (simp add: fake_browser_def sample_provider_def)

lemma sample_reserved: "\<exists>ses. session_unchecked [111] [115] sample_db2 = (Inr ses, sample_db2) \<and> s_id ses = [115]"
  by (simp add: session_unchecked_def session_row_of_def find_session_def map_session_def map_session_model_def
      usage_total_of_def usage_total_step_def checked_total_def add_money_def money_of_def
      default_usage_total_def default_money_def
      usage_unchecked_def sample_db2_def insert_session_side_rows_def sample_db1_def empty_db_def
      Let_def sample_row_def reserved_row_def sample_session_request_def select_one_def
      map_usage_def parse_zero nonnegative_def split_proxy_cost_def checked_add_u64_def bindS_def
      timestamp_def ttl_seconds_def NANOS_PER_SECOND_def sample_ttl)

lemma sample_session_profile:
  "\<exists>p. session_profile sample_app [111] alice sample_session_request sample_world = (Inr p, sample_world)"
  by (simp add: session_profile_def sample_session_request_def from_store_def map_errA_def in_store_def bindA_def
      sample_world_def profile_get_def provider_profile_id_def profile_row_of_def map_profile_def sample_db1_def empty_db_def
      sample_profile_row_def select_one_def sample_allows bindS_def)

lemma sample_create_session:
  "\<exists>ses. create_session_handler sample_app sample_ambient [111] alice sample_session_request sample_world =
     (Inr ses, sample_started)"
proof -
  obtain p where p: "session_profile sample_app [111] alice sample_session_request sample_world = (Inr p, sample_world)"
    using sample_session_profile by blast
  obtain res where res: "session_unchecked [111] [115] sample_db2 = (Inr res, sample_db2)" "s_id res = [115]"
    using sample_reserved by blast
  obtain ses where ses: "session_unchecked [111] [115] sample_db3 = (Inr ses, sample_db3)"
    using sample_read by blast
  show ?thesis
    by (simp add: create_session_handler_def bindA_def sample_valid p from_store_def map_errA_def in_store_def
        sample_world_def sample_reserve_call res matchA_def at_provider_def started_browser_def sample_runtime
        activate_reserved_def sample_activate_call ses sample_started_def
        p [unfolded sample_world_def])
qed

lemma sample_db1_inv: "db_inv sample_db1"
  using keepsD [OF keeps_exec_store store_goodI [OF db_inv_empty], of sample_env
      "CreateProfile [112] [111] alice sample_profile [119] [102] 0"]
  unfolding sample_create by (simp add: store_good_def)

theorem server_invariant_witness:
  "run (server_step sample_app) sample_world
     [CreateSessionRequest sample_ambient [111] alice sample_session_request] sample_started \<and>
   db_inv (w_db sample_started)"
proof -
  have "db_inv (w_db sample_world)" by (simp add: sample_world_def sample_db1_inv)
  moreover from run_snoc [where step = "server_step sample_app", OF run_nil, of _ sample_world sample_started]
  have "run (server_step sample_app) sample_world
     [CreateSessionRequest sample_ambient [111] alice sample_session_request] sample_started"
    using sample_create_session by (auto simp: server_step_def)
  ultimately show ?thesis using server_invariant by blast
qed

section \<open>Rows through the parts of a saga\<close>

lemma keeps_row_usage: "keeps (row_is org sid Q) (record_provider_usage rfc org' sid' started b now obs)"
  unfolding record_provider_usage_def record_usage_def record_terminal_usage_def
  by (cases obs) (auto intro!: keeps_rules keeps_row_snapshot)

lemma keeps_row_recording:
  "keeps (row_is org sid Q) (close_recording ap org' sid' has_source ms now)"
  unfolding close_recording_def mark_recording_pending_def queue_recording_source_resolution_def
  by (intro keeps_rules keeps_row_others keeps_reads)

lemma keeps_row_source:
  assumes "\<And>r x. Q r \<Longrightarrow> Q (r\<lparr>se_recording_url_enc := x\<rparr>)"
  shows "keeps (row_is org sid Q) (remember_source ap nonce org' sid' stopped known)"
  unfolding remember_source_def remember_provider_recording_url_def
  by (intro keeps_rules keeps_row_update) (auto simp: assms)

lemma keeps_row_settle:
  assumes "\<And>r x. Q r \<Longrightarrow> Q (r\<lparr>se_recording_url_enc := x\<rparr>)"
  shows "keeps (row_is org sid Q) (settle_stopped ap nonce org' sid' started known stopped now)"
  unfolding settle_stopped_def
  by (intro keeps_rules keeps_row_source keeps_row_usage keeps_row_recording assms)

abbreviation holds_profile :: "str option \<Rightarrow> session_row \<Rightarrow> bool" where
  "holds_profile pid r \<equiv> is_live r \<and> se_profile_id r = pid"

lemma keeps_live_activate: "keeps (row_is org sid (holds_profile pid)) (activate_session box nonce org' sid' provider now)"
  unfolding activate_session_def
  by (intro keeps_rules keeps_reads keeps_row_update) (auto simp: is_live_def live_state_def)

lemma keeps_live_retain:
  "keeps (row_is org sid (holds_profile pid)) (retain_session_runtime box nonce org' sid' provider reason)"
  unfolding retain_session_runtime_def
  by (intro keeps_rules keeps_reads keeps_row_update) (auto simp: is_live_def live_state_def)

section \<open>What the provider is relied on\<close>

text \<open>The set of running browsers as the provider sees it: only a start makes one run, the one it
  answers with or, when the answer is ambiguous, unknown ones; and a snapshot that says stopped is
  the truth.\<close>

definition snapshot_lawful :: "('p \<Rightarrow> str set) \<Rightarrow> 'p \<Rightarrow> (provider_error + provider_browser) \<times> 'p \<Rightarrow> bool" where
  "snapshot_lawful running p = (\<lambda>(answer, p').
     running p' \<subseteq> running p \<and>
     (case answer of Inl _ \<Rightarrow> True | Inr b \<Rightarrow> pb_status b = lit ''stopped'' \<longrightarrow> pb_id b \<notin> running p'))"

definition start_lawful :: "('p \<Rightarrow> str set) \<Rightarrow> 'p \<Rightarrow> (provider_error + provider_browser) \<times> 'p \<Rightarrow> bool" where
  "start_lawful running p = (\<lambda>(answer, p').
     case answer of
       Inr b \<Rightarrow> running p' \<subseteq> insert (pb_id b) (running p)
     | Inl e \<Rightarrow> \<not> mutation_may_have_committed e \<longrightarrow> running p' \<subseteq> running p)"

definition provider_lawful :: "'p browser_api \<Rightarrow> ('p \<Rightarrow> str set) \<Rightarrow> bool" where
  "provider_lawful api running \<longleftrightarrow>
     (\<forall>p request. start_lawful running p (ba_start_browser api request p)) \<and>
     (\<forall>p rid. snapshot_lawful running p (ba_get_browser api rid p)) \<and>
     (\<forall>p rid. snapshot_lawful running p (ba_stop_browser api rid p)) \<and>
     (\<forall>p sid. running (snd (ba_find_browser api sid p)) \<subseteq> running p)"

lemma fake_lawful: "provider_lawful fake_api set"
  by (auto simp: provider_lawful_def start_lawful_def snapshot_lawful_def fake_browser_def str_simps)

lemma validated_terminal_Inr:
  "validated_terminal parse b rid = Inr c \<Longrightarrow> c = b \<and> pb_id b = rid \<and> pb_status b = lit ''stopped'' \<and>
     validate_provider_browser_session parse b False = Inr () \<and> validate_provider_id rid = Inr ()"
  by (auto simp: validated_terminal_def provider_browser_is_terminal_def validate_provider_browser_session_def
      tryE_def split: sum.splits if_splits)

lemma validated_terminal_same: "validated_terminal parse b rid = Inr c \<Longrightarrow> validated_terminal parse b rid = Inr b"
  using validated_terminal_Inr by metis

text \<open>Where a confirmed stop comes from.\<close>

lemma stop_evidence:
  assumes "stop_browser_confirmed parse api rid p = (Inr b, p')"
  shows "validated_terminal parse b rid = Inr b \<and>
     (ba_stop_browser api rid p = (Inr b, p') \<or>
      (\<exists>e q. ba_stop_browser api rid p = (Inl e, q) \<and> ba_get_browser api rid q = (Inr b, p') \<and>
        (mutation_may_have_committed e \<or> http_status e \<in> {Some 404, Some 409})))"
proof (cases "ba_stop_browser api rid p")
  case (Pair r q)
  show ?thesis
  proof (cases r)
    case (Inr c)
    with assms Pair have "validated_terminal parse c rid = Inr b" "q = p'"
      by (auto simp: stop_browser_confirmed_def bindA_def matchA_def split: sum.splits)
    with Inr Pair show ?thesis using validated_terminal_Inr by blast
  next
    case (Inl e)
    with assms Pair have "(mutation_may_have_committed e \<or> http_status e \<in> {Some 404, Some 409}) \<and>
        (\<exists>c. ba_get_browser api rid q = (Inr c, p') \<and> validated_terminal parse c rid = Inr b)"
      by (auto simp: stop_browser_confirmed_def bindA_def matchA_def split: sum.splits if_splits prod.splits)
    with Inl Pair show ?thesis using validated_terminal_Inr by blast
  qed
qed

lemma stop_running:
  assumes "provider_lawful api running"
  shows "running (snd (stop_browser_confirmed parse api rid p)) \<subseteq> running p"
proof -
  obtain r q where s: "ba_stop_browser api rid p = (r, q)" by (cases "ba_stop_browser api rid p")
  obtain r2 q2 where g: "ba_get_browser api rid q = (r2, q2)" by (cases "ba_get_browser api rid q")
  from assms have "snapshot_lawful running p (ba_stop_browser api rid p)" "snapshot_lawful running q (ba_get_browser api rid q)"
    by (simp_all add: provider_lawful_def)
  then have "running q \<subseteq> running p" "running q2 \<subseteq> running q" by (simp_all add: s g snapshot_lawful_def)
  then show ?thesis
    by (auto simp: stop_browser_confirmed_def bindA_def matchA_def s g split: sum.splits if_splits)
qed

lemma stop_confirms:
  assumes "provider_lawful api running" "stop_browser_confirmed parse api rid p = (Inr b, p')"
  shows "rid \<notin> running p'"
proof -
  from stop_evidence [OF assms(2)] validated_terminal_Inr
  have b: "pb_id b = rid" "pb_status b = lit ''stopped''" by blast+
  have gone: "snapshot_lawful running q (Inr b, p') \<Longrightarrow> rid \<notin> running p'" for q
    using b by (simp add: snapshot_lawful_def)
  from assms(1) have "snapshot_lawful running q (ba_get_browser api rid q)"
    "snapshot_lawful running q (ba_stop_browser api rid q)" for q
    by (simp_all add: provider_lawful_def)
  with gone stop_evidence [OF assms(2)] show ?thesis by metis
qed

lemma stop_confirmed_world:
  assumes "provider_lawful (ap_browser ap) running"
  shows "running (w_provider (snd (stop_confirmed ap rid w))) \<subseteq> running (w_provider w)"
    and "fst (stop_confirmed ap rid w) = Inr b \<Longrightarrow> rid \<notin> running (w_provider (snd (stop_confirmed ap rid w)))"
    and "w_db (snd (stop_confirmed ap rid w)) = w_db w"
  using stop_running [OF assms, of "ap_parse ap" rid "w_provider w"]
    stop_confirms [OF assms, of "ap_parse ap" rid "w_provider w"]
  by (auto simp: stop_confirmed_def at_provider_def split: prod.splits)

text \<open>A stop counts as confirmed only on a well-formed snapshot of the very browser that says it
  stopped: the answer to the stop itself or, when that answer was lost, ambiguous, or said that
  the browser is unknown or in conflict, a lookup made after it.\<close>
theorem confirmed_stop_is_terminal:
  assumes "stop_browser_confirmed parse api rid p = (Inr b, p')"
  shows "pb_id b = rid \<and> pb_status b = lit ''stopped'' \<and>
     validate_provider_browser_session parse b False = Inr () \<and>
     (ba_stop_browser api rid p = (Inr b, p') \<or>
      (\<exists>e q. ba_stop_browser api rid p = (Inl e, q) \<and> ba_get_browser api rid q = (Inr b, p') \<and>
        (mutation_may_have_committed e \<or> http_status e \<in> {Some 404, Some 409})))"
  using stop_evidence [OF assms] validated_terminal_Inr by blast

lemma fake_stop:
  "stop_browser_confirmed (\<lambda>_. Inr sample_url) fake_api [118] p =
     (Inr (fake_browser [118] False), filter (\<lambda>x. x \<noteq> [118]) p)"
  by (simp add: stop_browser_confirmed_def bindA_def matchA_def sample_provider_id validated_terminal_def
      fake_browser_valid [OF sample_provider_id])
     (simp add: fake_browser_def provider_browser_is_terminal_def)

theorem confirmed_stop_is_terminal_witness:
  "pb_status (fake_browser [118] False) = lit ''stopped'' \<and>
   stop_browser_confirmed (\<lambda>_. Inr sample_url) fake_api [118] [[118]] = (Inr (fake_browser [118] False), [])"
  using confirmed_stop_is_terminal [of "\<lambda>_. Inr sample_url" fake_api "[118]" "[[118]]"] fake_stop [of "[[118]]"] by simp

section \<open>Starting a browser\<close>

lemma keeps_result: "keeps I m \<Longrightarrow> I s \<Longrightarrow> m s = (r, s') \<Longrightarrow> I s'"
  by (auto simp: keeps_def)

lemma session_unchecked_row:
  assumes "session_unchecked org sid db = (Inr ses, db')"
  shows "\<exists>row. find_session org sid db = Some row \<and> s_id ses = sid \<and> s_status ses = public_status (se_status row) \<and>
     s_expires_at ses = parse_timestamp (se_expires_at row) \<and> s_started_at ses = parse_timestamp (se_started_at row)"
  using assms
  unfolding session_unchecked_def session_row_of_def map_session_def map_session_model_def Inr_iffs
  by (auto dest: find_session_Some simp: Let_def split: option.splits)

lemma reserve_success:
  assumes "reserve_session fresh org initiator request now db = (Inr ses, db')"
  shows "row_is org fresh (holds_profile (sc_profile_id request)) db' \<and> s_id ses = fresh"
proof -
  from assms obtain db1 db2 where i: "insert_session org request (reserved_row fresh org initiator request now) db1 = (Inr (), db2)"
    and u: "session_unchecked org fresh (insert_session_side_rows request (reserved_row fresh org initiator request now) db2) = (Inr ses, db')"
    unfolding reserve_session_def Let_def Inr_iffs by auto
  have db': "db' = insert_session_side_rows request (reserved_row fresh org initiator request now) db2"
    using snd_read [OF keeps_reads(7)] u by (metis snd_conv)
  have "row_is org fresh (holds_profile (sc_profile_id request)) db'"
    by (rule insert_session_result [of org request "reserved_row fresh org initiator request now" db1])
       (use i in \<open>auto simp: db' row_is_def insert_session_side_rows_def reserved_row_def is_live_def live_state_def\<close>)
  with session_unchecked_row [OF u] show ?thesis by auto
qed

text \<open>A profile held by a live session cannot be reserved again.\<close>

lemma held_profile_refused:
  assumes "db_inv db" "row_is org sid (holds_profile (Some pid)) db" "sc_profile_id again = Some pid"
  shows "isl (fst (reserve_session fresh org initiator again now db))"
proof (rule ccontr)
  assume free: "\<not> ?thesis"
  have "keeps (\<lambda>d. d = db) (profile_ready org initiator pid)" unfolding profile_ready_def by (intro keeps_rules keeps_reads)
  then have same: "d = db" if "profile_ready org initiator pid db = (x, d)" for x d
    using keepsD [OF \<open>keeps (\<lambda>d. d = db) (profile_ready org initiator pid)\<close>, of db] that by simp
  obtain a d where e: "reserve_session fresh org initiator again now db = (a, d)" by fastforce
  with free obtain ses where "a = Inr ses" by (cases a) auto
  with e have "reserve_session fresh org initiator again now db = (Inr ses, d)" by simp
  then obtain u d1 db2 where "profile_ready org initiator pid db = (Inr u, d1)"
      "insert_session org again (reserved_row fresh org initiator again now) d1 = (Inr (), db2)"
    unfolding reserve_session_def Let_def Inr_iffs assms(3) option.case by auto
  with same have i: "insert_session org again (reserved_row fresh org initiator again now) db = (Inr (), db2)" by blast
  let ?rows = "db_sessions db @ [reserved_row fresh org initiator again now]"
  from i have "sessions_unique ?rows" by (auto simp: insert_session_def write_sessions_def split: if_splits option.splits)
  then have "distinct (live_profiles ?rows)" by (simp add: sessions_unique_def)
  moreover from assms(2,3) obtain r where "r \<in> set (db_sessions db)" "is_live r" "se_profile_id r = Some pid" "se_org_id r = org"
    by (auto simp: row_is_def)
  then have "pid \<in> set (live_profiles (db_sessions db))" by (force simp: live_profiles_def List.map_filter_def)
  ultimately show False
    by (simp add: live_profiles_def List.map_filter_def reserved_row_def assms(3) is_live_def live_state_def)
qed

abbreviation slot_held :: "str option \<Rightarrow> str \<Rightarrow> str \<Rightarrow> 'p world \<Rightarrow> bool" where
  "slot_held pid org sid w \<equiv> row_is org sid (holds_profile pid) (w_db w)"

lemma retain_runtime_world:
  assumes "slot_held pid org sid w"
  shows "slot_held pid org sid (snd (retain_runtime ap am org' reserved runtime reason w)) \<and>
     w_provider (snd (retain_runtime ap am org' reserved runtime reason w)) = w_provider w"
proof
  have "keepsA (slot_held pid org sid) (retain_runtime ap am org' reserved runtime reason)"
    unfolding retain_runtime_def
    by (intro keepsA_option keepsA_step keepsA_sum keepsA_rules keepsA_ret keeps_live_retain)
  from keepsAD [OF this assms] show "slot_held pid org sid (snd (retain_runtime ap am org' reserved runtime reason w))" .
qed (auto simp: retain_runtime_def in_store_def split: option.splits prod.splits sum.splits)

text \<open>The compensation either stops the browser or leaves the session as live as it was.\<close>

lemma recover_world:
  assumes "provider_lawful (ap_browser ap) running" "slot_held pid org sid w"
    and "w' = recover_failed_session_start ap am org' reserved rid runtime reason w"
  shows "running (w_provider w') \<subseteq> running (w_provider w) \<and>
     (rid \<notin> running (w_provider w') \<or> slot_held pid org sid w')"
proof -
  obtain retained w1 where r: "retain_runtime ap am org' reserved runtime reason w = (retained, w1)"
    by (cases "retain_runtime ap am org' reserved runtime reason w")
  with retain_runtime_world [OF assms(2), of ap am org' reserved runtime reason]
  have w1: "slot_held pid org sid w1" "w_provider w1 = w_provider w" by simp_all
  obtain answer w2 where s: "stop_confirmed ap rid w1 = (answer, w2)" by (cases "stop_confirmed ap rid w1")
  note stop = stop_confirmed_world [OF assms(1), of rid w1, unfolded s snd_conv fst_conv]
  show ?thesis
  proof (cases answer)
    case (Inl e)
    then show ?thesis using w1 stop assms(3) by (simp add: recover_failed_session_start_def r s)
  next
    case (Inr b)
    then show ?thesis using w1 stop assms(3) by (simp add: recover_failed_session_start_def r s)
  qed
qed

lemma started_browser_world:
  assumes "provider_lawful (ap_browser ap) running" "slot_held pid org sid w"
    and "started_browser ap am org' reserved b w = (r, w')"
  shows "running (w_provider w') \<subseteq> running (w_provider w) \<and>
     (pb_id b \<notin> running (w_provider w') \<or> slot_held pid org sid w')"
proof (cases "provider_session_of (ap_parse ap) b")
  case (Inl e)
  with assms(3) have "w' = recover_failed_session_start ap am org' reserved (pb_id b) None
      (lit ''upstream browser returned an invalid runtime'') w" by (simp add: started_browser_def)
  then show ?thesis by (rule recover_world [OF assms(1,2)])
next
  case (Inr runtime)
  obtain a d where act: "activate_reserved ap am org' reserved runtime (w_db w) = (a, d)"
    by (cases "activate_reserved ap am org' reserved runtime (w_db w)")
  have held: "slot_held pid org sid (w\<lparr>w_db := d\<rparr>)"
    using keepsD [OF keeps_live_activate assms(2)] act by (simp add: activate_reserved_def) (metis snd_conv)
  show ?thesis
  proof (cases a)
    case (Inl e)
    with assms(3) Inr act have "w' = recover_failed_session_start ap am org' reserved (pb_id b) (Some runtime)
        (lit ''local browser activation failed'') (w\<lparr>w_db := d\<rparr>)" by (simp add: started_browser_def in_store_def)
    from recover_world [OF assms(1) held this] show ?thesis by simp
  next
    case (Inr ses)
    then show ?thesis using assms(3) \<open>provider_session_of (ap_parse ap) b = Inr runtime\<close> act held
      by (auto simp: started_browser_def in_store_def)
  qed
qed

text \<open>After a failed start the session stays live unless the failure was definite.\<close>

lemma failed_start_world:
  assumes "provider_lawful (ap_browser ap) running" "slot_held pid org sid w" "failed_start ap am org' reserved e w = (r, w')"
  shows "running (w_provider w') \<subseteq> running (w_provider w) \<and> (\<not> mutation_may_have_committed e \<or> slot_held pid org sid w')"
proof (cases "mutation_may_have_committed e")
  case True
  obtain found p' where f: "ba_find_browser (ap_browser ap) (s_id reserved) (w_provider w) = (found, p')"
    by (cases "ba_find_browser (ap_browser ap) (s_id reserved) (w_provider w)")
  from assms(1) have sub: "running p' \<subseteq> running (w_provider w)"
    unfolding provider_lawful_def using f by (metis snd_conv)
  have "keepsA (\<lambda>w. slot_held pid org sid w) (failed_start ap am org' reserved e)"
    using True unfolding failed_start_def activate_reserved_def
    by simp (intro keepsA_rules keeps_live_activate)
  then have "slot_held pid org sid w'" using keepsAD assms(2,3) by (metis snd_conv)
  moreover have "w_provider w' = p'"
    using assms(3) True f
    by (auto simp: failed_start_def matchA_def bindA_def at_provider_def from_store_def map_errA_def in_store_def
        split: sum.splits option.splits prod.splits)
  ultimately show ?thesis using sub by simp
next
  case False
  then show ?thesis using assms(3) by (auto simp: failed_start_def in_store_def split: prod.splits)
qed

lemma from_store_Inr:
  "from_store ap m w = (Inr x, w') \<longleftrightarrow> (\<exists>d. m (w_db w) = (Inr x, d) \<and> w' = w\<lparr>w_db := d\<rparr>)"
  by (auto simp: from_store_def map_errA_def in_store_def split: prod.splits sum.splits)

lemma provider_from_store [simp]: "w_provider (snd (from_store ap m w)) = w_provider w"
  by (auto simp: from_store_def map_errA_def in_store_def split: prod.splits sum.splits)

lemma session_profile_provider: "w_provider (snd (session_profile ap org actor request w)) = w_provider w"
  unfolding session_profile_def bindA_def
  by (auto simp: from_store_def map_errA_def in_store_def split: option.splits prod.splits sum.splits)

text \<open>C2: whatever happens during a start --- an invalid runtime, a failed activation, a lost or
  ambiguous answer, a stop that cannot be confirmed --- when the call returns and a browser it has
  started may be running, then the session reserved for the call is in the database, it is live and
  holds the profile of the request; so any other reservation of that profile made on the database
  of that moment fails.\<close>
theorem running_browser_holds_slot:
  assumes "provider_lawful (ap_browser ap) running" "db_inv (w_db w)"
    and "create_session_handler ap am org actor request w = (r, w')"
    and "b \<in> running (w_provider w')" "b \<notin> running (w_provider w)"
  shows "\<exists>row. find_session org (am_fresh am) (w_db w') = Some row \<and> is_live row \<and>
       se_profile_id row = sc_profile_id request \<and>
       (sc_profile_id request \<noteq> None \<and> sc_profile_id again = sc_profile_id request \<longrightarrow>
          isl (fst (reserve_session fresh org other again later (w_db w'))))"
proof -
  have inv: "db_inv (w_db w')"
    using keepsA_result [OF keepsA_create_session store_goodI [OF assms(2)] assms(3)]
    by (simp add: store_good_def)
  obtain sp w1 where p: "session_profile ap org actor request w = (sp, w1)"
    by (cases "session_profile ap org actor request w")
  with session_profile_provider [of ap org actor request w] have w1: "w_provider w1 = w_provider w" by simp
  obtain res w2 where reserve: "from_store ap (reserve_session (am_fresh am) org actor request (am_now am 0)) w1 = (res, w2)"
    by (cases "from_store ap (reserve_session (am_fresh am) org actor request (am_now am 0)) w1")
  with provider_from_store have w2: "w_provider w2 = w_provider w" by (metis snd_conv w1)
  from assms(3-5) p w1 w2 reserve obtain prof ses where ok: "sp = Inr prof" "res = Inr ses"
    and m: "matchA (at_provider (ba_start_browser (ap_browser ap) (start_request request prof ses)))
       (started_browser ap am org ses) (failed_start ap am org ses) w2 = (r, w')"
    by (auto simp: create_session_handler_def bindA_def split: sum.splits)
  from reserve ok obtain d where d: "reserve_session (am_fresh am) org actor request (am_now am 0) (w_db w1) = (Inr ses, d)"
      "w2 = w1\<lparr>w_db := d\<rparr>" by (auto simp: from_store_Inr)
  have held: "slot_held (sc_profile_id request) org (am_fresh am) w2" using reserve_success [OF d(1)] d(2) by simp
  obtain answer p' where start: "ba_start_browser (ap_browser ap) (start_request request prof ses) (w_provider w2) = (answer, p')"
    by (cases "ba_start_browser (ap_browser ap) (start_request request prof ses) (w_provider w2)")
  let ?w3 = "w2\<lparr>w_provider := p'\<rparr>"
  have law: "start_lawful running (w_provider w2) (answer, p')"
    using assms(1) start unfolding provider_lawful_def by metis
  have held3: "slot_held (sc_profile_id request) org (am_fresh am) ?w3" using held by simp
  have "slot_held (sc_profile_id request) org (am_fresh am) w'"
  proof (cases answer)
    case (Inr x)
    with m start have "started_browser ap am org ses x ?w3 = (r, w')"
      by (simp add: matchA_def at_provider_def)
    from started_browser_world [OF assms(1) held3 this] law Inr held assms(4,5) w2 show ?thesis
      by (auto simp: start_lawful_def)
  next
    case (Inl e)
    with m start have "failed_start ap am org ses e ?w3 = (r, w')"
      by (simp add: matchA_def at_provider_def)
    from failed_start_world [OF assms(1) held3 this] law Inl held assms(4,5) w2 show ?thesis
      by (auto simp: start_lawful_def)
  qed
  moreover from this have "isl (fst (reserve_session fresh org other again later (w_db w')))"
    if "sc_profile_id request \<noteq> None \<and> sc_profile_id again = sc_profile_id request"
    using that held_profile_refused [OF inv] by fastforce
  ultimately show ?thesis using inv by (auto simp: row_is_find)
qed

theorem running_browser_holds_slot_witness:
  "\<exists>row. find_session [111] [115] (w_db sample_started) = Some row \<and> is_live row \<and> se_profile_id row = Some [112] \<and>
     isl (fst (reserve_session [116] [111] alice sample_session_request 7 (w_db sample_started)))"
proof -
  obtain ses where c: "create_session_handler sample_app sample_ambient [111] alice sample_session_request sample_world =
      (Inr ses, sample_started)" using sample_create_session by blast
  have "provider_lawful (ap_browser sample_app) set" by (simp add: fake_lawful)
  from running_browser_holds_slot [OF this _ c, of "[118]" sample_session_request "[116]" alice 7] show ?thesis
    by (simp add: sample_world_def sample_started_def sample_db1_inv sample_session_request_def)
qed


section \<open>Stopping a browser\<close>

lemma runtime_provider: "runtime_from_row box org sid r = Inr rt \<Longrightarrow> se_provider_session_id r = Some (rt_provider_session_id rt)"
  by (auto simp: runtime_from_row_def split: option.splits)

abbreviation ending :: "str \<Rightarrow> session_row \<Rightarrow> bool" where
  "ending rid r \<equiv> se_status r = Ending \<and> se_provider_session_id r = Some rid"

lemma keeps_live_begin_end: "keeps (row_is org sid is_live) (begin_end_session box org' actor sid' note)"
  unfolding begin_end_session_def
  by (intro keeps_rules keeps_reads keeps_row_update) (auto simp: is_live_def live_state_def)

lemma begin_end_row:
  assumes "begin_end_session box org actor sid note db = (Inr rt, db1)" "db_inv db"
  shows "row_is org sid (ending (rt_provider_session_id rt)) db1 \<and> db_inv db1"
proof -
  from begin_end_success [OF assms] obtain row1 where r: "find_session org sid db1 = Some row1" "se_status row1 = Ending"
    "runtime_from_row box org sid row1 = Inr rt" and inv: "db_inv db1" by blast
  with runtime_provider [OF r(3)] show ?thesis by (simp add: row_is_find [OF inv])
qed

lemma row_is_weaken: "row_is org sid Q db \<Longrightarrow> (\<And>r. Q r \<Longrightarrow> R r) \<Longrightarrow> row_is org sid R db"
  by (auto simp: row_is_def)

lemma ending_live: "row_is org sid (ending rid) db \<Longrightarrow> row_is org sid is_live db"
  by (erule row_is_weaken) (simp add: is_live_def live_state_def)

lemma finalize_end_row:
  assumes "db_inv db" "row_is org sid (ending rid) db"
  shows "row_is org sid (\<lambda>r. se_status r = Ended \<and> se_provider_session_id r = Some rid)
     (snd (finalize_end_session org sid now db))"
proof -
  from assms(2) obtain r where r: "r \<in> set (db_sessions db)" "se_org_id r = org" "se_id r = sid" "ending rid r"
    unfolding row_is_def by blast
  with find_session_unique [OF assms(1) r(1)] have "find_session org sid db = Some r" "se_status r = Ending" by simp_all
  from finalize_end_state [OF assms(1) this] have
    "db_sessions (snd (finalize_end_session org sid now db)) =
       update_where (\<lambda>s. se_org_id s = org \<and> se_id s = sid \<and> se_status s = Ending)
        (\<lambda>s. s\<lparr>se_status := Ended, se_ended_at := Some (timestamp now)\<rparr>) (db_sessions db)" by simp
  with update_where_mem [OF r(1), of "\<lambda>s. se_org_id s = org \<and> se_id s = sid \<and> se_status s = Ending"
      "\<lambda>s. s\<lparr>se_status := Ended, se_ended_at := Some (timestamp now)\<rparr>"] r(2-4)
  show ?thesis unfolding row_is_def by (intro bexI [of _ "r\<lparr>se_status := Ended, se_ended_at := Some (timestamp now)\<rparr>"]) simp_all
qed

text \<open>A store method within a triple.\<close>

lemma tripleA_store:
  "(\<And>w e d. P w \<Longrightarrow> m (w_db w) = (Inl e, d) \<Longrightarrow> I (w\<lparr>w_db := d\<rparr>)) \<Longrightarrow>
   (\<And>w x d. P w \<Longrightarrow> m (w_db w) = (Inr x, d) \<Longrightarrow> Q x (w\<lparr>w_db := d\<rparr>)) \<Longrightarrow> tripleA I P (from_store ap m) Q"
  by (auto simp: tripleA_def from_store_def map_errA_def in_store_def split: prod.splits sum.splits)

text \<open>What an end does to the session's row, from its confirmed stop on.\<close>

definition ended_or_live :: "('p \<Rightarrow> str set) \<Rightarrow> str \<Rightarrow> str \<Rightarrow> 'p world \<Rightarrow> bool" where
  "ended_or_live running org sid w \<longleftrightarrow>
     row_is org sid (\<lambda>r. is_live r \<or> se_status r = Ended \<and>
       (\<exists>rid. se_provider_session_id r = Some rid \<and> rid \<notin> running (w_provider w))) (w_db w)"

lemma live_ended_or_live: "row_is org sid is_live (w_db w) \<Longrightarrow> ended_or_live running org sid w"
  unfolding ended_or_live_def by (erule row_is_weaken) simp

text \<open>A store method that keeps the row and the invariant.\<close>

lemma keeps_conj: "keeps A m \<Longrightarrow> keeps B m \<Longrightarrow> keeps (\<lambda>s. A s \<and> B s) m"
  by (simp add: keeps_def)

lemma db_inv_kept: "(\<And>db0. keeps (store_good db0) m) \<Longrightarrow> keeps db_inv m"
  unfolding keeps_def by (meson store_goodI store_good_def)

lemma settle_triple:
  assumes "\<And>w. db_inv (w_db w) \<Longrightarrow> row_is org sid (ending rid) (w_db w) \<Longrightarrow> I w"
  shows "tripleA I (\<lambda>w. (db_inv (w_db w) \<and> row_is org sid (ending rid) (w_db w)) \<and> G (w_provider w))
     (from_store ap (settle_stopped ap nonce org' sid' started known stopped now))
     (\<lambda>_ w. (db_inv (w_db w) \<and> row_is org sid (ending rid) (w_db w)) \<and> G (w_provider w))"
proof (rule tripleA_store)
  have k: "keeps (\<lambda>db. db_inv db \<and> row_is org sid (ending rid) db) (settle_stopped ap nonce org' sid' started known stopped now)"
    by (intro keeps_conj db_inv_kept keeps_settle_stopped keeps_row_settle) simp
  show "I (w\<lparr>w_db := d\<rparr>)"
    if "(db_inv (w_db w) \<and> row_is org sid (ending rid) (w_db w)) \<and> G (w_provider w)"
      "settle_stopped ap nonce org' sid' started known stopped now (w_db w) = (Inl e, d)" for w e d
    using keeps_result [OF k _ that(2)] that(1) assms by simp
  show "(db_inv (w_db (w\<lparr>w_db := d\<rparr>)) \<and> row_is org sid (ending rid) (w_db (w\<lparr>w_db := d\<rparr>))) \<and> G (w_provider (w\<lparr>w_db := d\<rparr>))"
    if "(db_inv (w_db w) \<and> row_is org sid (ending rid) (w_db w)) \<and> G (w_provider w)"
      "settle_stopped ap nonce org' sid' started known stopped now (w_db w) = (Inr x, d)" for w x d
    using keeps_result [OF k _ that(2)] that(1) by simp
qed

lemma stop_triple:
  fixes ap :: "('u, 'a) app_state"
  assumes "provider_lawful (ap_browser ap) running" "\<And>w. D (w_db w) \<Longrightarrow> I w"
  shows "tripleA I (\<lambda>w. D (w_db w)) (stop_confirmed ap rid) (\<lambda>_ w. D (w_db w) \<and> rid \<notin> running (w_provider w))"
  unfolding tripleA_def
proof (intro allI impI)
  fix w :: "'a world" assume "D (w_db w)"
  then show "case stop_confirmed ap rid w of (Inl e, w') \<Rightarrow> I w' | (Inr x, w') \<Rightarrow> D (w_db w') \<and> rid \<notin> running (w_provider w')"
    using stop_confirmed_world [OF assms(1), of rid w] assms(2) by (auto split: prod.split sum.split)
qed

lemma end_session_triple:
  assumes law: "provider_lawful (ap_browser ap) running"
  shows "tripleA (ended_or_live running org sid) (\<lambda>w. db_inv (w_db w) \<and> row_is org sid is_live (w_db w))
     (end_session_handler ap am org actor sid note)
     (\<lambda>_ w. row_is org sid (\<lambda>r. se_status r = Ended \<and>
        (\<exists>rid. se_provider_session_id r = Some rid \<and> rid \<notin> running (w_provider w))) (w_db w))"
  unfolding end_session_handler_def
proof (rule tripleA_bind [OF tripleA_lift], goal_cases)
  case 2
  have k: "keepsA (\<lambda>w. db_inv (w_db w) \<and> row_is org sid is_live (w_db w)) (from_store ap (session_get org actor sid))"
    by (rule keepsA_from_store [where D = "\<lambda>db. db_inv db \<and> row_is org sid is_live db"]) (rule keeps_reads)
  show ?case
  proof (rule tripleA_bind [OF tripleA_keeps [OF k]], goal_cases)
    case (2 ses)
    have ends: "tripleA (ended_or_live running org sid) (\<lambda>w. db_inv (w_db w) \<and> row_is org sid is_live (w_db w))
        (from_store ap (begin_end_session (ap_box ap) org actor sid note))
        (\<lambda>rt w. db_inv (w_db w) \<and> row_is org sid (ending (rt_provider_session_id rt)) (w_db w))"
    proof (rule tripleA_store, goal_cases)
      case (1 w e d)
      then have "row_is org sid is_live d" using keeps_result [OF keeps_live_begin_end] by blast
      then show ?case by (simp add: live_ended_or_live)
    qed (auto dest: begin_end_row)
    show ?case
    proof (rule tripleA_bind [OF ends], goal_cases)
      case (1 rt)
      let ?D = "\<lambda>db. db_inv db \<and> row_is org sid (ending (rt_provider_session_id rt)) db"
      have live: "?D (w_db w) \<Longrightarrow> ended_or_live running org sid w" for w
        by (auto intro: live_ended_or_live ending_live)
      show ?case
      proof (rule tripleA_bind [OF tripleA_map_err [OF stop_triple [OF law, of ?D]]],
             rule live, assumption, rule tripleA_bind [OF settle_triple], rule live, simp, rule tripleA_store, goal_cases)
        case (1 stopped u w e d)
        with finalize_end_row [of "w_db w" org sid "rt_provider_session_id rt" "am_now am 0"]
        show ?case by (auto simp: ended_or_live_def intro: row_is_weaken)
      next
        case (2 stopped u w x d)
        with finalize_end_row [of "w_db w" org sid "rt_provider_session_id rt" "am_now am 0"]
        show ?case by (auto intro: row_is_weaken)
      qed
    qed
  qed (auto intro: live_ended_or_live)
qed (auto intro: live_ended_or_live)

text \<open>C5: a request to end a live session either leaves it live, and then it reports a failure, or
  the session is ended and the provider has confirmed that the browser recorded in its row no
  longer runs.\<close>
theorem session_ends_after_stop:
  assumes "provider_lawful (ap_browser ap) running" "db_inv (w_db w)"
    and "find_session org sid (w_db w) = Some row" "is_live row"
    and "end_session_handler ap am org actor sid note w = (r, w')"
  shows "\<exists>row'. find_session org sid (w_db w') = Some row' \<and>
     (is_live row' \<and> \<not> is_ok r \<or>
      se_status row' = Ended \<and> (\<exists>rid. se_provider_session_id row' = Some rid \<and> rid \<notin> running (w_provider w')))"
proof -
  have inv: "db_inv (w_db w')"
    using keepsA_result [OF keepsA_end_session store_goodI [OF assms(2)] assms(5)] by (simp add: store_good_def)
  have "db_inv (w_db w) \<and> row_is org sid is_live (w_db w)"
    using assms(2-4) by (simp add: row_is_find)
  from tripleAD [OF end_session_triple [OF assms(1)] this assms(5)] show ?thesis
    by (cases r) (auto simp: ended_or_live_def row_is_find [OF inv] is_ok_def)
qed

text \<open>The reaper.\<close>

abbreviation leased :: "str \<Rightarrow> str \<Rightarrow> session_row \<Rightarrow> bool" where
  "leased rid lease r \<equiv> ending rid r \<and> se_stop_lease_id r = Some lease"

lemma release_row:
  assumes "db_inv (w_db w)" "row_is (ex_org_id s) (ex_session_id s) (leased rid (ex_lease_id s)) (w_db w)"
  shows "row_is (ex_org_id s) (ex_session_id s) (\<lambda>r. ending rid r \<and> se_stop_lease_id r = None) (w_db (release_claim s w)) \<and>
     w_provider (release_claim s w) = w_provider w"
proof -
  let ?P = "\<lambda>r. se_org_id r = ex_org_id s \<and> se_id r = ex_session_id s \<and> se_stop_lease_id r = Some (ex_lease_id s)"
  let ?f = "\<lambda>r. r\<lparr>se_stop_lease_id := None, se_stop_lease_until := None\<rparr>"
  from assms(2) obtain r where r: "r \<in> set (db_sessions (w_db w))" "?P r" "ending rid r"
    unfolding row_is_def by blast
  have "update_sessions ?P ?f (w_db w) = (Inr (affected ?P (db_sessions (w_db w))),
      (w_db w)\<lparr>db_sessions := update_where ?P ?f (db_sessions (w_db w))\<rparr>)"
    by (rule update_sessions_ok [OF assms(1)]) (auto simp: is_live_def)
  then have "db_sessions (w_db (release_claim s w)) = update_where ?P ?f (db_sessions (w_db w))"
    "w_provider (release_claim s w) = w_provider w"
    by (simp_all add: release_claim_def release_expired_claim_def in_store_def bindS_def)
  moreover have "?f r \<in> set (update_where ?P ?f (db_sessions (w_db w)))"
    using update_where_mem [OF r(1), of ?P ?f] r(2) by simp
  ultimately show ?thesis unfolding row_is_def using r(2,3) by (intro conjI bexI [of _ "?f r"]) simp_all
qed

lemma finalize_expired_row:
  assumes "db_inv db" "row_is org sid (leased rid lease) db" "finalize_expired_session org sid lease now db = (r, d)"
  shows "case r of Inl e \<Rightarrow> d = db | Inr u \<Rightarrow>
     row_is org sid (\<lambda>r. se_status r = Expired \<and> se_provider_session_id r = Some rid) d"
proof -
  let ?P = "\<lambda>s. se_org_id s = org \<and> se_id s = sid \<and> se_status s = Ending \<and> se_expires_at s \<le> timestamp now \<and>
      se_stop_lease_id s = Some lease"
  let ?f = "\<lambda>s. s\<lparr>se_status := Expired, se_ended_at := Some (timestamp now), se_end_note := Some (lit ''ttl reached'')\<rparr>"
  from assms(2) obtain x where x: "x \<in> set (db_sessions db)" "se_org_id x = org" "se_id x = sid" "leased rid lease x"
    unfolding row_is_def by blast
  have f: "find_session org sid db = Some x" using find_session_unique [OF assms(1) x(1)] x by simp
  have up: "update_sessions ?P ?f db = (Inr (affected ?P (db_sessions db)), db\<lparr>db_sessions := update_where ?P ?f (db_sessions db)\<rparr>)"
    by (rule update_sessions_ok [OF assms(1)]) (auto simp: is_live_def live_state_def)
  show ?thesis
  proof (cases "?P x")
    case True
    then have hit: "affected ?P (db_sessions db) \<noteq> 0" using x(1) affected_pos by blast
    obtain n d2 where p: "pend_recording_of sid (db\<lparr>db_sessions := update_where ?P ?f (db_sessions db)\<rparr>) = (Inr n, d2)"
      by (simp add: pend_recording_of_def update_recordings_def)
    have d2: "db_sessions d2 = update_where ?P ?f (db_sessions db)"
      using arg_cong [OF p, of "\<lambda>x. db_sessions (snd x)"] by simp
    have "?f x \<in> set (update_where ?P ?f (db_sessions db))" using update_where_mem [OF x(1), of ?P ?f] True by simp
    with x have "row_is org sid (\<lambda>r. se_status r = Expired \<and> se_provider_session_id r = Some rid) d2"
      unfolding row_is_def d2 by (intro bexI [of _ "?f x"]) simp_all
    moreover from hit up p have "finalize_expired_session org sid lease now db = (Inr (), d2)"
      by (simp add: finalize_expired_session_def atomically_def bindS_def)
    ultimately show ?thesis using assms(3) by simp
  next
    case False
    have no: "\<forall>r \<in> set (db_sessions db). \<not> ?P r"
      using False find_session_unique [OF assms(1)] f by (metis option.inject)
    then have zero: "affected ?P (db_sessions db) = 0" "update_where ?P ?f (db_sessions db) = db_sessions db"
      by (simp_all only: affected_zero update_where_id)
    then have "fst (finalize_expired_session org sid lease now db) = Inl (SSessionState sid ''ending'') \<and>
       snd (finalize_expired_session org sid lease now db) = db"
      using f x by (simp add: finalize_expired_session_def atomically_def bindS_def session_row_of_def ok_or_def
          up zero)
    with assms(3) show ?thesis by simp
  qed
qed

lemma stop_lease:
  assumes "fst (expired_claim_is_current org sid lease now db) = Inr True" "db_inv db" "row_is org sid (ending rid) db"
  shows "row_is org sid (leased rid lease) db"
proof -
  from assms(1) obtain y where y: "y \<in> set (db_sessions db)" "se_org_id y = org" "se_id y = sid" "se_stop_lease_id y = Some lease"
    by (auto simp: expired_claim_is_current_def list_ex_iff)
  from assms(3) obtain x where x: "x \<in> set (db_sessions db)" "se_org_id x = org" "se_id x = sid" "ending rid x"
    unfolding row_is_def by blast
  from find_session_unique [OF assms(2) y(1)] find_session_unique [OF assms(2) x(1)] x y have "x = y" by simp
  with x y show ?thesis by (auto simp: row_is_def)
qed

text \<open>What becomes of a claimed session.\<close>

definition reaped :: "('p \<Rightarrow> str set) \<Rightarrow> expiring_session \<Rightarrow> str \<Rightarrow> 'p world \<Rightarrow> bool" where
  "reaped running s rid w \<longleftrightarrow>
     row_is (ex_org_id s) (ex_session_id s)
       (\<lambda>r. ending rid r \<and> se_stop_lease_id r = None \<or>
            se_status r = Expired \<and> se_provider_session_id r = Some rid \<and> rid \<notin> running (w_provider w)) (w_db w)"

lemma reap_world:
  fixes ap :: "('u, 'p) app_state"
  assumes law: "provider_lawful (ap_browser ap) running" and inv: "db_inv (w_db w)"
    and row: "row_is (ex_org_id s) (ex_session_id s) (ending rid) (w_db w)"
    and rid: "rid = rt_provider_session_id (ex_runtime s)"
  shows "reap_claimed_session ap am s w = w \<or> reaped running s rid (reap_claimed_session ap am s w)"
proof -
  let ?org = "ex_org_id s" and ?sid = "ex_session_id s"
  let ?Q = "leased rid (ex_lease_id s)"
  have current: "in_store (expired_claim_is_current ?org ?sid (ex_lease_id s) (am_now am 0)) w =
      (fst (expired_claim_is_current ?org ?sid (ex_lease_id s) (am_now am 0) (w_db w)), w)"
    by (simp add: in_store_def expired_claim_is_current_def)
  show ?thesis
  proof (cases "fst (expired_claim_is_current ?org ?sid (ex_lease_id s) (am_now am 0) (w_db w)) = Inr True")
    case False
    then have "reap_claimed_session ap am s w = w"
      using current by (simp add: reap_claimed_session_def expired_claim_is_current_def)
    then show ?thesis by blast
  next
    case True
    from stop_lease [OF True inv row] have held: "row_is ?org ?sid ?Q (w_db w)" .
    have release: "reaped running s rid (release_claim s v)" if "db_inv (w_db v)" "row_is ?org ?sid ?Q (w_db v)" for v :: "'p world"
      using release_row [OF that] unfolding reaped_def by (auto intro: row_is_weaken)
    obtain answer w2 where stop: "stop_confirmed ap rid w = (answer, w2)" by (cases "stop_confirmed ap rid w")
    note sw = stop_confirmed_world [OF law, of rid w, unfolded stop snd_conv fst_conv]
    show ?thesis
    proof (cases answer)
      case (Inl e)
      with True current stop release [of w2] sw(3) inv held show ?thesis
        by (simp add: reap_claimed_session_def rid)
    next
      case (Inr stopped)
      with sw(2) have gone: "rid \<notin> running (w_provider w2)" by simp
      let ?settle = "settle_stopped ap (am_nonce am 0) ?org ?sid (ex_started_at s) (rt_recording_url (ex_runtime s) \<noteq> None)
          stopped (am_now am 1)"
      obtain a d where settle: "?settle (w_db w) = (a, d)" by (cases "?settle (w_db w)")
      have "keeps (\<lambda>db. db_inv db \<and> row_is ?org ?sid ?Q db) ?settle"
        by (intro keeps_conj db_inv_kept keeps_settle_stopped keeps_row_settle) simp
      from keeps_result [OF this _ settle] inv held have d: "db_inv d" "row_is ?org ?sid ?Q d" by simp_all
      obtain b d2 where fin: "finalize_expired_session ?org ?sid (ex_lease_id s) (am_now am 1) d = (b, d2)"
        by (cases "finalize_expired_session ?org ?sid (ex_lease_id s) (am_now am 1) d")
      note final = finalize_expired_row [OF d fin]
      have step: "reap_claimed_session ap am s w =
          (case a of Inl _ \<Rightarrow> release_claim s (w2\<lparr>w_db := d\<rparr>)
           | Inr _ \<Rightarrow> (case b of Inl _ \<Rightarrow> release_claim s (w2\<lparr>w_db := d2\<rparr>) | Inr _ \<Rightarrow> w2\<lparr>w_db := d2\<rparr>))"
        using True current stop Inr settle fin sw(3)
        by (simp add: reap_claimed_session_def rid in_store_def split: sum.split)
      show ?thesis unfolding step using d final gone release
        by (auto simp: reaped_def split: sum.splits intro: row_is_weaken)
    qed
  qed
qed

text \<open>C6: one turn of the reaper on an ending session: without the session's current lease it touches
  neither the provider nor the database. With it, the session is either expired, and the provider
  has confirmed that its browser no longer runs, or it is still ending with the lease given back,
  so that a later pass can try again.\<close>
theorem reaper_expires_after_stop:
  assumes "provider_lawful (ap_browser ap) running" "db_inv (w_db w)"
    and "find_session (ex_org_id s) (ex_session_id s) (w_db w) = Some row" "se_status row = Ending"
    and "se_provider_session_id row = Some (rt_provider_session_id (ex_runtime s))"
    and "w' = reap_claimed_session ap am s w"
  shows "(se_stop_lease_id row \<noteq> Some (ex_lease_id s) \<longrightarrow> w' = w) \<and>
     (w' = w \<or> (\<exists>row'. find_session (ex_org_id s) (ex_session_id s) (w_db w') = Some row' \<and>
        (se_status row' = Ending \<and> se_stop_lease_id row' = None \<or>
         se_status row' = Expired \<and> rt_provider_session_id (ex_runtime s) \<notin> running (w_provider w'))))"
proof -
  have inv: "db_inv (w_db w')"
    using keepsAD [OF keepsA_reap store_goodI [OF assms(2)], of _ ap am s] assms(6) by (simp add: store_good_def)
  have row: "row_is (ex_org_id s) (ex_session_id s) (ending (rt_provider_session_id (ex_runtime s))) (w_db w)"
    using assms(2-5) by (simp add: row_is_find)
  have "w' = w" if "se_stop_lease_id row \<noteq> Some (ex_lease_id s)"
  proof -
    have "fst (expired_claim_is_current (ex_org_id s) (ex_session_id s) (ex_lease_id s) (am_now am 0) (w_db w)) = Inr False"
      using that find_session_unique [OF assms(2)] assms(3)
      by (fastforce simp: expired_claim_is_current_def list_ex_iff)
    then show ?thesis
      by (simp add: assms(6) reap_claimed_session_def in_store_def expired_claim_is_current_def)
  qed
  with reap_world [OF assms(1,2) row refl, of am] assms(6) show ?thesis
    by (auto simp: reaped_def row_is_find [OF inv [unfolded assms(6)]])
qed

lemma sample_found3: "find_session [111] [115] sample_db3 = Some sample_active" "is_live sample_active"
  by (simp_all add: sample_db3_def find_session_def select_one_def sample_active_def sample_row_def reserved_row_def
      is_live_def live_state_def)

theorem session_ends_after_stop_witness:
  "\<exists>row' r w'. end_session_handler sample_app sample_ambient [111] alice [115] [110] sample_started = (r, w') \<and>
     find_session [111] [115] (w_db w') = Some row' \<and> (is_live row' \<longrightarrow> \<not> is_ok r)"
proof -
  obtain r w' where e: "end_session_handler sample_app sample_ambient [111] alice [115] [110] sample_started = (r, w')"
    by (cases "end_session_handler sample_app sample_ambient [111] alice [115] [110] sample_started")
  have "provider_lawful (ap_browser sample_app) set" by (simp add: fake_lawful)
  from session_ends_after_stop [OF this _ _ _ e, of sample_active] sample_found3 sample_inv
  show ?thesis using e by (auto simp: sample_started_def is_live_def live_state_def)
qed

definition sample_expiring :: expiring_session where
  "sample_expiring = \<lparr>ex_org_id = [111], ex_session_id = [115], ex_incognito = False, ex_started_at = 0,
     ex_lease_id = [49], ex_runtime = \<lparr>rt_provider_session_id = [118], rt_cdp_url = [99], rt_live_url = [108],
       rt_recording_url = None\<rparr>\<rparr>"

lemma sample_leased_inv: "db_inv (sample_db3\<lparr>db_sessions := [sample_leased]\<rparr>)"
  using sample_claim claim_success(3) [OF _ sample_inv] by blast

theorem reaper_expires_after_stop_witness:
  "\<exists>w'. w' = reap_claimed_session sample_app sample_ambient sample_expiring
        \<lparr>w_db = sample_db3\<lparr>db_sessions := [sample_leased]\<rparr>, w_provider = [[118]]\<rparr> \<and>
     (w' = \<lparr>w_db = sample_db3\<lparr>db_sessions := [sample_leased]\<rparr>, w_provider = [[118]]\<rparr> \<or>
      (\<exists>row'. find_session [111] [115] (w_db w') = Some row' \<and> (se_status row' = Ending \<or> [118] \<notin> set (w_provider w'))))"
proof -
  let ?w = "\<lparr>w_db = sample_db3\<lparr>db_sessions := [sample_leased]\<rparr>, w_provider = [[118]]\<rparr>"
  have "provider_lawful (ap_browser sample_app) set" by (simp add: fake_lawful)
  moreover have "db_inv (w_db ?w)" by (simp add: sample_leased_inv)
  moreover have "find_session (ex_org_id sample_expiring) (ex_session_id sample_expiring) (w_db ?w) = Some sample_leased"
    "se_status sample_leased = Ending" "se_stop_lease_id sample_leased = Some [49]" "ex_lease_id sample_expiring = [49]"
    "se_provider_session_id sample_leased = Some (rt_provider_session_id (ex_runtime sample_expiring))"
    by (simp_all add: sample_expiring_def find_session_def select_one_def sample_leased_def sample_session sample_active_def
       sample_row_def reserved_row_def)
  ultimately show ?thesis
    using reaper_expires_after_stop [of sample_app set ?w sample_expiring sample_leased _ sample_ambient]
    by (fastforce simp: sample_expiring_def)
qed

section \<open>What a start hands over\<close>

lemma runtime_of_browser:
  "provider_session_of parse b = Inr rt \<Longrightarrow> validate_provider_browser_session parse b True = Inr () \<and> pv_id rt = pb_id b \<and>
     pb_cdp_url b = Some (pv_cdp_url rt) \<and> pb_live_url b = Some (pv_live_url rt) \<and> pv_recording_url rt = pb_recording_url b"
  by (auto simp: provider_session_of_def tryE_def map_err_def ok_or_def split: sum.splits option.splits)

text \<open>The row holds the runtime of a browser of the provider, under seals that open to it.\<close>

definition runs_on :: "('u, 'p) app_state \<Rightarrow> str \<Rightarrow> str \<Rightarrow> provider_browser \<Rightarrow> 'p world \<Rightarrow> bool" where
  "runs_on ap org sid b w \<longleftrightarrow>
     (\<exists>row rt. find_session org sid (w_db w) = Some row \<and> se_status row = Active \<and>
        runtime_from_row (ap_box ap) org sid row = Inr rt \<and>
        rt_provider_session_id rt = pb_id b \<and> Some (rt_cdp_url rt) = pb_cdp_url b \<and>
        Some (rt_live_url rt) = pb_live_url b \<and> rt_recording_url rt = pb_recording_url b)"

lemma activated_runs_on:
  assumes "secret_box_ok (ap_box ap)" "\<And>k f. length (am_nonce am k f) = 12" "db_inv (w_db w)"
    and "provider_session_of (ap_parse ap) b = Inr runtime"
    and "activate_reserved ap am org reserved runtime (w_db w) = (Inr ses, d)"
  shows "s_id ses = s_id reserved \<and> runs_on ap org (s_id reserved) b (w\<lparr>w_db := d\<rparr>)"
proof -
  from assms(5) have act: "activate_session (ap_box ap) (am_nonce am 0) org (s_id reserved) runtime (am_now am 1) (w_db w) = (Inr ses, d)"
    by (simp add: activate_reserved_def)
  from activate_success [OF act assms(3)] obtain r urls where
    seal: "seal_provider (ap_box ap) (am_nonce am 0) org (s_id reserved) runtime = Inr urls"
    and f: "find_session org (s_id reserved) d = Some (r\<lparr>se_status := Active, se_provider_session_id := Some (pv_id runtime),
       se_cdp_url_enc := Some (sl_cdp urls), se_live_url_enc := Some (sl_live urls),
       se_recording_url_enc := sl_recording urls\<rparr>)"
    and u: "session_unchecked org (s_id reserved) d = (Inr ses, d)" by metis
  let ?row = "r\<lparr>se_status := Active, se_provider_session_id := Some (pv_id runtime),
       se_cdp_url_enc := Some (sl_cdp urls), se_live_url_enc := Some (sl_live urls),
       se_recording_url_enc := sl_recording urls\<rparr>"
  have "runtime_from_row (ap_box ap) org (s_id reserved) ?row = Inr \<lparr>rt_provider_session_id = pv_id runtime,
     rt_cdp_url = pv_cdp_url runtime, rt_live_url = pv_live_url runtime, rt_recording_url = pv_recording_url runtime\<rparr>"
    by (rule runtime_of_sealed [OF assms(1,2) seal]) simp_all
  with f runtime_of_browser [OF assms(4)] session_unchecked_row [OF u] show ?thesis
    by (auto simp: runs_on_def)
qed

lemma started_browser_runs_on:
  assumes "secret_box_ok (ap_box ap)" "\<And>k f. length (am_nonce am k f) = 12" "db_inv (w_db w)"
    and "started_browser ap am org reserved b w = (Inr ses, w')"
  shows "s_id ses = s_id reserved \<and> runs_on ap org (s_id reserved) b w' \<and>
     validate_provider_browser_session (ap_parse ap) b True = Inr ()"
proof (cases "provider_session_of (ap_parse ap) b")
  case (Inr runtime)
  with assms(4) obtain d where act: "activate_reserved ap am org reserved runtime (w_db w) = (Inr ses, d)"
    and w': "w' = w\<lparr>w_db := d\<rparr>"
    by (auto simp: started_browser_def in_store_def split: prod.splits sum.splits)
  from activated_runs_on [OF assms(1-3) Inr act] runtime_of_browser [OF Inr] show ?thesis by (simp add: w')
qed (use assms(4) in \<open>simp add: started_browser_def\<close>)

lemma failed_start_runs_on:
  assumes "secret_box_ok (ap_box ap)" "\<And>k f. length (am_nonce am k f) = 12" "db_inv (w_db w)"
    and "failed_start ap am org reserved e w = (Inr ses, w')"
  shows "\<exists>b. s_id ses = s_id reserved \<and> runs_on ap org (s_id reserved) b w' \<and>
     validate_provider_browser_session (ap_parse ap) b True = Inr ()"
proof -
  have ambiguous: "mutation_may_have_committed e"
    using assms(4) by (auto simp: failed_start_def in_store_def split: if_splits prod.splits)
  with assms(4) obtain b p' runtime d where b: "provider_session_of (ap_parse ap) b = Inr runtime"
    and act: "activate_reserved ap am org reserved runtime (w_db w) = (Inr ses, d)"
    and w': "w' = w\<lparr>w_provider := p', w_db := d\<rparr>"
    by (auto simp: failed_start_def matchA_def bindA_def at_provider_def from_store_Inr
        split: prod.splits sum.splits option.splits)
  from activated_runs_on [OF assms(1-3) b act] have "s_id ses = s_id reserved" "runs_on ap org (s_id reserved) b w'"
    by (simp_all add: w' runs_on_def)
  with runtime_of_browser [OF b] show ?thesis by blast
qed

text \<open>C7: a session is reported as started only after it has been activated: its row is active and
  holds, under seals that open to them, the identity and the URLs of a browser whose snapshot
  passed every check, that is, an active browser with an HTTPS or WSS endpoint and an HTTPS live
  view on permitted hosts.\<close>
theorem started_session_runtime:
  assumes "secret_box_ok (ap_box ap)" "\<forall>k f. length (am_nonce am k f) = 12" "db_inv (w_db w)"
    and "create_session_handler ap am org actor request w = (Inr ses, w')"
  shows "\<exists>b. s_id ses = am_fresh am \<and> runs_on ap org (am_fresh am) b w' \<and>
     validate_provider_browser_session (ap_parse ap) b True = Inr ()"
proof -
  from assms(4) obtain prof w1 res w2 where
    p: "session_profile ap org actor request w = (Inr prof, w1)"
    and reserve: "from_store ap (reserve_session (am_fresh am) org actor request (am_now am 0)) w1 = (Inr res, w2)"
    and m: "matchA (at_provider (ba_start_browser (ap_browser ap) (start_request request prof res)))
       (started_browser ap am org res) (failed_start ap am org res) w2 = (Inr ses, w')"
    by (auto simp: create_session_handler_def bindA_def split: sum.splits prod.splits)
  have "keepsA (consistent (w_db w)) (session_profile ap org actor request)"
    unfolding session_profile_def by (intro keepsA_rules keeps_server)
  from keepsA_result [OF this store_goodI [OF assms(3)] p] have c: "consistent (w_db w) w1" .
  have "keepsA (consistent (w_db w)) (from_store ap (reserve_session (am_fresh am) org actor request (am_now am 0)))"
    by (intro keepsA_rules keeps_server)
  from keepsA_result [OF this c reserve] have inv: "db_inv (w_db w2)" by (simp add: store_good_def)
  from reserve obtain d where "reserve_session (am_fresh am) org actor request (am_now am 0) (w_db w1) = (Inr res, d)"
    by (auto simp: from_store_Inr)
  with reserve_success have rid: "s_id res = am_fresh am" by blast
  obtain answer p' where start: "ba_start_browser (ap_browser ap) (start_request request prof res) (w_provider w2) = (answer, p')"
    by (cases "ba_start_browser (ap_browser ap) (start_request request prof res) (w_provider w2)")
  let ?w3 = "w2\<lparr>w_provider := p'\<rparr>"
  have n: "length (am_nonce am k f) = 12" for k f using assms(2) by blast
  have inv3: "db_inv (w_db ?w3)" using inv by simp
  show ?thesis
  proof (cases answer)
    case (Inl e)
    with m start have "failed_start ap am org res e ?w3 = (Inr ses, w')" by (simp add: matchA_def at_provider_def)
    from failed_start_runs_on [OF assms(1) n inv3 this] show ?thesis by (simp add: rid)
  next
    case (Inr b)
    with m start have "started_browser ap am org res b ?w3 = (Inr ses, w')" by (simp add: matchA_def at_provider_def)
    from started_browser_runs_on [OF assms(1) n inv3 this] show ?thesis by (auto simp: rid)
  qed
qed

theorem started_session_runtime_witness:
  "\<exists>b. runs_on sample_app [111] [115] b sample_started"
proof -
  obtain ses where c: "create_session_handler sample_app sample_ambient [111] alice sample_session_request sample_world =
      (Inr ses, sample_started)" using sample_create_session by blast
  have "secret_box_ok (ap_box sample_app)" "\<forall>k f. length (am_nonce sample_ambient k f) = 12"
    by (simp_all add: plain_box_laws sample_nonces_def)
  from started_session_runtime [OF this _ c] show ?thesis
    by (auto simp: sample_world_def sample_db1_inv)
qed

end
