(* ===== verification/SB_Links.thy ===== *)
theory SB_Links
  imports SB_Saga
begin

text \<open>
  Further promises of the server: the conflict on a busy profile, live links, and the bounded
  retries of recording lookups.
\<close>

section \<open>A busy profile\<close>

lemma sql_length_no_nul: "0 \<notin> set s \<Longrightarrow> sql_length s = length s"
  by (induction s) (auto simp: sql_length_def)

lemma live_slot_unique:
  assumes "db_inv db" "row \<in> set (db_sessions db)" "se_org_id row = org" "se_profile_id row = Some pid" "is_live row"
  shows "profile_busy org pid db = Some (SProfileBusy pid (se_id row) (se_started_by row) (parse_timestamp (se_expires_at row)))"
proof -
  have "select_one (\<lambda>s. se_org_id s = org \<and> se_profile_id s = Some pid \<and> is_live s) (db_sessions db) \<noteq> None"
    using assms(2-5) by (auto simp: select_one_None)
  then obtain x where x: "select_one (\<lambda>s. se_org_id s = org \<and> se_profile_id s = Some pid \<and> is_live s) (db_sessions db) = Some x"
    by blast
  from select_one_Some [OF this] have m: "x \<in> set (db_sessions db)" "se_profile_id x = Some pid" "is_live x" by blast+
  have "distinct (live_profiles (db_sessions db))" using assms(1) by (simp add: db_inv_def sessions_unique_def)
  with m assms(2,4,5) have "x = row" using live_profiles_distinct by (metis in_set_conv_nth)
  with x show ?thesis by (simp add: profile_busy_def)
qed

lemma insert_session_busy:
  assumes "db_inv db" "row \<in> set (db_sessions db)" "se_org_id row = org" "se_profile_id row = Some pid" "is_live row"
    and "sc_profile_id request = Some pid" "session_checks fresh_row" "se_profile_id fresh_row = Some pid" "is_live fresh_row"
  shows "insert_session org request fresh_row db =
     (Inl (SProfileBusy pid (se_id row) (se_started_by row) (parse_timestamp (se_expires_at row))), db)"
proof -
  have "pid \<in> set (live_profiles (db_sessions db))"
    using assms(2,4,5) by (force simp: live_profiles_def List.map_filter_def)
  then have "\<not> sessions_unique (db_sessions db @ [fresh_row])"
    using assms(8,9) by (simp add: sessions_unique_def live_profiles_def List.map_filter_def)
  moreover have "list_all session_checks (db_sessions db @ [fresh_row])" using assms(1,7) by (simp add: db_inv_def)
  ultimately show ?thesis
    using live_slot_unique [OF assms(1-5)] assms(6) by (simp add: insert_session_def write_sessions_def)
qed

lemma profile_usable:
  assumes "sc_profile_id request = Some pid" "session_profile ap org actor request w = (Inr prof, w1)"
  shows "w1 = w \<and> profile_ready org actor pid (w_db w) = (Inr (), w_db w)"
proof -
  from assms obtain p d q d2 where g: "profile_get org actor pid (w_db w) = (Inr p, d)"
    and i: "provider_profile_id org actor pid d = (Inr q, d2)" and w1: "w1 = w\<lparr>w_db := d2\<rparr>"
    by (auto simp: session_profile_def bindA_def from_store_Inr split: prod.splits sum.splits)
  have d: "d = w_db w" using snd_read [OF keeps_reads(9)] g by (metis snd_conv)
  have d2: "d2 = w_db w" using snd_read [OF keeps_reads(10)] i d by (metis snd_conv)
  from i have "profile_ready org actor pid (w_db w) = (Inr (), w_db w)"
    unfolding d d2 provider_profile_id_def profile_ready_def profile_row_of_def
    by (auto simp: bindS_def ok_or_def split: option.splits if_splits)
  with w1 d2 show ?thesis by simp
qed

text \<open>C36: a start on a profile whose slot is taken is refused with a conflict that names the live
  session, its initiator and its deadline; nothing is written, and the provider is not asked to
  start anything.\<close>
theorem busy_profile_refused:
  assumes "db_inv (w_db w)" "session_create_validate request = Inr ()" "sc_profile_id request = Some pid"
    and "0 \<notin> set (sc_name request)" "0 \<notin> set (sc_description request)"
    and "safe_id org ''org_id'' = Inr ()" "safe_id (i_id actor) ''initiator_id'' = Inr ()"
    and "session_profile ap org actor request w = (Inr prof, w1)"
    and "row \<in> set (db_sessions (w_db w))" "se_org_id row = org" "se_profile_id row = Some pid" "is_live row"
  shows "create_session_handler ap am org actor request w =
     (Inl ((api_conflict ''profile_busy'' (lit ''profile already has a live session''))\<lparr>af_details :=
        [(''actor_id'', se_started_by row), (''expires_at'', ap_show_time ap (parse_timestamp (se_expires_at row))),
         (''session_id'', se_id row)]\<rparr>), w)"
proof -
  let ?row = "reserved_row (am_fresh am) org actor request (am_now am 0)"
  from profile_usable [OF assms(3,8)] have p: "session_profile ap org actor request w = (Inr prof, w)"
    and ready: "profile_ready org actor pid (w_db w) = (Inr (), w_db w)" using assms(8) by auto
  from assms(2) have b: "trim (sc_name request) \<noteq> []" "length (sc_name request) \<le> 120"
    "trim (sc_description request) \<noteq> []" "length (sc_description request) \<le> 2000"
    by (auto simp: session_create_validate_ok)
  have nul: "sql_length (trim (sc_name request)) = length (trim (sc_name request))"
    "sql_length (trim (sc_description request)) = length (trim (sc_description request))"
    by (rule sql_length_no_nul, use set_trim assms(4,5) in blast)+
  from length_trim [of "sc_name request"] length_trim [of "sc_description request"] b nul have checks: "session_checks ?row"
    by (simp add: session_checks_def reserved_row_def Suc_le_eq)
  have "insert_session org request ?row (w_db w) =
      (Inl (SProfileBusy pid (se_id row) (se_started_by row) (parse_timestamp (se_expires_at row))), w_db w)"
    by (rule insert_session_busy [OF assms(1,9-12,3) checks])
       (simp_all add: reserved_row_def assms(3) is_live_def live_state_def)
  then have "reserve_session (am_fresh am) org actor request (am_now am 0) (w_db w) =
      (Inl (SProfileBusy pid (se_id row) (se_started_by row) (parse_timestamp (se_expires_at row))), w_db w)"
    using b ready by (simp add: reserve_session_def assms(2,3,6,7) bindS_def atomically_def Let_def)
  then show ?thesis
    by (simp add: create_session_handler_def bindA_def assms(2) p from_store_def map_errA_def in_store_def)
qed

theorem busy_profile_refused_witness:
  "fst (create_session_handler sample_app sample_ambient [111] alice sample_session_request sample_started) =
     Inl ((api_conflict ''profile_busy'' (lit ''profile already has a live session''))\<lparr>af_details :=
        [(''actor_id'', [97]), (''expires_at'', []), (''session_id'', [115])]\<rparr>)"
proof -
  have p: "\<exists>p. session_profile sample_app [111] alice sample_session_request sample_started = (Inr p, sample_started)"
    by (simp add: session_profile_def sample_session_request_def from_store_def map_errA_def in_store_def bindA_def
        sample_started_def profile_get_def provider_profile_id_def profile_row_of_def map_profile_def sample_db3_def
        sample_db2_def insert_session_side_rows_def sample_db1_def empty_db_def
        sample_profile_row_def select_one_def sample_allows bindS_def)
  then obtain q where q: "session_profile sample_app [111] alice sample_session_request sample_started = (Inr q, sample_started)"
    by blast
  have row: "sample_active \<in> set (db_sessions (w_db sample_started))" "se_org_id sample_active = [111]"
    "se_profile_id sample_active = Some [112]" "is_live sample_active" "se_id sample_active = [115]"
    "se_started_by sample_active = [97]" "ap_show_time sample_app t = []" for t
    by (simp_all add: sample_started_def sample_db3_def sample_active_def sample_row_def reserved_row_def
        sample_session_request_def is_live_def live_state_def alice_def sample_app_def)
  have req: "sc_profile_id sample_session_request = Some [112]" "0 \<notin> set (sc_name sample_session_request)"
    "0 \<notin> set (sc_description sample_session_request)" "i_id alice = [97]" "db_inv (w_db sample_started)"
    by (simp_all add: sample_session_request_def alice_def sample_started_def sample_inv)
  have "safe_id [111] ''org_id'' = Inr ()" "safe_id (i_id alice) ''initiator_id'' = Inr ()"
    by (simp_all add: sample_texts req)
  from busy_profile_refused [OF req(5) sample_valid(2) req(1-3) this q row(1-4)] show ?thesis
    by (simp add: row)
qed

section \<open>Live links\<close>

lemma map_usage_principals:
  "map_usage row t ps = Inr u \<Longrightarrow> map_usage row t ps' = Inr (u\<lparr>u_principal_ids := ps'\<rparr>)"
  by (auto simp: map_usage_def Let_def tryE_def split_def split: sum.splits)

lemma usage_total_principals: "usage_total_of [u\<lparr>u_principal_ids := ps\<rparr>] = usage_total_of [u]"
  by (simp add: usage_total_of_def usage_total_step_def Let_def)

text \<open>A session stays readable when its list of participants changes.\<close>

lemma map_session_participants:
  assumes "map_session row db = (Inr ses, db')"
  shows "\<exists>ses'. map_session row (db\<lparr>db_participants := ps\<rparr>) = (Inr ses', db\<lparr>db_participants := ps\<rparr>)"
proof -
  from assms obtain u t ttl where u: "fst (usage_unchecked (se_id row) db) = Inr u"
    and ok: "usage_total_of [u] = Inr t" "ttl_from_dates (se_started_at row) (se_expires_at row) = Inr ttl"
    by (auto simp: map_session_def map_session_model_def usage_unchecked_def split: sum.splits)
  from u obtain v where "fst (usage_unchecked (se_id row) (db\<lparr>db_participants := ps\<rparr>)) = Inr (u\<lparr>u_principal_ids := v\<rparr>)"
    by (auto simp: usage_unchecked_def split: option.splits intro: map_usage_principals)
  moreover have "snd (usage_unchecked (se_id row) (db\<lparr>db_participants := ps\<rparr>)) = db\<lparr>db_participants := ps\<rparr>"
    by (rule snd_read) simp
  ultimately have "usage_unchecked (se_id row) (db\<lparr>db_participants := ps\<rparr>) = (Inr (u\<lparr>u_principal_ids := v\<rparr>), db\<lparr>db_participants := ps\<rparr>)"
    by (metis prod.collapse)
  then show ?thesis by (simp add: map_session_def bindS_def map_session_model_def usage_total_principals ok)
qed

lemma find_session_participants: "find_session org sid (db\<lparr>db_participants := ps\<rparr>) = find_session org sid db"
  by (simp add: find_session_def)

text \<open>After a viewer has been associated with an active session, the viewer reads its runtime.\<close>

lemma associate_then_runtime:
  assumes "find_session org sid db = Some row" "se_status row = Active" "now < parse_timestamp (se_expires_at row)"
    and "safe_id (i_id viewer) ''actor_id'' = Inr ()" "map_session row db = (Inr ses, db)"
    and "runtime_from_row box org sid row = Inr rt"
  shows "\<exists>b d. associate_participant org sid (i_id viewer) Viewer now db = (Inr b, d) \<and>
     is_session_actor sid (i_id viewer) d \<and> get_provider_runtime box org viewer sid d = (Inr rt, d)"
proof -
  have late: "\<not> parse_timestamp (se_expires_at row) \<le> now" using assms(3) by simp
  obtain ps where ps: "associate_participant org sid (i_id viewer) Viewer now db = (Inr (ps \<noteq> db_participants db), db\<lparr>db_participants := ps\<rparr>)"
    and mem: "list_ex (\<lambda>p. pt_session_id p = sid \<and> pt_actor_id p = i_id viewer) ps"
  proof (cases "\<exists>p \<in> set (db_participants db). pt_session_id p = sid \<and> pt_actor_id p = i_id viewer \<and> pt_role p = Viewer")
    case True
    then show thesis
      by (intro that [of "db_participants db"])
         (auto simp: associate_participant_def assms(1,2,4) late session_row_of_def atomically_def bindS_def Let_def list_ex_iff)
  next
    case False
    then show thesis
      by (intro that [of "db_participants db @ [\<lparr>pt_session_id = sid, pt_actor_id = i_id viewer, pt_role = Viewer,
            pt_first_seen_at = timestamp now\<rparr>]"])
         (auto simp: associate_participant_def assms(1,2,4) late session_row_of_def atomically_def bindS_def Let_def)
  qed
  let ?d = "db\<lparr>db_participants := ps\<rparr>"
  have actor: "is_session_actor sid (i_id viewer) ?d" using mem by (simp add: is_session_actor_def)
  have row: "find_session org sid ?d = Some row" by (simp add: find_session_participants assms(1))
  have "se_id row = sid" using find_session_Some [OF assms(1)] by blast
  with actor have vis: "session_visible row viewer ?d" by (simp add: session_visible_def principal_ids_def)
  obtain ses' where "map_session row ?d = (Inr ses', ?d)" using map_session_participants [OF assms(5)] by blast
  with row vis have "get_provider_runtime box org viewer sid ?d = (Inr rt, ?d)"
    by (simp add: get_provider_runtime_def session_get_def session_row_of_def bindS_def assms(2,6))
  with ps actor show ?thesis by blast
qed

text \<open>A live link works for whoever is given it: until the session's deadline, while the session
  is active, redeeming the grant in the link's fragment makes the caller a viewer of this session
  and answers the provider's live view, without naming the provider in the link.\<close>
theorem live_link_roundtrip:
  assumes "secret_box_ok (ap_box ap)" "length nonce = 12" "\<forall>g. ap_read_grant ap (ap_grant_text ap g) = Some g"
    and "live_session_handler ap nonce org actor sid w = (Inr link, w1)"
    and "find_session org sid (w_db w) = Some row" "se_status row = Active"
    and "runtime_from_row (ap_box ap) org sid row = Inr rt" "now < ll_expires_at link"
    and "safe_id (i_id viewer) ''actor_id'' = Inr ()"
  shows "\<exists>grant. ll_url link = ap_public_origin ap @ lit ''/sessions/'' @ sid @ lit ''/live#grant='' @ grant \<and>
     (live_redeem_validate grant = Inr () \<longrightarrow>
        (\<exists>d. redeem_live_handler ap now org viewer sid grant w1 =
           (Inr \<lparr>ll_session_id = sid, ll_url = rt_live_url rt, ll_expires_at = parse_timestamp (se_expires_at row)\<rparr>, w1\<lparr>w_db := d\<rparr>) \<and>
           is_session_actor sid (i_id viewer) d))"
proof -
  let ?text = "\<lambda>ses. ap_grant_text ap \<lparr>lg_version = 1, lg_org_id = org, lg_session_id = s_id ses, lg_expires_at = s_expires_at ses\<rparr>"
  from assms(4) obtain ses grant d0 where get: "session_get org actor sid (w_db w) = (Inr ses, d0)"
    and seal: "seal_for (ap_box ap) nonce (live_grant_context org sid) (?text ses) = Inr grant"
    and w1: "w1 = w\<lparr>w_db := d0\<rparr>"
    and link: "link = \<lparr>ll_session_id = s_id ses,
         ll_url = ap_public_origin ap @ lit ''/sessions/'' @ sid @ lit ''/live#grant='' @ grant,
         ll_expires_at = s_expires_at ses\<rparr>"
    by (auto simp: live_session_handler_def bindA_def from_store_Inr map_err_def split: prod.splits sum.splits if_splits)
  have d0: "d0 = w_db w" using snd_read [OF keeps_reads(8)] get by (metis snd_conv)
  from get have m: "map_session row (w_db w) = (Inr ses, w_db w)"
    unfolding d0 by (auto simp: session_get_def session_row_of_def assms(5) split: if_splits)
  have whole: "session_unchecked org sid (w_db w) = (Inr ses, w_db w)"
    by (simp add: session_unchecked_def session_row_of_def assms(5) bindS_def m)
  from session_unchecked_row [OF whole] assms(5) have s: "s_id ses = sid" "s_expires_at ses = parse_timestamp (se_expires_at row)"
    by auto
  have opens: "open_for (ap_box ap) (live_grant_context org sid) grant = Inr (?text ses)"
    by (rule seal_open [OF assms(1,2) seal])
  have early: "now < parse_timestamp (se_expires_at row)" using assms(8) link s by simp
  from associate_then_runtime [OF assms(5,6) early assms(9) m assms(7)] obtain b d where
    a: "associate_participant org sid (i_id viewer) Viewer now (w_db w) = (Inr b, d)" "is_session_actor sid (i_id viewer) d"
    "get_provider_runtime (ap_box ap) org viewer sid d = (Inr rt, d)" by blast
  have "redeem_live_handler ap now org viewer sid grant w1 =
     (Inr \<lparr>ll_session_id = sid, ll_url = rt_live_url rt, ll_expires_at = parse_timestamp (se_expires_at row)\<rparr>, w1\<lparr>w_db := d\<rparr>)"
    if "live_redeem_validate grant = Inr ()"
    using that opens assms(3) early a
    by (simp add: redeem_live_handler_def bindA_def w1 d0 s from_store_def map_errA_def in_store_def)
  with link a(2) show ?thesis by auto
qed

theorem live_link_roundtrip_witness:
  "\<exists>link grant. fst (live_session_handler sample_app (replicate 12 7) [111] alice [115] sample_started) = Inr link \<and>
     ll_url link = ap_public_origin sample_app @ lit ''/sessions/'' @ [115] @ lit ''/live#grant='' @ grant"
proof -
  obtain ses where s: "session_unchecked [111] [115] sample_db3 = (Inr ses, sample_db3)" using sample_read by blast
  from session_unchecked_row [OF s] have ses: "s_status ses = SActive" "s_expires_at ses = 900000000000"
    by (auto simp: sample_found3 sample_session parse_timestamp_def sample_due)
  have ctx: "validate_context (live_grant_context [111] [115]) = Inr ()"
    by (simp add: validate_context_def live_grant_context_def str_simps)
  have enc: "sb_encrypt plain_box n m a = Some (length a # a @ m)" for n m a by (simp add: plain_box_def)
  obtain grant where g: "seal_for plain_box (replicate 12 7) (live_grant_context [111] [115])
      (ap_grant_text sample_app \<lparr>lg_version = Suc 0, lg_org_id = [111], lg_session_id = s_id ses,
         lg_expires_at = 900000000000\<rparr>) = Inr grant"
    by (simp add: seal_for_def ctx enc)
  have "\<exists>link. live_session_handler sample_app (replicate 12 7) [111] alice [115] sample_started = (Inr link, sample_started) \<and>
      ll_expires_at link = 900000000000"
    by (simp add: live_session_handler_def bindA_def from_store_def map_errA_def in_store_def sample_started_def
        sample_visible s ses g)
  then obtain link where link: "live_session_handler sample_app (replicate 12 7) [111] alice [115] sample_started = (Inr link, sample_started)"
    "ll_expires_at link = 900000000000" by blast
  obtain rt where "runtime_from_row plain_box [111] [115] sample_active = Inr rt"
    using runtime_of_sealed [OF plain_box_laws(1) _ sample_seal, of sample_active]
    by (auto simp: sample_nonces_def sample_active_def sample_provider_def)
  moreover have "\<forall>g. ap_read_grant sample_app (ap_grant_text sample_app g) = Some g"
    by (simp add: sample_app_def plain_grant_text_def)
  moreover have "safe_id (i_id alice) ''actor_id'' = Inr ()" by (simp add: alice_def sample_texts)
  ultimately show ?thesis
    using live_link_roundtrip [OF _ _ _ link(1), of sample_active rt 0 alice] link(1,2)
    by (auto simp: plain_box_laws sample_started_def sample_found3 sample_session)
qed

section \<open>The retries of a recording lookup\<close>

text \<open>The events a claim owns are among given ones.\<close>

definition owned_within :: "source_claim \<Rightarrow> outbox_row set \<Rightarrow> db \<Rightarrow> bool" where
  "owned_within claim D db \<longleftrightarrow> {x \<in> set (db_outbox db). owns_event claim x} \<subseteq> D"

lemma owned_within_others [simp]:
  "keeps (owned_within claim D) (update_recordings P f)" "keeps (owned_within claim D) (update_sessions Q g)"
proof -
  show "keeps (owned_within claim D) (update_recordings P f)"
    by (simp add: keeps_def owned_within_def update_recordings_def)
  have "db_outbox (snd (update_sessions Q g db)) = db_outbox db" for db
    by (rule update_sessions_result [of Q g db]) simp_all
  then show "keeps (owned_within claim D) (update_sessions Q g)" by (simp add: keeps_def owned_within_def)
qed

lemma owned_within_done:
  "keeps (owned_within claim D) (update_outbox (owns_event claim) (\<lambda>x. x\<lparr>ob_done_at := Some t\<rparr>))"
  by (auto simp: keeps_def owned_within_def update_outbox_def update_where_def owns_event_def)

lemma owned_within_store_event:
  "ob_kind x = StoreEvent \<Longrightarrow> keeps (owned_within claim D) (insert_outbox x)"
  by (auto simp: keeps_def owned_within_def insert_outbox_def owns_event_def)

lemma owned_within_complete: "keeps (owned_within claim D) (complete_recording_source_resolution box nonce claim url now)"
  unfolding complete_recording_source_resolution_def
  by (intro keeps_rules owned_within_others owned_within_done owned_within_store_event) (simp add: pending_outbox_def)

lemma fail_resolution_outbox:
  "db_outbox (snd (fail_recording_source_resolution claim now db)) =
     update_where (owns_event claim) (\<lambda>x. x\<lparr>ob_done_at := Some (timestamp now)\<rparr>) (db_outbox db)"
proof (cases "affected (owns_event claim) (db_outbox db) = 0")
  case True
  then show ?thesis
    by (simp add: fail_recording_source_resolution_def atomically_def bindS_def update_outbox_def affected_zero update_where_id)
next
  case False
  then show ?thesis
    by (simp add: fail_recording_source_resolution_def atomically_def bindS_def update_outbox_def update_recordings_def)
qed

lemma fail_resolution_settles: "owned_within claim {} (snd (fail_recording_source_resolution claim now db))"
  by (auto simp: owned_within_def fail_resolution_outbox update_where_def owns_event_def)

text \<open>What a deferred event may look like: untouched, or put off within the bounds of the backoff.\<close>

definition put_off :: "source_claim \<Rightarrow> instant \<Rightarrow> outbox_row list \<Rightarrow> outbox_row set" where
  "put_off claim now rows =
     set rows \<union> (if cl_attempt claim < RECORDING_RECONCILIATION_MAX_ATTEMPTS
       then (\<lambda>x. x\<lparr>ob_next_attempt_at := timestamp (now + recording_reconciliation_backoff (cl_attempt claim))\<rparr>) ` set rows
       else {})"

lemma defer_events:
  "owned_within claim (put_off claim now (db_outbox (w_db w))) (w_db (defer_or_exhaust claim now w)) \<and>
   (RECORDING_RECONCILIATION_MAX_ATTEMPTS \<le> cl_attempt claim \<longrightarrow> owned_within claim {} (w_db (defer_or_exhaust claim now w))) \<and>
   w_provider (defer_or_exhaust claim now w) = w_provider w"
proof (cases "RECORDING_RECONCILIATION_MAX_ATTEMPTS \<le> cl_attempt claim")
  case True
  then have "w_db (defer_or_exhaust claim now w) = snd (fail_recording_source_resolution claim now (w_db w))"
    by (simp add: defer_or_exhaust_def in_store_def split: prod.split)
  with True fail_resolution_settles [of claim now "w_db w"] show ?thesis
    by (auto simp: owned_within_def defer_or_exhaust_def)
next
  case False
  then have "w_db (defer_or_exhaust claim now w) = (w_db w)\<lparr>db_outbox := update_where (owns_event claim)
      (\<lambda>x. x\<lparr>ob_next_attempt_at := timestamp (now + recording_reconciliation_backoff (cl_attempt claim))\<rparr>) (db_outbox (w_db w))\<rparr>"
    by (simp add: defer_or_exhaust_def in_store_def reschedule_recording_source_resolution_def update_outbox_def bindS_def)
  with False show ?thesis
    by (auto simp: owned_within_def put_off_def update_where_def defer_or_exhaust_def)
qed

lemma reconcile_events:
  fixes w :: "'p world"
  shows "owned_within claim (put_off claim now (db_outbox (w_db w))) (w_db (reconcile_recording_source ap nonce claim now w))"
proof -
  have start: "owned_within claim (put_off claim now (db_outbox (w_db w))) (w_db w)"
    by (auto simp: owned_within_def put_off_def)
  have fail: "owned_within claim D (snd (fail_recording_source_resolution claim now db))" for D db
    using fail_resolution_settles [of claim now db] by (auto simp: owned_within_def)
  obtain r w1 where g: "at_provider (ba_get_browser (ap_browser ap) (cl_provider_session_id claim)) w = (r, w1)"
    by (cases "at_provider (ba_get_browser (ap_browser ap) (cl_provider_session_id claim)) w")
  then have w1: "w_db w1 = w_db w" using db_at_provider by (metis snd_conv)
  have put: "owned_within claim (put_off claim now (db_outbox (w_db w))) (w_db (defer_or_exhaust claim now v))"
    if "w_db v = w_db w" for v :: "'p world" using defer_events [of claim now v] that by simp
  have db: "w_db (snd (in_store m v)) = snd (m (w_db v))" for m :: "(db, bool) st" and v :: "'p world"
    by (simp add: in_store_def split: prod.split)
  show ?thesis
    using keepsD [OF owned_within_complete start] w1 g
    by (auto simp: reconcile_recording_source_def put fail db split: sum.split option.split)
qed

section \<open>Lookups over a history\<close>

text \<open>The event of a lookup, with at least so many attempts counted: no method loses it.\<close>

definition event_at :: "str \<Rightarrow> nat \<Rightarrow> db \<Rightarrow> bool" where
  "event_at sid n db \<longleftrightarrow>
     (\<exists>x \<in> set (db_outbox db). ob_kind x = ResolveEvent \<and> ob_session_id x = sid \<and> int n \<le> ob_attempts x)"

lemma event_at_update: "event_kept f \<Longrightarrow> keeps (event_at sid n) (update_outbox P f)"
  unfolding keeps_def event_at_def
proof (intro allI impI)
  fix db :: db assume kept: "event_kept f" and "\<exists>x \<in> set (db_outbox db). ob_kind x = ResolveEvent \<and> ob_session_id x = sid \<and> int n \<le> ob_attempts x"
  then obtain x where x: "x \<in> set (db_outbox db)" "ob_kind x = ResolveEvent" "ob_session_id x = sid" "int n \<le> ob_attempts x"
    by blast
  let ?y = "if P x then f x else x"
  have "?y \<in> set (db_outbox (snd (update_outbox P f db)))"
    using update_where_mem [OF x(1), of P f] by (simp add: update_outbox_def)
  moreover have "ob_kind ?y = ResolveEvent \<and> ob_session_id ?y = sid \<and> int n \<le> ob_attempts ?y"
    using kept [unfolded event_kept_def, rule_format, of x] x(2-4) by simp
  ultimately show "\<exists>y \<in> set (db_outbox (snd (update_outbox P f db))). ob_kind y = ResolveEvent \<and> ob_session_id y = sid \<and> int n \<le> ob_attempts y"
    by blast
qed

lemma event_at_others [simp]:
  "keeps (event_at sid n) (update_recordings R g)" "keeps (event_at sid n) (update_sessions S h)"
  "keeps (event_at sid n) (insert_outbox ob)" "keeps (event_at sid n) (write_usage_row us)"
  "keeps (event_at sid n) (update_profiles T k)" "keeps (event_at sid n) (insert_profile row)"
  "keeps (event_at sid n) (map_profile_write (update_profiles T k))"
  "keeps (event_at sid n) (insert_session org request srow)"
  by (auto simp: keeps_def event_at_def update_recordings_def update_sessions_def insert_outbox_def write_usage_row_def
      write_sessions_def update_profiles_def insert_profile_def map_profile_write_def write_profiles_def insert_session_def
      bindS_def split: prod.splits sum.splits option.splits)

lemma event_at_reserve: "keeps (event_at sid n) (reserve_session fresh org initiator request now)"
  unfolding reserve_session_def profile_ready_def Let_def
  by (intro keeps_rules keeps_reads keeps_modifyS event_at_others) (simp add: event_at_def insert_session_side_rows_def)

lemma event_at_participant: "keeps (event_at sid n) (associate_participant org sid' actor role now)"
  unfolding associate_participant_def Let_def
  by (intro keeps_rules keeps_reads) (auto simp: keeps_def event_at_def)

lemma event_at_snapshot: "keeps (event_at sid n) (record_usage_snapshot org' sid' sample final)"
  unfolding record_usage_snapshot_def
  by (intro keeps_rules event_at_others keeps_reads) (auto split: usage_verdict.split)

lemma event_at_claim_expired: "keeps (event_at sid n) (claim_expired_sessions box lease now until limit)"
  unfolding claim_expired_sessions_def by (intro keeps_rules event_at_others)

lemma event_at_profile_methods:
  "keeps (event_at sid n) (reserve_profile api fresh org owner request now)"
  "keeps (event_at sid n) (activate_profile org pid provider print)"
  "keeps (event_at sid n) (fail_profile org pid reason now)"
  "keeps (event_at sid n) (store_create_profile api fresh org owner request provider print now)"
  "keeps (event_at sid n) (update_profile api org actor pid patch)"
  "keeps (event_at sid n) (end_profile org actor pid note now)"
  unfolding reserve_profile_def activate_profile_def fail_profile_def store_create_profile_def update_profile_def
    end_profile_def Let_def
  by (intro keeps_rules event_at_others keeps_reads)+

lemma event_at_session_methods:
  "keeps (event_at sid n) (activate_session box nonce org sid' provider now)"
  "keeps (event_at sid n) (retain_session_runtime box nonce org sid' provider reason)"
  "keeps (event_at sid n) (fail_session org sid' reason now)"
  "keeps (event_at sid n) (finalize_failed_session_after_stop org sid' f)"
  "keeps (event_at sid n) (begin_end_session box org actor sid' note)"
  "keeps (event_at sid n) (finalize_end_session org sid' now)"
  "keeps (event_at sid n) (finalize_expired_session org sid' lease now)"
  "keeps (event_at sid n) (release_expired_claim org sid' lease)"
  "keeps (event_at sid n) (remember_provider_recording_url box nonce org sid' u)"
  unfolding activate_session_def retain_session_runtime_def fail_session_def finalize_failed_session_after_stop_def
    begin_end_session_def finalize_end_session_def finalize_expired_session_def remember_provider_recording_url_def
    release_expired_claim_def fail_recording_of_def pend_recording_of_def
  by (intro keeps_rules event_at_others keeps_reads)+

lemma event_at_recording_methods:
  "keeps (event_at sid n) (queue_recording_source_resolution parse err org sid' ms now)"
  "keeps (event_at sid n) (claim_recording_source_resolutions now until limit)"
  "keeps (event_at sid n) (reschedule_recording_source_resolution claim next)"
  "keeps (event_at sid n) (complete_recording_source_resolution box nonce claim u now)"
  "keeps (event_at sid n) (fail_recording_source_resolution claim now)"
  "keeps (event_at sid n) (mark_recording_pending parse err org sid' ms sz now)"
  "keeps (event_at sid n) (mark_recording_failed parse err org sid' ms now)"
  "keeps (event_at sid n) (trash_recording parse err box org actor sid' now)"
  unfolding queue_recording_source_resolution_def claim_recording_source_resolutions_def
    reschedule_recording_source_resolution_def complete_recording_source_resolution_def
    fail_recording_source_resolution_def mark_recording_pending_def mark_recording_failed_def trash_recording_def
    finish_event_def
  by (intro keeps_rules event_at_others event_at_update keeps_reads; simp add: event_kept_def)+

lemmas event_at_methods = event_at_reserve event_at_participant event_at_snapshot event_at_claim_expired
  event_at_profile_methods event_at_session_methods event_at_recording_methods

lemma event_at_exec: "keeps (event_at sid n) (exec_store v e)"
  by (cases e) (simp_all add: keeps_void event_at_methods record_usage_def record_terminal_usage_def)

lemma event_at_reconcile:
  assumes "event_at sid n (w_db w)"
  shows "event_at sid n (w_db (reconcile_recording_source ap nonce claim now w))"
proof -
  have put_off: "keepsA (\<lambda>w. event_at sid n (w_db w)) (\<lambda>w. (r, defer_or_exhaust claim now w))" for r :: unit
    unfolding defer_or_exhaust_def if_distrib [of "Pair r"]
    by (intro keepsA_cond keepsA_snd keepsA_rules event_at_methods)
  have "keepsA (\<lambda>w. event_at sid n (w_db w)) (\<lambda>w. ((), reconcile_recording_source ap nonce claim now w))"
    unfolding reconcile_recording_source_def if_distrib [of "Pair ()"] prod.case_distrib [of "Pair ()"]
      sum.case_distrib [of "Pair ()"] option.case_distrib [of "Pair ()"]
    by (intro keepsA_cond keepsA_step keepsA_sum keepsA_option put_off keepsA_snd keepsA_rules event_at_methods)
  from keepsAD [OF this assms] show ?thesis by simp
qed

lemma traverseE_keys: "traverseE f xs = Inr ys \<Longrightarrow> (\<And>x y. f x = Inr y \<Longrightarrow> g y = h x) \<Longrightarrow> map g ys = map h xs"
  by (induction xs arbitrary: ys) (auto split: sum.splits)

text \<open>What a claim hands out: one claim per event, numbered one above the attempts counted before.\<close>

lemma lookup_claims:
  assumes "claim_recording_source_resolutions now until limit db = (Inr claims, db')" "db_inv db"
  shows "distinct (map cl_session_id claims)"
    "\<forall>c \<in> set claims. event_at (cl_session_id c) (cl_attempt c) db' \<and> 0 < cl_attempt c \<and>
       \<not> event_at (cl_session_id c) (cl_attempt c) db"
proof -
  let ?f = "\<lambda>x. x\<lparr>ob_attempts := ob_attempts x + 1, ob_next_attempt_at := timestamp until\<rparr>"
  have "\<exists>chosen n. event_selection db now limit = chosen \<and>
      update_outbox (\<lambda>x. ob_kind x = ResolveEvent \<and> ob_session_id x \<in> set chosen) ?f db = (Inr n, db') \<and>
      traverseE (claim_of_event db') (filter (\<lambda>x. ob_kind x = ResolveEvent \<and> ob_session_id x \<in> set chosen) (db_outbox db')) = Inr claims"
    using assms(1) unfolding claim_recording_source_resolutions_def Inr_iffs sum.inject
    by (elim exE conjE disjE; hypsubst?; blast)
  then obtain n where up: "update_outbox (\<lambda>x. ob_kind x = ResolveEvent \<and> ob_session_id x \<in> set (event_selection db now limit)) ?f db = (Inr n, db')"
    and tr: "traverseE (claim_of_event db') (filter (\<lambda>x. ob_kind x = ResolveEvent \<and>
        ob_session_id x \<in> set (event_selection db now limit)) (db_outbox db')) = Inr claims" by blast
  let ?P = "\<lambda>x. ob_kind x = ResolveEvent \<and> ob_session_id x \<in> set (event_selection db now limit)"
  have out: "db_outbox db' = update_where ?P ?f (db_outbox db)" using up by (auto simp: update_outbox_def)
  have cc: "cl_session_id c = ob_session_id y \<and> int (cl_attempt c) = ob_attempts y"
    if "claim_of_event db' y = Inr c" for y c
    using that by (auto simp: claim_of_event_def dest!: select_one_Some)
  have inv': "db_inv db'"
    using keepsD [OF keeps_claim_resolutions [of db now until limit] store_goodI [OF assms(2)]] assms(1)
    by (simp add: store_good_def)
  have "map cl_session_id claims = map ob_session_id (filter ?P (db_outbox db'))"
    by (rule traverseE_keys [OF tr]) (rule cc [THEN conjunct1])
  moreover have "distinct (map ob_session_id (filter ?P (db_outbox db')))"
  proof -
    have "distinct (map (\<lambda>x. (ob_kind x, ob_session_id x)) (filter ?P (db_outbox db')))"
      using inv' by (intro distinct_map_filter) (simp add: db_inv_def outbox_ok_def)
    then show ?thesis by (auto simp: distinct_map inj_on_def)
  qed
  ultimately show "distinct (map cl_session_id claims)" by simp
  show "\<forall>c \<in> set claims. event_at (cl_session_id c) (cl_attempt c) db' \<and> 0 < cl_attempt c \<and>
       \<not> event_at (cl_session_id c) (cl_attempt c) db"
  proof
    fix c assume "c \<in> set claims"
    from traverseE_mem [OF tr this] obtain y where y: "y \<in> set (db_outbox db')" "?P y" "claim_of_event db' y = Inr c" by auto
    obtain x where x: "x \<in> set (db_outbox db)" "y = (if ?P x then ?f x else x)"
      using y(1) unfolding out by (rule in_update_where)
    then have key: "ob_kind y = ob_kind x" "ob_session_id y = ob_session_id x" by simp_all
    with x(2) y(2) have yf: "y = ?f x" by simp
    have pos: "0 \<le> ob_attempts x" using assms(2) x(1) by (simp add: db_inv_def outbox_ok_def list_all_iff)
    have "z = x" if "z \<in> set (db_outbox db)" "ob_kind z = ResolveEvent" "ob_session_id z = cl_session_id c" for z
      by (rule outbox_key [OF assms(2) that(1) x(1)]) (use that y(2) key cc [OF y(3)] in auto)
    then have single: "z = x" if "z \<in> set (db_outbox db)" "ob_kind z = ResolveEvent" "ob_session_id z = cl_session_id c" for z
      using that by blast
    have n: "int (cl_attempt c) = ob_attempts x + 1" "cl_session_id c = ob_session_id y" using cc [OF y(3)] yf by simp_all
    have "event_at (cl_session_id c) (cl_attempt c) db'"
      unfolding event_at_def by (rule bexI [OF _ y(1)]) (use y(2) n yf in simp)
    moreover have "\<not> event_at (cl_session_id c) (cl_attempt c) db"
      unfolding event_at_def using single n(1) by fastforce
    ultimately show "event_at (cl_session_id c) (cl_attempt c) db' \<and> 0 < cl_attempt c \<and> \<not> event_at (cl_session_id c) (cl_attempt c) db"
      using n(1) pos by simp
  qed
qed

text \<open>Lookups next to everything else the store does. Beside the world are kept the claims handed out and
  not worked on yet, and the claims with which the provider was asked, once per call. A claim taken by
  a worker that crashes stays open for ever; a process may answer an open claim at any later time;
  the provider moves on as it likes.\<close>

record 'p lookups =
  lo_world :: "'p world"
  lo_open :: "source_claim list"
  lo_asked :: "source_claim list"

datatype 'p lookup_event =
    StoreCall store_op
  | TakeLookups instant instant nat
  | AnswerLookup nonces source_claim instant
  | ProviderMoves 'p

definition exec_lookups ::
  "'u store_env \<Rightarrow> ('v, 'p) app_state \<Rightarrow> ('p \<Rightarrow> nat) \<Rightarrow> 'p lookup_event \<Rightarrow> 'p lookups \<Rightarrow> 'p lookups" where
  "exec_lookups v ap calls e s =
     (let w = lo_world s in
      case e of
        StoreCall op \<Rightarrow> s\<lparr>lo_world := w\<lparr>w_db := snd (exec_store v op (w_db w))\<rparr>\<rparr>
      | TakeLookups now until limit \<Rightarrow>
          (case claim_recording_source_resolutions now until limit (w_db w) of
             (Inl _, d) \<Rightarrow> s\<lparr>lo_world := w\<lparr>w_db := d\<rparr>\<rparr>
           | (Inr claims, d) \<Rightarrow> s\<lparr>lo_world := w\<lparr>w_db := d\<rparr>, lo_open := lo_open s @ claims\<rparr>)
      | AnswerLookup nonce claim now \<Rightarrow>
          if claim \<notin> set (lo_open s) then s
          else
          let w' = reconcile_recording_source ap nonce claim now w in
          s\<lparr>lo_world := w', lo_open := remove1 claim (lo_open s),
             lo_asked := lo_asked s @ replicate (calls (w_provider w') - calls (w_provider w)) claim\<rparr>
      | ProviderMoves p \<Rightarrow> s\<lparr>lo_world := w\<lparr>w_provider := p\<rparr>\<rparr>)"

definition lookup_step ::
  "'u store_env \<Rightarrow> ('v, 'p) app_state \<Rightarrow> ('p \<Rightarrow> nat) \<Rightarrow> 'p lookup_event \<Rightarrow> 'p lookups \<Rightarrow> 'p lookups \<Rightarrow> bool" where
  "lookup_step v ap calls e s s' \<longleftrightarrow> s' = exec_lookups v ap calls e s"

definition lookups_start :: "'p lookups \<Rightarrow> bool" where
  "lookups_start s \<longleftrightarrow> db_inv (w_db (lo_world s)) \<and> lo_open s = [] \<and> lo_asked s = []"

text \<open>A law that only says what \<open>calls\<close> counts.\<close>

definition counts_lookups :: "'p browser_api \<Rightarrow> ('p \<Rightarrow> nat) \<Rightarrow> bool" where
  "counts_lookups api calls \<longleftrightarrow> (\<forall>rid p. calls (snd (ba_get_browser api rid p)) = Suc (calls p))"

abbreviation claim_key :: "source_claim \<Rightarrow> str \<times> nat" where
  "claim_key c \<equiv> (cl_session_id c, cl_attempt c)"

definition lookups_counted :: "'p lookups \<Rightarrow> bool" where
  "lookups_counted s \<longleftrightarrow> db_inv (w_db (lo_world s)) \<and> distinct (map claim_key (lo_open s @ lo_asked s)) \<and>
     (\<forall>c \<in> set (lo_open s @ lo_asked s). 0 < cl_attempt c \<and> event_at (cl_session_id c) (cl_attempt c) (w_db (lo_world s))) \<and>
     (\<forall>c \<in> set (lo_asked s). cl_attempt c \<le> RECORDING_RECONCILIATION_MAX_ATTEMPTS)"

lemma reconcile_asks:
  assumes "counts_lookups (ap_browser ap) calls"
  shows "calls (w_provider (reconcile_recording_source ap nonce claim now w)) - calls (w_provider w) =
     (if RECORDING_RECONCILIATION_MAX_ATTEMPTS < cl_attempt claim then 0 else 1)"
proof -
  have put: "w_provider (defer_or_exhaust claim now v) = w_provider v" for v :: "'p world" using defer_events by blast
  have asked: "calls (w_provider (snd (at_provider (ba_get_browser (ap_browser ap) rid) w))) = Suc (calls (w_provider w))" for rid
    using assms by (simp add: counts_lookups_def at_provider_def split: prod.split) (metis snd_conv)
  obtain r w1 where g: "at_provider (ba_get_browser (ap_browser ap) (cl_provider_session_id claim)) w = (r, w1)"
    by (cases "at_provider (ba_get_browser (ap_browser ap) (cl_provider_session_id claim)) w")
  with asked [of "cl_provider_session_id claim"] have "calls (w_provider w1) = Suc (calls (w_provider w))" by simp
  with g show ?thesis by (simp add: reconcile_recording_source_def put split: sum.split option.split)
qed

lemma reconcile_inv: "db_inv (w_db w) \<Longrightarrow> db_inv (w_db (reconcile_recording_source ap nonce claim now w))"
  using keepsAD [OF keepsA_reconcile_recording, of "w_db w" w "()" ap nonce claim now] by (simp add: store_good_def store_goodI)

lemma counted_later:
  assumes "lookups_counted s" "db_inv d" "\<And>sid n. event_at sid n (w_db (lo_world s)) \<Longrightarrow> event_at sid n d"
    and "w_db w = d"
  shows "lookups_counted (s\<lparr>lo_world := w\<rparr>)"
  using assms by (simp add: lookups_counted_def)

lemma lookups_counted_step:
  assumes "counts_lookups (ap_browser ap) calls" "lookups_counted s"
  shows "lookups_counted (exec_lookups v ap calls e s)"
proof (cases e)
  case (StoreCall op)
  have inv: "db_inv (snd (exec_store v op (w_db (lo_world s))))"
    using store.step_inv [of v op] assms(2) by (simp add: store_step_def lookups_counted_def)
  have "event_at sid n (w_db (lo_world s)) \<Longrightarrow> event_at sid n (snd (exec_store v op (w_db (lo_world s))))" for sid n
    by (rule keepsD [OF event_at_exec])
  from counted_later [OF assms(2) inv this, of "lo_world s\<lparr>w_db := snd (exec_store v op (w_db (lo_world s)))\<rparr>"] StoreCall
  show ?thesis by (simp add: exec_lookups_def Let_def)
next
  case (TakeLookups now until limit)
  let ?db = "w_db (lo_world s)"
  obtain r d where c: "claim_recording_source_resolutions now until limit ?db = (r, d)" by fastforce
  have inv: "db_inv ?db" using assms(2) by (simp add: lookups_counted_def)
  have d: "db_inv d" using keepsD [OF keeps_claim_resolutions store_goodI [OF inv]] c by (metis snd_conv store_good_def)
  have later: "event_at sid n ?db \<Longrightarrow> event_at sid n d" for sid n
    using keepsD [OF event_at_recording_methods(2)] c by (metis snd_conv)
  show ?thesis
  proof (cases r)
    case (Inl x)
    with TakeLookups c counted_later [OF assms(2) d later] show ?thesis by (simp add: exec_lookups_def)
  next
    case (Inr claims)
    note new = lookup_claims [OF c [unfolded Inr] inv]
    have "distinct (map claim_key claims)" using new(1) by (auto simp: distinct_map inj_on_def)
    moreover have "False" if "c \<in> set claims" "o' \<in> set (lo_open s) \<union> set (lo_asked s)"
        "cl_session_id o' = cl_session_id c" "cl_attempt o' = cl_attempt c" for c o'
      using new(2) that assms(2) unfolding lookups_counted_def by (metis set_append)
    ultimately show ?thesis
      using TakeLookups c Inr assms(2) d later new(2)
      by (auto simp: exec_lookups_def lookups_counted_def)
  qed
next
  case (AnswerLookup nonce claim now)
  show ?thesis
  proof (cases "claim \<in> set (lo_open s)")
    case True
    let ?w = "reconcile_recording_source ap nonce claim now (lo_world s)"
    obtain xs ys where "lo_open s = xs @ claim # ys" "claim \<notin> set xs" using split_list_first [OF True] by blast
    then have "distinct (map claim_key (remove1 claim (lo_open s) @ lo_asked s @ [claim]))"
      using assms(2) by (auto simp: lookups_counted_def remove1_append)
    then have keys: "distinct (map claim_key (remove1 claim (lo_open s) @ lo_asked s @ [claim]))" by blast
    have events: "0 < cl_attempt c \<and> event_at (cl_session_id c) (cl_attempt c) (w_db ?w)"
      if "c \<in> set (lo_open s) \<union> set (lo_asked s)" for c
      using that assms(2) event_at_reconcile [of "cl_session_id c" "cl_attempt c" "lo_world s"]
      by (auto simp: lookups_counted_def)
    have within: "c \<in> set (remove1 claim (lo_open s)) \<Longrightarrow> c \<in> set (lo_open s)" for c
      using set_remove1_subset by (rule subsetD)
    have asked: "\<forall>c \<in> set (lo_asked s). cl_attempt c \<le> RECORDING_RECONCILIATION_MAX_ATTEMPTS"
      using assms(2) by (simp add: lookups_counted_def)
    have "db_inv (w_db ?w)" by (rule reconcile_inv) (use assms(2) in \<open>simp add: lookups_counted_def\<close>)
    show ?thesis
    proof (cases "RECORDING_RECONCILIATION_MAX_ATTEMPTS < cl_attempt claim")
      case late: True
      with True AnswerLookup have "exec_lookups v ap calls e s = s\<lparr>lo_world := ?w, lo_open := remove1 claim (lo_open s)\<rparr>"
        by (simp add: exec_lookups_def Let_def reconcile_asks [OF assms(1)])
      with keys events within asked \<open>db_inv (w_db ?w)\<close> show ?thesis by (simp add: lookups_counted_def) blast
    next
      case False
      with True AnswerLookup have "exec_lookups v ap calls e s =
          s\<lparr>lo_world := ?w, lo_open := remove1 claim (lo_open s), lo_asked := lo_asked s @ [claim]\<rparr>"
        by (simp add: exec_lookups_def Let_def reconcile_asks [OF assms(1)])
      with keys events within asked False True \<open>db_inv (w_db ?w)\<close> show ?thesis
        unfolding lookups_counted_def by simp blast
    qed
  qed (use AnswerLookup assms(2) in \<open>simp add: exec_lookups_def\<close>)
next
  case (ProviderMoves p)
  with assms(2) show ?thesis by (simp add: exec_lookups_def lookups_counted_def)
qed

lemma lookups_start_counted: "lookups_start s \<Longrightarrow> lookups_counted s"
  by (simp add: lookups_start_def lookups_counted_def)

interpretation lookup_history: step_system lookups_start "lookup_step v ap calls"
    "\<lambda>s. counts_lookups (ap_browser ap) calls \<longrightarrow> lookups_counted s"
  for v :: "'u store_env" and ap :: "('v, 'p) app_state" and calls
  by unfold_locales
     (auto simp only: lookup_step_def lookups_start_counted lookups_counted_step)

lemma asked_at_most:
  assumes "lookups_counted s"
  shows "length (filter (\<lambda>c. cl_session_id c = sid) (lo_asked s)) \<le> RECORDING_RECONCILIATION_MAX_ATTEMPTS"
proof -
  let ?asked = "filter (\<lambda>c. cl_session_id c = sid) (lo_asked s)"
  have "distinct (map claim_key (lo_asked s))" using assms by (simp add: lookups_counted_def)
  then have "distinct (map claim_key ?asked)" by (rule distinct_map_filter)
  then have "distinct (map cl_attempt ?asked)" by (auto simp: distinct_map inj_on_def)
  then have "length ?asked = card (cl_attempt ` set ?asked)" by (metis distinct_card length_map set_map)
  also have "\<dots> \<le> card {1..RECORDING_RECONCILIATION_MAX_ATTEMPTS}"
    using assms by (intro card_mono) (auto simp: lookups_counted_def Suc_le_eq)
  finally show ?thesis by simp
qed

lemma backoff_exact:
  "recording_reconciliation_backoff n = min (15 * 2 ^ (n - 1)) 300 * NANOS_PER_SECOND"
proof (cases "n - 1 \<le> 5")
  case True
  then show ?thesis
    by (simp add: recording_reconciliation_backoff_def RECORDING_SOURCE_INITIAL_DELAY_def NANOS_PER_SECOND_def min_def)
next
  case False
  then have "(2 :: int) ^ 5 \<le> 2 ^ (n - 1)" by (intro power_increasing) simp_all
  with False show ?thesis
    by (simp add: recording_reconciliation_backoff_def RECORDING_SOURCE_INITIAL_DELAY_def NANOS_PER_SECOND_def min_def)
qed

text \<open>C20: a lookup is not retried without end. Over any history of the store, of workers that take
  lookups and answer or lose them, and of the provider, the provider is asked for the recording of
  a session at most ten times. A claim past the tenth attempt settles its event; an event is put off
  only before the tenth attempt, and then by fifteen seconds doubled for every attempt before, at
  most five minutes.\<close>

theorem recording_retries_bounded:
  assumes "counts_lookups (ap_browser ap) calls" "lookups_start s0" "run (lookup_step v ap calls) s0 es s"
    and "w' = reconcile_recording_source ap nonce claim now w"
  shows "length (filter (\<lambda>c. cl_session_id c = sid) (lo_asked s)) \<le> 10 \<and>
     (10 < cl_attempt claim \<longrightarrow> (\<forall>y \<in> set (db_outbox (w_db w')). \<not> owns_event claim y)) \<and>
     (\<forall>y \<in> set (db_outbox (w_db w')). owns_event claim y \<longrightarrow> y \<in> set (db_outbox (w_db w)) \<or>
        cl_attempt claim < 10 \<and>
        ob_next_attempt_at y = timestamp (now + min (15 * 2 ^ (cl_attempt claim - 1)) 300 * NANOS_PER_SECOND))"
proof (intro conjI impI ballI)
  have "lookups_counted s" using lookup_history.reachable_inv [OF assms(2,3)] assms(1) by blast
  from asked_at_most [OF this, of sid] show "length (filter (\<lambda>c. cl_session_id c = sid) (lo_asked s)) \<le> 10"
    by (simp add: RECORDING_RECONCILIATION_MAX_ATTEMPTS_def)
next
  fix y assume late: "10 < cl_attempt claim" and y: "y \<in> set (db_outbox (w_db w'))"
  then have "w' = defer_or_exhaust claim now w"
    by (simp add: assms(4) reconcile_recording_source_def RECORDING_RECONCILIATION_MAX_ATTEMPTS_def)
  with y late defer_events [of claim now w] show "\<not> owns_event claim y"
    by (auto simp: owned_within_def RECORDING_RECONCILIATION_MAX_ATTEMPTS_def)
next
  fix y assume "y \<in> set (db_outbox (w_db w'))" "owns_event claim y"
  with reconcile_events [of claim now w ap nonce] assms(4) have "y \<in> put_off claim now (db_outbox (w_db w))"
    by (auto simp: owned_within_def)
  then show "y \<in> set (db_outbox (w_db w)) \<or> cl_attempt claim < 10 \<and>
        ob_next_attempt_at y = timestamp (now + min (15 * 2 ^ (cl_attempt claim - 1)) 300 * NANOS_PER_SECOND)"
    by (auto simp: put_off_def backoff_exact RECORDING_RECONCILIATION_MAX_ATTEMPTS_def split: if_splits)
qed

definition sample_counting :: "(unit, str list) app_state" where
  "sample_counting = sample_app\<lparr>ap_browser := fake_api\<lparr>ba_get_browser := \<lambda>rid p. (Inr (fake_browser rid True), rid # p)\<rparr>\<rparr>"

definition sample_lookup :: source_claim where
  "sample_lookup = \<lparr>cl_org_id = [111], cl_session_id = [115], cl_provider_session_id = [118], cl_attempt = 1\<rparr>"

theorem recording_retries_bounded_witness:
  "\<exists>s. run (lookup_step sample_env sample_counting length)
        \<lparr>lo_world = \<lparr>w_db = sample_db4, w_provider = []\<rparr>, lo_open = [], lo_asked = []\<rparr>
        [TakeLookups 20000000000 30000000000 8, AnswerLookup sample_nonces sample_lookup 0] s \<and>
      lo_asked s = [sample_lookup] \<and> length (filter (\<lambda>c. cl_session_id c = [115]) (lo_asked s)) \<le> 10"
proof -
  let ?s0 = "\<lparr>lo_world = \<lparr>w_db = sample_db4, w_provider = [] :: str list\<rparr>, lo_open = [], lo_asked = []\<rparr>"
  let ?e1 = "TakeLookups 20000000000 30000000000 8 :: str list lookup_event"
  let ?e2 = "AnswerLookup sample_nonces sample_lookup 0 :: str list lookup_event"
  let ?exec = "exec_lookups sample_env sample_counting length"
  have counts: "counts_lookups (ap_browser sample_counting) length" by (simp add: counts_lookups_def sample_counting_def)
  have start: "lookups_start ?s0"
    using store.reachable_inv [OF refl sample_fail_run] by (simp add: lookups_start_def)
  have "run (lookup_step sample_env sample_counting length) ?s0 ([] @ [?e1]) (?exec ?e1 ?s0)"
    by (rule run_snoc [OF run_nil]) (simp add: lookup_step_def)
  then have "run (lookup_step sample_env sample_counting length) ?s0 (([] @ [?e1]) @ [?e2]) (?exec ?e2 (?exec ?e1 ?s0))"
    by (rule run_snoc) (simp add: lookup_step_def)
  then have r: "run (lookup_step sample_env sample_counting length) ?s0 [?e1, ?e2] (?exec ?e2 (?exec ?e1 ?s0))" by simp
  have "?exec ?e1 ?s0 = ?s0\<lparr>lo_world := \<lparr>w_db = sample_db4\<lparr>db_outbox := [sample_event 1 30000]\<rparr>, w_provider = []\<rparr>,
      lo_open := [sample_lookup]\<rparr>"
    by (simp add: exec_lookups_def sample_lookup_claim sample_lookup_def)
  then have asked: "lo_asked (?exec ?e2 (?exec ?e1 ?s0)) = [sample_lookup]"
    using reconcile_asks [OF counts, of sample_nonces sample_lookup 0
        "\<lparr>w_db = sample_db4\<lparr>db_outbox := [sample_event 1 30000]\<rparr>, w_provider = []\<rparr>"]
    by (simp add: exec_lookups_def Let_def sample_lookup_def RECORDING_RECONCILIATION_MAX_ATTEMPTS_def)
  from recording_retries_bounded [OF counts start r refl, of "[115]"] r asked show ?thesis by blast
qed

end
