(* ===== verification/SB_Identity.thy ===== *)
theory SB_Identity
  imports SB_Api
begin

text \<open>
  Identities as Silicon Accounts asserts them (\<open>src/crates/backend/src/auth.rs\<close>): the principal,
  the errors of the identity provider and their conversion to failures of the API
  (\<open>src/crates/backend/src/server.rs\<close>), the syntax of tokens, and the checks on the claims of an
  introspection.
\<close>

section \<open>Principals and errors\<close>

abbreviation WORKSPACE :: str where "WORKSPACE \<equiv> lit ''browser''"

record principal_identity =
  pr_principal_id :: str
  pr_public_id :: "str option"
  pr_tags :: "str list option"
  pr_scopes :: "str list"
  pr_kind :: identity_kind
  pr_membership_id :: str
  pr_authorization_epoch :: int
  pr_expires_at :: instant

record exchanged_auth =
  xa_access_token :: str
  xa_refresh_token :: str
  xa_identity :: principal_identity
  xa_scope :: str

record code_exchange_request =
  cx_code :: str
  cx_redirect_uri :: str
  cx_code_verifier :: str

datatype identity_capability = RevokeApplicationToken | HostedSignIn

datatype upstream_kind = RateLimited | Unavailable | TransportFailed | InvalidAnswer

text \<open>\<open>IdentityError\<close>; a duration in nanoseconds stands for \<open>retry_after\<close>.\<close>

datatype identity_error =
    IUnauthenticated
  | IForbidden
  | ICapability identity_capability
  | IInvalidInput string string
  | IRejected nat str "str option"
  | IUpstream upstream_kind "str option" "nat option"
  | IContract string string

definition input :: "string \<Rightarrow> string \<Rightarrow> identity_error" where
  "input field reason = IInvalidInput field reason"

definition contract :: "string \<Rightarrow> string \<Rightarrow> identity_error" where
  "contract operation reason = IContract operation reason"

definition upstream :: "upstream_kind \<Rightarrow> identity_error" where
  "upstream kind = IUpstream kind None None"

text \<open>\<open>impl From<IdentityError> for ApiFailure\<close>. Its diagnostics go to the log only.\<close>

fun identity_failure :: "identity_error \<Rightarrow> api_failure" where
  "identity_failure IUnauthenticated = unauthenticated"
| "identity_failure IForbidden = forbidden_failure ''this account is not authorized for Browser''"
| "identity_failure (ICapability _) =
     api_failure_new 501 ''identity_capability_unavailable''
       (lit ''Accounts cannot provide that identity operation for this token'')"
| "identity_failure (IInvalidInput field reason) = field_failure (lit field) (lit reason)"
| "identity_failure (IRejected status code _) =
     (let public_status = (if status \<in> {401, 403, 429} then status else 502) in
      api_failure_new public_status ''accounts_rejected''
        (lit ''Accounts rejected authentication ('' @ code @ lit '')''))"
| "identity_failure (IUpstream kind _ retry_after) =
     (api_failure_new (if kind = RateLimited then 429 else 503) ''accounts_unavailable''
        (lit ''identity service is temporarily unavailable''))
       \<lparr>af_retry_after_ms := map_option (\<lambda>duration. min (duration div 1000000) U64_MAX) retry_after\<rparr>"
| "identity_failure (IContract _ _) =
     bad_gateway ''accounts_contract'' (lit ''identity service returned an invalid response'')"

section \<open>The syntax of tokens\<close>

definition is_ascii_graphic :: "uchar \<Rightarrow> bool" where
  "is_ascii_graphic c \<longleftrightarrow> 33 \<le> c \<and> c \<le> 126"

definition opaque :: "str \<Rightarrow> string \<Rightarrow> bool" where
  "opaque value pre \<longleftrightarrow>
     (case strip_prefix (lit pre) value of
        None \<Rightarrow> False
      | Some s \<Rightarrow> s \<noteq> [] \<and> utf8_len value \<le> 16384 \<and> list_all is_ascii_graphic value)"

definition jwt :: "str \<Rightarrow> bool" where
  "jwt value \<longleftrightarrow>
     utf8_len value \<le> 16384 \<and> length (split_char 46 value) = 3 \<and>
     list_all (\<lambda>s. s \<noteq> [] \<and> list_all (\<lambda>b. is_ascii_alphanumeric b \<or> b = 95 \<or> b = 45) s) (split_char 46 value)"

text \<open>The two crates of the workspace agree on the form of an access token.\<close>

lemma jwt_is_access_token: "jwt value \<longleftrightarrow> accounts_access_token value"
  by (simp add: jwt_def accounts_access_token_def token_byte_def [abs_def])

section \<open>The claims of an introspection\<close>

record introspection =
  in_active :: bool
  in_iss :: "str option"
  in_sub :: "str option"
  in_aud :: "str option"
  in_client_id :: "str option"
  in_exp :: "int option"
  in_nbf :: "int option"
  in_kind :: "identity_kind option"
  in_id :: "str option"
  in_membership_id :: "str option"
  in_scope :: "str option"
  in_token_type :: "str option"

text \<open>\<open>DateTime::timestamp\<close>: whole seconds, rounded down.\<close>

definition unix_seconds :: "instant \<Rightarrow> int" where
  "unix_seconds t = t div NANOS_PER_SECOND"

text \<open>\<open>str::split_whitespace\<close>: the maximal runs of characters that are not white space.\<close>

fun split_ws_loop :: "str \<Rightarrow> str \<Rightarrow> str list" where
  "split_ws_loop word [] = (if word = [] then [] else [rev word])"
| "split_ws_loop word (c # cs) =
     (if is_whitespace c then (if word = [] then split_ws_loop [] cs else rev word # split_ws_loop [] cs)
      else split_ws_loop (c # word) cs)"

definition split_whitespace :: "str \<Rightarrow> str list" where
  "split_whitespace s = split_ws_loop [] s"

text \<open>The claims are checked at two readings of the clock; \<open>from_timestamp\<close> is chrono's conversion
  of seconds, which fails outside the calendar's range.\<close>

definition identity_from_claims ::
  "'u uuid_api \<Rightarrow> (int \<Rightarrow> instant option) \<Rightarrow> instant \<Rightarrow> instant \<Rightarrow> introspection \<Rightarrow> str \<Rightarrow> str \<Rightarrow>
   identity_error + principal_identity" where
  "identity_from_claims u from_timestamp now later c issuer app =
     (if \<not> in_active c then Inl IUnauthenticated
      else case (in_sub c, in_kind c, in_id c, in_membership_id c, in_exp c) of
        (Some sub, Some kind, Some public, Some membership, Some exp) \<Rightarrow>
          if in_iss c \<noteq> Some issuer \<or> in_aud c \<noteq> Some app \<or> in_client_id c \<noteq> Some app \<or>
             in_token_type c \<noteq> Some (lit ''access_token'') \<or> \<not> is_ok (account_id u sub ''sub'') \<or>
             actor_id public ''id'' \<noteq> Inr kind \<or> membership \<noteq> app @ lit '':'' @ sub
          then Inl (contract ''introspection'' ''invalid issuer, audience or stable account binding'')
          else tryE (ok_or (contract ''introspection'' ''invalid expiry'') (from_timestamp exp)) (\<lambda>expires_at.
            if expires_at \<le> now \<or> (case in_nbf c of Some nbf \<Rightarrow> nbf > unix_seconds later | None \<Rightarrow> False)
            then Inl IUnauthenticated
            else Inr \<lparr>pr_principal_id = sub, pr_public_id = Some public, pr_tags = None,
                   pr_scopes = split_whitespace (case in_scope c of Some s \<Rightarrow> s | None \<Rightarrow> []),
                   pr_kind = kind, pr_membership_id = membership, pr_authorization_epoch = 0,
                   pr_expires_at = expires_at\<rparr>)
      | _ \<Rightarrow> Inl (contract ''introspection'' ''missing account claims''))"

text \<open>What holds of an identity that Accounts vouches for to an application.\<close>

definition vouched :: "'u uuid_api \<Rightarrow> (int \<Rightarrow> instant option) \<Rightarrow> introspection \<Rightarrow> str \<Rightarrow> str \<Rightarrow> principal_identity \<Rightarrow> bool" where
  "vouched u from_timestamp c issuer app p \<longleftrightarrow>
     in_active c \<and> in_iss c = Some issuer \<and> in_aud c = Some app \<and> in_client_id c = Some app \<and>
     in_token_type c = Some (lit ''access_token'') \<and>
     in_sub c = Some (pr_principal_id p) \<and> canonical_account_uuid u (pr_principal_id p) \<and>
     pr_membership_id p = app @ lit '':'' @ pr_principal_id p \<and>
     in_membership_id c = Some (pr_membership_id p) \<and>
     (\<exists>public. pr_public_id p = Some public \<and> in_id c = Some public \<and> actor_id public ''id'' = Inr (pr_kind p)) \<and>
     in_kind c = Some (pr_kind p) \<and>
     (\<exists>exp. in_exp c = Some exp \<and> from_timestamp exp = Some (pr_expires_at p))"

lemma account_id_is_ok: "is_ok (account_id u s f) \<longleftrightarrow> canonical_account_uuid u s"
  by (simp add: account_id_def)

lemma identity_from_claims_ok:
  assumes "identity_from_claims u ts now later c issuer app = Inr p"
  shows "vouched u ts c issuer app p \<and> now < pr_expires_at p \<and>
     (\<forall>nbf. in_nbf c = Some nbf \<longrightarrow> nbf \<le> unix_seconds later)"
  using assms
  by (auto simp: identity_from_claims_def vouched_def account_id_is_ok split: if_splits option.splits)

lemma identity_from_claims_inactive: "\<not> in_active c \<Longrightarrow> identity_from_claims u ts now later c issuer app = Inl IUnauthenticated"
  by (simp add: identity_from_claims_def)

end
