(* ===== verification/SB_AuthCache.thy ===== *)
theory SB_AuthCache
  imports SB_Identity "HOL-Library.AList"
begin

text \<open>
  The cache of authorization snapshots (\<open>src/crates/backend/src/auth_cache.rs\<close>) with the tasks
  that use it at once: every read of the generation, every lock taken and released, and every
  awaited answer of Accounts is a step of its own, so that an invalidation can fall between any two.
\<close>

section \<open>The cache\<close>

definition CACHE_MAX_ENTRIES :: nat where "CACHE_MAX_ENTRIES = 4096"

definition STRIPES :: nat where "STRIPES = 128"

definition TTL :: int where "TTL = 15 * NANOS_PER_SECOND"

record cache_entry =
  ce_identity :: principal_identity
  ce_until :: int
  ce_generation :: "64 word"

text \<open>The hash map is an association list with distinct keys.\<close>

record auth_cache =
  ac_entries :: "(bytes \<times> cache_entry) list"
  ac_generation :: "64 word"

definition empty_cache :: auth_cache where
  "empty_cache = \<lparr>ac_entries = [], ac_generation = 0\<rparr>"

text \<open>\<open>tick\<close> is the monotonic clock (\<open>Instant\<close>), \<open>utc\<close> the calendar clock.\<close>

definition cached :: "int \<Rightarrow> instant \<Rightarrow> bytes \<Rightarrow> auth_cache \<Rightarrow> principal_identity option" where
  "cached tick utc key c =
     (case map_of (ac_entries c) key of
        None \<Rightarrow> None
      | Some e \<Rightarrow>
          if ce_generation e = ac_generation c \<and> tick < ce_until e \<and> utc < pr_expires_at (ce_identity e)
          then Some (ce_identity e) else None)"

text \<open>The room made before an insertion into a full table.\<close>

definition evict :: "int \<Rightarrow> 64 word \<Rightarrow> (bytes \<times> cache_entry) list \<Rightarrow> (bytes \<times> cache_entry) list" where
  "evict tick generation entries =
     (if length entries \<ge> CACHE_MAX_ENTRIES
      then let kept = filter (\<lambda>(_, e). ce_until e > tick \<and> ce_generation e = generation) entries
           in if length kept \<ge> CACHE_MAX_ENTRIES then [] else kept
      else entries)"

definition store_entry ::
  "int \<Rightarrow> bytes \<Rightarrow> principal_identity \<Rightarrow> 64 word \<Rightarrow> auth_cache \<Rightarrow> auth_cache" where
  "store_entry tick key identity generation c =
     c\<lparr>ac_entries := AList.update key \<lparr>ce_identity = identity, ce_until = tick + TTL, ce_generation = generation\<rparr>
                      (evict tick generation (ac_entries c))\<rparr>"

text \<open>The two halves of \<open>invalidate\<close>: the counter is an atomic of its own, the table is cleared
  under its lock afterwards.\<close>

definition bump_generation :: "auth_cache \<Rightarrow> auth_cache" where
  "bump_generation c = c\<lparr>ac_generation := ac_generation c + 1\<rparr>"

definition clear_entries :: "auth_cache \<Rightarrow> auth_cache" where
  "clear_entries c = c\<lparr>ac_entries := []\<rparr>"

section \<open>The tasks\<close>

text \<open>Where a task is within \<open>resolve\<close> or \<open>invalidate\<close>; the number is the round of the loop, the
  word the generation loaded before the fetch.\<close>

datatype pc =
    Idle
  | LookFirst
  | WaitFlight
  | LookAgain
  | LoadGeneration nat
  | Fetching nat "64 word"
  | Compare nat "64 word" principal_identity
  | WaitWrite nat "64 word" principal_identity
  | Recheck nat "64 word" principal_identity
  | Insert "64 word" principal_identity
  | Done "identity_error + principal_identity"
  | Clearing

text \<open>The last three components observe the run and influence nothing: how many invalidations have
  happened, how many had when a task's fetch began, and the answers of Accounts, each with the
  key it was for and the number of invalidations when its fetch began.\<close>

record cache_state =
  cs_cache :: auth_cache
  cs_pc :: "nat \<Rightarrow> pc"
  cs_key :: "nat \<Rightarrow> bytes"
  cs_writer :: "nat option"
  cs_flights :: "nat \<Rightarrow> nat option"
  cs_count :: nat
  cs_began :: "nat \<Rightarrow> nat"
  cs_answers :: "(bytes \<times> principal_identity \<times> nat) set"

definition stripe :: "bytes \<Rightarrow> nat" where
  "stripe key = key ! 0 mod STRIPES"

definition set_pc :: "nat \<Rightarrow> pc \<Rightarrow> cache_state \<Rightarrow> cache_state" where
  "set_pc t p s = s\<lparr>cs_pc := (cs_pc s)(t := p)\<rparr>"

definition release_flight :: "nat \<Rightarrow> cache_state \<Rightarrow> cache_state" where
  "release_flight t s = s\<lparr>cs_flights := (cs_flights s)(stripe (cs_key s t) := None)\<rparr>"

definition finish :: "nat \<Rightarrow> identity_error + principal_identity \<Rightarrow> cache_state \<Rightarrow> cache_state" where
  "finish t r s = set_pc t (Done r) (release_flight t s)"

text \<open>\<open>continue\<close> in \<open>for _ in 0..2\<close>, and what follows the loop.\<close>

definition next_round :: "nat \<Rightarrow> nat \<Rightarrow> cache_state \<Rightarrow> cache_state" where
  "next_round t n s =
     (if n + 1 < 2 then set_pc t (LoadGeneration (n + 1)) s
      else finish t (Inl (IUpstream Unavailable None (Some (nat NANOS_PER_SECOND)))) s)"

text \<open>One step of a task that does not wait for Accounts; \<open>None\<close> where it is blocked on a lock or
  has nothing to do.\<close>

definition task_step :: "nat \<Rightarrow> int \<Rightarrow> instant \<Rightarrow> cache_state \<Rightarrow> cache_state option" where
  "task_step t tick utc s =
     (case cs_pc s t of
        LookFirst \<Rightarrow>
          if cs_writer s \<noteq> None then None
          else Some (case cached tick utc (cs_key s t) (cs_cache s) of
                 Some identity \<Rightarrow> set_pc t (Done (Inr identity)) s
               | None \<Rightarrow> set_pc t WaitFlight s)
      | WaitFlight \<Rightarrow>
          if cs_flights s (stripe (cs_key s t)) \<noteq> None then None
          else Some (set_pc t LookAgain (s\<lparr>cs_flights := (cs_flights s)(stripe (cs_key s t) := Some t)\<rparr>))
      | LookAgain \<Rightarrow>
          if cs_writer s \<noteq> None then None
          else Some (case cached tick utc (cs_key s t) (cs_cache s) of
                 Some identity \<Rightarrow> finish t (Inr identity) s
               | None \<Rightarrow> set_pc t (LoadGeneration 0) s)
      | LoadGeneration n \<Rightarrow>
          Some (set_pc t (Fetching n (ac_generation (cs_cache s))) (s\<lparr>cs_began := (cs_began s)(t := cs_count s)\<rparr>))
      | Compare n generation identity \<Rightarrow>
          Some (if ac_generation (cs_cache s) \<noteq> generation then next_round t n s
                else if pr_expires_at identity \<le> utc then finish t (Inl IUnauthenticated) s
                else set_pc t (WaitWrite n generation identity) s)
      | WaitWrite n generation identity \<Rightarrow>
          if cs_writer s \<noteq> None then None
          else Some (set_pc t (Recheck n generation identity) (s\<lparr>cs_writer := Some t\<rparr>))
      | Recheck n generation identity \<Rightarrow>
          Some (if ac_generation (cs_cache s) \<noteq> generation then next_round t n (s\<lparr>cs_writer := None\<rparr>)
                else set_pc t (Insert generation identity) s)
      | Insert generation identity \<Rightarrow>
          Some (finish t (Inr identity)
                  (s\<lparr>cs_cache := store_entry tick (cs_key s t) identity generation (cs_cache s), cs_writer := None\<rparr>))
      | Clearing \<Rightarrow>
          if cs_writer s \<noteq> None then None
          else Some (set_pc t Idle (s\<lparr>cs_cache := clear_entries (cs_cache s)\<rparr>))
      | _ \<Rightarrow> None)"

datatype cache_event =
    Call nat str
  | Invalidate nat
  | Step nat int instant
  | Answer nat "identity_error + principal_identity"
  | Cancel nat
  | Return nat

text \<open>What can happen: a task calls \<open>resolve\<close> with a bearer token or \<open>invalidate\<close>, makes a step,
  gets the answer to its fetch, is dropped by its caller while it awaits the lock or the answer,
  or hands back its result. \<open>digest\<close> is the SHA-256 of the token's length and text.\<close>

definition cache_exec :: "(str \<Rightarrow> bytes) \<Rightarrow> cache_event \<Rightarrow> cache_state \<Rightarrow> cache_state option" where
  "cache_exec digest e s =
     (case e of
        Call t token \<Rightarrow>
          if cs_pc s t = Idle then Some (set_pc t LookFirst (s\<lparr>cs_key := (cs_key s)(t := digest token)\<rparr>)) else None
      | Invalidate t \<Rightarrow>
          if cs_pc s t = Idle
          then Some (set_pc t Clearing (s\<lparr>cs_cache := bump_generation (cs_cache s), cs_count := cs_count s + 1\<rparr>))
          else None
      | Step t tick utc \<Rightarrow> task_step t tick utc s
      | Answer t r \<Rightarrow>
          (case cs_pc s t of
             Fetching n generation \<Rightarrow>
               Some (case r of
                  Inl error \<Rightarrow> finish t (Inl error) s
                | Inr identity \<Rightarrow> set_pc t (Compare n generation identity)
                    (s\<lparr>cs_answers := insert (cs_key s t, identity, cs_began s t) (cs_answers s)\<rparr>))
           | _ \<Rightarrow> None)
      | Cancel t \<Rightarrow>
          (case cs_pc s t of
             WaitFlight \<Rightarrow> Some (set_pc t Idle s)
           | Fetching n generation \<Rightarrow> Some (set_pc t Idle (release_flight t s))
           | _ \<Rightarrow> None)
      | Return t \<Rightarrow> (case cs_pc s t of Done r \<Rightarrow> Some (set_pc t Idle s) | _ \<Rightarrow> None))"

inductive cache_step :: "(str \<Rightarrow> bytes) \<Rightarrow> cache_event \<Rightarrow> cache_state \<Rightarrow> cache_state \<Rightarrow> bool" for digest where
  exec: "cache_exec digest e s = Some s' \<Longrightarrow> cache_step digest e s s'"

inductive_simps cache_step_iff: "cache_step digest e s s'"

definition cache_start :: "cache_state \<Rightarrow> bool" where
  "cache_start s \<longleftrightarrow> cs_cache s = empty_cache \<and> cs_pc s = (\<lambda>_. Idle) \<and> cs_writer s = None \<and>
     cs_flights s = (\<lambda>_. None) \<and> cs_count s = 0 \<and> cs_answers s = {}"

section \<open>The invariant\<close>

text \<open>A pair of key and identity is known under a generation: Accounts answered it to a fetch for
  the key, begun when the counter stood at that generation.\<close>

definition known :: "cache_state \<Rightarrow> bytes \<Rightarrow> principal_identity \<Rightarrow> 64 word \<Rightarrow> bool" where
  "known s key identity g \<longleftrightarrow> (\<exists>c \<le> cs_count s. g = word_of_nat c \<and> (key, identity, c) \<in> cs_answers s)"

fun pc_known :: "cache_state \<Rightarrow> nat \<Rightarrow> pc \<Rightarrow> bool" where
  "pc_known s t (Fetching n g) \<longleftrightarrow> n < 2 \<and> cs_began s t \<le> cs_count s \<and> g = word_of_nat (cs_began s t)"
| "pc_known s t (Compare n g identity) \<longleftrightarrow> n < 2 \<and> known s (cs_key s t) identity g"
| "pc_known s t (WaitWrite n g identity) \<longleftrightarrow> n < 2 \<and> known s (cs_key s t) identity g"
| "pc_known s t (Recheck n g identity) \<longleftrightarrow> n < 2 \<and> known s (cs_key s t) identity g"
| "pc_known s t (Insert g identity) \<longleftrightarrow> known s (cs_key s t) identity g"
| "pc_known s t (LoadGeneration n) \<longleftrightarrow> n < 2"
| "pc_known s t _ \<longleftrightarrow> True"

fun holds_flight :: "pc \<Rightarrow> bool" where
  "holds_flight LookAgain \<longleftrightarrow> True"
| "holds_flight (LoadGeneration n) \<longleftrightarrow> True"
| "holds_flight (Fetching n g) \<longleftrightarrow> True"
| "holds_flight (Compare n g identity) \<longleftrightarrow> True"
| "holds_flight (WaitWrite n g identity) \<longleftrightarrow> True"
| "holds_flight (Recheck n g identity) \<longleftrightarrow> True"
| "holds_flight (Insert g identity) \<longleftrightarrow> True"
| "holds_flight _ \<longleftrightarrow> False"

fun holds_write :: "pc \<Rightarrow> bool" where
  "holds_write (Recheck n g identity) \<longleftrightarrow> True"
| "holds_write (Insert g identity) \<longleftrightarrow> True"
| "holds_write _ \<longleftrightarrow> False"

definition table_known :: "cache_state \<Rightarrow> bool" where
  "table_known s \<longleftrightarrow> (\<forall>(k, e) \<in> set (ac_entries (cs_cache s)). known s k (ce_identity e) (ce_generation e))"

definition locks_ok :: "cache_state \<Rightarrow> bool" where
  "locks_ok s \<longleftrightarrow>
     (\<forall>t. holds_flight (cs_pc s t) \<longrightarrow> cs_flights s (stripe (cs_key s t)) = Some t) \<and>
     (\<forall>i t. cs_flights s i = Some t \<longrightarrow> holds_flight (cs_pc s t) \<and> stripe (cs_key s t) = i) \<and>
     (\<forall>t. holds_write (cs_pc s t) \<longleftrightarrow> cs_writer s = Some t)"

definition cache_inv :: "cache_state \<Rightarrow> bool" where
  "cache_inv s \<longleftrightarrow>
     ac_generation (cs_cache s) = word_of_nat (cs_count s) \<and> table_known s \<and>
     (\<forall>t. pc_known s t (cs_pc s t)) \<and> locks_ok s \<and>
     distinct (map fst (ac_entries (cs_cache s))) \<and> length (ac_entries (cs_cache s)) \<le> CACHE_MAX_ENTRIES"

lemma frame_simps [simp]:
  "cs_cache (set_pc t p s) = cs_cache s" "cs_key (set_pc t p s) = cs_key s" "cs_writer (set_pc t p s) = cs_writer s"
  "cs_flights (set_pc t p s) = cs_flights s" "cs_count (set_pc t p s) = cs_count s" "cs_began (set_pc t p s) = cs_began s"
  "cs_answers (set_pc t p s) = cs_answers s" "cs_pc (set_pc t p s) = (cs_pc s)(t := p)"
  "cs_cache (release_flight t s) = cs_cache s" "cs_key (release_flight t s) = cs_key s"
  "cs_writer (release_flight t s) = cs_writer s" "cs_count (release_flight t s) = cs_count s"
  "cs_began (release_flight t s) = cs_began s" "cs_answers (release_flight t s) = cs_answers s"
  "cs_pc (release_flight t s) = cs_pc s"
  "cs_flights (release_flight t s) = (cs_flights s)(stripe (cs_key s t) := None)"
  by (simp_all add: set_pc_def release_flight_def)

lemma finish_simps [simp]:
  "cs_cache (finish t r s) = cs_cache s" "cs_key (finish t r s) = cs_key s" "cs_writer (finish t r s) = cs_writer s"
  "cs_count (finish t r s) = cs_count s" "cs_began (finish t r s) = cs_began s" "cs_answers (finish t r s) = cs_answers s"
  "cs_pc (finish t r s) = (cs_pc s)(t := Done r)"
  "cs_flights (finish t r s) = (cs_flights s)(stripe (cs_key s t) := None)"
  by (simp_all add: finish_def)

lemma round_simps [simp]:
  "cs_cache (next_round t n s) = cs_cache s" "cs_key (next_round t n s) = cs_key s"
  "cs_writer (next_round t n s) = cs_writer s" "cs_count (next_round t n s) = cs_count s"
  "cs_began (next_round t n s) = cs_began s" "cs_answers (next_round t n s) = cs_answers s"
  by (simp_all add: next_round_def)

lemma cache_simps [simp]:
  "ac_generation (bump_generation c) = ac_generation c + 1" "ac_entries (bump_generation c) = ac_entries c"
  "ac_generation (clear_entries c) = ac_generation c" "ac_entries (clear_entries c) = []"
  "ac_generation (store_entry tick k i g c) = ac_generation c"
  by (simp_all add: bump_generation_def clear_entries_def store_entry_def)

lemmas exec_cases = cache_exec_def task_step_def

lemma exec_generation:
  assumes "cache_exec digest e s = Some s'" "ac_generation (cs_cache s) = word_of_nat (cs_count s)"
  shows "ac_generation (cs_cache s') = word_of_nat (cs_count s')"
  using assms
  by (cases e) (auto simp: exec_cases split: pc.splits if_splits option.splits sum.splits)

lemma exec_grows:
  assumes "cache_exec digest e s = Some s'"
  shows "cs_count s \<le> cs_count s' \<and> cs_answers s \<subseteq> cs_answers s'"
  using assms by (cases e) (auto simp: exec_cases split: pc.splits if_splits option.splits sum.splits)

lemma known_mono: "known s k i g \<Longrightarrow> cs_count s \<le> cs_count s' \<Longrightarrow> cs_answers s \<subseteq> cs_answers s' \<Longrightarrow> known s' k i g"
  unfolding known_def by (blast intro: le_trans)

lemma evict_subset: "set (evict tick g es) \<subseteq> set es"
  by (auto simp: evict_def Let_def)

lemma evict_distinct: "distinct (map fst es) \<Longrightarrow> distinct (map fst (evict tick g es))"
  by (auto simp: evict_def Let_def distinct_map_filter)

lemma evict_room: "length (evict tick g es) < CACHE_MAX_ENTRIES"
  by (auto simp: evict_def Let_def CACHE_MAX_ENTRIES_def not_le)

lemma update_length: "length (AList.update k v es) \<le> Suc (length es)"
  by (induction es) auto

lemma exec_table_shape:
  assumes "cache_exec digest e s = Some s'"
    and "distinct (map fst (ac_entries (cs_cache s))) \<and> length (ac_entries (cs_cache s)) \<le> CACHE_MAX_ENTRIES"
  shows "distinct (map fst (ac_entries (cs_cache s'))) \<and> length (ac_entries (cs_cache s')) \<le> CACHE_MAX_ENTRIES"
proof -
  have "distinct (map fst (ac_entries (store_entry tick k i g c))) \<and> length (ac_entries (store_entry tick k i g c)) \<le> CACHE_MAX_ENTRIES"
    if "distinct (map fst (ac_entries c))" for tick k i g c
  proof -
    have "length (AList.update k v (evict tick g (ac_entries c))) \<le> CACHE_MAX_ENTRIES" for v
      using update_length [of k v "evict tick g (ac_entries c)"] evict_room [of tick g "ac_entries c"] by linarith
    then show ?thesis by (simp add: store_entry_def distinct_update evict_distinct that)
  qed
  with assms show ?thesis
    by (cases e) (auto simp: exec_cases split: pc.splits if_splits option.splits sum.splits)
qed

lemma exec_table_known:
  assumes "cache_exec digest e s = Some s'" "table_known s" "\<forall>t. pc_known s t (cs_pc s t)"
  shows "table_known s'"
proof -
  note grows = exec_grows [OF assms(1)]
  have keep: "known s' k i g" if "known s k i g" for k i g
    using that grows known_mono by blast
  show ?thesis
  proof (cases "\<exists>t tick utc i g. e = Step t tick utc \<and> cs_pc s t = Insert g i")
    case False
    with assms(1) have "set (ac_entries (cs_cache s')) \<subseteq> set (ac_entries (cs_cache s))"
      by (cases e) (auto simp: exec_cases split: pc.splits if_splits option.splits sum.splits)
    with assms(2) keep show ?thesis unfolding table_known_def by blast
  next
    case True
    then obtain t tick utc i g where e: "e = Step t tick utc" and t: "cs_pc s t = Insert g i" by blast
    with assms(1) have c: "cs_cache s' = store_entry tick (cs_key s t) i g (cs_cache s)"
      by (auto simp: exec_cases)
    let ?v = "\<lparr>ce_identity = i, ce_until = tick + TTL, ce_generation = g\<rparr>"
    from t assms(3) have k: "known s (cs_key s t) i g" by (metis pc_known.simps(5))
    have "set (AList.update (cs_key s t) ?v es) \<subseteq> insert (cs_key s t, ?v) (set es)" for es
      by (induction es) auto
    with evict_subset have "set (ac_entries (cs_cache s')) \<subseteq> insert (cs_key s t, ?v) (set (ac_entries (cs_cache s)))"
      unfolding c store_entry_def by fastforce
    with assms(2) keep k show ?thesis unfolding table_known_def by fastforce
  qed
qed


lemma pc_known_mono:
  assumes "pc_known s t p" "cs_count s \<le> cs_count s'" "cs_answers s \<subseteq> cs_answers s'"
    and "cs_key s' t = cs_key s t" "cs_began s' t = cs_began s t"
  shows "pc_known s' t p"
  using assms by (cases p) (auto intro: known_mono)

text \<open>The task of an event; the others keep their place, their key and their count.\<close>

fun actor_of :: "cache_event \<Rightarrow> nat" where
  "actor_of (Call t token) = t"
| "actor_of (Invalidate t) = t"
| "actor_of (Step t tick utc) = t"
| "actor_of (Answer t r) = t"
| "actor_of (Cancel t) = t"
| "actor_of (Return t) = t"

lemma exec_others:
  assumes "cache_exec digest e s = Some s'" "t \<noteq> actor_of e"
  shows "cs_pc s' t = cs_pc s t \<and> cs_key s' t = cs_key s t \<and> cs_began s' t = cs_began s t"
  using assms by (cases e) (auto simp: exec_cases next_round_def split: pc.splits if_splits option.splits sum.splits)

lemma exec_pc_known:
  assumes "cache_exec digest e s = Some s'" "\<forall>t. pc_known s t (cs_pc s t)"
    and gen: "ac_generation (cs_cache s) = word_of_nat (cs_count s)"
  shows "pc_known s' t (cs_pc s' t)"
proof (cases "t = actor_of e")
  case False
  with exec_others [OF assms(1)] exec_grows [OF assms(1)] assms(2) show ?thesis
    by (metis pc_known_mono)
next
  case True
  have known: "pc_known s t (cs_pc s t)" using assms(2) by blast
  have mono: "known s k i g \<Longrightarrow> known s' k i g" for k i g
    using exec_grows [OF assms(1)] known_mono by blast
  show ?thesis
    using assms(1) known True gen mono
    by (cases e; cases "cs_pc s t")
       (auto simp: exec_cases next_round_def known_def split: if_splits option.splits sum.splits)
qed

lemma exec_writer:
  assumes "cache_exec digest e s = Some s'" "\<forall>t. holds_write (cs_pc s t) \<longleftrightarrow> cs_writer s = Some t"
  shows "holds_write (cs_pc s' t) \<longleftrightarrow> cs_writer s' = Some t"
proof (cases "t = actor_of e")
  case True
  with assms(1) assms(2) [rule_format, of t] show ?thesis
    by (cases e; cases "cs_pc s t")
       (auto simp: exec_cases next_round_def split: if_splits option.splits sum.splits)
next
  case False
  have "cs_writer s' = Some t \<longleftrightarrow> cs_writer s = Some t"
    using assms(1) assms(2) [rule_format, of "actor_of e"] False
    by (cases e; cases "cs_pc s (actor_of e)")
       (auto simp: exec_cases next_round_def split: if_splits option.splits sum.splits)
  with False exec_others [OF assms(1)] assms(2) show ?thesis by simp
qed

definition flights_ok :: "cache_state \<Rightarrow> bool" where
  "flights_ok s \<longleftrightarrow>
     (\<forall>t. holds_flight (cs_pc s t) \<longrightarrow> cs_flights s (stripe (cs_key s t)) = Some t) \<and>
     (\<forall>i t. cs_flights s i = Some t \<longrightarrow> holds_flight (cs_pc s t) \<and> stripe (cs_key s t) = i)"

lemma locks_split: "locks_ok s \<longleftrightarrow> flights_ok s \<and> (\<forall>t. holds_write (cs_pc s t) \<longleftrightarrow> cs_writer s = Some t)"
  unfolding locks_ok_def flights_ok_def by blast

lemma flights_frame:
  assumes "flights_ok s" "cs_flights s' = cs_flights s" "cs_key s' = cs_key s"
    and "\<And>u. holds_flight (cs_pc s' u) = holds_flight (cs_pc s u)"
  shows "flights_ok s'"
  using assms unfolding flights_ok_def by simp

lemma flights_acquire:
  assumes "flights_ok s" "cs_flights s (stripe (cs_key s t)) = None" "\<not> holds_flight (cs_pc s t)"
    and "cs_flights s' = (cs_flights s)(stripe (cs_key s t) := Some t)" "cs_key s' = cs_key s"
    and "\<And>u. holds_flight (cs_pc s' u) = (u = t \<or> holds_flight (cs_pc s u))"
  shows "flights_ok s'"
proof -
  have "cs_flights s' (stripe (cs_key s' u)) = Some u" if "holds_flight (cs_pc s' u)" for u
  proof (cases "u = t")
    case False
    with that assms(6) have "holds_flight (cs_pc s u)" by simp
    with assms(1) have u: "cs_flights s (stripe (cs_key s u)) = Some u" unfolding flights_ok_def by blast
    with assms(2) have "stripe (cs_key s u) \<noteq> stripe (cs_key s t)" by auto
    with u show ?thesis by (simp add: assms(4,5))
  qed (simp add: assms(4,5))
  moreover have "holds_flight (cs_pc s' u) \<and> stripe (cs_key s' u) = i" if "cs_flights s' i = Some u" for i u
  proof (cases "i = stripe (cs_key s t)")
    case True
    with that assms(4) have "u = t" by simp
    with True assms(5,6) show ?thesis by simp
  next
    case False
    with that assms(4) have "cs_flights s i = Some u" by simp
    with assms(1) have "holds_flight (cs_pc s u)" "stripe (cs_key s u) = i" unfolding flights_ok_def by blast+
    then show ?thesis by (simp add: assms(5,6))
  qed
  ultimately show ?thesis unfolding flights_ok_def by blast
qed

lemma flights_release:
  assumes "flights_ok s" "holds_flight (cs_pc s t)"
    and "cs_flights s' = (cs_flights s)(stripe (cs_key s t) := None)" "cs_key s' = cs_key s"
    and "\<And>u. holds_flight (cs_pc s' u) = (u \<noteq> t \<and> holds_flight (cs_pc s u))"
  shows "flights_ok s'"
proof -
  have t: "cs_flights s (stripe (cs_key s t)) = Some t"
    using assms(1,2) unfolding flights_ok_def by blast
  have held: "cs_flights s' (stripe (cs_key s' u)) = Some u" if "holds_flight (cs_pc s' u)" for u
  proof -
    from that assms(5) have "u \<noteq> t" "holds_flight (cs_pc s u)" by auto
    with assms(1) have u: "cs_flights s (stripe (cs_key s u)) = Some u" unfolding flights_ok_def by blast
    with t \<open>u \<noteq> t\<close> have "stripe (cs_key s u) \<noteq> stripe (cs_key s t)" by auto
    with u show ?thesis by (simp add: assms(3,4))
  qed
  have "holds_flight (cs_pc s' u) \<and> stripe (cs_key s' u) = i" if "cs_flights s' i = Some u" for i u
  proof -
    from that assms(3) have i: "i \<noteq> stripe (cs_key s t)" "cs_flights s i = Some u" by (auto split: if_splits)
    with assms(1) have "holds_flight (cs_pc s u)" "stripe (cs_key s u) = i" unfolding flights_ok_def by blast+
    with i show ?thesis by (auto simp: assms(4,5))
  qed
  with held show ?thesis unfolding flights_ok_def by blast
qed

lemma flights_call:
  assumes "flights_ok s" "\<not> holds_flight (cs_pc s t)"
    and "cs_flights s' = cs_flights s" "cs_key s' = (cs_key s)(t := k)"
    and "\<And>u. holds_flight (cs_pc s' u) = holds_flight (cs_pc s u)"
  shows "flights_ok s'"
proof -
  have "u \<noteq> t \<and> cs_key s' u = cs_key s u" if "holds_flight (cs_pc s u)" for u
    using that assms(2,4) by auto
  with assms(1) show ?thesis unfolding flights_ok_def assms(3,5) by metis
qed

lemma exec_flight_change:
  assumes "cache_exec digest e s = Some s'"
  defines "t \<equiv> actor_of e"
  shows "cs_key s' = cs_key s \<and>
      (cs_flights s' = cs_flights s \<and> holds_flight (cs_pc s' t) = holds_flight (cs_pc s t) \<or>
       cs_flights s (stripe (cs_key s t)) = None \<and> \<not> holds_flight (cs_pc s t) \<and> holds_flight (cs_pc s' t) \<and>
         cs_flights s' = (cs_flights s)(stripe (cs_key s t) := Some t) \<or>
       holds_flight (cs_pc s t) \<and> \<not> holds_flight (cs_pc s' t) \<and>
         cs_flights s' = (cs_flights s)(stripe (cs_key s t) := None)) \<or>
     \<not> holds_flight (cs_pc s t) \<and> \<not> holds_flight (cs_pc s' t) \<and> cs_flights s' = cs_flights s \<and>
       (\<exists>k. cs_key s' = (cs_key s)(t := k))"
  using assms(1) unfolding t_def
  by (cases e; cases "cs_pc s (actor_of e)")
     (auto simp: exec_cases next_round_def split: if_splits option.splits sum.splits)

lemma exec_flights:
  assumes "cache_exec digest e s = Some s'" "flights_ok s"
  shows "flights_ok s'"
proof -
  let ?t = "actor_of e"
  have others: "cs_pc s' u = cs_pc s u" if "u \<noteq> ?t" for u
    using exec_others [OF assms(1)] that by simp
  show ?thesis
  proof (cases "holds_flight (cs_pc s' ?t) = holds_flight (cs_pc s ?t)")
    case True
    with others have same: "holds_flight (cs_pc s' u) = holds_flight (cs_pc s u)" for u by (cases "u = ?t") auto
    from exec_flight_change [OF assms(1)] True
    have "cs_flights s' = cs_flights s \<and> (cs_key s' = cs_key s \<or> \<not> holds_flight (cs_pc s ?t) \<and> (\<exists>k. cs_key s' = (cs_key s)(?t := k)))"
      by blast
    with assms(2) same flights_frame flights_call show ?thesis by metis
  next
    case False
    from exec_flight_change [OF assms(1)] False
    have key: "cs_key s' = cs_key s"
      and change: "cs_flights s (stripe (cs_key s ?t)) = None \<and> \<not> holds_flight (cs_pc s ?t) \<and>
         cs_flights s' = (cs_flights s)(stripe (cs_key s ?t) := Some ?t) \<or>
       holds_flight (cs_pc s ?t) \<and> cs_flights s' = (cs_flights s)(stripe (cs_key s ?t) := None)" by blast+
    from change show ?thesis
    proof (elim disjE conjE)
      assume a: "cs_flights s (stripe (cs_key s ?t)) = None" "\<not> holds_flight (cs_pc s ?t)"
        "cs_flights s' = (cs_flights s)(stripe (cs_key s ?t) := Some ?t)"
      with False others have "holds_flight (cs_pc s' u) = (u = ?t \<or> holds_flight (cs_pc s u))" for u
        by (cases "u = ?t") auto
      with a key show ?thesis by (intro flights_acquire [OF assms(2)])
    next
      assume a: "holds_flight (cs_pc s ?t)" "cs_flights s' = (cs_flights s)(stripe (cs_key s ?t) := None)"
      with False others have "holds_flight (cs_pc s' u) = (u \<noteq> ?t \<and> holds_flight (cs_pc s u))" for u
        by (cases "u = ?t") auto
      with a key show ?thesis by (intro flights_release [OF assms(2)])
    qed
  qed
qed

lemma exec_inv: "cache_exec digest e s = Some s' \<Longrightarrow> cache_inv s \<Longrightarrow> cache_inv s'"
  by (simp add: cache_inv_def locks_split exec_generation exec_table_known exec_pc_known exec_writer exec_flights
      exec_table_shape)

interpretation auth_cache: step_system cache_start "cache_step digest" cache_inv for digest
proof unfold_locales
  show "cache_inv s" if "cache_start s" for s
    using that by (auto simp: cache_start_def cache_inv_def locks_ok_def table_known_def empty_cache_def)
  show "cache_inv s'" if "cache_step digest e s s'" "cache_inv s" for e s s'
    using that exec_inv by (auto simp: cache_step_iff)
qed

section \<open>Which fetch an identity comes from\<close>

definition invalidations :: "cache_event list \<Rightarrow> nat" where
  "invalidations es = length (filter (\<lambda>e. case e of Invalidate t \<Rightarrow> True | _ \<Rightarrow> False) es)"

lemma invalidations_simps [simp]:
  "invalidations [] = 0" "invalidations (es @ fs) = invalidations es + invalidations fs"
  "invalidations (Invalidate t # es) = Suc (invalidations es)" "invalidations (Call t token # es) = invalidations es"
  "invalidations (Step t tick utc # es) = invalidations es" "invalidations (Answer t r # es) = invalidations es"
  "invalidations (Cancel t # es) = invalidations es" "invalidations (Return t # es) = invalidations es"
  by (simp_all add: invalidations_def)

text \<open>In a run: the task loaded the generation for its key and has been fetching since; Accounts
  answered the identity to such a fetch.\<close>

definition began_at :: "(str \<Rightarrow> bytes) \<Rightarrow> cache_state \<Rightarrow> cache_event list \<Rightarrow> nat \<Rightarrow> bytes \<Rightarrow> bool" where
  "began_at digest s0 es t key \<longleftrightarrow>
     (\<exists>s n. run (cache_step digest) s0 es s \<and> cs_pc s t = LoadGeneration n \<and> cs_key s t = key)"

definition fetching_since :: "(str \<Rightarrow> bytes) \<Rightarrow> cache_state \<Rightarrow> cache_event list \<Rightarrow> nat \<Rightarrow> bytes \<Rightarrow> nat \<Rightarrow> bool" where
  "fetching_since digest s0 es t key c \<longleftrightarrow>
     (\<exists>before tick utc after. es = before @ Step t tick utc # after \<and> began_at digest s0 before t key \<and>
        invalidations before = c \<and> (\<forall>e \<in> set after. actor_of e \<noteq> t))"

definition answered :: "(str \<Rightarrow> bytes) \<Rightarrow> cache_state \<Rightarrow> cache_event list \<Rightarrow> bytes \<Rightarrow> principal_identity \<Rightarrow> nat \<Rightarrow> bool" where
  "answered digest s0 es key identity c \<longleftrightarrow>
     (\<exists>during t after. es = during @ Answer t (Inr identity) # after \<and> fetching_since digest s0 during t key c)"

lemma fetching_since_snoc:
  "fetching_since digest s0 es t key c \<Longrightarrow> actor_of e \<noteq> t \<Longrightarrow> fetching_since digest s0 (es @ [e]) t key c"
  unfolding fetching_since_def by fastforce

lemma answered_snoc: "answered digest s0 es key identity c \<Longrightarrow> answered digest s0 (es @ [e]) key identity c"
  unfolding answered_def by fastforce

lemma run_count: "run (cache_step digest) s0 es s \<Longrightarrow> cs_count s = cs_count s0 + invalidations es"
proof (induction rule: run.induct)
  case (run_snoc s0 es s e s')
  from \<open>cache_step digest e s s'\<close> have "cs_count s' = cs_count s + invalidations [e]"
    by (cases e) (auto simp: cache_step_iff exec_cases split: pc.splits if_splits option.splits sum.splits)
  with run_snoc.IH show ?case by simp
qed simp

lemma exec_fetching:
  assumes "cache_exec digest e s = Some s'" "cs_pc s' (actor_of e) = Fetching n g"
  shows "\<exists>tick utc. e = Step (actor_of e) tick utc \<and> cs_pc s (actor_of e) = LoadGeneration n \<and>
     cs_began s' (actor_of e) = cs_count s \<and> cs_key s' (actor_of e) = cs_key s (actor_of e)"
  using assms
  by (cases e; cases "cs_pc s (actor_of e)")
     (auto simp: exec_cases next_round_def split: if_splits option.splits sum.splits)

lemma exec_answers:
  assumes "cache_exec digest e s = Some s'"
  shows "cs_answers s' = cs_answers s \<or>
     (\<exists>t identity n g. e = Answer t (Inr identity) \<and> cs_pc s t = Fetching n g \<and>
        cs_answers s' = insert (cs_key s t, identity, cs_began s t) (cs_answers s))"
  using assms by (cases e) (auto simp: exec_cases split: pc.splits if_splits option.splits sum.splits)

lemma run_origins:
  assumes "run (cache_step digest) s0 es s" "cache_start s0"
  shows "(\<forall>t n g. cs_pc s t = Fetching n g \<longrightarrow> fetching_since digest s0 es t (cs_key s t) (cs_began s t)) \<and>
     (\<forall>(key, identity, c) \<in> cs_answers s. answered digest s0 es key identity c)"
  using assms
proof (induction rule: run.induct)
  case (run_nil s)
  then show ?case by (simp add: cache_start_def)
next
  case (run_snoc s0 es s e s')
  from run_snoc.hyps have exec: "cache_exec digest e s = Some s'" by (simp add: cache_step_iff)
  from run_count [OF run_snoc.hyps(1)] run_snoc.prems have count: "cs_count s = invalidations es"
    by (simp add: cache_start_def)
  have "fetching_since digest s0 (es @ [e]) t (cs_key s' t) (cs_began s' t)" if f: "cs_pc s' t = Fetching n g" for t n g
  proof (cases "t = actor_of e")
    case True
    with exec_fetching [OF exec, of n g] f obtain tick utc where e: "e = Step t tick utc"
      and p: "cs_pc s t = LoadGeneration n" "cs_began s' t = cs_count s" "cs_key s' t = cs_key s t" by auto
    with run_snoc.hyps(1) have "began_at digest s0 es t (cs_key s' t)" unfolding began_at_def by auto
    with e p count show ?thesis unfolding fetching_since_def
      by (intro exI [of _ es] exI [of _ tick] exI [of _ utc] exI [of _ "[]"]) simp
  next
    case False
    with exec_others [OF exec] f have "cs_pc s t = Fetching n g" "cs_key s' t = cs_key s t" "cs_began s' t = cs_began s t"
      by auto
    with run_snoc.IH run_snoc.prems False show ?thesis by (simp add: fetching_since_snoc)
  qed
  moreover have "answered digest s0 (es @ [e]) key identity c" if a: "(key, identity, c) \<in> cs_answers s'" for key identity c
  proof (cases "(key, identity, c) \<in> cs_answers s")
    case True
    with run_snoc.IH run_snoc.prems show ?thesis by (auto intro: answered_snoc)
  next
    case False
    with exec_answers [OF exec] a obtain t n g where e: "e = Answer t (Inr identity)" and f: "cs_pc s t = Fetching n g"
      and "key = cs_key s t" "c = cs_began s t" by auto
    with run_snoc.IH run_snoc.prems have "fetching_since digest s0 es t key c" by blast
    with e show ?thesis unfolding answered_def by blast
  qed
  ultimately show ?case by blast
qed

section \<open>What a caller is told\<close>

text \<open>The identity a task has settled on: it will return it whatever happens next.\<close>

fun accepted :: "pc \<Rightarrow> principal_identity option" where
  "accepted (Insert g identity) = Some identity"
| "accepted (Done (Inr identity)) = Some identity"
| "accepted _ = None"

lemma word_of_nat_same: "(word_of_nat a :: 64 word) = word_of_nat b \<Longrightarrow> a < 2 ^ 64 \<Longrightarrow> b < 2 ^ 64 \<Longrightarrow> a = b"
  by (simp add: word_of_nat_eq_iff take_bit_nat_eq_self)

lemma cached_entry:
  assumes "cached tick utc key c = Some identity"
  shows "\<exists>e. (key, e) \<in> set (ac_entries c) \<and> map_of (ac_entries c) key = Some e \<and> ce_identity e = identity \<and>
     ce_generation e = ac_generation c \<and> tick < ce_until e \<and> utc < pr_expires_at identity"
  using assms by (auto simp: cached_def split: option.splits if_splits dest: map_of_SomeD)

lemma step_accepts:
  assumes "cache_inv s" "task_step t tick utc s = Some s'" "accepted (cs_pc s t) = None"
    and "accepted (cs_pc s' t) = Some identity"
  shows "known s (cs_key s t) identity (ac_generation (cs_cache s)) \<and>
     (cs_pc s t \<in> {LookFirst, LookAgain} \<longrightarrow> utc < pr_expires_at identity \<and>
        (\<exists>e. map_of (ac_entries (cs_cache s)) (cs_key s t) = Some e \<and> tick < ce_until e))"
proof -
  have table: "(k, e) \<in> set (ac_entries (cs_cache s)) \<Longrightarrow> known s k (ce_identity e) (ce_generation e)" for k e
    using assms(1) unfolding cache_inv_def table_known_def by blast
  have pc: "pc_known s t (cs_pc s t)" using assms(1) unfolding cache_inv_def by blast
  have hit: ?thesis if "cached tick utc (cs_key s t) (cs_cache s) = Some identity"
    using cached_entry [OF that] table by fastforce
  show ?thesis
    using assms(2-4) pc hit
    by (cases "cs_pc s t")
       (auto simp: task_step_def next_round_def split: if_splits option.splits)
qed


text \<open>C21: an identity that the cache vouches for is never older than the last invalidation. When a
  task settles on an identity, whether found in the table or just fetched, Accounts answered it to
  a fetch for the same token digest --- its own or another task's --- and between the moment that
  fetch read the generation and the present no invalidation has happened. What is taken from the
  table is, besides, within its fifteen seconds and before the token's expiry.\<close>

theorem cache_accepts_current:
  assumes "cache_start s0" "run (cache_step digest) s0 es s" "task_step t tick utc s = Some s'"
    and "accepted (cs_pc s t) = None" "accepted (cs_pc s' t) = Some identity" "invalidations es < 2 ^ 64"
  shows "(\<exists>before u tick' utc' during after.
       es = before @ Step u tick' utc' # during @ Answer u (Inr identity) # after \<and>
       began_at digest s0 before u (cs_key s t) \<and> (\<forall>e \<in> set during. actor_of e \<noteq> u) \<and>
       invalidations (during @ after) = 0) \<and>
     (cs_pc s t \<in> {LookFirst, LookAgain} \<longrightarrow> utc < pr_expires_at identity \<and>
       (\<exists>e. map_of (ac_entries (cs_cache s)) (cs_key s t) = Some e \<and> tick < ce_until e))"
proof -
  have inv: "cache_inv s" using auth_cache.reachable_inv [OF assms(1,2)] .
  note accepts = step_accepts [OF inv assms(3-5)]
  have count: "cs_count s = invalidations es"
    using run_count [OF assms(2)] assms(1) by (simp add: cache_start_def)
  from accepts obtain c where c: "c \<le> cs_count s" "ac_generation (cs_cache s) = word_of_nat c"
    "(cs_key s t, identity, c) \<in> cs_answers s" unfolding known_def by blast
  moreover have "ac_generation (cs_cache s) = word_of_nat (cs_count s)" using inv unfolding cache_inv_def by blast
  ultimately have "c = invalidations es"
    using word_of_nat_same [of c "cs_count s"] assms(6) count by simp
  with c run_origins [OF assms(2,1)] have "answered digest s0 es (cs_key s t) identity (invalidations es)" by blast
  then obtain during u after before tick' utc' rest where es: "es = during @ Answer u (Inr identity) # after"
    and d: "during = before @ Step u tick' utc' # rest" "began_at digest s0 before u (cs_key s t)"
      "invalidations before = invalidations es" "\<forall>e \<in> set rest. actor_of e \<noteq> u"
    unfolding answered_def fetching_since_def by blast
  from d es have "invalidations (rest @ after) = 0" by simp
  with es d have "es = before @ Step u tick' utc' # rest @ Answer u (Inr identity) # after \<and>
      began_at digest s0 before u (cs_key s t) \<and> (\<forall>e \<in> set rest. actor_of e \<noteq> u) \<and> invalidations (rest @ after) = 0"
    by simp
  then show ?thesis using accepts by blast
qed

text \<open>Runs of the executable step, for concrete instances.\<close>

fun exec_events :: "(str \<Rightarrow> bytes) \<Rightarrow> cache_event list \<Rightarrow> cache_state \<Rightarrow> cache_state option" where
  "exec_events digest [] s = Some s"
| "exec_events digest (e # es) s = Option.bind (cache_exec digest e s) (exec_events digest es)"

lemma run_prepend: "run step s' es s'' \<Longrightarrow> step e s s' \<Longrightarrow> run step s (e # es) s''"
proof (induction rule: run.induct)
  case (run_nil s')
  then show ?case using run.run_snoc [OF run.run_nil] by fastforce
next
  case (run_snoc s' es u f v)
  then show ?case using run.run_snoc [of step s "e # es" u f v] by simp
qed

lemma exec_events_run: "exec_events digest es s = Some s' \<Longrightarrow> run (cache_step digest) s es s'"
proof (induction es arbitrary: s)
  case (Cons e es)
  then show ?case by (auto simp: bind_eq_Some_conv cache_step_iff intro: run_prepend)
qed (simp add: run.run_nil)

definition idle_state :: cache_state where
  "idle_state = \<lparr>cs_cache = empty_cache, cs_pc = (\<lambda>_. Idle), cs_key = (\<lambda>_. []), cs_writer = None,
     cs_flights = (\<lambda>_. None), cs_count = 0, cs_began = (\<lambda>_. 0), cs_answers = {}\<rparr>"

definition sample_principal :: principal_identity where
  "sample_principal = \<lparr>pr_principal_id = [97], pr_public_id = None, pr_tags = None, pr_scopes = [],
     pr_kind = Carbon, pr_membership_id = [], pr_authorization_epoch = 0, pr_expires_at = 900\<rparr>"

lemma idle_start: "cache_start idle_state"
  by (simp add: cache_start_def idle_state_def)

text \<open>A token is fetched and stored by the first task; the second finds it in the table.\<close>

definition sample_events :: "cache_event list" where
  "sample_events = [Call 1 [7], Step 1 0 0, Step 1 0 0, Step 1 0 0, Step 1 0 0, Answer 1 (Inr sample_principal),
     Step 1 1 1, Step 1 1 1, Step 1 1 1, Step 1 1 1, Call 2 [7]]"

theorem cache_accepts_current_witness:
  "\<exists>before u tick' utc' during after.
     sample_events = before @ Step u tick' utc' # during @ Answer u (Inr sample_principal) # after \<and>
     began_at id idle_state before u [7] \<and> invalidations (during @ after) = 0"
proof -
  have "\<exists>s. exec_events id sample_events idle_state = Some s \<and> cs_pc s 2 = LookFirst \<and> cs_key s 2 = [7] \<and>
     (\<exists>s'. task_step 2 1 1 s = Some s' \<and> cs_pc s' 2 = Done (Inr sample_principal)) \<and> cs_key s 2 = [7]"
    by (simp add: sample_events_def exec_cases idle_state_def empty_cache_def cached_def next_round_def
        store_entry_def evict_def CACHE_MAX_ENTRIES_def TTL_def NANOS_PER_SECOND_def sample_principal_def)
  then obtain s s' where s: "exec_events id sample_events idle_state = Some s" "cs_pc s 2 = LookFirst" "cs_key s 2 = [7]"
    and s': "task_step 2 1 1 s = Some s'" "cs_pc s' 2 = Done (Inr sample_principal)" by blast
  from s'(2) s(2) have "accepted (cs_pc s 2) = None" "accepted (cs_pc s' 2) = Some sample_principal" by simp_all
  moreover have "invalidations sample_events < 2 ^ 64" by (simp add: sample_events_def)
  ultimately show ?thesis
    using cache_accepts_current [OF idle_start exec_events_run [OF s(1)] s'(1)] unfolding s(3) by blast
qed

text \<open>However many calls run at once, at most one of them asks Accounts about a token at a
  time, and the table never holds two entries for a key nor more than its 4096 entries.\<close>

theorem cache_single_flight:
  assumes "cache_start s0" "run (cache_step digest) s0 es s"
    and "cs_pc s t = Fetching n g" "cs_pc s u = Fetching m h" "cs_key s t = cs_key s u"
  shows "t = u \<and> distinct (map fst (ac_entries (cs_cache s))) \<and> length (ac_entries (cs_cache s)) \<le> CACHE_MAX_ENTRIES"
proof -
  have inv: "cache_inv s" using auth_cache.reachable_inv [OF assms(1,2)] .
  then have held: "holds_flight (cs_pc s v) \<Longrightarrow> cs_flights s (stripe (cs_key s v)) = Some v" for v
    unfolding cache_inv_def locks_ok_def by blast
  have "cs_flights s (stripe (cs_key s t)) = Some t" by (rule held) (simp add: assms(3))
  moreover have "cs_flights s (stripe (cs_key s u)) = Some u" by (rule held) (simp add: assms(4))
  ultimately have "t = u" by (metis assms(5) option.inject)
  moreover have "distinct (map fst (ac_entries (cs_cache s))) \<and> length (ac_entries (cs_cache s)) \<le> CACHE_MAX_ENTRIES"
    using inv unfolding cache_inv_def by blast
  ultimately show ?thesis by (rule conjI)
qed

definition fetching_events :: "cache_event list" where
  "fetching_events = [Call 1 [7], Call 2 [7], Step 1 0 0, Step 2 0 0, Step 1 0 0, Step 1 0 0, Step 1 0 0]"

theorem cache_single_flight_witness:
  "\<exists>s n g. run (cache_step id) idle_state fetching_events s \<and> cs_pc s 1 = Fetching n g \<and>
     cs_pc s 2 = WaitFlight \<and> length (ac_entries (cs_cache s)) \<le> CACHE_MAX_ENTRIES"
proof -
  have "\<exists>s. exec_events id fetching_events idle_state = Some s \<and> cs_pc s 1 = Fetching 0 0 \<and> cs_pc s 2 = WaitFlight"
    by (simp add: fetching_events_def exec_cases idle_state_def empty_cache_def cached_def)
  then obtain s where s: "exec_events id fetching_events idle_state = Some s" "cs_pc s 1 = Fetching 0 0"
    "cs_pc s 2 = WaitFlight" by blast
  with cache_single_flight [OF idle_start exec_events_run [OF s(1)] s(2) s(2) refl] exec_events_run [OF s(1)]
  show ?thesis by blast
qed

text \<open>How many steps of its own a task has at most before it is done.\<close>

fun work :: "pc \<Rightarrow> nat" where
  "work Idle = 0"
| "work (Done r) = 0"
| "work Clearing = 1"
| "work (Insert g identity) = 1"
| "work (Recheck n g identity) = 6 * (2 - n) - 4"
| "work (WaitWrite n g identity) = 6 * (2 - n) - 3"
| "work (Compare n g identity) = 6 * (2 - n) - 2"
| "work (Fetching n g) = 6 * (2 - n) - 1"
| "work (LoadGeneration n) = 6 * (2 - n)"
| "work LookAgain = 13"
| "work WaitFlight = 14"
| "work LookFirst = 15"

lemma work_bound: "work p \<le> 15"
  by (cases p) auto

lemma exec_work:
  assumes "cache_inv s" "cache_exec digest e s = Some s'" "e \<in> {Step t tick utc, Answer t r}"
  shows "work (cs_pc s' t) < work (cs_pc s t)"
proof -
  have "pc_known s t (cs_pc s t)" using assms(1) unfolding cache_inv_def by blast
  with assms(2,3) show ?thesis
    by (cases "cs_pc s t") (auto simp: exec_cases next_round_def split: if_splits option.splits sum.splits)
qed

lemma unlocked_steps:
  assumes "cs_writer s = None" "\<nexists>r. cs_pc s t = Done r" "cs_pc s t \<noteq> Idle" "cs_pc s t \<noteq> WaitFlight"
    and "\<nexists>n g. cs_pc s t = Fetching n g"
  shows "task_step t tick utc s \<noteq> None"
  using assms by (cases "cs_pc s t") (auto simp: task_step_def)

text \<open>No call hangs in the cache. A call needs at most fifteen steps of its own, however often
  the table is invalidated meanwhile; and whenever some call is not done, some task can go on:
  either it makes a step, whatever the clocks say, or it is the answer of Accounts that is
  awaited. No two tasks wait for each other's locks.\<close>

theorem cache_progress:
  assumes "cache_start s0" "run (cache_step digest) s0 es s"
  shows "(\<forall>e s' t tick utc r. cache_exec digest e s = Some s' \<and> e \<in> {Step t tick utc, Answer t r} \<longrightarrow>
       work (cs_pc s' t) < work (cs_pc s t) \<and> work (cs_pc s t) \<le> 15 \<and>
       (\<forall>u. u \<noteq> t \<longrightarrow> cs_pc s' u = cs_pc s u)) \<and>
     (0 < work (cs_pc s t) \<longrightarrow> (\<exists>u. (\<forall>tick utc. task_step u tick utc s \<noteq> None) \<or> (\<exists>n g. cs_pc s u = Fetching n g)))"
proof -
  have inv: "cache_inv s" using auth_cache.reachable_inv [OF assms] .
  have steps: "work (cs_pc s' t) < work (cs_pc s t) \<and> work (cs_pc s t) \<le> 15 \<and> (\<forall>u. u \<noteq> t \<longrightarrow> cs_pc s' u = cs_pc s u)"
    if "cache_exec digest e s = Some s'" "e \<in> {Step t tick utc, Answer t r}" for e s' t tick utc r
    using exec_work [OF inv that] exec_others [OF that(1)] work_bound that(2) by auto
  have "\<exists>u. (\<forall>tick utc. task_step u tick utc s \<noteq> None) \<or> (\<exists>n g. cs_pc s u = Fetching n g)" if busy: "0 < work (cs_pc s t)"
  proof (cases "cs_writer s")
    case (Some u)
    with inv have "holds_write (cs_pc s u)" unfolding cache_inv_def locks_ok_def by blast
    then have "task_step u tick utc s \<noteq> None" for tick utc
      by (cases "cs_pc s u") (auto simp: task_step_def)
    then show ?thesis by blast
  next
    case None
    have free: ?thesis if "\<nexists>r. cs_pc s u = Done r" "cs_pc s u \<noteq> Idle" "cs_pc s u \<noteq> WaitFlight" for u
      using unlocked_steps [OF None that] by blast
    show ?thesis
    proof (cases "cs_pc s t = WaitFlight")
      case False
      with busy free [of t] show ?thesis by (cases "cs_pc s t") auto
    next
      case True
      show ?thesis
      proof (cases "cs_flights s (stripe (cs_key s t))")
        case flight: None
        with True have "task_step t tick utc s \<noteq> None" for tick utc by (simp add: task_step_def)
        then show ?thesis by blast
      next
        case (Some u)
        with inv have "holds_flight (cs_pc s u)" unfolding cache_inv_def locks_ok_def by blast
        with free [of u] show ?thesis by (cases "cs_pc s u") auto
      qed
    qed
  qed
  with steps show ?thesis by blast
qed

theorem cache_progress_witness:
  "\<exists>s. run (cache_step id) idle_state fetching_events s \<and> 0 < work (cs_pc s 2) \<and>
     (\<exists>u. (\<forall>tick utc. task_step u tick utc s \<noteq> None) \<or> (\<exists>n g. cs_pc s u = Fetching n g))"
proof -
  have "\<exists>s. exec_events id fetching_events idle_state = Some s \<and> cs_pc s 2 = WaitFlight"
    by (simp add: fetching_events_def exec_cases idle_state_def empty_cache_def cached_def)
  then obtain s where s: "exec_events id fetching_events idle_state = Some s" "cs_pc s 2 = WaitFlight" by blast
  from s(2) have busy: "0 < work (cs_pc s 2)" by simp
  with cache_progress [OF idle_start exec_events_run [OF s(1)], of 2] exec_events_run [OF s(1)] show ?thesis by blast
qed

end
