(* ===== verification/SB_Accounts.thy ===== *)
theory SB_Accounts
  imports SB_AuthCache
begin

text \<open>
  The client of Silicon Accounts (\<open>src/crates/backend/src/auth.rs\<close>): the bounded decoding of its
  answers, introspection, the exchanges of credentials, and the trait \<open>IdentityProvider\<close> that the
  server sees. The HTTP client, the JSON decoders and the state of Accounts are parameters.
\<close>

section \<open>Answers of Accounts\<close>

definition MAX_RESPONSE_BYTES :: nat where "MAX_RESPONSE_BYTES = 1024 * 1024"

record accounts_response = http_response +
  rs_request_id :: "str option"

fun read_answer :: "bytes \<Rightarrow> (str + bytes) list \<Rightarrow> identity_error + bytes" where
  "read_answer body [] = Inr body"
| "read_answer body (Inl message # rest) = Inl (upstream TransportFailed)"
| "read_answer body (Inr chunk # rest) =
     (if length body + length chunk > MAX_RESPONSE_BYTES then Inl (upstream InvalidAnswer)
      else read_answer (body @ chunk) rest)"

text \<open>\<open>error_code\<close> reads the string under \<open>error\<close> in a JSON object.\<close>

definition accounts_answer ::
  "(bytes \<Rightarrow> str option) \<Rightarrow> (bytes \<Rightarrow> 'a option) \<Rightarrow> accounts_response \<Rightarrow> identity_error + 'a" where
  "accounts_answer error_code decode r =
     (let status = rs_status r;
          retry_after = map_option (\<lambda>seconds. seconds * nat NANOS_PER_SECOND) (Option.bind (rs_retry_after r) parse_u64)
      in
      if (case rs_content_length r of Some n \<Rightarrow> n > MAX_RESPONSE_BYTES | None \<Rightarrow> False)
      then Inl (upstream InvalidAnswer)
      else tryE (read_answer [] (rs_chunks r)) (\<lambda>body.
        if \<not> (200 \<le> status \<and> status < 300)
        then if status = 429 \<or> (500 \<le> status \<and> status < 600)
             then Inl (IUpstream (if status = 429 then RateLimited else Unavailable) (rs_request_id r) retry_after)
             else let code = (case error_code body of Some c \<Rightarrow> c | None \<Rightarrow> lit ''request_rejected'')
                  in if code = lit ''invalid_grant'' then Inl IUnauthenticated
                     else Inl (IRejected status code (rs_request_id r))
        else ok_or (upstream InvalidAnswer) (decode body)))"

lemma read_answer_bound: "read_answer body parts = Inr b \<Longrightarrow> length body \<le> MAX_RESPONSE_BYTES \<Longrightarrow> length b \<le> MAX_RESPONSE_BYTES"
  by (induction body parts rule: read_answer.induct) (auto split: if_splits)

section \<open>The client\<close>

record account =
  acc_uuid :: str
  acc_membership_id :: str
  acc_kind :: identity_kind
  acc_id :: str

record token_response =
  tr_access_token :: str
  tr_refresh_token :: str
  tr_token_type :: str
  tr_expires_in :: int
  tr_membership_id :: str
  tr_account :: account
  tr_scope :: str

record account_lookup =
  al_uuid :: str
  al_id :: str
  al_kind :: identity_kind
  al_status :: str

text \<open>The requests: a form posted to a path, and the lookup of an account by its public id; both
  carry the application's credentials.\<close>

datatype accounts_call =
    PostForm string "(string \<times> str) list"
  | GetAccountById str

text \<open>The HTTP client, the decoders, the clocks and the serialization of the authorization URL. The
  fixed paths join to the checked origin without failing.\<close>

record ('u, 'p) accounts_backend =
  ab_app_id :: str
  ab_base :: str
  ab_send :: "accounts_call \<Rightarrow> ('p, unit, accounts_response) act"
  ab_error_code :: "bytes \<Rightarrow> str option"
  ab_introspection :: "bytes \<Rightarrow> introspection option"
  ab_token :: "bytes \<Rightarrow> token_response option"
  ab_lookup :: "bytes \<Rightarrow> account_lookup option"
  ab_value :: "bytes \<Rightarrow> unit option"
  ab_authorize :: "(string \<times> str) list \<Rightarrow> str"
  ab_from_timestamp :: "int \<Rightarrow> instant option"
  ab_uuid :: "'u uuid_api"
  ab_digest :: "str \<Rightarrow> bytes"
  ab_now :: "nat \<Rightarrow> 'p \<Rightarrow> instant"
  ab_tick :: "nat \<Rightarrow> 'p \<Rightarrow> int"
  ab_cache_on :: bool

text \<open>\<open>AccountsIdentityProvider::connect\<close>: what it demands of its configuration.\<close>

definition accounts_connect :: "url_parser \<Rightarrow> str \<Rightarrow> str \<Rightarrow> str \<Rightarrow> identity_error + url" where
  "accounts_connect parse base app_id_text secret =
     tryE (map_err (\<lambda>_. input ''accounts_url'' ''expected an HTTP(S) URL'') (parse base)) (\<lambda>u.
       if \<not> is_https_or_loopback_http u \<or> url_username u \<noteq> [] \<or> url_password u \<noteq> None \<or>
          url_query u \<noteq> None \<or> url_fragment u \<noteq> None \<or> url_path u \<noteq> lit ''/''
       then Inl (input ''accounts_url'' ''expected an HTTPS origin, or loopback HTTP'')
       else tryE (map_err (\<lambda>_. input ''accounts_app_id'' ''expected a bare app ID'')
                   (app_id app_id_text ''accounts_app_id'')) (\<lambda>_.
         if \<not> opaque secret ''sa_app_''
         then Inl (input ''accounts_app_secret'' ''expected the Accounts sa_app_ application secret'')
         else Inr u))"

definition accounts_request ::
  "('u, 'p) accounts_backend \<Rightarrow> (bytes \<Rightarrow> 'a option) \<Rightarrow> accounts_call \<Rightarrow> ('p, identity_error, 'a) act" where
  "accounts_request ab decode request =
     bindA (map_errA (\<lambda>_. upstream TransportFailed) (ab_send ab request)) (\<lambda>response.
       liftA (accounts_answer (ab_error_code ab) decode response))"

definition accounts_issuer :: "('u, 'p) accounts_backend \<Rightarrow> str" where
  "accounts_issuer ab = trim_end_char 47 (ab_base ab)"

definition introspect :: "('u, 'p) accounts_backend \<Rightarrow> str \<Rightarrow> ('p, identity_error, principal_identity) act" where
  "introspect ab token =
     (if \<not> jwt token then errA IUnauthenticated
      else bindA (accounts_request ab (ab_introspection ab) (PostForm ''v1/oauth/introspect'' [(''token'', token)]))
        (\<lambda>claims p. (identity_from_claims (ab_uuid ab) (ab_from_timestamp ab) (ab_now ab 0 p) (ab_now ab 1 p) claims
           (accounts_issuer ab) (ab_app_id ab), p)))"

definition token_response_ok :: "token_response \<Rightarrow> bool" where
  "token_response_ok t \<longleftrightarrow>
     tr_token_type t = lit ''Bearer'' \<and> 1 \<le> tr_expires_in t \<and> tr_expires_in t \<le> 1800 \<and>
     jwt (tr_access_token t) \<and> opaque (tr_refresh_token t) ''sar_''"

definition account_agrees :: "token_response \<Rightarrow> principal_identity \<Rightarrow> bool" where
  "account_agrees t i \<longleftrightarrow>
     pr_principal_id i = acc_uuid (tr_account t) \<and> pr_kind i = acc_kind (tr_account t) \<and>
     pr_public_id i = Some (acc_id (tr_account t)) \<and> pr_membership_id i = tr_membership_id t \<and>
     acc_membership_id (tr_account t) = tr_membership_id t"

definition accounts_exchange ::
  "('u, 'p) accounts_backend \<Rightarrow> (string \<times> str) list \<Rightarrow> ('p, identity_error, exchanged_auth) act" where
  "accounts_exchange ab form =
     bindA (accounts_request ab (ab_token ab) (PostForm ''v1/oauth/token'' form)) (\<lambda>token.
       if \<not> token_response_ok token then errA (contract ''token exchange'' ''invalid token response'')
       else bindA (introspect ab (tr_access_token token)) (\<lambda>identity.
         if \<not> account_agrees token identity
         then errA (contract ''token exchange'' ''account response disagreed with authenticated introspection'')
         else okA \<lparr>xa_access_token = tr_access_token token, xa_refresh_token = tr_refresh_token token,
                xa_identity = identity, xa_scope = tr_scope token\<rparr>))"

definition authorization_url :: "('u, 'p) accounts_backend \<Rightarrow> str \<Rightarrow> str \<Rightarrow> str \<Rightarrow> identity_error + str" where
  "authorization_url ab redirect state challenge =
     Inr (ab_authorize ab [(''app_id'', ab_app_id ab), (''redirect_uri'', redirect), (''state'', state),
       (''code_challenge'', challenge), (''code_challenge_method'', lit ''S256''),
       (''response_type'', lit ''code''), (''scope'', lit ''profile'')])"

definition accounts_exchange_code ::
  "('u, 'p) accounts_backend \<Rightarrow> code_exchange_request \<Rightarrow> ('p, identity_error, exchanged_auth) act" where
  "accounts_exchange_code ab request =
     (if \<not> opaque (cx_code request) ''sac_'' then errA (input ''code'' ''expected an Accounts authorization code'')
      else accounts_exchange ab [(''grant_type'', lit ''authorization_code''), (''code'', cx_code request),
        (''redirect_uri'', cx_redirect_uri request), (''code_verifier'', cx_code_verifier request)])"

definition accounts_exchange_short_lived ::
  "('u, 'p) accounts_backend \<Rightarrow> str \<Rightarrow> ('p, identity_error, exchanged_auth) act" where
  "accounts_exchange_short_lived ab token =
     (if \<not> opaque token ''slt_'' then errA (input ''short_lived_token'' ''expected an Accounts slt_ token'')
      else accounts_exchange ab
        [(''grant_type'', lit ''urn:silicon:params:oauth:grant-type:slt''), (''slt'', token)])"

text \<open>An access selector is an account's identifier already, or a public id that Accounts resolves.\<close>

definition accounts_resolve_account_id :: "('u, 'p) accounts_backend \<Rightarrow> str \<Rightarrow> ('p, identity_error, str) act" where
  "accounts_resolve_account_id ab selector =
     (if is_ok (account_id (ab_uuid ab) selector ''access'') then okA selector
      else bindA (liftA (map_err (\<lambda>_. input ''access'' ''expected @Accounts UUID or @c:/si: handle'')
                    (actor_id selector ''access''))) (\<lambda>_.
        bindA (accounts_request ab (ab_lookup ab) (GetAccountById selector)) (\<lambda>account.
          if al_id account \<noteq> selector \<or> actor_id (al_id account) ''access'' \<noteq> Inr (al_kind account) \<or>
             \<not> is_ok (account_id (ab_uuid ab) (al_uuid account) ''access'') \<or> al_status account \<noteq> lit ''active''
          then errA (input ''access'' ''sharing requires an active Accounts account'')
          else okA (al_uuid account))))"

section \<open>The identity provider\<close>

record 'p auth_world =
  wa_cache :: auth_cache
  wa_service :: 'p

definition at_service :: "('p, 'e, 'a) act \<Rightarrow> ('p auth_world, 'e, 'a) act" where
  "at_service m w = (case m (wa_service w) of (r, p) \<Rightarrow> (r, w\<lparr>wa_service := p\<rparr>))"

text \<open>\<open>resolve\<close> as one action: what it does when no other task touches the cache meanwhile. The
  theorem \<open>resolve_alone\<close> below relates it to the steps of \<open>SB_AuthCache\<close>.\<close>

definition cache_resolve ::
  "('u, 'p) accounts_backend \<Rightarrow> str \<Rightarrow> ('p, identity_error, principal_identity) act \<Rightarrow>
   ('p auth_world, identity_error, principal_identity) act" where
  "cache_resolve ab token fetch w =
     (let key = ab_digest ab token; p = wa_service w; c = wa_cache w in
      case cached (ab_tick ab 0 p) (ab_now ab 0 p) key c of
        Some identity \<Rightarrow> (Inr identity, w)
      | None \<Rightarrow>
          (case cached (ab_tick ab 1 p) (ab_now ab 1 p) key c of
             Some identity \<Rightarrow> (Inr identity, w)
           | None \<Rightarrow>
               (case fetch p of
                  (Inl error, q) \<Rightarrow> (Inl error, w\<lparr>wa_service := q\<rparr>)
                | (Inr identity, q) \<Rightarrow>
                    if pr_expires_at identity \<le> ab_now ab 2 q then (Inl IUnauthenticated, w\<lparr>wa_service := q\<rparr>)
                    else (Inr identity, w\<lparr>wa_service := q,
                            wa_cache := store_entry (ab_tick ab 3 q) key identity (ac_generation c) c\<rparr>))))"

definition cache_invalidate :: "auth_cache \<Rightarrow> auth_cache" where
  "cache_invalidate c = clear_entries (bump_generation c)"

definition invalidate_if_on :: "('u, 'p) accounts_backend \<Rightarrow> 'p auth_world \<Rightarrow> 'p auth_world" where
  "invalidate_if_on ab w = (if ab_cache_on ab then w\<lparr>wa_cache := cache_invalidate (wa_cache w)\<rparr> else w)"

definition accounts_identify ::
  "('u, 'p) accounts_backend \<Rightarrow> str \<Rightarrow> ('p auth_world, identity_error, principal_identity) act" where
  "accounts_identify ab token =
     (if ab_cache_on ab then cache_resolve ab token (introspect ab token) else at_service (introspect ab token))"

definition accounts_refresh ::
  "('u, 'p) accounts_backend \<Rightarrow> str \<Rightarrow> ('p auth_world, identity_error, exchanged_auth) act" where
  "accounts_refresh ab token w =
     (if \<not> opaque token ''sar_'' then (Inl (input ''refresh_token'' ''expected an Accounts sar_ token''), w)
      else case at_service (accounts_exchange ab
                  [(''grant_type'', lit ''refresh_token''), (''refresh_token'', token)]) w of
             (r, w') \<Rightarrow> (r, invalidate_if_on ab w'))"

definition accounts_revoke :: "('u, 'p) accounts_backend \<Rightarrow> str \<Rightarrow> ('p auth_world, identity_error, unit) act" where
  "accounts_revoke ab token =
     bindA (at_service (accounts_request ab (ab_value ab) (PostForm ''v1/oauth/revoke'' [(''token'', token)]))) (\<lambda>_ w.
       (Inr (), invalidate_if_on ab w))"

text \<open>The trait \<open>IdentityProvider\<close> over a state \<open>'w\<close>, and its implementation by the client.\<close>

record 'w identity_api =
  ia_app_id :: str
  ia_authorization_url :: "str \<Rightarrow> str \<Rightarrow> str \<Rightarrow> identity_error + str"
  ia_exchange_code :: "code_exchange_request \<Rightarrow> ('w, identity_error, exchanged_auth) act"
  ia_resolve_account :: "str \<Rightarrow> ('w, identity_error, str) act"
  ia_identify :: "str \<Rightarrow> ('w, identity_error, principal_identity) act"
  ia_exchange_short_lived :: "str \<Rightarrow> ('w, identity_error, exchanged_auth) act"
  ia_refresh :: "str \<Rightarrow> ('w, identity_error, exchanged_auth) act"
  ia_revoke :: "str \<Rightarrow> ('w, identity_error, unit) act"

definition accounts_api :: "('u, 'p) accounts_backend \<Rightarrow> 'p auth_world identity_api" where
  "accounts_api ab =
     \<lparr>ia_app_id = ab_app_id ab,
      ia_authorization_url = authorization_url ab,
      ia_exchange_code = (\<lambda>request. at_service (accounts_exchange_code ab request)),
      ia_resolve_account = (\<lambda>selector. at_service (accounts_resolve_account_id ab selector)),
      ia_identify = accounts_identify ab,
      ia_exchange_short_lived = (\<lambda>token. at_service (accounts_exchange_short_lived ab token)),
      ia_refresh = accounts_refresh ab,
      ia_revoke = accounts_revoke ab\<rparr>"

section \<open>The two views of a lookup\<close>

definition alone :: "nat \<Rightarrow> pc \<Rightarrow> bytes \<Rightarrow> auth_cache \<Rightarrow> nat option \<Rightarrow> cache_state \<Rightarrow> bool" where
  "alone t p key c f s \<longleftrightarrow>
     cs_pc s t = p \<and> cs_key s t = key \<and> cs_cache s = c \<and> cs_writer s = None \<and> cs_flights s (stripe key) = f"

definition can_end :: "(str \<Rightarrow> bytes) \<Rightarrow> nat \<Rightarrow> cache_state \<Rightarrow> identity_error + principal_identity \<Rightarrow> auth_cache \<Rightarrow> bool" where
  "can_end digest t s r c \<longleftrightarrow> (\<exists>es s'. exec_events digest es s = Some s' \<and> cs_pc s' t = Done r \<and> cs_cache s' = c \<and>
     (\<forall>e \<in> set es. actor_of e = t))"

lemma can_end_now: "cs_pc s t = Done r \<Longrightarrow> cs_cache s = c \<Longrightarrow> can_end digest t s r c"
  unfolding can_end_def by (intro exI [of _ "[]"] exI [of _ s]) simp

lemma can_end_step:
  assumes "cache_exec digest e s = Some s1" "actor_of e = t" "can_end digest t s1 r c"
  shows "can_end digest t s r c"
proof -
  from assms(3) obtain es s' where "exec_events digest es s1 = Some s'" "cs_pc s' t = Done r" "cs_cache s' = c"
    "\<forall>e \<in> set es. actor_of e = t" unfolding can_end_def by blast
  with assms(1,2) show ?thesis unfolding can_end_def by (intro exI [of _ "e # es"] exI [of _ s']) simp
qed

lemma alone_hit:
  assumes "alone t p key c f s" "p = LookFirst \<or> p = LookAgain" "cached tick utc key c = Some i"
  shows "can_end digest t s (Inr i) c"
proof -
  from assms have "\<exists>s1. cache_exec digest (Step t tick utc) s = Some s1 \<and> cs_pc s1 t = Done (Inr i) \<and> cs_cache s1 = c"
    by (auto simp: alone_def exec_cases)
  then show ?thesis using can_end_step can_end_now by (metis actor_of.simps(3))
qed

lemma alone_move:
  assumes "cache_exec digest e s = Some s1" "actor_of e = t" "alone t p key c f s1"
    and "\<And>s1. alone t p key c f s1 \<Longrightarrow> can_end digest t s1 r d"
  shows "can_end digest t s r d"
  using assms can_end_step by blast

lemma alone_first_miss:
  assumes "alone t LookFirst key c None s" "cached tick utc key c = None"
    and "\<And>s1. alone t LookAgain key c (Some t) s1 \<Longrightarrow> can_end digest t s1 r d"
  shows "can_end digest t s r d"
proof -
  from assms(1,2) have "alone t WaitFlight key c None (set_pc t WaitFlight s)"
    and "cache_exec digest (Step t tick utc) s = Some (set_pc t WaitFlight s)"
    by (simp_all add: alone_def exec_cases)
  moreover have "can_end digest t u r d" if "alone t WaitFlight key c None u" for u
  proof -
    let ?v = "set_pc t LookAgain (u\<lparr>cs_flights := (cs_flights u)(stripe key := Some t)\<rparr>)"
    from that have "cache_exec digest (Step t 0 0) u = Some ?v" "alone t LookAgain key c (Some t) ?v"
      by (simp_all add: alone_def exec_cases)
    with assms(3) show ?thesis by (intro alone_move [of digest "Step t 0 0" u ?v]) auto
  qed
  ultimately show ?thesis by (intro alone_move [of digest "Step t tick utc" s]) auto
qed

lemma alone_second_miss:
  assumes "alone t LookAgain key c (Some t) s" "cached tick utc key c = None"
    and "\<And>s1. alone t (Fetching 0 (ac_generation c)) key c (Some t) s1 \<Longrightarrow> can_end digest t s1 r d"
  shows "can_end digest t s r d"
proof -
  from assms(1,2) have "alone t (LoadGeneration 0) key c (Some t) (set_pc t (LoadGeneration 0) s)"
    and "cache_exec digest (Step t tick utc) s = Some (set_pc t (LoadGeneration 0) s)"
    by (simp_all add: alone_def exec_cases)
  moreover have "can_end digest t u r d" if "alone t (LoadGeneration 0) key c (Some t) u" for u
  proof -
    let ?v = "set_pc t (Fetching 0 (ac_generation c)) (u\<lparr>cs_began := (cs_began u)(t := cs_count u)\<rparr>)"
    from that have "cache_exec digest (Step t 0 0) u = Some ?v" "alone t (Fetching 0 (ac_generation c)) key c (Some t) ?v"
      by (simp_all add: alone_def exec_cases)
    with assms(3) show ?thesis by (intro alone_move [of digest "Step t 0 0" u ?v]) auto
  qed
  ultimately show ?thesis by (intro alone_move [of digest "Step t tick utc" s]) auto
qed

lemma alone_failed:
  assumes "alone t (Fetching n g) key c f s"
  shows "can_end digest t s (Inl e) c"
proof (rule can_end_step)
  show "cache_exec digest (Answer t (Inl e)) s = Some (finish t (Inl e) s)"
    using assms by (simp add: alone_def exec_cases)
qed (use assms in \<open>auto simp: alone_def intro: can_end_now\<close>)

lemma alone_compare:
  assumes "alone t (Fetching n g) key c f s"
    and "\<And>s1. alone t (Compare n g i) key c f s1 \<Longrightarrow> can_end digest t s1 r d"
  shows "can_end digest t s r d"
proof -
  let ?v = "set_pc t (Compare n g i) (s\<lparr>cs_answers := insert (cs_key s t, i, cs_began s t) (cs_answers s)\<rparr>)"
  from assms(1) have "cache_exec digest (Answer t (Inr i)) s = Some ?v" "alone t (Compare n g i) key c f ?v"
    by (simp_all add: alone_def exec_cases)
  with assms(2) show ?thesis by (intro alone_move [of digest "Answer t (Inr i)" s ?v]) auto
qed

lemma alone_expired:
  assumes "alone t (Compare n (ac_generation c) i) key c f s" "pr_expires_at i \<le> utc"
  shows "can_end digest t s (Inl IUnauthenticated) c"
proof (rule can_end_step)
  show "cache_exec digest (Step t 0 utc) s = Some (finish t (Inl IUnauthenticated) s)"
    using assms by (simp add: alone_def exec_cases)
qed (use assms in \<open>auto simp: alone_def intro: can_end_now\<close>)

lemma alone_stored:
  assumes "alone t (Compare n (ac_generation c) i) key c f s" "\<not> pr_expires_at i \<le> utc"
  shows "can_end digest t s (Inr i) (store_entry tick key i (ac_generation c) c)"
proof -
  let ?u = "set_pc t (WaitWrite n (ac_generation c) i) s"
  let ?v = "set_pc t (Recheck n (ac_generation c) i) (?u\<lparr>cs_writer := Some t\<rparr>)"
  let ?x = "set_pc t (Insert (ac_generation c) i) ?v"
  let ?y = "finish t (Inr i) (?x\<lparr>cs_cache := store_entry tick key i (ac_generation c) c, cs_writer := None\<rparr>)"
  have u: "cache_exec digest (Step t 0 utc) s = Some ?u" using assms by (simp add: alone_def exec_cases)
  have v: "cache_exec digest (Step t 0 0) ?u = Some ?v" using assms by (simp add: alone_def exec_cases)
  have x: "cache_exec digest (Step t 0 0) ?v = Some ?x" using assms by (simp add: alone_def exec_cases)
  have y: "cache_exec digest (Step t tick 0) ?x = Some ?y" using assms by (simp add: alone_def exec_cases)
  have "can_end digest t ?y (Inr i) (store_entry tick key i (ac_generation c) c)" by (rule can_end_now) simp_all
  from can_end_step [OF y _ this] have "can_end digest t ?x (Inr i) (store_entry tick key i (ac_generation c) c)" by simp
  from can_end_step [OF x _ this] have "can_end digest t ?v (Inr i) (store_entry tick key i (ac_generation c) c)" by simp
  from can_end_step [OF v _ this] have "can_end digest t ?u (Inr i) (store_entry tick key i (ac_generation c) c)" by simp
  from can_end_step [OF u _ this] show ?thesis by simp
qed

text \<open>Run alone from a state in which no lock is held that it needs, a call ends with the result of
  \<open>cache_resolve\<close> and leaves the cache that \<open>cache_resolve\<close> leaves: the action is the task's
  program without interference.\<close>

definition quiet :: "nat \<Rightarrow> bytes \<Rightarrow> cache_state \<Rightarrow> bool" where
  "quiet t key s \<longleftrightarrow> cs_pc s t = Idle \<and> cs_writer s = None \<and> cs_flights s (stripe key) = None"

lemma resolve_alone:
  assumes "quiet t (ab_digest ab token) s" "cs_cache s = wa_cache w"
    and "cache_resolve ab token fetch w = (r, w')"
  shows "can_end (ab_digest ab) t s r (wa_cache w')"
proof -
  let ?d = "ab_digest ab" and ?key = "ab_digest ab token" and ?p = "wa_service w" and ?c = "wa_cache w"
  let ?s = "set_pc t LookFirst (s\<lparr>cs_key := (cs_key s)(t := ?key)\<rparr>)"
  have call: "cache_exec ?d (Call t token) s = Some ?s" and start: "alone t LookFirst ?key ?c None ?s"
    using assms(1,2) by (simp_all add: quiet_def alone_def exec_cases)
  have fetched: "can_end ?d t u r (wa_cache w')" if look: "cached (ab_tick ab 0 ?p) (ab_now ab 0 ?p) ?key ?c = None"
    "cached (ab_tick ab 1 ?p) (ab_now ab 1 ?p) ?key ?c = None"
    and u: "alone t (Fetching 0 (ac_generation ?c)) ?key ?c (Some t) u" for u
  proof (cases "fetch ?p")
    case (Pair a q)
    show ?thesis
    proof (cases a)
      case (Inl e)
      with assms(3) look Pair have "r = Inl e" "wa_cache w' = ?c" by (auto simp: cache_resolve_def Let_def)
      with alone_failed [OF u] show ?thesis by simp
    next
      case (Inr i)
      show ?thesis
      proof (cases "pr_expires_at i \<le> ab_now ab 2 q")
        case True
        with assms(3) look Pair Inr have "r = Inl IUnauthenticated" "wa_cache w' = ?c"
          by (auto simp: cache_resolve_def Let_def)
        with alone_compare [OF u] alone_expired True show ?thesis by metis
      next
        case False
        with assms(3) look Pair Inr have "r = Inr i"
          "wa_cache w' = store_entry (ab_tick ab 3 q) ?key i (ac_generation ?c) ?c"
          by (auto simp: cache_resolve_def Let_def)
        with alone_compare [OF u] alone_stored False show ?thesis by metis
      qed
    qed
  qed
  have "can_end ?d t ?s r (wa_cache w')"
  proof (cases "cached (ab_tick ab 0 ?p) (ab_now ab 0 ?p) ?key ?c")
    case (Some i)
    with assms(3) have "r = Inr i" "wa_cache w' = ?c" by (auto simp: cache_resolve_def Let_def)
    with alone_hit [OF start _ Some] show ?thesis by simp
  next
    case first: None
    have "can_end ?d t u r (wa_cache w')" if u: "alone t LookAgain ?key ?c (Some t) u" for u
    proof (cases "cached (ab_tick ab 1 ?p) (ab_now ab 1 ?p) ?key ?c")
      case (Some i)
      with first assms(3) have "r = Inr i" "wa_cache w' = ?c" by (auto simp: cache_resolve_def Let_def)
      with alone_hit [OF u _ Some] show ?thesis by simp
    next
      case None
      from alone_second_miss [OF u None fetched [OF first None]] show ?thesis .
    qed
    from alone_first_miss [OF start first this] show ?thesis .
  qed
  from can_end_step [OF call _ this] show ?thesis by simp
qed

section \<open>What an exchange guarantees\<close>

lemma accounts_request_Inr:
  assumes "accounts_request ab decode request p = (Inr x, q)"
  shows "\<exists>response. ab_send ab request p = (Inr response, q) \<and> accounts_answer (ab_error_code ab) decode response = Inr x"
  using assms unfolding accounts_request_def bindA_Inr map_errA_Inr by auto

text \<open>Accounts has vouched for the identity in its answer to an introspection of the token.\<close>

definition vouched_for ::
  "('u, 'p) accounts_backend \<Rightarrow> str \<Rightarrow> principal_identity \<Rightarrow> 'p \<Rightarrow> 'p \<Rightarrow> bool" where
  "vouched_for ab token identity p q \<longleftrightarrow>
     jwt token \<and> ab_now ab 0 q < pr_expires_at identity \<and>
     (\<exists>response c. ab_send ab (PostForm ''v1/oauth/introspect'' [(''token'', token)]) p = (Inr response, q) \<and>
        accounts_answer (ab_error_code ab) (ab_introspection ab) response = Inr c \<and>
        vouched (ab_uuid ab) (ab_from_timestamp ab) c (accounts_issuer ab) (ab_app_id ab) identity)"

lemma introspect_vouches:
  assumes "introspect ab token p = (Inr identity, q)"
  shows "vouched_for ab token identity p q"
proof -
  from assms have jwt: "jwt token"
    and run: "bindA (accounts_request ab (ab_introspection ab) (PostForm ''v1/oauth/introspect'' [(''token'', token)]))
        (\<lambda>claims p. (identity_from_claims (ab_uuid ab) (ab_from_timestamp ab) (ab_now ab 0 p) (ab_now ab 1 p) claims
           (accounts_issuer ab) (ab_app_id ab), p)) p = (Inr identity, q)"
    unfolding introspect_def by (auto split: if_splits)
  from run obtain c where "accounts_request ab (ab_introspection ab) (PostForm ''v1/oauth/introspect'' [(''token'', token)]) p = (Inr c, q)"
    and "identity_from_claims (ab_uuid ab) (ab_from_timestamp ab) (ab_now ab 0 q) (ab_now ab 1 q) c
           (accounts_issuer ab) (ab_app_id ab) = Inr identity"
    unfolding bindA_Inr by auto
  with jwt accounts_request_Inr identity_from_claims_ok show ?thesis
    unfolding vouched_for_def by metis
qed

text \<open>C33: credentials are handed out only for an account that Accounts has confirmed: when an exchange
  of a code, a short-lived token or a refresh token succeeds, the access token it returns has been
  introspected afterwards, Accounts has called it active, issued by itself for this application and
  bound to a stable account, and this account is the one that the exchange named.\<close>

theorem exchange_vouched:
  assumes "accounts_exchange ab form p = (Inr x, q)"
  shows "\<exists>response token p1. ab_send ab (PostForm ''v1/oauth/token'' form) p = (Inr response, p1) \<and>
     accounts_answer (ab_error_code ab) (ab_token ab) response = Inr token \<and>
     xa_access_token x = tr_access_token token \<and> xa_refresh_token x = tr_refresh_token token \<and>
     opaque (xa_refresh_token x) ''sar_'' \<and> account_agrees token (xa_identity x) \<and>
     vouched_for ab (xa_access_token x) (xa_identity x) p1 q"
proof -
  from assms obtain token p1 where request: "accounts_request ab (ab_token ab) (PostForm ''v1/oauth/token'' form) p = (Inr token, p1)"
    and rest: "(if \<not> token_response_ok token then errA (contract ''token exchange'' ''invalid token response'')
       else bindA (introspect ab (tr_access_token token)) (\<lambda>identity.
         if \<not> account_agrees token identity
         then errA (contract ''token exchange'' ''account response disagreed with authenticated introspection'')
         else okA \<lparr>xa_access_token = tr_access_token token, xa_refresh_token = tr_refresh_token token,
                xa_identity = identity, xa_scope = tr_scope token\<rparr>)) p1 = (Inr x, q)"
    unfolding accounts_exchange_def bindA_Inr by blast
  from rest have ok: "token_response_ok token" by (auto split: if_splits)
  with rest obtain identity where "introspect ab (tr_access_token token) p1 = (Inr identity, q)"
    and "account_agrees token identity" and "x = \<lparr>xa_access_token = tr_access_token token, xa_refresh_token = tr_refresh_token token,
                xa_identity = identity, xa_scope = tr_scope token\<rparr>"
    by (auto simp: bindA_Inr split: if_splits)
  with ok accounts_request_Inr [OF request] introspect_vouches show ?thesis
    unfolding token_response_ok_def by fastforce
qed

section \<open>A sample service\<close>

text \<open>Accounts with one account; the bodies of its answers are told apart by their first byte.\<close>

definition echo_uuids :: "str uuid_api" where
  "echo_uuids = \<lparr>uuid_parse = Some, uuid_version = (\<lambda>_. 4), uuid_rfc4122 = (\<lambda>_. True), uuid_hyphenated = (\<lambda>s. s)\<rparr>"

definition ada_uuid :: str where "ada_uuid = replicate 36 97"

definition ada_membership :: str where "ada_membership = lit ''browser:'' @ ada_uuid"

definition ada_jwt :: str where "ada_jwt = lit ''h.p.s''"

definition ada_token :: token_response where
  "ada_token = \<lparr>tr_access_token = ada_jwt, tr_refresh_token = lit ''sar_new'', tr_token_type = lit ''Bearer'',
     tr_expires_in = 900, tr_membership_id = ada_membership,
     tr_account = \<lparr>acc_uuid = ada_uuid, acc_membership_id = ada_membership, acc_kind = Carbon, acc_id = lit ''c:ada''\<rparr>,
     tr_scope = []\<rparr>"

definition ada_claims :: introspection where
  "ada_claims = \<lparr>in_active = True, in_iss = Some (lit ''https://a''), in_sub = Some ada_uuid, in_aud = Some (lit ''browser''),
     in_client_id = Some (lit ''browser''), in_exp = Some 900, in_nbf = None, in_kind = Some Carbon,
     in_id = Some (lit ''c:ada''), in_membership_id = Some ada_membership, in_scope = Some (lit ''profile''),
     in_token_type = Some (lit ''access_token'')\<rparr>"

definition sample_answer :: "bytes \<Rightarrow> accounts_response" where
  "sample_answer body = \<lparr>rs_status = 200, rs_retry_after = None, rs_content_length = None, rs_chunks = [Inr body],
     rs_request_id = None\<rparr>"

definition sample_accounts :: "(str, nat) accounts_backend" where
  "sample_accounts = \<lparr>ab_app_id = lit ''browser'', ab_base = lit ''https://a/'',
     ab_send = (\<lambda>request p. (Inr (case request of
         PostForm path form \<Rightarrow> sample_answer (if path = ''v1/oauth/token'' then [1] else [2])
       | GetAccountById selector \<Rightarrow> sample_answer [3]), Suc p)),
     ab_error_code = (\<lambda>_. None),
     ab_introspection = (\<lambda>body. if body = [2] then Some ada_claims else None),
     ab_token = (\<lambda>body. if body = [1] then Some ada_token else None),
     ab_lookup = (\<lambda>_. None), ab_value = (\<lambda>_. Some ()),
     ab_authorize = (\<lambda>pairs. concat (map snd pairs)), ab_from_timestamp = (\<lambda>s. Some (s * NANOS_PER_SECOND)),
     ab_uuid = echo_uuids, ab_digest = (\<lambda>t. t), ab_now = (\<lambda>_ _. 0), ab_tick = (\<lambda>_ _. 0), ab_cache_on = True\<rparr>"

definition ada_identity :: principal_identity where
  "ada_identity = \<lparr>pr_principal_id = ada_uuid, pr_public_id = Some (lit ''c:ada''), pr_tags = None,
     pr_scopes = [lit ''profile''], pr_kind = Carbon, pr_membership_id = ada_membership,
     pr_authorization_epoch = 0, pr_expires_at = 900 * NANOS_PER_SECOND\<rparr>"

lemma sample_claims:
  "identity_from_claims echo_uuids (\<lambda>s. Some (s * NANOS_PER_SECOND)) 0 0 ada_claims (lit ''https://a'') (lit ''browser'') =
     Inr ada_identity"
proof -
  have "actor_id (lit ''c:ada'') ''id'' = Inr Carbon" by code_simp
  moreover have "lit ''browser:'' = lit ''browser'' @ lit '':''" by (simp add: lit_def)
  moreover have "split_whitespace (lit ''profile'') = [lit ''profile'']" by (simp add: split_whitespace_def is_whitespace_def lit_def)
  moreover have "canonical_account_uuid echo_uuids ada_uuid"
    by (simp add: canonical_account_uuid_def echo_uuids_def ada_uuid_def numeral_eq_Suc utf8_width_def)
  ultimately show ?thesis
    by (simp add: identity_from_claims_def ada_claims_def ada_identity_def account_id_def ada_membership_def
        NANOS_PER_SECOND_def)
qed

lemma sample_issuer: "accounts_issuer sample_accounts = lit ''https://a''"
  by code_simp

lemma sample_jwt: "jwt ada_jwt"
  by code_simp

lemma sample_token_ok: "token_response_ok ada_token"
  by code_simp

lemma sample_agrees: "account_agrees ada_token ada_identity"
  by code_simp

lemma sample_answer_decoded: "length body \<le> 10 \<Longrightarrow> decode body = Some x \<Longrightarrow> accounts_answer code decode (sample_answer body) = Inr x"
  by (simp add: accounts_answer_def sample_answer_def MAX_RESPONSE_BYTES_def)

lemma sample_introspect: "introspect sample_accounts ada_jwt p = (Inr ada_identity, Suc p)"
proof -
  have "accounts_request sample_accounts (ab_introspection sample_accounts) (PostForm ''v1/oauth/introspect'' form) p =
      (Inr ada_claims, Suc p)" for form
    by (simp add: accounts_request_def bindA_def map_errA_def sample_accounts_def sample_answer_decoded)
  moreover have "ab_uuid sample_accounts = echo_uuids" "ab_app_id sample_accounts = lit ''browser''"
    "ab_from_timestamp sample_accounts = (\<lambda>s. Some (s * NANOS_PER_SECOND))" "ab_now sample_accounts = (\<lambda>_ _. 0)"
    by (simp_all add: sample_accounts_def)
  ultimately show ?thesis
    by (simp add: introspect_def sample_jwt bindA_def sample_claims sample_issuer)
qed

definition ada_exchanged :: exchanged_auth where
  "ada_exchanged = \<lparr>xa_access_token = ada_jwt, xa_refresh_token = lit ''sar_new'', xa_identity = ada_identity, xa_scope = []\<rparr>"

lemma sample_exchange: "accounts_exchange sample_accounts form p = (Inr ada_exchanged, Suc (Suc p))"
proof -
  have "accounts_request sample_accounts (ab_token sample_accounts) (PostForm ''v1/oauth/token'' form) p =
      (Inr ada_token, Suc p)"
    by (simp add: accounts_request_def bindA_def map_errA_def sample_accounts_def sample_answer_decoded)
  moreover have "tr_access_token ada_token = ada_jwt" "tr_refresh_token ada_token = lit ''sar_new''" "tr_scope ada_token = []"
    by (simp_all add: ada_token_def)
  ultimately show ?thesis
    by (simp add: accounts_exchange_def bindA_def sample_token_ok sample_introspect sample_agrees ada_exchanged_def)
qed

theorem exchange_vouched_witness:
  "account_agrees ada_token ada_identity \<and> vouched_for sample_accounts ada_jwt ada_identity 1 (Suc 1)"
proof -
  from exchange_vouched [OF sample_exchange [of "[]" 0]]
  obtain response token p1 where "ab_send sample_accounts (PostForm ''v1/oauth/token'' []) 0 = (Inr response, p1)"
    and "accounts_answer (ab_error_code sample_accounts) (ab_token sample_accounts) response = Inr token"
    and "account_agrees token ada_identity" "vouched_for sample_accounts ada_jwt ada_identity p1 (Suc (Suc 0))"
    by (auto simp: ada_exchanged_def)
  moreover from this have "p1 = 1" "token = ada_token"
    by (auto simp: sample_accounts_def sample_answer_decoded)
  ultimately show ?thesis by simp
qed

end
