(* ===== verification/SB_Login.thy ===== *)
theory SB_Login
  imports SB_Accounts
begin

text \<open>
  Sign-in and the caller's identity: the hosted login with its one-shot attempts
  (\<open>src/crates/backend/src/server/login.rs\<close>), the exchange and refresh of credentials and the scope
  of an authenticated request (\<open>src/crates/backend/src/server.rs\<close>), and the shared cache of the
  provider's limits (\<open>src/crates/backend/src/server/usage_limits.rs\<close>).
\<close>

section \<open>The tables\<close>

record login_attempt =
  la_id :: str
  la_state_hash :: str
  la_code_verifier_enc :: str
  la_redirect_uri :: str
  la_expires_at :: int
  la_claimed_at :: "int option"

record token_operation =
  to_digest :: str
  to_operation :: string
  to_submitted_at :: int

text \<open>The two tables of \<open>migrations/0014_accounts.sql\<close> and the state behind the identity provider.\<close>

record 'a login_world =
  lw_attempts :: "login_attempt list"
  lw_operations :: "token_operation list"
  lw_accounts :: 'a

text \<open>\<open>le_hash\<close> is the hexadecimal SHA-256 of a text, \<open>le_challenge\<close> the PKCE challenge of a verifier;
  \<open>le_cutover\<close> tells whether the ledger of account identifiers has been closed.\<close>

record ('u, 'a) login_env =
  le_box :: secret_box
  le_hash :: "str \<Rightarrow> str"
  le_challenge :: "str \<Rightarrow> str"
  le_public_origin :: str
  le_identity :: "'a identity_api"
  le_uuid :: "'u uuid_api"
  le_cutover :: bool
  le_has_search :: bool

type_synonym ('a, 'b) login_act = "('a login_world, api_failure, 'b) act"

definition at_accounts :: "('a, identity_error, 'b) act \<Rightarrow> ('a, 'b) login_act" where
  "at_accounts m w = (case m (lw_accounts w) of
     (Inl e, a) \<Rightarrow> (Inl (identity_failure e), w\<lparr>lw_accounts := a\<rparr>)
   | (Inr x, a) \<Rightarrow> (Inr x, w\<lparr>lw_accounts := a\<rparr>))"

definition storage_error :: api_failure where
  "storage_error = api_failure_new 500 ''login_unavailable'' (lit ''login state is unavailable'')"

definition DAY :: int where "DAY = 86400 * NANOS_PER_SECOND"

section \<open>One submission per credential\<close>

definition already_submitted :: api_failure where
  "already_submitted = api_conflict ''accounts_token_already_submitted''
     (lit ''This credential was already submitted. Sign in again after an interrupted exchange; replaying it can revoke your sign-in.'')"

text \<open>The purge, and \<open>INSERT OR IGNORE ... WHERE (SELECT COUNT( * ) ...) < 100000\<close>.\<close>

definition claim_token ::
  "('u, 'a) login_env \<Rightarrow> string \<Rightarrow> str \<Rightarrow> instant \<Rightarrow> instant \<Rightarrow> ('a, unit) login_act" where
  "claim_token env operation token now later w =
     (let digest = le_hash env token;
          kept = filter (\<lambda>r. \<not> to_submitted_at r < unix_seconds (now - 901 * DAY)) (lw_operations w)
      in
      if length kept < 100000 \<and> digest \<notin> set (map to_digest kept)
      then (Inr (), w\<lparr>lw_operations := kept @ [\<lparr>to_digest = digest, to_operation = operation,
                                          to_submitted_at = unix_seconds later\<rparr>]\<rparr>)
      else (Inl already_submitted, w\<lparr>lw_operations := kept\<rparr>))"

section \<open>The caller's identity\<close>

definition account_subject_retired :: "('u, 'a) login_env \<Rightarrow> str \<Rightarrow> bool" where
  "account_subject_retired env subject \<longleftrightarrow> le_cutover env \<and> \<not> canonical_account_uuid (le_uuid env) subject"

definition resolve_identity :: "('u, 'a) login_env \<Rightarrow> principal_identity \<Rightarrow> api_failure + identity" where
  "resolve_identity env who =
     (if account_subject_retired env (pr_principal_id who) then Inl unauthenticated
      else Inr \<lparr>i_id = pr_principal_id who,
             i_name = (case pr_public_id who of Some public \<Rightarrow> public | None \<Rightarrow> pr_principal_id who),
             i_kind = pr_kind who, i_tags = [], i_aliases = []\<rparr>)"

record scope =
  sp_org_id :: str
  sp_identity :: identity
  sp_principal :: principal_identity

definition authenticate_scope :: "('u, 'a) login_env \<Rightarrow> str \<Rightarrow> ('a, scope) login_act" where
  "authenticate_scope env token =
     bindA (at_accounts (ia_identify (le_identity env) token)) (\<lambda>who.
     bindA (liftA (resolve_identity env who)) (\<lambda>identity.
       okA \<lparr>sp_org_id = WORKSPACE, sp_identity = identity, sp_principal = who\<rparr>))"

text \<open>The extractor of a request's scope, from the value of its \<open>Authorization\<close> header.\<close>

definition scope_from_request :: "('u, 'a) login_env \<Rightarrow> str option \<Rightarrow> ('a, scope) login_act" where
  "scope_from_request env header =
     map_errA before_handler (bindA (liftA (bearer header)) (authenticate_scope env))"

definition actor_key :: "scope \<Rightarrow> str" where
  "actor_key s = sp_org_id s @ lit '':'' @ i_id (sp_identity s)"

definition available_services :: "('u, 'a) login_env \<Rightarrow> str list" where
  "available_services env =
     map lit [''profile'', ''proxy'', ''session'', ''recording'', ''usage''] @
     (if le_has_search env then map lit [''search'', ''fetch''] else [])"

definition auth_session_of :: "('u, 'a) login_env \<Rightarrow> exchanged_auth \<Rightarrow> api_failure + auth_session" where
  "auth_session_of env exchanged =
     tryE (resolve_identity env (xa_identity exchanged)) (\<lambda>identity.
       Inr \<lparr>as_access_token = xa_access_token exchanged, as_refresh_token = xa_refresh_token exchanged,
         as_expires_at = pr_expires_at (xa_identity exchanged), as_identity = identity,
         as_services = available_services env\<rparr>)"

text \<open>The answer of a sign-in: the session and, for clients of the older contract, the object \<open>org\<close>.\<close>

definition legacy_auth_response :: "auth_session \<Rightarrow> bool \<Rightarrow> auth_session \<times> (str \<times> str) option" where
  "legacy_auth_response session legacy = (session, if legacy then Some (WORKSPACE, lit ''Browser'') else None)"

definition legacy_partition :: "str option \<Rightarrow> nat option \<Rightarrow> api_failure + bool" where
  "legacy_partition org contract_version =
     (if (case contract_version of Some version \<Rightarrow> version \<noteq> 2 | None \<Rightarrow> False)
      then Inl (field_failure (lit ''contract_version'') (lit ''expected contract version 2''))
      else if (case org of Some p \<Rightarrow> p \<noteq> WORKSPACE | None \<Rightarrow> False)
      then Inl (forbidden_failure ''this sign-in is for Browser'')
      else Inr (contract_version = None))"

section \<open>Exchange and refresh\<close>

record credential_input =
  cr_token :: str
  cr_partition :: "str option"
  cr_contract_version :: "nat option"

text \<open>What both handlers do: check, claim the credential, ask Accounts, and answer. The clock is read
  twice by the claim.\<close>

definition exchange_auth ::
  "('u, 'a) login_env \<Rightarrow> instant \<Rightarrow> instant \<Rightarrow> credential_input \<Rightarrow>
   ('a, auth_session \<times> (str \<times> str) option) login_act" where
  "exchange_auth env now later i =
     bindA (liftA (legacy_partition (cr_partition i) (cr_contract_version i))) (\<lambda>legacy.
     bindA (liftA (map_err validation_failure (auth_exchange_validate (cr_token i)))) (\<lambda>_.
     bindA (claim_token env ''exchange'' (cr_token i) now later) (\<lambda>_.
     bindA (at_accounts (ia_exchange_short_lived (le_identity env) (cr_token i))) (\<lambda>exchanged.
     bindA (liftA (auth_session_of env exchanged)) (\<lambda>session.
       okA (legacy_auth_response session legacy))))))"

definition refresh_auth ::
  "('u, 'a) login_env \<Rightarrow> instant \<Rightarrow> instant \<Rightarrow> credential_input \<Rightarrow>
   ('a, auth_session \<times> (str \<times> str) option) login_act" where
  "refresh_auth env now later i =
     bindA (liftA (legacy_partition (cr_partition i) (cr_contract_version i))) (\<lambda>legacy.
     bindA (liftA (map_err validation_failure (auth_refresh_validate (cr_token i)))) (\<lambda>_.
     bindA (claim_token env ''refresh'' (cr_token i) now later) (\<lambda>_.
     bindA (at_accounts (ia_refresh (le_identity env) (cr_token i))) (\<lambda>exchanged.
     bindA (liftA (auth_session_of env exchanged)) (\<lambda>session.
       okA (legacy_auth_response session legacy))))))"

section \<open>The hosted login\<close>

text \<open>What a new attempt draws: its identifier, the random part of its state, the verifier, and the
  nonce of the seal.\<close>

record login_draw =
  ld_id :: str
  ld_random :: str
  ld_verifier :: str
  ld_nonce :: bytes

record started_login =
  sl_attempt_id :: str
  sl_state :: str
  sl_authorize_url :: str

definition login_context :: "str \<Rightarrow> str" where
  "login_context attempt = lit ''accounts-login:'' @ attempt"

definition begin_login ::
  "('u, 'a) login_env \<Rightarrow> login_draw \<Rightarrow> instant \<Rightarrow> identity_kind \<Rightarrow> ('a, started_login) login_act" where
  "begin_login env draw now kind w =
     (if kind \<noteq> Carbon
      then (Inl (field_failure (lit ''identity_kind'')
              (lit ''Silicons sign in with a short-lived token from silicon-accounts'')), w)
      else
      let now_s = unix_seconds now;
          w = w\<lparr>lw_attempts := filter (\<lambda>r. \<not> la_expires_at r \<le> now_s) (lw_attempts w)\<rparr>;
          state = ld_id draw @ lit ''.'' @ ld_random draw;
          redirect = le_public_origin env @ lit ''/auth/callback''
      in case map_err identity_failure
                (ia_authorization_url (le_identity env) redirect state (le_challenge env (ld_verifier draw))) of
           Inl failure \<Rightarrow> (Inl failure, w)
         | Inr authorize_url \<Rightarrow>
           (case seal_for (le_box env) (ld_nonce draw) (login_context (ld_id draw)) (ld_verifier draw) of
              Inl _ \<Rightarrow> (Inl storage_error, w)
            | Inr sealed \<Rightarrow>
              if \<not> length (lw_attempts w) < 4096
              then (Inl (api_failure_new 429 ''login_busy'' (lit ''too many pending login attempts; retry shortly'')), w)
              else if ld_id draw \<in> set (map la_id (lw_attempts w)) then (Inl storage_error, w)
              else (Inr \<lparr>sl_attempt_id = ld_id draw, sl_state = state, sl_authorize_url = authorize_url\<rparr>,
                    w\<lparr>lw_attempts := lw_attempts w @
                       [\<lparr>la_id = ld_id draw, la_state_hash = le_hash env state, la_code_verifier_enc = sealed,
                         la_redirect_uri = redirect, la_expires_at = now_s + 600, la_claimed_at = None\<rparr>]\<rparr>)))"

record login_exchange =
  lx_attempt_id :: str
  lx_state :: str
  lx_code :: str
  lx_contract_version :: "nat option"

definition exchange_well_formed :: "login_exchange \<Rightarrow> bool" where
  "exchange_well_formed i \<longleftrightarrow>
     (case lx_contract_version i of Some version \<Rightarrow> version = 2 | None \<Rightarrow> True) \<and>
     utf8_len (lx_state i) = 101 \<and> starts_with (lx_attempt_id i @ lit ''.'') (lx_state i) \<and>
     starts_with (lit ''sac_'') (lx_code i) \<and> utf8_len (lx_code i) \<le> 16384 \<and>
     list_all is_ascii_graphic (lx_code i)"

definition claimable_attempt :: "('u, 'a) login_env \<Rightarrow> login_exchange \<Rightarrow> instant \<Rightarrow> login_attempt \<Rightarrow> bool" where
  "claimable_attempt env i now r \<longleftrightarrow>
     la_id r = lx_attempt_id i \<and> la_state_hash r = le_hash env (lx_state i) \<and>
     la_expires_at r > unix_seconds now \<and> la_claimed_at r = None"

text \<open>The conditional update that claims the attempt and returns its columns.\<close>

definition claim_attempt ::
  "('u, 'a) login_env \<Rightarrow> login_exchange \<Rightarrow> instant \<Rightarrow> instant \<Rightarrow> ('a, str \<times> str) login_act" where
  "claim_attempt env i now later w =
     (case find (claimable_attempt env i later) (lw_attempts w) of
        None \<Rightarrow> (Inl unauthenticated, w)
      | Some row \<Rightarrow>
          (Inr (la_code_verifier_enc row, la_redirect_uri row),
           w\<lparr>lw_attempts := map (\<lambda>r. if claimable_attempt env i later r
                                  then r\<lparr>la_claimed_at := Some (unix_seconds now)\<rparr> else r) (lw_attempts w)\<rparr>))"

text \<open>The exchange with Accounts and the answer.\<close>

definition finish_login ::
  "('u, 'a) login_env \<Rightarrow> login_exchange \<Rightarrow> str \<Rightarrow> str \<Rightarrow> ('a, auth_session \<times> (str \<times> str) option) login_act" where
  "finish_login env i redirect_uri code_verifier =
     bindA (at_accounts (ia_exchange_code (le_identity env)
              \<lparr>cx_code = lx_code i, cx_redirect_uri = redirect_uri, cx_code_verifier = code_verifier\<rparr>)) (\<lambda>exchanged.
       if pr_kind (xa_identity exchanged) \<noteq> Carbon
       then errA (forbidden_failure ''hosted sign-in returned a different account kind'')
       else bindA (liftA (auth_session_of env exchanged)) (\<lambda>session.
         okA (legacy_auth_response session (lx_contract_version i = None))))"

definition exchange_login ::
  "('u, 'a) login_env \<Rightarrow> (nat \<Rightarrow> instant) \<Rightarrow> login_exchange \<Rightarrow>
   ('a, auth_session \<times> (str \<times> str) option) login_act" where
  "exchange_login env clock i =
     (if \<not> exchange_well_formed i then errA unauthenticated
      else bindA (claim_attempt env i (clock 0) (clock 1)) (\<lambda>(sealed, redirect_uri).
        bindA (claim_token env ''authorization_code'' (lx_code i) (clock 2) (clock 3)) (\<lambda>_.
        bindA (liftA (map_err (\<lambda>_. storage_error)
                 (open_for (le_box env) (login_context (lx_attempt_id i)) sealed))) (\<lambda>code_verifier.
          finish_login env i redirect_uri code_verifier))))"

section \<open>The provider's limits\<close>

record usage_limits =
  ul_concurrent :: nat
  ul_rate :: "nat option"
  ul_checked_at :: instant

definition SUCCESS_TTL :: int where "SUCCESS_TTL = 60 * NANOS_PER_SECOND"
definition FAILURE_TTL :: int where "FAILURE_TTL = 5 * NANOS_PER_SECOND"

type_synonym limits_cache = "(int \<times> (unit + usage_limits)) option"

text \<open>The lock is held throughout, so calls follow each other. \<open>timed_out\<close> tells that the provider did
  not answer within ten seconds; the clocks are read before and after the check.\<close>

definition limits_get ::
  "'p browser_api \<Rightarrow> bool \<Rightarrow> int \<Rightarrow> int \<Rightarrow> instant \<Rightarrow> limits_cache \<times> 'p \<Rightarrow> (unit + usage_limits) \<times> limits_cache \<times> 'p" where
  "limits_get api timed_out now after utc s =
     (case s of (cache, p) \<Rightarrow>
        case (case cache of Some (expires_at, result) \<Rightarrow> if expires_at > now then Some result else None | None \<Rightarrow> None) of
          Some result \<Rightarrow> (result, cache, p)
        | None \<Rightarrow>
            (case ba_account_limits api p of (answer, p') \<Rightarrow>
               let result = (case answer of
                      Inr limits \<Rightarrow> if timed_out then Inl ()
                        else Inr \<lparr>ul_concurrent = lm_concurrent limits, ul_rate = lm_rate limits, ul_checked_at = utc\<rparr>
                    | Inl _ \<Rightarrow> Inl ());
                   ttl = (if is_ok result then SUCCESS_TTL else FAILURE_TTL)
               in (result, Some (after + ttl, result), p')))"

definition get_usage_limits ::
  "'p browser_api \<Rightarrow> bool \<Rightarrow> int \<Rightarrow> int \<Rightarrow> instant \<Rightarrow> limits_cache \<times> 'p \<Rightarrow>
   (api_failure + usage_limits) \<times> limits_cache \<times> 'p" where
  "get_usage_limits api timed_out now after utc s =
     (case limits_get api timed_out now after utc s of (r, s') \<Rightarrow>
        (map_err (\<lambda>_. (api_failure_new 503 ''usage_limits_unavailable''
             (lit ''browser capacity is temporarily unavailable''))\<lparr>af_retry_after_ms := Some 5000\<rparr>) r, s'))"

section \<open>Histories of sign-ins\<close>

datatype login_op =
    OpBegin login_draw instant identity_kind
  | OpLogin "nat \<Rightarrow> instant" login_exchange
  | OpExchange instant instant credential_input
  | OpRefresh instant instant credential_input
  | OpRequest "str option"

fun login_act_of :: "('u, 'a) login_env \<Rightarrow> login_op \<Rightarrow> ('a, unit) login_act" where
  "login_act_of env (OpBegin draw now kind) = bindA (begin_login env draw now kind) (\<lambda>_. okA ())"
| "login_act_of env (OpLogin clock i) = bindA (exchange_login env clock i) (\<lambda>_. okA ())"
| "login_act_of env (OpExchange now later i) = bindA (exchange_auth env now later i) (\<lambda>_. okA ())"
| "login_act_of env (OpRefresh now later i) = bindA (refresh_auth env now later i) (\<lambda>_. okA ())"
| "login_act_of env (OpRequest header) = bindA (scope_from_request env header) (\<lambda>_. okA ())"

definition login_step :: "('u, 'a) login_env \<Rightarrow> login_op \<Rightarrow> 'a login_world \<Rightarrow> 'a login_world \<Rightarrow> bool" where
  "login_step env op w w' \<longleftrightarrow> w' = snd (login_act_of env op w)"

text \<open>Only the claims and the new attempt write to the tables.\<close>

lemma keepsA_at_accounts [simp]: "keepsA (\<lambda>w. T (lw_attempts w) (lw_operations w)) (at_accounts m)"
  by (auto simp: keepsA_def at_accounts_def split: prod.splits sum.splits)

lemma keepsA_begin:
  assumes "keepsA (\<lambda>w. T (lw_attempts w) (lw_operations w)) (begin_login env draw now kind)"
  shows "keepsA (\<lambda>w. T (lw_attempts w) (lw_operations w)) (login_act_of env (OpBegin draw now kind))"
  using assms by (simp add: keepsA_bindA)

lemma keepsA_login:
  assumes "keepsA (\<lambda>w. T (lw_attempts w) (lw_operations w)) (claim_attempt env i (clock 0) (clock 1))"
    and "keepsA (\<lambda>w. T (lw_attempts w) (lw_operations w)) (claim_token env ''authorization_code'' (lx_code i) (clock 2) (clock 3))"
  shows "keepsA (\<lambda>w. T (lw_attempts w) (lw_operations w)) (login_act_of env (OpLogin clock i))"
  unfolding login_act_of.simps exchange_login_def finish_login_def
  by (intro keepsA_bindA keepsA_if keepsA_case_prod keepsA_at_accounts keepsA_pure assms)

lemma keepsA_exchange:
  assumes "keepsA (\<lambda>w. T (lw_attempts w) (lw_operations w)) (claim_token env ''exchange'' (cr_token i) now later)"
  shows "keepsA (\<lambda>w. T (lw_attempts w) (lw_operations w)) (login_act_of env (OpExchange now later i))"
  unfolding login_act_of.simps exchange_auth_def
  by (intro keepsA_bindA keepsA_at_accounts keepsA_pure assms)

lemma keepsA_refresh:
  assumes "keepsA (\<lambda>w. T (lw_attempts w) (lw_operations w)) (claim_token env ''refresh'' (cr_token i) now later)"
  shows "keepsA (\<lambda>w. T (lw_attempts w) (lw_operations w)) (login_act_of env (OpRefresh now later i))"
  unfolding login_act_of.simps refresh_auth_def
  by (intro keepsA_bindA keepsA_at_accounts keepsA_pure assms)

lemma keepsA_request: "keepsA (\<lambda>w. T (lw_attempts w) (lw_operations w)) (login_act_of env (OpRequest header))"
  unfolding login_act_of.simps scope_from_request_def authenticate_scope_def
  by (intro keepsA_bindA keepsA_map_errA keepsA_at_accounts keepsA_pure)

lemmas keepsA_logins = keepsA_begin keepsA_login keepsA_exchange keepsA_refresh keepsA_request

lemma keepsA_run:
  assumes "run (login_step env) w ops w'" "I w" "\<And>op. op \<in> set ops \<Longrightarrow> keepsA I (login_act_of env op)"
  shows "I w'"
  using assms
proof (induction rule: run.induct)
  case (run_snoc w ops w' op w'')
  then have "I w'" "keepsA I (login_act_of env op)" by simp_all
  with run_snoc.hyps(2) show ?case by (simp add: login_step_def keepsA_def)
qed simp

section \<open>The tables stay within their bounds\<close>

definition tables_ok :: "login_attempt list \<Rightarrow> token_operation list \<Rightarrow> bool" where
  "tables_ok attempts operations \<longleftrightarrow>
     distinct (map la_id attempts) \<and> length attempts \<le> 4096 \<and>
     distinct (map to_digest operations) \<and> length operations \<le> 100000"

lemma filter_keeps_tables:
  "tables_ok attempts operations \<Longrightarrow> tables_ok (filter P attempts) (filter Q operations)"
  by (auto simp: tables_ok_def distinct_map_filter intro: le_trans [OF length_filter_le])

lemma tables_claim_token: "keepsA (\<lambda>w. tables_ok (lw_attempts w) (lw_operations w)) (claim_token env operation token now later)"
  unfolding keepsA_def claim_token_def Let_def
  using filter_keeps_tables [where P = "\<lambda>_. True" and Q = "\<lambda>r. \<not> to_submitted_at r < unix_seconds (now - 901 * DAY)"]
  by (auto simp: tables_ok_def split: if_splits)

lemma tables_claim_attempt: "keepsA (\<lambda>w. tables_ok (lw_attempts w) (lw_operations w)) (claim_attempt env i now later)"
  unfolding keepsA_def claim_attempt_def
  by (auto simp: tables_ok_def comp_def if_distrib [of la_id] cong: if_cong split: option.splits)

lemma tables_begin: "keepsA (\<lambda>w. tables_ok (lw_attempts w) (lw_operations w)) (begin_login env draw now kind)"
proof -
  have "tables_ok (lw_attempts (snd (begin_login env draw now kind w))) (lw_operations (snd (begin_login env draw now kind w)))"
    if "tables_ok (lw_attempts w) (lw_operations w)" for w
  proof -
    let ?kept = "filter (\<lambda>r. \<not> la_expires_at r \<le> unix_seconds now) (lw_attempts w)"
    from filter_keeps_tables [OF that, where Q = "\<lambda>_. True"]
    have "tables_ok ?kept (lw_operations w)" by simp
    then have "distinct (map la_id ?kept)" "length ?kept \<le> 4096" "distinct (map to_digest (lw_operations w))"
      "length (lw_operations w) \<le> 100000" by (simp_all only: tables_ok_def)
    with that show ?thesis
      unfolding begin_login_def Let_def
      by (simp add: tables_ok_def split: sum.split)
  qed
  then show ?thesis by (simp add: keepsA_def)
qed

text \<open>Whatever is submitted, and by whom, the tables of the sign-in stay bounded and keyed: at most
  4096 pending attempts with distinct identifiers, and at most 100000 credentials, each once.\<close>

theorem login_tables_bounded:
  assumes "run (login_step env) w ops w'" "tables_ok (lw_attempts w) (lw_operations w)"
  shows "tables_ok (lw_attempts w') (lw_operations w')"
proof -
  have "keepsA (\<lambda>w. tables_ok (lw_attempts w) (lw_operations w)) (login_act_of env op)" for op
    by (cases op) (simp_all only: keepsA_logins tables_claim_token tables_claim_attempt tables_begin)
  with assms keepsA_run [where I = "\<lambda>w. tables_ok (lw_attempts w) (lw_operations w)"] show ?thesis by blast
qed

section \<open>A sample sign-in\<close>

definition sign_in_env :: "(str, nat auth_world) login_env" where
  "sign_in_env = \<lparr>le_box = plain_box, le_hash = (\<lambda>t. t), le_challenge = (\<lambda>t. t), le_public_origin = lit ''https://b'',
     le_identity = accounts_api sample_accounts, le_uuid = echo_uuids, le_cutover = False, le_has_search = False\<rparr>"

definition empty_login :: "nat auth_world login_world" where
  "empty_login = \<lparr>lw_attempts = [], lw_operations = [], lw_accounts = \<lparr>wa_cache = empty_cache, wa_service = 0\<rparr>\<rparr>"

definition sample_draw :: login_draw where
  "sample_draw = \<lparr>ld_id = replicate 36 48, ld_random = replicate 64 49, ld_verifier = lit ''v'', ld_nonce = replicate 12 0\<rparr>"

definition sample_state :: str where "sample_state = replicate 36 48 @ lit ''.'' @ replicate 64 49"

definition begun_attempt :: login_attempt where
  "begun_attempt = \<lparr>la_id = replicate 36 48, la_state_hash = sample_state,
     la_code_verifier_enc = (case seal_for plain_box (replicate 12 0) (login_context (replicate 36 48)) (lit ''v'') of
        Inr sealed \<Rightarrow> sealed | Inl _ \<Rightarrow> []),
     la_redirect_uri = lit ''https://b'' @ lit ''/auth/callback'', la_expires_at = 600, la_claimed_at = None\<rparr>"

definition begun_login :: "nat auth_world login_world" where
  "begun_login = empty_login\<lparr>lw_attempts := [begun_attempt]\<rparr>"

lemma login_context_valid: "validate_context (login_context (replicate 36 48)) = Inr ()"
  by code_simp

lemma sample_begins:
  "\<exists>url. begin_login sign_in_env sample_draw 0 Carbon empty_login =
     (Inr \<lparr>sl_attempt_id = replicate 36 48, sl_state = sample_state, sl_authorize_url = url\<rparr>, begun_login)"
  by (simp add: begin_login_def sign_in_env_def sample_draw_def empty_login_def begun_login_def begun_attempt_def
      sample_state_def accounts_api_def authorization_url_def seal_for_def login_context_valid plain_box_def
      unix_seconds_def Let_def)

lemma empty_tables: "tables_ok (lw_attempts empty_login) (lw_operations empty_login)"
  by (simp add: empty_login_def tables_ok_def)

lemma sign_in_run: "run (login_step sign_in_env) empty_login [OpBegin sample_draw 0 Carbon] begun_login"
proof -
  have "begun_login = snd (login_act_of sign_in_env (OpBegin sample_draw 0 Carbon) empty_login)"
    using sample_begins by (auto simp: bindA_def)
  then have "login_step sign_in_env (OpBegin sample_draw 0 Carbon) empty_login begun_login"
    by (simp only: login_step_def)
  with run.run_snoc [of "login_step sign_in_env" empty_login "[]" empty_login "OpBegin sample_draw 0 Carbon" begun_login]
  show ?thesis by (simp add: run.run_nil)
qed

theorem login_tables_bounded_witness: "tables_ok (lw_attempts begun_login) (lw_operations begun_login)"
  using login_tables_bounded [OF sign_in_run empty_tables] .

section \<open>One submission per credential\<close>

definition submitted :: "str \<Rightarrow> int \<Rightarrow> token_operation list \<Rightarrow> bool" where
  "submitted digest since operations \<longleftrightarrow> (\<exists>r \<in> set operations. to_digest r = digest \<and> since \<le> to_submitted_at r)"

lemma submitted_claim:
  assumes "unix_seconds (now - 901 * DAY) \<le> since"
  shows "keepsA (\<lambda>w. submitted digest since (lw_operations w)) (claim_token env operation token now later)"
  using assms unfolding keepsA_def claim_token_def Let_def submitted_def by fastforce

lemma claimed_is_submitted:
  "claim_token env operation token now later w = (Inr u, w') \<Longrightarrow>
   submitted (le_hash env token) (unix_seconds later) (lw_operations w')"
  by (auto simp: claim_token_def Let_def submitted_def split: if_splits)

lemma submitted_refused:
  assumes "submitted (le_hash env token) since (lw_operations w)" "unix_seconds (now - 901 * DAY) \<le> since"
  shows "\<exists>w'. claim_token env operation token now later w = (Inl already_submitted, w') \<and> lw_accounts w' = lw_accounts w"
proof -
  have "le_hash env token \<in> set (map to_digest (filter (\<lambda>r. \<not> to_submitted_at r < unix_seconds (now - 901 * DAY)) (lw_operations w)))"
    using assms unfolding submitted_def by (force simp: image_iff)
  then show ?thesis by (auto simp: claim_token_def Let_def)
qed

fun op_credential :: "login_op \<Rightarrow> str option" where
  "op_credential (OpLogin clock i) = Some (lx_code i)"
| "op_credential (OpExchange now later i) = Some (cr_token i)"
| "op_credential (OpRefresh now later i) = Some (cr_token i)"
| "op_credential _ = None"

text \<open>When an operation purges old submissions, if it does.\<close>

fun purge_time :: "login_op \<Rightarrow> instant option" where
  "purge_time (OpLogin clock i) = Some (clock 2)"
| "purge_time (OpExchange now later i) = Some now"
| "purge_time (OpRefresh now later i) = Some now"
| "purge_time _ = None"

definition purges_before :: "int \<Rightarrow> login_op \<Rightarrow> bool" where
  "purges_before since op \<longleftrightarrow> (\<forall>t. purge_time op = Some t \<longrightarrow> unix_seconds (t - 901 * DAY) \<le> since)"

lemma submitted_ops:
  assumes "purges_before since op"
  shows "keepsA (\<lambda>w. submitted digest since (lw_operations w)) (login_act_of env op)"
proof -
  have attempt: "keepsA (\<lambda>w. submitted digest since (lw_operations w)) (claim_attempt env i now later)" for i now later
    by (auto simp: keepsA_def claim_attempt_def split: option.splits)
  have start: "keepsA (\<lambda>w. submitted digest since (lw_operations w)) (begin_login env draw now kind)" for draw now kind
    by (auto simp: keepsA_def begin_login_def Let_def split: sum.splits)
  from assms show ?thesis
    by (cases op) (auto simp: purges_before_def intro!: keepsA_logins [where T = "\<lambda>_. submitted digest since"]
        submitted_claim attempt start simp del: login_act_of.simps)
qed

lemma submitted_stops:
  assumes "submitted (le_hash env token) since (lw_operations w)" "purges_before since op" "op_credential op = Some token"
  shows "\<exists>failure w'. login_act_of env op w = (Inl failure, w') \<and> lw_accounts w' = lw_accounts w"
proof (cases op)
  case (OpLogin clock i)
  show ?thesis
  proof (cases "exchange_well_formed i")
    case False
    with OpLogin show ?thesis by (simp add: exchange_login_def bindA_def)
  next
    case True
    show ?thesis
    proof (cases "claim_attempt env i (clock 0) (clock 1) w")
      case (Pair r v)
      have v: "lw_operations v = lw_operations w" "lw_accounts v = lw_accounts w"
        using Pair by (auto simp: claim_attempt_def split: option.splits)
      show ?thesis
      proof (cases r)
        case (Inl e)
        with Pair True OpLogin v show ?thesis by (simp add: exchange_login_def bindA_def)
      next
        case (Inr s)
        from submitted_refused [of env token since v "clock 2" "''authorization_code''" "clock 3"] assms v OpLogin
        obtain w' where "claim_token env ''authorization_code'' (lx_code i) (clock 2) (clock 3) v = (Inl already_submitted, w')"
          and "lw_accounts w' = lw_accounts w" by (auto simp: purges_before_def)
        with Pair True OpLogin Inr show ?thesis by (cases s) (simp add: exchange_login_def bindA_def)
      qed
    qed
  qed
next
  case (OpExchange now later i)
  with assms submitted_refused [of env token since w now "''exchange''" later]
  obtain w' where w': "claim_token env ''exchange'' (cr_token i) now later w = (Inl already_submitted, w')"
    and "lw_accounts w' = lw_accounts w" by (auto simp: purges_before_def)
  with OpExchange show ?thesis
    by (auto simp: exchange_auth_def bindA_def w' split: sum.splits)
next
  case (OpRefresh now later i)
  with assms submitted_refused [of env token since w now "''refresh''" later]
  obtain w' where w': "claim_token env ''refresh'' (cr_token i) now later w = (Inl already_submitted, w')"
    and "lw_accounts w' = lw_accounts w" by (auto simp: purges_before_def)
  with OpRefresh show ?thesis
    by (auto simp: refresh_auth_def bindA_def w' split: sum.splits)
qed (use assms in simp_all)

text \<open>C22: a credential reaches Accounts at most once in 901 days. After a claim of it has succeeded ---
  as a code, a short-lived token or a refresh token --- whatever requests follow, an operation that
  submits it again fails, and Accounts is not asked: replaying a credential would revoke the
  sign-in that it started.\<close>

theorem credential_submitted_once:
  assumes "claim_token env operation token now later w0 = (Inr (), w1)" "run (login_step env) w1 ops w2"
    and "\<forall>e \<in> set (ops @ [op]). purges_before (unix_seconds later) e" "op_credential op = Some token"
  shows "\<exists>failure w3. login_act_of env op w2 = (Inl failure, w3) \<and> lw_accounts w3 = lw_accounts w2"
proof -
  let ?I = "\<lambda>w. submitted (le_hash env token) (unix_seconds later) (lw_operations w)"
  from claimed_is_submitted [OF assms(1)] have "?I w1" .
  moreover have "keepsA ?I (login_act_of env e)" if "e \<in> set ops" for e
    using submitted_ops [of "unix_seconds later" e] assms(3) that by simp
  ultimately have "?I w2" using keepsA_run [OF assms(2), of ?I] by blast
  with submitted_stops assms(3,4) show ?thesis by auto
qed

definition sample_slt :: credential_input where
  "sample_slt = \<lparr>cr_token = lit ''slt_once'', cr_partition = None, cr_contract_version = Some 2\<rparr>"

theorem credential_submitted_once_witness:
  "\<exists>w1 failure w3. claim_token sign_in_env ''exchange'' (lit ''slt_once'') 0 0 begun_login = (Inr (), w1) \<and>
     login_act_of sign_in_env (OpExchange 9 9 sample_slt) w1 = (Inl failure, w3) \<and> lw_accounts w3 = lw_accounts w1"
proof -
  obtain w1 where w1: "claim_token sign_in_env ''exchange'' (lit ''slt_once'') 0 0 begun_login = (Inr (), w1)"
    by (simp add: claim_token_def begun_login_def empty_login_def Let_def)
  have "\<forall>e \<in> set ([] @ [OpExchange 9 9 sample_slt]). purges_before (unix_seconds 0) e"
    by (simp add: purges_before_def unix_seconds_def DAY_def NANOS_PER_SECOND_def)
  moreover have "op_credential (OpExchange 9 9 sample_slt) = Some (lit ''slt_once'')"
    by (simp add: sample_slt_def)
  ultimately show ?thesis
    using credential_submitted_once [OF w1 run.run_nil] w1 by blast
qed

text \<open>The other side of the bound: the table of submitted credentials also refuses credentials
  that were never submitted. Once it holds 100000 rows that are younger than 901 days, every claim
  fails --- with the message that the credential was already submitted --- so that no one can sign
  in or refresh until a row has aged; and any text of the right form adds a row, before Accounts
  is asked whether it is a credential.\<close>

theorem full_table_refuses_everyone:
  assumes "length (lw_operations w) = 100000"
    and "\<forall>r \<in> set (lw_operations w). unix_seconds (now - 901 * DAY) \<le> to_submitted_at r"
  shows "claim_token env operation token now later w = (Inl already_submitted, w)"
proof -
  have "filter (\<lambda>r. \<not> to_submitted_at r < unix_seconds (now - 901 * DAY)) (lw_operations w) = lw_operations w"
    using assms(2) by (auto simp: filter_id_conv)
  with assms(1) show ?thesis by (simp add: claim_token_def)
qed

theorem full_table_refuses_everyone_witness:
  "\<exists>w failure. length (lw_operations w) = 100000 \<and> lit ''slt_new'' \<notin> set (map to_digest (lw_operations w)) \<and>
     claim_token sign_in_env ''exchange'' (lit ''slt_new'') 0 0 w = (Inl failure, w)"
proof -
  let ?row = "\<lambda>n. \<lparr>to_digest = replicate n 48, to_operation = ''exchange'', to_submitted_at = 0\<rparr>"
  let ?w = "begun_login\<lparr>lw_operations := map ?row [0..<100000]\<rparr>"
  have n: "length (lw_operations ?w) = 100000" by simp
  have "\<forall>r \<in> set (lw_operations ?w). unix_seconds (0 - 901 * DAY) \<le> to_submitted_at r"
    by (auto simp: unix_seconds_def DAY_def NANOS_PER_SECOND_def)
  from full_table_refuses_everyone [OF n this]
  have "claim_token sign_in_env ''exchange'' (lit ''slt_new'') 0 0 ?w = (Inl already_submitted, ?w)" .
  moreover have "replicate k 48 \<noteq> lit ''slt_new''" for k :: nat by (cases k) (auto simp: lit_def)
  then have "lit ''slt_new'' \<notin> set (map to_digest (lw_operations ?w))" by (auto simp: image_iff) metis
  ultimately show ?thesis using n by blast
qed

section \<open>One redemption per attempt\<close>

definition spent :: "str \<Rightarrow> login_attempt list \<Rightarrow> bool" where
  "spent attempt attempts \<longleftrightarrow> (\<forall>r \<in> set attempts. la_id r = attempt \<longrightarrow> la_claimed_at r \<noteq> None)"

lemma spent_ops:
  assumes "\<forall>draw now kind. op = OpBegin draw now kind \<longrightarrow> ld_id draw \<noteq> attempt"
  shows "keepsA (\<lambda>w. spent attempt (lw_attempts w)) (login_act_of env op)"
proof -
  have token: "keepsA (\<lambda>w. spent attempt (lw_attempts w)) (claim_token env operation token now later)" for operation token now later
    by (auto simp: keepsA_def claim_token_def Let_def)
  have claim: "keepsA (\<lambda>w. spent attempt (lw_attempts w)) (claim_attempt env i now later)" for i now later
    by (auto simp: keepsA_def claim_attempt_def spent_def split: option.splits)
  have start: "keepsA (\<lambda>w. spent attempt (lw_attempts w)) (begin_login env draw now kind)" if "ld_id draw \<noteq> attempt" for draw now kind
    using that by (auto simp: keepsA_def begin_login_def Let_def spent_def split: sum.splits)
  from assms show ?thesis
    by (cases op) (auto intro!: keepsA_logins [where T = "\<lambda>a _. spent attempt a"] token claim start
        simp del: login_act_of.simps)
qed

lemma claim_spends:
  assumes "distinct (map la_id (lw_attempts w))" "claim_attempt env i now later w = (Inr c, w')"
  shows "spent (lx_attempt_id i) (lw_attempts w')"
proof -
  from assms(2) obtain row where row: "row \<in> set (lw_attempts w)" "claimable_attempt env i later row"
    and w': "lw_attempts w' = map (\<lambda>r. if claimable_attempt env i later r
                                  then r\<lparr>la_claimed_at := Some (unix_seconds now)\<rparr> else r) (lw_attempts w)"
    by (auto simp: claim_attempt_def find_Some_iff split: option.splits) (metis nth_mem)
  from row(2) have id: "la_id row = lx_attempt_id i" by (simp add: claimable_attempt_def)
  have "claimable_attempt env i later r" if "r \<in> set (lw_attempts w)" "la_id r = lx_attempt_id i" for r
    using assms(1) row that id by (metis distinct_map inj_on_def)
  then show ?thesis by (auto simp: spent_def w')
qed

lemma spent_refused: "spent (lx_attempt_id i) (lw_attempts w) \<Longrightarrow> exchange_login env clock i w = (Inl unauthenticated, w)"
proof -
  assume "spent (lx_attempt_id i) (lw_attempts w)"
  then have "find (claimable_attempt env i (clock 1)) (lw_attempts w) = None"
    by (auto simp: find_None_iff spent_def claimable_attempt_def)
  then show ?thesis by (simp add: exchange_login_def claim_attempt_def bindA_def)
qed

text \<open>C23: an attempt at a hosted login is redeemed at most once: after an exchange has claimed it ---
  even if the exchange then fails, or its answer is lost --- every later exchange for this attempt
  is answered as unauthenticated and changes nothing.\<close>

theorem attempt_redeemed_once:
  assumes "distinct (map la_id (lw_attempts w0))" "claim_attempt env i now later w0 = (Inr c, w1)"
    and "run (login_step env) w1 ops w2" "\<forall>draw t kind. OpBegin draw t kind \<in> set ops \<longrightarrow> ld_id draw \<noteq> lx_attempt_id i"
    and "lx_attempt_id j = lx_attempt_id i"
  shows "exchange_login env clock j w2 = (Inl unauthenticated, w2)"
proof -
  let ?I = "\<lambda>w. spent (lx_attempt_id i) (lw_attempts w)"
  have "?I w1" using claim_spends [OF assms(1,2)] .
  moreover have "keepsA ?I (login_act_of env op)" if "op \<in> set ops" for op
    using spent_ops assms(4) that by metis
  ultimately have "?I w2" using keepsA_run [OF assms(3), of ?I] by blast
  with assms(5) spent_refused show ?thesis by metis
qed

definition sample_exchange_input :: login_exchange where
  "sample_exchange_input = \<lparr>lx_attempt_id = replicate 36 48, lx_state = sample_state, lx_code = lit ''sac_c'',
     lx_contract_version = Some 2\<rparr>"

theorem attempt_redeemed_once_witness:
  "\<exists>c w1. claim_attempt sign_in_env sample_exchange_input 0 0 begun_login = (Inr c, w1) \<and>
     exchange_login sign_in_env (\<lambda>_. 1) sample_exchange_input w1 = (Inl unauthenticated, w1)"
proof -
  obtain c w1 where c: "claim_attempt sign_in_env sample_exchange_input 0 0 begun_login = (Inr c, w1)"
    by (auto simp: claim_attempt_def begun_login_def begun_attempt_def claimable_attempt_def sample_exchange_input_def
        sign_in_env_def unix_seconds_def)
  have "distinct (map la_id (lw_attempts begun_login))" by (simp add: begun_login_def)
  from attempt_redeemed_once [OF this c run.run_nil _ refl] c show ?thesis by auto
qed

section \<open>From the start of a login to its exchange\<close>

definition open_attempt :: "login_attempt \<Rightarrow> login_attempt list \<Rightarrow> bool" where
  "open_attempt row attempts \<longleftrightarrow>
     row \<in> set attempts \<and> la_claimed_at row = None \<and> (\<forall>r \<in> set attempts. la_id r = la_id row \<longrightarrow> r = row)"

text \<open>An operation that neither comes after the deadline nor knows the state of the attempt.\<close>

fun undisturbed :: "('u, 'a) login_env \<Rightarrow> str \<Rightarrow> str \<Rightarrow> int \<Rightarrow> login_op \<Rightarrow> bool" where
  "undisturbed env attempt state_hash deadline (OpBegin draw now kind) \<longleftrightarrow> unix_seconds now < deadline"
| "undisturbed env attempt state_hash deadline (OpLogin clock i) \<longleftrightarrow>
     lx_attempt_id i = attempt \<longrightarrow> le_hash env (lx_state i) \<noteq> state_hash"
| "undisturbed env attempt state_hash deadline _ \<longleftrightarrow> True"

lemma open_claim_attempt:
  assumes "\<not> claimable_attempt env i later row"
  shows "keepsA (\<lambda>w. open_attempt row (lw_attempts w)) (claim_attempt env i now later)"
proof -
  have "open_attempt row (map (\<lambda>r. if claimable_attempt env i later r then r\<lparr>la_claimed_at := t\<rparr> else r) rows)"
    if "open_attempt row rows" for rows t
  proof -
    have "row \<in> set (map (\<lambda>r. if claimable_attempt env i later r then r\<lparr>la_claimed_at := t\<rparr> else r) rows)"
      using that assms unfolding open_attempt_def by (force simp: image_iff)
    moreover have "r' = row" if r': "r' \<in> set (map (\<lambda>r. if claimable_attempt env i later r then r\<lparr>la_claimed_at := t\<rparr> else r) rows)"
      "la_id r' = la_id row" for r'
    proof -
      from r'(1) obtain r where r: "r \<in> set rows" "r' = (if claimable_attempt env i later r then r\<lparr>la_claimed_at := t\<rparr> else r)"
        by auto
      with r'(2) have "la_id r = la_id row" by (simp split: if_splits)
      with r(1) that have "r = row" using \<open>open_attempt row rows\<close> unfolding open_attempt_def by blast
      with r(2) assms show ?thesis by simp
    qed
    ultimately show ?thesis using that unfolding open_attempt_def by blast
  qed
  then show ?thesis by (auto simp: keepsA_def claim_attempt_def split: option.splits)
qed

lemma open_begin:
  assumes "unix_seconds now < la_expires_at row"
  shows "keepsA (\<lambda>w. open_attempt row (lw_attempts w)) (begin_login env draw now kind)"
  using assms unfolding keepsA_def begin_login_def Let_def open_attempt_def
  by (force split: sum.splits)

lemma open_ops:
  assumes "undisturbed env (la_id row) (la_state_hash row) (la_expires_at row) op"
  shows "keepsA (\<lambda>w. open_attempt row (lw_attempts w)) (login_act_of env op)"
proof -
  have token: "keepsA (\<lambda>w. open_attempt row (lw_attempts w)) (claim_token env operation token now later)" for operation token now later
    by (auto simp: keepsA_def claim_token_def Let_def)
  show ?thesis
  proof (cases op)
    case (OpLogin clock i)
    with assms have "\<not> claimable_attempt env i (clock 1) row" by (auto simp: claimable_attempt_def)
    from open_claim_attempt [OF this] token show ?thesis
      unfolding OpLogin by (intro keepsA_login [where T = "\<lambda>a _. open_attempt row a"])
  next
    case (OpBegin draw now kind)
    with assms open_begin [of now row] show ?thesis
      unfolding OpBegin by (intro keepsA_begin [where T = "\<lambda>a _. open_attempt row a"]) simp
  qed (auto intro!: keepsA_logins [where T = "\<lambda>a _. open_attempt row a"] token simp del: login_act_of.simps)
qed

lemma begin_opens:
  assumes "begin_login env draw now Carbon w0 = (Inr started, w1)"
  shows "\<exists>row sealed. open_attempt row (lw_attempts w1) \<and>
     seal_for (le_box env) (ld_nonce draw) (login_context (ld_id draw)) (ld_verifier draw) = Inr sealed \<and>
     la_code_verifier_enc row = sealed \<and> la_id row = sl_attempt_id started \<and>
     la_state_hash row = le_hash env (sl_state started) \<and> la_expires_at row = unix_seconds now + 600 \<and>
     la_redirect_uri row = le_public_origin env @ lit ''/auth/callback'' \<and> sl_attempt_id started = ld_id draw \<and>
     ia_authorization_url (le_identity env) (le_public_origin env @ lit ''/auth/callback'') (sl_state started)
       (le_challenge env (ld_verifier draw)) = Inr (sl_authorize_url started)"
proof -
  let ?kept = "filter (\<lambda>r. \<not> la_expires_at r \<le> unix_seconds now) (lw_attempts w0)"
  let ?state = "ld_id draw @ lit ''.'' @ ld_random draw" and ?redirect = "le_public_origin env @ lit ''/auth/callback''"
  from assms obtain sealed url where sealed: "seal_for (le_box env) (ld_nonce draw) (login_context (ld_id draw)) (ld_verifier draw) = Inr sealed"
    and url: "ia_authorization_url (le_identity env) ?redirect ?state (le_challenge env (ld_verifier draw)) = Inr url"
    and new: "ld_id draw \<notin> set (map la_id ?kept)"
    and started: "started = \<lparr>sl_attempt_id = ld_id draw, sl_state = ?state, sl_authorize_url = url\<rparr>"
    and w1: "lw_attempts w1 = ?kept @ [\<lparr>la_id = ld_id draw, la_state_hash = le_hash env ?state, la_code_verifier_enc = sealed,
                         la_redirect_uri = ?redirect, la_expires_at = unix_seconds now + 600, la_claimed_at = None\<rparr>]"
    by (auto simp: begin_login_def Let_def map_err_def split: sum.splits if_splits)
  let ?row = "\<lparr>la_id = ld_id draw, la_state_hash = le_hash env ?state, la_code_verifier_enc = sealed,
                         la_redirect_uri = ?redirect, la_expires_at = unix_seconds now + 600, la_claimed_at = None\<rparr>"
  have "open_attempt ?row (lw_attempts w1)" using new by (auto simp: open_attempt_def w1 image_iff)
  with sealed url show ?thesis by (intro exI [of _ ?row] exI [of _ sealed]) (simp add: started)
qed

lemma open_claimed:
  assumes "open_attempt row (lw_attempts w)" "claimable_attempt env i later row"
  shows "\<exists>rows. claim_attempt env i now later w = (Inr (la_code_verifier_enc row, la_redirect_uri row), w\<lparr>lw_attempts := rows\<rparr>)"
proof -
  from assms have "find (claimable_attempt env i later) (lw_attempts w) \<noteq> None"
    unfolding open_attempt_def find_None_iff by blast
  then obtain r where r: "find (claimable_attempt env i later) (lw_attempts w) = Some r" by blast
  then have "r \<in> set (lw_attempts w)" "claimable_attempt env i later r"
    by (auto simp: find_Some_iff)
  with assms have "r = row" unfolding open_attempt_def claimable_attempt_def by simp
  with r show ?thesis by (simp add: claim_attempt_def) (rule exI, rule refl)
qed

lemma bindA_liftA: "bindA (liftA (Inr v)) f = f v"
  by (rule ext) (simp add: bindA_def)

lemma bindA_success: "m s = (Inr x, t) \<Longrightarrow> bindA m f s = f x t"
  by (simp add: bindA_def)

text \<open>A hosted login ends with the secrets it began with. Within ten minutes of its start, and
  whatever other requests came between --- other logins, exchanges that guess at this attempt
  without knowing its state --- the exchange for the attempt asks Accounts with the very verifier
  whose challenge the authorization URL carried, and with the same redirect address.\<close>

theorem login_roundtrip:
  assumes "secret_box_ok (le_box env)" "length (ld_nonce draw) = 12"
    and "begin_login env draw now Carbon w0 = (Inr started, w1)" "run (login_step env) w1 ops w2"
    and "\<forall>op \<in> set ops. undisturbed env (sl_attempt_id started) (le_hash env (sl_state started)) (unix_seconds now + 600) op"
    and "exchange_well_formed i" "lx_attempt_id i = sl_attempt_id started" "lx_state i = sl_state started"
    and "unix_seconds (clock 1) < unix_seconds now + 600"
    and redirect: "redirect = le_public_origin env @ lit ''/auth/callback''"
  shows "ia_authorization_url (le_identity env) redirect (sl_state started) (le_challenge env (ld_verifier draw)) =
       Inr (sl_authorize_url started) \<and>
     (\<exists>rows. exchange_login env clock i w2 =
        bindA (claim_token env ''authorization_code'' (lx_code i) (clock 2) (clock 3))
          (\<lambda>_. finish_login env i redirect (ld_verifier draw)) (w2\<lparr>lw_attempts := rows\<rparr>))"
proof -
  from begin_opens [OF assms(3)] obtain row sealed where row: "open_attempt row (lw_attempts w1)"
    and sealed: "seal_for (le_box env) (ld_nonce draw) (login_context (ld_id draw)) (ld_verifier draw) = Inr sealed"
    and cols: "la_code_verifier_enc row = sealed" "la_id row = sl_attempt_id started"
      "la_state_hash row = le_hash env (sl_state started)" "la_expires_at row = unix_seconds now + 600"
      "la_redirect_uri row = redirect" "sl_attempt_id started = ld_id draw"
    and url: "ia_authorization_url (le_identity env) redirect (sl_state started) (le_challenge env (ld_verifier draw)) =
      Inr (sl_authorize_url started)" unfolding redirect by blast
  let ?I = "\<lambda>w. open_attempt row (lw_attempts w)"
  have "keepsA ?I (login_act_of env op)" if "op \<in> set ops" for op
    using open_ops [of env row op] assms(5) that cols by simp
  with row have "?I w2" using keepsA_run [OF assms(4), of ?I] by blast
  moreover have "claimable_attempt env i (clock 1) row"
    using assms(7-9) cols \<open>?I w2\<close> by (simp add: claimable_attempt_def open_attempt_def)
  ultimately obtain rows where rows: "claim_attempt env i (clock 0) (clock 1) w2 =
      (Inr (sealed, redirect), w2\<lparr>lw_attempts := rows\<rparr>)"
    using open_claimed cols by metis
  have opened: "open_for (le_box env) (login_context (lx_attempt_id i)) sealed = Inr (ld_verifier draw)"
    using seal_open [OF assms(1,2) sealed] cols assms(7) by simp
  have "exchange_login env clock i w2 =
      bindA (claim_token env ''authorization_code'' (lx_code i) (clock 2) (clock 3))
        (\<lambda>_. bindA (liftA (map_err (\<lambda>_. storage_error) (Inr (ld_verifier draw)))) (finish_login env i redirect))
        (w2\<lparr>lw_attempts := rows\<rparr>)"
    by (simp add: exchange_login_def assms(6) opened bindA_success [where m = "claim_attempt env i (clock 0) (clock 1)" and s = w2, OF rows] del: One_nat_def)
  with url show ?thesis by (auto simp: bindA_liftA)
qed

theorem login_roundtrip_witness:
  "\<exists>rows. exchange_login sign_in_env (\<lambda>_. 1) sample_exchange_input begun_login =
     bindA (claim_token sign_in_env ''authorization_code'' (lit ''sac_c'') 1 1)
       (\<lambda>_. finish_login sign_in_env sample_exchange_input (lit ''https://b'' @ lit ''/auth/callback'') (lit ''v''))
       (begun_login\<lparr>lw_attempts := rows\<rparr>)"
proof -
  obtain url where url: "begin_login sign_in_env sample_draw 0 Carbon empty_login =
     (Inr \<lparr>sl_attempt_id = replicate 36 48, sl_state = sample_state, sl_authorize_url = url\<rparr>, begun_login)"
    using sample_begins by blast
  have box: "secret_box_ok (le_box sign_in_env)" "length (ld_nonce sample_draw) = 12"
    using plain_box_laws by (simp_all add: sign_in_env_def sample_draw_def)
  have formed: "exchange_well_formed sample_exchange_input" by code_simp
  from login_roundtrip [OF box url run.run_nil _ formed, of "\<lambda>_. 1" "lit ''https://b'' @ lit ''/auth/callback''"]
  show ?thesis
    by (simp add: sample_exchange_input_def sign_in_env_def sample_draw_def unix_seconds_def NANOS_PER_SECOND_def)
qed

section \<open>Whom a request speaks for\<close>

text \<open>Everything in the cache was vouched for by Accounts, for a token of that digest.\<close>

definition cache_vouched :: "('u, 'p) accounts_backend \<Rightarrow> auth_cache \<Rightarrow> bool" where
  "cache_vouched ab c \<longleftrightarrow> (\<forall>(key, e) \<in> set (ac_entries c).
     \<exists>token p q. ab_digest ab token = key \<and> vouched_for ab token (ce_identity e) p q)"

lemma vouched_invalidate: "cache_vouched ab (cache_invalidate c)"
  by (simp add: cache_vouched_def cache_invalidate_def clear_entries_def)

lemma vouched_store:
  assumes "cache_vouched ab c" "vouched_for ab token i p q"
  shows "cache_vouched ab (store_entry tick (ab_digest ab token) i g c)"
proof -
  let ?v = "\<lparr>ce_identity = i, ce_until = tick + TTL, ce_generation = g\<rparr>"
  have "set (AList.update k ?v es) \<subseteq> insert (k, ?v) (set es)" for k es
    by (induction es) auto
  with evict_subset have "set (ac_entries (store_entry tick (ab_digest ab token) i g c)) \<subseteq>
      insert (ab_digest ab token, ?v) (set (ac_entries c))"
    unfolding store_entry_def by fastforce
  moreover have "\<exists>token' p q. ab_digest ab token' = ab_digest ab token \<and> vouched_for ab token' (ce_identity ?v) p q"
    using assms(2) by auto
  ultimately show ?thesis using assms(1) unfolding cache_vouched_def by blast
qed

abbreviation world_vouched :: "('u, 'p) accounts_backend \<Rightarrow> 'p auth_world \<Rightarrow> bool" where
  "world_vouched ab w \<equiv> cache_vouched ab (wa_cache w)"

lemma keepsA_at_service [simp]: "keepsA (world_vouched ab) (at_service m)"
  by (auto simp: keepsA_def at_service_def split: prod.splits)

lemma identify_vouches:
  assumes "world_vouched ab w" "accounts_identify ab token w = (r, w')"
  shows "world_vouched ab w' \<and>
     (\<forall>i. r = Inr i \<longrightarrow> (\<exists>token' p q. ab_digest ab token' = ab_digest ab token \<and> vouched_for ab token' i p q))"
proof (cases "ab_cache_on ab")
  case False
  with assms(2) have run: "at_service (introspect ab token) w = (r, w')" by (simp add: accounts_identify_def)
  then have "wa_cache w' = wa_cache w" by (auto simp: at_service_def split: prod.splits)
  moreover have "\<exists>q. vouched_for ab token i (wa_service w) q" if "r = Inr i" for i
    using run that introspect_vouches [of ab token "wa_service w" i] by (auto simp: at_service_def split: prod.splits)
  ultimately show ?thesis using assms(1) by metis
next
  case True
  let ?p = "wa_service w" and ?key = "ab_digest ab token"
  from True assms(2) have run: "cache_resolve ab token (introspect ab token) w = (r, w')"
    by (simp add: accounts_identify_def)
  have hit: "\<exists>token' p q. ab_digest ab token' = ?key \<and> vouched_for ab token' i p q"
    if "cached tick utc ?key (wa_cache w) = Some i" for tick utc i
  proof -
    from cached_entry [OF that] obtain e where "(?key, e) \<in> set (ac_entries (wa_cache w))" "ce_identity e = i" by blast
    with assms(1) show ?thesis unfolding cache_vouched_def by blast
  qed
  have fetched: "\<exists>q. introspect ab token ?p = (Inr i, q) \<and> vouched_for ab token i ?p q"
    if "introspect ab token ?p = (Inr i, q)" for i q
    using introspect_vouches [OF that] that by blast
  show ?thesis
  proof (cases "cached (ab_tick ab 0 ?p) (ab_now ab 0 ?p) ?key (wa_cache w)")
    case (Some i)
    with run hit assms(1) show ?thesis by (auto simp: cache_resolve_def Let_def)
  next
    case first: None
    show ?thesis
    proof (cases "cached (ab_tick ab 1 ?p) (ab_now ab 1 ?p) ?key (wa_cache w)")
      case (Some i)
      with first run hit assms(1) show ?thesis by (auto simp: cache_resolve_def Let_def)
    next
      case second: None
      show ?thesis
      proof (cases "introspect ab token ?p")
        case (Pair a q)
        show ?thesis
        proof (cases a)
          case (Inl e)
          with Pair first second run assms(1) show ?thesis by (auto simp: cache_resolve_def Let_def)
        next
          case (Inr i)
          with Pair introspect_vouches [of ab token ?p i q] have v: "vouched_for ab token i ?p q" by simp
          show ?thesis
          proof (cases "pr_expires_at i \<le> ab_now ab 2 q")
            case True
            with Inr Pair first second run assms(1) show ?thesis by (auto simp: cache_resolve_def Let_def)
          next
            case False
            with Inr Pair first second run have "r = Inr i"
              and "wa_cache w' = store_entry (ab_tick ab 3 q) ?key i (ac_generation (wa_cache w)) (wa_cache w)"
              by (auto simp: cache_resolve_def Let_def)
            with v vouched_store [OF assms(1) v] show ?thesis by auto
          qed
        qed
      qed
    qed
  qed
qed

lemma keepsA_identify: "keepsA (world_vouched ab) (accounts_identify ab token)"
  unfolding keepsA_def using identify_vouches by (metis prod.collapse)

lemma keepsA_refresh_vouched: "keepsA (world_vouched ab) (accounts_refresh ab token)"
proof -
  have "world_vouched ab (invalidate_if_on ab w)" if "world_vouched ab w" for w
    using that by (simp add: invalidate_if_on_def vouched_invalidate)
  then have "keepsA (world_vouched ab) (\<lambda>w. (r, invalidate_if_on ab w))" for r :: "identity_error + exchanged_auth"
    by (simp add: keepsA_def)
  then show ?thesis
    unfolding accounts_refresh_def [abs_def] by (intro keepsA_cond keepsA_ret keepsA_step keepsA_at_service)
qed

lemma keepsA_accounts:
  "keepsA (world_vouched ab) (ia_exchange_code (accounts_api ab) request)"
  "keepsA (world_vouched ab) (ia_identify (accounts_api ab) token)"
  "keepsA (world_vouched ab) (ia_exchange_short_lived (accounts_api ab) token)"
  "keepsA (world_vouched ab) (ia_refresh (accounts_api ab) token)"
  by (simp_all add: accounts_api_def keepsA_identify keepsA_refresh_vouched)

lemma keepsA_at_accounts_world: "keepsA I m \<Longrightarrow> keepsA (\<lambda>w. I (lw_accounts w)) (at_accounts m)"
  unfolding keepsA_def at_accounts_def by (fastforce split: prod.splits sum.splits)

lemma keepsA_tables_only:
  "keepsA (\<lambda>w. I (lw_accounts w)) (claim_token env operation token now later)"
  "keepsA (\<lambda>w. I (lw_accounts w)) (claim_attempt env i now later)"
  "keepsA (\<lambda>w. I (lw_accounts w)) (begin_login env draw now kind)"
  by (auto simp: keepsA_def claim_token_def claim_attempt_def begin_login_def Let_def split: option.splits sum.splits)

lemma vouched_ops:
  assumes "le_identity env = accounts_api ab"
  shows "keepsA (\<lambda>w. world_vouched ab (lw_accounts w)) (login_act_of env op)"
  using assms
  by (cases op)
    (auto simp: exchange_login_def finish_login_def exchange_auth_def refresh_auth_def scope_from_request_def
      authenticate_scope_def intro!: keepsA_bindA keepsA_if keepsA_case_prod keepsA_map_errA keepsA_pure
      keepsA_at_accounts_world keepsA_accounts keepsA_tables_only)

text \<open>C24: a request acts only for an account that Accounts vouches for. If a request gets a scope, after
  any history of sign-ins and requests from an empty cache, its header carried a bearer token, and
  Accounts has answered an introspection of this token --- or of one with the same digest --- as
  active, issued for this application, unexpired and bound to a stable account; the scope's
  principal and identity are that account, and its partition is the one of this program.\<close>

theorem authenticated_scope_vouched:
  assumes "le_identity env = accounts_api ab" "wa_cache (lw_accounts w0) = empty_cache"
    and "run (login_step env) w0 ops w" "scope_from_request env header w = (Inr s, w')"
  shows "\<exists>token token' p q. header = Some (lit ''Bearer '' @ token) \<and> ab_digest ab token' = ab_digest ab token \<and>
     vouched_for ab token' (sp_principal s) p q \<and> i_id (sp_identity s) = pr_principal_id (sp_principal s) \<and>
     \<not> account_subject_retired env (i_id (sp_identity s)) \<and> sp_org_id s = WORKSPACE"
proof -
  let ?I = "\<lambda>w. world_vouched ab (lw_accounts w)"
  have "?I w0" by (simp add: cache_vouched_def assms(2) empty_cache_def)
  then have inv: "?I w" using keepsA_run [OF assms(3), of ?I] vouched_ops [OF assms(1)] by blast
  from assms(4) obtain token where token: "bearer header = Inr token" and scope: "authenticate_scope env token w = (Inr s, w')"
    unfolding scope_from_request_def map_errA_Inr bindA_Inr by auto
  from token have header: "header = Some (lit ''Bearer '' @ token)"
    by (auto simp: bearer_def strip_prefix_Some_iff split: if_splits)
  from scope obtain who w1 where who: "at_accounts (ia_identify (le_identity env) token) w = (Inr who, w1)"
    and rest: "bindA (liftA (resolve_identity env who)) (\<lambda>identity.
       okA \<lparr>sp_org_id = WORKSPACE, sp_identity = identity, sp_principal = who\<rparr>) w1 = (Inr s, w')"
    unfolding authenticate_scope_def bindA_Inr by blast
  from who obtain v where "accounts_identify ab token (lw_accounts w) = (Inr who, v)"
    by (auto simp: at_accounts_def assms(1) accounts_api_def split: prod.splits sum.splits)
  with identify_vouches [OF inv] obtain token' p q where "ab_digest ab token' = ab_digest ab token"
    "vouched_for ab token' who p q" by blast
  moreover from rest have "sp_principal s = who" "i_id (sp_identity s) = pr_principal_id who" "sp_org_id s = WORKSPACE"
    "\<not> account_subject_retired env (pr_principal_id who)"
    by (auto simp: bindA_Inr resolve_identity_def split: if_splits)
  ultimately show ?thesis using header by auto
qed

theorem authenticated_scope_vouched_witness:
  "\<exists>s w' p q. scope_from_request sign_in_env (Some (lit ''Bearer '' @ ada_jwt)) begun_login = (Inr s, w') \<and>
     vouched_for sample_accounts ada_jwt (sp_principal s) p q"
proof -
  have "bearer (Some (lit ''Bearer '' @ ada_jwt)) = Inr ada_jwt" by code_simp
  moreover have "\<exists>v. accounts_identify sample_accounts ada_jwt (lw_accounts begun_login) = (Inr ada_identity, v)"
    by (simp add: accounts_identify_def cache_resolve_def begun_login_def empty_login_def empty_cache_def cached_def
        sample_introspect Let_def sample_accounts_def [THEN arg_cong [where f = ab_cache_on]]
        sample_accounts_def [THEN arg_cong [where f = ab_now]] ada_identity_def NANOS_PER_SECOND_def)
  ultimately obtain s w' where s: "scope_from_request sign_in_env (Some (lit ''Bearer '' @ ada_jwt)) begun_login = (Inr s, w')"
    by (auto simp: scope_from_request_def authenticate_scope_def bindA_def map_errA_def at_accounts_def sign_in_env_def
        accounts_api_def resolve_identity_def account_subject_retired_def)
  have "le_identity sign_in_env = accounts_api sample_accounts" by (simp add: sign_in_env_def)
  moreover have "wa_cache (lw_accounts empty_login) = empty_cache" by (simp add: empty_login_def)
  ultimately obtain token token' p q where "Some (lit ''Bearer '' @ ada_jwt) = Some (lit ''Bearer '' @ token)"
    "ab_digest sample_accounts token' = ab_digest sample_accounts token" "vouched_for sample_accounts token' (sp_principal s) p q"
    using authenticated_scope_vouched [OF _ _ sign_in_run s] by blast
  then have "vouched_for sample_accounts ada_jwt (sp_principal s) p q" by (simp add: sample_accounts_def)
  with s show ?thesis by blast
qed

end
