(* ===== verification/SB_Webhook.thy ===== *)
theory SB_Webhook
  imports SB_Accounts
begin

text \<open>
  The notifications of Accounts (\<open>src/crates/backend/src/webhook.rs\<close>): a signed message empties the
  cache of authorization snapshots and leaves a receipt. HMAC-SHA-256, the hexadecimal decoding and
  the JSON decoding of an event are parameters.
\<close>

section \<open>Receiving a notification\<close>





definition webhook_secret_ok :: "str \<Rightarrow> bool" where
  "webhook_secret_ok secret \<longleftrightarrow>
     starts_with (lit ''whsec_'') secret \<and> \<not> utf8_len secret < 8 \<and> \<not> utf8_len secret > 512 \<and>
     list_all is_ascii_graphic secret"









section \<open>What a notification proves and does\<close>








end
