(* ===== verification/SB_Search.thy ===== *)
theory SB_Search
  imports SB_Api
begin

text \<open>
  The adapter of the search service (\<open>src/crates/backend/src/providers/search.rs\<close>): the query with
  its domain operators, what the adapter supports, the order of fetched pages and the budget of a
  response. The HTTP client, the JSON coders and the \<open>url\<close> crate are parameters.
\<close>

section \<open>Queries\<close>

abbreviation TINYFISH :: string where "TINYFISH \<equiv> ''tinyfish''"

definition MAX_FETCH_BATCH :: nat where "MAX_FETCH_BATCH = 10"
definition MAX_FETCH_URLS :: nat where "MAX_FETCH_URLS = 1000"
definition MAX_TINYFISH_FETCH_RESPONSE_BYTES :: nat where "MAX_TINYFISH_FETCH_RESPONSE_BYTES = 2 * 1024 * 1024"
definition MAX_FETCH_ITEMS_JSON_BYTES :: nat where "MAX_FETCH_ITEMS_JSON_BYTES = 12 * 1024 * 1024"

definition normal_domain :: "str \<Rightarrow> provider_error + str" where
  "normal_domain text =
     (let raw = trim_wildcards (trim text);
          invalid = PInvalidInput (lit ''invalid search domain: '' @ raw)
      in
      if raw = [] \<or> utf8_len raw > 253 \<or> list_ex (\<lambda>c. c \<in> {47, 58, 63, 35, 64}) raw \<or>
         \<not> list_all (\<lambda>b. is_ascii_alphanumeric b \<or> b = 46 \<or> b = 45) raw
      then Inl invalid
      else if list_ex (\<lambda>l. l = [] \<or> starts_with [45] l \<or> ends_with [45] l) (split_char 46 raw)
      then Inl invalid
      else Inr (to_ascii_lower raw))"

fun join :: "str \<Rightarrow> str list \<Rightarrow> str" where
  "join separator [] = []"
| "join separator [x] = x"
| "join separator (x # y # xs) = x @ separator @ join separator (y # xs)"

definition query_with_domain_operators :: "str \<Rightarrow> str list \<Rightarrow> str list \<Rightarrow> provider_error + str" where
  "query_with_domain_operators query includes excludes =
     tryE (traverseE normal_domain includes) (\<lambda>ins.
     tryE (traverseE normal_domain excludes) (\<lambda>outs.
       Inr (query @
         (if ins = [] then [] else lit '' ('' @ join (lit '' OR '') (map (\<lambda>d. lit ''site:'' @ d) ins) @ lit '')'') @
         concat (map (\<lambda>d. lit '' -site:'' @ d) outs))))"

definition validate_search :: "url_parser \<Rightarrow> search_request \<Rightarrow> provider_error + unit" where
  "validate_search parse r =
     tryE (map_err (\<lambda>e. PInvalidInput (validation_text e)) (search_request_validate parse r)) (\<lambda>_.
       if sq_type r \<noteq> Web then Inl (PUnsupported TINYFISH ''news and research search types'')
       else if sq_recency_minutes r \<noteq> None \<or> sq_after r \<noteq> None \<or> sq_before r \<noteq> None \<or>
               sq_pub_year_min r \<noteq> None \<or> sq_pub_year_max r \<noteq> None
       then Inl (PUnsupported TINYFISH ''search recency, date, and publication-year filters'')
       else tryE (query_with_domain_operators (sq_query r) (sq_include_domains r) (sq_exclude_domains r)) (\<lambda>_. Inr ()))"

record tinyfish_search_query =
  tq_query :: str
  tq_location :: "str option"
  tq_language :: "str option"
  tq_page :: nat

definition tinyfish_search_query_of :: "url_parser \<Rightarrow> search_request \<Rightarrow> provider_error + tinyfish_search_query" where
  "tinyfish_search_query_of parse r =
     tryE (validate_search parse r) (\<lambda>_.
     tryE (query_with_domain_operators (sq_query r) (sq_include_domains r) (sq_exclude_domains r)) (\<lambda>query.
       Inr \<lparr>tq_query = query, tq_location = sq_location r, tq_language = sq_language r, tq_page = sq_page r\<rparr>))"

text \<open>The pairs appended to the search endpoint.\<close>

definition tinyfish_search_pairs :: "tinyfish_search_query \<Rightarrow> (string \<times> str) list" where
  "tinyfish_search_pairs q =
     (''query'', tq_query q) #
     (case tq_location q of Some l \<Rightarrow> [(''location'', l)] | None \<Rightarrow> []) @
     (case tq_language q of Some l \<Rightarrow> [(''language'', l)] | None \<Rightarrow> []) @
     [(''page'', dec_digits (tq_page q))]"

definition check_fetch_url :: "url_parser \<Rightarrow> str \<Rightarrow> provider_error + unit" where
  "check_fetch_url parse raw =
     tryE (map_err (\<lambda>e. PInvalidInput (lit (''invalid fetch URL: '' @ e))) (parse raw)) (\<lambda>u.
       if url_scheme u \<notin> {lit ''http'', lit ''https''}
       then Inl (PInvalidInput (lit ''fetch URLs must use http or https''))
       else if url_hostpart u = None \<or> url_username u \<noteq> [] \<or> url_password u \<noteq> None
       then Inl (PInvalidInput (lit ''fetch URLs must have a host and may not contain credentials''))
       else Inr ())"

definition validate_fetch :: "url_parser \<Rightarrow> fetch_request \<Rightarrow> provider_error + unit" where
  "validate_fetch parse r =
     tryE (map_err (\<lambda>e. PInvalidInput (validation_text e)) (fetch_request_validate parse r)) (\<lambda>_.
       if fr_urls r = [] \<or> length (fr_urls r) > MAX_FETCH_URLS
       then Inl (PInvalidInput (lit ''fetch requires 1..='' @ dec_digits MAX_FETCH_URLS @ lit '' URLs''))
       else if fr_ttl_seconds r \<noteq> None \<or> fr_timeout_ms r \<noteq> None \<or> fr_include_selectors r \<noteq> [] \<or>
               fr_exclude_selectors r \<noteq> []
       then Inl (PUnsupported TINYFISH ''fetch TTL, per-URL timeout, and selector filters'')
       else checkallE (check_fetch_url parse) (fr_urls r))"

definition http_endpoint :: "url_parser \<Rightarrow> str \<Rightarrow> string \<Rightarrow> provider_error + url" where
  "http_endpoint parse raw kind =
     tryE (map_err (\<lambda>e. PInvalidInput (lit (''invalid TinyFish '' @ kind @ '' endpoint: '' @ e))) (parse raw)) (\<lambda>u.
       if url_scheme u \<notin> {lit ''http'', lit ''https''} \<or> url_hostpart u = None \<or> url_username u \<noteq> [] \<or>
          url_password u \<noteq> None \<or> url_query u \<noteq> None \<or> url_fragment u \<noteq> None
       then Inl (PInvalidInput (lit (''TinyFish '' @ kind @
              '' endpoint must be a credential-free http(s) URL without query or fragment'')))
       else if \<not> is_https_or_loopback_http u
       then Inl (PInvalidInput (lit (''TinyFish '' @ kind @ '' endpoint must use HTTPS unless its host is loopback'')))
       else Inr u)"

section \<open>Fetched pages\<close>

text \<open>The text of a page: a JSON string, or another JSON value, given by its JSON text.\<close>

datatype page_text = TextString str | TextJson str

record fetched_page =
  fg_url :: str
  fg_text :: page_text
  fg_links :: "str list"
  fg_image_links :: "str list"

record fetch_failure =
  ff_url :: str
  ff_error :: str

record tinyfish_fetch_response =
  tr_results :: "fetched_page list"
  tr_errors :: "fetch_failure list"

definition public_fetch_error :: "string \<Rightarrow> string \<Rightarrow> api_error" where
  "public_fetch_error code message =
     \<lparr>ae_code = lit code, ae_message = lit message, ae_fields = [], ae_details = [], ae_request_id = None,
       ae_retry_after_ms = None\<rparr>"

definition fetch_error :: "str \<Rightarrow> api_error" where
  "fetch_error untrusted = public_fetch_error ''provider_fetch_failed'' ''TinyFish could not fetch this URL''"

definition page_item :: "fetched_page \<Rightarrow> fetch_item" where
  "page_item page = \<lparr>fi_url = fg_url page, fi_status = FetchOk,
     fi_content = Some (case fg_text page of TextString content \<Rightarrow> content | TextJson json \<Rightarrow> json),
     fi_links = fg_links page, fi_image_links = fg_image_links page, fi_error = None, fi_cached = False\<rparr>"

definition failure_item :: "fetch_failure \<Rightarrow> fetch_item" where
  "failure_item failure = \<lparr>fi_url = ff_url failure, fi_status = FetchError, fi_content = None, fi_links = [],
     fi_image_links = [], fi_error = Some (fetch_error (ff_error failure)), fi_cached = False\<rparr>"

definition missing_item :: "str \<Rightarrow> fetch_item" where
  "missing_item u = \<lparr>fi_url = u, fi_status = FetchError, fi_content = None, fi_links = [], fi_image_links = [],
     fi_error = Some (public_fetch_error ''provider_missing_result'' ''TinyFish returned no result for this URL''),
     fi_cached = False\<rparr>"

text \<open>The positions of each URL in the request, in order, as queues.\<close>

definition positions_of :: "str list \<Rightarrow> str \<rightharpoonup> nat list" where
  "positions_of urls =
     fold (\<lambda>(index, u) m. m(u \<mapsto> (case m u of Some q \<Rightarrow> q | None \<Rightarrow> []) @ [index]))
       (List.enumerate 0 urls) Map.empty"

definition place ::
  "fetch_item \<Rightarrow> (str \<rightharpoonup> nat list) \<times> fetch_item option list \<Rightarrow>
   provider_error + (str \<rightharpoonup> nat list) \<times> fetch_item option list" where
  "place outcome s =
     (case s of (positions, ordered) \<Rightarrow>
        case positions (fi_url outcome) of
          Some (index # rest) \<Rightarrow> Inr (positions(fi_url outcome \<mapsto> rest), ordered[index := Some outcome])
        | _ \<Rightarrow> Inl (PInvalidResponse TINYFISH (lit ''fetch response named an unrequested or duplicate URL'')))"

fun place_all ::
  "fetch_item list \<Rightarrow> (str \<rightharpoonup> nat list) \<times> fetch_item option list \<Rightarrow>
   provider_error + (str \<rightharpoonup> nat list) \<times> fetch_item option list" where
  "place_all [] s = Inr s"
| "place_all (outcome # rest) s = tryE (place outcome s) (place_all rest)"

definition outcomes_of :: "tinyfish_fetch_response \<Rightarrow> fetch_item list" where
  "outcomes_of response = map page_item (tr_results response) @ map failure_item (tr_errors response)"

definition order_fetch_chunk :: "str list \<Rightarrow> tinyfish_fetch_response \<Rightarrow> provider_error + fetch_item list" where
  "order_fetch_chunk urls response =
     tryE (place_all (outcomes_of response) (positions_of urls, replicate (length urls) None)) (\<lambda>(_, ordered).
       Inr (map (\<lambda>(outcome, u). case outcome of Some item \<Rightarrow> item | None \<Rightarrow> missing_item u) (zip ordered urls)))"

section \<open>The budget of a response\<close>

text \<open>\<open>LimitedJsonCounter\<close>: the writes of an item's JSON text, each of a number of bytes; the first one
  that does not fit sets the flag and fails the encoding.\<close>

record json_counter =
  jc_written :: nat
  jc_limit :: nat
  jc_exceeded :: bool

fun write_json :: "nat list \<Rightarrow> json_counter \<Rightarrow> json_counter" where
  "write_json [] c = c"
| "write_json (n # ns) c =
     (if n > jc_limit c - jc_written c then c\<lparr>jc_exceeded := True\<rparr>
      else write_json ns (c\<lparr>jc_written := jc_written c + n\<rparr>))"

record fetch_budget =
  fb_bytes :: nat
  fb_count :: nat

definition empty_budget :: fetch_budget where
  "empty_budget = \<lparr>fb_bytes = 0, fb_count = 0\<rparr>"

definition fetch_result_too_large :: provider_error where
  "fetch_result_too_large = PInvalidResponse TINYFISH
     (lit ''fetch result exceeded the '' @ dec_digits MAX_FETCH_ITEMS_JSON_BYTES @ lit ''-byte aggregate output limit'')"

text \<open>One item: its separator, its text, the running total. \<open>json\<close> gives the writes of an item.\<close>

definition extend_item ::
  "(fetch_item \<Rightarrow> nat list) \<Rightarrow> fetch_item \<Rightarrow> fetch_budget \<Rightarrow> provider_error + fetch_budget" where
  "extend_item json item b =
     (let separator = (if fb_count b > 0 then 1 else 0) in
      if fb_bytes b > MAX_FETCH_ITEMS_JSON_BYTES \<or> separator > MAX_FETCH_ITEMS_JSON_BYTES - fb_bytes b
      then Inl fetch_result_too_large
      else
      let counter = write_json (json item)
            \<lparr>jc_written = 0, jc_limit = MAX_FETCH_ITEMS_JSON_BYTES - fb_bytes b - separator, jc_exceeded = False\<rparr>
      in if jc_exceeded counter then Inl fetch_result_too_large
         else Inr \<lparr>fb_bytes = fb_bytes b + separator + jc_written counter, fb_count = fb_count b + 1\<rparr>)"

fun extend_items ::
  "(fetch_item \<Rightarrow> nat list) \<Rightarrow> fetch_item list \<Rightarrow> fetch_budget \<Rightarrow> fetch_item list \<Rightarrow>
   provider_error + fetch_budget \<times> fetch_item list" where
  "extend_items json [] b destination = Inr (b, destination)"
| "extend_items json (item # rest) b destination =
     tryE (extend_item json item b) (\<lambda>b'. extend_items json rest b' (destination @ [item]))"

section \<open>The adapter\<close>

record tinyfish_search_result =
  ts_position :: nat
  ts_title :: str
  ts_url :: str
  ts_snippet :: "str option"
  ts_date :: "str option"

record tinyfish_search_response =
  tf_results :: "tinyfish_search_result list"
  tf_page :: "nat option"

datatype tinyfish_call =
    SearchCall "(string \<times> str) list"
  | FetchCall "str list" fetch_format bool bool

record 'p tinyfish =
  tf_send :: "tinyfish_call \<Rightarrow> ('p, str, http_response) act"
  tf_search_decode :: "bytes \<Rightarrow> tinyfish_search_response option"
  tf_fetch_decode :: "bytes \<Rightarrow> tinyfish_fetch_response option"
  tf_rfc2822 :: "str \<Rightarrow> instant option"
  tf_rfc3339 :: "str \<Rightarrow> instant option"
  tf_parse :: url_parser
  tf_json :: "fetch_item \<Rightarrow> nat list"
  tf_now :: "'p \<Rightarrow> instant"

text \<open>The trait \<open>SearchProvider\<close>.\<close>

record 'p search_api =
  sa_search :: "search_request \<Rightarrow> ('p, provider_error, search_response) act"
  sa_fetch :: "fetch_request \<Rightarrow> ('p, provider_error, fetch_response) act"

definition tinyfish_call_with ::
  "'p tinyfish \<Rightarrow> tinyfish_call \<Rightarrow> (bytes \<Rightarrow> 'a option) \<Rightarrow> nat \<Rightarrow> ('p, provider_error, 'a) act" where
  "tinyfish_call_with tf request decode max_bytes =
     bindA (map_errA (PTransport TINYFISH) (tf_send tf request)) (\<lambda>response p.
       (json_response_with_limit (tf_rfc2822 tf) (tf_now tf p) decode TINYFISH response max_bytes, p))"

definition result_of_tinyfish :: "(str \<Rightarrow> instant option) \<Rightarrow> tinyfish_search_result \<Rightarrow> search_result" where
  "result_of_tinyfish rfc3339 r =
     \<lparr>sr_rank = ts_position r, sr_title = ts_title r, sr_url = ts_url r,
       sr_snippet = (case ts_snippet r of Some s \<Rightarrow> if s \<noteq> [] then Some s else None | None \<Rightarrow> None),
       sr_published_at = Option.bind (ts_date r) rfc3339\<rparr>"

definition tinyfish_search :: "'p tinyfish \<Rightarrow> search_request \<Rightarrow> ('p, provider_error, search_response) act" where
  "tinyfish_search tf request =
     bindA (liftA (tinyfish_search_query_of (tf_parse tf) request)) (\<lambda>query.
     bindA (tinyfish_call_with tf (SearchCall (tinyfish_search_pairs query)) (tf_search_decode tf)
              DEFAULT_MAX_JSON_RESPONSE_BYTES) (\<lambda>response.
       okA \<lparr>sp_results = map (result_of_tinyfish (tf_rfc3339 tf)) (tf_results response),
            sp_page = (case tf_page response of Some page \<Rightarrow> page | None \<Rightarrow> sq_page request), sp_queued_ms = 0\<rparr>))"

fun tinyfish_fetch_chunks ::
  "'p tinyfish \<Rightarrow> fetch_request \<Rightarrow> str list list \<Rightarrow> fetch_budget \<Rightarrow> fetch_item list \<Rightarrow>
   ('p, provider_error, fetch_response) act" where
  "tinyfish_fetch_chunks tf request [] budget items = okA \<lparr>fp_items = items, fp_queued_ms = 0\<rparr>"
| "tinyfish_fetch_chunks tf request (urls # rest) budget items =
     bindA (tinyfish_call_with tf (FetchCall urls (fr_format request) (fr_links request) (fr_image_links request))
              (tf_fetch_decode tf) MAX_TINYFISH_FETCH_RESPONSE_BYTES) (\<lambda>response.
     bindA (liftA (order_fetch_chunk urls response)) (\<lambda>ordered.
     bindA (liftA (extend_items (tf_json tf) ordered budget items)) (\<lambda>(budget', items').
       tinyfish_fetch_chunks tf request rest budget' items')))"

definition tinyfish_fetch :: "'p tinyfish \<Rightarrow> fetch_request \<Rightarrow> ('p, provider_error, fetch_response) act" where
  "tinyfish_fetch tf request =
     bindA (liftA (validate_fetch (tf_parse tf) request)) (\<lambda>_.
       tinyfish_fetch_chunks tf request (chunks MAX_FETCH_BATCH (fr_urls request)) empty_budget [])"

definition tinyfish_api :: "'p tinyfish \<Rightarrow> 'p search_api" where
  "tinyfish_api tf = \<lparr>sa_search = tinyfish_search tf, sa_fetch = tinyfish_fetch tf\<rparr>"

section \<open>The order of fetched pages\<close>

definition idx :: "str list \<Rightarrow> str \<Rightarrow> nat list" where
  "idx urls u = filter (\<lambda>i. urls ! i = u) [0..<length urls]"

definition outs :: "fetch_item list \<Rightarrow> str \<Rightarrow> fetch_item list" where
  "outs os u = filter (\<lambda>o'. fi_url o' = u) os"

lemma idx_mem: "i \<in> set (idx urls u) \<longleftrightarrow> i < length urls \<and> urls ! i = u"
  by (auto simp: idx_def)

lemma idx_distinct: "distinct (idx urls u)"
  by (simp add: idx_def)

lemma idx_snoc: "idx (urls @ [v]) u = idx urls u @ (if v = u then [length urls] else [])"
proof -
  have "filter (\<lambda>i. (urls @ [v]) ! i = u) [0..<length urls] = filter (\<lambda>i. urls ! i = u) [0..<length urls]"
    by (rule filter_cong) (auto simp: nth_append)
  then show ?thesis by (simp add: idx_def)
qed

lemma length_idx: "length (idx urls u) = count_list urls u"
  by (induction urls rule: rev_induct) (simp_all add: idx_snoc, simp add: idx_def)

lemma positions_of_idx: "positions_of urls u = (if u \<in> set urls then Some (idx urls u) else None)"
proof (induction urls rule: rev_induct)
  case Nil
  then show ?case by (simp add: positions_of_def)
next
  case (snoc v urls)
  have "positions_of (urls @ [v]) =
      (positions_of urls)(v \<mapsto> (case positions_of urls v of Some q \<Rightarrow> q | None \<Rightarrow> []) @ [length urls])"
    by (simp add: positions_of_def enumerate_append_eq)
  moreover have "idx urls v = []" if "v \<notin> set urls"
    using that by (auto simp: idx_def filter_empty_conv in_set_conv_nth)
  ultimately show ?case using snoc.IH by (auto simp: idx_snoc)
qed

text \<open>After the outcomes \<open>os\<close> have been placed.\<close>

definition placed :: "str list \<Rightarrow> fetch_item list \<Rightarrow> (str \<rightharpoonup> nat list) \<times> fetch_item option list \<Rightarrow> bool" where
  "placed urls os s \<longleftrightarrow> length (snd s) = length urls \<and>
     (\<forall>u. fst s u = (if u \<in> set urls then Some (drop (length (outs os u)) (idx urls u)) else None)) \<and>
     (\<forall>u. length (outs os u) \<le> length (idx urls u)) \<and>
     (\<forall>u. \<forall>j < length (idx urls u). snd s ! (idx urls u ! j) =
        (if j < length (outs os u) then Some (outs os u ! j) else None))"

lemma outs_snoc: "outs (os @ [x]) u = outs os u @ (if fi_url x = u then [x] else [])"
  by (simp add: outs_def)

lemma placed_start: "placed urls [] (positions_of urls, replicate (length urls) None)"
proof -
  have "idx urls u ! j < length urls" if "j < length (idx urls u)" for u j
    using nth_mem [OF that] by (simp add: idx_mem)
  then show ?thesis by (simp add: placed_def positions_of_idx outs_def)
qed

lemma placed_place:
  assumes "placed urls os s"
  shows "case place x s of
      Inl e \<Rightarrow> length (outs os (fi_url x)) \<ge> count_list urls (fi_url x)
    | Inr s' \<Rightarrow> placed urls (os @ [x]) s'"
proof (cases s)
  case (Pair pos ord)
  let ?u = "fi_url x" and ?k = "length (outs os (fi_url x))"
  have len: "length ord = length urls"
    and pos: "\<And>u. pos u = (if u \<in> set urls then Some (drop (length (outs os u)) (idx urls u)) else None)"
    and room: "\<And>u. length (outs os u) \<le> length (idx urls u)"
    and ord: "\<And>u j. j < length (idx urls u) \<Longrightarrow> ord ! (idx urls u ! j) =
        (if j < length (outs os u) then Some (outs os u ! j) else None)"
    using assms Pair by (auto simp: placed_def)
  show ?thesis
  proof (cases "?k < length (idx urls ?u)")
    case False
    then have "pos ?u = None \<or> pos ?u = Some []" using pos by simp
    then have "\<exists>e. place x s = Inl e" using Pair by (auto simp: place_def)
    with False show ?thesis by (auto simp: length_idx)
  next
    case True
    then have mem: "?u \<in> set urls" using idx_mem [of _ urls ?u] by (metis length_pos_if_in_set nth_mem gr_implies_not0 list.size(3) length_idx count_list_0_iff)
    let ?i = "idx urls ?u ! ?k"
    from True have i: "?i < length urls" "urls ! ?i = ?u" using nth_mem [OF True] by (simp_all add: idx_mem)
    have rest: "drop ?k (idx urls ?u) = ?i # drop (Suc ?k) (idx urls ?u)"
      using True by (rule Cons_nth_drop_Suc [symmetric])
    with pos mem Pair have place: "place x s = Inr (pos(?u \<mapsto> drop (Suc ?k) (idx urls ?u)), ord[?i := Some x])"
      by (simp add: place_def)
    have same: "ord[?i := Some x] ! (idx urls u ! j) =
        (if j < length (outs (os @ [x]) u) then Some (outs (os @ [x]) u ! j) else None)" if j: "j < length (idx urls u)" for u j
    proof (cases "u = ?u")
      case False
      then have "idx urls u ! j \<noteq> ?i" using nth_mem [OF j] i by (auto simp: idx_mem)
      with ord [OF j] False show ?thesis by (simp add: outs_snoc)
    next
      case u: True
      show ?thesis
      proof (cases "j = ?k")
        case True
        with u i len show ?thesis by (simp add: outs_snoc)
      next
        case False
        with u j True idx_distinct [of urls ?u] have "idx urls u ! j \<noteq> ?i" by (simp add: nth_eq_iff_index_eq)
        with ord [OF j] False u show ?thesis by (auto simp: outs_snoc nth_append less_Suc_eq)
      qed
    qed
    have "placed urls (os @ [x]) (pos(?u \<mapsto> drop (Suc ?k) (idx urls ?u)), ord[?i := Some x])"
      unfolding placed_def
    proof (intro conjI allI impI)
      show "length (snd (pos(?u \<mapsto> drop (Suc ?k) (idx urls ?u)), ord[?i := Some x])) = length urls" using len by simp
      show "fst (pos(?u \<mapsto> drop (Suc ?k) (idx urls ?u)), ord[?i := Some x]) u =
          (if u \<in> set urls then Some (drop (length (outs (os @ [x]) u)) (idx urls u)) else None)" for u
        using pos [of u] mem by (auto simp: outs_snoc)
      show "length (outs (os @ [x]) u) \<le> length (idx urls u)" for u
        using room [of u] True by (auto simp: outs_snoc)
    qed (use same in simp)
    with place show ?thesis by simp
  qed
qed

lemma place_all_spec:
  assumes "placed urls os s"
  shows "case place_all xs s of
      Inl e \<Rightarrow> \<exists>u. length (outs (os @ xs) u) > count_list urls u
    | Inr s' \<Rightarrow> placed urls (os @ xs) s'"
  using assms
proof (induction xs arbitrary: os s)
  case Nil
  then show ?case by simp
next
  case (Cons x xs)
  show ?case
  proof (cases "place x s")
    case (Inl e)
    with placed_place [OF Cons.prems, of x] have "length (outs os (fi_url x)) \<ge> count_list urls (fi_url x)" by simp
    then have "length (outs (os @ x # xs) (fi_url x)) > count_list urls (fi_url x)" by (simp add: outs_def)
    with Inl show ?thesis by auto
  next
    case (Inr s')
    with placed_place [OF Cons.prems, of x] have "placed urls (os @ [x]) s'" by simp
    moreover have "(os @ [x]) @ xs = os @ x # xs" by simp
    ultimately show ?thesis using Cons.IH [of "os @ [x]" s'] Inr by (simp only: place_all.simps tryE_simps)
  qed
qed

lemma filter_map_idx:
  assumes "\<And>i. i < length urls \<Longrightarrow> fi_url (g i) = urls ! i"
  shows "filter (\<lambda>x. fi_url x = u) (map g [0..<length urls]) = map g (idx urls u)"
proof -
  have "filter (\<lambda>i. fi_url (g i) = u) [0..<length urls] = idx urls u"
    unfolding idx_def by (rule filter_cong) (simp_all add: assms)
  then show ?thesis by (simp add: filter_map comp_def)
qed

lemma order_fetch_chunk_spec:
  "is_ok (order_fetch_chunk urls response) =
     (\<forall>u. length (filter (\<lambda>x. fi_url x = u) (outcomes_of response)) \<le> count_list urls u) \<and>
   (order_fetch_chunk urls response = Inr items \<longrightarrow>
     map fi_url items = urls \<and>
     (\<forall>u. filter (\<lambda>x. fi_url x = u) items =
        filter (\<lambda>x. fi_url x = u) (outcomes_of response) @
        replicate (count_list urls u - length (filter (\<lambda>x. fi_url x = u) (outcomes_of response))) (missing_item u)))"
proof (cases "place_all (outcomes_of response) (positions_of urls, replicate (length urls) None)")
  case (Inl e)
  with place_all_spec [OF placed_start, of urls "outcomes_of response"] show ?thesis
    by (auto simp: order_fetch_chunk_def outs_def not_le)
next
  case (Inr s)
  let ?os = "outcomes_of response"
  obtain pos ord where s: "s = (pos, ord)" by (cases s)
  from Inr s place_all_spec [OF placed_start, of urls ?os] have "placed urls ?os (pos, ord)" by simp
  then have len: "length ord = length urls"
    and room: "\<And>u. length (outs ?os u) \<le> length (idx urls u)"
    and ord: "\<And>u j. j < length (idx urls u) \<Longrightarrow> ord ! (idx urls u ! j) =
        (if j < length (outs ?os u) then Some (outs ?os u ! j) else None)"
    by (simp_all add: placed_def)
  define g where "g = (\<lambda>i. case ord ! i of Some item \<Rightarrow> item | None \<Rightarrow> missing_item (urls ! i))"
  have url: "fi_url (g i) = urls ! i" if i: "i < length urls" for i
  proof -
    from i have "i \<in> set (idx urls (urls ! i))" by (simp add: idx_mem)
    then obtain j where j: "j < length (idx urls (urls ! i))" "idx urls (urls ! i) ! j = i"
      by (auto simp: in_set_conv_nth)
    have "fi_url (outs ?os (urls ! i) ! j) = urls ! i" if "j < length (outs ?os (urls ! i))"
      using nth_mem [OF that] by (simp add: outs_def)
    with ord [OF j(1)] j(2) show ?thesis by (simp add: g_def missing_item_def)
  qed
  have items: "order_fetch_chunk urls response = Inr (map g [0..<length urls])"
    using Inr s len by (auto simp: order_fetch_chunk_def g_def intro!: nth_equalityI split: option.split)
  have each: "map g (idx urls u) = outs ?os u @ replicate (count_list urls u - length (outs ?os u)) (missing_item u)" for u
  proof (rule nth_equalityI)
    show "length (map g (idx urls u)) = length (outs ?os u @ replicate (count_list urls u - length (outs ?os u)) (missing_item u))"
      using room [of u] by (simp add: length_idx)
    show "map g (idx urls u) ! j = (outs ?os u @ replicate (count_list urls u - length (outs ?os u)) (missing_item u)) ! j"
      if "j < length (map g (idx urls u))" for j
    proof -
      from that have j: "j < length (idx urls u)" by simp
      from nth_mem [OF this] have "urls ! (idx urls u ! j) = u" by (simp add: idx_mem)
      with ord [OF j] j show ?thesis by (simp add: g_def nth_append length_idx)
    qed
  qed
  have "map fi_url (map g [0..<length urls]) = urls"
    by (rule nth_equalityI) (simp_all add: url)
  moreover have "length (outs ?os u) \<le> count_list urls u" for u using room [of u] by (simp add: length_idx)
  ultimately show ?thesis
    using items each filter_map_idx [of urls g, OF url] by (auto simp: outs_def)
qed


lemma fetch_urls: "order_fetch_chunk urls response = Inr items \<Longrightarrow> map fi_url items = urls"
  using order_fetch_chunk_spec by blast

text \<open>A fetched batch answers the request URL by URL, in the order of the request. It is accepted
  exactly if no URL is answered more often than it was asked for; then there is one item per
  requested URL, at its place; the answers to a URL that was asked for several times are given to
  its places in the order they came, pages before failures; and every place without an answer says
  that the service returned none.\<close>

theorem fetch_chunk_ordered:
  "is_ok (order_fetch_chunk urls response) =
     (\<forall>u. length (filter (\<lambda>x. fi_url x = u) (outcomes_of response)) \<le> count_list urls u) \<and>
   (order_fetch_chunk urls response = Inr items \<longrightarrow>
     map fi_url items = urls \<and>
     (\<forall>u. filter (\<lambda>x. fi_url x = u) items =
        filter (\<lambda>x. fi_url x = u) (outcomes_of response) @
        replicate (count_list urls u - length (filter (\<lambda>x. fi_url x = u) (outcomes_of response))) (missing_item u)))"
  by (rule order_fetch_chunk_spec)

definition asked :: "str list" where "asked = [[97], [98], [97]]"

definition sample_page :: fetched_page where
  "sample_page = \<lparr>fg_url = [97], fg_text = TextString [55], fg_links = [], fg_image_links = []\<rparr>"

definition sample_failure :: fetch_failure where
  "sample_failure = \<lparr>ff_url = [97], ff_error = [56]\<rparr>"

definition sample_fetched :: tinyfish_fetch_response where
  "sample_fetched = \<lparr>tr_results = [sample_page], tr_errors = [sample_failure]\<rparr>"

theorem fetch_chunk_ordered_witness:
  "order_fetch_chunk asked sample_fetched = Inr [page_item sample_page, missing_item [98], failure_item sample_failure]"
proof -
  have outcomes: "outcomes_of sample_fetched = [page_item sample_page, failure_item sample_failure]"
    by (simp add: outcomes_of_def sample_fetched_def)
  have at: "fi_url (page_item sample_page) = [97]" "fi_url (failure_item sample_failure) = [97]"
    by (simp_all add: page_item_def failure_item_def sample_page_def sample_failure_def)
  have "\<forall>u. length (filter (\<lambda>x. fi_url x = u) (outcomes_of sample_fetched)) \<le> count_list asked u"
    by (auto simp: outcomes at asked_def)
  with fetch_chunk_ordered [of asked sample_fetched "[]"] have "is_ok (order_fetch_chunk asked sample_fetched)" by blast
  then obtain items where items: "order_fetch_chunk asked sample_fetched = Inr items" by (auto simp: is_ok_iff)
  with fetch_chunk_ordered [of asked sample_fetched items] have urls: "map fi_url items = asked"
    and each: "\<And>u. filter (\<lambda>x. fi_url x = u) items = filter (\<lambda>x. fi_url x = u) (outcomes_of sample_fetched) @
        replicate (count_list asked u - length (filter (\<lambda>x. fi_url x = u) (outcomes_of sample_fetched))) (missing_item u)" by auto
  from urls obtain a m b where abc: "items = [a, m, b]" "fi_url a = [97]" "fi_url m = [98]" "fi_url b = [97]"
    by (auto simp: map_eq_Cons_conv asked_def)
  from each [of "[97]"] abc have "a = page_item sample_page" "b = failure_item sample_failure"
    by (simp_all add: outcomes at asked_def)
  moreover from each [of "[98]"] abc have "m = missing_item [98]"
    by (simp add: outcomes at asked_def)
  ultimately show ?thesis using items abc by simp
qed

section \<open>The budget and the whole fetch\<close>

lemma write_json_spec:
  "jc_written c \<le> jc_limit c \<Longrightarrow> \<not> jc_exceeded c \<Longrightarrow>
   (jc_exceeded (write_json ns c) \<longleftrightarrow> jc_limit c < jc_written c + sum_list ns) \<and>
   (\<not> jc_exceeded (write_json ns c) \<longrightarrow> jc_written (write_json ns c) = jc_written c + sum_list ns)"
proof (induction ns arbitrary: c)
  case (Cons n ns)
  show ?case
  proof (cases "n > jc_limit c - jc_written c")
    case True
    with Cons.prems show ?thesis by simp
  next
    case False
    with Cons.prems have "jc_written (c\<lparr>jc_written := jc_written c + n\<rparr>) \<le> jc_limit (c\<lparr>jc_written := jc_written c + n\<rparr>)"
      by simp
    from Cons.IH [OF this] Cons.prems False show ?thesis by (simp add: add.assoc)
  qed
qed simp

text \<open>The JSON text of a list of items, with its commas.\<close>

definition json_bytes :: "(fetch_item \<Rightarrow> nat list) \<Rightarrow> nat \<Rightarrow> fetch_item list \<Rightarrow> nat" where
  "json_bytes json before items =
     sum_list (map (sum_list \<circ> json) items) + (if before > 0 then length items else length items - 1)"

lemma extend_item_spec:
  assumes "fb_bytes b \<le> MAX_FETCH_ITEMS_JSON_BYTES"
  shows "extend_item json item b =
     (let total = fb_bytes b + (if fb_count b > 0 then 1 else 0) + sum_list (json item) in
      if total \<le> MAX_FETCH_ITEMS_JSON_BYTES then Inr \<lparr>fb_bytes = total, fb_count = fb_count b + 1\<rparr>
      else Inl fetch_result_too_large)"
proof -
  let ?sep = "if fb_count b > 0 then 1 else 0 :: nat"
  let ?c = "\<lparr>jc_written = 0, jc_limit = MAX_FETCH_ITEMS_JSON_BYTES - fb_bytes b - ?sep, jc_exceeded = False\<rparr>"
  have "(jc_exceeded (write_json (json item) ?c) \<longleftrightarrow> MAX_FETCH_ITEMS_JSON_BYTES - fb_bytes b - ?sep < sum_list (json item)) \<and>
      (\<not> jc_exceeded (write_json (json item) ?c) \<longrightarrow> jc_written (write_json (json item) ?c) = sum_list (json item))"
    using write_json_spec [of ?c "json item"] by simp
  with assms show ?thesis by (auto simp: extend_item_def Let_def)
qed

lemma extend_items_spec:
  assumes "fb_bytes b \<le> MAX_FETCH_ITEMS_JSON_BYTES"
  shows "extend_items json items b dest =
     (if fb_bytes b + json_bytes json (fb_count b) items \<le> MAX_FETCH_ITEMS_JSON_BYTES
      then Inr (\<lparr>fb_bytes = fb_bytes b + json_bytes json (fb_count b) items, fb_count = fb_count b + length items\<rparr>,
                dest @ items)
      else Inl fetch_result_too_large)"
  using assms
proof (induction items arbitrary: b dest)
  case Nil
  then show ?case by (cases b) (simp add: json_bytes_def)
next
  case (Cons x items)
  let ?total = "fb_bytes b + (if fb_count b > 0 then 1 else 0) + sum_list (json x)"
  have total: "fb_bytes b + json_bytes json (fb_count b) (x # items) = ?total + json_bytes json (Suc (fb_count b)) items"
    by (cases items) (auto simp: json_bytes_def)
  show ?case
  proof (cases "?total \<le> MAX_FETCH_ITEMS_JSON_BYTES")
    case False
    then have "extend_items json (x # items) b dest = Inl fetch_result_too_large"
      using extend_item_spec [OF Cons.prems, of json x] by (simp add: Let_def)
    moreover from False have "\<not> fb_bytes b + json_bytes json (fb_count b) (x # items) \<le> MAX_FETCH_ITEMS_JSON_BYTES"
      unfolding total by linarith
    ultimately show ?thesis by (simp only: if_False)
  next
    case True
    let ?b = "\<lparr>fb_bytes = ?total, fb_count = fb_count b + 1\<rparr>"
    from True have step: "extend_item json x b = Inr ?b"
      using extend_item_spec [OF Cons.prems, of json x] by (simp add: Let_def)
    have "extend_items json (x # items) b dest = extend_items json items ?b (dest @ [x])"
      by (simp only: extend_items.simps step tryE_simps)
    moreover have "fb_bytes ?b \<le> MAX_FETCH_ITEMS_JSON_BYTES" using True by (simp only: fetch_budget.select_convs)
    ultimately show ?thesis
      using Cons.IH [of ?b "dest @ [x]"] total by simp
  qed
qed

lemma tinyfish_fetch_chunks_ok:
  assumes "tinyfish_fetch_chunks tf request batch_list b items p = (Inr response, q)"
    and "fb_bytes b \<le> MAX_FETCH_ITEMS_JSON_BYTES" "fb_bytes b = json_bytes (tf_json tf) 0 items" "fb_count b = length items"
  shows "map fi_url (fp_items response) = map fi_url items @ concat batch_list \<and>
     json_bytes (tf_json tf) 0 (fp_items response) \<le> MAX_FETCH_ITEMS_JSON_BYTES"
  using assms
proof (induction batch_list arbitrary: b items p)
  case Nil
  then show ?case by auto
next
  case (Cons urls rest)
  from Cons.prems(1) obtain raw ordered s p1 where raw: "order_fetch_chunk urls raw = Inr ordered"
    and ext: "extend_items (tf_json tf) ordered b items = Inr s"
    and more: "tinyfish_fetch_chunks tf request rest (fst s) (snd s) p1 = (Inr response, q)"
    by (auto simp: bindA_Inr)
  let ?total = "fb_bytes b + json_bytes (tf_json tf) (fb_count b) ordered"
  from ext extend_items_spec [OF Cons.prems(2), of "tf_json tf" ordered items]
  have le: "?total \<le> MAX_FETCH_ITEMS_JSON_BYTES"
    and s: "s = (\<lparr>fb_bytes = ?total, fb_count = fb_count b + length ordered\<rparr>, items @ ordered)"
    by (auto split: if_splits)
  have "?total = json_bytes (tf_json tf) 0 (items @ ordered)"
    using Cons.prems(3,4) by (cases items; cases ordered) (auto simp: json_bytes_def)
  with Cons.IH [OF more] s le Cons.prems(4) have "map fi_url (fp_items response) = map fi_url (items @ ordered) @ concat rest \<and>
     json_bytes (tf_json tf) 0 (fp_items response) \<le> MAX_FETCH_ITEMS_JSON_BYTES" by simp
  moreover have "map fi_url ordered = urls"
    using fetch_urls [OF raw] .
  ultimately show ?case by simp
qed

text \<open>A fetch that succeeds has one item for every requested URL, in the order of the request and
  across all batches, and the JSON text of its items stays within twelve mebibytes; a result that
  would exceed them is refused as a whole, never cut.\<close>

theorem fetch_complete_and_bounded:
  assumes "tinyfish_fetch tf request p = (Inr response, q)"
  shows "map fi_url (fp_items response) = fr_urls request \<and>
     json_bytes (tf_json tf) 0 (fp_items response) \<le> MAX_FETCH_ITEMS_JSON_BYTES"
proof -
  from assms obtain p1 where "tinyfish_fetch_chunks tf request (chunks MAX_FETCH_BATCH (fr_urls request)) empty_budget [] p1 = (Inr response, q)"
    by (auto simp: tinyfish_fetch_def bindA_Inr)
  from tinyfish_fetch_chunks_ok [OF this] show ?thesis
    by (simp add: empty_budget_def json_bytes_def concat_chunks MAX_FETCH_BATCH_def)
qed


definition sample_endpoint :: url where
  "sample_endpoint = \<lparr>url_scheme = lit ''https'', url_hostpart = Some (Domain (lit ''a.example'')), url_username = [],
     url_password = None, url_path = [47], url_query = None, url_fragment = None, url_cannot_be_a_base = False\<rparr>"

definition sample_tinyfish :: "nat tinyfish" where
  "sample_tinyfish = \<lparr>tf_send = (\<lambda>call n. (Inr \<lparr>rs_status = 200, rs_retry_after = None, rs_content_length = None,
       rs_chunks = []\<rparr>, Suc n)), tf_search_decode = (\<lambda>_. None),
     tf_fetch_decode = (\<lambda>_. Some \<lparr>tr_results = [], tr_errors = []\<rparr>), tf_rfc2822 = (\<lambda>_. None), tf_rfc3339 = (\<lambda>_. None),
     tf_parse = (\<lambda>_. Inr sample_endpoint), tf_json = (\<lambda>_. [100]), tf_now = (\<lambda>_. 0)\<rparr>"


definition sample_fetch :: fetch_request where
  "sample_fetch = \<lparr>fr_urls = [lit ''https://a.example/''], fr_format = Markdown, fr_links = False, fr_image_links = False,
     fr_ttl_seconds = None, fr_timeout_ms = None, fr_include_selectors = [], fr_exclude_selectors = []\<rparr>"

theorem fetch_complete_and_bounded_witness:
  "\<exists>response q. tinyfish_fetch sample_tinyfish sample_fetch 0 = (Inr response, q) \<and>
     map fi_url (fp_items response) = [lit ''https://a.example/'']"
proof -
  have "validate_fetch (tf_parse sample_tinyfish) sample_fetch = Inr ()"
    by (simp add: validate_fetch_def fetch_request_validate_def validate_http_url_def check_fetch_url_def sample_fetch_def
        sample_tinyfish_def sample_endpoint_def validate_selectors_def MAX_FETCH_URLS_def)
  moreover have "chunks MAX_FETCH_BATCH (fr_urls sample_fetch) = [[lit ''https://a.example/'']]" by code_simp
  moreover have "\<exists>items. order_fetch_chunk [lit ''https://a.example/''] \<lparr>tr_results = [], tr_errors = []\<rparr> = Inr items \<and> length items = 1"
    by (simp add: order_fetch_chunk_def outcomes_of_def)
  moreover have "extend_items (tf_json sample_tinyfish) items empty_budget [] \<noteq> Inl e" if "length items = 1" for items e
    using that extend_items_spec [of empty_budget "tf_json sample_tinyfish" items "[]"]
    by (cases items) (auto simp: empty_budget_def json_bytes_def sample_tinyfish_def MAX_FETCH_ITEMS_JSON_BYTES_def
        simp del: extend_items.simps)
  ultimately obtain items where valid: "validate_fetch (tf_parse sample_tinyfish) sample_fetch = Inr ()"
      "chunks MAX_FETCH_BATCH (fr_urls sample_fetch) = [[lit ''https://a.example/'']]"
    and ordered: "order_fetch_chunk [lit ''https://a.example/''] \<lparr>tr_results = [], tr_errors = []\<rparr> = Inr items"
    and "\<And>e. extend_items (tf_json sample_tinyfish) items empty_budget [] \<noteq> Inl e" by blast
  then obtain b items' where extended: "extend_items (tf_json sample_tinyfish) items empty_budget [] = Inr (b, items')"
    by (cases "extend_items (tf_json sample_tinyfish) items empty_budget []") auto
  have "tinyfish_call_with sample_tinyfish call (tf_fetch_decode sample_tinyfish) MAX_TINYFISH_FETCH_RESPONSE_BYTES 0 =
      (Inr \<lparr>tr_results = [], tr_errors = []\<rparr>, 1)" for call
    by (simp add: tinyfish_call_with_def bindA_def map_errA_def json_response_with_limit_def sample_tinyfish_def)
  with valid ordered extended obtain response q where ok: "tinyfish_fetch sample_tinyfish sample_fetch 0 = (Inr response, q)"
    by (auto simp: tinyfish_fetch_def bindA_def)
  from fetch_complete_and_bounded [OF ok] ok show ?thesis by (auto simp: sample_fetch_def)
qed

end
