(* ===== verification/SB_Pool.thy ===== *)
theory SB_Pool
  imports SB_Search SB_Quota
begin

text \<open>
  The requests of the fair search pool (\<open>src/crates/backend/src/providers/pool.rs\<close>): a permit from
  the quota, the call, its settlement, and the retries of rate-limited calls. The scheduler behind
  the quotas is the subject of \<open>SB_Quota\<close>; here it is an interface.
\<close>

section \<open>The quota as its callers see it\<close>

definition FAIR_SEARCH_QUEUE_CAPACITY :: nat where "FAIR_SEARCH_QUEUE_CAPACITY = 1024"
definition DEFAULT_RATE_LIMIT_BACKOFF :: int where "DEFAULT_RATE_LIMIT_BACKOFF = 60 * NANOS_PER_SECOND"
definition MIN_RATE_LIMIT_BACKOFF :: int where "MIN_RATE_LIMIT_BACKOFF = 100000000"
definition MAX_RATE_LIMIT_BACKOFF :: int where "MAX_RATE_LIMIT_BACKOFF = 60 * NANOS_PER_SECOND"
definition MAX_RATE_LIMIT_RETRIES :: nat where "MAX_RATE_LIMIT_RETRIES = 7"
definition MAX_RATE_LIMIT_ELAPSED :: int where "MAX_RATE_LIMIT_ELAPSED = 120 * NANOS_PER_SECOND"

text \<open>An operation under \<open>timeout_at\<close>: given the deadline, if any, it ends with a result, or with \<open>None\<close>
  when the deadline passed first and it was dropped.\<close>

type_synonym ('s, 'a) timed = "int option \<Rightarrow> 's \<Rightarrow> (provider_error + 'a) option \<times> 's"

text \<open>\<open>qa_submit\<close> queues a request and waits for its permit; \<open>qa_control\<close> sends a settlement.\<close>

record 's quota_api =
  qa_max_units :: nat
  qa_submit :: "str \<Rightarrow> nat \<Rightarrow> ('s, quota_permit) timed"
  qa_control :: "quota_message \<Rightarrow> ('s, provider_error, unit) act"

definition fair_acquire :: "'s quota_api \<Rightarrow> str \<Rightarrow> nat \<Rightarrow> ('s, quota_permit) timed" where
  "fair_acquire qa actor units deadline s =
     (if \<not> acquire_admits (qa_max_units qa) units
      then (Some (Inl (PInvalidInput (lit ''provider quota request must consume 1..='' @
                         dec_digits (qa_max_units qa) @ lit '' units''))), s)
      else qa_submit qa actor units deadline s)"

definition fair_refund :: "'s quota_api \<Rightarrow> quota_permit \<Rightarrow> nat \<Rightarrow> ('s, provider_error, unit) act" where
  "fair_refund qa permit units =
     (if units = 0 then okA ()
      else if units > pm_units permit then errA (PInvalidInput (lit ''quota refund exceeded its reservation''))
      else qa_control qa (RefundMsg (pm_provider permit) (pm_reservation permit) units))"

definition clamp_backoff :: "int \<Rightarrow> int" where
  "clamp_backoff d = min (max d MIN_RATE_LIMIT_BACKOFF) MAX_RATE_LIMIT_BACKOFF"

definition fair_reject :: "'s quota_api \<Rightarrow> quota_permit \<Rightarrow> int \<Rightarrow> ('s, provider_error, unit) act" where
  "fair_reject qa permit retry_after =
     qa_control qa (RejectMsg (pm_provider permit) (pm_reservation permit) (pm_units permit) (clamp_backoff retry_after))"

section \<open>The retry budget\<close>

fun rate_limited :: "provider_error \<Rightarrow> int option" where
  "rate_limited (PHttp _ status _ retry_after) =
     (if status = 429
      then Some (clamp_backoff (case retry_after of Some d \<Rightarrow> int d | None \<Rightarrow> DEFAULT_RATE_LIMIT_BACKOFF))
      else None)"
| "rate_limited _ = None"

record rate_limit_budget =
  rl_deadline :: "int option"
  rl_retries :: nat
  rl_last_error :: "provider_error option"

definition fresh_budget :: rate_limit_budget where
  "fresh_budget = \<lparr>rl_deadline = None, rl_retries = 0, rl_last_error = None\<rparr>"

definition deadline_error :: "rate_limit_budget \<Rightarrow> provider_error" where
  "deadline_error b =
     (case rl_last_error b of
        Some e \<Rightarrow> e
      | None \<Rightarrow> PHttp TINYFISH 429 (lit ''rate limit retry deadline elapsed'') None)"

definition run_budget :: "rate_limit_budget \<Rightarrow> ('s, 'a) timed \<Rightarrow> 's \<Rightarrow> (provider_error + 'a) \<times> rate_limit_budget \<times> 's" where
  "run_budget b operation s =
     (case operation (rl_deadline b) s of
        (Some r, s') \<Rightarrow> (r, b, s')
      | (None, s') \<Rightarrow> (Inl (deadline_error b), b\<lparr>rl_last_error := None\<rparr>, s'))"

definition budget_retry :: "rate_limit_budget \<Rightarrow> provider_error \<Rightarrow> int \<Rightarrow> int \<Rightarrow> provider_error + rate_limit_budget" where
  "budget_retry b error retry_after now =
     (let deadline = (case rl_deadline b of Some d \<Rightarrow> d | None \<Rightarrow> now + MAX_RATE_LIMIT_ELAPSED) in
      if rl_retries b \<ge> MAX_RATE_LIMIT_RETRIES \<or> now + retry_after \<ge> deadline then Inl error
      else Inr (b\<lparr>rl_deadline := Some deadline, rl_retries := rl_retries b + 1, rl_last_error := Some error\<rparr>))"

section \<open>The pool\<close>

record 's pooled_provider =
  pv_search :: "search_request \<Rightarrow> ('s, search_response) timed"
  pv_fetch :: "fetch_request \<Rightarrow> ('s, fetch_response) timed"

text \<open>The pool, with the clock, the URL parser and the JSON encoder. A permit names one of the
  providers the quota was made for.\<close>

record 's search_pool =
  pl_providers :: "'s pooled_provider list"
  pl_search_quota :: "'s quota_api"
  pl_fetch_quota :: "'s quota_api"
  pl_now :: "'s \<Rightarrow> int"
  pl_parse :: url_parser
  pl_json :: "fetch_item \<Rightarrow> nat list"

text \<open>The pool is made of one adapter per key, and its two quotas start empty.\<close>

definition TINYFISH_SEARCH_REQUESTS_PER_MINUTE :: nat where "TINYFISH_SEARCH_REQUESTS_PER_MINUTE = 30"
definition TINYFISH_FETCH_URLS_PER_MINUTE :: nat where "TINYFISH_FETCH_URLS_PER_MINUTE = 150"
definition QUOTA_WINDOW :: int where "QUOTA_WINDOW = 60 * NANOS_PER_SECOND"

fun adapters_of_keys :: "(str \<Rightarrow> provider_error + 'p) \<Rightarrow> str list \<Rightarrow> str set \<Rightarrow> provider_error + 'p list" where
  "adapters_of_keys adapter [] seen = Inr []"
| "adapters_of_keys adapter (key # keys) seen =
     (if key \<in> seen
      then Inl (PInvalidInput (lit ''TinyFish API keys must be distinct so quota buckets cannot double-count one credential''))
      else tryE (adapter key) (\<lambda>p. map_sum id (Cons p) (adapters_of_keys adapter keys (insert key seen))))"

definition pool_quotas :: "bool \<Rightarrow> 'p list \<Rightarrow> provider_error + sliding_quota \<times> sliding_quota" where
  "pool_quotas in_runtime providers =
     (if providers = [] then Inl (PInvalidInput (lit ''search provider pool requires at least one key''))
      else if \<not> in_runtime
      then Inl (PInvalidInput (lit ''search provider pool must be constructed inside a Tokio runtime''))
      else Inr (quota_new (length providers) TINYFISH_SEARCH_REQUESTS_PER_MINUTE QUOTA_WINDOW,
                quota_new (length providers) TINYFISH_FETCH_URLS_PER_MINUTE QUOTA_WINDOW))"

definition pool_of_keys ::
  "(str \<Rightarrow> provider_error + 'p) \<Rightarrow> bool \<Rightarrow> str list \<Rightarrow> provider_error + 'p list \<times> sliding_quota \<times> sliding_quota" where
  "pool_of_keys adapter in_runtime keys =
     tryE (adapters_of_keys adapter keys {}) (\<lambda>providers.
     tryE (pool_quotas in_runtime providers) (\<lambda>quotas. Inr (providers, quotas)))"

definition validate_actor :: "str \<Rightarrow> provider_error + unit" where
  "validate_actor actor =
     (if trim actor = [] \<or> utf8_len actor > 255 \<or> list_ex is_control actor
      then Inl (PInvalidInput (lit ''invalid actor id for search scheduling'')) else Inr ())"

definition sat_add :: "nat \<Rightarrow> nat \<Rightarrow> nat" where
  "sat_add a b = min (a + b) U64_MAX"

text \<open>One turn of either loop: acquire a permit, make the call, and hand its outcome on. The error of a
  rate-limited call rejects the permit and may be retried; \<open>settle\<close> is the rest of the turn
  otherwise.\<close>

datatype 'a attempt_end = Settled "provider_error + 'a" | Retry rate_limit_budget

definition attempt ::
  "'s search_pool \<Rightarrow> 's quota_api \<Rightarrow> str \<Rightarrow> nat \<Rightarrow> rate_limit_budget \<Rightarrow> ('s pooled_provider \<Rightarrow> ('s, 'a) timed) \<Rightarrow>
   (quota_permit \<Rightarrow> nat \<Rightarrow> 'a \<Rightarrow> 's \<Rightarrow> (provider_error + 'b) \<times> 's) \<Rightarrow> nat \<Rightarrow> 's \<Rightarrow> 'b attempt_end \<times> nat \<times> 's" where
  "attempt pool qa actor units budget operation settle queued s =
     (case run_budget budget (fair_acquire qa actor units) s of
        (Inl e, _, s1) \<Rightarrow> (Settled (Inl e), queued, s1)
      | (Inr permit, b1, s1) \<Rightarrow>
          let queued1 = sat_add queued (queued_ms permit) in
          (case run_budget b1 (operation (pl_providers pool ! pm_provider permit)) s1 of
             (Inr x, _, s2) \<Rightarrow> (case settle permit queued1 x s2 of (r, s3) \<Rightarrow> (Settled r, queued1, s3))
           | (Inl error, b2, s2) \<Rightarrow>
               (case rate_limited error of
                  Some retry_after \<Rightarrow>
                    (case fair_reject qa permit retry_after s2 of
                       (Inl e, s3) \<Rightarrow> (Settled (Inl e), queued1, s3)
                     | (Inr _, s3) \<Rightarrow>
                         (case budget_retry b2 error retry_after (pl_now pool s3) of
                            Inl e \<Rightarrow> (Settled (Inl e), queued1, s3)
                          | Inr b3 \<Rightarrow> (Retry b3, queued1, s3)))
                | None \<Rightarrow>
                    (case fair_refund qa permit units s2 of
                       (Inl e, s3) \<Rightarrow> (Settled (Inl e), queued1, s3)
                     | (Inr _, s3) \<Rightarrow> (Settled (Inl error), queued1, s3)))))"

lemma budget_retry_counts:
  "budget_retry b error retry_after now = Inr b' \<Longrightarrow> rl_retries b' = Suc (rl_retries b) \<and> rl_retries b < MAX_RATE_LIMIT_RETRIES"
  by (auto simp: budget_retry_def Let_def split: if_splits)

lemma run_budget_retries: "run_budget b operation s = (r, b', s') \<Longrightarrow> rl_retries b' = rl_retries b"
  by (auto simp: run_budget_def split: prod.splits option.splits)

lemma attempt_retries:
  assumes "attempt pool qa actor units b operation settle queued s = (Retry b', queued', s')"
  shows "rl_retries b' = Suc (rl_retries b) \<and> rl_retries b < MAX_RATE_LIMIT_RETRIES"
  using assms
  by (auto simp: attempt_def Let_def split: prod.splits sum.splits option.splits
      dest!: run_budget_retries budget_retry_counts)

text \<open>The loop of \<open>search_for\<close>.\<close>

definition settle_search :: "quota_permit \<Rightarrow> nat \<Rightarrow> search_response \<Rightarrow> 's \<Rightarrow> (provider_error + search_response) \<times> 's" where
  "settle_search permit queued response s =
     (Inr (response\<lparr>sp_queued_ms := sat_add (sp_queued_ms response) queued\<rparr>), s)"

function search_loop ::
  "'s search_pool \<Rightarrow> str \<Rightarrow> search_request \<Rightarrow> rate_limit_budget \<Rightarrow> nat \<Rightarrow> 's \<Rightarrow> (provider_error + search_response) \<times> 's" where
  "search_loop pool actor request budget queued s =
     (case attempt pool (pl_search_quota pool) actor 1 budget (\<lambda>p. pv_search p request) settle_search queued s of
        (Settled r, queued', s') \<Rightarrow> (r, s')
      | (Retry budget', queued', s') \<Rightarrow> search_loop pool actor request budget' queued' s')"
  by auto
termination
  by (relation "measure (\<lambda>(pool, actor, request, budget, queued, s). MAX_RATE_LIMIT_RETRIES - rl_retries budget)")
    (auto dest!: attempt_retries [OF sym])

declare search_loop.simps [simp del]

definition search_for :: "'s search_pool \<Rightarrow> str \<Rightarrow> search_request \<Rightarrow> ('s, provider_error, search_response) act" where
  "search_for pool actor request =
     bindA (liftA (validate_actor actor)) (\<lambda>_.
     bindA (liftA (map_err (\<lambda>e. PInvalidInput (validation_text e)) (search_request_validate (pl_parse pool) request))) (\<lambda>_.
       search_loop pool actor request fresh_budget 0))"

text \<open>The inner loop of \<open>fetch_for\<close>: one batch. Failed URLs are given back to the quota.\<close>

definition settle_fetch ::
  "'s quota_api \<Rightarrow> str list \<Rightarrow> quota_permit \<Rightarrow> nat \<Rightarrow> fetch_response \<Rightarrow> 's \<Rightarrow> (provider_error + fetch_response) \<times> 's" where
  "settle_fetch qa urls permit queued response s =
     (if length (fp_items response) = length urls
      then let errors = length (filter (\<lambda>item. fi_status item = FetchError) (fp_items response)) in
           (if errors > 0
            then (case fair_refund qa permit errors s of (Inl e, s') \<Rightarrow> (Inl e, s') | (Inr _, s') \<Rightarrow> (Inr response, s'))
            else (Inr response, s))
      else (case fair_refund qa permit (length urls) s of
              (Inl e, s') \<Rightarrow> (Inl e, s')
            | (Inr _, s') \<Rightarrow> (Inl (PInvalidResponse TINYFISH
                                 (lit ''pooled fetch provider violated the one-result-per-URL contract'')), s')))"

function fetch_loop ::
  "'s search_pool \<Rightarrow> str \<Rightarrow> fetch_request \<Rightarrow> rate_limit_budget \<Rightarrow> nat \<Rightarrow> 's \<Rightarrow> (provider_error + fetch_response) \<times> nat \<times> 's" where
  "fetch_loop pool actor batch budget queued s =
     (case attempt pool (pl_fetch_quota pool) actor (length (fr_urls batch)) budget (\<lambda>p. pv_fetch p batch)
             (settle_fetch (pl_fetch_quota pool) (fr_urls batch)) queued s of
        (Settled r, queued', s') \<Rightarrow> (r, queued', s')
      | (Retry budget', queued', s') \<Rightarrow> fetch_loop pool actor batch budget' queued' s')"
  by auto
termination
  by (relation "measure (\<lambda>(pool, actor, batch, budget, queued, s). MAX_RATE_LIMIT_RETRIES - rl_retries budget)")
    (auto dest!: attempt_retries [OF sym])

declare fetch_loop.simps [simp del]

fun fetch_batches ::
  "'s search_pool \<Rightarrow> str \<Rightarrow> fetch_request \<Rightarrow> str list list \<Rightarrow> fetch_budget \<Rightarrow> fetch_item list \<Rightarrow> nat \<Rightarrow>
   ('s, provider_error, fetch_response) act" where
  "fetch_batches pool actor request [] budget items queued = okA \<lparr>fp_items = items, fp_queued_ms = queued\<rparr>"
| "fetch_batches pool actor request (urls # rest) budget items queued = (\<lambda>s.
     case fetch_loop pool actor (request\<lparr>fr_urls := urls\<rparr>) fresh_budget queued s of
       (Inl e, _, s1) \<Rightarrow> (Inl e, s1)
     | (Inr response, queued1, s1) \<Rightarrow>
         let queued2 = sat_add queued1 (fp_queued_ms response) in
         (case extend_items (pl_json pool) (fp_items response) budget items of
            Inl e \<Rightarrow> (Inl e, s1)
          | Inr (budget', items') \<Rightarrow> fetch_batches pool actor request rest budget' items' queued2 s1))"

definition fetch_for :: "'s search_pool \<Rightarrow> str \<Rightarrow> fetch_request \<Rightarrow> ('s, provider_error, fetch_response) act" where
  "fetch_for pool actor request =
     bindA (liftA (validate_actor actor)) (\<lambda>_.
     bindA (liftA (map_err (\<lambda>e. PInvalidInput (validation_text e)) (fetch_request_validate (pl_parse pool) request))) (\<lambda>_.
       if length (fr_urls request) > MAX_FETCH_URLS
       then errA (PInvalidInput (lit ''fetch requires at most '' @ dec_digits MAX_FETCH_URLS @ lit '' URLs''))
       else fetch_batches pool actor request (chunks UPSTREAM_BATCH_SIZE (fr_urls request)) empty_budget [] 0))"

text \<open>The pool as a \<open>SearchProvider\<close> for one actor.\<close>

definition for_actor :: "'s search_pool \<Rightarrow> str \<Rightarrow> provider_error + 's search_api" where
  "for_actor pool actor =
     tryE (validate_actor actor) (\<lambda>_. Inr \<lparr>sa_search = search_for pool actor, sa_fetch = fetch_for pool actor\<rparr>)"

section \<open>What the quota is charged\<close>

text \<open>What a request and the quota tell each other: the permits granted to it and the messages it sends.
  Replayed on a sliding quota they charge it as \<open>take_units\<close> does and give back as the
  scheduler does; time stands still, so that nothing expires.\<close>

datatype quota_event = Granted quota_permit | Told quota_message

definition charge_permit :: "quota_permit \<Rightarrow> sliding_quota \<Rightarrow> sliding_quota" where
  "charge_permit permit q =
     q\<lparr>q_used_at := (q_used_at q)[pm_provider permit := q_used_at q ! pm_provider permit @
         replicate (pm_units permit) \<lparr>ch_reservation = pm_reservation permit, ch_at = 0\<rparr>]\<rparr>"

fun replay :: "quota_event list \<Rightarrow> sliding_quota \<Rightarrow> sliding_quota" where
  "replay [] q = q"
| "replay (Granted permit # es) q = replay es (charge_permit permit q)"
| "replay (Told m # es) q = replay es (sd_quota (apply_message 0 m \<lparr>sd_quota = q, sd_by_actor = Map.empty, sd_order = []\<rparr>))"

definition quota_total :: "sliding_quota \<Rightarrow> nat" where
  "quota_total q = sum_list (map length (q_used_at q))"

text \<open>\<open>log\<close> is what has been told: a submitted request that ends with a permit adds the permit, which is
  for the units asked for and names a provider of the pool, as every permit of \<open>grant_turn\<close> does;
  a message that reaches the scheduler adds itself.\<close>

definition quota_logged :: "nat \<Rightarrow> ('s \<Rightarrow> quota_event list) \<Rightarrow> 's quota_api \<Rightarrow> bool" where
  "quota_logged providers log qa \<longleftrightarrow>
     (\<forall>actor units d s. case qa_submit qa actor units d s of
        (Some (Inr permit), s') \<Rightarrow> log s' = log s @ [Granted permit] \<and> pm_units permit = units \<and> pm_provider permit < providers
      | (_, s') \<Rightarrow> log s' = log s) \<and>
     (\<forall>m s. case qa_control qa m s of (Inr _, s') \<Rightarrow> log s' = log s @ [Told m] | (Inl _, s') \<Rightarrow> log s' = log s)"

lemma granted_permit:
  "grant_turn alive now st = (Grant r permit, st') \<Longrightarrow>
   pm_units permit = rq_units r \<and> pm_provider permit < length (q_used_at (sd_quota st))"
  by (auto simp: grant_turn_def Let_def take_units_def split: list.splits option.splits prod.splits
      dest!: min_by_key_Some)

text \<open>Calls of the providers tell the quota nothing.\<close>

definition calls_quiet :: "('s \<Rightarrow> 'l) \<Rightarrow> 's pooled_provider list \<Rightarrow> bool" where
  "calls_quiet L providers \<longleftrightarrow>
     (\<forall>p \<in> set providers. (\<forall>request d s. L (snd (pv_search p request d s)) = L s) \<and>
        (\<forall>request d s. L (snd (pv_fetch p request d s)) = L s))"

lemma replay_append [simp]: "replay (es @ fs) q = replay fs (replay es q)"
  by (induction es q rule: replay.induct) simp_all

lemma replay_providers: "length (q_used_at (replay es q)) = length (q_used_at q)"
  by (induction es q rule: replay.induct)
    (auto simp: charge_permit_def apply_message_def reject_used enqueue_request_def Let_def split: quota_message.split)

definition charges_of :: "nat \<Rightarrow> charge list \<Rightarrow> nat" where
  "charges_of r cs = length (filter (\<lambda>c. ch_reservation c = r) cs)"

lemma retain_exact: "u \<le> charges_of r cs \<Longrightarrow> length (retain_unless r u cs) + u = length cs"
proof (induction r u cs rule: retain_unless.induct)
  case (2 r u c cs)
  show ?case
  proof (cases "0 < u \<and> ch_reservation c = r")
    case True
    with "2.IH"(1) "2.prems" have "length (retain_unless r (u - 1) cs) + (u - 1) = length cs"
      by (simp add: charges_of_def le_diff_conv)
    moreover obtain v where "u = Suc v" using True by (cases u) auto
    ultimately show ?thesis using True by simp
  next
    case False
    with "2.IH"(2) "2.prems" show ?thesis by (auto simp: charges_of_def)
  qed
qed (simp add: charges_of_def)

lemma quota_total_update:
  "p < length (q_used_at q) \<Longrightarrow>
   quota_total (q\<lparr>q_used_at := (q_used_at q)[p := cs]\<rparr>) + length (q_used_at q ! p) = quota_total q + length cs"
  using member_le_sum_list [of "length (q_used_at q ! p)" "map length (q_used_at q)"]
  by (simp add: quota_total_def map_update sum_list_update)

text \<open>A permit whose charges are in the quota.\<close>

definition charged :: "quota_permit \<Rightarrow> sliding_quota \<Rightarrow> bool" where
  "charged permit q \<longleftrightarrow> pm_provider permit < length (q_used_at q) \<and>
     pm_units permit \<le> charges_of (pm_reservation permit) (q_used_at q ! pm_provider permit)"

lemma charge_permit_total:
  assumes "pm_provider permit < length (q_used_at q)"
  shows "quota_total (charge_permit permit q) = quota_total q + pm_units permit" "charged permit (charge_permit permit q)"
  using quota_total_update [OF assms, of "q_used_at q ! pm_provider permit @
      replicate (pm_units permit) \<lparr>ch_reservation = pm_reservation permit, ch_at = 0\<rparr>"] assms
  by (simp_all add: charge_permit_def charged_def charges_of_def)

lemma refund_total:
  assumes "charged permit q" "units \<le> pm_units permit"
  shows "quota_total (refund (pm_provider permit) (pm_reservation permit) units q) + units = quota_total q"
  using assms quota_total_update [of "pm_provider permit" q
      "retain_unless (pm_reservation permit) units (q_used_at q ! pm_provider permit)"]
    retain_exact [of units "pm_reservation permit" "q_used_at q ! pm_provider permit"]
  by (simp add: charged_def refund_def)

lemma reject_total:
  assumes "charged permit q"
  shows "quota_total (quota_reject (pm_provider permit) (pm_reservation permit) (pm_units permit) d now q) + pm_units permit = quota_total q"
  using refund_total [OF assms, of "pm_units permit"] by (simp add: quota_total_def reject_used)

abbreviation ledger :: "('s \<Rightarrow> quota_event list) \<Rightarrow> sliding_quota \<Rightarrow> 's \<Rightarrow> int" where
  "ledger log q0 s \<equiv> int (quota_total (replay (log s) q0))"

lemma acquired:
  assumes "quota_logged n log qa" "length (q_used_at q0) = n" "run_budget b (fair_acquire qa actor units) s = (r, b', s')"
  shows "case r of Inl e \<Rightarrow> ledger log q0 s' = ledger log q0 s
         | Inr permit \<Rightarrow> ledger log q0 s' = ledger log q0 s + int units \<and> pm_units permit = units \<and> pm_provider permit < n \<and>
             charged permit (replay (log s') q0)"
proof -
  let ?o = "qa_submit qa actor units (rl_deadline b) s"
  have law: "case ?o of (Some (Inr permit), s') \<Rightarrow> log s' = log s @ [Granted permit] \<and> pm_units permit = units \<and> pm_provider permit < n
      | (_, s') \<Rightarrow> log s' = log s"
    by (rule assms(1) [unfolded quota_logged_def, THEN conjunct1, rule_format])
  have grant: "ledger log q0 t = ledger log q0 s + int units \<and> charged permit (replay (log t) q0)"
    if "log t = log s @ [Granted permit]" "pm_units permit = units" "pm_provider permit < n" for permit t
    using charge_permit_total [of permit "replay (log s) q0"] that assms(2) by (simp add: replay_providers)
  show ?thesis
  proof (cases "acquire_admits (qa_max_units qa) units")
    case True
    with assms(3) law grant show ?thesis
      by (cases ?o) (auto simp: run_budget_def fair_acquire_def split: option.splits sum.splits)
  next
    case False
    with assms(3) show ?thesis by (auto simp: run_budget_def fair_acquire_def)
  qed
qed

lemma told:
  assumes "quota_logged n log qa" "qa_control qa m s = (r, s')"
  shows "case r of Inl e \<Rightarrow> log s' = log s | Inr _ \<Rightarrow> log s' = log s @ [Told m]"
proof -
  have "case qa_control qa m s of (Inr _, s') \<Rightarrow> log s' = log s @ [Told m] | (Inl _, s') \<Rightarrow> log s' = log s"
    by (rule assms(1) [unfolded quota_logged_def, THEN conjunct2, rule_format])
  with assms(2) show ?thesis by (auto split: sum.splits)
qed

lemma refunded:
  assumes "quota_logged n log qa" "charged permit (replay (log s) q0)" "fair_refund qa permit units s = (r, s')"
  shows "case r of Inl e \<Rightarrow> ledger log q0 s' = ledger log q0 s | Inr _ \<Rightarrow> ledger log q0 s' = ledger log q0 s - int units"
proof (cases "units = 0 \<or> pm_units permit < units")
  case True
  with assms(3) show ?thesis by (auto simp: fair_refund_def split: if_splits)
next
  case False
  with assms(3) have "qa_control qa (RefundMsg (pm_provider permit) (pm_reservation permit) units) s = (r, s')"
    by (simp add: fair_refund_def)
  from told [OF assms(1) this] refund_total [OF assms(2), of units] False show ?thesis
    by (auto simp: apply_message_def split: sum.splits)
qed

lemma rejected:
  assumes "quota_logged n log qa" "charged permit (replay (log s) q0)" "fair_reject qa permit wait s = (r, s')"
  shows "case r of Inl e \<Rightarrow> ledger log q0 s' = ledger log q0 s | Inr _ \<Rightarrow> ledger log q0 s' = ledger log q0 s - int (pm_units permit)"
  using told [OF assms(1) assms(3) [unfolded fair_reject_def]] reject_total [OF assms(2), of "clamp_backoff wait" 0]
  by (auto simp: apply_message_def split: sum.splits)

lemma run_budget_state: "snd (snd (run_budget b operation s)) = snd (operation (rl_deadline b) s)"
  by (auto simp: run_budget_def split: prod.splits option.splits)

lemma attempt_ledger:
  assumes quota: "quota_logged (length (pl_providers pool)) log qa" "length (q_used_at q0) = length (pl_providers pool)"
    and quiet: "\<And>p d s. p \<in> set (pl_providers pool) \<Longrightarrow> log (snd (operation p d s)) = log s"
    and turn: "attempt pool qa actor units b operation settle queued s = (out, queued', s')"
  shows "case out of
      Retry _ \<Rightarrow> ledger log q0 s' = ledger log q0 s
    | Settled r \<Rightarrow> (\<exists>e. r = Inl e \<and> ledger log q0 s \<le> ledger log q0 s' \<and> ledger log q0 s' \<le> ledger log q0 s + int units) \<or>
        (\<exists>permit q x s2. pm_units permit = units \<and> ledger log q0 s2 = ledger log q0 s + int units \<and> charged permit (replay (log s2) q0) \<and>
           settle permit q x s2 = (r, s'))"
proof -
  obtain r1 b1 s1 where one: "run_budget b (fair_acquire qa actor units) s = (r1, b1, s1)" by (metis prod_cases3)
  show ?thesis
  proof (cases r1)
    case (Inl e)
    with turn one acquired [OF quota one] show ?thesis by (auto simp: attempt_def)
  next
    case (Inr permit)
    with acquired [OF quota one] have charged: "ledger log q0 s1 = ledger log q0 s + int units" and permit: "pm_units permit = units"
      and held: "charged permit (replay (log s1) q0)" and "pl_providers pool ! pm_provider permit \<in> set (pl_providers pool)" by auto
    obtain r2 b2 s2 where two: "run_budget b1 (operation (pl_providers pool ! pm_provider permit)) s1 = (r2, b2, s2)"
      by (metis prod_cases3)
    have same: "log s2 = log s1"
      using run_budget_state [of b1 "operation (pl_providers pool ! pm_provider permit)" s1] two
        quiet [OF \<open>pl_providers pool ! pm_provider permit \<in> set (pl_providers pool)\<close>] by simp
    from held same have held': "charged permit (replay (log s2) q0)" by simp
    show ?thesis
    proof (cases r2)
      case (Inr x)
      with turn one two \<open>r1 = Inr permit\<close> show ?thesis
        using permit charged same held by (fastforce simp: attempt_def Let_def split: prod.splits)
    next
      case (Inl error)
      show ?thesis
      proof (cases "rate_limited error")
        case None
        obtain r3 s3 where three: "fair_refund qa permit units s2 = (r3, s3)" by fastforce
        from refunded [OF quota(1) held' three] turn one two three None Inl \<open>r1 = Inr permit\<close> charged same
        show ?thesis by (auto simp: attempt_def Let_def split: sum.splits)
      next
        case (Some wait)
        obtain r3 s3 where three: "fair_reject qa permit wait s2 = (r3, s3)" by fastforce
        from rejected [OF quota(1) held' three] turn one two three Some Inl \<open>r1 = Inr permit\<close> charged same permit
        show ?thesis by (auto simp: attempt_def Let_def split: sum.splits)
      qed
    qed
  qed
qed

lemma settle_fetch_ledger:
  assumes quota: "quota_logged n log qa" and held: "charged permit (replay (log s) q0)" and "pm_units permit = length urls"
    and settled: "settle_fetch qa urls permit q x s = (r, s')"
  shows "case r of Inl e \<Rightarrow> ledger log q0 s - int (length urls) \<le> ledger log q0 s' \<and> ledger log q0 s' \<le> ledger log q0 s
     | Inr y \<Rightarrow> y = x \<and> length (fp_items x) = length urls \<and>
        ledger log q0 s' = ledger log q0 s - int (length (filter (\<lambda>item. fi_status item = FetchError) (fp_items x)))"
proof (cases "length (fp_items x) = length urls")
  case True
  let ?errors = "length (filter (\<lambda>item. fi_status item = FetchError) (fp_items x))"
  obtain r3 s3 where three: "fair_refund qa permit ?errors s = (r3, s3)" by fastforce
  show ?thesis
  proof (cases "?errors > 0")
    case zero: False
    then have "?errors = 0" by simp
    with True settled show ?thesis by (auto simp: settle_fetch_def Let_def)
  next
    case errors: True
    then have "settle_fetch qa urls permit q x s = (case r3 of Inl e \<Rightarrow> Inl e | Inr _ \<Rightarrow> Inr x, s3)"
      unfolding settle_fetch_def Let_def using True three by (simp split: sum.split)
    with refunded [OF quota held three] settled True show ?thesis by (auto split: sum.splits)
  qed
next
  case False
  obtain r3 s3 where three: "fair_refund qa permit (length urls) s = (r3, s3)" by fastforce
  with refunded [OF quota held three] False settled show ?thesis
    by (auto simp: settle_fetch_def split: sum.splits)
qed

lemma fetch_loop_ledger:
  assumes quota: "quota_logged (length (pl_providers pool)) log (pl_fetch_quota pool)" "length (q_used_at q0) = length (pl_providers pool)"
    and quiet: "calls_quiet log (pl_providers pool)"
    and run: "fetch_loop pool actor batch b queued s = (r, queued', s')"
  shows "case r of
      Inl e \<Rightarrow> ledger log q0 s \<le> ledger log q0 s' \<and> ledger log q0 s' \<le> ledger log q0 s + int (length (fr_urls batch))
    | Inr x \<Rightarrow> length (fp_items x) = length (fr_urls batch) \<and>
        ledger log q0 s' = ledger log q0 s + int (length (fr_urls batch)) - int (length (filter (\<lambda>item. fi_status item = FetchError) (fp_items x)))"
  using assms
proof (induction pool actor batch b queued s rule: fetch_loop.induct)
  case (1 pool actor batch b queued s)
  let ?units = "length (fr_urls batch)"
  obtain out q1 s1 where turn: "attempt pool (pl_fetch_quota pool) actor ?units b (\<lambda>p. pv_fetch p batch)
      (settle_fetch (pl_fetch_quota pool) (fr_urls batch)) queued s = (out, q1, s1)" by (metis prod_cases3)
  have "log (snd (pv_fetch p batch d s)) = log s" if "p \<in> set (pl_providers pool)" for p d s
    using "1.prems"(3) that by (simp add: calls_quiet_def)
  note ledger = attempt_ledger [OF "1.prems"(1,2) this turn]
  show ?case
  proof (cases out)
    case (Retry b1)
    with turn "1.prems"(4) have "fetch_loop pool actor batch b1 q1 s1 = (r, queued', s')"
      by (simp add: fetch_loop.simps)
    from "1.IH" [OF turn [symmetric] Retry refl "1.prems"(1-3) this] ledger Retry show ?thesis by (auto split: sum.splits)
  next
    case (Settled r1)
    with turn "1.prems"(4) have same: "r1 = r" "s1 = s'" by (simp_all add: fetch_loop.simps)
    from ledger Settled consider
        (failed) e where "r = Inl e" "ledger log q0 s \<le> ledger log q0 s'" "ledger log q0 s' \<le> ledger log q0 s + int ?units"
      | (settled) permit q x s2 where "pm_units permit = ?units" "ledger log q0 s2 = ledger log q0 s + int ?units"
          "charged permit (replay (log s2) q0)" "settle_fetch (pl_fetch_quota pool) (fr_urls batch) permit q x s2 = (r, s')"
      unfolding same by auto
    then show ?thesis
    proof cases
      case failed
      then show ?thesis by simp
    next
      case settled
      from settle_fetch_ledger [OF "1.prems"(1) settled(3,1,4)] settled(2) show ?thesis
        by (cases r) auto
    qed
  qed
qed

lemma failed_and_read:
  "length (filter (\<lambda>item. fi_status item = FetchError) items) +
   length (filter (\<lambda>item. fi_status item \<noteq> FetchError) items) = length items"
  by (rule sum_length_filter_compl)

lemma extend_items_dest: "extend_items json items b dest = Inr (b', dest') \<Longrightarrow> dest' = dest @ items"
  by (induction items arbitrary: b dest) fastforce+

lemma fetch_batches_ledger:
  assumes quota: "quota_logged (length (pl_providers pool)) log (pl_fetch_quota pool)" "length (q_used_at q0) = length (pl_providers pool)"
    and quiet: "calls_quiet log (pl_providers pool)"
    and run: "fetch_batches pool actor request batch_list b items queued s = (r, s')"
  shows "case r of
      Inl e \<Rightarrow> ledger log q0 s \<le> ledger log q0 s' \<and> ledger log q0 s' \<le> ledger log q0 s + int (length (concat batch_list))
    | Inr x \<Rightarrow> \<exists>more. fp_items x = items @ more \<and> length more = length (concat batch_list) \<and>
        ledger log q0 s' = ledger log q0 s + int (length (filter (\<lambda>item. fi_status item \<noteq> FetchError) more))"
  using run
proof (induction batch_list arbitrary: b items queued s)
  case Nil
  then show ?case by auto
next
  case (Cons urls rest)
  let ?batch = "request\<lparr>fr_urls := urls\<rparr>"
  obtain r1 q1 s1 where loop: "fetch_loop pool actor ?batch fresh_budget queued s = (r1, q1, s1)" by (metis prod_cases3)
  note ledger = fetch_loop_ledger [OF quota quiet loop]
  show ?case
  proof (cases r1)
    case (Inl e)
    with ledger loop Cons.prems show ?thesis by auto
  next
    case (Inr response)
    let ?items = "fp_items response"
    from ledger Inr failed_and_read [of ?items] have len: "length ?items = length urls"
      and charged: "ledger log q0 s1 = ledger log q0 s + int (length (filter (\<lambda>item. fi_status item \<noteq> FetchError) ?items))" by simp_all
    have most: "length (filter (\<lambda>item. fi_status item \<noteq> FetchError) ?items) \<le> length urls"
      using len by (metis length_filter_le)
    show ?thesis
    proof (cases "extend_items (pl_json pool) ?items b items")
      case full: (Inl e)
      with Cons.prems loop Inr have "r = Inl e" "s' = s1" by simp_all
      with charged most show ?thesis by simp
    next
      case (Inr z)
      obtain b' items' where z: "z = (b', items')" by (cases z)
      with extend_items_dest Inr have items': "items' = items @ ?items" by blast
      from Cons.prems loop \<open>r1 = Inr response\<close> Inr z have
        "fetch_batches pool actor request rest b' items' (sat_add q1 (fp_queued_ms response)) s1 = (r, s')" by (simp add: Let_def)
      note later = Cons.IH [OF this]
      show ?thesis
      proof (cases r)
        case (Inl e)
        with later charged most show ?thesis by simp
      next
        case (Inr x)
        with later obtain more where "fp_items x = items' @ more" "length more = length (concat rest)"
            "ledger log q0 s' = ledger log q0 s1 + int (length (filter (\<lambda>item. fi_status item \<noteq> FetchError) more))" by auto
        with items' len charged Inr show ?thesis by (intro exI [of _ "?items @ more"] | simp)+
      qed
    qed
  qed
qed

text \<open>C31: what a fetch costs. Whatever is granted to it and whatever it tells the quota is replayed on a
  sliding quota: when it succeeds there is one item per requested URL, and the quota holds exactly
  one charge more for every page that was read, since the charges of URLs that failed and of calls
  that were rate-limited have been given back, each under the provider and the reservation it was
  made under. When it fails there are never more charges left than URLs. (A message that no longer
  reaches the scheduler is not replayed.)\<close>

theorem fetch_charges_results:
  assumes "quota_logged (length (pl_providers pool)) log (pl_fetch_quota pool)"
    and "length (q_used_at q0) = length (pl_providers pool)"
    and "calls_quiet log (pl_providers pool)"
    and "fetch_for pool actor request s = (r, s')"
  shows "case r of
      Inr x \<Rightarrow> length (fp_items x) = length (fr_urls request) \<and>
        quota_total (replay (log s') q0) =
          quota_total (replay (log s) q0) + length (filter (\<lambda>item. fi_status item \<noteq> FetchError) (fp_items x))
    | Inl e \<Rightarrow> quota_total (replay (log s) q0) \<le> quota_total (replay (log s') q0) \<and>
        quota_total (replay (log s') q0) \<le> quota_total (replay (log s) q0) + length (fr_urls request)"
proof (cases "\<exists>b. fetch_batches pool actor request (chunks UPSTREAM_BATCH_SIZE (fr_urls request)) b [] 0 s = (r, s')")
  case True
  then obtain b where "fetch_batches pool actor request (chunks UPSTREAM_BATCH_SIZE (fr_urls request)) b [] 0 s = (r, s')" ..
  from fetch_batches_ledger [OF assms(1-3) this] show ?thesis
    by (cases r) (auto simp: concat_chunks UPSTREAM_BATCH_SIZE_def)
next
  case False
  with assms(4) have "\<exists>e. r = Inl e" "s' = s"
    by (auto simp: fetch_for_def bindA_def split: sum.splits if_splits)
  then show ?thesis by auto
qed

section \<open>How often the providers are called\<close>

text \<open>\<open>C\<close> counts calls of the providers: a call adds at most one, the quota adds nothing.\<close>

definition quota_silent :: "('s \<Rightarrow> nat) \<Rightarrow> nat \<Rightarrow> 's quota_api \<Rightarrow> bool" where
  "quota_silent C providers qa \<longleftrightarrow>
     (\<forall>actor units d s. C (snd (qa_submit qa actor units d s)) = C s \<and>
        (\<forall>permit. fst (qa_submit qa actor units d s) = Some (Inr permit) \<longrightarrow> pm_provider permit < providers)) \<and>
     (\<forall>m s. C (snd (qa_control qa m s)) = C s)"

definition counts_calls :: "('s \<Rightarrow> nat) \<Rightarrow> 's search_pool \<Rightarrow> bool" where
  "counts_calls C pool \<longleftrightarrow>
     (\<forall>p \<in> set (pl_providers pool). (\<forall>request d s. C (snd (pv_search p request d s)) \<le> Suc (C s)) \<and>
        (\<forall>request d s. C (snd (pv_fetch p request d s)) \<le> Suc (C s))) \<and>
     quota_silent C (length (pl_providers pool)) (pl_search_quota pool) \<and>
     quota_silent C (length (pl_providers pool)) (pl_fetch_quota pool)"

lemma attempt_counts:
  assumes silent: "quota_silent C (length (pl_providers pool)) qa"
    and call: "\<And>p d s. p \<in> set (pl_providers pool) \<Longrightarrow> C (snd (operation p d s)) \<le> Suc (C s)"
    and settle: "\<And>permit q x s. C (snd (settle permit q x s)) = (C s :: nat)"
  shows "C (snd (snd (attempt pool qa actor units b operation settle queued s))) \<le> Suc (C s)"
proof -
  have acquire: "C (snd (fair_acquire qa actor units d s)) = C s" for d s
    using silent by (simp add: fair_acquire_def quota_silent_def)
  have give_back: "C (snd (fair_refund qa permit u s)) = C s" "C (snd (fair_reject qa permit w s)) = C s" for permit u w s
    using silent by (simp_all add: fair_refund_def fair_reject_def quota_silent_def)
  obtain r1 b1 s1 where one: "run_budget b (fair_acquire qa actor units) s = (r1, b1, s1)" by (metis prod_cases3)
  then have s1: "C s1 = C s"
    using run_budget_state [of b "fair_acquire qa actor units" s] acquire by simp
  show ?thesis
  proof (cases r1)
    case (Inl e)
    with one s1 show ?thesis by (simp add: attempt_def)
  next
    case (Inr permit)
    with one have "fst (qa_submit qa actor units (rl_deadline b) s) = Some (Inr permit)"
      by (auto simp: run_budget_def fair_acquire_def split: prod.splits option.splits if_splits)
    with silent have "pm_provider permit < length (pl_providers pool)" unfolding quota_silent_def by blast
    then have known: "pl_providers pool ! pm_provider permit \<in> set (pl_providers pool)" by simp
    obtain r2 b2 s2 where two: "run_budget b1 (operation (pl_providers pool ! pm_provider permit)) s1 = (r2, b2, s2)"
      by (metis prod_cases3)
    then have s2: "C s2 \<le> Suc (C s)"
      using run_budget_state [of b1 "operation (pl_providers pool ! pm_provider permit)" s1] call [OF known] s1 by (metis snd_conv)
    show ?thesis
    proof (cases r2)
      case (Inr x)
      with one two \<open>r1 = Inr permit\<close> s2 settle [of permit "sat_add queued (queued_ms permit)" x s2] show ?thesis
        by (auto simp: attempt_def Let_def split: prod.split)
    next
      case (Inl error)
      then have "\<exists>s3. C s3 = C s2 \<and> snd (snd (attempt pool qa actor units b operation settle queued s)) = s3"
        using one two \<open>r1 = Inr permit\<close> give_back [of permit _ s2]
        by (auto simp: attempt_def Let_def split: prod.split sum.split option.split) (metis snd_conv)+
      with s2 show ?thesis by auto
    qed
  qed
qed

lemma settles_quietly:
  assumes "quota_silent C n qa"
  shows "C (snd (settle_fetch qa urls permit q x s)) = C s"
proof -
  have "C (snd (fair_refund qa permit u s)) = C s" for u
    using assms by (simp add: fair_refund_def quota_silent_def)
  from this [of "length urls"] this [of "length (filter (\<lambda>item. fi_status item = FetchError) (fp_items x))"] show ?thesis
    by (auto simp: settle_fetch_def Let_def split: prod.split sum.split)
qed

lemma search_loop_counts:
  assumes "counts_calls C pool" "rl_retries b \<le> MAX_RATE_LIMIT_RETRIES"
  shows "C (snd (search_loop pool actor request b queued s)) + rl_retries b \<le> C s + Suc MAX_RATE_LIMIT_RETRIES"
  using assms
proof (induction pool actor request b queued s rule: search_loop.induct)
  case (1 pool actor request b queued s)
  obtain out q1 s1 where turn: "attempt pool (pl_search_quota pool) actor 1 b (\<lambda>p. pv_search p request) settle_search queued s
      = (out, q1, s1)" by (metis prod_cases3)
  have one: "C s1 \<le> Suc (C s)"
    using attempt_counts [of C pool "pl_search_quota pool" "\<lambda>p. pv_search p request" settle_search actor 1 b queued s]
      "1.prems"(1) turn by (simp add: counts_calls_def settle_search_def)
  show ?case
  proof (cases out)
    case (Settled r)
    with turn one "1.prems"(2) show ?thesis by (simp add: search_loop.simps)
  next
    case (Retry b1)
    with turn have "search_loop pool actor request b queued s = search_loop pool actor request b1 q1 s1"
      by (simp add: search_loop.simps)
    moreover from turn Retry have next_budget: "rl_retries b1 = Suc (rl_retries b) \<and> rl_retries b < MAX_RATE_LIMIT_RETRIES"
      by (blast dest: attempt_retries)
    moreover from next_budget have "C (snd (search_loop pool actor request b1 q1 s1)) + rl_retries b1 \<le> C s1 + Suc MAX_RATE_LIMIT_RETRIES"
      using "1.IH" [OF turn [symmetric] Retry refl "1.prems"(1)] by simp
    ultimately show ?thesis using one by simp
  qed
qed

lemma fetch_loop_counts:
  assumes "counts_calls C pool" "rl_retries b \<le> MAX_RATE_LIMIT_RETRIES"
  shows "C (snd (snd (fetch_loop pool actor batch b queued s))) + rl_retries b \<le> C s + Suc MAX_RATE_LIMIT_RETRIES"
  using assms
proof (induction pool actor batch b queued s rule: fetch_loop.induct)
  case (1 pool actor batch b queued s)
  let ?qa = "pl_fetch_quota pool"
  let ?settle = "settle_fetch ?qa (fr_urls batch)"
  obtain out q1 s1 where turn: "attempt pool ?qa actor (length (fr_urls batch)) b (\<lambda>p. pv_fetch p batch) ?settle queued s
      = (out, q1, s1)" by (metis prod_cases3)
  have one: "C s1 \<le> Suc (C s)"
    using attempt_counts [of C pool ?qa "\<lambda>p. pv_fetch p batch" ?settle actor "length (fr_urls batch)" b queued s]
      "1.prems"(1) settles_quietly [of C "length (pl_providers pool)" ?qa "fr_urls batch"] turn
    by (simp add: counts_calls_def)
  show ?case
  proof (cases out)
    case (Settled r)
    with turn one "1.prems"(2) show ?thesis by (simp add: fetch_loop.simps)
  next
    case (Retry b1)
    with turn have "fetch_loop pool actor batch b queued s = fetch_loop pool actor batch b1 q1 s1"
      by (simp add: fetch_loop.simps)
    moreover from turn Retry have next_budget: "rl_retries b1 = Suc (rl_retries b) \<and> rl_retries b < MAX_RATE_LIMIT_RETRIES"
      by (blast dest: attempt_retries)
    moreover from next_budget have "C (snd (snd (fetch_loop pool actor batch b1 q1 s1))) + rl_retries b1 \<le> C s1 + Suc MAX_RATE_LIMIT_RETRIES"
      using "1.IH" [OF turn [symmetric] Retry refl "1.prems"(1)] by simp
    ultimately show ?thesis using one by simp
  qed
qed

lemma fetch_batches_counts:
  assumes "counts_calls C pool"
  shows "C (snd (fetch_batches pool actor request batch_list b items queued s)) \<le>
    C s + length batch_list * Suc MAX_RATE_LIMIT_RETRIES"
proof (induction batch_list arbitrary: b items queued s)
  case (Cons urls rest)
  obtain r1 q1 s1 where loop: "fetch_loop pool actor (request\<lparr>fr_urls := urls\<rparr>) fresh_budget queued s = (r1, q1, s1)"
    by (metis prod_cases3)
  with fetch_loop_counts [OF assms, of fresh_budget actor "request\<lparr>fr_urls := urls\<rparr>" queued s]
  have one: "C s1 \<le> C s + Suc MAX_RATE_LIMIT_RETRIES" by (simp add: fresh_budget_def)
  have "C (snd (fetch_batches pool actor request rest b' items' q' s1)) \<le> C s + Suc MAX_RATE_LIMIT_RETRIES + length rest * Suc MAX_RATE_LIMIT_RETRIES"
    for b' items' q' using Cons.IH [of b' items' q' s1] one by linarith
  with one loop show ?case by (simp add: Let_def ac_simps split: sum.split prod.split)
qed simp

text \<open>C34: a rate-limited provider is never called without end. However the providers answer, a
  search makes at most eight calls --- the first and seven retries --- and a fetch at most eight for
  each batch of ten URLs, so both loops end.\<close>

theorem pool_attempts_bounded:
  assumes "counts_calls C pool"
  shows "C (snd (search_for pool actor sr s)) \<le> C s + 8 \<and>
    C (snd (fetch_for pool actor fr s)) \<le> C s + 8 * ((length (fr_urls fr) + 9) div 10)"
proof
  show "C (snd (search_for pool actor sr s)) \<le> C s + 8"
    using search_loop_counts [OF assms, of fresh_budget actor sr 0 s]
    by (auto simp: search_for_def bindA_def fresh_budget_def MAX_RATE_LIMIT_RETRIES_def split: sum.split)
  have chunked: "length (chunks UPSTREAM_BATCH_SIZE (fr_urls fr)) = (length (fr_urls fr) + 9) div 10"
    by (simp add: length_chunks UPSTREAM_BATCH_SIZE_def)
  show "C (snd (fetch_for pool actor fr s)) \<le> C s + 8 * ((length (fr_urls fr) + 9) div 10)"
    using fetch_batches_counts [OF assms, of actor fr "chunks UPSTREAM_BATCH_SIZE (fr_urls fr)" empty_budget "[]" 0 s]
    by (auto simp: fetch_for_def bindA_def chunked MAX_RATE_LIMIT_RETRIES_def mult.commute split: sum.split)
qed


section \<open>A pool to try it on\<close>

text \<open>A pool of one provider that rejects its first call and then reads the first of two pages. Its quota
  is the scheduler itself with nobody else in its queue, which waits as long as it is told to; the state is what was told, the scheduler
  and the number of calls.\<close>

type_synonym toy = "quota_event list \<times> scheduler \<times> nat"

definition toy_quota :: "toy quota_api" where
  "toy_quota = \<lparr>qa_max_units = 10,
     qa_submit = (\<lambda>actor units d (l, st, n).
       let request = \<lparr>rq_actor = actor, rq_units = units, rq_queued_at = 0, rq_reply = 0\<rparr> in
       case (case grant_turn True 0 (apply_message 0 (Acquire request) st) of
               (Delay w, st1) \<Rightarrow> grant_turn True w st1 | turn \<Rightarrow> turn) of
         (Grant r permit, st') \<Rightarrow>
           if r = request \<and> pm_provider permit < 1 then (Some (Inr permit), (l @ [Granted permit], st', n)) else (None, (l, st, n))
       | _ \<Rightarrow> (None, (l, st, n))),
     qa_control = (\<lambda>m (l, st, n). (Inr (), (l @ [Told m], apply_message 0 m st, n)))\<rparr>"

definition toy_item :: "fetch_status \<Rightarrow> str \<Rightarrow> fetch_item" where
  "toy_item status address = \<lparr>fi_url = address, fi_status = status, fi_content = None, fi_links = [], fi_image_links = [],
     fi_error = None, fi_cached = False\<rparr>"

definition toy_provider :: "toy pooled_provider" where
  "toy_provider =
     \<lparr>pv_search = (\<lambda>request d (l, st, n). (Some (Inl (PHttp TINYFISH 429 [] None)), (l, st, Suc n))),
      pv_fetch = (\<lambda>request d (l, st, n).
        (if n = 0 then Some (Inl (PHttp TINYFISH 429 [] None))
         else Some (Inr \<lparr>fp_items = map (toy_item FetchOk) (take 1 (fr_urls request)) @
                             map (toy_item FetchError) (drop 1 (fr_urls request)), fp_queued_ms = 0\<rparr>), (l, st, Suc n)))\<rparr>"

definition toy_pool :: "toy search_pool" where
  "toy_pool = \<lparr>pl_providers = [toy_provider], pl_search_quota = toy_quota, pl_fetch_quota = toy_quota,
     pl_now = (\<lambda>_. 0), pl_parse = (\<lambda>_. Inr sample_endpoint), pl_json = (\<lambda>_. [])\<rparr>"

definition toy_fetch :: fetch_request where
  "toy_fetch = sample_fetch\<lparr>fr_urls := [lit ''https://a.example/'', lit ''https://b.example/'']\<rparr>"

definition toy_start :: toy where
  "toy_start = ([], scheduler_start 1 10 QUOTA_WINDOW, 0)"

lemma toy_laws:
  "quota_logged (length (pl_providers toy_pool)) fst (pl_fetch_quota toy_pool)"
  "calls_quiet fst (pl_providers toy_pool)"
  by (auto simp: quota_logged_def toy_pool_def toy_quota_def Let_def calls_quiet_def toy_provider_def
      dest!: granted_permit split: turn.split turn.split_asm prod.split prod.split_asm)

lemma toy_counts: "counts_calls (snd \<circ> snd) toy_pool"
  by (auto simp: counts_calls_def quota_silent_def toy_pool_def toy_quota_def toy_provider_def Let_def
      split: turn.split prod.split)

definition toy_scheduler :: "nat \<Rightarrow> charge list \<Rightarrow> int option \<Rightarrow> scheduler" where
  "toy_scheduler n cs b = \<lparr>sd_quota = \<lparr>q_used_at = [cs], q_blocked_until = [b], q_max_units = 10, q_window = QUOTA_WINDOW,
     q_next_reservation = n\<rparr>, sd_by_actor = Map.empty, sd_order = []\<rparr>"

definition toy_charge :: "nat \<Rightarrow> int \<Rightarrow> charge" where
  "toy_charge r t = \<lparr>ch_reservation = r, ch_at = t\<rparr>"

definition toy_permit :: "nat \<Rightarrow> int \<Rightarrow> quota_permit" where
  "toy_permit r w = \<lparr>pm_provider = 0, pm_waited = w, pm_reservation = r, pm_units = 2\<rparr>"

lemma toy_reservations: "next_reservation (Suc 0) = Suc (Suc 0)" "next_reservation (Suc (Suc 0)) = 3"
  "next_reservation 1 = Suc (Suc 0)" "next_reservation 2 = 3"
  by (simp_all add: next_reservation_def flip: numeral_2_eq_2)

lemmas toy_scheduling = toy_quota_def toy_scheduler_def toy_permit_def toy_charge_def apply_message_def enqueue_request_def
  grant_turn_def take_units_def prune_def provider_free_def wait_for_def provider_wait_def Let_def refund_def quota_reject_def
  saturating_since_def toy_reservations QUOTA_WINDOW_def NANOS_PER_SECOND_def numeral_2_eq_2 charge_expired_def

lemma toy_steps:
  "qa_submit toy_quota [97] 2 d ([], toy_scheduler (Suc 0) [] None, n) =
     (Some (Inr (toy_permit (Suc 0) 0)), ([Granted (toy_permit (Suc 0) 0)], toy_scheduler 2 [toy_charge (Suc 0) 0, toy_charge (Suc 0) 0] None, n))"
  "qa_control toy_quota (RejectMsg 0 (Suc 0) 2 60000000000) (l, toy_scheduler 2 [toy_charge (Suc 0) 0, toy_charge (Suc 0) 0] None, n) =
     (Inr (), (l @ [Told (RejectMsg 0 (Suc 0) 2 60000000000)], toy_scheduler 2 [] (Some 60000000000), n))"
  "qa_submit toy_quota [97] 2 d (l, toy_scheduler 2 [] (Some 60000000000), n) =
     (Some (Inr (toy_permit 2 60000000000)), (l @ [Granted (toy_permit 2 60000000000)],
        toy_scheduler 3 [toy_charge 2 60000000000, toy_charge 2 60000000000] None, n))"
  "qa_control toy_quota (RefundMsg 0 2 (Suc 0)) (l, toy_scheduler 3 [toy_charge 2 60000000000, toy_charge 2 60000000000] None, n) =
     (Inr (), (l @ [Told (RefundMsg 0 2 (Suc 0))], toy_scheduler 3 [toy_charge 2 60000000000] None, n))"
  by (simp_all add: toy_scheduling)

definition toy_log :: "quota_event list" where
  "toy_log = [Granted (toy_permit (Suc 0) 0), Told (RejectMsg 0 (Suc 0) 2 60000000000), Granted (toy_permit 2 60000000000),
     Told (RefundMsg 0 2 (Suc 0))]"

lemma toy_run:
  "map_prod (\<lambda>r. case r of Inr x \<Rightarrow> map fi_status (fp_items x) | Inl _ \<Rightarrow> []) (\<lambda>(l, st, n). (l, n))
      (fetch_for toy_pool [97] toy_fetch ([], toy_scheduler (Suc 0) [] None, 0)) = ([FetchOk, FetchError], toy_log, 2)"
proof -
  let ?urls = "[lit ''https://a.example/'', lit ''https://b.example/'']"
  let ?batch = "toy_fetch\<lparr>fr_urls := ?urls\<rparr>"
  let ?log1 = "[Granted (toy_permit (Suc 0) 0)]"
  let ?log2 = "?log1 @ [Told (RejectMsg 0 (Suc 0) 2 60000000000)]"
  let ?s2 = "(?log2, toy_scheduler 2 [] (Some 60000000000), Suc 0)"
  let ?b2 = "\<lparr>rl_deadline = Some MAX_RATE_LIMIT_ELAPSED, rl_retries = Suc 0, rl_last_error = Some (PHttp TINYFISH 429 [] None)\<rparr>"
  let ?items = "[toy_item FetchOk (?urls ! 0), toy_item FetchError (?urls ! 1)]"
  let ?s3 = "(toy_log, toy_scheduler 3 [toy_charge 2 60000000000] None, Suc (Suc 0))"
  have quota: "qa_max_units toy_quota = 10" "pl_fetch_quota toy_pool = toy_quota" "pl_providers toy_pool = [toy_provider]"
    "pl_now toy_pool = (\<lambda>_. 0)" by (simp_all add: toy_quota_def toy_pool_def)
  have permit: "pm_provider (toy_permit r w) = 0" "pm_reservation (toy_permit r w) = r" "pm_units (toy_permit r w) = 2"
    "queued_ms (toy_permit (Suc 0) 0) = 0" "queued_ms (toy_permit 2 60000000000) = 60000" for r w
    by (simp_all add: toy_permit_def queued_ms_def)
  have backoff: "clamp_backoff DEFAULT_RATE_LIMIT_BACKOFF = 60000000000" "clamp_backoff 60000000000 = 60000000000"
    by (simp_all add: clamp_backoff_def DEFAULT_RATE_LIMIT_BACKOFF_def MIN_RATE_LIMIT_BACKOFF_def MAX_RATE_LIMIT_BACKOFF_def NANOS_PER_SECOND_def)
  have calls: "pv_fetch toy_provider ?batch d (l, st, 0) = (Some (Inl (PHttp TINYFISH 429 [] None)), (l, st, Suc 0))"
    "pv_fetch toy_provider ?batch d (l, st, Suc 0) = (Some (Inr \<lparr>fp_items = ?items, fp_queued_ms = 0\<rparr>), (l, st, Suc (Suc 0)))" for d l st
    by (simp_all add: toy_provider_def)
  have statuses: "fi_status (toy_item status u) = status" for status u by (simp add: toy_item_def)
  have actor: "validate_actor [97] = Inr ()" by code_simp
  have valid: "fetch_request_validate (pl_parse toy_pool) toy_fetch = Inr ()"
    by (simp add: fetch_request_validate_def validate_http_url_def toy_fetch_def sample_fetch_def
        toy_pool_def sample_endpoint_def validate_selectors_def)
  have chunked: "chunks UPSTREAM_BATCH_SIZE (fr_urls toy_fetch) = [?urls]" by code_simp
  have room: "extend_items (pl_json toy_pool) ?items empty_budget [] = Inr (\<lparr>fb_bytes = 1, fb_count = 2\<rparr>, ?items)"
    by (simp add: toy_pool_def extend_items_spec empty_budget_def json_bytes_def MAX_FETCH_ITEMS_JSON_BYTES_def
        del: extend_items.simps)
  have first: "attempt toy_pool toy_quota [97] 2 fresh_budget (\<lambda>p. pv_fetch p ?batch) settle 0 ([], toy_scheduler (Suc 0) [] None, 0) =
      (Retry ?b2, 0, ?s2)" for settle :: "_ \<Rightarrow> _ \<Rightarrow> _ \<Rightarrow> _ \<Rightarrow> (_ + fetch_response) \<times> _"
    by (simp add: attempt_def run_budget_def fair_acquire_def acquire_admits_def quota toy_steps calls permit backoff
        fresh_budget_def sat_add_def fair_reject_def budget_retry_def Let_def U64_MAX_def
        MAX_RATE_LIMIT_RETRIES_def MAX_RATE_LIMIT_ELAPSED_def NANOS_PER_SECOND_def)
  have second: "attempt toy_pool toy_quota [97] 2 ?b2 (\<lambda>p. pv_fetch p ?batch) (settle_fetch toy_quota ?urls) 0 ?s2 =
      (Settled (Inr \<lparr>fp_items = ?items, fp_queued_ms = 0\<rparr>), 60000, ?s3)"
    by (simp add: attempt_def run_budget_def fair_acquire_def acquire_admits_def quota toy_steps calls permit
        sat_add_def settle_fetch_def fair_refund_def Let_def statuses U64_MAX_def toy_log_def)
  have "fetch_loop toy_pool [97] ?batch fresh_budget 0 ([], toy_scheduler (Suc 0) [] None, 0) =
      (Inr \<lparr>fp_items = ?items, fp_queued_ms = 0\<rparr>, 60000, ?s3)"
    using first second by (simp add: fetch_loop.simps quota numeral_2_eq_2)
  then show ?thesis
    using actor valid chunked room
    by (simp add: fetch_for_def bindA_def MAX_FETCH_URLS_def sat_add_def Let_def statuses numeral_2_eq_2 toy_fetch_def
        del: extend_items.simps)
qed

theorem fetch_charges_results_witness:
  "\<exists>x st. fetch_for toy_pool [97] toy_fetch ([], toy_scheduler (Suc 0) [] None, 0) = (Inr x, (toy_log, st, 2)) \<and> length (fp_items x) = 2 \<and>
     quota_total (replay toy_log (quota_new 1 10 QUOTA_WINDOW)) = 1"
proof -
  obtain r l st n where run: "fetch_for toy_pool [97] toy_fetch ([], toy_scheduler (Suc 0) [] None, 0) = (r, (l, st, n))"
    by (metis prod_cases4)
  with toy_run have ln: "l = toy_log" "n = 2" and st: "(case r of Inr x \<Rightarrow> map fi_status (fp_items x) | Inl _ \<Rightarrow> []) = [FetchOk, FetchError]"
    by simp_all
  then obtain x where x: "r = Inr x" by (cases r) auto
  with st have "map fi_status (fp_items x) = [FetchOk, FetchError]" by simp
  then have read: "length (filter (\<lambda>item. fi_status item \<noteq> FetchError) (fp_items x)) = 1" by auto
  have "length (q_used_at (quota_new 1 10 QUOTA_WINDOW)) = length (pl_providers toy_pool)"
    by (simp add: quota_new_def toy_pool_def)
  from fetch_charges_results [OF toy_laws(1) this toy_laws(2) run] read run x ln show ?thesis
    by (simp add: toy_fetch_def quota_total_def quota_new_def)
qed

theorem pool_attempts_bounded_witness:
  "snd (snd (snd (fetch_for toy_pool [97] toy_fetch ([], toy_scheduler (Suc 0) [] None, 0)))) \<le> 8 \<and>
   snd (snd (snd (fetch_for toy_pool [97] toy_fetch ([], toy_scheduler (Suc 0) [] None, 0)))) = 2"
proof -
  have "snd (snd (snd (fetch_for toy_pool [97] toy_fetch ([], toy_scheduler (Suc 0) [] None, 0)))) = 2"
    using toy_run by (cases "fetch_for toy_pool [97] toy_fetch ([], toy_scheduler (Suc 0) [] None, 0)") auto
  moreover have "(length (fr_urls toy_fetch) + 9) div 10 = 1" by (simp add: toy_fetch_def)
  ultimately show ?thesis
    using pool_attempts_bounded [OF toy_counts, of "[97]" undefined "([], toy_scheduler (Suc 0) [] None, 0)" toy_fetch] by simp
qed

end
