(* ===== verification/SB_Redact.thy ===== *)
theory SB_Redact
  imports SB_Crypto
begin

text \<open>
  The redaction of a controller's output (\<open>RedactedOutput\<close> in
  \<open>src/crates/client/src/controller.rs\<close>): the bytes a browser command prints are passed on as
  text with the connection URL of the session replaced, read by read. It uses the UTF-8 decoders of
  the standard library, which are modelled first. The reference is \<open>redact_all\<close>, which replaces
  the secret in the whole output at once.
\<close>

section \<open>UTF-8\<close>

text \<open>One step of the validation of a byte sequence: a scalar value of some width, an invalid sequence
  of some length, or a sequence that the input ends too early for (\<open>error_len() == None\<close>).\<close>

datatype utf8_step = Scalar uchar nat | Bad nat | Short

definition continuation :: "nat \<Rightarrow> bool" where
  "continuation b \<longleftrightarrow> 128 \<le> b \<and> b < 192"

text \<open>The second byte of a sequence, by its first.\<close>

definition second_ok :: "nat \<Rightarrow> nat \<Rightarrow> bool" where
  "second_ok a b \<longleftrightarrow>
     (if a = 224 then 160 \<le> b \<and> b < 192
      else if a = 237 then 128 \<le> b \<and> b < 160
      else if a = 240 then 144 \<le> b \<and> b < 192
      else if a = 244 then 128 \<le> b \<and> b < 144
      else continuation b)"

fun utf8_next :: "bytes \<Rightarrow> utf8_step" where
  "utf8_next [] = Short"
| "utf8_next (a # s) =
     (if a < 128 then Scalar a 1
      else if 194 \<le> a \<and> a < 224 then
        (case s of [] \<Rightarrow> Short
         | b # _ \<Rightarrow> if second_ok a b then Scalar (64 * (a - 192) + (b - 128)) 2 else Bad 1)
      else if 224 \<le> a \<and> a < 240 then
        (case s of [] \<Rightarrow> Short
         | b # t \<Rightarrow> if \<not> second_ok a b then Bad 1
             else (case t of [] \<Rightarrow> Short
                   | c # _ \<Rightarrow> if continuation c then Scalar (4096 * (a - 224) + 64 * (b - 128) + (c - 128)) 3 else Bad 2))
      else if 240 \<le> a \<and> a < 245 then
        (case s of [] \<Rightarrow> Short
         | b # t \<Rightarrow> if \<not> second_ok a b then Bad 1
             else (case t of [] \<Rightarrow> Short
                   | c # u \<Rightarrow> if \<not> continuation c then Bad 2
                       else (case u of [] \<Rightarrow> Short
                             | d # _ \<Rightarrow> if continuation d
                                 then Scalar (262144 * (a - 240) + 4096 * (b - 128) + 64 * (c - 128) + (d - 128)) 4
                                 else Bad 3)))
      else Bad 1)"

lemma utf8_next_width:
  "utf8_next s = Scalar c n \<Longrightarrow> 0 < n \<and> n \<le> length s"
  "utf8_next s = Bad n \<Longrightarrow> 0 < n \<and> n \<le> length s"
  by (cases s; auto split: if_splits list.splits)+

text \<open>\<open>str::from_utf8\<close>: the whole is valid, or an error after a valid prefix.\<close>

datatype utf8_verdict = Valid | Broken nat "nat option"

function utf8_scan :: "nat \<Rightarrow> bytes \<Rightarrow> utf8_verdict" where
  "utf8_scan done s =
     (if s = [] then Valid
      else case utf8_next s of
        Scalar c n \<Rightarrow> utf8_scan (done + n) (drop n s)
      | Bad n \<Rightarrow> Broken done (Some n)
      | Short \<Rightarrow> Broken done None)"
  by auto
termination by (relation "measure (\<lambda>(d, s). length s)") (auto dest: utf8_next_width)

text \<open>\<open>String::from_utf8_lossy\<close>\<close>

definition REPLACEMENT :: uchar where "REPLACEMENT = 65533"

function utf8_lossy :: "bytes \<Rightarrow> str" where
  "utf8_lossy s =
     (if s = [] then []
      else case utf8_next s of
        Scalar c n \<Rightarrow> c # utf8_lossy (drop n s)
      | Bad n \<Rightarrow> REPLACEMENT # utf8_lossy (drop n s)
      | Short \<Rightarrow> [REPLACEMENT])"
  by auto
termination by (relation "measure length") (auto dest: utf8_next_width)

declare utf8_scan.simps [simp del] utf8_lossy.simps [simp del]

lemma utf8_lossy_Nil [simp]: "utf8_lossy [] = []"
  by (simp add: utf8_lossy.simps)

lemma utf8_scan_Nil [simp]: "utf8_scan n [] = Valid"
  by (simp add: utf8_scan.simps)

section \<open>What a decoded text says of its bytes\<close>

text \<open>A decoded text has the ASCII bytes of its source in place, and nothing else below 128.\<close>

inductive ascii_faithful :: "bytes \<Rightarrow> str \<Rightarrow> bool" where
  empty: "ascii_faithful [] []"
| ascii: "b < 128 \<Longrightarrow> ascii_faithful s t \<Longrightarrow> ascii_faithful (b # s) (b # t)"
| other: "p \<noteq> [] \<Longrightarrow> 128 \<le> c \<Longrightarrow> ascii_faithful s t \<Longrightarrow> ascii_faithful (p @ s) (c # t)"

lemma ascii_faithful_append:
  "ascii_faithful s t \<Longrightarrow> ascii_faithful s' t' \<Longrightarrow> ascii_faithful (s @ s') (t @ t')"
  by (induction rule: ascii_faithful.induct) (auto intro: ascii_faithful.intros)

lemma utf8_next_scalar:
  assumes "utf8_next s = Scalar c n"
  shows "c < 128 \<and> n = 1 \<and> hd s = c \<or> 128 \<le> c"
  using assms by (cases s) (auto simp: second_ok_def continuation_def split: if_splits list.splits)

lemma utf8_lossy_faithful: "ascii_faithful s (utf8_lossy s)"
proof (induction s rule: utf8_lossy.induct)
  case (1 s)
  show ?case
  proof (cases "s = []")
    case True
    then show ?thesis by (simp add: ascii_faithful.empty)
  next
    case ne: False
    show ?thesis
    proof (cases "utf8_next s")
      case (Scalar c n)
      with 1 ne have IH: "ascii_faithful (drop n s) (utf8_lossy (drop n s))" by blast
      have out: "utf8_lossy s = c # utf8_lossy (drop n s)" using ne Scalar by (simp add: utf8_lossy.simps)
      from utf8_next_scalar [OF Scalar] show ?thesis
      proof
        assume "c < 128 \<and> n = 1 \<and> hd s = c"
        then show ?thesis using ascii_faithful.ascii [OF _ IH, of c] ne out by (cases s) auto
      next
        assume "128 \<le> c"
        moreover have "take n s \<noteq> []" using utf8_next_width(1) [OF Scalar] ne by auto
        ultimately show ?thesis using ascii_faithful.other [OF _ _ IH, of "take n s" c] out by simp
      qed
    next
      case (Bad n)
      with 1 ne have IH: "ascii_faithful (drop n s) (utf8_lossy (drop n s))" by blast
      have "take n s \<noteq> []" using utf8_next_width(2) [OF Bad] ne by auto
      then show ?thesis
        using ascii_faithful.other [OF _ _ IH, of "take n s" REPLACEMENT] ne Bad
        by (simp add: utf8_lossy.simps [of s] REPLACEMENT_def)
    next
      case Short
      then show ?thesis
        using ascii_faithful.other [OF ne _ ascii_faithful.empty, of REPLACEMENT] ne
        by (simp add: utf8_lossy.simps [of s] REPLACEMENT_def)
    qed
  qed
qed

inductive_cases faithful_ConsE: "ascii_faithful s (c # t)"

lemma ascii_faithful_prefix:
  "ascii_faithful s (w @ v) \<Longrightarrow> list_all (\<lambda>c. c < 128) w \<Longrightarrow> \<exists>y. s = w @ y \<and> ascii_faithful y v"
proof (induction w arbitrary: s)
  case (Cons c w)
  then show ?case by (auto elim!: faithful_ConsE)
qed simp

lemma ascii_faithful_sub:
  "ascii_faithful s (u @ w @ v) \<Longrightarrow> list_all (\<lambda>c. c < 128) w \<Longrightarrow> \<exists>x y. s = x @ w @ y"
proof (induction u arbitrary: s)
  case Nil
  then show ?case using ascii_faithful_prefix by (metis append_Nil)
next
  case (Cons c u)
  then obtain p s' where "s = p @ s'" "ascii_faithful s' (u @ w @ v)"
    by (auto elim!: faithful_ConsE) (metis append_Cons append_Nil)
  with Cons.IH [OF _ Cons.prems(2)] show ?case by (metis append.assoc)
qed

lemma utf8_next_append:
  "utf8_next s = Scalar c n \<Longrightarrow> utf8_next (s @ t) = Scalar c n"
  "utf8_next s = Bad n \<Longrightarrow> utf8_next (s @ t) = Bad n"
  by (cases s; auto split: if_splits list.splits)+

lemma utf8_lossy_Scalar: "utf8_next s = Scalar c n \<Longrightarrow> s \<noteq> [] \<Longrightarrow> utf8_lossy s = c # utf8_lossy (drop n s)"
  by (simp add: utf8_lossy.simps)

lemma utf8_next_take:
  assumes "utf8_next s = Scalar c n" "n \<le> k"
  shows "utf8_next (take k s) = Scalar c n"
proof -
  have "utf8_next (take n s) = Scalar c n"
    using assms(1) by (cases s) (auto split: if_splits list.splits)
  from utf8_next_append(1) [OF this, of "drop n (take k s)"] assms(2) show ?thesis
    by (metis append_take_drop_id min.absorb1 take_take)
qed

lemma utf8_scan_shift: "utf8_scan e s = Valid \<longleftrightarrow> utf8_scan e' s = Valid"
proof (induction s arbitrary: e e' rule: utf8_lossy.induct)
  case (1 s)
  show ?case
    using 1 by (subst (1 2) utf8_scan.simps) (auto split: utf8_step.splits)
qed

text \<open>A valid text may be cut anywhere: its first part is valid up to an incomplete sequence, and the
  rest follows on.\<close>

lemma utf8_valid_cut:
  assumes "utf8_scan d (s @ t) = Valid"
  shows "case utf8_scan d s of
      Valid \<Rightarrow> utf8_lossy (s @ t) = utf8_lossy s @ utf8_lossy t \<and> utf8_scan 0 t = Valid
    | Broken n (Some _) \<Rightarrow> False
    | Broken n None \<Rightarrow> d \<le> n \<and> n - d \<le> length s \<and>
        utf8_lossy (s @ t) = utf8_lossy (take (n - d) s) @ utf8_lossy (drop (n - d) s @ t) \<and>
        utf8_scan 0 (drop (n - d) s @ t) = Valid"
  using assms
proof (induction d s rule: utf8_scan.induct)
  case (1 d s)
  show ?case
  proof (cases "s = []")
    case True
    with 1(2) utf8_scan_shift [of d t 0] show ?thesis by simp
  next
    case ne: False
    show ?thesis
    proof (cases "utf8_next s")
      case (Scalar c n)
      have n: "0 < n" "n \<le> length s" using utf8_next_width(1) [OF Scalar] by auto
      have "utf8_scan (d + n) (drop n s @ t) = Valid"
        using 1(2) ne utf8_next_append(1) [OF Scalar, of t] n by (simp add: utf8_scan.simps [of d "s @ t"])
      note IH = 1(1) [OF ne Scalar this]
      have text_all: "utf8_lossy (s @ t) = c # utf8_lossy (drop n s @ t)"
        using utf8_lossy_Scalar [OF utf8_next_append(1) [OF Scalar]] ne n by simp
      have step: "utf8_scan d s = utf8_scan (d + n) (drop n s)"
        using ne Scalar by (simp add: utf8_scan.simps [of d s])
      show ?thesis
      proof (cases "utf8_scan (d + n) (drop n s)")
        case Valid
        with IH step text_all utf8_lossy_Scalar [OF Scalar ne] show ?thesis by simp
      next
        case (Broken m e)
        with IH obtain "d + n \<le> m" "e = None" by (auto split: option.splits)
        have cut: "take (m - d) s = take n s @ take (m - (d + n)) (drop n s)" "drop (m - d) s = drop (m - (d + n)) (drop n s)"
          using \<open>d + n \<le> m\<close> by (simp_all add: take_add [symmetric] ac_simps)
        have "utf8_next (take (m - d) s) = Scalar c n"
          using utf8_next_take [OF Scalar, of "m - d"] \<open>d + n \<le> m\<close> by simp
        then have first: "utf8_lossy (take (m - d) s) = c # utf8_lossy (take (m - (d + n)) (drop n s))"
          using utf8_lossy_Scalar [of "take (m - d) s" c n] \<open>d + n \<le> m\<close> n ne by (simp add: cut(1))
        from IH Broken \<open>e = None\<close> have "m - (d + n) \<le> length (drop n s)"
          "utf8_lossy (drop n s @ t) = utf8_lossy (take (m - (d + n)) (drop n s)) @ utf8_lossy (drop (m - d) s @ t)"
          "utf8_scan 0 (drop (m - d) s @ t) = Valid"
          by (simp_all only: cut(2) utf8_verdict.case option.case)
        then show ?thesis
          using \<open>d + n \<le> m\<close> n
          unfolding step Broken \<open>e = None\<close> utf8_verdict.case option.case text_all first by simp
      qed
    next
      case (Bad n)
      with 1(2) ne utf8_next_append(2) [OF Bad, of t] show ?thesis by (simp add: utf8_scan.simps [of d "s @ t"])
    next
      case Short
      with 1(2) ne utf8_scan_shift [of d "s @ t" 0] show ?thesis by (simp add: utf8_scan.simps [of d s])
    qed
  qed
qed

section \<open>The redacted output\<close>

definition MARKER :: bytes where "MARKER = lit ''[REDACTED]''"

definition CAPTURE_BYTES :: nat where "CAPTURE_BYTES = 65536"

record redacted_output =
  ro_secret :: bytes
  ro_pending :: bytes
  ro_utf8 :: bytes
  ro_captured :: str

definition redacted_new :: "bytes \<Rightarrow> redacted_output" where
  "redacted_new secret = \<lparr>ro_secret = secret, ro_pending = [], ro_utf8 = [], ro_captured = []\<rparr>"

text \<open>The loop of \<open>push\<close> over the pending bytes: every occurrence of the secret is replaced, and the
  longest end that may be the begin of another one is kept. The secret is a URL, so not empty.\<close>

definition kept_tail :: "bytes \<Rightarrow> bytes \<Rightarrow> nat" where
  "kept_tail secret pending =
     (case find (\<lambda>n. ends_with (take n secret) pending) (rev [1..<min (length secret) (length pending + 1)]) of
        Some n \<Rightarrow> n | None \<Rightarrow> 0)"

lemma find_sub_shrinks: "p \<noteq> [] \<Longrightarrow> find_sub p s = Some i \<Longrightarrow> length s - (i + length p) < length s"
  using find_sub_Some [of p s i] by (cases p) auto

lemma starts_with_append: "starts_with p s \<Longrightarrow> starts_with p (s @ t)"
  by (simp add: starts_with_iff_prefix)

function redact_pending :: "bytes \<Rightarrow> bool \<Rightarrow> bytes \<Rightarrow> bytes \<times> bytes" where
  "redact_pending secret finish pending =
     (case (if secret = [] then None else find_sub secret pending) of
        Some i \<Rightarrow>
          (case redact_pending secret finish (drop (i + length secret) pending) of
             (out, rest) \<Rightarrow> (take i pending @ MARKER @ out, rest))
      | None \<Rightarrow>
          let count = (if finish then length pending else length pending - kept_tail secret pending) in
          (take count pending, drop count pending))"
  by auto
termination
  by (relation "measure (\<lambda>(secret, finish, pending). length pending)")
    (auto split: if_splits dest: find_sub_shrinks)

declare redact_pending.simps [simp del]

text \<open>The part of the decoded bytes that may be emitted: an incomplete sequence at the end waits.\<close>

definition emit_count :: "bool \<Rightarrow> bytes \<Rightarrow> nat" where
  "emit_count finish utf8 =
     (case utf8_scan 0 utf8 of
        Valid \<Rightarrow> length utf8
      | Broken valid_up_to None \<Rightarrow> if finish then length utf8 else valid_up_to
      | Broken _ (Some _) \<Rightarrow> length utf8)"

text \<open>The longest prefix of whole characters within a number of bytes.\<close>

fun take_bytes :: "nat \<Rightarrow> str \<Rightarrow> str" where
  "take_bytes n [] = []"
| "take_bytes n (c # s) = (if utf8_width c \<le> n then c # take_bytes (n - utf8_width c) s else [])"

text \<open>\<open>push\<close>: the emitted chunk, if any.\<close>

definition redacted_push :: "bytes \<Rightarrow> bool \<Rightarrow> redacted_output \<Rightarrow> str list \<times> redacted_output" where
  "redacted_push new finish ro =
     (case redact_pending (ro_secret ro) finish (ro_pending ro @ new) of
        (out, rest) \<Rightarrow>
          let utf8 = ro_utf8 ro @ out;
              count = emit_count finish utf8;
              ro' = ro\<lparr>ro_pending := rest, ro_utf8 := drop count utf8\<rparr>
          in if count = 0 then ([], ro')
             else let chunk = utf8_lossy (take count utf8) in
               ([chunk], ro'\<lparr>ro_captured := ro_captured ro @
                  take_bytes (CAPTURE_BYTES - utf8_len (ro_captured ro)) chunk\<rparr>))"

fun push_all :: "(bytes \<times> bool) list \<Rightarrow> redacted_output \<Rightarrow> str list \<times> redacted_output" where
  "push_all [] ro = ([], ro)"
| "push_all ((new, finish) # later) ro =
     (case redacted_push new finish ro of (chunks1, ro1) \<Rightarrow>
      case push_all later ro1 of (chunks2, ro2) \<Rightarrow> (chunks1 @ chunks2, ro2))"

text \<open>The reference: every leftmost occurrence of the secret in the whole output is replaced.\<close>

function redact_all :: "bytes \<Rightarrow> bytes \<Rightarrow> bytes" where
  "redact_all secret s =
     (case (if secret = [] then None else find_sub secret s) of
        Some i \<Rightarrow> take i s @ MARKER @ redact_all secret (drop (i + length secret) s)
      | None \<Rightarrow> s)"
  by auto
termination
  by (relation "measure (\<lambda>(secret, s). length s)") (auto split: if_splits dest: find_sub_shrinks)

declare redact_all.simps [simp del]

lemma find_sub_None: "find_sub p s = None \<longleftrightarrow> (\<nexists>u v. s = u @ p @ v)"
proof
  assume none: "find_sub p s = None"
  show "\<nexists>u v. s = u @ p @ v"
  proof
    assume "\<exists>u v. s = u @ p @ v"
    then obtain u v where "s = u @ p @ v" by blast
    with find_sub_least [of p "length u" s] none show False by auto
  qed
next
  assume no: "\<nexists>u v. s = u @ p @ v"
  show "find_sub p s = None"
  proof (cases "find_sub p s")
    case (Some i)
    from find_sub_Some [OF this] have "s = take i s @ p @ drop (i + length p) s"
      by (metis append_take_drop_id drop_drop add.commute)
    with no show ?thesis by blast
  qed
qed

lemma redact_all_clean: "find_sub secret s = None \<Longrightarrow> redact_all secret s = s"
  by (simp add: redact_all.simps)

lemma redact_all_hit:
  "secret \<noteq> [] \<Longrightarrow> find_sub secret s = Some i \<Longrightarrow>
   redact_all secret s = take i s @ MARKER @ redact_all secret (drop (i + length secret) s)"
  by (simp add: redact_all.simps [of secret s])

lemma find_sub_append_hit:
  assumes "find_sub p s = Some i"
  shows "find_sub p (s @ t) = Some i"
  using assms
proof (induction s arbitrary: i)
  case Nil
  then show ?case by (cases t) (auto simp: starts_with_def split: if_splits)
next
  case (Cons x s)
  show ?case
  proof (cases "starts_with p (x # s)")
    case True
    from starts_with_append [OF this, of t] have "starts_with p (x # s @ t)" by simp
    with True Cons.prems show ?thesis by simp
  next
    case False
    with Cons.prems obtain j where j: "find_sub p s = Some j" "i = Suc j" by auto
    from find_sub_Some [OF j(1)] have "length p \<le> length s" by simp
    then have "starts_with p (x # s @ t) = starts_with p (x # s)" by (cases p) (auto simp: starts_with_def)
    with False Cons.IH [OF j(1)] j show ?thesis by simp
  qed
qed


lemma find_sub_later:
  "(\<And>u v. d @ x = u @ p @ v \<Longrightarrow> length d \<le> length u) \<Longrightarrow>
   find_sub p (d @ x) = map_option ((+) (length d)) (find_sub p x)"
proof (induction d)
  case Nil
  then show ?case by (cases "find_sub p x") auto
next
  case (Cons a d)
  have "\<not> starts_with p (a # d @ x)"
  proof
    assume "starts_with p (a # d @ x)"
    then obtain v where "(a # d) @ x = [] @ p @ v" by (auto simp: starts_with_iff_prefix prefix_def)
    from Cons.prems [OF this] show False by simp
  qed
  moreover have "find_sub p (d @ x) = map_option ((+) (length d)) (find_sub p x)"
  proof (rule Cons.IH)
    fix u v assume "d @ x = u @ p @ v"
    with Cons.prems [of "a # u" v] show "length d \<le> length u" by simp
  qed
  ultimately show ?case by (cases "find_sub p x") auto
qed

lemma find_rev_upt:
  "case find P (rev [1..<m]) of Some k \<Rightarrow> P k \<and> 1 \<le> k \<and> k < m \<and> (\<forall>n. k < n \<and> n < m \<longrightarrow> \<not> P n)
   | None \<Rightarrow> \<forall>n. 1 \<le> n \<and> n < m \<longrightarrow> \<not> P n"
proof (induction m)
  case (Suc m)
  show ?case
  proof (cases "m = 0 \<or> \<not> P m")
    case True
    with Suc show ?thesis by (cases m) (auto simp: less_Suc_eq split: option.splits)
  next
    case False
    then show ?thesis by auto
  qed
qed simp

lemma kept_tail_spec:
  assumes none: "find_sub p s = None"
  shows "kept_tail p s \<le> length s \<and> (\<forall>x u v. s @ x = u @ p @ v \<longrightarrow> length s - kept_tail p s \<le> length u)"
proof -
  let ?k = "kept_tail p s" and ?m = "min (length p) (length s + 1)"
  note found = find_rev_upt [where P = "\<lambda>n. ends_with (take n p) s" and m = ?m]
  have le: "?k \<le> length s"
    using found by (auto simp: kept_tail_def split: option.splits)
  have least: "n \<le> ?k" if "1 \<le> n" "n < ?m" "ends_with (take n p) s" for n
    using found that by (auto simp: kept_tail_def split: option.splits) (meson leI)
  have "length s - ?k \<le> length u" if eq: "s @ x = u @ p @ v" for x u v
  proof (rule ccontr)
    assume "\<not> length s - ?k \<le> length u"
    then have lt: "length u < length s - ?k" by simp
    then obtain r where r: "s = u @ r" "r @ x = p @ v"
      using eq by (auto simp: append_eq_append_conv2)
    have short: "length r < length p"
    proof (rule ccontr)
      assume "\<not> length r < length p"
      with r(2) obtain w where "r = p @ w" by (auto simp: append_eq_append_conv2)
      with r(1) none find_sub_None show False by blast
    qed
    have "take (length r) (r @ x) = take (length r) (p @ v)" using r(2) by simp
    with short have "r = take (length r) p" by simp
    then have "ends_with (take (length r) p) s"
      using r(1) by (simp add: ends_with_def starts_with_iff_prefix)
    moreover have "1 \<le> length r" "length r < ?m" "?k < length r" using lt short r(1) by auto
    ultimately show False using least [of "length r"] by simp
  qed
  with le show ?thesis by blast
qed

lemma redact_all_later:
  assumes "secret \<noteq> []" "\<And>u v. d @ x = u @ secret @ v \<Longrightarrow> length d \<le> length u"
  shows "redact_all secret (d @ x) = d @ redact_all secret x"
proof (cases "find_sub secret x")
  case None
  with find_sub_later [OF assms(2)] show ?thesis by (simp add: redact_all_clean)
next
  case (Some i)
  with find_sub_later [OF assms(2)] have "find_sub secret (d @ x) = Some (length d + i)" by simp
  from redact_all_hit [OF assms(1) this] redact_all_hit [OF assms(1) Some] show ?thesis
    by (simp add: ac_simps)
qed

text \<open>What has been let through and what is pending redact to the same text as the whole.\<close>

lemma redact_pending_split:
  assumes "secret \<noteq> []" "redact_pending secret False s = (out, rest)"
  shows "redact_all secret (s @ x) = out @ redact_all secret (rest @ x)"
  using assms
proof (induction secret "False" s arbitrary: out rest rule: redact_pending.induct)
  case (1 secret pending)
  show ?case
  proof (cases "find_sub secret pending")
    case None
    then have parts: "out = take (length pending - kept_tail secret pending) pending"
      "rest = drop (length pending - kept_tail secret pending) pending"
      using 1(2,3) by (simp_all add: redact_pending.simps [of secret False pending] Let_def)
    have whole: "out @ rest = pending" using parts by simp
    have "length out \<le> length u" if "out @ rest @ x = u @ secret @ v" for u v
    proof -
      from whole that have "pending @ x = u @ secret @ v" by (metis append.assoc)
      with kept_tail_spec [OF None] have "length pending - kept_tail secret pending \<le> length u" by blast
      with parts show ?thesis by simp
    qed
    from redact_all_later [OF 1(2) this] whole [symmetric] show ?thesis by simp
  next
    case (Some i)
    obtain out1 where rec: "redact_pending secret False (drop (i + length secret) pending) = (out1, rest)"
      and out: "out = take i pending @ MARKER @ out1"
      using 1(2,3) Some by (auto simp: redact_pending.simps [of secret False pending] split: prod.splits)
    from 1(1) [OF _ 1(2) rec] Some 1(2)
    have "redact_all secret (drop (i + length secret) pending @ x) = out1 @ redact_all secret (rest @ x)" by simp
    moreover have "i + length secret \<le> length pending" using find_sub_Some [OF Some] by simp
    ultimately show ?thesis
      using redact_all_hit [OF 1(2) find_sub_append_hit [OF Some], of x] out by simp
  qed
qed

lemma redact_pending_finish:
  assumes "secret \<noteq> []"
  shows "redact_pending secret True s = (redact_all secret s, [])"
  using assms
proof (induction secret s rule: redact_all.induct)
  case (1 secret s)
  then show ?case
    by (cases "find_sub secret s")
      (simp_all add: redact_pending.simps [of secret True s] redact_all.simps [of secret s])
qed

section \<open>Streaming\<close>

text \<open>The bytes that have left the redactor: decoded and emitted, or waiting for the rest of a character.\<close>

definition writes :: "bytes list \<Rightarrow> (bytes \<times> bool) list" where
  "writes parts = map (\<lambda>p. (p, False)) parts @ [([], True)]"

text \<open>An invariant of the pushes: \<open>pieces\<close> are the byte sequences decoded so far.\<close>

definition streamed :: "bytes \<Rightarrow> redacted_output \<Rightarrow> bytes list \<Rightarrow> bytes \<Rightarrow> bool" where
  "streamed secret ro pieces input \<longleftrightarrow> ro_secret ro = secret \<and>
     (\<forall>x. redact_all secret (input @ x) = concat pieces @ ro_utf8 ro @ redact_all secret (ro_pending ro @ x))"

lemma push_streamed:
  assumes "secret \<noteq> []" "streamed secret ro pieces input" "redacted_push new False ro = (emitted, ro')"
  shows "\<exists>more_pieces. emitted = map utf8_lossy more_pieces \<and> streamed secret ro' (pieces @ more_pieces) (input @ new)"
proof -
  obtain out rest where r: "redact_pending secret False (ro_pending ro @ new) = (out, rest)" by fastforce
  let ?utf8 = "ro_utf8 ro @ out"
  let ?count = "emit_count False ?utf8"
  have step: "redact_all secret ((input @ new) @ x) = concat pieces @ ?utf8 @ redact_all secret (rest @ x)" for x
    using assms(2) redact_pending_split [OF assms(1) r, of x] by (simp add: streamed_def)
  have secret: "ro_secret ro = secret" using assms(2) by (simp add: streamed_def)
  show ?thesis
  proof (cases "?count = 0")
    case True
    with assms(3) r secret step show ?thesis
      by (intro exI [of _ "[]"]) (auto simp: redacted_push_def streamed_def Let_def)
  next
    case False
    with assms(3) r secret have "emitted = [utf8_lossy (take ?count ?utf8)]" "ro_secret ro' = secret"
      "ro_utf8 ro' = drop ?count ?utf8" "ro_pending ro' = rest"
      by (auto simp: redacted_push_def Let_def)
    note new_state = this
    have "concat (pieces @ [take ?count ?utf8]) @ drop ?count ?utf8 = concat pieces @ ?utf8"
      by (simp only: concat_append concat.simps append_Nil2 append.assoc append_take_drop_id)
    then have "streamed secret ro' (pieces @ [take ?count ?utf8]) (input @ new)"
      unfolding streamed_def new_state using step by (metis append.assoc)
    with new_state(1) show ?thesis by (intro exI [of _ "[take ?count ?utf8]"]) simp
  qed
qed

lemma push_finish:
  assumes "secret \<noteq> []" "streamed secret ro pieces input" "redacted_push [] True ro = (emitted, ro')"
  shows "\<exists>more_pieces. emitted = map utf8_lossy more_pieces \<and> concat (pieces @ more_pieces) = redact_all secret input"
proof -
  have secret: "ro_secret ro = secret" using assms(2) by (simp add: streamed_def)
  let ?utf8 = "ro_utf8 ro @ redact_all secret (ro_pending ro)"
  have all: "emit_count True ?utf8 = length ?utf8"
    by (simp add: emit_count_def split: utf8_verdict.split option.split)
  have total: "redact_all secret input = concat pieces @ ?utf8"
    using assms(2) by (simp add: streamed_def) (metis append.right_neutral)
  have emitted: "emitted = (if ?utf8 = [] then [] else [utf8_lossy ?utf8])"
    using assms(3) all by (auto simp: redacted_push_def Let_def secret redact_pending_finish [OF assms(1)] split: if_splits)
  show ?thesis
  proof (cases "?utf8 = []")
    case True
    with emitted total show ?thesis by (intro exI [of _ "[]"]) auto
  next
    case False
    with emitted total show ?thesis by (intro exI [of _ "[?utf8]"]) auto
  qed
qed

lemma push_all_append:
  "push_all (a @ b) ro = (case push_all a ro of (c1, ro1) \<Rightarrow> case push_all b ro1 of (c2, ro2) \<Rightarrow> (c1 @ c2, ro2))"
  by (induction a ro rule: push_all.induct) (auto split: prod.splits)

lemma pushes_streamed:
  assumes "secret \<noteq> []" "streamed secret ro pieces input" "push_all (map (\<lambda>p. (p, False)) parts) ro = (emitted, ro')"
  shows "\<exists>more_pieces. emitted = map utf8_lossy more_pieces \<and> streamed secret ro' (pieces @ more_pieces) (input @ concat parts)"
  using assms(2,3)
proof (induction parts arbitrary: ro pieces input emitted)
  case Nil
  then show ?case by (intro exI [of _ "[]"]) auto
next
  case (Cons p parts)
  obtain e1 ro1 where one: "redacted_push p False ro = (e1, ro1)" by fastforce
  obtain e2 where two: "push_all (map (\<lambda>p. (p, False)) parts) ro1 = (e2, ro')" and e: "emitted = e1 @ e2"
    using Cons.prems(2) one by (auto split: prod.splits)
  from push_streamed [OF assms(1) Cons.prems(1) one] obtain m1 where m1: "e1 = map utf8_lossy m1"
    "streamed secret ro1 (pieces @ m1) (input @ p)" by blast
  from Cons.IH [OF m1(2) two] obtain m2 where "e2 = map utf8_lossy m2"
    "streamed secret ro' ((pieces @ m1) @ m2) ((input @ p) @ concat parts)" by blast
  with m1(1) e show ?case by (intro exI [of _ "m1 @ m2"]) simp
qed

lemma streamed_new: "streamed secret (redacted_new secret) [] []"
  by (simp add: streamed_def redacted_new_def)

text \<open>However the output of a command is cut into reads, what is decoded is the redacted whole.\<close>

lemma writes_pieces:
  assumes "secret \<noteq> []" "push_all (writes parts) (redacted_new secret) = (emitted, ro)"
  shows "\<exists>pieces. emitted = map utf8_lossy pieces \<and> concat pieces = redact_all secret (concat parts)"
proof -
  obtain e1 ro1 where one: "push_all (map (\<lambda>p. (p, False)) parts) (redacted_new secret) = (e1, ro1)" by fastforce
  from pushes_streamed [OF assms(1) streamed_new one] obtain m1 where m1: "e1 = map utf8_lossy m1"
    "streamed secret ro1 m1 (concat parts)" by auto
  obtain e2 where two: "redacted_push [] True ro1 = (e2, ro)" and "emitted = e1 @ e2"
    using assms(2) one by (auto simp: writes_def push_all_append split: prod.splits)
  from push_finish [OF assms(1) m1(2) two] obtain m2 where "e2 = map utf8_lossy m2"
    "concat (m1 @ m2) = redact_all secret (concat parts)" by blast
  with m1(1) \<open>emitted = e1 @ e2\<close> show ?thesis by (intro exI [of _ "m1 @ m2"]) simp
qed

section \<open>Secrecy\<close>

text \<open>The secret neither contains the marker nor overlaps with it.\<close>

definition clear_of :: "bytes \<Rightarrow> bytes \<Rightarrow> bool" where
  "clear_of marker secret \<longleftrightarrow> \<not> contains_sub marker secret \<and> \<not> contains_sub secret marker \<and>
     (\<forall>k \<in> {1..<length marker}. \<not> ends_with (take k marker) secret \<and> \<not> starts_with (drop k marker) secret)"

lemma contains_sub_iff: "contains_sub p s \<longleftrightarrow> (\<exists>u v. s = u @ p @ v)"
  using find_sub_None [of p s] by (auto simp: contains_sub_def)

lemma clear_join:
  assumes "clear_of m s" "s \<noteq> []" "m \<noteq> []" "\<not> contains_sub s x" "\<not> contains_sub s y"
  shows "\<not> contains_sub s (x @ m @ y)"
proof
  assume "contains_sub s (x @ m @ y)"
  then obtain u v where eq: "x @ m @ y = u @ s @ v" by (auto simp: contains_sub_iff)
  have over: False if a: "m @ y = r @ v" and s: "s = q @ r" "r \<noteq> []" for q r
  proof (cases "length r < length m")
    case True
    with a have "r = take (length r) m" by (metis append_eq_append_conv_if append_eq_conv_conj less_imp_le_nat)
    with s have "ends_with (take (length r) m) s" by (simp add: ends_with_def starts_with_iff_prefix)
    moreover have "length r \<in> {1..<length m}" using True s by (cases r) auto
    ultimately show False using assms(1) by (auto simp: clear_of_def)
  next
    case False
    with a obtain w where "r = m @ w" by (metis append_eq_append_conv_if append_eq_conv_conj not_less)
    with s assms(1) show False by (auto simp: clear_of_def contains_sub_iff)
  qed
  consider r where "x = u @ r" "r @ m @ y = s @ v" | r where "u = x @ r" "m @ y = r @ s @ v"
    using iffD1 [OF append_eq_append_conv2 eq] by blast
  then show False
  proof cases
    case 1
    show ?thesis
    proof (cases "length r \<ge> length s")
      case True
      with 1(2) obtain w where "r = s @ w" by (metis append_eq_append_conv_if append_eq_conv_conj)
      with 1(1) assms(4) show False by (auto simp: contains_sub_iff)
    next
      case False
      with 1(2) obtain w where w: "s = r @ w" by (metis append_eq_append_conv_if append_eq_conv_conj not_less nat_le_linear)
      with 1(2) False have "m @ y = w @ v" "w \<noteq> []" by auto
      with over [of w r] w show False by blast
    qed
  next
    case 2
    show ?thesis
    proof (cases "length r \<ge> length m")
      case True
      with 2(2) obtain w where "r = m @ w" by (metis append_eq_append_conv_if append_eq_conv_conj)
      with 2(2) assms(5) show False by (auto simp: contains_sub_iff)
    next
      case False
      with 2(2) obtain w where w: "m = r @ w" "w \<noteq> []" by (metis append_eq_append_conv_if append_eq_conv_conj
            append_Nil2 nat_le_linear order_refl)
      with 2(2) have eq2: "w @ y = s @ v" by simp
      show False
      proof (cases "r = []")
        case True
        with 2(2) over [of s "[]"] assms(2) show False by simp
      next
        case ne: False
        show False
        proof (cases "length s \<le> length w")
          case True
          with eq2 obtain z where "w = s @ z" by (metis append_eq_append_conv_if append_eq_conv_conj)
          with w assms(1) show False by (auto simp: clear_of_def contains_sub_iff)
        next
          case False
          with eq2 obtain z where "s = w @ z" by (metis append_eq_append_conv_if append_eq_conv_conj nat_le_linear)
          with w have "starts_with (drop (length r) m) s" by (simp add: starts_with_iff_prefix)
          moreover have "length r \<in> {1..<length m}" using w ne by (cases r; cases w) auto
          ultimately show False using assms(1) by (auto simp: clear_of_def)
        qed
      qed
    qed
  qed
qed

lemma redact_all_secret_free:
  assumes "clear_of MARKER secret" "secret \<noteq> []"
  shows "\<not> contains_sub secret (redact_all secret s)"
  using assms
proof (induction secret s rule: redact_all.induct)
  case (1 secret s)
  show ?case
  proof (cases "find_sub secret s")
    case None
    then show ?thesis by (simp add: redact_all_clean contains_sub_def)
  next
    case (Some i)
    have "\<not> contains_sub secret (take i s)"
    proof
      assume "contains_sub secret (take i s)"
      then obtain u v where uv: "take i s = u @ secret @ v" by (auto simp: contains_sub_iff)
      then have s: "s = u @ secret @ v @ drop i s" by (metis append.assoc append_take_drop_id)
      have "length (take i s) \<le> i" by simp
      with uv 1(3) have "length u < i" by (cases secret) auto
      moreover from s have "take (length secret) (drop (length u) s) = secret" "length u \<le> length s"
        by (metis append_eq_conv_conj, metis le_add1 length_append)
      with find_sub_least [of secret "length u" s] Some have "i \<le> length u" by auto
      ultimately show False by simp
    qed
    from clear_join [OF 1(2,3) _ this] 1(1) [OF _ 1(2,3)] Some 1(3) redact_all_hit [OF 1(3) Some]
    show ?thesis by (simp add: MARKER_def lit_def)
  qed
qed

lemma faithful_pieces: "ascii_faithful (concat pieces) (concat (map utf8_lossy pieces))"
  by (induction pieces) (auto intro: ascii_faithful.empty ascii_faithful_append utf8_lossy_faithful)

section \<open>Exactness\<close>

definition exact :: "bytes \<Rightarrow> redacted_output \<Rightarrow> str \<Rightarrow> bytes \<Rightarrow> bool" where
  "exact secret ro sent input \<longleftrightarrow> ro_secret ro = secret \<and>
     (\<forall>x. utf8_scan 0 (redact_all secret (input @ x)) = Valid \<longrightarrow>
        utf8_lossy (redact_all secret (input @ x)) = sent @ utf8_lossy (ro_utf8 ro @ redact_all secret (ro_pending ro @ x)) \<and>
        utf8_scan 0 (ro_utf8 ro @ redact_all secret (ro_pending ro @ x)) = Valid) \<and>
     utf8_len (ro_captured ro) \<le> CAPTURE_BYTES \<and>
     (utf8_len sent \<le> CAPTURE_BYTES \<longrightarrow> ro_captured ro = sent)"

lemma take_bytes_len: "utf8_len (take_bytes n s) \<le> n"
  by (induction n s rule: take_bytes.induct) (auto simp: utf8_len_def)

lemma take_bytes_all: "utf8_len s \<le> n \<Longrightarrow> take_bytes n s = s"
  by (induction n s rule: take_bytes.induct) (auto simp: utf8_len_def)

lemma capture_step:
  assumes "utf8_len captured \<le> CAPTURE_BYTES" "utf8_len sent \<le> CAPTURE_BYTES \<longrightarrow> captured = sent"
  shows "utf8_len (captured @ take_bytes (CAPTURE_BYTES - utf8_len captured) chunk) \<le> CAPTURE_BYTES \<and>
    (utf8_len (sent @ chunk) \<le> CAPTURE_BYTES \<longrightarrow>
       captured @ take_bytes (CAPTURE_BYTES - utf8_len captured) chunk = sent @ chunk)"
  using assms take_bytes_len [of "CAPTURE_BYTES - utf8_len captured" chunk]
    take_bytes_all [of chunk "CAPTURE_BYTES - utf8_len captured"] by auto

lemma emit_cut:
  assumes "utf8_scan 0 (s @ t) = Valid" "finish \<longrightarrow> t = []"
  shows "let n = emit_count finish s in
     utf8_lossy (s @ t) = utf8_lossy (take n s) @ utf8_lossy (drop n s @ t) \<and> utf8_scan 0 (drop n s @ t) = Valid"
proof (cases "utf8_scan 0 s")
  case Valid
  with utf8_valid_cut [OF assms(1)] show ?thesis by (simp add: emit_count_def)
next
  case (Broken n e)
  with utf8_valid_cut [OF assms(1)] have "e = None" by (cases e) simp_all
  show ?thesis
  proof (cases finish)
    case True
    with assms have "utf8_scan 0 s = Valid" by simp
    with Broken show ?thesis by simp
  next
    case False
    with utf8_valid_cut [OF assms(1)] Broken \<open>e = None\<close> show ?thesis by (simp add: emit_count_def Let_def)
  qed
qed

lemma push_exact:
  assumes "secret \<noteq> []" "exact secret ro sent input" "redacted_push new finish ro = (emitted, ro')"
    and "finish \<longrightarrow> new = []"
  shows "if finish
    then (utf8_scan 0 (redact_all secret input) = Valid \<longrightarrow> sent @ concat emitted = utf8_lossy (redact_all secret input)) \<and>
      utf8_len (ro_captured ro') \<le> CAPTURE_BYTES \<and>
      (utf8_len (sent @ concat emitted) \<le> CAPTURE_BYTES \<longrightarrow> ro_captured ro' = sent @ concat emitted)
    else exact secret ro' (sent @ concat emitted) (input @ new)"
proof -
  obtain out rest where r: "redact_pending secret finish (ro_pending ro @ new) = (out, rest)" by fastforce
  let ?utf8 = "ro_utf8 ro @ out"
  let ?n = "emit_count finish ?utf8"
  have secret: "ro_secret ro = secret" using assms(2) by (simp add: exact_def)
  have emitted: "concat emitted = utf8_lossy (take ?n ?utf8)"
    and pend: "ro_pending ro' = rest" "ro_utf8 ro' = drop ?n ?utf8" "ro_secret ro' = secret"
    using assms(3) r secret by (auto simp: redacted_push_def Let_def split: if_splits)
  have captured: "ro_captured ro' = (if ?n = 0 then ro_captured ro
      else ro_captured ro @ take_bytes (CAPTURE_BYTES - utf8_len (ro_captured ro)) (utf8_lossy (take ?n ?utf8)))"
    using assms(3) r secret by (auto simp: redacted_push_def Let_def split: if_splits)
  have "utf8_len (ro_captured ro) \<le> CAPTURE_BYTES" "utf8_len sent \<le> CAPTURE_BYTES \<longrightarrow> ro_captured ro = sent"
    using assms(2) by (simp_all add: exact_def)
  note cap = capture_step [OF this, of "utf8_lossy (take ?n ?utf8)"]
  have capture: "utf8_len (ro_captured ro') \<le> CAPTURE_BYTES \<and>
      (utf8_len (sent @ concat emitted) \<le> CAPTURE_BYTES \<longrightarrow> ro_captured ro' = sent @ concat emitted)"
  proof (cases "?n = 0")
    case True
    with assms(2) emitted captured show ?thesis by (simp add: exact_def)
  next
    case False
    show ?thesis unfolding captured emitted if_not_P [OF False] by (rule cap)
  qed
  show ?thesis
  proof (cases finish)
    case True
    with r assms(1,4) redact_pending_finish [OF assms(1)] have out: "out = redact_all secret (ro_pending ro)" by simp
    have "sent @ concat emitted = utf8_lossy (redact_all secret input)" if "utf8_scan 0 (redact_all secret input) = Valid"
    proof -
      have "utf8_lossy (redact_all secret input) = sent @ utf8_lossy ?utf8 \<and> utf8_scan 0 ?utf8 = Valid"
        using assms(2) that unfolding exact_def out by (metis append_Nil2)
      moreover have "?n = length ?utf8"
        using True by (simp add: emit_count_def split: utf8_verdict.split option.split)
      ultimately show ?thesis using emitted by simp
    qed
    with capture True show ?thesis by simp
  next
    case False
    have "utf8_lossy (redact_all secret ((input @ new) @ x)) =
        (sent @ concat emitted) @ utf8_lossy (ro_utf8 ro' @ redact_all secret (ro_pending ro' @ x)) \<and>
        utf8_scan 0 (ro_utf8 ro' @ redact_all secret (ro_pending ro' @ x)) = Valid"
      if "utf8_scan 0 (redact_all secret ((input @ new) @ x)) = Valid" for x
    proof -
      have "redact_all secret (ro_pending ro @ new @ x) = out @ redact_all secret (rest @ x)"
        using redact_pending_split [OF assms(1), of "ro_pending ro @ new" out rest x] r False by simp
      moreover have "utf8_lossy (redact_all secret (input @ new @ x)) = sent @ utf8_lossy (ro_utf8 ro @ redact_all secret (ro_pending ro @ new @ x)) \<and>
          utf8_scan 0 (ro_utf8 ro @ redact_all secret (ro_pending ro @ new @ x)) = Valid"
        using assms(2) that unfolding exact_def by simp
      ultimately show ?thesis
        using emit_cut [of ?utf8 "redact_all secret (rest @ x)" finish] False pend emitted by (simp add: Let_def)
    qed
    with capture False pend show ?thesis by (simp add: exact_def)
  qed
qed

lemma pushes_exact:
  assumes "secret \<noteq> []" "exact secret ro sent input" "push_all (map (\<lambda>p. (p, False)) parts) ro = (emitted, ro')"
  shows "exact secret ro' (sent @ concat emitted) (input @ concat parts)"
  using assms(2,3)
proof (induction parts arbitrary: ro sent input emitted)
  case (Cons p parts)
  obtain e1 ro1 where one: "redacted_push p False ro = (e1, ro1)" by fastforce
  obtain e2 where two: "push_all (map (\<lambda>p. (p, False)) parts) ro1 = (e2, ro')" and e: "emitted = e1 @ e2"
    using Cons.prems(2) one by (auto split: prod.splits)
  from push_exact [OF assms(1) Cons.prems(1) one] have "exact secret ro1 (sent @ concat e1) (input @ p)" by simp
  from Cons.IH [OF this two] e show ?case by simp
qed simp

lemma exact_new: "exact secret (redacted_new secret) [] []"
  by (simp add: exact_def redacted_new_def utf8_len_def CAPTURE_BYTES_def)

text \<open>The last step of a stream finds it exact up to there.\<close>

lemma writes_end:
  assumes "secret \<noteq> []" "push_all (writes parts) (redacted_new secret) = (emitted, ro)"
  obtains e1 ro1 e2 where "exact secret ro1 (concat e1) (concat parts)" "redacted_push [] True ro1 = (e2, ro)"
    "emitted = e1 @ e2"
proof -
  obtain e1 ro1 where one: "push_all (map (\<lambda>p. (p, False)) parts) (redacted_new secret) = (e1, ro1)" by fastforce
  obtain e2 where "redacted_push [] True ro1 = (e2, ro)" "emitted = e1 @ e2"
    using assms(2) one by (auto simp: writes_def push_all_append split: prod.splits)
  moreover from pushes_exact [OF assms(1) exact_new one] have "exact secret ro1 (concat e1) (concat parts)" by simp
  ultimately show thesis by (rule that [rotated])
qed

text \<open>C13: the connection URL of a session, which is a credential, is never printed. However the
  output of the browser controller is cut into reads, and whatever bytes it consists of, the text
  that is passed on nowhere contains the URL, and neither does the captured text as long as all the
  output fits into it; provided the URL is ASCII text that does not overlap with the marker put in its
  place.\<close>

theorem secret_never_printed:
  assumes "list_all (\<lambda>b. b < 128) secret" "secret \<noteq> []" "clear_of MARKER secret"
    and "push_all (writes parts) (redacted_new secret) = (emitted, ro)"
  shows "\<not> contains_sub secret (concat emitted) \<and>
    (utf8_len (concat emitted) \<le> CAPTURE_BYTES \<longrightarrow> \<not> contains_sub secret (ro_captured ro))"
proof -
  have "\<not> contains_sub secret (concat emitted)"
  proof
    assume "contains_sub secret (concat emitted)"
    moreover obtain pieces where pieces: "emitted = map utf8_lossy pieces" "concat pieces = redact_all secret (concat parts)"
      using writes_pieces [OF assms(2,4)] by blast
    ultimately have "\<exists>x y. concat pieces = x @ secret @ y"
      using ascii_faithful_sub [OF _ assms(1)] faithful_pieces [of pieces] by (auto simp: contains_sub_iff)
    with pieces(2) redact_all_secret_free [OF assms(3,2)] show False by (simp add: contains_sub_iff)
  qed
  moreover obtain e1 ro1 e2 where "exact secret ro1 (concat e1) (concat parts)" "redacted_push [] True ro1 = (e2, ro)"
    "emitted = e1 @ e2" by (rule writes_end [OF assms(2,4)])
  with push_exact [OF assms(2) this(1,2)] have "utf8_len (concat emitted) \<le> CAPTURE_BYTES \<longrightarrow> ro_captured ro = concat emitted"
    by simp
  ultimately show ?thesis by auto
qed

definition sample_cdp :: bytes where "sample_cdp = lit ''wss://h/t''"

theorem secret_never_printed_witness:
  "\<exists>emitted ro. push_all (writes [lit ''a wss:'', lit ''//h/t b'']) (redacted_new sample_cdp) = (emitted, ro) \<and>
     \<not> contains_sub sample_cdp (concat emitted) \<and> \<not> contains_sub sample_cdp (ro_captured ro)"
proof -
  obtain emitted ro where run: "push_all (writes [lit ''a wss:'', lit ''//h/t b'']) (redacted_new sample_cdp) = (emitted, ro)"
    by fastforce
  have "list_all (\<lambda>b. b < 128) sample_cdp" "sample_cdp \<noteq> []" "clear_of MARKER sample_cdp" by code_simp+
  note printed = secret_never_printed [OF this run]
  have valid: "utf8_scan 0 (redact_all sample_cdp (concat [lit ''a wss:'', lit ''//h/t b''])) = Valid"
    "utf8_len (utf8_lossy (redact_all sample_cdp (concat [lit ''a wss:'', lit ''//h/t b'']))) = 14" by code_simp+
  obtain e1 ro1 e2 where "exact sample_cdp ro1 (concat e1) (concat [lit ''a wss:'', lit ''//h/t b''])"
    "redacted_push [] True ro1 = (e2, ro)" "emitted = e1 @ e2"
    by (rule writes_end [OF \<open>sample_cdp \<noteq> []\<close> run])
  with push_exact [OF \<open>sample_cdp \<noteq> []\<close> this(1,2)] valid
  have "utf8_len (concat emitted) \<le> CAPTURE_BYTES" by (simp add: CAPTURE_BYTES_def)
  with printed run show ?thesis by blast
qed

text \<open>C39: redaction does not depend on how the output arrives. When the redacted output is valid UTF-8,
  the chunks that are passed on are together exactly its text --- every leftmost occurrence of the
  connection URL replaced by the marker, also those cut by reads, and no character torn --- and the
  captured text, of at most 65536 bytes, is all of what was passed on as long as that fits.\<close>

theorem redaction_streams:
  assumes "secret \<noteq> []" "push_all (writes parts) (redacted_new secret) = (emitted, ro)"
  shows "(utf8_scan 0 (redact_all secret (concat parts)) = Valid \<longrightarrow>
      concat emitted = utf8_lossy (redact_all secret (concat parts))) \<and>
    utf8_len (ro_captured ro) \<le> CAPTURE_BYTES \<and>
    (utf8_len (concat emitted) \<le> CAPTURE_BYTES \<longrightarrow> ro_captured ro = concat emitted)"
proof -
  obtain e1 ro1 e2 where "exact secret ro1 (concat e1) (concat parts)" "redacted_push [] True ro1 = (e2, ro)"
    "emitted = e1 @ e2" by (rule writes_end [OF assms])
  with push_exact [OF assms(1) this(1,2)] show ?thesis by simp
qed

theorem redaction_streams_witness:
  "concat (fst (push_all (writes [lit ''a wss:'', lit ''//h/t '' @ [195], [169]]) (redacted_new sample_cdp))) =
     lit ''a [REDACTED] '' @ [233]"
proof -
  let ?parts = "[lit ''a wss:'', lit ''//h/t '' @ [195], [169]]"
  obtain emitted ro where run: "push_all (writes ?parts) (redacted_new sample_cdp) = (emitted, ro)" by fastforce
  have "sample_cdp \<noteq> []" by code_simp
  moreover have "utf8_scan 0 (redact_all sample_cdp (concat ?parts)) = Valid" by code_simp
  moreover have "utf8_lossy (redact_all sample_cdp (concat ?parts)) = lit ''a [REDACTED] '' @ [233]" by code_simp
  ultimately show ?thesis using redaction_streams [OF _ run] run by simp
qed

text \<open>Near its limit the captured text is not a prefix of the output: a character that no longer fits is
  left out, but a later, narrower one is appended.\<close>

lemma capture_skips_characters:
  assumes "ro_secret ro = sample_cdp" "ro_pending ro = []" "ro_utf8 ro = []" "utf8_len (ro_captured ro) = 65535"
  shows "\<exists>ro'. push_all [([195, 169], False), ([120], False)] ro = ([[233], [120]], ro') \<and>
    ro_captured ro' = ro_captured ro @ [120]"
proof -
  have clean: "redact_pending sample_cdp False [195, 169] = ([195, 169], [])" "redact_pending sample_cdp False [120] = ([120], [])"
    "emit_count False [195, 169] = 2" "emit_count False [120] = Suc 0" "utf8_lossy [195, 169] = [233]" "utf8_lossy [120] = [120]"
    by code_simp+
  then show ?thesis
    using assms by (simp add: redacted_push_def Let_def CAPTURE_BYTES_def utf8_width_def)
qed

text \<open>So beyond the limit the captured text may hold the URL although the output does not: here the
  output has a wide character in the middle of it.\<close>

lemma capture_assembles_secret:
  assumes "ro_secret ro = sample_cdp" "ro_pending ro = []" "ro_utf8 ro = []" "utf8_len (ro_captured ro) = 65527"
  shows "\<exists>ro'. push_all [(lit ''wss://h/'' @ [195, 169], False), ([116], False)] ro = ([lit ''wss://h/'' @ [233], [116]], ro') \<and>
    ro_captured ro' = ro_captured ro @ sample_cdp"
proof -
  have clean: "redact_pending sample_cdp False (lit ''wss://h/'' @ [195, 169]) = (lit ''wss://h/'' @ [195, 169], [])"
    "redact_pending sample_cdp False [116] = ([116], [])"
    "emit_count False (lit ''wss://h/'' @ [195, 169]) = 10" "emit_count False [116] = Suc 0"
    "utf8_lossy (lit ''wss://h/'' @ [195, 169]) = lit ''wss://h/'' @ [233]" "utf8_lossy [116] = [116]"
    "length (lit ''wss://h/'') = 8" "take_bytes 9 (lit ''wss://h/'' @ [233]) = lit ''wss://h/''" "utf8_len (lit ''wss://h/'') = 8"
    "sample_cdp = lit ''wss://h/'' @ [116]"
    by code_simp+
  have len: "utf8_len (a @ b) = utf8_len a + utf8_len b" for a b by (simp add: utf8_len_def)
  show ?thesis
    using assms clean by (simp add: redacted_push_def Let_def CAPTURE_BYTES_def utf8_width_def len)
qed

end
