(* ===== verification/SB_Client.thy ===== *)
theory SB_Client
  imports SB_Saga SB_Redact
begin

text \<open>
  The client library (\<open>src/crates/client/src\<close>): credentials (\<open>auth.rs\<close>), the transport with its one
  recovery of a rejected credential (\<open>transport.rs\<close>), the public methods with the requests they send
  and the answers they accept (\<open>api.rs\<close>), and the check of a connection (\<open>controller.rs\<close>). The
  network is a parameter: a function from requests to answers over a state of its own.
\<close>

section \<open>Credentials and requests\<close>

datatype client_error =
    CLocal str
  | CTransport str
  | CApi str str "field_error list" "(str \<times> str) list" "str option" "nat option"
  | CProtocol str

text \<open>\<open>Auth::new\<close>: the token without surrounding whitespace.\<close>

definition auth_new :: "str \<Rightarrow> client_error + str" where
  "auth_new token =
     (let t = trim token in
      if t = [] \<or> utf8_len t > 16 * 1024 \<or> list_ex (\<lambda>c. is_whitespace c \<or> is_control c) t
      then Inl (CLocal (lit ''auth token must be one bounded, non-empty value without whitespace or controls''))
      else Inr t)"

datatype http_method = MGet | MPost | MPatch

text \<open>The body stands for the JSON value of a request.\<close>

record 'j client_request =
  rq_method :: http_method
  rq_url :: str
  rq_bearer :: "str option"
  rq_body :: "'j option"
  rq_idempotency_key :: "str option"

text \<open>What the transport reads of a response: its status, the mark of a rejected credential, the body.\<close>

record client_response =
  hr_status :: nat
  hr_auth_rejected :: "str option"
  hr_body :: bytes

section \<open>The transport\<close>

record recovered_credential =
  rc_original :: str
  rc_replacement :: str
  rc_origin :: str

text \<open>
  The world of a transport: \<open>perform\<close> sends a request over the network, \<open>recover\<close> is the callback
  of the caller, if there is one, and \<open>origin\<close> is the serialized origin of a URL, if it parses. The
  first component of the state is \<open>recovered\<close>, the credential that the callback has returned.
\<close>

record ('j, 'w) transport_api =
  tp_origin :: "str \<Rightarrow> str option"
  tp_perform :: "'j client_request \<Rightarrow> 'w \<Rightarrow> (client_error + client_response) \<times> 'w"
  tp_recover :: "('j client_request \<Rightarrow> 'w \<Rightarrow> (client_error + str option) \<times> 'w) option"

definition substitute ::
  "recovered_credential option \<Rightarrow> str \<Rightarrow> 'j client_request \<Rightarrow> 'j client_request" where
  "substitute recovered origin request =
     (case recovered of
        Some rc \<Rightarrow>
          if rq_bearer request = Some (rc_original rc) \<and> origin = rc_origin rc
          then request\<lparr>rq_bearer := Some (rc_replacement rc)\<rparr> else request
      | None \<Rightarrow> request)"

definition response_with_recovery ::
  "('j, 'w) transport_api \<Rightarrow> 'j client_request \<Rightarrow> recovered_credential option \<times> 'w \<Rightarrow>
     (client_error + client_response) \<times> (recovered_credential option \<times> 'w)" where
  "response_with_recovery tp request = (\<lambda>(recovered, w).
     case tp_origin tp (rq_url request) of
       None \<Rightarrow> (Inl (CLocal (lit ''invalid request URL'')), (recovered, w))
     | Some origin \<Rightarrow>
         let original = rq_bearer request;
             request = substitute recovered origin request
         in case tp_perform tp request w of
              (Inl e, w1) \<Rightarrow> (Inl e, (recovered, w1))
            | (Inr response, w1) \<Rightarrow>
                (case (if hr_status response = 401 \<and> hr_auth_rejected response = Some (lit ''1'') \<and> rq_bearer request \<noteq> None
                       then tp_recover tp else None) of
                   None \<Rightarrow> (Inr response, (recovered, w1))
                 | Some recover \<Rightarrow>
                     (case recover request w1 of
                        (Inl e, w2) \<Rightarrow> (Inl e, (recovered, w2))
                      | (Inr None, w2) \<Rightarrow> (Inr response, (recovered, w2))
                      | (Inr (Some token), w2) \<Rightarrow>
                          (case auth_new token of
                             Inl e \<Rightarrow> (Inl e, (recovered, w2))
                           | Inr _ \<Rightarrow>
                               (case tp_perform tp (request\<lparr>rq_bearer := Some token\<rparr>) w2 of
                                  (r, w3) \<Rightarrow>
                                    (r, (Some \<lparr>rc_original = the original, rc_replacement = token, rc_origin = origin\<rparr>, w3)))))))"

text \<open>A transport that writes down the requests it performs, and the credentials the callback returns.\<close>

definition logged ::
  "('j, 'w) transport_api \<Rightarrow> ('j, 'w \<times> 'j client_request list \<times> ('j client_request \<times> str) list) transport_api" where
  "logged tp =
     \<lparr>tp_origin = tp_origin tp,
      tp_perform = (\<lambda>r (w, sent, got). case tp_perform tp r w of (x, w') \<Rightarrow> (x, (w', sent @ [r], got))),
      tp_recover = map_option (\<lambda>recover r (w, sent, got). case recover r w of
        (Inr (Some token), w') \<Rightarrow> (Inr (Some token), (w', sent, got @ [(r, token)]))
      | (x, w') \<Rightarrow> (x, (w', sent, got))) (tp_recover tp)\<rparr>"

fun send_all ::
  "('j, 'w) transport_api \<Rightarrow> 'j client_request list \<Rightarrow> recovered_credential option \<times> 'w \<Rightarrow>
     (client_error + client_response) list \<times> (recovered_credential option \<times> 'w)" where
  "send_all tp [] s = ([], s)"
| "send_all tp (r # rs) s =
     (case response_with_recovery tp r s of (x, s1) \<Rightarrow>
      case send_all tp rs s1 of (xs, s2) \<Rightarrow> (x # xs, s2))"

text \<open>A bearer of a request: its own, or one that the callback has returned for a request with that
  bearer to that origin.\<close>

definition confined ::
  "('j, 'w) transport_api \<Rightarrow> 'j client_request set \<Rightarrow> ('j client_request \<times> str) list \<Rightarrow> 'j client_request \<Rightarrow> str option \<Rightarrow> bool" where
  "confined tp asked got rq used \<longleftrightarrow> used = rq_bearer rq \<or>
     (\<exists>rq'\<in>asked. rq_bearer rq' = rq_bearer rq \<and> rq_bearer rq \<noteq> None \<and> tp_origin tp (rq_url rq') = tp_origin tp (rq_url rq) \<and>
        (\<exists>b token. (rq'\<lparr>rq_bearer := b\<rparr>, token) \<in> set got \<and> used = Some token))"

definition sent_confined ::
  "('j, 'w) transport_api \<Rightarrow> 'j client_request set \<Rightarrow> ('j client_request \<times> str) list \<Rightarrow> 'j client_request \<Rightarrow> bool" where
  "sent_confined tp asked got r \<longleftrightarrow> (\<exists>rq\<in>asked. r = rq\<lparr>rq_bearer := rq_bearer r\<rparr> \<and> confined tp asked got rq (rq_bearer r))"

definition recovered_from ::
  "('j, 'w) transport_api \<Rightarrow> 'j client_request set \<Rightarrow> ('j client_request \<times> str) list \<Rightarrow> recovered_credential option \<Rightarrow> bool" where
  "recovered_from tp asked got recovered \<longleftrightarrow>
     (\<forall>rc. recovered = Some rc \<longrightarrow> (\<exists>rq\<in>asked. rq_bearer rq = Some (rc_original rc) \<and>
        tp_origin tp (rq_url rq) = Some (rc_origin rc) \<and> (\<exists>b. (rq\<lparr>rq_bearer := b\<rparr>, rc_replacement rc) \<in> set got)))"

lemma confined_mono:
  "confined tp asked got rq b \<Longrightarrow> asked \<subseteq> asked' \<Longrightarrow> set got \<subseteq> set got' \<Longrightarrow> confined tp asked' got' rq b"
  unfolding confined_def by blast

lemma sent_confined_mono:
  "sent_confined tp asked got r \<Longrightarrow> asked \<subseteq> asked' \<Longrightarrow> set got \<subseteq> set got' \<Longrightarrow> sent_confined tp asked' got' r"
  unfolding sent_confined_def using confined_mono by blast

lemma recovered_from_mono:
  "recovered_from tp asked got rc \<Longrightarrow> asked \<subseteq> asked' \<Longrightarrow> set got \<subseteq> set got' \<Longrightarrow> recovered_from tp asked' got' rc"
  unfolding recovered_from_def by blast

lemma substitute_confined:
  assumes "recovered_from tp asked got recovered" "tp_origin tp (rq_url rq) = Some origin"
  shows "confined tp asked got rq (rq_bearer (substitute recovered origin rq)) \<and>
    substitute recovered origin rq = rq\<lparr>rq_bearer := rq_bearer (substitute recovered origin rq)\<rparr>"
  using assms unfolding recovered_from_def confined_def substitute_def
  by (auto split: option.split)

text \<open>One send of the logged transport.\<close>

lemma send_confined:
  assumes run: "response_with_recovery (logged tp) rq (recovered, (w, sent, got)) = (x, (recovered', (w', sent', got')))"
    and orig: "recovered_from tp asked got recovered"
  shows "(\<exists>new. sent' = sent @ new \<and> length new \<le> 2 \<and> (\<forall>r\<in>set new. sent_confined tp (insert rq asked) got' r)) \<and>
    set got \<subseteq> set got' \<and> recovered_from tp (insert rq asked) got' recovered'"
proof (cases "tp_origin tp (rq_url rq)")
  case None
  with run orig show ?thesis
    using recovered_from_mono [OF orig, of "insert rq asked" got] by (auto simp: response_with_recovery_def logged_def)
next
  case (Some origin)
  let ?rq = "substitute recovered origin rq"
  have own: "sent_confined tp (insert rq asked) g ?rq" if "set got \<subseteq> set g" for g
  proof -
    have "confined tp (insert rq asked) g rq (rq_bearer ?rq)"
      by (rule confined_mono [OF _ _ that]) (use substitute_confined [OF orig Some] in auto)
    with substitute_confined [OF orig Some] show ?thesis unfolding sent_confined_def by blast
  qed
  obtain y w1 where first: "tp_perform tp ?rq w = (y, w1)" by fastforce
  have still: "recovered_from tp (insert rq asked) g recovered" if "set got \<subseteq> set g" for g
    using recovered_from_mono [OF orig _ that] by blast
  show ?thesis
  proof (cases y)
    case (Inl e)
    with run first Some own [of got] still [of got] show ?thesis by (auto simp: response_with_recovery_def logged_def)
  next
    case (Inr response)
    show ?thesis
    proof (cases "hr_status response = 401 \<and> hr_auth_rejected response = Some (lit ''1'') \<and> rq_bearer ?rq \<noteq> None \<and> tp_recover tp \<noteq> None")
      case False
      with run first Some Inr own [of got] still [of got] show ?thesis
        by (auto simp: response_with_recovery_def logged_def Let_def split: if_splits option.splits)
    next
      case True
      then obtain recover where recover: "tp_recover tp = Some recover" by blast
      obtain z w2 where second: "recover ?rq w1 = (z, w2)" by fastforce
      from True obtain b where b: "rq_bearer ?rq = Some b" by blast
      then obtain original where original: "rq_bearer rq = Some original"
        by (auto simp: substitute_def split: option.splits if_splits)
      show ?thesis
      proof (cases "\<exists>token t. z = Inr (Some token) \<and> auth_new token = Inr t")
        case False
        with run first second recover Some Inr True own [of got'] still [of got'] show ?thesis
          by (auto simp: response_with_recovery_def logged_def Let_def subset_insertI split: sum.splits option.splits)
      next
        case good: True
        then obtain token t where z: "z = Inr (Some token)" and t: "auth_new token = Inr t" by blast
        obtain u w3 where third: "tp_perform tp (?rq\<lparr>rq_bearer := Some token\<rparr>) w2 = (u, w3)" by fastforce
        from run first second third recover Some Inr True z t original
        have s': "recovered' = Some \<lparr>rc_original = original, rc_replacement = token, rc_origin = origin\<rparr>"
          "sent' = sent @ [?rq, ?rq\<lparr>rq_bearer := Some token\<rparr>]" "got' = got @ [(?rq, token)]"
          by (auto simp: response_with_recovery_def logged_def Let_def)
        have rq: "rq\<lparr>rq_bearer := rq_bearer ?rq\<rparr> = ?rq" using substitute_confined [OF orig Some] by simp
        then have mine: "(rq\<lparr>rq_bearer := rq_bearer ?rq\<rparr>, token) \<in> set got'" using s'(3) by simp
        have "?rq\<lparr>rq_bearer := Some token\<rparr> = rq\<lparr>rq_bearer := Some token\<rparr>" using arg_cong [OF rq, of "rq_bearer_update (\<lambda>_. Some token)"] by simp
        then have again: "sent_confined tp (insert rq asked) got' (?rq\<lparr>rq_bearer := Some token\<rparr>)"
          unfolding sent_confined_def confined_def using mine original by fastforce
        have "recovered_from tp (insert rq asked) got' recovered'"
          unfolding recovered_from_def s'(1) using mine original Some by auto
        with own [of got'] again s' show ?thesis by auto
      qed
    qed
  qed
qed

lemma sends_confined:
  assumes "send_all (logged tp) rqs (recovered, (w, sent, got)) = (xs, (recovered', (w', sent', got')))"
    and "recovered_from tp asked got recovered"
  shows "(\<exists>new. sent' = sent @ new \<and> length new \<le> 2 * length rqs \<and> (\<forall>r\<in>set new. sent_confined tp (asked \<union> set rqs) got' r)) \<and>
    set got \<subseteq> set got' \<and> recovered_from tp (asked \<union> set rqs) got' recovered'"
  using assms
proof (induction rqs arbitrary: recovered w sent got asked xs)
  case (Cons rq rqs)
  obtain x rc1 w1 sent1 got1 where one: "response_with_recovery (logged tp) rq (recovered, (w, sent, got)) = (x, (rc1, (w1, sent1, got1)))"
    by (metis prod_cases3)
  obtain ys where two: "send_all (logged tp) rqs (rc1, (w1, sent1, got1)) = (ys, (recovered', (w', sent', got')))"
    using Cons.prems(1) one by (auto split: prod.splits)
  from send_confined [OF one Cons.prems(2)]
  obtain new1 where new1: "sent1 = sent @ new1" "length new1 \<le> 2" "\<forall>r\<in>set new1. sent_confined tp (insert rq asked) got1 r"
    and got1: "set got \<subseteq> set got1" "recovered_from tp (insert rq asked) got1 rc1" by blast
  from Cons.IH [OF two got1(2)]
  obtain new2 where new2: "sent' = sent1 @ new2" "length new2 \<le> 2 * length rqs"
      "\<forall>r\<in>set new2. sent_confined tp (insert rq asked \<union> set rqs) got' r"
    and got2: "set got1 \<subseteq> set got'" "recovered_from tp (insert rq asked \<union> set rqs) got' recovered'" by blast
  have same: "insert rq asked \<union> set rqs = asked \<union> set (rq # rqs)" by auto
  have "\<forall>r\<in>set new1. sent_confined tp (insert rq asked \<union> set rqs) got' r"
    using new1(3) got2(1) by (blast intro: sent_confined_mono)
  with new2 have "sent' = sent @ (new1 @ new2) \<and> length (new1 @ new2) \<le> 2 * length (rq # rqs) \<and>
      (\<forall>r\<in>set (new1 @ new2). sent_confined tp (insert rq asked \<union> set rqs) got' r)"
    using new1(1,2) by auto
  with got1(1) got2 show ?case unfolding same by blast
qed (auto simp: recovered_from_def)

text \<open>C27: a credential that the recovery callback has returned is used for nothing but requests with
  the bearer it replaces, to the origin it was recovered for. Whatever is sent over one transport and
  however the network and the callback answer, each request that goes out is one that was asked for,
  unchanged but for such a bearer; a request without credentials stays without; and no request goes
  out more than twice.\<close>

theorem recovered_credential_confined:
  assumes "send_all (logged tp) rqs (None, (w, [], [])) = (xs, (recovered, (w', sent, got)))" "r \<in> set sent"
  shows "\<exists>rq\<in>set rqs. r = rq\<lparr>rq_bearer := rq_bearer r\<rparr> \<and>
    (rq_bearer r \<noteq> rq_bearer rq \<longrightarrow> rq_bearer rq \<noteq> None \<and>
      (\<exists>rq'\<in>set rqs. rq_bearer rq' = rq_bearer rq \<and> tp_origin tp (rq_url rq') = tp_origin tp (rq_url rq) \<and>
         (\<exists>b token. (rq'\<lparr>rq_bearer := b\<rparr>, token) \<in> set got \<and> rq_bearer r = Some token))) \<and>
    length sent \<le> 2 * length rqs"
proof -
  have "recovered_from tp {} [] None" by (simp add: recovered_from_def)
  from sends_confined [OF assms(1) this] assms(2) have "sent_confined tp (set rqs) got r" "length sent \<le> 2 * length rqs"
    by auto
  then show ?thesis unfolding sent_confined_def confined_def by blast
qed

definition sample_network :: "(unit, unit) transport_api" where
  "sample_network =
     \<lparr>tp_origin = (\<lambda>_. Some (lit ''https://b'')),
      tp_perform = (\<lambda>r w. (Inr (if rq_bearer r = Some (lit ''old'')
        then \<lparr>hr_status = 401, hr_auth_rejected = Some (lit ''1''), hr_body = []\<rparr>
        else \<lparr>hr_status = 200, hr_auth_rejected = None, hr_body = []\<rparr>), w)),
      tp_recover = Some (\<lambda>r w. (Inr (Some (lit ''new'')), w))\<rparr>"

definition sample_call :: "unit client_request" where
  "sample_call = \<lparr>rq_method = MGet, rq_url = lit ''https://b/x'', rq_bearer = Some (lit ''old''), rq_body = None,
     rq_idempotency_key = None\<rparr>"

theorem recovered_credential_confined_witness:
  "\<exists>xs recovered sent got. send_all (logged sample_network) [sample_call, sample_call] (None, ((), [], [])) =
       (xs, (recovered, ((), sent, got))) \<and>
     map rq_bearer sent = [Some (lit ''old''), Some (lit ''new''), Some (lit ''new'')] \<and>
     (sample_call\<lparr>rq_bearer := Some (lit ''old'')\<rparr>, lit ''new'') \<in> set got"
proof -
  let ?new = "sample_call\<lparr>rq_bearer := Some (lit ''new'')\<rparr>"
  let ?ok = "\<lparr>hr_status = 200, hr_auth_rejected = None, hr_body = []\<rparr>"
  have good: "auth_new (lit ''new'') = Inr (lit ''new'')"
    by (simp add: auth_new_def trim_no_whitespace is_whitespace_def is_control_def utf8_len_def utf8_width_def lit_def)
  have ne: "lit ''new'' \<noteq> lit ''old''" by (simp add: lit_def)
  have run: "send_all (logged sample_network) [sample_call, sample_call] (None, ((), [], [])) =
       ([Inr ?ok, Inr ?ok], (Some \<lparr>rc_original = lit ''old'', rc_replacement = lit ''new'', rc_origin = lit ''https://b''\<rparr>,
         ((), [sample_call, ?new, ?new], [(sample_call, lit ''new'')])))"
    by (simp add: response_with_recovery_def logged_def sample_network_def sample_call_def substitute_def good ne Let_def)
  have own: "rq_bearer sample_call = Some (lit ''old'')" by (simp add: sample_call_def)
  from recovered_credential_confined [OF run, of ?new]
  have "\<exists>b token. (sample_call\<lparr>rq_bearer := b\<rparr>, token) \<in> {(sample_call, lit ''new'')} \<and> Some (lit ''new'') = Some token"
    using own ne by simp
  then have "(sample_call\<lparr>rq_bearer := Some (lit ''old'')\<rparr>, lit ''new'') \<in> {(sample_call, lit ''new'')}"
    by (simp add: sample_call_def)
  with run own show ?thesis by simp
qed

section \<open>The client\<close>

record client =
  cl_base :: str
  cl_auth :: str

text \<open>What the client is linked with: the \<open>uuid\<close> and \<open>url\<close> crates --- the serialization of a parsed
  URL is its \<open>as_str\<close>, and \<open>cv_encode\<close> is \<open>form_urlencoded::byte_serialize\<close>.\<close>

record 'u client_env =
  cv_uuid :: "'u uuid_api"
  cv_parse :: url_parser
  cv_show_url :: "url \<Rightarrow> str"
  cv_encode :: "str \<Rightarrow> str"

definition normalize_backend_url :: "'u client_env \<Rightarrow> str \<Rightarrow> client_error + str" where
  "normalize_backend_url env base =
     (let refused = CLocal (lit ''backend URL must use HTTPS, or HTTP with localhost/loopback for local development'') in
      case cv_parse env base of
        Inl _ \<Rightarrow> Inl refused
      | Inr u \<Rightarrow>
          if (url_scheme u = lit ''https'' \<or> (url_scheme u = lit ''http'' \<and> host_is_loopback u)) \<and>
             url_hostpart u \<noteq> None \<and> url_username u = [] \<and> url_password u = None \<and>
             url_query u = None \<and> url_fragment u = None
          then Inr (trim_end_char 47 (cv_show_url env u)) else Inl refused)"

definition with_transport :: "'u client_env \<Rightarrow> str \<Rightarrow> str \<Rightarrow> client_error + client" where
  "with_transport env base auth =
     tryE (normalize_backend_url env base) (\<lambda>base. Inr \<lparr>cl_base = base, cl_auth = auth\<rparr>)"

definition validate_id :: "str \<Rightarrow> string \<Rightarrow> client_error + unit" where
  "validate_id value field =
     (if value = [] \<or> value = lit ''.'' \<or> value = lit ''..'' \<or>
         list_ex (\<lambda>c. is_control c \<or> is_whitespace c \<or> c = 47 \<or> c = 92) value
      then Inl (CLocal (lit (field @ '' is not a valid identifier''))) else Inr ())"

definition segment :: "'u client_env \<Rightarrow> str \<Rightarrow> client_error + str" where
  "segment env value = tryE (validate_id value ''id'') (\<lambda>_. Inr (cv_encode env value))"

definition with_filter :: "'u client_env \<Rightarrow> str \<Rightarrow> str option \<Rightarrow> str" where
  "with_filter env path chosen =
     (case chosen of
        Some f \<Rightarrow> if trim f \<noteq> [] then path @ lit ''?filter='' @ cv_encode env f else path
      | None \<Rightarrow> path)"

text \<open>The value that is serialized into the body.\<close>

datatype client_body =
    BodyNull
  | BodyProfileCreate profile_create
  | BodyProfileUpdate profile_update
  | BodyNote str
  | BodySessionCreate session_create
  | BodyGrant str
  | BodySearch search_request
  | BodyFetch fetch_request
  | BodyExchange str
  | BodyRefresh str

definition client_request_of ::
  "client \<Rightarrow> http_method \<Rightarrow> str \<Rightarrow> client_body option \<Rightarrow> client_error + client_body client_request" where
  "client_request_of c method path body =
     (if \<not> starts_with (lit ''/'') path then Inl (CLocal (lit ''API path must be absolute''))
      else Inr \<lparr>rq_method = method, rq_url = cl_base c @ path, rq_bearer = Some (cl_auth c), rq_body = body,
        rq_idempotency_key = None\<rparr>)"

definition validation :: "validation_error + unit \<Rightarrow> client_error + unit" where
  "validation r = map_err (\<lambda>e. CLocal (validation_text e)) r"

text \<open>The public methods of a client with their arguments.\<close>

datatype client_call =
    Me
  | Services
  | ProxyLocations
  | Profiles "str option"
  | Profile str
  | CreateProfile profile_create
  | UpdateProfile str profile_update
  | EndProfile str str
  | Sessions "str option"
  | Session str
  | CreateSession session_create
  | EndSession str str
  | Live str
  | RedeemLive str str
  | Connection str
  | Recordings "str option"
  | Recording str
  | TrashRecording str
  | UsageOf str
  | UsageList "str option"
  | UsageLimits
  | Search search_request
  | Fetch fetch_request

definition get_call :: "client \<Rightarrow> str \<Rightarrow> client_error + client_body client_request" where
  "get_call c path = client_request_of c MGet path None"

definition post_call :: "client \<Rightarrow> str \<Rightarrow> client_body \<Rightarrow> client_error + client_body client_request" where
  "post_call c path body = client_request_of c MPost path (Some body)"

definition patch_call :: "client \<Rightarrow> str \<Rightarrow> client_body \<Rightarrow> client_error + client_body client_request" where
  "patch_call c path body = client_request_of c MPatch path (Some body)"

text \<open>The request that each method sends; an invalid argument ends the call before.\<close>

fun prepare_call :: "'u client_env \<Rightarrow> client \<Rightarrow> client_call \<Rightarrow> client_error + client_body client_request" where
  "prepare_call env c Me = get_call c (lit ''/api/v1/me'')"
| "prepare_call env c Services = get_call c (lit ''/api/v1/services'')"
| "prepare_call env c ProxyLocations = get_call c (lit ''/api/v1/proxy-locations'')"
| "prepare_call env c (Profiles f) = get_call c (with_filter env (lit ''/api/v1/profiles'') f)"
| "prepare_call env c (Profile i) =
     tryE (segment env i) (\<lambda>s. get_call c (lit ''/api/v1/profiles/'' @ s))"
| "prepare_call env c (CreateProfile r) =
     tryE (validation (profile_create_validate (cv_uuid env) r)) (\<lambda>_.
       post_call c (lit ''/api/v1/profiles'') (BodyProfileCreate r))"
| "prepare_call env c (UpdateProfile i r) =
     tryE (validation (profile_update_validate (cv_uuid env) r)) (\<lambda>_. tryE (segment env i) (\<lambda>s.
       patch_call c (lit ''/api/v1/profiles/'' @ s) (BodyProfileUpdate r)))"
| "prepare_call env c (EndProfile i note) =
     tryE (validation (profile_end_validate note)) (\<lambda>_. tryE (segment env i) (\<lambda>s.
       post_call c (lit ''/api/v1/profiles/'' @ s @ lit ''/end'') (BodyNote note)))"
| "prepare_call env c (Sessions f) = get_call c (with_filter env (lit ''/api/v1/sessions'') f)"
| "prepare_call env c (Session i) =
     tryE (segment env i) (\<lambda>s. get_call c (lit ''/api/v1/sessions/'' @ s))"
| "prepare_call env c (CreateSession r) =
     tryE (validation (session_create_validate r)) (\<lambda>_. post_call c (lit ''/api/v1/sessions'') (BodySessionCreate r))"
| "prepare_call env c (EndSession i note) =
     tryE (validation (session_end_validate note)) (\<lambda>_. tryE (segment env i) (\<lambda>s.
       post_call c (lit ''/api/v1/sessions/'' @ s @ lit ''/end'') (BodyNote note)))"
| "prepare_call env c (Live i) =
     tryE (segment env i) (\<lambda>s. post_call c (lit ''/api/v1/sessions/'' @ s @ lit ''/live'') BodyNull)"
| "prepare_call env c (RedeemLive i grant) =
     tryE (validation (live_redeem_validate grant)) (\<lambda>_. tryE (segment env i) (\<lambda>s.
       post_call c (lit ''/api/v1/sessions/'' @ s @ lit ''/live/redeem'') (BodyGrant grant)))"
| "prepare_call env c (Connection i) =
     tryE (segment env i) (\<lambda>s. get_call c (lit ''/api/v1/sessions/'' @ s @ lit ''/connection''))"
| "prepare_call env c (Recordings f) = get_call c (with_filter env (lit ''/api/v1/recordings'') f)"
| "prepare_call env c (Recording i) =
     tryE (segment env i) (\<lambda>s. get_call c (lit ''/api/v1/recordings/'' @ s))"
| "prepare_call env c (TrashRecording i) =
     tryE (segment env i) (\<lambda>s. post_call c (lit ''/api/v1/recordings/'' @ s @ lit ''/trash'') BodyNull)"
| "prepare_call env c (UsageOf i) =
     tryE (segment env i) (\<lambda>s. get_call c (lit ''/api/v1/usage/'' @ s))"
| "prepare_call env c (UsageList f) = get_call c (with_filter env (lit ''/api/v1/usage'') f)"
| "prepare_call env c UsageLimits = get_call c (lit ''/api/v1/usage/limits'')"
| "prepare_call env c (Search r) =
     tryE (validation (search_request_validate (cv_parse env) r)) (\<lambda>_. post_call c (lit ''/api/v1/search'') (BodySearch r))"
| "prepare_call env c (Fetch r) =
     tryE (validation (fetch_request_validate (cv_parse env) r)) (\<lambda>_. post_call c (lit ''/api/v1/fetch'') (BodyFetch r))"

text \<open>The time a call may take.\<close>

definition FETCH_REQUEST_TIMEOUT :: int where "FETCH_REQUEST_TIMEOUT = (4 * 60 * 60 + 30 * 60) * NANOS_PER_SECOND"

definition DEFAULT_REQUEST_TIMEOUT :: int where "DEFAULT_REQUEST_TIMEOUT = 180 * NANOS_PER_SECOND"

fun call_timeout :: "client_call \<Rightarrow> int" where
  "call_timeout (Fetch _) = FETCH_REQUEST_TIMEOUT"
| "call_timeout _ = DEFAULT_REQUEST_TIMEOUT"

text \<open>\<open>redact_url\<close>: the query of a URL does not appear in an error of the transport. Replacing the
  empty text puts the marker between all characters, as the standard library does.\<close>

definition replace_all :: "str \<Rightarrow> str \<Rightarrow> str" where
  "replace_all pattern message =
     (if pattern = [] then concat (map (\<lambda>c. MARKER @ [c]) message) @ MARKER else redact_all pattern message)"

definition redact_url :: "str \<Rightarrow> str \<Rightarrow> str" where
  "redact_url message url =
     (case split_once 63 url of Some (_, query) \<Rightarrow> replace_all query message | None \<Rightarrow> message)"

section \<open>Answers\<close>

definition protocol_error :: "string \<Rightarrow> client_error" where
  "protocol_error text = CProtocol (lit text)"

text \<open>\<open>validate_connection\<close> of the local controller.\<close>

definition validate_connection :: "url_parser \<Rightarrow> session_connection \<Rightarrow> client_error + unit" where
  "validate_connection parse c =
     (case parse (sx_cdp_url c) of
        Inl _ \<Rightarrow> Inl (protocol_error ''invalid session connection'')
      | Inr u \<Rightarrow>
          if \<not> (url_scheme u \<in> {lit ''wss'', lit ''https''} \<or> (url_scheme u \<in> {lit ''ws'', lit ''http''} \<and> host_is_loopback u)) \<or>
             url_hostpart u = None \<or> url_username u \<noteq> [] \<or> url_password u \<noteq> None \<or> url_fragment u \<noteq> None
          then Inl (protocol_error ''invalid session connection'') else Inr ())"

definition accept_connection ::
  "'u client_env \<Rightarrow> str \<Rightarrow> session_connection \<Rightarrow> client_error + session_connection" where
  "accept_connection env session_id c =
     (if sx_session_id c \<noteq> session_id \<or> trim (sx_principal_id c) = []
      then Inl (protocol_error ''session connection identity did not match the request'')
      else tryE (map_err (\<lambda>e. CProtocol (validation_text e)) (account_id (cv_uuid env) (sx_principal_id c) ''principal_id'')) (\<lambda>_.
           tryE (validate_connection (cv_parse env) c) (\<lambda>_. Inr c)))"

text \<open>\<open>decode_response\<close> with the JSON decoders of a success and of an error.\<close>

definition client_error_of :: "api_error \<Rightarrow> client_error" where
  "client_error_of e = CApi (ae_code e) (ae_message e) (ae_fields e) (ae_details e) (ae_request_id e) (ae_retry_after_ms e)"

definition decode_client_error :: "(bytes \<Rightarrow> api_error option) \<Rightarrow> client_response \<Rightarrow> client_error" where
  "decode_client_error decode r =
     (case decode (hr_body r) of
        Some e \<Rightarrow> client_error_of e
      | None \<Rightarrow> CProtocol (lit ''HTTP '' @ dec_digits (hr_status r) @
          lit '' carried neither a success nor the documented error envelope''))"

definition decode_response ::
  "(bytes \<Rightarrow> str + 'a) \<Rightarrow> (bytes \<Rightarrow> api_error option) \<Rightarrow> client_response \<Rightarrow> client_error + 'a" where
  "decode_response decode decode_error r =
     (if \<not> (200 \<le> hr_status r \<and> hr_status r < 300) then Inl (decode_client_error decode_error r)
      else map_err CProtocol (decode (hr_body r)))"

text \<open>One send and its answer.\<close>

definition send_request ::
  "(client_body, 'w) transport_api \<Rightarrow> (bytes \<Rightarrow> str + 'a) \<Rightarrow> (bytes \<Rightarrow> api_error option) \<Rightarrow>
     client_body client_request \<Rightarrow> recovered_credential option \<times> 'w \<Rightarrow> (client_error + 'a) \<times> (recovered_credential option \<times> 'w)" where
  "send_request tp decode decode_error rq s =
     (case response_with_recovery tp rq s of
        (Inl e, s') \<Rightarrow> (Inl e, s')
      | (Inr r, s') \<Rightarrow> (decode_response decode decode_error r, s'))"

definition call_client ::
  "'u client_env \<Rightarrow> (client_body, 'w) transport_api \<Rightarrow> (bytes \<Rightarrow> str + 'a) \<Rightarrow> (bytes \<Rightarrow> api_error option) \<Rightarrow>
     client \<Rightarrow> client_call \<Rightarrow> recovered_credential option \<times> 'w \<Rightarrow> (client_error + 'a) \<times> (recovered_credential option \<times> 'w)" where
  "call_client env tp decode decode_error c req s =
     (case prepare_call env c req of
        Inl e \<Rightarrow> (Inl e, s)
      | Inr rq \<Rightarrow> send_request tp decode decode_error rq s)"

text \<open>Calls without credentials.\<close>

definition unauthenticated_request :: "client \<Rightarrow> http_method \<Rightarrow> str \<Rightarrow> client_body option \<Rightarrow> client_body client_request" where
  "unauthenticated_request c method path body =
     \<lparr>rq_method = method, rq_url = cl_base c @ path, rq_bearer = None, rq_body = body, rq_idempotency_key = None\<rparr>"

definition exchange_call ::
  "'u client_env \<Rightarrow> (client_body, 'w) transport_api \<Rightarrow> (bytes \<Rightarrow> str + auth_session) \<Rightarrow> (bytes \<Rightarrow> api_error option) \<Rightarrow>
     validation_error + unit \<Rightarrow> str \<Rightarrow> client_body \<Rightarrow> str \<Rightarrow> recovered_credential option \<times> 'w \<Rightarrow>
     (client_error + auth_session) \<times> (recovered_credential option \<times> 'w)" where
  "exchange_call env tp decode decode_error valid path body base s =
     (case tryE (validation valid) (\<lambda>_. tryE (auth_new (lit ''pre-auth'')) (\<lambda>auth. with_transport env base auth)) of
        Inl e \<Rightarrow> (Inl e, s)
      | Inr c \<Rightarrow>
          (case send_request tp decode decode_error (unauthenticated_request c MPost path (Some body)) s of
             (r, s') \<Rightarrow>
               (tryE r (\<lambda>session. tryE (map_err (\<lambda>e. CProtocol (validation_text e)) (auth_session_validate (cv_uuid env) session))
                  (\<lambda>_. Inr session)), s')))"

definition exchange_with_transport where
  "exchange_with_transport env tp decode decode_error base short_lived_token =
     exchange_call env tp decode decode_error (auth_exchange_validate short_lived_token)
       (lit ''/api/v1/auth/exchange'') (BodyExchange short_lived_token) base"

definition refresh_with_transport where
  "refresh_with_transport env tp decode decode_error base refresh_token =
     exchange_call env tp decode decode_error (auth_refresh_validate refresh_token)
       (lit ''/api/v1/auth/refresh'') (BodyRefresh refresh_token) base"

section \<open>Where a call goes\<close>

text \<open>The route of a call, as the segments of its path.\<close>

fun call_route :: "'u client_env \<Rightarrow> client_call \<Rightarrow> str list" where
  "call_route env Me = [lit ''me'']"
| "call_route env Services = [lit ''services'']"
| "call_route env ProxyLocations = [lit ''proxy-locations'']"
| "call_route env (Profiles _) = [lit ''profiles'']"
| "call_route env (Profile i) = [lit ''profiles'', cv_encode env i]"
| "call_route env (CreateProfile _) = [lit ''profiles'']"
| "call_route env (UpdateProfile i _) = [lit ''profiles'', cv_encode env i]"
| "call_route env (EndProfile i _) = [lit ''profiles'', cv_encode env i, lit ''end'']"
| "call_route env (Sessions _) = [lit ''sessions'']"
| "call_route env (Session i) = [lit ''sessions'', cv_encode env i]"
| "call_route env (CreateSession _) = [lit ''sessions'']"
| "call_route env (EndSession i _) = [lit ''sessions'', cv_encode env i, lit ''end'']"
| "call_route env (Live i) = [lit ''sessions'', cv_encode env i, lit ''live'']"
| "call_route env (RedeemLive i _) = [lit ''sessions'', cv_encode env i, lit ''live'', lit ''redeem'']"
| "call_route env (Connection i) = [lit ''sessions'', cv_encode env i, lit ''connection'']"
| "call_route env (Recordings _) = [lit ''recordings'']"
| "call_route env (Recording i) = [lit ''recordings'', cv_encode env i]"
| "call_route env (TrashRecording i) = [lit ''recordings'', cv_encode env i, lit ''trash'']"
| "call_route env (UsageOf i) = [lit ''usage'', cv_encode env i]"
| "call_route env (UsageList _) = [lit ''usage'']"
| "call_route env UsageLimits = [lit ''usage'', lit ''limits'']"
| "call_route env (Search _) = [lit ''search'']"
| "call_route env (Fetch _) = [lit ''fetch'']"

definition url_safe :: "uchar \<Rightarrow> bool" where
  "url_safe c \<longleftrightarrow> is_ascii_alphanumeric c \<or> c \<in> {37, 42, 43, 45, 46, 95}"

text \<open>What the serializer promises: its output consists of safe characters, it keeps apart what it is
  given, and it does not change letters, digits and dots.\<close>

definition form_encoder :: "(str \<Rightarrow> str) \<Rightarrow> bool" where
  "form_encoder encode \<longleftrightarrow> inj encode \<and> (\<forall>s. list_all url_safe (encode s)) \<and>
     (\<forall>s. list_all (\<lambda>c. is_ascii_alphanumeric c \<or> c = 46) s \<longrightarrow> encode s = s)"

definition plain_segment :: "str \<Rightarrow> bool" where
  "plain_segment s \<longleftrightarrow> list_all url_safe s \<and> s \<notin> {[], lit ''.'', lit ''..''}"

definition join_path :: "str list \<Rightarrow> str" where
  "join_path segments = concat (map (\<lambda>s. lit ''/'' @ s) segments)"

lemma encoder_fixed: "form_encoder f \<Longrightarrow> f [] = [] \<and> f (lit ''.'') = lit ''.'' \<and> f (lit ''..'') = lit ''..''"
  unfolding form_encoder_def by (auto simp: lit_def)

lemma encoded_plain:
  assumes "form_encoder f" "validate_id i field = Inr x"
  shows "plain_segment (f i)"
proof -
  have "i \<noteq> []" "i \<noteq> lit ''.''" "i \<noteq> lit ''..''" using assms(2) by (auto simp: validate_id_def split: if_splits)
  moreover have "inj f" "list_all url_safe (f i)" using assms(1) by (auto simp: form_encoder_def)
  ultimately show ?thesis
    using encoder_fixed [OF assms(1)] unfolding plain_segment_def by (metis injD insertE emptyE)
qed

lemma segment_plain: "form_encoder (cv_encode env) \<Longrightarrow> segment env i = Inr s \<Longrightarrow> plain_segment s \<and> s = cv_encode env i"
  using encoded_plain by (fastforce simp: segment_def)

lemma filter_query:
  "\<exists>query. with_filter env path chosen = path @ query \<and> (query = [] \<or> (\<exists>f. query = lit ''?filter='' @ cv_encode env f))"
  by (auto simp: with_filter_def split: option.split)

lemma fixed_segments:
  "list_all plain_segment (map lit [''api'', ''v1'', ''me'', ''services'', ''proxy-locations'', ''profiles'', ''sessions'',
     ''recordings'', ''usage'', ''limits'', ''search'', ''fetch'', ''end'', ''live'', ''redeem'', ''connection'', ''trash''])"
  by code_simp

lemma call_Inr:
  "get_call c path = Inr rq \<longleftrightarrow> starts_with (lit ''/'') path \<and>
     rq = \<lparr>rq_method = MGet, rq_url = cl_base c @ path, rq_bearer = Some (cl_auth c), rq_body = None, rq_idempotency_key = None\<rparr>"
  "post_call c path body = Inr rq \<longleftrightarrow> starts_with (lit ''/'') path \<and>
     rq = \<lparr>rq_method = MPost, rq_url = cl_base c @ path, rq_bearer = Some (cl_auth c), rq_body = Some body, rq_idempotency_key = None\<rparr>"
  "patch_call c path body = Inr rq \<longleftrightarrow> starts_with (lit ''/'') path \<and>
     rq = \<lparr>rq_method = MPatch, rq_url = cl_base c @ path, rq_bearer = Some (cl_auth c), rq_body = Some body, rq_idempotency_key = None\<rparr>"
  by (auto simp: get_call_def post_call_def patch_call_def client_request_of_def)

lemma join_route:
  "join_path (s # r) = lit ''/'' @ s @ join_path r" "join_path [] = []"
  by (simp_all add: join_path_def lit_def)

lemma path_texts:
  "lit ''/api/v1'' = lit ''/'' @ lit ''api'' @ lit ''/'' @ lit ''v1''"
  "lit ''/api/v1/me'' = lit ''/api/v1'' @ lit ''/'' @ lit ''me''"
  "lit ''/api/v1/services'' = lit ''/api/v1'' @ lit ''/'' @ lit ''services''"
  "lit ''/api/v1/proxy-locations'' = lit ''/api/v1'' @ lit ''/'' @ lit ''proxy-locations''"
  "lit ''/api/v1/profiles'' = lit ''/api/v1'' @ lit ''/'' @ lit ''profiles''"
  "lit ''/api/v1/sessions'' = lit ''/api/v1'' @ lit ''/'' @ lit ''sessions''"
  "lit ''/api/v1/recordings'' = lit ''/api/v1'' @ lit ''/'' @ lit ''recordings''"
  "lit ''/api/v1/usage'' = lit ''/api/v1'' @ lit ''/'' @ lit ''usage''"
  "lit ''/api/v1/search'' = lit ''/api/v1'' @ lit ''/'' @ lit ''search''"
  "lit ''/api/v1/fetch'' = lit ''/api/v1'' @ lit ''/'' @ lit ''fetch''"
  "lit ''/api/v1/usage/limits'' = lit ''/api/v1'' @ lit ''/'' @ lit ''usage'' @ lit ''/'' @ lit ''limits''"
  "lit ''/api/v1/profiles/'' = lit ''/api/v1'' @ lit ''/'' @ lit ''profiles'' @ lit ''/''"
  "lit ''/api/v1/sessions/'' = lit ''/api/v1'' @ lit ''/'' @ lit ''sessions'' @ lit ''/''"
  "lit ''/api/v1/recordings/'' = lit ''/api/v1'' @ lit ''/'' @ lit ''recordings'' @ lit ''/''"
  "lit ''/api/v1/usage/'' = lit ''/api/v1'' @ lit ''/'' @ lit ''usage'' @ lit ''/''"
  "lit ''/end'' = lit ''/'' @ lit ''end''" "lit ''/live'' = lit ''/'' @ lit ''live''"
  "lit ''/live/redeem'' = lit ''/'' @ lit ''live'' @ lit ''/'' @ lit ''redeem''"
  "lit ''/connection'' = lit ''/'' @ lit ''connection''" "lit ''/trash'' = lit ''/'' @ lit ''trash''"
  by (simp_all add: lit_def)

text \<open>C28: a call of the client goes to its own endpoint and nowhere else. Whatever identifiers and filters a
  caller passes, the URL of a request is the base URL followed by the segments of the method's
  route, each of them plain text without separators and none of them empty or a dot segment, so
  that the URL cannot be reinterpreted as another endpoint; after it comes at most one filter
  parameter, and the request carries the client's own credential.\<close>

theorem client_request_confined:
  assumes "form_encoder (cv_encode env)" "prepare_call env c req = Inr rq"
  shows "list_all plain_segment (call_route env req) \<and> rq_bearer rq = Some (cl_auth c) \<and>
    (\<exists>query. rq_url rq = cl_base c @ join_path (lit ''api'' # lit ''v1'' # call_route env req) @ query \<and>
       (query = [] \<or> (\<exists>f. query = lit ''?filter='' @ cv_encode env f)))"
proof -
  note enc = segment_plain [OF assms(1)]
  show ?thesis
    using assms(2) fixed_segments [simplified]
    by (cases req) (auto simp: call_Inr join_route path_texts with_filter_def split: option.splits if_splits dest!: enc)
qed

text \<open>A sample encoder: a text that needs it is written in unary behind a percent sign.\<close>

definition unary :: "str \<Rightarrow> str" where
  "unary s = concat (map (\<lambda>c. replicate c 97 @ [46]) s)"

definition sample_encoder :: "str \<Rightarrow> str" where
  "sample_encoder s = (if list_all (\<lambda>c. is_ascii_alphanumeric c \<or> c = 46) s then s else 37 # unary s)"

lemma unary_inject: "unary s = unary t \<longleftrightarrow> s = t"
proof
  have split: "replicate a 97 @ 46 # x = replicate b 97 @ 46 # y \<Longrightarrow> a = b \<and> x = y" for a b :: nat and x y :: str
    by (induction a arbitrary: b) (case_tac b; auto)+
  show "s = t" if "unary s = unary t" using that
  proof (induction s arbitrary: t)
    case Nil
    then show ?case by (cases t) (auto simp: unary_def)
  next
    case (Cons a s)
    then obtain b u where t: "t = b # u" by (cases t) (auto simp: unary_def)
    with Cons.prems have "replicate a 97 @ 46 # unary s = replicate b 97 @ 46 # unary u" by (simp add: unary_def)
    from split [OF this] Cons.IH t show ?case by simp
  qed
qed simp

lemma sample_encoder_ok: "form_encoder sample_encoder"
proof -
  have "inj sample_encoder"
    by (auto simp: inj_def sample_encoder_def unary_inject is_ascii_alphanumeric_def is_ascii_alphabetic_def is_ascii_digit_def
        is_ascii_lowercase_def is_ascii_uppercase_def)
  moreover have "list_all url_safe (unary s)" for s
    by (induction s) (auto simp: unary_def url_safe_def list_all_iff is_ascii_alphanumeric_def is_ascii_alphabetic_def
        is_ascii_lowercase_def)
  ultimately show ?thesis
    by (auto simp: form_encoder_def sample_encoder_def url_safe_def list_all_iff)
qed

definition sample_client_env :: "unit client_env" where
  "sample_client_env = \<lparr>cv_uuid = no_uuids, cv_parse = (\<lambda>_. Inl []), cv_show_url = (\<lambda>_. []), cv_encode = sample_encoder\<rparr>"

theorem client_request_confined_witness:
  "\<exists>rq. prepare_call sample_client_env \<lparr>cl_base = lit ''https://b'', cl_auth = lit ''t''\<rparr> (EndSession (lit ''a?b'') (lit ''over'')) = Inr rq \<and>
     (\<exists>query. rq_url rq = lit ''https://b'' @ lit ''/api/v1/sessions/'' @ sample_encoder (lit ''a?b'') @ lit ''/end'' @ query)"
proof -
  let ?call = "EndSession (lit ''a?b'') (lit ''over'')" and ?c = "\<lparr>cl_base = lit ''https://b'', cl_auth = lit ''t''\<rparr>"
  have "session_end_validate (lit ''over'') = Inr ()" "validate_id (lit ''a?b'') ''id'' = Inr ()"
    by (simp_all add: session_end_validate_def bounded_def required_field_def validate_id_def is_control_def is_whitespace_def lit_def
        utf8_len_def utf8_width_def trim_no_whitespace)
  then obtain rq where rq: "prepare_call sample_client_env ?c ?call = Inr rq"
    by (simp add: validation_def segment_def post_call_def client_request_of_def starts_with_def lit_def)
  have "form_encoder (cv_encode sample_client_env)" by (simp add: sample_client_env_def sample_encoder_ok)
  from client_request_confined [OF this rq] rq show ?thesis
    by (auto simp: join_route path_texts sample_client_env_def)
qed

lemma served_url_valid:
  "validate_provider_cdp_url parse u = Inr () \<Longrightarrow> sx_cdp_url c = u \<Longrightarrow> validate_connection parse c = Inr ()"
  by (auto simp: validate_provider_cdp_url_def validate_provider_url_def provider_url_ok_def validate_connection_def
      split: if_splits sum.splits)

text \<open>C11: the two ends of a connection agree. Every connection that the server hands out, to an actor
  whose identifier is one of Accounts, passes the checks of the client for the session that was
  asked for: neither the identity nor the address is refused.\<close>

theorem served_connection_accepted:
  assumes "uuid_api_ok (cv_uuid env)" "canonical_account_uuid (cv_uuid env) (i_id actor)" "cv_parse env = ap_parse ap"
    and "session_connection_handler ap now org_id actor session_id w = (Inr c, w')"
  shows "accept_connection env session_id c = Inr c"
proof -
  from assms(4) obtain u where c: "sx_session_id c = session_id" "sx_principal_id c = i_id actor" "sx_cdp_url c = u"
    and u: "validate_provider_cdp_url (ap_parse ap) u = Inr ()"
    by (auto simp: session_connection_handler_def bindA_Inr)
  have "trim (i_id actor) \<noteq> []"
    using account_id_is_identifier [OF assms(1,2)] by (subst trim_no_whitespace) (auto simp: identifier_ok_iff unsafe_id_char_def)
  with served_url_valid [OF u] c assms(2,3) show ?thesis by (simp add: accept_connection_def)
qed

definition sample_viewer :: identity where
  "sample_viewer = alice\<lparr>i_id := replicate 36 97, i_aliases := [[97]]\<rparr>"

definition one_uuid :: "unit uuid_api" where
  "one_uuid = \<lparr>uuid_parse = (\<lambda>s. if s = replicate 36 97 then Some () else None), uuid_version = (\<lambda>_. 4),
     uuid_rfc4122 = (\<lambda>_. True), uuid_hyphenated = (\<lambda>_. replicate 36 97)\<rparr>"

definition sample_cdp_env :: "unit client_env" where
  "sample_cdp_env = \<lparr>cv_uuid = one_uuid, cv_parse = ap_parse sample_app, cv_show_url = (\<lambda>_. []), cv_encode = sample_encoder\<rparr>"

theorem served_connection_accepted_witness:
  "\<exists>c w'. session_connection_handler sample_app 2 [111] sample_viewer [115] \<lparr>w_db = sample_db3, w_provider = []\<rparr> = (Inr c, w') \<and>
     accept_connection sample_cdp_env [115] c = Inr c"
proof -
  let ?urls = "\<lparr>rt_provider_session_id = [118], rt_cdp_url = [99], rt_live_url = [108], rt_recording_url = None\<rparr>"
  have u: "runtime_from_row plain_box [111] [115] sample_active = Inr ?urls"
    using runtime_of_sealed [OF plain_box_laws(1) _ sample_seal, of sample_active]
    by (auto simp: sample_nonces_def sample_active_def sample_provider_def)
  have "allows [[64, 97]] sample_viewer"
    using sample_allows by (simp add: sample_viewer_def alice_def allows_def principal_ids_def)
  then have "connection_authorized sample_viewer sample_active sample_db3"
    by (simp add: connection_authorized_def sample_row_def reserved_row_def sample_session_request_def sample_active_def sample_db3_def
      select_one_def sample_db2_def sample_db1_def insert_session_side_rows_def sample_profile_row_def)
  moreover have "parse_timestamp (se_expires_at sample_active) = 900000000000"
    using sample_deadline by (simp add: sample_active_def)
  ultimately have "connection_runtime plain_box [111] sample_viewer [115] 2 sample_db3 = (Inr (?urls, 900000000000), sample_db3)"
    by (simp add: connection_runtime_def atomically_def session_row_of_def bindS_def Let_def sample_found sample_session u)
  then obtain c w' where served: "session_connection_handler sample_app 2 [111] sample_viewer [115] \<lparr>w_db = sample_db3, w_provider = []\<rparr> = (Inr c, w')"
    by (auto simp: session_connection_handler_def bindA_def from_store_def in_store_def map_errA_def liftA_def okA_def
      validate_provider_cdp_url_def validate_provider_url_def provider_url_ok_def sample_url_def has_forbidden_host_def
      utf8_len_def utf8_width_def str_simps)
  have "uuid_api_ok one_uuid" by (auto simp: uuid_api_ok_def one_uuid_def uuid_char_def list_all_iff)
  moreover have "canonical_account_uuid one_uuid (i_id sample_viewer)"
    by (simp add: canonical_account_uuid_def one_uuid_def sample_viewer_def utf8_len_def utf8_width_def sum_list_replicate)
  ultimately show ?thesis
    using served_connection_accepted [OF _ _ _ served, of sample_cdp_env] served by (auto simp: sample_cdp_env_def)
qed

end
