(* ===== verification/SB_Controller.thy ===== *)
theory SB_Controller
  imports SB_Client
begin

text \<open>
  Browser commands on the caller's machine: the arguments a command may have, the namespace of its
  controller, the start of a run and the events of its process
  (\<open>src/crates/client/src/controller.rs\<close>), and the connections kept in files between commands
  (\<open>src/crates/cli/src/runtime.rs\<close>). The files are a map from directory and name; the locks on
  them make the calls for a session one after another. The process is its reads and its exit.
\<close>

section \<open>The arguments of a browser command\<close>

definition controller_values :: "str set" where
  "controller_values = lit ` {''--headers'', ''--extension'', ''--init-script'', ''--enable'', ''--state'', ''--proxy-bypass'',
     ''--args'', ''--user-agent'', ''--device'', ''--color-scheme'', ''--download-path'', ''--max-output'',
     ''--allowed-domains'', ''--action-policy'', ''--confirm-actions'', ''--screenshot-dir'', ''--screenshot-quality'',
     ''--screenshot-format'', ''--idle-timeout'', ''--ca-cert'', ''--model'', ''--restore-save'',
     ''--restore-check-url'', ''--restore-check-text'', ''--restore-check-fn''}"

definition controller_owned :: "str set" where
  "controller_owned = lit ` {''--cdp'', ''--cdp-url'', ''--session'', ''--session-name'', ''--namespace'', ''--profile'',
     ''--provider'', ''-p'', ''--connect'', ''--auto-connect'', ''--config'', ''--proxy'', ''--proxy-username'',
     ''--proxy-password'', ''--engine'', ''--executable-path'', ''--idle-timeout''}"

definition lifecycle_commands :: "str set" where
  "lifecycle_commands = lit ` {''connect'', ''close'', ''quit'', ''exit'', ''session'', ''daemon''}"

definition truth_words :: "str set" where "truth_words = lit ` {''true'', ''false''}"

text \<open>The loop of \<open>first_controller_command_index\<close>: options that take a value skip it, others skip a
  truth value behind them.\<close>

fun command_index :: "nat \<Rightarrow> str list \<Rightarrow> nat option" where
  "command_index i [] = None"
| "command_index i (arg # rest) =
     (if arg \<in> controller_values then (case rest of [] \<Rightarrow> None | _ # later \<Rightarrow> command_index (i + 2) later)
      else if starts_with (lit ''-'') arg then
        (case rest of
           [] \<Rightarrow> None
         | v # later \<Rightarrow> if v \<in> truth_words then command_index (i + 2) later else command_index (i + 1) rest)
      else Some i)"

definition first_controller_command_index :: "str list \<Rightarrow> nat option" where
  "first_controller_command_index args = command_index 0 args"

definition first_controller_command :: "str list \<Rightarrow> str option" where
  "first_controller_command args = map_option (\<lambda>i. args ! i) (first_controller_command_index args)"

text \<open>\<open>arg.split('=').next()\<close>\<close>

definition option_name :: "str \<Rightarrow> str" where
  "option_name arg = hd (split_char 61 arg)"

text \<open>\<open>shell_words::split\<close> is the parameter \<open>words\<close>.\<close>

definition controller_arguments :: "(str \<Rightarrow> str list option) \<Rightarrow> str \<Rightarrow> str list \<Rightarrow> client_error + str list" where
  "controller_arguments words command flags =
     (case words command of
        None \<Rightarrow> Inl (CLocal (lit ''command contains unclosed quoting''))
      | Some parsed \<Rightarrow>
          let args = parsed @ flags in
          if args = [] then Inl (CLocal (lit ''a browser command is required''))
          else if first_controller_command args = Some (lit ''wait'') \<and> list_ex (\<lambda>a. option_name a = lit ''--download'') args
          then Inl (CLocal (lit ''wait --download cannot copy files from a remote browser; use `download <link-selector> <local-path>` for ordinary same-origin HTTP or blob/data links''))
          else if list_ex (\<lambda>a. option_name a = lit ''--download-path'') args
          then Inl (CLocal (lit ''--download-path addresses the remote browser filesystem; use `download <link-selector> <local-path>` to copy supported link bytes locally''))
          else if list_ex (\<lambda>a. option_name a \<in> controller_owned) args \<or>
             (case first_controller_command args of Some c \<Rightarrow> c \<in> lifecycle_commands | None \<Rightarrow> False)
          then Inl (CLocal (lit ''connection and session lifecycle are managed by browser; use `browser session end` to stop a session''))
          else Inr args)"

section \<open>Running a command\<close>

datatype run_kind = RunUpload | RunDownload | RunProcess

record run_plan =
  rp_args :: "str list"
  rp_kind :: run_kind
  rp_started_at :: instant
  rp_remaining :: int
  rp_warning :: "str option"

definition namespace_ok :: "str \<Rightarrow> bool" where
  "namespace_ok namespace \<longleftrightarrow> utf8_len namespace \<le> 48 \<and> list_all (\<lambda>c. is_ascii_alphanumeric c \<or> c = 45) namespace"

text \<open>\<open>LocalController::run\<close> until the command is started; the clock is read once.\<close>

definition plan_run ::
  "url_parser \<Rightarrow> (str \<Rightarrow> str list option) \<Rightarrow> session_connection \<Rightarrow> str \<Rightarrow> bool \<Rightarrow> str \<Rightarrow> str list \<Rightarrow> instant \<Rightarrow> client_error + run_plan" where
  "plan_run parse words c namespace config_absolute command flags started_at =
     tryE (controller_arguments words command flags) (\<lambda>args.
     tryE (guardE config_absolute (CLocal (lit ''controller configuration path must be absolute''))) (\<lambda>_.
     tryE (guardE (namespace_ok namespace) (CLocal (lit ''invalid native controller namespace''))) (\<lambda>_.
     tryE (validate_connection parse c) (\<lambda>_.
     let remaining = sx_expires_at c - started_at in
     if remaining \<le> 0 then Inl (CLocal (lit ''session expired; start another session''))
     else Inr \<lparr>rp_args = args,
       rp_kind = (if first_controller_command args = Some (lit ''upload'') then RunUpload
         else if first_controller_command args = Some (lit ''download'') then RunDownload else RunProcess),
       rp_started_at = started_at, rp_remaining = remaining,
       rp_warning = (if remaining < 60 * NANOS_PER_SECOND
         then Some (lit ''session expires in '' @ dec_digits (nat (remaining div NANOS_PER_SECOND)) @ lit '' seconds'') else None)\<rparr>))))"

record run_result =
  rr_result_session :: str
  rr_exit_code :: int
  rr_started_at :: instant
  rr_finished_at :: instant
  rr_stdout :: str
  rr_stderr :: str

datatype run_event =
    RunQueued nat
  | RunStarted instant
  | RunStdout str
  | RunStderr str
  | RunWarning str
  | RunFailed api_error
  | RunFinished run_result

text \<open>The deadline of the process: four hours at most.\<close>

definition run_limit :: "run_plan \<Rightarrow> int" where
  "run_limit plan = min (rp_remaining plan) (4 * 60 * 60 * NANOS_PER_SECOND)"

text \<open>The reads from the two pipes, in the order in which they arrive, each marked whether it is from the
  error stream; then both outputs are finished.\<close>

fun run_reads :: "(bool \<times> bytes) list \<Rightarrow> redacted_output \<Rightarrow> redacted_output \<Rightarrow> run_event list \<times> redacted_output \<times> redacted_output" where
  "run_reads [] out err = ([], out, err)"
| "run_reads ((stderr, read) # later) out err =
     (if stderr
      then (case redacted_push read False err of (emitted, err') \<Rightarrow>
        case run_reads later out err' of (events, o', e') \<Rightarrow> (map RunStderr emitted @ events, o', e'))
      else (case redacted_push read False out of (emitted, out') \<Rightarrow>
        case run_reads later out' err of (events, o', e') \<Rightarrow> (map RunStdout emitted @ events, o', e')))"

text \<open>The bytes of the connection's address are the parameter \<open>secret\<close>; \<open>status\<close> is the exit code, if any,
  and \<open>killed\<close> says that the deadline passed before the process ended.\<close>

definition process_run ::
  "run_plan \<Rightarrow> session_connection \<Rightarrow> bytes \<Rightarrow> (bool \<times> bytes) list \<Rightarrow> bool \<Rightarrow> int option \<Rightarrow> instant \<Rightarrow> run_event list \<times> run_result" where
  "process_run plan c secret reads killed status finished_at =
     (case run_reads reads (redacted_new secret) (redacted_new secret) of (events, out, err) \<Rightarrow>
      case redacted_push [] True out of (last_out, out') \<Rightarrow>
      case redacted_push [] True err of (last_err, err') \<Rightarrow>
      let result = \<lparr>rr_result_session = sx_session_id c,
            rr_exit_code = (if killed then 124 else case status of Some s \<Rightarrow> s | None \<Rightarrow> 1),
            rr_started_at = rp_started_at plan, rr_finished_at = finished_at,
            rr_stdout = ro_captured out', rr_stderr = ro_captured err'\<rparr>
      in ((case rp_warning plan of Some m \<Rightarrow> [RunWarning m] | None \<Rightarrow> []) @ events @ map RunStdout last_out @
          map RunStderr last_err @ [RunFinished result], result))"

text \<open>The environment of the process: ambient settings of the controller and of the services are removed.\<close>

definition controller_environment ::
  "(str \<times> str) list \<Rightarrow> session_connection \<Rightarrow> str \<Rightarrow> str \<Rightarrow> (str \<times> str) list" where
  "controller_environment vars c namespace config =
     filter (\<lambda>(key, _). \<not> list_ex (\<lambda>p. starts_with (lit p) key)
       [''AGENT_BROWSER_'', ''SB_'', ''IAM_'', ''ACCOUNTS_'', ''SILICON_ACCOUNTS_'', ''BRIEFCASE_'']) vars @
     [(lit ''AGENT_BROWSER_CDP'', sx_cdp_url c), (lit ''AGENT_BROWSER_SESSION'', namespace),
      (lit ''AGENT_BROWSER_CONFIG'', config), (lit ''AGENT_BROWSER_IDLE_TIMEOUT_MS'', lit ''300000'')]"

section \<open>The namespace of a controller\<close>

fun utf8_char :: "uchar \<Rightarrow> bytes" where
  "utf8_char c =
     (if c < 128 then [c]
      else if c < 2048 then [192 + c div 64, 128 + c mod 64]
      else if c < 65536 then [224 + c div 4096, 128 + c div 64 mod 64, 128 + c mod 64]
      else [240 + c div 262144, 128 + c div 4096 mod 64, 128 + c div 64 mod 64, 128 + c mod 64])"

definition utf8_encode :: "str \<Rightarrow> bytes" where
  "utf8_encode s = concat (map utf8_char s)"

text \<open>The eight bytes of a length, in big-endian order.\<close>

fun be_bytes :: "nat \<Rightarrow> nat \<Rightarrow> bytes" where
  "be_bytes 0 n = []"
| "be_bytes (Suc k) n = be_bytes k (n div 256) @ [n mod 256]"

definition hash_input :: "str list \<Rightarrow> bytes" where
  "hash_input values = concat (map (\<lambda>v. be_bytes 8 (utf8_len v) @ utf8_encode v) values)"

text \<open>The parameter \<open>sha256\<close> gives the hexadecimal digest.\<close>

definition controller_namespace :: "(bytes \<Rightarrow> str) \<Rightarrow> str \<Rightarrow> str \<Rightarrow> str \<Rightarrow> str" where
  "controller_namespace sha256 backend_url actor session =
     take 35 (lit ''sb-'' @ sha256 (hash_input [backend_url, lit ''browser'', actor, session]))"

lemma length_utf8_char: "length (utf8_char c) = utf8_width c"
  by (simp add: utf8_width_def)

lemma length_utf8_encode: "length (utf8_encode s) = utf8_len s"
  by (induction s) (simp_all add: utf8_encode_def length_utf8_char utf8_len_def del: utf8_char.simps)

lemma be_bytes_inject: "length (be_bytes k n) = k" "n < 256 ^ k \<Longrightarrow> m < 256 ^ k \<Longrightarrow> be_bytes k n = be_bytes k m \<Longrightarrow> n = m"
proof -
  show "length (be_bytes k n) = k" by (induction k arbitrary: n) auto
  show "n < 256 ^ k \<Longrightarrow> m < 256 ^ k \<Longrightarrow> be_bytes k n = be_bytes k m \<Longrightarrow> n = m"
  proof (induction k arbitrary: n m)
    case (Suc k)
    from Suc.prems have "n div 256 < 256 ^ k" "m div 256 < 256 ^ k" by (simp_all add: less_mult_imp_div_less mult.commute)
    with Suc.prems(3) Suc.IH have "n div 256 = m div 256" "n mod 256 = m mod 256" by auto
    then show "n = m" by (metis div_mult_mod_eq)
  qed simp
qed

text \<open>Decoding the encoding of a scalar value.\<close>

definition scalar_value :: "uchar \<Rightarrow> bool" where
  "scalar_value c \<longleftrightarrow> c < 1114112 \<and> \<not> (55296 \<le> c \<and> c < 57344)"

lemma base64_digits:
  fixes c :: nat
  shows "c = 4096 * (c div 4096) + 64 * (c div 64 mod 64) + c mod 64"
    and "c = 262144 * (c div 262144) + 4096 * (c div 4096 mod 64) + 64 * (c div 64 mod 64) + c mod 64"
proof -
  have a: "c = 64 * (c div 64) + c mod 64" by simp
  have b: "c div 64 = 64 * (c div 4096) + c div 64 mod 64" using mult_div_mod_eq [of 64 "c div 64"] by (simp add: div_mult2_eq [symmetric])
  have d: "c div 4096 = 64 * (c div 262144) + c div 4096 mod 64" using mult_div_mod_eq [of 64 "c div 4096"] by (simp add: div_mult2_eq [symmetric])
  from a b show "c = 4096 * (c div 4096) + 64 * (c div 64 mod 64) + c mod 64" by linarith
  with d show "c = 262144 * (c div 262144) + 4096 * (c div 4096 mod 64) + 64 * (c div 64 mod 64) + c mod 64" by linarith
qed

lemma utf8_next_sequences:
  "2 \<le> q \<Longrightarrow> q < 32 \<Longrightarrow> t < 64 \<Longrightarrow> utf8_next ((192 + q) # (128 + t) # s) = Scalar (64 * q + t) 2"
  "q < 16 \<Longrightarrow> q = 0 \<longrightarrow> 32 \<le> r \<Longrightarrow> q = 13 \<longrightarrow> r < 32 \<Longrightarrow> r < 64 \<Longrightarrow> t < 64 \<Longrightarrow>
     utf8_next ((224 + q) # (128 + r) # (128 + t) # s) = Scalar (4096 * q + 64 * r + t) 3"
  "p < 5 \<Longrightarrow> p = 0 \<longrightarrow> 16 \<le> q \<Longrightarrow> p = 4 \<longrightarrow> q < 16 \<Longrightarrow> q < 64 \<Longrightarrow> r < 64 \<Longrightarrow> t < 64 \<Longrightarrow>
     utf8_next ((240 + p) # (128 + q) # (128 + r) # (128 + t) # s) = Scalar (262144 * p + 4096 * q + 64 * r + t) 4"
  by (simp_all add: second_ok_def continuation_def)

lemma utf8_next_char:
  assumes "scalar_value c"
  shows "utf8_next (utf8_char c @ s) = Scalar c (utf8_width c)"
proof -
  consider "c < 128" | "128 \<le> c" "c < 2048" | "2048 \<le> c" "c < 65536" | "65536 \<le> c" "c < 1114112"
    using assms by (fastforce simp: scalar_value_def)
  then show ?thesis
  proof cases
    case 1
    then show ?thesis by (simp add: utf8_width_def)
  next
    case 2
    have e: "64 * (c div 64) + c mod 64 = c" by simp
    from 2 e have "2 \<le> c div 64" "c div 64 < 32" by linarith+
    from utf8_next_sequences(1) [OF this, of "c mod 64" s] 2 show ?thesis
      by (simp add: utf8_width_def del: utf8_next.simps)
  next
    case 3
    let ?q = "c div 4096" and ?r = "c div 64 mod 64" and ?t = "c mod 64"
    have e: "4096 * ?q + 64 * ?r + ?t = c" using base64_digits(1) [of c] by simp
    have rt: "?r < 64" "?t < 64" by simp_all
    from 3 e rt assms have "?q < 16" "?q = 0 \<longrightarrow> 32 \<le> ?r" "?q = 13 \<longrightarrow> ?r < 32"
      unfolding scalar_value_def by linarith+
    from utf8_next_sequences(2) [OF this rt, of s] 3 show ?thesis
      unfolding e by (simp add: utf8_width_def del: utf8_next.simps)
  next
    case 4
    let ?p = "c div 262144" and ?q = "c div 4096 mod 64" and ?r = "c div 64 mod 64" and ?t = "c mod 64"
    have e: "262144 * ?p + 4096 * ?q + 64 * ?r + ?t = c" using base64_digits(2) [of c] by simp
    have rt: "?q < 64" "?r < 64" "?t < 64" by simp_all
    from 4 e rt have "?p < 5" "?p = 0 \<longrightarrow> 16 \<le> ?q" "?p = 4 \<longrightarrow> ?q < 16" by linarith+
    from utf8_next_sequences(3) [OF this rt, of s] 4 show ?thesis
      unfolding e by (simp add: utf8_width_def del: utf8_next.simps)
  qed
qed

lemma utf8_decode_encode: "list_all scalar_value s \<Longrightarrow> utf8_lossy (utf8_encode s) = s"
proof (induction s)
  case (Cons c s)
  have step: "utf8_next (utf8_encode (c # s)) = Scalar c (utf8_width c)"
    using Cons.prems utf8_next_char [of c "utf8_encode s"] by (simp add: utf8_encode_def del: utf8_char.simps)
  have "drop (utf8_width c) (utf8_encode (c # s)) = utf8_encode s"
    by (simp add: utf8_encode_def length_utf8_char [symmetric] del: utf8_char.simps)
  moreover have "utf8_encode (c # s) \<noteq> []" by (simp add: utf8_encode_def)
  ultimately show ?case using utf8_lossy_Scalar [OF step] Cons by simp
qed (simp add: utf8_encode_def)

lemma utf8_encode_inject: "list_all scalar_value s \<Longrightarrow> list_all scalar_value t \<Longrightarrow> utf8_encode s = utf8_encode t \<Longrightarrow> s = t"
  by (metis utf8_decode_encode)

definition hashable :: "str \<Rightarrow> bool" where
  "hashable s \<longleftrightarrow> list_all scalar_value s \<and> utf8_len s < 2 ^ 64"

lemma hash_input_inject:
  assumes "list_all hashable xs" "list_all hashable ys" "length xs = length ys" "hash_input xs = hash_input ys"
  shows "xs = ys"
  using assms(3,1,2,4)
proof (induction xs ys rule: list_induct2)
  case (Cons x xs y ys)
  have "be_bytes 8 (utf8_len x) @ utf8_encode x @ hash_input xs = be_bytes 8 (utf8_len y) @ utf8_encode y @ hash_input ys"
    using Cons.prems(3) by (simp add: hash_input_def)
  then have b: "be_bytes 8 (utf8_len x) = be_bytes 8 (utf8_len y)" and r: "utf8_encode x @ hash_input xs = utf8_encode y @ hash_input ys"
    by (auto simp: append_eq_append_conv be_bytes_inject(1))
  from Cons.prems(1,2) have h: "hashable x" "hashable y" "list_all hashable xs" "list_all hashable ys" by simp_all
  then have "utf8_len x < 256 ^ 8" "utf8_len y < 256 ^ 8" by (simp_all add: hashable_def)
  from be_bytes_inject(2) [OF this b] have "length (utf8_encode x) = length (utf8_encode y)" by (simp add: length_utf8_encode)
  with r have "utf8_encode x = utf8_encode y" "hash_input xs = hash_input ys" by simp_all
  with Cons.IH [OF h(3,4)] h(1,2) utf8_encode_inject show ?case by (simp add: hashable_def)
qed simp

definition hex_digest :: "str \<Rightarrow> bool" where
  "hex_digest d \<longleftrightarrow> length d = 64 \<and> list_all (\<lambda>c. is_ascii_digit c \<or> (97 \<le> c \<and> c \<le> 102)) d"

lemma digest_prefix:
  assumes "\<forall>b. hex_digest (sha256 b)" "c \<in> set (take n (sha256 z))"
  shows "is_ascii_digit c \<or> (97 \<le> c \<and> c \<le> 102)"
proof -
  have "hex_digest (sha256 z)" using assms(1) by simp
  moreover have "c \<in> set (sha256 z)" using assms(2) by (rule in_set_takeD)
  ultimately show ?thesis by (simp add: hex_digest_def list_all_iff)
qed

text \<open>The controllers of different sessions stay apart. The namespace of a session is always one that a
  run accepts, and two namespaces are equal only for the same backend, principal and session, or
  where the first 128 bits of two different SHA-256 inputs collide: the text that is hashed
  determines its parts, whatever characters they contain.\<close>

theorem controller_namespace_separates:
  assumes "\<forall>b. hex_digest (sha256 b)" "list_all hashable [backend_url, actor, session, backend_url', actor', session']"
  shows "namespace_ok (controller_namespace sha256 backend_url actor session) \<and>
    (controller_namespace sha256 backend_url actor session = controller_namespace sha256 backend_url' actor' session' \<longrightarrow>
       (backend_url, actor, session) = (backend_url', actor', session') \<or>
       (\<exists>x y. x \<noteq> y \<and> take 32 (sha256 x) = take 32 (sha256 y)))"
proof -
  let ?x = "[backend_url, lit ''browser'', actor, session]" and ?y = "[backend_url', lit ''browser'', actor', session']"
  have h: "list_all hashable ?x" "list_all hashable ?y"
    using assms(2) by (simp_all add: hashable_def scalar_value_def lit_def utf8_len_def utf8_width_def)
  have ns: "controller_namespace sha256 b a s = lit ''sb-'' @ take 32 (sha256 (hash_input [b, lit ''browser'', a, s]))" for b a s
    by (simp add: controller_namespace_def)
  have safe: "list_all (\<lambda>c. is_ascii_alphanumeric c \<or> c = 45) (take 32 (sha256 z)) \<and> utf8_len (take 32 (sha256 z)) \<le> 32" for z
  proof -
    let ?d = "take 32 (sha256 z)"
    have c: "\<And>c. c \<in> set ?d \<Longrightarrow> is_ascii_digit c \<or> (97 \<le> c \<and> c \<le> 102)"
      using assms(1) by (rule digest_prefix)
    then have "list_all (\<lambda>c. is_ascii_alphanumeric c \<or> c = 45) ?d"
      by (auto simp: list_all_iff is_ascii_alphanumeric_def is_ascii_alphabetic_def is_ascii_lowercase_def dest!: c)
    moreover have "utf8_len ?d = length ?d"
      by (rule utf8_len_ascii) (auto dest!: c simp: is_ascii_digit_def)
    ultimately show ?thesis by simp
  qed
  have "namespace_ok (controller_namespace sha256 backend_url actor session)"
    using safe [of "hash_input ?x"] by (simp add: ns namespace_ok_def lit_def utf8_width_def is_ascii_alphanumeric_def
      is_ascii_alphabetic_def is_ascii_lowercase_def)
  moreover have "?x = ?y \<or> (\<exists>x y. x \<noteq> y \<and> take 32 (sha256 x) = take 32 (sha256 y))"
    if "controller_namespace sha256 backend_url actor session = controller_namespace sha256 backend_url' actor' session'"
    using that hash_input_inject [OF h] by (auto simp: ns)
  ultimately show ?thesis by auto
qed

theorem controller_namespace_separates_witness:
  "namespace_ok (controller_namespace (\<lambda>b. replicate 64 (48 + (length b) mod 10)) [98] [97] [115])"
proof -
  let ?sha = "\<lambda>b :: bytes. replicate 64 (48 + (length b) mod 10)"
  have a: "\<forall>b. hex_digest (?sha b)"
  proof
    fix b :: bytes
    have "length b mod 10 \<le> 9" using mod_less_divisor [of 10 "length b"] by linarith
    then show "hex_digest (?sha b)" by (simp add: hex_digest_def list_all_iff is_ascii_digit_def)
  qed
  have b: "list_all hashable [[98], [97], [115], [98], [97], [115, 115]]"
    by (simp add: hashable_def scalar_value_def utf8_len_def utf8_width_def)
  show ?thesis
    by (rule conjunct1 [OF controller_namespace_separates [OF a b]])
qed

section \<open>Cached connections\<close>

record cached_connection =
  cc_fetched_at :: instant
  cc_connection :: session_connection

text \<open>
  What commands run against: the files of the runtime directories, by directory and name, and the
  backend, asked through a client that carries a credential. \<open>rn_granted\<close> records what the backend
  has granted: the credential, the session that was asked for, the connection and the time of its
  arrival. A directory belongs to a credential: the access token of the environment or the
  generation of the saved login.
\<close>

record 'w runtime_state =
  rn_files :: "str \<times> str \<Rightarrow> cached_connection option"
  rn_backend :: 'w
  rn_granted :: "(str \<times> str \<times> session_connection \<times> instant) list"

record ('u, 'w) runtime_env =
  re_client :: "'u client_env"
  re_words :: "str \<Rightarrow> str list option"
  re_sha256 :: "bytes \<Rightarrow> str"
  re_base :: str
  re_fetch :: "str \<Rightarrow> str \<Rightarrow> 'w \<Rightarrow> (client_error + session_connection) \<times> 'w"

definition runtime_hash :: "(bytes \<Rightarrow> str) \<Rightarrow> str list \<Rightarrow> str" where
  "runtime_hash sha256 values = sha256 (hash_input values)"

definition runtime_directory :: "(bytes \<Rightarrow> str) \<Rightarrow> str \<Rightarrow> str" where
  "runtime_directory sha256 credential = runtime_hash sha256 [lit ''browser'', credential]"

definition connection_file :: "('u, 'w) runtime_env \<Rightarrow> str \<Rightarrow> str \<Rightarrow> str \<times> str" where
  "connection_file re credential session =
     (runtime_directory (re_sha256 re) credential, runtime_hash (re_sha256 re) [session])"

text \<open>The check of a cached connection; the clock is read for its age and again for its expiry.\<close>

definition cached_usable :: "('u, 'w) runtime_env \<Rightarrow> str \<Rightarrow> instant \<Rightarrow> instant \<Rightarrow> cached_connection \<Rightarrow> bool" where
  "cached_usable re session now again c \<longleftrightarrow>
     sx_session_id (cc_connection c) = session \<and>
     is_ok (account_id (cv_uuid (re_client re)) (sx_principal_id (cc_connection c)) ''principal_id'') \<and>
     0 \<le> now - cc_fetched_at c \<and> now - cc_fetched_at c < 60 * NANOS_PER_SECOND \<and>
     sx_expires_at (cc_connection c) > again"

text \<open>\<open>Client::session_connection\<close>: the identifier is checked before the backend is asked, and the answer
  after.\<close>

definition client_connection ::
  "('u, 'w) runtime_env \<Rightarrow> str \<Rightarrow> str \<Rightarrow> 'w \<Rightarrow> (client_error + session_connection) \<times> 'w" where
  "client_connection re credential session w =
     (case segment (re_client re) session of
        Inl e \<Rightarrow> (Inl e, w)
      | Inr _ \<Rightarrow>
          (case re_fetch re credential session w of
             (r, w') \<Rightarrow> (tryE r (accept_connection (re_client re) session), w')))"

definition runtime_connection ::
  "('u, 'w) runtime_env \<Rightarrow> str \<Rightarrow> str \<Rightarrow> instant \<Rightarrow> instant \<Rightarrow> instant \<Rightarrow> 'w runtime_state \<Rightarrow>
     (client_error + session_connection) \<times> 'w runtime_state" where
  "runtime_connection re credential session now again later s =
     (let key = connection_file re credential session in
      case (case rn_files s key of
              Some c \<Rightarrow> if cached_usable re session now again c then Some (cc_connection c) else None
            | None \<Rightarrow> None) of
        Some c \<Rightarrow> (Inr c, s)
      | None \<Rightarrow>
          (case client_connection re credential session (rn_backend s) of
             (Inl e, w) \<Rightarrow> (Inl e, s\<lparr>rn_backend := w\<rparr>)
           | (Inr c, w) \<Rightarrow>
               (Inr c, s\<lparr>rn_backend := w, rn_granted := rn_granted s @ [(credential, session, c, later)],
                  rn_files := (rn_files s)(key := Some \<lparr>cc_fetched_at = later, cc_connection = c\<rparr>)\<rparr>)))"

definition forget_connection :: "('u, 'w) runtime_env \<Rightarrow> str \<Rightarrow> str \<Rightarrow> 'w runtime_state \<Rightarrow> 'w runtime_state" where
  "forget_connection re credential session s =
     s\<lparr>rn_files := (rn_files s)(connection_file re credential session := None)\<rparr>"

text \<open>\<open>Runtime::run\<close> until the command starts.\<close>

definition runtime_run ::
  "('u, 'w) runtime_env \<Rightarrow> str \<Rightarrow> str \<Rightarrow> str \<Rightarrow> str list \<Rightarrow> instant \<Rightarrow> instant \<Rightarrow> instant \<Rightarrow> instant \<Rightarrow> 'w runtime_state \<Rightarrow>
     (client_error + session_connection \<times> run_plan) \<times> 'w runtime_state" where
  "runtime_run re credential session command flags now again later started_at s =
     (case tryE (validation (run_request_validate \<lparr>rr_session_id = session, rr_command = command, rr_flags = flags\<rparr>)) (\<lambda>_.
         controller_arguments (re_words re) command flags) of
        Inl e \<Rightarrow> (Inl e, s)
      | Inr _ \<Rightarrow>
          (case runtime_connection re credential session now again later s of
             (Inl e, s') \<Rightarrow> (Inl e, s')
           | (Inr c, s') \<Rightarrow>
               (map_sum id (Pair c) (plan_run (cv_parse (re_client re)) (re_words re) c
                  (controller_namespace (re_sha256 re) (re_base re) (sx_principal_id c) session) True command flags started_at), s')))"

datatype runtime_event =
    RunCommand str str str "str list" instant instant instant instant
  | ForgetConnection str str

fun exec_runtime :: "('u, 'w) runtime_env \<Rightarrow> runtime_event \<Rightarrow> 'w runtime_state \<Rightarrow> 'w runtime_state" where
  "exec_runtime re (RunCommand credential session command flags now again later started_at) s =
     snd (runtime_run re credential session command flags now again later started_at s)"
| "exec_runtime re (ForgetConnection credential session) s = forget_connection re credential session s"

inductive runtime_step :: "('u, 'w) runtime_env \<Rightarrow> runtime_event \<Rightarrow> 'w runtime_state \<Rightarrow> 'w runtime_state \<Rightarrow> bool" for re where
  exec: "runtime_step re e s (exec_runtime re e s)"

inductive_simps runtime_step_iff: "runtime_step re e s s'"

definition runtime_start :: "'w runtime_state \<Rightarrow> bool" where
  "runtime_start s \<longleftrightarrow> rn_files s = (\<lambda>_. None) \<and> rn_granted s = []"

text \<open>What a file holds was granted for the credential and the session that its path stands for.\<close>

definition files_granted :: "('u, 'w) runtime_env \<Rightarrow> 'w runtime_state \<Rightarrow> bool" where
  "files_granted re s \<longleftrightarrow> (\<forall>key c. rn_files s key = Some c \<longrightarrow>
     (\<exists>credential session. key = connection_file re credential session \<and>
        (credential, session, cc_connection c, cc_fetched_at c) \<in> set (rn_granted s) \<and>
        accept_connection (re_client re) session (cc_connection c) = Inr (cc_connection c)))"

lemma accept_Inr:
  assumes "accept_connection env session c = Inr d"
  shows "d = c \<and> sx_session_id c = session \<and> validate_connection (cv_parse env) c = Inr ()"
  using assms by (auto simp: accept_connection_def tryE_Inr_iff split: if_splits)

lemma client_connection_Inr:
  assumes "client_connection re credential session w = (Inr c, w')"
  shows "accept_connection (re_client re) session c = Inr c"
proof -
  from assms obtain r where "tryE r (accept_connection (re_client re) session) = Inr c"
    by (auto simp: client_connection_def split: sum.splits prod.splits)
  then obtain d where "accept_connection (re_client re) session d = Inr c" by (auto simp: tryE_Inr_iff)
  with accept_Inr [OF this] show ?thesis by simp
qed

lemma connection_granted:
  assumes "runtime_connection re credential session now again later s = (r, s')" "files_granted re s"
  shows "files_granted re s' \<and> set (rn_granted s) \<subseteq> set (rn_granted s') \<and>
    (\<forall>c. r = Inr c \<longrightarrow> accept_connection (re_client re) session c = Inr c \<and>
       ((credential, session, c, later) \<in> set (rn_granted s') \<or>
        (\<exists>credential' t. connection_file re credential' session = connection_file re credential session \<and>
           (credential', session, c, t) \<in> set (rn_granted s') \<and> 0 \<le> now - t \<and> now - t < 60 * NANOS_PER_SECOND \<and> sx_expires_at c > again)))"
proof -
  let ?key = "connection_file re credential session"
  show ?thesis
  proof (cases "\<exists>c. rn_files s ?key = Some c \<and> cached_usable re session now again c")
    case True
    then obtain c where c: "rn_files s ?key = Some c" "cached_usable re session now again c" by blast
    then have r: "r = Inr (cc_connection c)" "s' = s" using assms(1) by (simp_all add: runtime_connection_def)
    from assms(2) c(1) obtain credential' session' where granted: "?key = connection_file re credential' session'"
      "(credential', session', cc_connection c, cc_fetched_at c) \<in> set (rn_granted s)"
      "accept_connection (re_client re) session' (cc_connection c) = Inr (cc_connection c)"
      unfolding files_granted_def by blast
    from granted(3) have "sx_session_id (cc_connection c) = session'" by (simp add: accept_connection_def split: if_splits)
    with c(2) have "session' = session" by (simp add: cached_usable_def)
    with granted c(2) r assms(2) show ?thesis by (auto simp: cached_usable_def)
  next
    case False
    then have miss: "(case rn_files s ?key of Some c \<Rightarrow> if cached_usable re session now again c then Some (cc_connection c) else None
        | None \<Rightarrow> None) = None" by (auto split: option.split)
    obtain x w where asked: "client_connection re credential session (rn_backend s) = (x, w)" by fastforce
    show ?thesis
    proof (cases x)
      case (Inl e)
      with assms miss asked show ?thesis by (auto simp: runtime_connection_def files_granted_def)
    next
      case (Inr c)
      from client_connection_Inr [OF asked [unfolded Inr]] have ok: "accept_connection (re_client re) session c = Inr c" .
      from assms(1) miss asked Inr have "r = Inr c" and s': "s' = s\<lparr>rn_backend := w, rn_granted := rn_granted s @ [(credential, session, c, later)],
          rn_files := (rn_files s)(?key := Some \<lparr>cc_fetched_at = later, cc_connection = c\<rparr>)\<rparr>"
        by (auto simp: runtime_connection_def)
      have "files_granted re s'"
        unfolding files_granted_def
      proof (intro allI impI)
        fix key d assume d: "rn_files s' key = Some d"
        show "\<exists>credential session. key = connection_file re credential session \<and>
            (credential, session, cc_connection d, cc_fetched_at d) \<in> set (rn_granted s') \<and>
            accept_connection (re_client re) session (cc_connection d) = Inr (cc_connection d)"
        proof (cases "key = ?key")
          case True
          with d s' have "d = \<lparr>cc_fetched_at = later, cc_connection = c\<rparr>" by simp
          with True s' ok show ?thesis by (intro exI [of _ credential] exI [of _ session]) simp
        next
          case False
          with d s' have "rn_files s key = Some d" by simp
          with assms(2) s' show ?thesis unfolding files_granted_def by fastforce
        qed
      qed
      with ok s' \<open>r = Inr c\<close> show ?thesis by (simp add: subset_insertI)
    qed
  qed
qed

lemma granted_run:
  assumes "runtime_run re credential session command flags now again later started_at s = (r, s')" "files_granted re s"
  shows "files_granted re s'"
  using assms connection_granted [OF _ assms(2)]
  by (auto simp: runtime_run_def split: sum.splits prod.splits)

lemma granted_step: "files_granted re s \<Longrightarrow> files_granted re (exec_runtime re e s)"
proof (cases e)
  case (RunCommand credential session command flags now again later started_at)
  moreover assume "files_granted re s"
  ultimately show ?thesis using granted_run by (metis exec_runtime.simps(1) prod.collapse)
next
  case (ForgetConnection credential session)
  moreover assume "files_granted re s"
  ultimately show ?thesis by (auto simp: files_granted_def forget_connection_def)
qed

interpretation runtime_cache: step_system runtime_start "runtime_step re" "files_granted re" for re :: "('u, 'w) runtime_env"
  by unfold_locales (simp_all add: runtime_step_iff granted_step, simp add: runtime_start_def files_granted_def)

fun event_credential :: "runtime_event \<Rightarrow> str" where
  "event_credential (RunCommand credential _ _ _ _ _ _ _) = credential"
| "event_credential (ForgetConnection credential _) = credential"

lemma granted_credentials_step: "fst ` set (rn_granted (exec_runtime re e s)) \<subseteq> insert (event_credential e) (fst ` set (rn_granted s))"
  by (cases e) (auto simp: runtime_run_def runtime_connection_def forget_connection_def Let_def split: sum.splits prod.splits option.splits if_splits)

lemma granted_credentials:
  "run (runtime_step re) s0 es s \<Longrightarrow> runtime_start s0 \<Longrightarrow> fst ` set (rn_granted s) \<subseteq> event_credential ` set es"
proof (induction rule: run.induct)
  case (run_snoc s0 es s e s')
  from run_snoc.hyps(2) have s': "s' = exec_runtime re e s" by (simp add: runtime_step_iff)
  from granted_credentials_step [of re e s] run_snoc.IH [OF run_snoc.prems] show ?case unfolding s' by auto
qed (simp add: runtime_start_def)

lemma arguments_Inr:
  assumes "controller_arguments words command flags = Inr args"
  shows "\<forall>a \<in> set args. option_name a \<notin> controller_owned"
    and "first_controller_command args \<notin> Some ` lifecycle_commands"
  using assms
  by (auto simp: controller_arguments_def Let_def list_ex_iff split: option.splits if_splits)

lemma plan_Inr:
  assumes "plan_run parse words c namespace absolute command flags t = Inr plan"
  shows "controller_arguments words command flags = Inr (rp_args plan) \<and> validate_connection parse c = Inr () \<and> t < sx_expires_at c"
  using assms by (auto simp: plan_run_def tryE_Inr_iff Let_def split: if_splits)

lemma map_sum_Pair: "map_sum id (Pair a) x = Inr (b, y) \<longleftrightarrow> a = b \<and> x = Inr y"
  by (cases x) auto

text \<open>C12: a browser command runs only over a connection that the backend has granted to this credential
  for this session: just now, or less than a minute ago and kept in a file since. The connection
  has passed the client's checks and has not expired, the command does not touch the connection or
  the lifecycle of sessions, and this holds whatever ran before, under whatever credentials, and
  whatever the backend answered. The directories of the credentials in use must differ, which
  holds unless SHA-256 collides.\<close>

theorem run_connection_granted:
  assumes "runtime_start s0" "run (runtime_step re) s0 es s"
    and "inj_on (runtime_directory (re_sha256 re)) (insert credential (event_credential ` set es))"
    and "runtime_run re credential session command flags now again later started_at s = (Inr (c, plan), s')"
  shows "(\<exists>t. (credential, session, c, t) \<in> set (rn_granted s') \<and> (t = later \<or> 0 \<le> now - t \<and> now - t < 60 * NANOS_PER_SECOND)) \<and>
    sx_session_id c = session \<and> validate_connection (cv_parse (re_client re)) c = Inr () \<and> started_at < sx_expires_at c \<and>
    (\<forall>a \<in> set (rp_args plan). option_name a \<notin> controller_owned) \<and>
    first_controller_command (rp_args plan) \<notin> Some ` lifecycle_commands"
proof -
  have inv: "files_granted re s" using runtime_cache.reachable_inv [OF assms(1,2)] .
  obtain r where conn: "runtime_connection re credential session now again later s = (r, s')" and r: "r = Inr c"
    and plan: "plan_run (cv_parse (re_client re)) (re_words re) c
      (controller_namespace (re_sha256 re) (re_base re) (sx_principal_id c) session) True command flags started_at = Inr plan"
    using assms(4) by (auto simp: runtime_run_def map_sum_Pair split: sum.splits prod.splits)
  note granted = connection_granted [OF conn inv]
  have ok: "accept_connection (re_client re) session c = Inr c" using granted r by blast
  have "\<exists>t. (credential, session, c, t) \<in> set (rn_granted s') \<and> (t = later \<or> 0 \<le> now - t \<and> now - t < 60 * NANOS_PER_SECOND)"
  proof (cases "(credential, session, c, later) \<in> set (rn_granted s')")
    case False
    then obtain credential' t where t: "connection_file re credential' session = connection_file re credential session"
      "(credential', session, c, t) \<in> set (rn_granted s')" "0 \<le> now - t" "now - t < 60 * NANOS_PER_SECOND"
      using granted r by blast
    have step: "runtime_step re (RunCommand credential session command flags now again later started_at) s s'"
      using assms(4) by (simp add: runtime_step_iff)
    from granted_credentials [OF run_snoc [OF assms(2) step] assms(1)] t(2)
    have "credential' \<in> insert credential (event_credential ` set es)" by force
    moreover have "runtime_directory (re_sha256 re) credential' = runtime_directory (re_sha256 re) credential"
      using t(1) by (simp add: connection_file_def)
    ultimately have "credential' = credential" using inj_onD [OF assms(3)] by blast
    with t show ?thesis by blast
  qed blast
  with accept_Inr [OF ok] plan_Inr [OF plan] arguments_Inr show ?thesis by blast
qed

definition sample_runtime_env :: "(unit, unit) runtime_env" where
  "sample_runtime_env =
     \<lparr>re_client = sample_cdp_env, re_words = (\<lambda>s. Some [s]), re_sha256 = (\<lambda>_. replicate 64 97), re_base = lit ''https://b'',
      re_fetch = (\<lambda>_ session w. (Inr \<lparr>sx_session_id = session, sx_principal_id = replicate 36 97, sx_cdp_url = [99],
        sx_expires_at = 10 ^ 12\<rparr>, w))\<rparr>"

definition no_connections :: "unit runtime_state" where
  "no_connections = \<lparr>rn_files = (\<lambda>_. None), rn_backend = (), rn_granted = []\<rparr>"

definition sample_runtime_event :: runtime_event where
  "sample_runtime_event = RunCommand (lit ''g'') [115] (lit ''snapshot'') [] 0 0 1 2"

lemma sample_arguments: "controller_arguments (\<lambda>s. Some [s]) (lit ''snapshot'') [] = Inr [lit ''snapshot'']"
  by (simp add: controller_arguments_def first_controller_command_def first_controller_command_index_def controller_values_def
      controller_owned_def lifecycle_commands_def option_name_def starts_with_def lit_def)

lemma sample_canonical: "canonical_account_uuid one_uuid (replicate 36 97)"
  by (simp add: canonical_account_uuid_def one_uuid_def utf8_len_def utf8_width_def sum_list_replicate)

definition sample_granted :: session_connection where
  "sample_granted = \<lparr>sx_session_id = [115], sx_principal_id = replicate 36 97, sx_cdp_url = [99], sx_expires_at = 10 ^ 12\<rparr>"

lemma sample_request_valid:
  "run_request_validate \<lparr>rr_session_id = [115], rr_command = lit ''snapshot'', rr_flags = []\<rparr> = Inr ()"
proof -
  have "safe_identifier [115] f = Inr ()" for f
    by (simp add: identifier_ok_iff unsafe_id_char_def is_whitespace_def is_control_def)
  then show ?thesis
    by (simp add: run_request_validate_def bounded_def required_field_def trim_no_whitespace is_whitespace_def lit_def
      collection_len_def)
qed

lemma sample_accepted: "accept_connection sample_cdp_env [115] sample_granted = Inr sample_granted"
proof -
  have "validate_connection (\<lambda>_. Inr sample_url) sample_granted = Inr ()"
    by (simp add: validate_connection_def sample_url_def)
  then show ?thesis
    by (simp add: accept_connection_def sample_granted_def sample_cdp_env_def sample_canonical trim_no_whitespace is_whitespace_def)
qed

lemma sample_plan:
  "\<exists>plan. plan_run (cv_parse sample_cdp_env) (\<lambda>s. Some [s]) sample_granted
     (controller_namespace (\<lambda>_. replicate 64 97) (lit ''https://b'') (replicate 36 97) [115]) True (lit ''snapshot'') [] 2 = Inr plan"
proof -
  have "namespace_ok (controller_namespace (\<lambda>_. replicate 64 97) (lit ''https://b'') (replicate 36 97) [115])"
    by (simp add: namespace_ok_def controller_namespace_def lit_def utf8_width_def utf8_len_def sum_list_replicate list_all_iff
      is_ascii_alphanumeric_def is_ascii_alphabetic_def is_ascii_lowercase_def)
  moreover have "validate_connection (cv_parse sample_cdp_env) sample_granted = Inr ()"
    using accept_Inr [OF sample_accepted] by simp
  ultimately show ?thesis by (simp add: plan_run_def sample_arguments Let_def sample_granted_def)
qed

definition cached_sample :: "unit runtime_state" where
  "cached_sample = \<lparr>rn_files = (\<lambda>_. None)(connection_file sample_runtime_env (lit ''g'') [115] :=
       Some \<lparr>cc_fetched_at = 1, cc_connection = sample_granted\<rparr>),
     rn_backend = (), rn_granted = [(lit ''g'', [115], sample_granted, 1)]\<rparr>"

lemma sample_connection_fetch: "client_connection sample_runtime_env (lit ''g'') [115] w = (Inr sample_granted, w)"
proof -
  have "validate_id [115] ''id'' = Inr ()" by (simp add: validate_id_def lit_def is_control_def is_whitespace_def)
  then have "segment sample_cdp_env [115] = Inr (cv_encode sample_cdp_env [115])" by (simp add: segment_def)
  then show ?thesis
    using sample_accepted by (simp add: client_connection_def sample_runtime_env_def sample_granted_def)
qed

lemma sample_first:
  "runtime_connection sample_runtime_env (lit ''g'') [115] 0 0 1 no_connections = (Inr sample_granted, cached_sample)"
  by (simp add: runtime_connection_def sample_connection_fetch no_connections_def cached_sample_def)

lemma sample_again:
  "runtime_connection sample_runtime_env (lit ''g'') [115] 30 30 31 cached_sample = (Inr sample_granted, cached_sample)"
proof -
  have "cached_usable sample_runtime_env [115] 30 30 \<lparr>cc_fetched_at = 1, cc_connection = sample_granted\<rparr>"
    by (simp add: cached_usable_def sample_granted_def sample_runtime_env_def sample_cdp_env_def sample_canonical is_ok_iff
      NANOS_PER_SECOND_def)
  then show ?thesis by (simp add: runtime_connection_def cached_sample_def)
qed

lemma sample_run_with:
  assumes "runtime_connection sample_runtime_env (lit ''g'') [115] now again later s = (Inr sample_granted, s')"
  shows "\<exists>plan. runtime_run sample_runtime_env (lit ''g'') [115] (lit ''snapshot'') [] now again later 2 s = (Inr (sample_granted, plan), s')"
proof -
  have env: "re_words sample_runtime_env = (\<lambda>s. Some [s])" "re_client sample_runtime_env = sample_cdp_env"
    "re_sha256 sample_runtime_env = (\<lambda>_. replicate 64 97)" "re_base sample_runtime_env = lit ''https://b''"
    "sx_principal_id sample_granted = replicate 36 97"
    by (simp_all add: sample_runtime_env_def sample_granted_def)
  show ?thesis
    using assms sample_plan by (auto simp: runtime_run_def env sample_request_valid sample_arguments validation_def)
qed

theorem run_connection_granted_witness:
  "\<exists>s plan. run (runtime_step sample_runtime_env) no_connections [sample_runtime_event] s \<and>
     runtime_run sample_runtime_env (lit ''g'') [115] (lit ''snapshot'') [] 30 30 31 2 s = (Inr (sample_granted, plan), s) \<and>
     (\<exists>t. (lit ''g'', [115], sample_granted, t) \<in> set (rn_granted s))"
proof -
  from sample_run_with [OF sample_first] obtain plan where first:
    "runtime_run sample_runtime_env (lit ''g'') [115] (lit ''snapshot'') [] 0 0 1 2 no_connections = (Inr (sample_granted, plan), cached_sample)" by blast
  then have "runtime_step sample_runtime_env sample_runtime_event no_connections cached_sample"
    by (simp add: runtime_step_iff sample_runtime_event_def)
  then have run: "run (runtime_step sample_runtime_env) no_connections [sample_runtime_event] cached_sample"
    using run_snoc [OF run_nil, of "runtime_step sample_runtime_env" sample_runtime_event no_connections cached_sample] by simp
  from sample_run_with [OF sample_again] obtain plan' where again:
    "runtime_run sample_runtime_env (lit ''g'') [115] (lit ''snapshot'') [] 30 30 31 2 cached_sample = (Inr (sample_granted, plan'), cached_sample)" by blast
  have "runtime_start no_connections" by (simp add: runtime_start_def no_connections_def)
  moreover have "inj_on (runtime_directory (re_sha256 sample_runtime_env)) (insert (lit ''g'') (event_credential ` set [sample_runtime_event]))"
    by (simp add: sample_runtime_event_def)
  ultimately show ?thesis using run_connection_granted [OF _ run _ again] run again by blast
qed

section \<open>What a run prints\<close>

fun stdout_chunk :: "run_event \<Rightarrow> str list" where
  "stdout_chunk (RunStdout chunk) = [chunk]"
| "stdout_chunk _ = []"

fun stderr_chunk :: "run_event \<Rightarrow> str list" where
  "stderr_chunk (RunStderr chunk) = [chunk]"
| "stderr_chunk _ = []"

definition stream :: "bool \<Rightarrow> (bool \<times> bytes) list \<Rightarrow> bytes list" where
  "stream stderr reads = map snd (filter (\<lambda>(e, _). e = stderr) reads)"

lemma chunks_map [simp]:
  "concat (map (stdout_chunk \<circ> RunStdout) xs) = xs" "concat (map (stdout_chunk \<circ> RunStderr) xs) = []"
  "concat (map (stderr_chunk \<circ> RunStderr) xs) = xs" "concat (map (stderr_chunk \<circ> RunStdout) xs) = []"
  by (induction xs) auto

lemma run_reads_streams:
  assumes "run_reads reads out err = (events, out', err')"
  shows "push_all (map (\<lambda>p. (p, False)) (stream False reads)) out = (concat (map stdout_chunk events), out') \<and>
    push_all (map (\<lambda>p. (p, False)) (stream True reads)) err = (concat (map stderr_chunk events), err')"
  using assms
proof (induction reads out err arbitrary: events rule: run_reads.induct)
  case (2 stderr read later out err)
  then show ?case
    by (auto simp: stream_def split: if_splits prod.splits)
qed (simp add: stream_def)

text \<open>A run prints nothing but the redacted output of its process. The chunks of each of the two
  streams, in the order of the events, are the redaction of what was read from that stream and from
  no other, however the reads of the two are interleaved; the result, which is the last event,
  carries the captured text of the same redaction.\<close>

theorem run_prints_redacted:
  "case process_run plan c secret reads killed status finished_at of (events, result) \<Rightarrow> \<exists>out err.
    push_all (writes (stream False reads)) (redacted_new secret) = (concat (map stdout_chunk events), out) \<and>
    push_all (writes (stream True reads)) (redacted_new secret) = (concat (map stderr_chunk events), err) \<and>
    rr_stdout result = ro_captured out \<and> rr_stderr result = ro_captured err \<and> last events = RunFinished result"
proof -
  obtain events result where run: "process_run plan c secret reads killed status finished_at = (events, result)" by fastforce
  obtain ev out err where reads: "run_reads reads (redacted_new secret) (redacted_new secret) = (ev, out, err)"
    by (metis prod_cases3)
  obtain lo out' where lo: "redacted_push [] True out = (lo, out')" by fastforce
  obtain le err' where le: "redacted_push [] True err = (le, err')" by fastforce
  have events: "events = (case rp_warning plan of Some m \<Rightarrow> [RunWarning m] | None \<Rightarrow> []) @ ev @ map RunStdout lo @ map RunStderr le @ [RunFinished result]"
    and result: "rr_stdout result = ro_captured out'" "rr_stderr result = ro_captured err'"
    using run reads lo le by (auto simp: process_run_def Let_def)
  from run_reads_streams [OF reads] lo le
  have "push_all (writes (stream False reads)) (redacted_new secret) = (concat (map stdout_chunk ev) @ lo, out')"
    "push_all (writes (stream True reads)) (redacted_new secret) = (concat (map stderr_chunk ev) @ le, err')"
    by (simp_all add: writes_def push_all_append)
  with result run show ?thesis by (auto simp: events comp_def split: option.split)
qed

end
