(* ===== verification/SB_Transfer.thy ===== *)
theory SB_Transfer imports SB_Controller "HOL-Library.Countable"
begin

text \<open>
  Files between a remote browser and the local disk: \<open>src/crates/client/src/controller/download.rs\<close> and
  \<open>upload.rs\<close>. The Rust side drives scripts in the page, one evaluation after the other; every answer is
  checked (offset, base64, checksum, name and length). The sides are modelled separately: the Rust side over
  an arbitrary page, given as one state transformer for each evaluation, and the page as the scripts of
  the two files have it. Base64 and SHA-256 are parameters.
\<close>

section \<open>Arguments\<close>

text \<open>The loop of \<open>download_arguments\<close>: options with their values, and the words between them.\<close>

fun download_words :: "str list \<Rightarrow> client_error + str list \<times> str list" where
  "download_words [] = Inr ([], [])"
| "download_words (arg # rest) =
     (if arg \<in> controller_values then
        (case rest of
           [] \<Rightarrow> Inl (CLocal (lit ''browser option requires a value''))
         | v # later \<Rightarrow> tryE (download_words later) (\<lambda>(words, options). Inr (words, arg # v # options)))
      else if starts_with (lit ''-'') arg then
        (case rest of
           v # later \<Rightarrow>
             if v \<in> truth_words then tryE (download_words later) (\<lambda>(words, options). Inr (words, arg # v # options))
             else tryE (download_words rest) (\<lambda>(words, options). Inr (words, arg # options))
         | [] \<Rightarrow> Inr ([], [arg]))
      else tryE (download_words rest) (\<lambda>(words, options). Inr (arg # words, options)))"

definition download_arguments :: "str list \<Rightarrow> client_error + str \<times> str \<times> str list" where
  "download_arguments args =
     tryE (download_words args) (\<lambda>(words, options).
       if length words \<noteq> 3 \<or> words ! 0 \<noteq> lit ''download'' \<or> words ! 1 = [] \<or> words ! 2 = []
       then Inl (CLocal (lit ''download requires one link selector and one local destination: download <selector> <path>''))
       else if list_ex (\<lambda>o'. o' = lit ''--download-path'' \<or> starts_with (lit ''--download-path='') o') options
       then Inl (CLocal (lit ''download takes an explicit local destination; --download-path is not supported for remote browsers''))
       else Inr (words ! 1, words ! 2, options))"

section \<open>An evaluation in the page\<close>

text \<open>\<open>upload_helper\<close>: one run of the controller for one command or script. The parameter \<open>js\<close> stands for
  \<open>serde_json\<close>; \<open>hp_timed_out\<close> says that the session expired or 35 seconds passed before the process ended.\<close>

record 'v json_api =
  js_parse :: "bytes \<Rightarrow> 'v option"
  js_get :: "'v \<Rightarrow> str \<Rightarrow> 'v option"
  js_true :: "'v \<Rightarrow> bool"
  js_text :: "'v \<Rightarrow> str option"
  js_null :: 'v

record helper_process =
  hp_starts :: bool
  hp_timed_out :: bool
  hp_observed :: bool
  hp_output :: "bytes option"
  hp_success :: bool

definition transfer_detail :: "str \<Rightarrow> str" where
  "transfer_detail message =
     (if contains_sub (lit ''cross-origin frames are unsupported'') message
      then lit ''file input could not be safely resolved; cross-origin frames are unsupported''
      else if contains_sub (lit ''does not accept multiple files'') message
      then lit ''this file input does not accept multiple files''
      else lit ''local file transfer failed; no successful transfer was confirmed'')"

definition upload_helper :: "'v json_api \<Rightarrow> session_connection \<Rightarrow> instant \<Rightarrow> helper_process \<Rightarrow> client_error + 'v" where
  "upload_helper js c now p =
     (if sx_expires_at c \<le> now then Inl (CLocal (lit ''session expired during local file transfer''))
      else if \<not> hp_starts p then Inl (CLocal (lit ''could not start local file transfer; run `browser setup`''))
      else if hp_timed_out p then Inl (CLocal (lit ''local file transfer timed out''))
      else if \<not> hp_observed p then Inl (CLocal (lit ''could not observe local file transfer''))
      else case hp_output p of
        None \<Rightarrow> Inl (CLocal (lit ''local file transfer output failed''))
      | Some output \<Rightarrow>
          (case js_parse js (take (2 * 1024 * 1024) output) of
             None \<Rightarrow> Inl (CLocal (lit ''local file transfer did not return a valid result''))
           | Some v \<Rightarrow>
               if \<not> hp_success p \<or> map_option (js_true js) (js_get js v (lit ''success'')) \<noteq> Some True
               then Inl (CLocal (transfer_detail
                 (case Option.bind (js_get js v (lit ''error'')) (js_text js) of Some m \<Rightarrow> m | None \<Rightarrow> [])))
               else let data = case js_get js v (lit ''data'') of Some d \<Rightarrow> d | None \<Rightarrow> js_null js in
                 Inr (case js_get js data (lit ''result'') of Some r \<Rightarrow> r | None \<Rightarrow> data)))"

lemma upload_helper_Inr:
  assumes "upload_helper js c now p = Inr v"
  shows "now < sx_expires_at c \<and> hp_success p \<and> \<not> hp_timed_out p"
  using assms by (auto simp: upload_helper_def split: if_splits option.splits)

section \<open>The bytes of a page\<close>

definition download_chunk_bytes :: nat where "download_chunk_bytes = 256 * 1024"

definition FNV_INITIAL :: "32 word" where "FNV_INITIAL = 2166136261"

definition fnv_byte :: "32 word \<Rightarrow> nat \<Rightarrow> 32 word" where
  "fnv_byte fnv b = (xor fnv (word_of_nat b)) * 16777619"

definition fnv_bytes :: "32 word \<Rightarrow> bytes \<Rightarrow> 32 word" where
  "fnv_bytes fnv bs = fold (\<lambda>b fnv. fnv_byte fnv b) bs fnv"

text \<open>What is read of the JSON value of an evaluation: \<open>get\<close> and \<open>as_u64\<close>, \<open>as_bool\<close>, \<open>as_str\<close>.\<close>

record page_value =
  pv_offset :: "nat option"
  pv_done :: "bool option"
  pv_bytes :: "str option"
  pv_fnv :: "nat option"
  pv_ready :: "bool option"
  pv_value :: "str option"

text \<open>Base64 is the parameter \<open>b64\<close>.\<close>

definition decode_chunk :: "(str \<Rightarrow> bytes option) \<Rightarrow> page_value \<Rightarrow> nat \<Rightarrow> client_error + bytes" where
  "decode_chunk b64 part expected_offset =
     (let invalid = CProtocol (lit ''download returned invalid or out-of-order bytes'') in
      if pv_offset part \<noteq> Some expected_offset \<or> pv_done part = None then Inl invalid
      else case pv_bytes part of
        None \<Rightarrow> Inl invalid
      | Some encoded \<Rightarrow>
          if utf8_len encoded > (download_chunk_bytes + 2) div 3 * 4 then Inl invalid
          else case b64 encoded of
            None \<Rightarrow> Inl invalid
          | Some bs \<Rightarrow>
              if length bs > download_chunk_bytes \<or> (bs = [] \<and> pv_done part \<noteq> Some True) \<or> (pv_done part = Some True \<and> bs \<noteq> [])
              then Inl invalid else Inr bs)"

section \<open>A download\<close>

record download_state =
  dl_offset :: nat
  dl_fnv :: "32 word"
  dl_written :: bytes

definition download_start :: download_state where
  "download_start = \<lparr>dl_offset = 0, dl_fnv = FNV_INITIAL, dl_written = []\<rparr>"

text \<open>One part. \<open>writes_ok\<close> says whether the bytes can be written behind those in the file.\<close>

definition take_part ::
  "(str \<Rightarrow> bytes option) \<Rightarrow> (bytes \<Rightarrow> bytes \<Rightarrow> bool) \<Rightarrow> page_value \<Rightarrow> download_state \<Rightarrow> client_error + download_state" where
  "take_part b64 writes_ok part st =
     tryE (decode_chunk b64 part (dl_offset st)) (\<lambda>bs.
     let fnv = fnv_bytes (dl_fnv st) bs in
     if pv_fnv part \<noteq> Some (unat fnv) then Inl (CProtocol (lit ''download byte verification failed''))
     else if \<not> writes_ok (dl_written st) bs
     then Inl (CLocal (lit ''could not write local download; destination was not replaced''))
     else if dl_offset st + length bs \<ge> 2 ^ 64 then Inl (CLocal (lit ''download is too large''))
     else Inr \<lparr>dl_offset = dl_offset st + length bs, dl_fnv = fnv, dl_written = dl_written st @ bs\<rparr>)"

text \<open>The loop over the parts: it may not end, since the page decides when it is done.\<close>

partial_function (option) read_parts ::
  "(str \<Rightarrow> bytes option) \<Rightarrow> (bytes \<Rightarrow> bytes \<Rightarrow> bool) \<Rightarrow> ('w \<Rightarrow> (client_error + page_value) \<times> 'w) \<Rightarrow> download_state \<Rightarrow> 'w \<Rightarrow>
     ((client_error + download_state) \<times> 'w) option" where
  "read_parts b64 writes_ok eval_read st w =
     (case eval_read w of
        (Inl e, w') \<Rightarrow> Some (Inl e, w')
      | (Inr part, w') \<Rightarrow>
          (case take_part b64 writes_ok part st of
             Inl e \<Rightarrow> Some (Inl e, w')
           | Inr st' \<Rightarrow>
               if pv_done part = Some True then Some (Inr st', w') else read_parts b64 writes_ok eval_read st' w'))"

text \<open>
  What a download works with: the page, asked through the controller (\<open>ev_capture\<close>, \<open>ev_resolve\<close>,
  \<open>ev_begin\<close>, \<open>ev_read\<close>, \<open>ev_cleanup\<close> are the evaluations of its scripts, an expired session or a
  failed process being errors), and the disk, a map from paths. \<open>ds_temporary\<close> is the fresh path
  beside the destination; \<open>ds_commits\<close> says whether flushing and renaming succeed.
\<close>

record 'w page_api =
  ev_capture :: "'w \<Rightarrow> (client_error + page_value) \<times> 'w"
  ev_resolve :: "str \<Rightarrow> 'w \<Rightarrow> (client_error + page_value) \<times> 'w"
  ev_begin :: "'w \<Rightarrow> (client_error + page_value) \<times> 'w"
  ev_read :: "'w \<Rightarrow> (client_error + page_value) \<times> 'w"
  ev_cleanup :: "'w \<Rightarrow> (client_error + page_value) \<times> 'w"

record disk_api =
  ds_resolve :: "str \<Rightarrow> client_error + str"
  ds_temporary :: str
  ds_writes :: "bytes \<Rightarrow> bytes \<Rightarrow> bool"
  ds_flushes :: bool
  ds_renames :: bool

definition transfer ::
  "(str \<Rightarrow> bytes option) \<Rightarrow> disk_api \<Rightarrow> 'w page_api \<Rightarrow> str \<Rightarrow> str \<Rightarrow> 'w \<Rightarrow> ((client_error + download_state) \<times> 'w) option" where
  "transfer b64 disk page key selector w =
     (case ev_capture page w of
        (Inl e, w1) \<Rightarrow> Some (Inl e, w1)
      | (Inr _, w1) \<Rightarrow>
     (case ev_resolve page selector w1 of
        (Inl e, w2) \<Rightarrow> Some (Inl e, w2)
      | (Inr resolved, w2) \<Rightarrow>
          if pv_value resolved \<noteq> Some key
          then Some (Inl (CLocal (lit ''download requires a link in the current page or a same-origin frame; cross-origin frames are unsupported'')), w2)
          else
     (case ev_begin page w2 of
        (Inl e, w3) \<Rightarrow> Some (Inl e, w3)
      | (Inr begun, w3) \<Rightarrow>
          if pv_ready begun \<noteq> Some True
          then Some (Inl (CLocal (lit ''download requires an ordinary same-origin HTTP link or blob/data link; button, script, POST and cross-origin downloads are unsupported'')), w3)
          else read_parts b64 (ds_writes disk) (ev_read page) download_start w3)))"

text \<open>\<open>AtomicDownload\<close>: the temporary file takes the bytes; it replaces the destination at the end, and is
  removed if that is not reached.\<close>

definition commit_download :: "disk_api \<Rightarrow> str \<Rightarrow> bytes \<Rightarrow> (str \<Rightarrow> bytes option) \<Rightarrow> (client_error + str) \<times> (str \<Rightarrow> bytes option)" where
  "commit_download disk destination bs files =
     (if \<not> ds_flushes disk
      then (Inl (CLocal (lit ''could not flush local download; destination was not replaced'')), files(ds_temporary disk := None))
      else if \<not> ds_renames disk
      then (Inl (CLocal (lit ''could not finalize local download; destination was not replaced'')), files(ds_temporary disk := None))
      else (Inr destination, files(destination := Some bs, ds_temporary disk := None)))"

text \<open>\<open>download_local\<close>, with the digest of the bytes as a parameter; \<open>key\<close> is the fresh attribute name.\<close>

definition download_local ::
  "(str \<Rightarrow> bytes option) \<Rightarrow> (bytes \<Rightarrow> str) \<Rightarrow> disk_api \<Rightarrow> 'w page_api \<Rightarrow> str \<Rightarrow> str list \<Rightarrow> 'w \<Rightarrow> (str \<Rightarrow> bytes option) \<Rightarrow>
     ((client_error + nat \<times> str \<times> str) \<times> 'w \<times> (str \<Rightarrow> bytes option)) option" where
  "download_local b64 sha256 disk page key args w files =
     (case tryE (download_arguments args) (\<lambda>(selector, path, options).
         tryE (ds_resolve disk path) (\<lambda>destination. Inr (selector, destination))) of
        Inl e \<Rightarrow> Some (Inl e, w, files)
      | Inr (selector, destination) \<Rightarrow>
          let started = files(ds_temporary disk := Some []) in
          Option.bind (transfer b64 disk page key selector w) (\<lambda>(r, w1).
            let w2 = snd (ev_cleanup page w1) in
            Some (case r of
              Inl e \<Rightarrow> (Inl e, w2, started(ds_temporary disk := None))
            | Inr st \<Rightarrow>
                let written = started(ds_temporary disk := Some (dl_written st)) in
                case commit_download disk destination (dl_written st) written of
                  (Inl e, files') \<Rightarrow> (Inl e, w2, files')
                | (Inr path, files') \<Rightarrow> (Inr (dl_offset st, sha256 (dl_written st), path), w2, files'))))"

section \<open>What a finished download has checked\<close>

text \<open>The parts of a page that make up \<open>bs\<close>: in order and without gaps, each reported with the checksum of
  all bytes up to its end, the last one empty and marked as the end.\<close>

fun verified :: "(str \<Rightarrow> bytes option) \<Rightarrow> bytes \<Rightarrow> page_value list \<Rightarrow> bytes \<Rightarrow> bool" where
  "verified b64 so_far [] bs \<longleftrightarrow> False"
| "verified b64 so_far (part # parts) bs \<longleftrightarrow>
     (\<exists>b. Option.bind (pv_bytes part) b64 = Some b \<and> pv_offset part = Some (length so_far) \<and>
        pv_fnv part = Some (unat (fnv_bytes FNV_INITIAL (so_far @ b))) \<and> length b \<le> download_chunk_bytes \<and>
        (if parts = [] then pv_done part = Some True \<and> b = [] \<and> bs = so_far
         else pv_done part = Some False \<and> verified b64 (so_far @ b) parts bs))"

text \<open>The answers of a page to a number of reads.\<close>

fun page_answers :: "('w \<Rightarrow> (client_error + page_value) \<times> 'w) \<Rightarrow> 'w \<Rightarrow> page_value list \<Rightarrow> 'w \<Rightarrow> bool" where
  "page_answers eval_read w [] w' \<longleftrightarrow> w' = w"
| "page_answers eval_read w (part # parts) w' \<longleftrightarrow>
     (\<exists>w1. eval_read w = (Inr part, w1) \<and> page_answers eval_read w1 parts w')"

lemma fnv_bytes_append: "fnv_bytes fnv (a @ b) = fnv_bytes (fnv_bytes fnv a) b"
  by (simp add: fnv_bytes_def)

definition download_ok :: "download_state \<Rightarrow> bool" where
  "download_ok st \<longleftrightarrow> dl_offset st = length (dl_written st) \<and> dl_fnv st = fnv_bytes FNV_INITIAL (dl_written st)"

lemma decode_chunk_Inr:
  assumes "decode_chunk b64 part off = Inr b"
  shows "Option.bind (pv_bytes part) b64 = Some b \<and> pv_offset part = Some off \<and> length b \<le> download_chunk_bytes \<and>
    (pv_done part = Some True \<and> b = [] \<or> pv_done part = Some False \<and> b \<noteq> [])"
proof -
  obtain encoded where e: "pv_bytes part = Some encoded"
    using assms by (cases "pv_bytes part") (simp_all add: decode_chunk_def Let_def split: if_splits)
  obtain finished where f: "pv_done part = Some finished"
    using assms by (cases "pv_done part") (simp_all add: decode_chunk_def Let_def split: if_splits)
  obtain bs where bs: "b64 encoded = Some bs"
    using assms e by (cases "b64 encoded") (simp_all add: decode_chunk_def Let_def split: if_splits)
  show ?thesis
    using assms unfolding decode_chunk_def Let_def by (cases finished) (simp_all add: e f bs split: if_splits)
qed

lemma take_part_Inr:
  assumes "take_part b64 writes_ok part st = Inr st'" "download_ok st"
  shows "\<exists>b. Option.bind (pv_bytes part) b64 = Some b \<and> pv_offset part = Some (length (dl_written st)) \<and> length b \<le> download_chunk_bytes \<and>
    (pv_done part = Some True \<and> b = [] \<or> pv_done part = Some False \<and> b \<noteq> []) \<and>
    pv_fnv part = Some (unat (fnv_bytes FNV_INITIAL (dl_written st @ b))) \<and> dl_written st' = dl_written st @ b \<and> download_ok st'"
proof -
  from assms(1) obtain b where b: "decode_chunk b64 part (dl_offset st) = Inr b"
    "pv_fnv part = Some (unat (fnv_bytes (dl_fnv st) b))"
    "st' = \<lparr>dl_offset = dl_offset st + length b, dl_fnv = fnv_bytes (dl_fnv st) b, dl_written = dl_written st @ b\<rparr>"
    by (auto simp: take_part_def tryE_Inr_iff Let_def split: if_splits)
  with decode_chunk_Inr [OF b(1)] assms(2) show ?thesis by (auto simp: download_ok_def fnv_bytes_append)
qed

definition read_verified where
  "read_verified b64 (writes_ok :: bytes \<Rightarrow> bytes \<Rightarrow> bool) eval_read st w y \<longleftrightarrow> (download_ok st \<longrightarrow>
     (\<forall>st' w'. y = (Inr st', w') \<longrightarrow>
        (\<exists>parts. parts \<noteq> [] \<and> page_answers eval_read w parts w' \<and> verified b64 (dl_written st) parts (dl_written st') \<and> download_ok st')))"

lemma read_parts_verified:
  assumes "read_parts b64 writes_ok eval_read st w = Some y"
  shows "read_verified b64 writes_ok eval_read st w y"
  using assms
proof (rule read_parts.raw_induct [where P = read_verified, rotated])
  fix rec b64 writes_ok eval_read st w y
  assume 1: "\<And>b64 writes_ok eval_read st w y. rec b64 writes_ok eval_read st w = Some y \<Longrightarrow> read_verified b64 writes_ok eval_read st w y"
    "(case eval_read w of (Inl e, w') \<Rightarrow> Some (Inl e, w')
      | (Inr part, w') \<Rightarrow> (case take_part b64 writes_ok part st of Inl e \<Rightarrow> Some (Inl e, w')
          | Inr st' \<Rightarrow> if pv_done part = Some True then Some (Inr st', w') else rec b64 writes_ok eval_read st' w')) = Some y"
  show "read_verified b64 writes_ok eval_read st w y"
    unfolding read_verified_def
  proof (intro impI allI)
    fix st' w' assume ok: "download_ok st" and y: "y = (Inr st', w')"
    from 1(2) y obtain part w1 st1 where read: "eval_read w = (Inr part, w1)" and part: "take_part b64 writes_ok part st = Inr st1"
      and rest: "(if pv_done part = Some True then Some (Inr st1, w1) else rec b64 writes_ok eval_read st1 w1) = Some y"
      by (auto split: prod.splits sum.splits)
    from take_part_Inr [OF part ok] obtain b where b: "Option.bind (pv_bytes part) b64 = Some b"
      "pv_offset part = Some (length (dl_written st))" "length b \<le> download_chunk_bytes"
      "pv_done part = Some True \<and> b = [] \<or> pv_done part = Some False \<and> b \<noteq> []"
      "pv_fnv part = Some (unat (fnv_bytes FNV_INITIAL (dl_written st @ b)))" "dl_written st1 = dl_written st @ b" "download_ok st1" by blast
    show "\<exists>parts. parts \<noteq> [] \<and> page_answers eval_read w parts w' \<and> verified b64 (dl_written st) parts (dl_written st') \<and> download_ok st'"
    proof (cases "pv_done part = Some True")
      case True
      with rest y b read show ?thesis by (intro exI [of _ "[part]"]) auto
    next
      case False
      with rest have "read_verified b64 writes_ok eval_read st1 w1 y" using 1(1) by simp
      with b(7) y obtain parts where "parts \<noteq> []" "page_answers eval_read w1 parts w'"
        "verified b64 (dl_written st1) parts (dl_written st')" "download_ok st'"
        unfolding read_verified_def by blast
      with b read False show ?thesis by (intro exI [of _ "part # parts"]) auto
    qed
  qed
qed

lemma commit_outcome:
  "commit_download disk destination bs files = (r, files') \<Longrightarrow>
     (\<exists>e. r = Inl e) \<and> files' = files(ds_temporary disk := None) \<or>
     r = Inr destination \<and> files' = files(destination := Some bs, ds_temporary disk := None)"
  by (auto simp: commit_download_def split: if_splits)

text \<open>The two ends of a download.\<close>

lemma download_outcome:
  assumes "download_local b64 sha256 disk page key args w files = Some (r, w', files')"
  shows "(\<exists>e. r = Inl e) \<and> (files' = files \<or> files' = files(ds_temporary disk := None)) \<or>
    (\<exists>selector given options st w1 path. download_arguments args = Inr (selector, given, options) \<and> ds_resolve disk given = Inr path \<and>
       transfer b64 disk page key selector w = Some (Inr st, w1) \<and> r = Inr (dl_offset st, sha256 (dl_written st), path) \<and>
       files' = files(path := Some (dl_written st), ds_temporary disk := None))"
proof (cases "download_arguments args")
  case (Inl e)
  with assms show ?thesis by (auto simp: download_local_def)
next
  case (Inr parsed)
  obtain selector given options where parsed: "parsed = (selector, given, options)" by (cases parsed)
  show ?thesis
  proof (cases "ds_resolve disk given")
    case (Inl e)
    with assms Inr parsed show ?thesis by (auto simp: download_local_def \<open>download_arguments args = Inr parsed\<close>)
  next
    case path: (Inr path)
    from assms Inr parsed path obtain x w1 where t: "transfer b64 disk page key selector w = Some (x, w1)"
      by (cases "transfer b64 disk page key selector w") (auto simp: download_local_def Let_def)
    show ?thesis
    proof (cases x)
      case (Inl e)
      with assms Inr parsed path t show ?thesis by (auto simp: download_local_def \<open>download_arguments args = Inr parsed\<close>)
    next
      case st: (Inr st)
      obtain y f where c: "commit_download disk path (dl_written st) (files(ds_temporary disk := Some (dl_written st))) = (y, f)" by fastforce
      with assms Inr parsed path t st have out: "files' = f" "r = map_sum id (\<lambda>p. (dl_offset st, sha256 (dl_written st), p)) y"
        by (cases y; simp add: download_local_def Let_def)+
      from commit_outcome [OF c] show ?thesis
      proof
        assume "(\<exists>e. y = Inl e) \<and> f = files(ds_temporary disk := Some (dl_written st), ds_temporary disk := None)"
        with out show ?thesis by auto
      next
        assume "y = Inr path \<and> f = files(ds_temporary disk := Some (dl_written st), path := Some (dl_written st), ds_temporary disk := None)"
        moreover have "files(ds_temporary disk := Some bs, path := Some bs, ds_temporary disk := None) =
            files(path := Some bs, ds_temporary disk := None)" for bs by (simp add: fun_eq_iff)
        ultimately have "r = Inr (dl_offset st, sha256 (dl_written st), path)"
          "files' = files(path := Some (dl_written st), ds_temporary disk := None)" using out by simp_all
        with Inr parsed path t st show ?thesis by blast
      qed
    qed
  qed
qed

lemma fresh_removed: "files t = None \<Longrightarrow> (files :: 'a \<Rightarrow> 'b option)(t := None) = files"
  by auto

lemma transfer_verified:
  assumes "transfer b64 disk page key selector w = Some (Inr st, w')"
  shows "\<exists>w1 parts. page_answers (ev_read page) w1 parts w' \<and> verified b64 [] parts (dl_written st) \<and> dl_offset st = length (dl_written st)"
proof -
  from assms obtain w1 where "read_parts b64 (ds_writes disk) (ev_read page) download_start w1 = Some (Inr st, w')"
    by (auto simp: transfer_def split: sum.splits prod.splits if_splits)
  from read_parts_verified [OF this] show ?thesis
    by (auto simp: read_verified_def download_start_def download_ok_def fnv_bytes_def)
qed

text \<open>C14: a download is all or nothing. Whatever the page answers and wherever it fails, the files of the
  disk are exactly as before unless the download succeeds; then only the destination has changed, and
  it holds the bytes that the page has handed over in order and without gaps up to its end mark, each
  part with the checksum of everything up to it; the size and the digest that are reported are those
  of these bytes.\<close>

theorem download_atomic:
  assumes "download_local b64 sha256 disk page key args w files = Some (r, w', files')" "files (ds_temporary disk) = None"
  shows "case r of
      Inl _ \<Rightarrow> files' = files
    | Inr (amount, digest, path) \<Rightarrow>
        \<exists>selector given options parts bs w1 w2. download_arguments args = Inr (selector, given, options) \<and> ds_resolve disk given = Inr path \<and>
          page_answers (ev_read page) w1 parts w2 \<and> verified b64 [] parts bs \<and>
          files' = files(path := Some bs, ds_temporary disk := None) \<and> amount = length bs \<and> digest = sha256 bs"
  using download_outcome [OF assms(1)]
proof
  assume "(\<exists>e. r = Inl e) \<and> (files' = files \<or> files' = files(ds_temporary disk := None))"
  moreover have "files(ds_temporary disk := None) = files" using assms(2) by (rule fresh_removed)
  ultimately show ?thesis by auto
next
  assume "\<exists>selector given options st w1 path. download_arguments args = Inr (selector, given, options) \<and> ds_resolve disk given = Inr path \<and>
       transfer b64 disk page key selector w = Some (Inr st, w1) \<and> r = Inr (dl_offset st, sha256 (dl_written st), path) \<and>
       files' = files(path := Some (dl_written st), ds_temporary disk := None)"
  with transfer_verified [of b64 disk page key] show ?thesis by fastforce
qed

section \<open>The page's side\<close>

text \<open>The state of \<open>begin_script\<close> and \<open>read_script\<close> in the page: what the reader will still return, the pending
  bytes, the offset, the checksum and the expected length, if the response had one.\<close>

record page_reader =
  pr_rest :: "bytes list"
  pr_pending :: bytes
  pr_offset :: nat
  pr_fnv :: "32 word"
  pr_expected :: "nat option"

fun refill :: "bytes \<Rightarrow> bytes list \<Rightarrow> bytes \<times> bytes list" where
  "refill [] (c # cs) = refill c cs"
| "refill pending cs = (pending, cs)"

definition transfer_failed :: client_error where
  "transfer_failed = CLocal (lit ''local file transfer failed; no successful transfer was confirmed'')"

definition page_part :: "nat \<Rightarrow> bool \<Rightarrow> str \<Rightarrow> 32 word \<Rightarrow> page_value" where
  "page_part offset finished encoded fnv = \<lparr>pv_offset = Some offset, pv_done = Some finished, pv_bytes = Some encoded,
     pv_fnv = Some (unat fnv), pv_ready = None, pv_value = None\<rparr>"

definition script_read :: "(bytes \<Rightarrow> str) \<Rightarrow> page_reader \<Rightarrow> (client_error + page_value) \<times> page_reader" where
  "script_read btoa s =
     (case refill (pr_pending s) (pr_rest s) of
        (pending, rest) \<Rightarrow>
          let s = s\<lparr>pr_pending := pending, pr_rest := rest\<rparr> in
          if pending = [] then
            (if pr_expected s \<noteq> None \<and> pr_expected s \<noteq> Some (pr_offset s) then (Inl transfer_failed, s)
             else (Inr (page_part (pr_offset s) True [] (pr_fnv s)), s))
          else
            let b = take download_chunk_bytes pending;
                fnv = fnv_bytes (pr_fnv s) b;
                s' = s\<lparr>pr_pending := drop download_chunk_bytes pending, pr_offset := pr_offset s + length b, pr_fnv := fnv\<rparr>
            in if 2 ^ 53 \<le> pr_offset s' then (Inl transfer_failed, s')
               else (Inr (page_part (pr_offset s) False (btoa b) fnv), s'))"

text \<open>The element that the resolver has captured, and the answer to the request for its target.\<close>

record page_link =
  pl_captures :: nat
  pl_connected :: bool
  pl_tag :: str
  pl_anchor :: bool
  pl_href :: bool
  pl_onclick :: bool
  pl_username :: str
  pl_password :: str
  pl_protocol :: str
  pl_same_origin :: bool

record page_response =
  ps_ok :: bool
  ps_opaque :: bool
  ps_length :: "str option"
  ps_encoding :: "str option"
  ps_body :: "bytes list option"

definition link_allowed :: "page_link \<Rightarrow> bool" where
  "link_allowed l \<longleftrightarrow> pl_captures l = 1 \<and> pl_connected l \<and> pl_tag l = lit ''A'' \<and> pl_anchor l \<and> pl_href l \<and> \<not> pl_onclick l \<and>
     pl_username l = [] \<and> pl_password l = [] \<and>
     (if pl_protocol l \<in> lit ` {''http:'', ''https:'', ''blob:''} then pl_same_origin l else pl_protocol l = lit ''data:'')"

text \<open>The announced length counts only where the browser does not decode the response; \<open>Number.isSafeInteger\<close>
  bounds it.\<close>

definition expected_length :: "page_response \<Rightarrow> nat option" where
  "expected_length r =
     (case ps_length r of
        Some l \<Rightarrow> if (ps_encoding r = None \<or> ps_encoding r = Some []) \<and> l \<noteq> [] \<and> list_all is_ascii_digit l \<and> dec_value l < 2 ^ 53
          then Some (dec_value l) else None
      | None \<Rightarrow> None)"

definition response_parts :: "page_response \<Rightarrow> bytes list" where
  "response_parts r = (case ps_body r of Some parts \<Rightarrow> parts | None \<Rightarrow> [])"

definition script_begin ::
  "page_link \<Rightarrow> page_response option \<Rightarrow> page_reader \<Rightarrow> (client_error + page_value) \<times> page_reader" where
  "script_begin link fetched s =
     (let answer = page_part 0 True [] 0 in
      if \<not> link_allowed link then (Inr (answer\<lparr>pv_ready := Some False\<rparr>), s)
      else case fetched of
        None \<Rightarrow> (Inl transfer_failed, s)
      | Some r \<Rightarrow>
          if \<not> ps_ok r \<or> ps_opaque r then (Inl transfer_failed, s)
          else (Inr (answer\<lparr>pv_ready := Some True\<rparr>),
            \<lparr>pr_rest = response_parts r, pr_pending = [], pr_offset = 0, pr_fnv = FNV_INITIAL, pr_expected = expected_length r\<rparr>))"

text \<open>A page with the link, in which the resolver finds it.\<close>

definition script_page :: "(bytes \<Rightarrow> str) \<Rightarrow> str \<Rightarrow> page_link \<Rightarrow> page_response option \<Rightarrow> page_reader page_api" where
  "script_page btoa key link fetched =
     (let answer = page_part 0 True [] 0 in
     \<lparr>ev_capture = (\<lambda>s. (Inr (answer\<lparr>pv_ready := Some True\<rparr>), s)),
      ev_resolve = (\<lambda>_ s. (Inr (answer\<lparr>pv_value := Some key\<rparr>), s)),
      ev_begin = script_begin link fetched,
      ev_read = script_read btoa,
      ev_cleanup = (\<lambda>s. (Inr (answer\<lparr>pv_ready := Some True\<rparr>), s))\<rparr>)"

text \<open>What the code relies on of base64.\<close>

definition base64_ok :: "(bytes \<Rightarrow> str) \<Rightarrow> (str \<Rightarrow> bytes option) \<Rightarrow> bool" where
  "base64_ok btoa b64 \<longleftrightarrow> (\<forall>b. b64 (btoa b) = Some b \<and> utf8_len (btoa b) \<le> (length b + 2) div 3 * 4) \<and> b64 [] = Some []"

lemma refill_spec: "refill p cs = (q, ds) \<Longrightarrow> q @ concat ds = p @ concat cs \<and> (q = [] \<longrightarrow> ds = [])"
  by (induction p cs rule: refill.induct) auto

text \<open>Both sides agree on the bytes that have passed.\<close>

definition in_step :: "bytes \<Rightarrow> download_state \<Rightarrow> page_reader \<Rightarrow> bool" where
  "in_step bs st s \<longleftrightarrow> bs = dl_written st @ pr_pending s @ concat (pr_rest s) \<and> download_ok st \<and>
     pr_offset s = dl_offset st \<and> pr_fnv s = dl_fnv st"

lemma read_parts_script:
  assumes b64: "base64_ok btoa b64" and writes: "\<And>a b. writes_ok a b" and "length bs < 2 ^ 53"
    and "in_step bs st s"
  shows "\<exists>s'. read_parts b64 writes_ok (script_read btoa) st s =
    Some (if pr_expected s \<noteq> None \<and> pr_expected s \<noteq> Some (length bs) then Inl transfer_failed
      else Inr \<lparr>dl_offset = length bs, dl_fnv = fnv_bytes FNV_INITIAL bs, dl_written = bs\<rparr>, s')"
  using assms(4)
proof (induction "length (pr_pending s @ concat (pr_rest s))" arbitrary: st s rule: less_induct)
  case less
  obtain pending rest where r: "refill (pr_pending s) (pr_rest s) = (pending, rest)" by fastforce
  note spec = refill_spec [OF r]
  from less.prems have st: "dl_offset st = length (dl_written st)" "dl_fnv st = fnv_bytes FNV_INITIAL (dl_written st)"
    and s: "pr_offset s = dl_offset st" "pr_fnv s = dl_fnv st" "bs = dl_written st @ pr_pending s @ concat (pr_rest s)"
    by (auto simp: in_step_def download_ok_def)
  show ?case
  proof (cases "pending = []")
    case True
    with spec s(3) have bs: "bs = dl_written st" by auto
    show ?thesis
    proof (cases "pr_expected s \<noteq> None \<and> pr_expected s \<noteq> Some (length bs)")
      case True
      with \<open>pending = []\<close> r s st bs show ?thesis
        by (subst read_parts.simps) (auto simp: script_read_def Let_def)
    next
      case False
      let ?part = "page_part (pr_offset s) True [] (pr_fnv s)"
      have "take_part b64 writes_ok ?part st = Inr \<lparr>dl_offset = length bs, dl_fnv = fnv_bytes FNV_INITIAL bs, dl_written = bs\<rparr>"
        using b64 writes s st bs assms(3)
        by (simp add: take_part_def decode_chunk_def page_part_def base64_ok_def utf8_len_def fnv_bytes_def)
      with \<open>pending = []\<close> False r s st bs show ?thesis
        by (subst read_parts.simps) (auto simp: script_read_def Let_def page_part_def)
    qed
  next
    case False
    let ?b = "take download_chunk_bytes pending"
    let ?s = "s\<lparr>pr_pending := drop download_chunk_bytes pending, pr_rest := rest, pr_offset := pr_offset s + length ?b,
        pr_fnv := fnv_bytes (pr_fnv s) ?b\<rparr>"
    let ?part = "page_part (pr_offset s) False (btoa ?b) (fnv_bytes (pr_fnv s) ?b)"
    let ?st = "\<lparr>dl_offset = dl_offset st + length ?b, dl_fnv = fnv_bytes (dl_fnv st) ?b, dl_written = dl_written st @ ?b\<rparr>"
    have "?b \<noteq> []" using False by (simp add: download_chunk_bytes_def)
    have whole: "bs = dl_written st @ ?b @ drop download_chunk_bytes pending @ concat rest"
      using spec s(3) by (simp flip: append_assoc)
    then have small: "dl_offset st + length ?b < 2 ^ 53" using assms(3) st(1) by simp
    then have read: "script_read btoa s = (Inr ?part, ?s)"
      using r False s(1) by (simp add: script_read_def Let_def)
    have len: "utf8_len (btoa ?b) \<le> (download_chunk_bytes + 2) div 3 * 4"
    proof -
      have "utf8_len (btoa ?b) \<le> (length ?b + 2) div 3 * 4" using b64 unfolding base64_ok_def by blast
      also have "\<dots> \<le> (download_chunk_bytes + 2) div 3 * 4" by (intro mult_le_mono1 div_le_mono) simp
      finally show ?thesis .
    qed
    have "take_part b64 writes_ok ?part st = Inr ?st"
      using b64 writes s(1,2) len small \<open>?b \<noteq> []\<close>
      by (simp add: take_part_def decode_chunk_def page_part_def base64_ok_def Let_def)
    then have step: "read_parts b64 writes_ok (script_read btoa) st s = read_parts b64 writes_ok (script_read btoa) ?st ?s"
      by (subst read_parts.simps) (simp add: read page_part_def)
    have "in_step bs ?st ?s"
      using whole st s(1,2) by (simp add: in_step_def download_ok_def fnv_bytes_append)
    moreover have "length (pr_pending ?s @ concat (pr_rest ?s)) < length (pr_pending s @ concat (pr_rest s))"
    proof -
      have "length (pr_pending s @ concat (pr_rest s)) = length (pending @ concat rest)" using spec by (metis)
      then show ?thesis using False by (simp add: download_chunk_bytes_def)
    qed
    ultimately show ?thesis unfolding step using less.hyps [of ?s ?st] by simp
  qed
qed


lemma transfer_script:
  assumes "base64_ok btoa b64" "\<forall>a b. ds_writes disk a b" "link_allowed link" "ps_ok r" "\<not> ps_opaque r"
    and "length (concat (response_parts r)) < 2 ^ 53"
  shows "\<exists>s'. transfer b64 disk (script_page btoa key link (Some r)) key selector w =
    Some (if expected_length r \<noteq> None \<and> expected_length r \<noteq> Some (length (concat (response_parts r))) then Inl transfer_failed
      else Inr \<lparr>dl_offset = length (concat (response_parts r)), dl_fnv = fnv_bytes FNV_INITIAL (concat (response_parts r)),
        dl_written = concat (response_parts r)\<rparr>, s')"
proof -
  let ?bs = "concat (response_parts r)"
  let ?s = "\<lparr>pr_rest = response_parts r, pr_pending = [], pr_offset = 0, pr_fnv = FNV_INITIAL, pr_expected = expected_length r\<rparr>"
  have "in_step ?bs download_start ?s"
    by (simp add: in_step_def download_ok_def download_start_def fnv_bytes_def)
  from read_parts_script [OF assms(1) _ assms(6) this, of "ds_writes disk"] assms(2-5)
  show ?thesis by (simp add: transfer_def script_page_def script_begin_def Let_def page_part_def)
qed

text \<open>C35: a download arrives exactly. Against a page that runs the scripts of the code, the download of a
  link that the code allows ends, however the browser cuts the response into pieces: with the bytes of
  the response at the destination, and with their size and digest --- or, if the response had announced
  another length, with an error and the files as they were. The bytes go through base64 in chunks of
  256 KiB.\<close>

theorem download_exact:
  assumes "base64_ok btoa b64" "\<forall>a b. ds_writes disk a b" "ds_flushes disk" "ds_renames disk" "files (ds_temporary disk) = None"
    and "download_arguments args = Inr (selector, given, options)" "ds_resolve disk given = Inr path"
    and "link_allowed link" "ps_ok r" "\<not> ps_opaque r" "bs = concat (response_parts r)" "length bs < 2 ^ 53"
  shows "\<exists>w'. download_local b64 sha256 disk (script_page btoa key link (Some r)) key args w files =
    Some (if expected_length r = None \<or> expected_length r = Some (length bs)
      then (Inr (length bs, sha256 bs, path), w', files(path := Some bs, ds_temporary disk := None))
      else (Inl transfer_failed, w', files))"
proof -
  obtain s' where t: "transfer b64 disk (script_page btoa key link (Some r)) key selector w =
    Some (if expected_length r \<noteq> None \<and> expected_length r \<noteq> Some (length bs) then Inl transfer_failed
      else Inr \<lparr>dl_offset = length bs, dl_fnv = fnv_bytes FNV_INITIAL bs, dl_written = bs\<rparr>, s')"
    using transfer_script [OF assms(1,2,8,9,10)] assms(11,12) by blast
  have twist: "files(ds_temporary disk := Some bs, path := Some bs, ds_temporary disk := None) =
      files(path := Some bs, ds_temporary disk := None)" by (simp add: fun_eq_iff)
  have same: "files(ds_temporary disk := None) = files" using assms(5) by (rule fresh_removed)
  show ?thesis
    using assms(3,4,6,7) twist same
    by (cases "expected_length r = None \<or> expected_length r = Some (length bs)")
      (simp_all add: download_local_def t commit_download_def)
qed

text \<open>A sample: a text of one character stands for a list of bytes.\<close>

definition sample_btoa :: "bytes \<Rightarrow> str" where
  "sample_btoa b = (if b = [] then [] else [list_encode b])"

definition sample_b64 :: "str \<Rightarrow> bytes option" where
  "sample_b64 s = (case s of [] \<Rightarrow> Some [] | n # _ \<Rightarrow> Some (list_decode n))"

lemma sample_base64: "base64_ok sample_btoa sample_b64"
proof -
  have "utf8_len (sample_btoa b) \<le> (length b + 2) div 3 * 4" for b
  proof (cases b)
    case (Cons x xs)
    have "utf8_width (list_encode b) \<le> 4" by (simp add: utf8_width_def)
    moreover have "1 \<le> (length b + 2) div 3" using Cons div_le_mono [of 3 "length b + 2" 3] by simp
    ultimately show ?thesis using Cons by (simp add: sample_btoa_def utf8_len_def)
  qed (simp add: sample_btoa_def utf8_len_def)
  then show ?thesis by (simp add: base64_ok_def sample_btoa_def sample_b64_def)
qed

definition sample_disk :: disk_api where
  "sample_disk = \<lparr>ds_resolve = Inr, ds_temporary = lit ''.part'', ds_writes = (\<lambda>_ _. True), ds_flushes = True, ds_renames = True\<rparr>"

definition sample_args :: "str list" where "sample_args = map lit [''download'', ''@e1'', ''f'']"

lemma sample_args_parsed: "download_arguments sample_args = Inr (lit ''@e1'', lit ''f'', [])"
  by (simp add: download_arguments_def sample_args_def controller_values_def starts_with_def lit_def numeral_2_eq_2)

definition some_reader :: page_reader where
  "some_reader = \<lparr>pr_rest = [], pr_pending = [], pr_offset = 0, pr_fnv = 0, pr_expected = None\<rparr>"

definition sample_link :: page_link where
  "sample_link = \<lparr>pl_captures = 1, pl_connected = True, pl_tag = lit ''A'', pl_anchor = True, pl_href = True, pl_onclick = False,
     pl_username = [], pl_password = [], pl_protocol = lit ''https:'', pl_same_origin = True\<rparr>"

definition announced :: "bytes list \<Rightarrow> page_response" where
  "announced parts = \<lparr>ps_ok = True, ps_opaque = False, ps_length = Some (lit ''3''), ps_encoding = None, ps_body = Some parts\<rparr>"

lemma announced_three:
  "link_allowed sample_link" "ps_ok (announced parts)" "\<not> ps_opaque (announced parts)" "expected_length (announced parts) = Some 3"
  "response_parts (announced parts) = parts"
  by (simp_all add: link_allowed_def sample_link_def announced_def expected_length_def response_parts_def lit_def is_ascii_digit_def dec_value_def)

theorem download_exact_witness:
  "\<exists>w'. download_local sample_b64 id sample_disk (script_page sample_btoa (lit ''k'') sample_link (Some (announced [[1, 2], [], [3]])))
     (lit ''k'') sample_args some_reader (\<lambda>_. None) =
     Some (Inr (3, [1, 2, 3], lit ''f''), w', (\<lambda>_. None)(lit ''f'' := Some [1, 2, 3], lit ''.part'' := None))"
  using download_exact [OF sample_base64 _ _ _ _ sample_args_parsed _ announced_three(1,2,3) refl, of sample_disk "\<lambda>_. None" "lit ''f''"
      "[[1, 2], [], [3]]" id "lit ''k''" some_reader]
  by (simp add: sample_disk_def announced_three numeral_3_eq_3)

theorem download_atomic_witness:
  "\<exists>w' files'. download_local sample_b64 id sample_disk (script_page sample_btoa (lit ''k'') sample_link (Some (announced [[1, 2]]))) (lit ''k'') sample_args
     some_reader (\<lambda>_. None) = Some (Inl transfer_failed, w', files') \<and> files' = (\<lambda>_. None)"
proof -
  obtain s' where t: "transfer sample_b64 sample_disk (script_page sample_btoa (lit ''k'') sample_link (Some (announced [[1, 2]]))) (lit ''k'') (lit ''@e1'') some_reader =
      Some (Inl transfer_failed, s')"
    using transfer_script [OF sample_base64 _ announced_three(1,2,3), of sample_disk "[[1, 2]]" "lit ''k''" "lit ''@e1''" some_reader]
    by (auto simp: sample_disk_def announced_three)
  then obtain w' files' where run: "download_local sample_b64 id sample_disk (script_page sample_btoa (lit ''k'') sample_link (Some (announced [[1, 2]]))) (lit ''k'')
      sample_args some_reader (\<lambda>_. None) = Some (Inl transfer_failed, w', files')"
    by (simp add: download_local_def sample_args_parsed) (simp add: sample_disk_def Let_def)
  from download_atomic [OF run] run show ?thesis by simp
qed

section \<open>An upload\<close>

text \<open>The loop of \<open>upload_arguments\<close> behind the selector.\<close>

fun upload_words :: "str list \<Rightarrow> client_error + str list \<times> str list" where
  "upload_words [] = Inr ([], [])"
| "upload_words (arg # rest) =
     (if arg \<in> controller_values then
        (case rest of
           [] \<Rightarrow> Inl (CLocal (lit ''browser option requires a value''))
         | v # later \<Rightarrow> tryE (upload_words later) (\<lambda>(files, options). Inr (files, arg # v # options)))
      else if starts_with (lit ''-'') arg then
        (case rest of
           v # later \<Rightarrow>
             if v \<in> truth_words then tryE (upload_words later) (\<lambda>(files, options). Inr (files, arg # v # options))
             else tryE (upload_words rest) (\<lambda>(files, options). Inr (files, arg # options))
         | [] \<Rightarrow> Inr ([], [arg]))
      else tryE (upload_words rest) (\<lambda>(files, options). Inr (arg # files, options)))"

definition upload_arguments :: "str list \<Rightarrow> client_error + str \<times> str list \<times> str list" where
  "upload_arguments args =
     (case first_controller_command_index args of
        None \<Rightarrow> Inl (CLocal (lit ''upload command is missing''))
      | Some i \<Rightarrow>
          if args ! i \<noteq> lit ''upload'' then Inl (CLocal (lit ''upload command is missing''))
          else let missing = CLocal (lit ''upload requires an input selector and local file paths'') in
          if length args \<le> i + 1 \<or> args ! (i + 1) = [] then Inl missing
          else tryE (upload_words (drop (i + 2) args)) (\<lambda>(files, options).
            if files = [] then Inl missing else Inr (args ! (i + 1), files, take i args @ options)))"

text \<open>A local file: what is known when it is opened, the reads until its end --- of at most a mebibyte each,
  the last one failing if \<open>lf_read_fails\<close> --- and what is known of it after them.\<close>

record local_file =
  lf_name :: str
  lf_mime :: str
  lf_size :: nat
  lf_modified :: "instant option"
  lf_reads :: "bytes list"
  lf_read_fails :: bool
  lf_size_after :: nat
  lf_modified_after :: "instant option"

record file_metadata =
  fm_name :: str
  fm_type :: str
  fm_last_modified :: nat

record expected_file =
  xf_name :: str
  xf_size :: nat
  xf_sha256 :: str
  xf_fnv :: "32 word"

text \<open>The evaluations of the upload's scripts: what is read of their answers.\<close>

record 'w upload_api =
  ua_capture :: "'w \<Rightarrow> (client_error + unit) \<times> 'w"
  ua_resolve :: "str \<Rightarrow> 'w \<Rightarrow> (client_error + str option) \<times> 'w"
  ua_ready :: "nat \<Rightarrow> 'w \<Rightarrow> (client_error + bool option) \<times> 'w"
  ua_chunk :: "str \<Rightarrow> 'w \<Rightarrow> (client_error + nat option) \<times> 'w"
  ua_build :: "file_metadata \<Rightarrow> 'w \<Rightarrow> (client_error + nat option \<times> str option) \<times> 'w"
  ua_commit :: "expected_file list \<Rightarrow> 'w \<Rightarrow> (client_error + nat option) \<times> 'w"
  ua_cleanup :: "'w \<Rightarrow> (client_error + unit) \<times> 'w"

fun upload_chunks :: "(bytes \<Rightarrow> str) \<Rightarrow> 'w upload_api \<Rightarrow> bytes list \<Rightarrow> nat \<times> 32 word \<Rightarrow> ('w, client_error, nat \<times> 32 word) act" where
  "upload_chunks btoa page [] s = okA s"
| "upload_chunks btoa page (b # reads) (sent, fnv) =
     bindA (ua_chunk page (btoa b)) (\<lambda>received.
       if received \<noteq> Some (length b) then errA (CProtocol (lit ''local upload chunk was not acknowledged''))
       else upload_chunks btoa page reads (sent + length b, fnv_bytes fnv b))"

text \<open>The time of the last change, in milliseconds since the epoch; earlier times count as zero.\<close>

definition last_modified :: "instant option \<Rightarrow> nat" where
  "last_modified modified = (case modified of Some t \<Rightarrow> if t < 0 then 0 else min (nat (t div 10 ^ 6)) (2 ^ 64 - 1) | None \<Rightarrow> 0)"

definition upload_file ::
  "(bytes \<Rightarrow> str) \<Rightarrow> (bytes \<Rightarrow> str) \<Rightarrow> 'w upload_api \<Rightarrow> local_file \<Rightarrow> ('w, client_error, expected_file) act" where
  "upload_file btoa sha256 page f =
     bindA (upload_chunks btoa page (lf_reads f) (0, FNV_INITIAL)) (\<lambda>(sent, fnv).
     if lf_read_fails f then errA (CLocal (lit ''could not read local upload bytes''))
     else if sent \<noteq> lf_size f \<or> lf_size_after f \<noteq> lf_size f \<or> lf_modified_after f \<noteq> lf_modified f
     then errA (CLocal (lit ''local file changed during upload; retry with a stable file''))
     else bindA (ua_build page \<lparr>fm_name = lf_name f, fm_type = lf_mime f, fm_last_modified = last_modified (lf_modified f)\<rparr>) (\<lambda>(built_size, built_name).
       if built_size \<noteq> Some sent \<or> built_name \<noteq> Some (lf_name f)
       then errA (CProtocol (lit ''local upload file construction failed''))
       else okA \<lparr>xf_name = lf_name f, xf_size = sent, xf_sha256 = sha256 (concat (lf_reads f)), xf_fnv = fnv\<rparr>))"

fun upload_files ::
  "(bytes \<Rightarrow> str) \<Rightarrow> (bytes \<Rightarrow> str) \<Rightarrow> 'w upload_api \<Rightarrow> local_file list \<Rightarrow> ('w, client_error, expected_file list) act" where
  "upload_files btoa sha256 page [] = okA []"
| "upload_files btoa sha256 page (f # fs) =
     bindA (upload_file btoa sha256 page f) (\<lambda>e. bindA (upload_files btoa sha256 page fs) (\<lambda>es. okA (e # es)))"

definition upload_transfer ::
  "(bytes \<Rightarrow> str) \<Rightarrow> (bytes \<Rightarrow> str) \<Rightarrow> 'w upload_api \<Rightarrow> str \<Rightarrow> str \<Rightarrow> local_file list \<Rightarrow> ('w, client_error, unit) act" where
  "upload_transfer btoa sha256 page key selector fs =
     bindA (ua_capture page) (\<lambda>_.
     bindA (ua_resolve page selector) (\<lambda>captured.
     if captured \<noteq> Some key
     then errA (CLocal (lit ''file input could not be safely resolved; cross-origin frames are unsupported''))
     else bindA (ua_ready page (length fs)) (\<lambda>ready.
     if ready \<noteq> Some True then errA (CLocal (lit ''file input could not be resolved safely''))
     else bindA (upload_files btoa sha256 page fs) (\<lambda>expected.
     bindA (ua_commit page expected) (\<lambda>uploaded.
     if uploaded \<noteq> Some (length fs) then errA (CProtocol (lit ''local upload was not confirmed'')) else okA ())))))"

text \<open>\<open>upload_local\<close> with opened files: the page is cleaned up on every path.\<close>

definition upload_local ::
  "(bytes \<Rightarrow> str) \<Rightarrow> (bytes \<Rightarrow> str) \<Rightarrow> 'w upload_api \<Rightarrow> str \<Rightarrow> (str \<Rightarrow> client_error + local_file) \<Rightarrow> str list \<Rightarrow> ('w, client_error, nat) act" where
  "upload_local btoa sha256 page key open_file args w =
     (case tryE (upload_arguments args) (\<lambda>(selector, paths, options).
         tryE (traverseE open_file paths) (\<lambda>fs. Inr (selector, fs))) of
        Inl e \<Rightarrow> (Inl e, w)
      | Inr (selector, fs) \<Rightarrow>
          (case upload_transfer btoa sha256 page key selector fs w of
             (r, w1) \<Rightarrow> (tryE r (\<lambda>_. Inr (length fs)), snd (ua_cleanup page w1))))"

section \<open>The page's side of an upload\<close>

text \<open>
  The scripts of the upload in the page of a file input: the received chunks, the files built from
  them, and the files of the input. An evaluation may be answered --- a script that throws is an error,
  with the text that the helper makes of it ---, may not run at all (the session ended, the process
  did not start), or may run without its answer arriving; the parameter \<open>fate\<close> decides this for each,
  by its number, and gives the error.
\<close>

datatype fate = Answered | NotRun client_error | Lost client_error

record page_file =
  pf_meta :: file_metadata
  pf_bytes :: bytes

record upload_page =
  us_count :: nat
  us_chunks :: "bytes list"
  us_files :: "page_file list"
  us_input :: "page_file list"

definition run_script ::
  "(nat \<Rightarrow> fate) \<Rightarrow> (upload_page \<Rightarrow> str + 'a \<times> upload_page) \<Rightarrow> upload_page \<Rightarrow> (client_error + 'a) \<times> upload_page" where
  "run_script fate script s =
     (let s1 = s\<lparr>us_count := us_count s + 1\<rparr> in
      case fate (us_count s) of
        NotRun e \<Rightarrow> (Inl e, s1)
      | Answered \<Rightarrow> (case script s1 of Inr (x, s2) \<Rightarrow> (Inr x, s2) | Inl m \<Rightarrow> (Inl (CLocal (transfer_detail m)), s1))
      | Lost e \<Rightarrow> (Inl e, case script s1 of Inr (x, s2) \<Rightarrow> s2 | Inl _ \<Rightarrow> s1))"

text \<open>The checks of \<open>commit_script\<close>: names, sizes and digests, or the checksum where the page has no
  \<open>crypto.subtle\<close>.\<close>

definition file_as_expected :: "(bytes \<Rightarrow> str) \<Rightarrow> bool \<Rightarrow> page_file \<Rightarrow> expected_file \<Rightarrow> bool" where
  "file_as_expected sha256 subtle f e \<longleftrightarrow> fm_name (pf_meta f) = xf_name e \<and> length (pf_bytes f) = xf_size e \<and>
     (if subtle then sha256 (pf_bytes f) = xf_sha256 e else fnv_bytes FNV_INITIAL (pf_bytes f) = xf_fnv e)"

definition script_upload ::
  "(nat \<Rightarrow> fate) \<Rightarrow> (bytes \<Rightarrow> str) \<Rightarrow> (str \<Rightarrow> bytes option) \<Rightarrow> str \<Rightarrow> bool \<Rightarrow> bool \<Rightarrow> upload_page upload_api" where
  "script_upload fate sha256 b64 key multiple subtle =
     \<lparr>ua_capture = run_script fate (\<lambda>s. Inr ((), s)),
      ua_resolve = (\<lambda>_. run_script fate (\<lambda>s. Inr (Some key, s))),
      ua_ready = (\<lambda>n. run_script fate (\<lambda>s. if n > 1 \<and> \<not> multiple
        then Inl (lit ''file input does not accept multiple files'')
        else Inr (Some True, s\<lparr>us_chunks := [], us_files := []\<rparr>))),
      ua_chunk = (\<lambda>encoded. run_script fate (\<lambda>s. case b64 encoded of
        None \<Rightarrow> Inl (lit ''invalid base64'') | Some b \<Rightarrow> Inr (Some (length b), s\<lparr>us_chunks := us_chunks s @ [b]\<rparr>))),
      ua_build = (\<lambda>m. run_script fate (\<lambda>s. let f = \<lparr>pf_meta = m, pf_bytes = concat (us_chunks s)\<rparr> in
        Inr ((Some (length (pf_bytes f)), Some (fm_name m)), s\<lparr>us_files := us_files s @ [f], us_chunks := []\<rparr>))),
      ua_commit = (\<lambda>expected. run_script fate (\<lambda>s.
        if length (us_files s) \<noteq> length expected then Inl (lit ''upload file count differs'')
        else if \<not> list_all2 (file_as_expected sha256 subtle) (us_files s) expected then Inl (lit ''upload metadata differs'')
        else Inr (Some (length expected), s\<lparr>us_input := us_files s\<rparr>))),
      ua_cleanup = run_script fate (\<lambda>s. Inr ((), s))\<rparr>"

text \<open>The files as the page should have them.\<close>

definition whole_file :: "local_file \<Rightarrow> page_file" where
  "whole_file f = \<lparr>pf_meta = \<lparr>fm_name = lf_name f, fm_type = lf_mime f, fm_last_modified = last_modified (lf_modified f)\<rparr>,
     pf_bytes = concat (lf_reads f)\<rparr>"

definition stable_file :: "local_file \<Rightarrow> bool" where
  "stable_file f \<longleftrightarrow> \<not> lf_read_fails f \<and> length (concat (lf_reads f)) = lf_size f \<and> lf_size_after f = lf_size f \<and>
     lf_modified_after f = lf_modified f"

lemma run_script_Inr:
  "run_script fate script s = (Inr x, s') \<Longrightarrow> script (s\<lparr>us_count := us_count s + 1\<rparr>) = Inr (x, s')"
  by (auto simp: run_script_def Let_def split: fate.splits sum.splits)

lemma run_script_input:
  assumes "\<And>s x s'. script s = Inr (x, s') \<Longrightarrow> us_input s' = us_input s"
  shows "us_input (snd (run_script fate script s)) = us_input s"
  using assms by (auto simp: run_script_def Let_def split: fate.splits sum.splits)


lemma keepsA_script:
  "(\<And>s x s'. script s = Inr (x, s') \<Longrightarrow> us_input s' = us_input s) \<Longrightarrow> keepsA (\<lambda>s. us_input s = i) (run_script fate script)"
  using run_script_input [of script fate] by (auto simp: keepsA_def)

lemma scripts_keep_input:
  "keepsA (\<lambda>s. us_input s = i) (ua_capture (script_upload fate sha256 b64 key multiple subtle))"
  "keepsA (\<lambda>s. us_input s = i) (ua_resolve (script_upload fate sha256 b64 key multiple subtle) selector)"
  "keepsA (\<lambda>s. us_input s = i) (ua_ready (script_upload fate sha256 b64 key multiple subtle) n)"
  "keepsA (\<lambda>s. us_input s = i) (ua_chunk (script_upload fate sha256 b64 key multiple subtle) encoded)"
  "keepsA (\<lambda>s. us_input s = i) (ua_build (script_upload fate sha256 b64 key multiple subtle) m)"
  "keepsA (\<lambda>s. us_input s = i) (ua_cleanup (script_upload fate sha256 b64 key multiple subtle))"
  by (auto simp: script_upload_def Let_def intro!: keepsA_script split: if_splits option.splits)

lemma keeps_upload_chunks: "keepsA (\<lambda>s. us_input s = i) (upload_chunks btoa (script_upload fate sha256 b64 key multiple subtle) reads acc)"
proof (induction reads arbitrary: acc)
  case Nil
  show ?case by (cases acc) simp
next
  case (Cons b reads)
  show ?case using Cons scripts_keep_input(4) by (cases acc) (auto intro!: keepsA_bindA)
qed

lemma keeps_upload_file: "keepsA (\<lambda>s. us_input s = i) (upload_file btoa sha256 (script_upload fate sha256 b64 key multiple subtle) f)"
  unfolding upload_file_def
  by (intro keepsA_bindA keeps_upload_chunks, clarsimp) (auto intro!: keepsA_bindA scripts_keep_input)

lemma keeps_upload_files: "keepsA (\<lambda>s. us_input s = i) (upload_files btoa sha256 (script_upload fate sha256 b64 key multiple subtle) fs)"
  by (induction fs) (auto intro!: keepsA_bindA keeps_upload_file)

lemma chunks_received:
  assumes "upload_chunks btoa (script_upload fate sha256 b64 key multiple subtle) reads (n, fnv) s = (Inr (n', fnv'), s')" "base64_ok btoa b64"
  shows "us_chunks s' = us_chunks s @ reads \<and> us_files s' = us_files s \<and> n' = n + length (concat reads)"
  using assms(1)
proof (induction reads arbitrary: n fnv s)
  case (Cons b reads)
  from Cons.prems obtain x s1 where one: "ua_chunk (script_upload fate sha256 b64 key multiple subtle) (btoa b) s = (Inr x, s1)"
    and rest: "upload_chunks btoa (script_upload fate sha256 b64 key multiple subtle) reads (n + length b, fnv_bytes fnv b) s1 = (Inr (n', fnv'), s')"
    by (auto simp: bindA_Inr split: if_splits)
  from one assms(2) have "us_chunks s1 = us_chunks s @ [b]" "us_files s1 = us_files s"
    by (auto simp: script_upload_def base64_ok_def dest!: run_script_Inr)
  with Cons.IH [OF rest] show ?case by simp
qed simp

definition expected_of :: "(bytes \<Rightarrow> str) \<Rightarrow> local_file \<Rightarrow> expected_file \<Rightarrow> bool" where
  "expected_of sha256 f e \<longleftrightarrow> xf_name e = lf_name f \<and> xf_size e = length (concat (lf_reads f)) \<and> xf_sha256 e = sha256 (concat (lf_reads f))"

lemma file_received:
  assumes "upload_file btoa sha256 (script_upload fate sha256 b64 key multiple subtle) f s = (Inr e, s')" "base64_ok btoa b64" "us_chunks s = []"
  shows "stable_file f \<and> us_files s' = us_files s @ [whole_file f] \<and> us_chunks s' = [] \<and> expected_of sha256 f e"
proof -
  from assms(1) obtain n fnv s1 where up: "upload_chunks btoa (script_upload fate sha256 b64 key multiple subtle) (lf_reads f) (0, FNV_INITIAL) s = (Inr (n, fnv), s1)"
    and stable: "\<not> lf_read_fails f" "n = lf_size f" "lf_size_after f = lf_size f" "lf_modified_after f = lf_modified f"
    and e: "e = \<lparr>xf_name = lf_name f, xf_size = n, xf_sha256 = sha256 (concat (lf_reads f)), xf_fnv = fnv\<rparr>"
    and build: "\<exists>x. ua_build (script_upload fate sha256 b64 key multiple subtle)
      \<lparr>fm_name = lf_name f, fm_type = lf_mime f, fm_last_modified = last_modified (lf_modified f)\<rparr> s1 = (Inr x, s')"
    by (auto simp: upload_file_def bindA_Inr split: if_splits)
  from chunks_received [OF up assms(2)] assms(3)
  have c: "us_chunks s1 = lf_reads f" "us_files s1 = us_files s" "n = length (concat (lf_reads f))" by simp_all
  from build c(1,2) have "us_files s' = us_files s @ [whole_file f] \<and> us_chunks s' = []"
    by (auto simp: script_upload_def whole_file_def Let_def dest!: run_script_Inr)
  with stable c e show ?thesis by (simp add: stable_file_def expected_of_def)
qed

lemma files_received:
  assumes "upload_files btoa sha256 (script_upload fate sha256 b64 key multiple subtle) fs s = (Inr es, s')" "base64_ok btoa b64" "us_chunks s = []"
  shows "list_all stable_file fs \<and> us_files s' = us_files s @ map whole_file fs \<and> us_chunks s' = [] \<and> list_all2 (expected_of sha256) fs es"
  using assms(1,3)
proof (induction fs arbitrary: s es)
  case (Cons f fs)
  from Cons.prems(1) obtain e s1 es' where one: "upload_file btoa sha256 (script_upload fate sha256 b64 key multiple subtle) f s = (Inr e, s1)"
    and rest: "upload_files btoa sha256 (script_upload fate sha256 b64 key multiple subtle) fs s1 = (Inr es', s')" and es: "es = e # es'"
    by (auto simp: bindA_Inr)
  from file_received [OF one assms(2) Cons.prems(2)] Cons.IH [OF rest] es show ?case by simp
qed simp

lemma commit_input:
  assumes "ua_commit (script_upload fate sha256 b64 key multiple subtle) es s = (r, s')"
  shows "us_input s' \<in> {us_input s, us_files s} \<and> (\<forall>n. r = Inr n \<longrightarrow> us_input s' = us_files s)"
  using assms by (auto simp: script_upload_def run_script_def Let_def split: fate.splits sum.splits if_splits)

text \<open>Everything before the commit.\<close>

definition upload_prepared where
  "upload_prepared btoa sha256 page key selector fs =
     bindA (ua_capture page) (\<lambda>_. bindA (ua_resolve page selector) (\<lambda>captured.
       if captured \<noteq> Some key
       then errA (CLocal (lit ''file input could not be safely resolved; cross-origin frames are unsupported''))
       else bindA (ua_ready page (length fs)) (\<lambda>ready.
         if ready \<noteq> Some True then errA (CLocal (lit ''file input could not be resolved safely''))
         else upload_files btoa sha256 page fs)))"

lemma upload_transfer_split:
  "upload_transfer btoa sha256 page key selector fs s =
     bindA (upload_prepared btoa sha256 page key selector fs) (\<lambda>expected. bindA (ua_commit page expected) (\<lambda>uploaded.
       if uploaded \<noteq> Some (length fs) then errA (CProtocol (lit ''local upload was not confirmed'')) else okA ())) s"
  by (simp add: upload_transfer_def upload_prepared_def bindA_def split: prod.splits sum.splits)

lemma prepared_keeps_input:
  "keepsA (\<lambda>s. us_input s = i) (upload_prepared btoa sha256 (script_upload fate sha256 b64 key multiple subtle) key selector fs)"
  unfolding upload_prepared_def by (intro keepsA_bindA keepsA_if scripts_keep_input keeps_upload_files keepsA_pure)

lemma prepared_files:
  assumes "upload_prepared btoa sha256 (script_upload fate sha256 b64 key multiple subtle) key selector fs s = (Inr es, s')" "base64_ok btoa b64"
  shows "list_all stable_file fs \<and> us_files s' = map whole_file fs"
proof -
  from assms(1) obtain s1 s2 where ready: "ua_ready (script_upload fate sha256 b64 key multiple subtle) (length fs) s1 = (Inr (Some True), s2)"
    and files: "upload_files btoa sha256 (script_upload fate sha256 b64 key multiple subtle) fs s2 = (Inr es, s')"
    by (auto simp: upload_prepared_def bindA_Inr split: if_splits)
  from ready have "us_chunks s2 = []" "us_files s2 = []"
    by (auto simp: script_upload_def dest!: run_script_Inr split: if_splits)
  with files_received [OF files assms(2)] show ?thesis by simp
qed

text \<open>The end of an upload: the input of the page holds what it held before or all files.\<close>

lemma upload_transfer_outcome:
  assumes "upload_transfer btoa sha256 (script_upload fate sha256 b64 key multiple subtle) key selector fs s = (r, s')" "base64_ok btoa b64"
  shows "us_input s' = us_input s \<and> (\<exists>e. r = Inl e) \<or> us_input s' = map whole_file fs \<and> list_all stable_file fs"
proof -
  obtain x s1 where prepared: "upload_prepared btoa sha256 (script_upload fate sha256 b64 key multiple subtle) key selector fs s = (x, s1)" by fastforce
  with keepsAD [OF prepared_keeps_input, of s "us_input s"] have same: "us_input s1 = us_input s"
    by (metis snd_conv)
  show ?thesis
  proof (cases x)
    case (Inl e)
    with assms(1) prepared same show ?thesis by (auto simp: upload_transfer_split bindA_def)
  next
    case (Inr es)
    from prepared_files [OF prepared [unfolded Inr] assms(2)] have files: "list_all stable_file fs" "us_files s1 = map whole_file fs" by simp_all
    obtain y s2 where commit: "ua_commit (script_upload fate sha256 b64 key multiple subtle) es s1 = (y, s2)" by fastforce
    from commit_input [OF commit] files same show ?thesis
      using assms(1) prepared Inr commit by (cases y) (auto simp: upload_transfer_split bindA_def split: if_splits)
  qed
qed

text \<open>C15: an upload is all or nothing. Whatever happens to the local files while they are read, and whichever
  evaluations in the page do not run or lose their answer, the input of the page ends with the files
  it had before or with all of the local files, each with its name, type, time and exactly the bytes
  it has on disk; and if the command reports success, the files were stable and are in the input.\<close>

theorem upload_all_or_nothing:
  assumes "base64_ok btoa b64"
    and "upload_local btoa sha256 (script_upload fate sha256 b64 key multiple subtle) key open_file args s = (r, s')"
  shows "us_input s' = us_input s \<and> (\<exists>e. r = Inl e) \<or>
    (\<exists>selector paths options fs. upload_arguments args = Inr (selector, paths, options) \<and> traverseE open_file paths = Inr fs \<and>
       list_all stable_file fs \<and> us_input s' = map whole_file fs \<and> (\<forall>n. r = Inr n \<longrightarrow> n = length fs))"
proof (cases "upload_arguments args")
  case (Inl e)
  with assms(2) show ?thesis by (auto simp: upload_local_def)
next
  case (Inr parsed)
  obtain selector paths options where p: "parsed = (selector, paths, options)" by (cases parsed)
  show ?thesis
  proof (cases "traverseE open_file paths")
    case (Inl e)
    with assms(2) Inr p show ?thesis by (auto simp: upload_local_def \<open>upload_arguments args = Inr parsed\<close>)
  next
    case fs: (Inr fs)
    obtain x s1 where t: "upload_transfer btoa sha256 (script_upload fate sha256 b64 key multiple subtle) key selector fs s = (x, s1)" by fastforce
    with assms(2) Inr p fs have r: "r = tryE x (\<lambda>_. Inr (length fs))" "s' = snd (ua_cleanup (script_upload fate sha256 b64 key multiple subtle) s1)"
      by (auto simp: upload_local_def)
    have "us_input s' = us_input s1" unfolding r(2) using keepsAD [OF scripts_keep_input(6), of s1 "us_input s1"] by simp
    with upload_transfer_outcome [OF t assms(1)] r(1) Inr p fs show ?thesis by (cases x) auto
  qed
qed

text \<open>A file that is stable, sent while the answer of the commit is lost: the command fails, and the input has the file.\<close>

definition sample_local_file :: local_file where
  "sample_local_file = \<lparr>lf_name = lit ''f'', lf_mime = [], lf_size = 3, lf_modified = Some (7 * 10 ^ 6),
     lf_reads = [[1, 2], [3]], lf_read_fails = False, lf_size_after = 3, lf_modified_after = Some (7 * 10 ^ 6)\<rparr>"

definition empty_input :: upload_page where
  "empty_input = \<lparr>us_count = 0, us_chunks = [], us_files = [], us_input = []\<rparr>"

definition sample_upload_args :: "str list" where "sample_upload_args = map lit [''upload'', ''@e1'', ''f'']"

definition sample_input :: "upload_page upload_api" where
  "sample_input = script_upload (\<lambda>n. if n = 6 then Lost transfer_failed else Answered) id sample_b64 (lit ''k'') False True"

definition sample_upload :: "(client_error + nat) \<times> upload_page" where
  "sample_upload = upload_local sample_btoa id sample_input (lit ''k'') (\<lambda>_. Inr sample_local_file) sample_upload_args empty_input"

lemma sample_upload_arguments: "upload_arguments sample_upload_args = Inr (lit ''@e1'', [lit ''f''], [])"
  by (simp add: sample_upload_args_def upload_arguments_def first_controller_command_index_def command_index.simps controller_values_def
      controller_owned_def lifecycle_commands_def truth_words_def starts_with_def lit_def)

lemma sample_upload_transfer:
  "\<exists>s. upload_transfer sample_btoa id sample_input (lit ''k'') (lit ''@e1'') [sample_local_file] empty_input = (Inl transfer_failed, s) \<and>
     us_input s = [whole_file sample_local_file]"
  by (simp add: upload_transfer_def sample_input_def script_upload_def bindA_def okA_def errA_def
      run_script_def empty_input_def sample_local_file_def upload_file_def sample_btoa_def sample_b64_def last_modified_def Let_def
      file_as_expected_def whole_file_def fnv_bytes_def)

lemma sample_upload_lost: "fst sample_upload = Inl transfer_failed \<and> us_input (snd sample_upload) = [whole_file sample_local_file]"
proof -
  obtain s where s: "upload_transfer sample_btoa id sample_input (lit ''k'') (lit ''@e1'') [sample_local_file] empty_input = (Inl transfer_failed, s)"
    "us_input s = [whole_file sample_local_file]" using sample_upload_transfer by blast
  have "us_input (snd (ua_cleanup sample_input s)) = us_input s"
    using keepsAD [OF scripts_keep_input(6), of s "us_input s"] by (simp add: sample_input_def)
  with s show ?thesis by (simp add: sample_upload_def upload_local_def sample_upload_arguments)
qed

theorem upload_all_or_nothing_witness:
  "us_input (snd sample_upload) \<noteq> us_input empty_input \<and> (\<exists>fs. list_all stable_file fs \<and> us_input (snd sample_upload) = map whole_file fs)"
proof -
  have "upload_local sample_btoa id (script_upload (\<lambda>n. if n = 6 then Lost transfer_failed else Answered) id sample_b64 (lit ''k'') False True) (lit ''k'')
     (\<lambda>_. Inr sample_local_file) sample_upload_args empty_input = (fst sample_upload, snd sample_upload)"
    by (simp add: sample_upload_def sample_input_def)
  from upload_all_or_nothing [OF sample_base64 this] sample_upload_lost show ?thesis by (auto simp: empty_input_def)
qed

end
