(* ===== verification/SB_SignIn.thy ===== *)
theory SB_SignIn
  imports SB_Model
begin

text \<open>
  The saved login of the command line (\<open>src/crates/cli/src/state.rs\<close> and the refresh in
  \<open>src/crates/cli/src/main.rs\<close>): the state file, the rules under which a command takes the refresh
  token out of the file, sends it to Accounts and stores the answer, and any number of commands
  doing so side by side. Reading and writing the file (its permissions, the lock file and the
  rename) are one step each; a refused read ends a command and changes nothing. An access token
  given in the environment takes no part in this: such a command uses neither the file's tokens nor
  the refresh.
\<close>

section \<open>The state file\<close>

record cli_state =
  ci_backend_url :: str
  ci_access_token :: "str option"
  ci_refresh_token :: "str option"
  ci_token_expires_at :: "str option"
  ci_identity_id :: "str option"
  ci_credential_generation :: "str option"
  ci_services :: "str list"

definition default_backend :: str where
  "default_backend = lit ''https://backend.browser.teamofsilicons.com''"

definition new_default :: cli_state where
  "new_default = \<lparr>ci_backend_url = default_backend, ci_access_token = None, ci_refresh_token = None,
     ci_token_expires_at = None, ci_identity_id = None, ci_credential_generation = None, ci_services = []\<rparr>"

definition clear_login :: "cli_state \<Rightarrow> cli_state" where
  "clear_login st = st\<lparr>ci_access_token := None, ci_refresh_token := None, ci_token_expires_at := None,
     ci_identity_id := None, ci_credential_generation := None, ci_services := []\<rparr>"

text \<open>What \<open>load\<close> makes of a parsed file: credentials of the previous identity service are dropped.\<close>

definition load_state :: "cli_state option \<Rightarrow> cli_state" where
  "load_state file =
     (case file of
        None \<Rightarrow> new_default
      | Some st \<Rightarrow>
          if (case ci_access_token st of Some t \<Rightarrow> \<not> accounts_access_token t | None \<Rightarrow> False) \<or>
             (case ci_refresh_token st of Some t \<Rightarrow> \<not> starts_with (lit ''sar_'') t | None \<Rightarrow> False)
          then clear_login st else st)"

text \<open>\<open>update\<close>: the latest state is read, changed and written under an exclusive lock.\<close>

definition update_state :: "(cli_state \<Rightarrow> cli_state) \<Rightarrow> cli_state option \<Rightarrow> cli_state option" where
  "update_state f file = Some (f (load_state file))"

definition set_tokens :: "str \<Rightarrow> str option \<Rightarrow> str option \<Rightarrow> cli_state \<Rightarrow> cli_state" where
  "set_tokens access refresh expires_at st =
     st\<lparr>ci_access_token := Some access, ci_refresh_token := refresh, ci_token_expires_at := expires_at\<rparr>"

definition consume_refresh_token :: "cli_state \<Rightarrow> cli_state" where
  "consume_refresh_token st = st\<lparr>ci_refresh_token := None\<rparr>"

record 'u cli_env =
  ce_uuid :: "'u uuid_api"
  ce_rfc3339 :: "str \<Rightarrow> instant option"
  ce_show_time :: "instant \<Rightarrow> str"

definition needs_refresh :: "'u cli_env \<Rightarrow> instant \<Rightarrow> cli_state \<Rightarrow> bool" where
  "needs_refresh env now st =
     (if ci_access_token st = None \<and> ci_refresh_token st = None then False
      else ci_access_token st = None \<or>
        (case ci_identity_id st of None \<Rightarrow> True | Some i \<Rightarrow> \<not> is_ok (account_id (ce_uuid env) i ''identity'')) \<or>
        (case Option.bind (ci_token_expires_at st) (ce_rfc3339 env) of
           None \<Rightarrow> True | Some expires \<Rightarrow> expires \<le> now + 60 * NANOS_PER_SECOND))"

section \<open>The steps of a refresh\<close>

definition same_binding :: "cli_state \<Rightarrow> cli_state \<Rightarrow> bool" where
  "same_binding a b \<longleftrightarrow> ci_credential_generation a = ci_credential_generation b \<and>
     ci_identity_id a = ci_identity_id b \<and> ci_backend_url a = ci_backend_url b"

text \<open>The end of a step: a message, the state to go on with, or the token to go on with.\<close>

datatype outcome = Failed str | Refreshed cli_state | Recovered "str option"

text \<open>\<open>refresh_if_needed\<close> under the refresh lock, up to the claim.\<close>

definition refresh_check :: "'u cli_env \<Rightarrow> instant \<Rightarrow> cli_state \<Rightarrow> cli_state \<Rightarrow> outcome + str" where
  "refresh_check env now st current =
     (if \<not> same_binding current st
      then Inl (Failed (lit ''sign-in changed while waiting to refresh; run the command again''))
      else if \<not> needs_refresh env now current then Inl (Refreshed current)
      else case ci_refresh_token current of
        None \<Rightarrow> Inl (Failed (lit ''the saved login expired or needs identifier migration and has no refresh token; run `browser setup` with a new Silicon Accounts short-lived token''))
      | Some t \<Rightarrow> Inr t)"

text \<open>The binding a client was made with: its backend, the identity and the generation.\<close>

record binding =
  bi_backend :: str
  bi_identity :: "str option"
  bi_generation :: "str option"

definition matches_binding :: "binding \<Rightarrow> cli_state \<Rightarrow> bool" where
  "matches_binding b st \<longleftrightarrow> bi_identity b \<noteq> None \<and> ci_identity_id st = bi_identity b \<and>
     ci_backend_url st = bi_backend b \<and> ci_credential_generation st = bi_generation b"

text \<open>\<open>recover_rejected_access\<close> under the refresh lock, up to the claim.\<close>

definition recover_check ::
  "'u cli_env \<Rightarrow> instant \<Rightarrow> binding \<Rightarrow> str option \<Rightarrow> cli_state \<Rightarrow> outcome + str" where
  "recover_check env now b bearer_token current =
     (if \<not> matches_binding b current
      then Inl (Failed (lit ''stored identity or backend changed; run the command again with the intended identity''))
      else if ci_access_token current \<noteq> bearer_token then
        (if bi_generation b \<noteq> None \<and> \<not> needs_refresh env now current
         then Inl (Recovered (ci_access_token current))
         else Inl (Failed (lit ''credentials changed after the rejected request; run the command again'')))
      else case ci_refresh_token current of
        None \<Rightarrow> Inl (Failed (lit ''no owned refresh token; run `browser setup` with a fresh Browser token''))
      | Some t \<Rightarrow> Inr t)"

datatype task = Refresh cli_state | Recover binding "str option"

fun task_check :: "'u cli_env \<Rightarrow> instant \<Rightarrow> task \<Rightarrow> cli_state \<Rightarrow> outcome + str" where
  "task_check env now (Refresh st) current = refresh_check env now st current"
| "task_check env now (Recover b bearer_token) current = recover_check env now b bearer_token current"

text \<open>The claim: the refresh token is taken out of the file if it is still there under the same sign-in.\<close>

fun claims :: "task \<Rightarrow> cli_state \<Rightarrow> str \<Rightarrow> cli_state \<Rightarrow> bool" where
  "claims (Refresh _) current refresh latest \<longleftrightarrow>
     ci_refresh_token latest = Some refresh \<and> same_binding latest current"
| "claims (Recover b _) current refresh latest \<longleftrightarrow>
     matches_binding b latest \<and> ci_refresh_token latest = Some refresh"

definition claim_refresh :: "task \<Rightarrow> cli_state \<Rightarrow> str \<Rightarrow> cli_state \<Rightarrow> cli_state" where
  "claim_refresh task current refresh latest =
     (if claims task current refresh latest then consume_refresh_token latest else latest)"

text \<open>The answer must be for the same identity.\<close>

fun answer_accepted :: "'u cli_env \<Rightarrow> task \<Rightarrow> cli_state \<Rightarrow> auth_session \<Rightarrow> bool" where
  "answer_accepted env (Refresh _) current session \<longleftrightarrow>
     (case ci_identity_id current of
        Some i \<Rightarrow> \<not> (is_ok (account_id (ce_uuid env) i ''identity'') \<and> i \<noteq> i_id (as_identity session))
      | None \<Rightarrow> True)"
| "answer_accepted env (Recover b _) current session \<longleftrightarrow> Some (i_id (as_identity session)) = bi_identity b"

text \<open>The answer is stored if the sign-in is still the same and nobody has stored another token.\<close>

fun applies :: "task \<Rightarrow> cli_state \<Rightarrow> cli_state \<Rightarrow> bool" where
  "applies (Refresh _) current latest \<longleftrightarrow> ci_refresh_token latest = None \<and> same_binding latest current"
| "applies (Recover b _) current latest \<longleftrightarrow> matches_binding b latest \<and> ci_refresh_token latest = None"

fun applied_state :: "'u cli_env \<Rightarrow> task \<Rightarrow> auth_session \<Rightarrow> cli_state \<Rightarrow> cli_state" where
  "applied_state env (Refresh _) session latest =
     (set_tokens (as_access_token session) (Some (as_refresh_token session))
        (Some (ce_show_time env (as_expires_at session))) latest)
       \<lparr>ci_identity_id := Some (i_id (as_identity session)), ci_services := as_services session\<rparr>"
| "applied_state env (Recover _ _) session latest =
     (set_tokens (as_access_token session) (Some (as_refresh_token session))
        (Some (ce_show_time env (as_expires_at session))) latest)\<lparr>ci_services := as_services session\<rparr>"

definition apply_refreshed :: "'u cli_env \<Rightarrow> task \<Rightarrow> cli_state \<Rightarrow> auth_session \<Rightarrow> cli_state \<Rightarrow> cli_state" where
  "apply_refreshed env task current session latest =
     (if applies task current latest then applied_state env task session latest else latest)"

fun finished_outcome :: "task \<Rightarrow> cli_state \<Rightarrow> outcome" where
  "finished_outcome (Refresh _) latest = Refreshed latest"
| "finished_outcome (Recover _ _) latest = Recovered (ci_access_token latest)"

text \<open>A new sign-in, by \<open>login\<close> or \<open>setup\<close>.\<close>

definition apply_auth_session :: "'u cli_env \<Rightarrow> str \<Rightarrow> str \<Rightarrow> auth_session \<Rightarrow> cli_state \<Rightarrow> cli_state" where
  "apply_auth_session env backend_url generation auth latest =
     (set_tokens (as_access_token auth) (Some (as_refresh_token auth)) (Some (ce_show_time env (as_expires_at auth))) latest)
       \<lparr>ci_identity_id := Some (i_id (as_identity auth)), ci_credential_generation := Some generation,
         ci_services := as_services auth, ci_backend_url := backend_url\<rparr>"

text \<open>The end of \<open>setup\<close>: the identity that was verified for the stored token.\<close>

definition confirm_identity ::
  "str option \<Rightarrow> str option \<Rightarrow> str \<Rightarrow> str \<Rightarrow> str list \<Rightarrow> cli_state \<Rightarrow> cli_state" where
  "confirm_identity expected_generation expected_token expected_backend identity_id services latest =
     (if ci_credential_generation latest = expected_generation \<and> ci_access_token latest = expected_token \<and>
         ci_backend_url latest = expected_backend
      then latest\<lparr>ci_identity_id := Some identity_id, ci_services := services\<rparr> else latest)"

text \<open>A login of an older version gets a generation.\<close>

definition adopt_generation :: "str \<Rightarrow> cli_state \<Rightarrow> cli_state" where
  "adopt_generation generation saved =
     (if ci_credential_generation saved = None then saved\<lparr>ci_credential_generation := Some generation\<rparr> else saved)"

section \<open>Commands that run side by side\<close>

text \<open>
  Any number of commands share the state file and the lock of the refresh. A command reads the file
  (\<open>Load\<close>), may find its token expired or rejected, and then goes through the steps above; each
  update of the file is one step, since it happens under the file's own lock. The answers of
  Accounts and the crash of a command are events. What is kept beside the code's state: the refresh
  tokens sent to Accounts, those that exist, the access tokens obtained under each sign-in, and the
  generations in use.
\<close>

datatype cli_stage =
    Idle
  | Running
  | Waiting task
  | Holding task
  | Claiming task cli_state str
  | Claimed task cli_state str
  | Asked task cli_state
  | Applying task cli_state auth_session

record shared =
  sh_file :: "cli_state option"
  sh_lock :: "nat option"
  sh_stage :: "nat \<Rightarrow> cli_stage"
  sh_memory :: "nat \<Rightarrow> cli_state"
  sh_bearer :: "nat \<Rightarrow> str option"
  sh_sent :: "str list"
  sh_issued :: "str set"
  sh_obtained :: "str option \<Rightarrow> str set"
  sh_generations :: "str set"

datatype cli_event =
    Load nat
  | BeginRefresh nat instant
  | BeginRecover nat
  | Acquire nat
  | Check nat instant
  | Claim nat
  | Send nat
  | AccountsAnswer nat "str + auth_session"
  | Apply nat
  | Crash nat
  | Login nat str auth_session
  | Logout
  | Confirm "str option" "str option" str str "str list"
  | Adopt nat str

definition to_stage :: "nat \<Rightarrow> cli_stage \<Rightarrow> shared \<Rightarrow> shared" where
  "to_stage p st s = s\<lparr>sh_stage := (sh_stage s)(p := st)\<rparr>"

definition unlock :: "nat \<Rightarrow> shared \<Rightarrow> shared" where
  "unlock p s = s\<lparr>sh_lock := (if sh_lock s = Some p then None else sh_lock s)\<rparr>"

definition remember :: "nat \<Rightarrow> cli_state \<Rightarrow> shared \<Rightarrow> shared" where
  "remember p st s = s\<lparr>sh_memory := (sh_memory s)(p := st), sh_bearer := (sh_bearer s)(p := ci_access_token st)\<rparr>"

fun conclude :: "nat \<Rightarrow> outcome \<Rightarrow> shared \<Rightarrow> shared" where
  "conclude p (Failed message) s = to_stage p Running (unlock p s)"
| "conclude p (Refreshed st) s = remember p st (to_stage p Running (unlock p s))"
| "conclude p (Recovered token) s =
     (let s' = to_stage p Running (unlock p s) in s'\<lparr>sh_bearer := (sh_bearer s')(p := token)\<rparr>)"

definition binding_of :: "cli_state \<Rightarrow> binding" where
  "binding_of st = \<lparr>bi_backend = ci_backend_url st, bi_identity = ci_identity_id st,
     bi_generation = ci_credential_generation st\<rparr>"

fun changed_message :: "task \<Rightarrow> str" where
  "changed_message (Refresh _) = lit ''sign-in changed while refreshing; run the command again''"
| "changed_message (Recover _ _) = lit ''credentials changed during refresh; run the command again''"

definition exec_cli :: "'u cli_env \<Rightarrow> cli_event \<Rightarrow> shared \<Rightarrow> shared option" where
  "exec_cli env e s =
     (case e of
        Load p \<Rightarrow> if sh_stage s p = Idle then Some (remember p (load_state (sh_file s)) (to_stage p Running s)) else None
      | BeginRefresh p now \<Rightarrow>
          if sh_stage s p = Running \<and> needs_refresh env now (sh_memory s p)
          then Some (to_stage p (Waiting (Refresh (sh_memory s p))) s) else None
      | BeginRecover p \<Rightarrow>
          if sh_stage s p = Running \<and> sh_bearer s p \<noteq> None
          then Some (to_stage p (Waiting (Recover (binding_of (sh_memory s p)) (sh_bearer s p))) s) else None
      | Acquire p \<Rightarrow>
          (case sh_stage s p of
             Waiting task \<Rightarrow> if sh_lock s = None then Some (to_stage p (Holding task) (s\<lparr>sh_lock := Some p\<rparr>)) else None
           | _ \<Rightarrow> None)
      | Check p now \<Rightarrow>
          (case sh_stage s p of
             Holding task \<Rightarrow>
               (let current = load_state (sh_file s) in
                case task_check env now task current of
                  Inl result \<Rightarrow> Some (conclude p result s)
                | Inr refresh \<Rightarrow> Some (to_stage p (Claiming task current refresh) s))
           | _ \<Rightarrow> None)
      | Claim p \<Rightarrow>
          (case sh_stage s p of
             Claiming task current refresh \<Rightarrow>
               (let s' = s\<lparr>sh_file := update_state (claim_refresh task current refresh) (sh_file s)\<rparr> in
                if claims task current refresh (load_state (sh_file s))
                then Some (to_stage p (Claimed task current refresh) s')
                else Some (conclude p (Failed (lit ''sign-in changed before refreshing; run the command again'')) s'))
           | _ \<Rightarrow> None)
      | Send p \<Rightarrow>
          (case sh_stage s p of
             Claimed task current refresh \<Rightarrow>
               Some (to_stage p (Asked task current) (s\<lparr>sh_sent := sh_sent s @ [refresh]\<rparr>))
           | _ \<Rightarrow> None)
      | AccountsAnswer p r \<Rightarrow>
          (case sh_stage s p of
             Asked task current \<Rightarrow>
               (case r of
                  Inl message \<Rightarrow> Some (conclude p (Failed message) s)
                | Inr session \<Rightarrow>
                    if as_refresh_token session \<in> sh_issued s then None
                    else
                    let g = ci_credential_generation current;
                        s' = s\<lparr>sh_issued := insert (as_refresh_token session) (sh_issued s),
                               sh_obtained := (sh_obtained s)(g := insert (as_access_token session) (sh_obtained s g))\<rparr>
                    in if answer_accepted env task current session
                       then Some (to_stage p (Applying task current session) s')
                       else Some (conclude p (Failed (lit ''refresh returned a different identity; sign in again'')) s'))
           | _ \<Rightarrow> None)
      | Apply p \<Rightarrow>
          (case sh_stage s p of
             Applying task current session \<Rightarrow>
               (let latest = load_state (sh_file s);
                    s' = s\<lparr>sh_file := update_state (apply_refreshed env task current session) (sh_file s)\<rparr>
                in if applies task current latest
                   then Some (conclude p (finished_outcome task (applied_state env task session latest)) s')
                   else Some (conclude p (Failed (changed_message task)) s'))
           | _ \<Rightarrow> None)
      | Crash p \<Rightarrow> Some (to_stage p Idle (unlock p s))
      | Login p generation auth \<Rightarrow>
          if sh_stage s p = Running \<and> generation \<notin> sh_generations s \<and> as_refresh_token auth \<notin> sh_issued s
          then (let sign_in = apply_auth_session env (ci_backend_url (sh_memory s p)) generation auth in
            Some (remember p (sign_in (sh_memory s p))
              (s\<lparr>sh_file := update_state sign_in (sh_file s),
                 sh_issued := insert (as_refresh_token auth) (sh_issued s),
                 sh_generations := insert generation (sh_generations s),
                 sh_obtained := (sh_obtained s)(Some generation := {as_access_token auth})\<rparr>)))
          else None
      | Logout \<Rightarrow> Some (s\<lparr>sh_file := update_state clear_login (sh_file s)\<rparr>)
      | Confirm g token backend identity_id services \<Rightarrow>
          Some (s\<lparr>sh_file := update_state (confirm_identity g token backend identity_id services) (sh_file s)\<rparr>)
      | Adopt p generation \<Rightarrow>
          if sh_stage s p = Running \<and> ci_access_token (sh_memory s p) \<noteq> None \<and>
             ci_credential_generation (sh_memory s p) = None \<and> generation \<notin> sh_generations s
          then (let adopted = adopt_generation generation (load_state (sh_file s)) in
            Some (remember p adopted
              (s\<lparr>sh_file := update_state (adopt_generation generation) (sh_file s),
                 sh_generations := insert generation (sh_generations s),
                 sh_obtained := (sh_obtained s)(Some generation := sh_obtained s None)\<rparr>)))
          else None)"

inductive cli_step :: "'u cli_env \<Rightarrow> cli_event \<Rightarrow> shared \<Rightarrow> shared \<Rightarrow> bool" for env where
  exec: "exec_cli env e s = Some s' \<Longrightarrow> cli_step env e s s'"

inductive_simps cli_step_iff: "cli_step env e s s'"

definition file_refresh :: "cli_state option \<Rightarrow> str option" where
  "file_refresh file = Option.bind file ci_refresh_token"

definition cli_start :: "shared \<Rightarrow> bool" where
  "cli_start s \<longleftrightarrow> sh_lock s = None \<and> sh_stage s = (\<lambda>_. Idle) \<and> sh_sent s = [] \<and> sh_bearer s = (\<lambda>_. None) \<and>
     sh_memory s = (\<lambda>_. new_default) \<and>
     (\<forall>st. sh_file s = Some st \<longrightarrow>
        set_option (ci_refresh_token st) \<subseteq> sh_issued s \<and>
        set_option (ci_credential_generation st) \<subseteq> sh_generations s \<and>
        set_option (ci_access_token st) \<subseteq> sh_obtained s (ci_credential_generation st))"

section \<open>One use of a refresh token\<close>

datatype token_place = InFile | At nat

text \<open>The places where a refresh token that was not sent yet may be.\<close>

fun stage_token :: "cli_stage \<Rightarrow> str option" where
  "stage_token (Claimed task current refresh) = Some refresh"
| "stage_token (Applying task current session) = Some (as_refresh_token session)"
| "stage_token _ = None"

fun held :: "shared \<Rightarrow> token_place \<Rightarrow> str option" where
  "held s InFile = file_refresh (sh_file s)"
| "held s (At p) = stage_token (sh_stage s p)"

definition tokens_single :: "shared \<Rightarrow> bool" where
  "tokens_single s \<longleftrightarrow> distinct (sh_sent s) \<and> set (sh_sent s) \<subseteq> sh_issued s \<and>
     (\<forall>h t. held s h = Some t \<longrightarrow> t \<in> sh_issued s \<and> t \<notin> set (sh_sent s) \<and> (\<forall>h'. held s h' = Some t \<longrightarrow> h' = h))"

lemma held_changes [simp]:
  "held (to_stage p st s) h = (if h = At p then stage_token st else held s h)"
  "held (unlock p s) h = held s h"
  "held (remember p m s) h = held s h"
  "held (s\<lparr>sh_file := f\<rparr>) h = (if h = InFile then file_refresh f else held s h)"
  "held (s\<lparr>sh_lock := l\<rparr>) h = held s h"
  "held (s\<lparr>sh_sent := ts\<rparr>) h = held s h"
  "held (s\<lparr>sh_bearer := bs\<rparr>) h = held s h"
  "held (s\<lparr>sh_issued := is, sh_obtained := os\<rparr>) h = held s h"
  "held (s\<lparr>sh_file := f, sh_issued := is, sh_generations := gs, sh_obtained := os\<rparr>) h = (if h = InFile then file_refresh f else held s h)"
  "held (s\<lparr>sh_file := f, sh_generations := gs, sh_obtained := os\<rparr>) h = (if h = InFile then file_refresh f else held s h)"
  by (cases h; simp add: to_stage_def unlock_def remember_def held.simps)+

declare held.simps [simp del]

lemma kept_fields [simp]:
  "sh_sent (to_stage p st s) = sh_sent s" "sh_sent (unlock p s) = sh_sent s" "sh_sent (remember p m s) = sh_sent s"
  "sh_issued (to_stage p st s) = sh_issued s" "sh_issued (unlock p s) = sh_issued s" "sh_issued (remember p m s) = sh_issued s"
  by (simp_all add: to_stage_def unlock_def remember_def)

lemma held_conclude [simp]:
  "held (conclude p result s) h = (if h = At p then None else held s h)"
  "sh_sent (conclude p result s) = sh_sent s" "sh_issued (conclude p result s) = sh_issued s"
  by (cases result; simp add: Let_def)+

lemma loaded_refresh: "ci_refresh_token (load_state file) = Some t \<Longrightarrow> file_refresh file = Some t"
  by (auto simp: load_state_def file_refresh_def new_default_def clear_login_def split: option.splits if_splits)

lemma updated_refresh: "file_refresh (update_state f file) = ci_refresh_token (f (load_state file))"
  by (simp add: file_refresh_def update_state_def)

text \<open>Tokens may be lost or moved, but not copied.\<close>

lemma tokens_moved:
  assumes "tokens_single s" "sh_sent s' = sh_sent s" "sh_issued s' = sh_issued s"
    and "\<And>h t. held s' h = Some t \<Longrightarrow> held s (move h) = Some t" "inj move"
  shows "tokens_single s'"
  unfolding tokens_single_def
proof (intro conjI allI impI)
  show "distinct (sh_sent s')" "set (sh_sent s') \<subseteq> sh_issued s'"
    using assms(1-3) by (simp_all add: tokens_single_def)
  fix h t assume h: "held s' h = Some t"
  from assms(4) [OF h] assms(1-3) show "t \<in> sh_issued s'" "t \<notin> set (sh_sent s')"
    unfolding tokens_single_def by metis+
  fix h' assume "held s' h' = Some t"
  from assms(4) [OF this] assms(4) [OF h] assms(1) have "move h' = move h" unfolding tokens_single_def by metis
  with assms(5) show "h' = h" by (simp add: inj_eq)
qed

lemma tokens_lost:
  assumes "tokens_single s" "sh_sent s' = sh_sent s" "sh_issued s' = sh_issued s"
    and "\<And>h t. held s' h = Some t \<Longrightarrow> held s h = Some t"
  shows "tokens_single s'"
  by (rule tokens_moved [OF assms(1-3), of "\<lambda>h. h"]) (simp_all add: assms(4))

definition swap :: "nat \<Rightarrow> token_place \<Rightarrow> token_place" where
  "swap p h = (if h = InFile then At p else if h = At p then InFile else h)"

lemma inj_swap: "inj (swap p)"
  by (auto simp: inj_def swap_def split: if_splits)

lemma tokens_new:
  assumes "tokens_single s" "sh_sent s' = sh_sent s" "sh_issued s' = insert t (sh_issued s)" "t \<notin> sh_issued s"
    and "\<And>h u. held s' h = Some u \<Longrightarrow> held s h = Some u \<or> h = place \<and> u = t"
  shows "tokens_single s'"
  unfolding tokens_single_def
proof (intro conjI allI impI)
  show "distinct (sh_sent s')" "set (sh_sent s') \<subseteq> sh_issued s'"
    using assms(1-3) by (auto simp: tokens_single_def)
  fix h u assume h: "held s' h = Some u"
  from assms(5) [OF h] assms(1-4) show "u \<in> sh_issued s'" "u \<notin> set (sh_sent s')"
    unfolding tokens_single_def by (metis insertI1 insertI2, metis subsetD)
  fix h' assume "held s' h' = Some u"
  from assms(5) [OF this] assms(5) [OF h] assms(1,4) show "h' = h" unfolding tokens_single_def by metis
qed

lemma refresh_kept [simp]:
  "ci_refresh_token (confirm_identity g token backend i services st) = ci_refresh_token st"
  "ci_refresh_token (adopt_generation generation st) = ci_refresh_token st"
  "ci_refresh_token (clear_login st) = None"
  "ci_refresh_token (apply_auth_session env b generation auth st) = Some (as_refresh_token auth)"
  "ci_refresh_token (applied_state env task session st) = Some (as_refresh_token session)"
  by (simp_all add: confirm_identity_def adopt_generation_def clear_login_def apply_auth_session_def set_tokens_def)
    (cases task; simp add: set_tokens_def)

lemma claims_refresh: "claims task current refresh latest \<Longrightarrow> ci_refresh_token latest = Some refresh"
  by (cases task) auto

lemma cli_tokens_step:
  assumes "exec_cli env e s = Some s'" "tokens_single s"
  shows "tokens_single s'"
proof (cases e)
  case (Load p)
  with assms(1) show ?thesis
    by (intro tokens_lost [OF assms(2)]) (auto simp: exec_cli_def split: if_splits)
next
  case (BeginRefresh p now)
  with assms(1) show ?thesis
    by (intro tokens_lost [OF assms(2)]) (auto simp: exec_cli_def split: if_splits)
next
  case (BeginRecover p)
  with assms(1) show ?thesis
    by (intro tokens_lost [OF assms(2)]) (auto simp: exec_cli_def split: if_splits)
next
  case (Acquire p)
  with assms(1) show ?thesis
    by (intro tokens_lost [OF assms(2)]) (auto simp: exec_cli_def split: if_splits cli_stage.splits)
next
  case (Check p now)
  with assms(1) show ?thesis
    by (intro tokens_lost [OF assms(2)]) (auto simp: exec_cli_def Let_def split: if_splits cli_stage.splits sum.splits)
next
  case (Claim p)
  with assms(1) obtain task current refresh where stage: "sh_stage s p = Claiming task current refresh"
    by (auto simp: exec_cli_def split: cli_stage.splits)
  let ?latest = "load_state (sh_file s)"
  show ?thesis
  proof (cases "claims task current refresh ?latest")
    case True
    with assms(1) Claim stage have s': "s' = to_stage p (Claimed task current refresh)
        (s\<lparr>sh_file := update_state (claim_refresh task current refresh) (sh_file s)\<rparr>)"
      by (simp add: exec_cli_def Let_def)
    from loaded_refresh [OF claims_refresh [OF True]] have "held s InFile = Some refresh" by (simp add: held.simps)
    then show ?thesis
      unfolding s' using True
      by (intro tokens_moved [OF assms(2) _ _ _ inj_swap [of p]])
        (auto simp: updated_refresh claim_refresh_def consume_refresh_token_def swap_def split: if_splits)
  next
    case False
    with assms(1) Claim stage show ?thesis
      by (intro tokens_lost [OF assms(2)])
        (auto simp: exec_cli_def Let_def updated_refresh claim_refresh_def held.simps(1) split: if_splits dest: loaded_refresh)
  qed
next
  case (Send p)
  with assms(1) obtain task current refresh where stage: "sh_stage s p = Claimed task current refresh"
    and s': "s' = to_stage p (Asked task current) (s\<lparr>sh_sent := sh_sent s @ [refresh]\<rparr>)"
    by (auto simp: exec_cli_def split: cli_stage.splits)
  from stage have here: "held s (At p) = Some refresh" by (simp add: held.simps)
  then have "refresh \<in> sh_issued s" "refresh \<notin> set (sh_sent s)" "\<And>h. held s h = Some refresh \<Longrightarrow> h = At p"
    using assms(2) unfolding tokens_single_def by metis+
  with assms(2) show ?thesis
    unfolding s' tokens_single_def by (auto split: if_splits)
next
  case (AccountsAnswer p r)
  with assms(1) obtain task current where stage: "sh_stage s p = Asked task current" by (auto simp: exec_cli_def split: cli_stage.splits)
  show ?thesis
  proof (cases r)
    case (Inl message)
    with assms(1) AccountsAnswer stage show ?thesis
      by (intro tokens_lost [OF assms(2)]) (auto simp: exec_cli_def split: if_splits)
  next
    case (Inr session)
    with assms(1) AccountsAnswer stage have "as_refresh_token session \<notin> sh_issued s" by (auto simp: exec_cli_def)
    with assms(1) AccountsAnswer stage Inr show ?thesis
      by (intro tokens_new [OF assms(2), of _ "as_refresh_token session" "At p"])
        (auto simp: exec_cli_def Let_def split: if_splits)
  qed
next
  case (Apply p)
  with assms(1) obtain task current session where stage: "sh_stage s p = Applying task current session"
    by (auto simp: exec_cli_def split: cli_stage.splits)
  let ?latest = "load_state (sh_file s)"
  show ?thesis
  proof (cases "applies task current ?latest")
    case True
    from stage have "held s (At p) = Some (as_refresh_token session)" by (simp add: held.simps)
    with True assms(1) Apply stage show ?thesis
      by (intro tokens_moved [OF assms(2) _ _ _ inj_swap [of p]])
        (auto simp: exec_cli_def Let_def updated_refresh apply_refreshed_def swap_def split: if_splits)
  next
    case False
    with assms(1) Apply stage show ?thesis
      by (intro tokens_lost [OF assms(2)])
        (auto simp: exec_cli_def Let_def updated_refresh apply_refreshed_def held.simps(1) split: if_splits dest: loaded_refresh)
  qed
next
  case (Crash p)
  with assms(1) show ?thesis
    by (intro tokens_lost [OF assms(2)]) (auto simp: exec_cli_def split: if_splits)
next
  case (Login p generation auth)
  with assms(1) have "as_refresh_token auth \<notin> sh_issued s" by (auto simp: exec_cli_def split: if_splits)
  with assms(1) Login show ?thesis
    by (intro tokens_new [OF assms(2), of _ "as_refresh_token auth" InFile])
      (auto simp: exec_cli_def Let_def updated_refresh split: if_splits)
next
  case Logout
  with assms(1) show ?thesis
    by (intro tokens_lost [OF assms(2)]) (auto simp: exec_cli_def updated_refresh split: if_splits)
next
  case (Confirm g token backend i services)
  with assms(1) show ?thesis
    by (intro tokens_lost [OF assms(2)]) (auto simp: exec_cli_def updated_refresh held.simps(1) split: if_splits dest: loaded_refresh)
next
  case (Adopt p generation)
  with assms(1) show ?thesis
    by (intro tokens_lost [OF assms(2)]) (auto simp: exec_cli_def Let_def updated_refresh held.simps(1) split: if_splits dest: loaded_refresh)
qed

lemma cli_start_tokens: "cli_start s \<Longrightarrow> tokens_single s"
proof -
  assume start: "cli_start s"
  then have "held s h = Some t \<longleftrightarrow> h = InFile \<and> file_refresh (sh_file s) = Some t" for h t
    by (cases h) (auto simp: cli_start_def held.simps)
  with start show ?thesis
    by (auto simp: tokens_single_def cli_start_def file_refresh_def bind_eq_Some_conv)
qed

interpretation cli_tokens: step_system cli_start "cli_step env" tokens_single for env :: "'u cli_env"
  by unfold_locales (auto simp: cli_step_iff intro: cli_start_tokens cli_tokens_step)

section \<open>One sign-in per command\<close>

fun task_generation :: "task \<Rightarrow> str option" where
  "task_generation (Refresh st) = ci_credential_generation st"
| "task_generation (Recover b _) = bi_generation b"

definition state_bound :: "shared \<Rightarrow> cli_state \<Rightarrow> bool" where
  "state_bound s st \<longleftrightarrow> set_option (ci_credential_generation st) \<subseteq> sh_generations s \<and>
     set_option (ci_access_token st) \<subseteq> sh_obtained s (ci_credential_generation st)"

fun stage_bound :: "(str option \<Rightarrow> str set) \<Rightarrow> str option \<Rightarrow> cli_stage \<Rightarrow> bool" where
  "stage_bound obtained g (Waiting task) \<longleftrightarrow> task_generation task = g"
| "stage_bound obtained g (Holding task) \<longleftrightarrow> task_generation task = g"
| "stage_bound obtained g (Claiming task current _) \<longleftrightarrow> task_generation task = g \<and> ci_credential_generation current = g"
| "stage_bound obtained g (Claimed task current _) \<longleftrightarrow> task_generation task = g \<and> ci_credential_generation current = g"
| "stage_bound obtained g (Asked task current) \<longleftrightarrow> task_generation task = g \<and> ci_credential_generation current = g"
| "stage_bound obtained g (Applying task current session) \<longleftrightarrow> task_generation task = g \<and>
     ci_credential_generation current = g \<and> as_access_token session \<in> obtained g"
| "stage_bound obtained g _ \<longleftrightarrow> True"

definition proc_bound :: "shared \<Rightarrow> nat \<Rightarrow> bool" where
  "proc_bound s p \<longleftrightarrow> state_bound s (sh_memory s p) \<and>
     set_option (sh_bearer s p) \<subseteq> sh_obtained s (ci_credential_generation (sh_memory s p)) \<and>
     stage_bound (sh_obtained s) (ci_credential_generation (sh_memory s p)) (sh_stage s p)"

definition cli_bound :: "shared \<Rightarrow> bool" where
  "cli_bound s \<longleftrightarrow> (\<forall>st. sh_file s = Some st \<longrightarrow> state_bound s st) \<and> (\<forall>p. proc_bound s p)"

definition grows :: "shared \<Rightarrow> shared \<Rightarrow> bool" where
  "grows s s' \<longleftrightarrow> sh_generations s \<subseteq> sh_generations s' \<and>
     (\<forall>g. set_option g \<subseteq> sh_generations s \<longrightarrow> sh_obtained s g \<subseteq> sh_obtained s' g)"

lemma state_bound_grows: "state_bound s st \<Longrightarrow> grows s s' \<Longrightarrow> state_bound s' st"
  unfolding state_bound_def grows_def by blast

lemma stage_bound_grows: "stage_bound obtained g st \<Longrightarrow> obtained g \<subseteq> obtained' g \<Longrightarrow> stage_bound obtained' g st"
  by (cases st) auto

lemma proc_bound_grows:
  assumes "proc_bound s q" "grows s s'" "sh_memory s' q = sh_memory s q" "sh_bearer s' q = sh_bearer s q" "sh_stage s' q = sh_stage s q"
  shows "proc_bound s' q"
proof -
  have "sh_obtained s (ci_credential_generation (sh_memory s q)) \<subseteq> sh_obtained s' (ci_credential_generation (sh_memory s q))"
    using assms(1,2) unfolding proc_bound_def state_bound_def grows_def by blast
  with assms state_bound_grows [OF _ assms(2)] show ?thesis
    unfolding proc_bound_def using stage_bound_grows by (metis subset_trans)
qed

lemma bound_by_parts:
  assumes "cli_bound s" "grows s s'" "\<And>st. sh_file s' = Some st \<Longrightarrow> state_bound s' st"
    and "\<And>q. q \<noteq> p \<Longrightarrow> sh_memory s' q = sh_memory s q \<and> sh_bearer s' q = sh_bearer s q \<and> sh_stage s' q = sh_stage s q"
    and "proc_bound s' p"
  shows "cli_bound s'"
proof -
  have "proc_bound s' q" for q
  proof (cases "q = p")
    case True
    with assms(5) show ?thesis by simp
  next
    case False
    from assms(1) have "proc_bound s q" by (simp add: cli_bound_def)
    from proc_bound_grows [OF this assms(2)] assms(4) [OF False] show ?thesis by simp
  qed
  with assms(3) show ?thesis by (simp add: cli_bound_def)
qed

lemma loaded_bound: "cli_bound s \<Longrightarrow> state_bound s (load_state (sh_file s))"
  by (auto simp: cli_bound_def state_bound_def load_state_def new_default_def clear_login_def split: option.split)

lemma checked_generation:
  assumes "task_check env now task current = r"
  shows "case r of
      Inr t \<Rightarrow> ci_credential_generation current = task_generation task
    | Inl (Refreshed st) \<Rightarrow> st = current \<and> ci_credential_generation current = task_generation task
    | Inl (Recovered token) \<Rightarrow> token = ci_access_token current \<and> ci_credential_generation current = task_generation task
    | Inl (Failed _) \<Rightarrow> True"
  using assms
  by (cases task) (auto simp: refresh_check_def recover_check_def same_binding_def matches_binding_def split: if_splits option.splits)

lemma applies_generation:
  "applies task current latest \<Longrightarrow> ci_credential_generation current = task_generation task \<Longrightarrow>
   ci_credential_generation latest = task_generation task"
  by (cases task) (auto simp: same_binding_def matches_binding_def)

lemma applied_fields [simp]:
  "ci_credential_generation (applied_state env task session st) = ci_credential_generation st"
  "ci_access_token (applied_state env task session st) = Some (as_access_token session)"
  by (cases task; simp add: set_tokens_def)+

lemma conclude_fields [simp]:
  "sh_file (conclude p r s) = sh_file s" "sh_generations (conclude p r s) = sh_generations s"
  "sh_obtained (conclude p r s) = sh_obtained s"
  "q \<noteq> p \<Longrightarrow> sh_memory (conclude p r s) q = sh_memory s q"
  "q \<noteq> p \<Longrightarrow> sh_bearer (conclude p r s) q = sh_bearer s q"
  "q \<noteq> p \<Longrightarrow> sh_stage (conclude p r s) q = sh_stage s q"
  "sh_stage (conclude p r s) p = Running"
  by (cases r; simp add: to_stage_def unlock_def remember_def Let_def)+

text \<open>The end of a step leaves the command bound if what it hands on is.\<close>

lemma conclude_bound:
  assumes "proc_bound s p"
    and "case r of Refreshed st \<Rightarrow> state_bound s st
      | Recovered token \<Rightarrow> set_option token \<subseteq> sh_obtained s (ci_credential_generation (sh_memory s p)) | Failed _ \<Rightarrow> True"
  shows "proc_bound (conclude p r s) p"
  using assms
  by (cases r) (auto simp: proc_bound_def state_bound_def to_stage_def unlock_def remember_def Let_def)

lemmas stage_change = to_stage_def unlock_def remember_def

lemma grows_same: "sh_generations s' = sh_generations s \<Longrightarrow> sh_obtained s' = sh_obtained s \<Longrightarrow> grows s s'"
  by (simp add: grows_def)

lemma state_bound_same:
  "sh_generations s' = sh_generations s \<Longrightarrow> sh_obtained s' = sh_obtained s \<Longrightarrow> state_bound s' st = state_bound s st"
  by (simp add: state_bound_def)

lemma file_claim_bound: "state_bound s latest \<Longrightarrow> state_bound s (claim_refresh task current refresh latest)"
  by (simp add: claim_refresh_def consume_refresh_token_def state_bound_def)

lemma confirmed_fields [simp]:
  "ci_credential_generation (confirm_identity g token backend i services st) = ci_credential_generation st"
  "ci_access_token (confirm_identity g token backend i services st) = ci_access_token st"
  by (simp_all add: confirm_identity_def)

lemma confirmed_bound: "state_bound s st \<Longrightarrow> state_bound s (confirm_identity g token backend i services st)"
  by (simp add: state_bound_def)

lemma cli_bound_step:
  assumes step: "exec_cli env e s = Some s'" and bound: "cli_bound s"
  shows "cli_bound s'"
proof -
  have stored: "\<And>st. sh_file s = Some st \<Longrightarrow> state_bound s st" and procs: "\<And>p. proc_bound s p"
    using bound by (auto simp: cli_bound_def)
  note latest = loaded_bound [OF bound]
  show ?thesis
  proof (cases e)
    case (Load p)
    with step latest stored procs [of p] show ?thesis
      by (intro bound_by_parts [OF bound, of _ p] grows_same)
        (auto simp: exec_cli_def stage_change proc_bound_def state_bound_def split: if_splits)
  next
    case (BeginRefresh p now)
    with step stored procs [of p] show ?thesis
      by (intro bound_by_parts [OF bound, of _ p] grows_same)
        (auto simp: exec_cli_def stage_change proc_bound_def state_bound_def split: if_splits)
  next
    case (BeginRecover p)
    with step stored procs [of p] show ?thesis
      by (intro bound_by_parts [OF bound, of _ p] grows_same)
        (auto simp: exec_cli_def stage_change proc_bound_def state_bound_def binding_of_def split: if_splits)
  next
    case (Acquire p)
    with step stored procs [of p] show ?thesis
      by (intro bound_by_parts [OF bound, of _ p] grows_same)
        (auto simp: exec_cli_def stage_change proc_bound_def state_bound_def split: if_splits cli_stage.splits)
  next
    case (Check p now)
    with step obtain task where stage: "sh_stage s p = Holding task" by (auto simp: exec_cli_def split: cli_stage.splits)
    with procs [of p] have g: "task_generation task = ci_credential_generation (sh_memory s p)" by (simp add: proc_bound_def)
    let ?latest = "load_state (sh_file s)"
    note checked = checked_generation [of env now task ?latest]
    show ?thesis
    proof (cases "task_check env now task ?latest")
      case (Inl r)
      with step Check stage have s': "s' = conclude p r s" by (simp add: exec_cli_def Let_def)
      have "proc_bound s' p"
        unfolding s' using checked Inl g latest
        by (intro conclude_bound procs) (auto simp: state_bound_def split: outcome.splits)
      with stored s' show ?thesis
        by (intro bound_by_parts [OF bound, of _ p] grows_same) (auto simp: state_bound_def)
    next
      case (Inr refresh)
      with step Check stage checked g stored procs [of p] show ?thesis
        by (intro bound_by_parts [OF bound, of _ p] grows_same)
          (auto simp: exec_cli_def Let_def stage_change proc_bound_def state_bound_def)
    qed
  next
    case (Claim p)
    with step obtain task current refresh where stage: "sh_stage s p = Claiming task current refresh"
      by (auto simp: exec_cli_def split: cli_stage.splits)
    let ?s = "s\<lparr>sh_file := update_state (claim_refresh task current refresh) (sh_file s)\<rparr>"
    have own: "proc_bound ?s p" using procs [of p] by (simp add: proc_bound_def state_bound_def)
    have s': "s' = to_stage p (Claimed task current refresh) ?s \<or> (\<exists>m. s' = conclude p (Failed m) ?s)"
      using step Claim stage by (auto simp: exec_cli_def Let_def split: if_splits)
    moreover have "proc_bound s' p"
      using s' own stage conclude_bound [OF own, of "Failed _"] by (auto simp: proc_bound_def state_bound_def stage_change)
    ultimately show ?thesis
      using file_claim_bound [OF latest, of task current refresh]
      by (intro bound_by_parts [OF bound, of _ p] grows_same)
        (auto simp: update_state_def state_bound_def stage_change)
  next
    case (Send p)
    with step stored procs [of p] show ?thesis
      by (intro bound_by_parts [OF bound, of _ p] grows_same)
        (auto simp: exec_cli_def stage_change proc_bound_def state_bound_def split: cli_stage.splits)
  next
    case (AccountsAnswer p r)
    with step obtain task current where stage: "sh_stage s p = Asked task current" by (auto simp: exec_cli_def split: cli_stage.splits)
    show ?thesis
    proof (cases r)
      case (Inl m)
      with step AccountsAnswer stage have s': "s' = conclude p (Failed m) s" by (simp add: exec_cli_def)
      with conclude_bound [OF procs [of p], of "Failed m"] stored show ?thesis
        by (intro bound_by_parts [OF bound, of _ p] grows_same) (auto simp: state_bound_def stage_change)
    next
      case (Inr session)
      let ?g = "ci_credential_generation current"
      let ?s = "s\<lparr>sh_issued := insert (as_refresh_token session) (sh_issued s),
          sh_obtained := (sh_obtained s)(?g := insert (as_access_token session) (sh_obtained s ?g))\<rparr>"
      have grow: "grows s ?s" by (simp add: grows_def) blast
      have own: "proc_bound ?s p" by (rule proc_bound_grows [OF procs grow]) simp_all
      have s': "s' = to_stage p (Applying task current session) ?s \<or> (\<exists>m. s' = conclude p (Failed m) ?s)"
        using step AccountsAnswer stage Inr by (auto simp: exec_cli_def Let_def split: if_splits)
      moreover have "proc_bound s' p"
        using s' own stage conclude_bound [OF own, of "Failed _"] by (auto simp: proc_bound_def state_bound_def stage_change)
      moreover have "grows s s'"
        using s' grow by (auto simp: grows_def stage_change)
      moreover have "state_bound s' st" if "sh_file s' = Some st" for st
        using s' that stored [of st] state_bound_grows [OF _ \<open>grows s s'\<close>] by (auto simp: stage_change)
      ultimately show ?thesis
        by (intro bound_by_parts [OF bound, of _ p]) (auto simp: stage_change)
    qed
  next
    case (Apply p)
    with step obtain task current session where stage: "sh_stage s p = Applying task current session"
      by (auto simp: exec_cli_def split: cli_stage.splits)
    let ?latest = "load_state (sh_file s)"
    let ?s = "s\<lparr>sh_file := update_state (apply_refreshed env task current session) (sh_file s)\<rparr>"
    have own: "proc_bound ?s p" using procs [of p] by (simp add: proc_bound_def state_bound_def)
    from stage procs [of p] have task: "task_generation task = ci_credential_generation (sh_memory s p)"
      "ci_credential_generation current = ci_credential_generation (sh_memory s p)"
      "as_access_token session \<in> sh_obtained s (ci_credential_generation (sh_memory s p))"
      by (simp_all add: proc_bound_def)
    show ?thesis
    proof (cases "applies task current ?latest")
      case True
      with applies_generation [OF True] task have same: "ci_credential_generation ?latest = ci_credential_generation (sh_memory s p)" by simp
      have applied: "state_bound s (applied_state env task session ?latest)"
        using latest same task(3) by (simp add: state_bound_def)
      from True step Apply stage have s': "s' = conclude p (finished_outcome task (applied_state env task session ?latest)) ?s"
        by (simp add: exec_cli_def Let_def)
      have "proc_bound s' p"
        unfolding s' using applied task same
        by (intro conclude_bound own) (cases task; simp add: state_bound_def set_tokens_def)
      with s' applied True show ?thesis
        by (intro bound_by_parts [OF bound, of _ p] grows_same)
          (auto simp: update_state_def apply_refreshed_def state_bound_def)
    next
      case False
      with step Apply stage obtain m where s': "s' = conclude p (Failed m) ?s" by (simp add: exec_cli_def Let_def)
      with conclude_bound [OF own, of "Failed m"] latest False show ?thesis
        by (intro bound_by_parts [OF bound, of _ p] grows_same)
          (auto simp: update_state_def apply_refreshed_def state_bound_def stage_change)
    qed
  next
    case (Crash p)
    with step stored procs [of p] show ?thesis
      by (intro bound_by_parts [OF bound, of _ p] grows_same)
        (auto simp: exec_cli_def stage_change proc_bound_def state_bound_def)
  next
    case (Login p generation auth)
    with step have fresh: "generation \<notin> sh_generations s" and running: "sh_stage s p = Running"
      by (auto simp: exec_cli_def split: if_splits)
    from Login step have grow: "grows s s'"
      by (auto simp: exec_cli_def Let_def grows_def stage_change split: if_splits)
    from Login step running show ?thesis
      by (intro bound_by_parts [OF bound grow, of p])
        (auto simp: exec_cli_def Let_def stage_change update_state_def apply_auth_session_def set_tokens_def
          proc_bound_def state_bound_def split: if_splits)
  next
    case Logout
    with step procs [of 0] show ?thesis
      by (intro bound_by_parts [OF bound, of _ 0] grows_same)
        (auto simp: exec_cli_def update_state_def clear_login_def proc_bound_def state_bound_def)
  next
    case (Confirm g token backend i services)
    with step have s': "s' = s\<lparr>sh_file := update_state (confirm_identity g token backend i services) (sh_file s)\<rparr>"
      by (simp add: exec_cli_def)
    show ?thesis
    proof (rule bound_by_parts [OF bound, of _ 0])
      show "grows s s'" unfolding s' by (rule grows_same) simp_all
      show "state_bound s' st" if "sh_file s' = Some st" for st
        using that confirmed_bound [OF latest, of g token backend i services]
        by (simp add: s' update_state_def state_bound_def)
      show "proc_bound s' 0" using procs [of 0] by (simp add: s' proc_bound_def state_bound_def)
    qed (simp add: s')
  next
    case (Adopt p generation)
    with step have fresh: "generation \<notin> sh_generations s" and running: "sh_stage s p = Running"
      by (auto simp: exec_cli_def Let_def split: if_splits)
    from Adopt step have grow: "grows s s'"
      by (auto simp: exec_cli_def Let_def grows_def stage_change split: if_splits)
    have s': "state_bound s' (adopt_generation generation (load_state (sh_file s)))"
      using latest fresh Adopt step
      by (auto simp: exec_cli_def Let_def stage_change adopt_generation_def state_bound_def split: if_splits)
    with Adopt step running show ?thesis
      by (intro bound_by_parts [OF bound grow, of p])
        (auto simp: exec_cli_def Let_def stage_change update_state_def proc_bound_def state_bound_def split: if_splits)
  qed
qed

lemma cli_start_bound: "cli_start s \<Longrightarrow> cli_bound s"
  by (auto simp: cli_start_def cli_bound_def proc_bound_def state_bound_def new_default_def)

interpretation cli_bindings: step_system cli_start "cli_step env" cli_bound for env :: "'u cli_env"
  by unfold_locales (auto simp: cli_step_iff intro: cli_start_bound cli_bound_step)

section \<open>A sample run\<close>

fun exec_cli_events :: "'u cli_env \<Rightarrow> cli_event list \<Rightarrow> shared \<Rightarrow> shared option" where
  "exec_cli_events env [] s = Some s"
| "exec_cli_events env (e # es) s = Option.bind (exec_cli env e s) (exec_cli_events env es)"

lemma exec_cli_snoc:
  "exec_cli_events env (es @ [e]) s = Option.bind (exec_cli_events env es s) (exec_cli env e)"
  by (induction es arbitrary: s) (auto split: Option.bind_splits)

lemma exec_cli_run: "exec_cli_events env es s = Some s' \<Longrightarrow> run (cli_step env) s es s'"
  by (induction es arbitrary: s' rule: rev_induct)
    (auto simp: exec_cli_snoc cli_step_iff bind_eq_Some_conv intro: run_nil run_snoc)

text \<open>Two commands find a login whose access token is gone; the first one renews it while the second waits.\<close>

definition sample_cli_env :: "unit cli_env" where
  "sample_cli_env = \<lparr>ce_uuid = no_uuids, ce_rfc3339 = (\<lambda>_. None), ce_show_time = (\<lambda>_. lit ''2030'')\<rparr>"

definition sample_login :: cli_state where
  "sample_login = new_default\<lparr>ci_refresh_token := Some (lit ''sar_1''), ci_credential_generation := Some (lit ''g'')\<rparr>"

definition sample_shared :: shared where
  "sample_shared = \<lparr>sh_file = Some sample_login, sh_lock = None, sh_stage = (\<lambda>_. Idle), sh_memory = (\<lambda>_. new_default),
     sh_bearer = (\<lambda>_. None), sh_sent = [], sh_issued = {lit ''sar_1''}, sh_obtained = (\<lambda>_. {}),
     sh_generations = {lit ''g''}\<rparr>"

definition sample_renewal :: auth_session where
  "sample_renewal = \<lparr>as_access_token = lit ''h.p.s'', as_refresh_token = lit ''sar_2'', as_expires_at = 0,
     as_identity = \<lparr>i_id = lit ''ada'', i_name = lit ''Ada'', i_kind = Carbon, i_tags = [], i_aliases = []\<rparr>, as_services = []\<rparr>"

definition sample_cli_events :: "cli_event list" where
  "sample_cli_events = [Load 1, Load 2, BeginRefresh 1 0, BeginRefresh 2 0, Acquire 1, Check 1 0, Claim 1, Send 1,
     AccountsAnswer 1 (Inr sample_renewal), Apply 1, Acquire 2]"

lemma sample_cli_start: "cli_start sample_shared"
  by (simp add: cli_start_def sample_shared_def sample_login_def new_default_def)

lemma sample_login_loaded: "load_state (Some sample_login) = sample_login"
  by (simp add: load_state_def sample_login_def new_default_def starts_with_def lit_def)

lemma sample_cli_run:
  "\<exists>s. exec_cli_events sample_cli_env sample_cli_events sample_shared = Some s \<and> sh_sent s = [lit ''sar_1''] \<and>
     sh_bearer s 1 = Some (lit ''h.p.s'') \<and> Option.bind (sh_file s) ci_refresh_token = Some (lit ''sar_2'')"
  by (simp add: sample_cli_events_def exec_cli_def sample_shared_def stage_change Let_def
    refresh_check_def needs_refresh_def sample_login_def new_default_def same_binding_def update_state_def
    claim_refresh_def consume_refresh_token_def load_state_def apply_refreshed_def sample_renewal_def set_tokens_def lit_def starts_with_def)

text \<open>C25: a refresh token is sent to Accounts at most once, however many commands run side by side,
  refresh because of an expiry or of a rejected request, sign in or out, or crash. Accounts accepts
  a refresh token once only and takes a second use for theft.\<close>

theorem refresh_token_sent_once:
  assumes "cli_start s0" "run (cli_step env) s0 es s"
  shows "distinct (sh_sent s) \<and> (\<forall>st t. sh_file s = Some st \<and> ci_refresh_token st = Some t \<longrightarrow> t \<notin> set (sh_sent s))"
proof -
  have inv: "tokens_single s" using cli_tokens.reachable_inv [OF assms] .
  moreover have "t \<notin> set (sh_sent s)" if "sh_file s = Some st" "ci_refresh_token st = Some t" for st t
  proof -
    from that have "held s InFile = Some t" by (simp add: file_refresh_def held.simps)
    with inv show ?thesis unfolding tokens_single_def by metis
  qed
  ultimately show ?thesis by (auto simp: tokens_single_def)
qed

theorem refresh_token_sent_once_witness:
  "\<exists>s. run (cli_step sample_cli_env) sample_shared sample_cli_events s \<and> sh_sent s = [lit ''sar_1''] \<and>
     distinct (sh_sent s) \<and> Option.bind (sh_file s) ci_refresh_token = Some (lit ''sar_2'')"
proof -
  obtain s where s: "exec_cli_events sample_cli_env sample_cli_events sample_shared = Some s" "sh_sent s = [lit ''sar_1'']"
    "Option.bind (sh_file s) ci_refresh_token = Some (lit ''sar_2'')" using sample_cli_run by blast
  with refresh_token_sent_once [OF sample_cli_start exec_cli_run [OF s(1)]] exec_cli_run [OF s(1)] show ?thesis by blast
qed

text \<open>The events at which a command takes up a sign-in: it reads the file, signs in itself, or adopts
  the file's login of an older version.\<close>

fun takes_up :: "nat \<Rightarrow> cli_event \<Rightarrow> bool" where
  "takes_up p (Load q) \<longleftrightarrow> q = p"
| "takes_up p (Login q _ _) \<longleftrightarrow> q = p"
| "takes_up p (Adopt q _) \<longleftrightarrow> q = p"
| "takes_up p _ \<longleftrightarrow> False"

lemma conclude_generation:
  assumes "\<And>st. r = Refreshed st \<Longrightarrow> ci_credential_generation st = ci_credential_generation (sh_memory s p)"
  shows "ci_credential_generation (sh_memory (conclude q r s) p) = ci_credential_generation (sh_memory s p) \<or> q \<noteq> p"
  using assms by (cases r) (auto simp: to_stage_def unlock_def remember_def Let_def)

lemma generation_step:
  assumes step: "exec_cli env e s = Some s'" and bound: "cli_bound s" and "\<not> takes_up p e"
  shows "ci_credential_generation (sh_memory s' p) = ci_credential_generation (sh_memory s p)"
proof -
  have procs: "proc_bound s q" for q using bound by (simp add: cli_bound_def)
  show ?thesis
  proof (cases e)
    case (Check q now)
    with step obtain task where stage: "sh_stage s q = Holding task" by (auto simp: exec_cli_def split: cli_stage.splits)
    with procs [of q] have g: "task_generation task = ci_credential_generation (sh_memory s q)" by (simp add: proc_bound_def)
    show ?thesis
    proof (cases "task_check env now task (load_state (sh_file s))")
      case (Inl r)
      have "ci_credential_generation st = ci_credential_generation (sh_memory s q)" if "r = Refreshed st" for st
        using checked_generation [OF Inl] that g by simp
      with conclude_generation [of r s q q] conclude_fields(4) [of p q r s] step Check stage Inl show ?thesis
        by (cases "p = q") (auto simp: exec_cli_def Let_def)
    next
      case (Inr refresh)
      with step Check stage show ?thesis by (auto simp: exec_cli_def Let_def stage_change)
    qed
  next
    case (Claim q)
    with step obtain task current refresh where "sh_stage s q = Claiming task current refresh"
      by (auto simp: exec_cli_def split: cli_stage.splits)
    with step Claim show ?thesis by (auto simp: exec_cli_def Let_def stage_change split: if_splits)
  next
    case (AccountsAnswer q r)
    with step show ?thesis
      by (auto simp: exec_cli_def Let_def stage_change split: if_splits cli_stage.splits sum.splits)
  next
    case (Apply q)
    with step obtain task current session where stage: "sh_stage s q = Applying task current session"
      by (auto simp: exec_cli_def split: cli_stage.splits)
    let ?latest = "load_state (sh_file s)"
    let ?s = "s\<lparr>sh_file := update_state (apply_refreshed env task current session) (sh_file s)\<rparr>"
    from stage procs [of q] have task: "task_generation task = ci_credential_generation (sh_memory s q)"
      "ci_credential_generation current = ci_credential_generation (sh_memory s q)" by (simp_all add: proc_bound_def)
    show ?thesis
    proof (cases "applies task current ?latest")
      case True
      with applies_generation [OF True] task have same: "ci_credential_generation ?latest = ci_credential_generation (sh_memory s q)" by simp
      from True step Apply stage have s': "s' = conclude q (finished_outcome task (applied_state env task session ?latest)) ?s"
        by (simp add: exec_cli_def Let_def)
      have "ci_credential_generation st = ci_credential_generation (sh_memory ?s q)"
        if "finished_outcome task (applied_state env task session ?latest) = Refreshed st" for st
        using that same by (cases task) (auto simp: set_tokens_def)
      with conclude_generation [of "finished_outcome task (applied_state env task session ?latest)" ?s q q]
        conclude_fields(4) [of p q "finished_outcome task (applied_state env task session ?latest)" ?s] s'
      show ?thesis by (cases "p = q") auto
    next
      case False
      with step Apply stage show ?thesis by (auto simp: exec_cli_def Let_def stage_change)
    qed
  qed (use step assms(3) in \<open>auto simp: exec_cli_def Let_def stage_change split: if_splits cli_stage.splits\<close>)
qed

lemma generation_run:
  assumes "run (cli_step env) s es s'" "cli_bound s" "list_all (\<lambda>e. \<not> takes_up p e) es"
  shows "cli_bound s' \<and> ci_credential_generation (sh_memory s' p) = ci_credential_generation (sh_memory s p)"
  using assms
proof (induction rule: run.induct)
  case (run_snoc s es t e t')
  then have t: "cli_bound t" "ci_credential_generation (sh_memory t p) = ci_credential_generation (sh_memory s p)"
    "exec_cli env e t = Some t'" "\<not> takes_up p e" by (auto simp: cli_step_iff)
  with generation_step [OF t(3,1,4)] cli_bound_step [OF t(3,1)] show ?case by simp
qed simp

text \<open>C26: a command stays within the sign-in it started under. Whatever happens after a command has
  taken up a sign-in --- other commands refresh, sign in as somebody else or sign out, and it
  refreshes or recovers its own token --- it goes on under the same generation of credentials, the
  bearer it uses was obtained under that generation, and the access token in the file was obtained
  under the generation written beside it; so a command neither goes on with another sign-in's token
  nor overwrites it by its refresh.\<close>

theorem bearer_of_own_sign_in:
  assumes "cli_start s0" "run (cli_step env) s0 es s" "run (cli_step env) s es' s'" "list_all (\<lambda>e. \<not> takes_up p e) es'"
  shows "ci_credential_generation (sh_memory s' p) = ci_credential_generation (sh_memory s p) \<and>
    set_option (sh_bearer s' p) \<subseteq> sh_obtained s' (ci_credential_generation (sh_memory s p)) \<and>
    (\<forall>st. sh_file s' = Some st \<longrightarrow> set_option (ci_access_token st) \<subseteq> sh_obtained s' (ci_credential_generation st))"
proof -
  have bound: "cli_bound s'" and same: "ci_credential_generation (sh_memory s' p) = ci_credential_generation (sh_memory s p)"
    using generation_run [OF assms(3) cli_bindings.reachable_inv [OF assms(1,2)] assms(4)] by simp_all
  from bound have "proc_bound s' p" by (simp add: cli_bound_def)
  with same have "set_option (sh_bearer s' p) \<subseteq> sh_obtained s' (ci_credential_generation (sh_memory s p))"
    by (simp add: proc_bound_def)
  with bound same show ?thesis by (simp add: cli_bound_def state_bound_def)
qed

text \<open>The first command takes up the login, and goes on with the renewed token of the same sign-in.\<close>

lemma sample_cli_split:
  "\<exists>s. exec_cli_events sample_cli_env [Load 1, Load 2] sample_shared = Some s \<and>
     ci_credential_generation (sh_memory s 1) = Some (lit ''g'') \<and>
     (\<exists>s'. exec_cli_events sample_cli_env (drop 2 sample_cli_events) s = Some s' \<and> sh_bearer s' 1 = Some (lit ''h.p.s''))"
  by (simp add: sample_cli_events_def exec_cli_def sample_shared_def stage_change Let_def
    refresh_check_def needs_refresh_def sample_login_def new_default_def same_binding_def update_state_def
    claim_refresh_def consume_refresh_token_def load_state_def apply_refreshed_def sample_renewal_def set_tokens_def lit_def starts_with_def)

theorem bearer_of_own_sign_in_witness:
  "\<exists>s s'. run (cli_step sample_cli_env) sample_shared [Load 1, Load 2] s \<and>
     run (cli_step sample_cli_env) s (drop 2 sample_cli_events) s' \<and> sh_bearer s' 1 = Some (lit ''h.p.s'') \<and>
     ci_credential_generation (sh_memory s' 1) = Some (lit ''g'') \<and> lit ''h.p.s'' \<in> sh_obtained s' (Some (lit ''g''))"
proof -
  obtain s s' where s: "exec_cli_events sample_cli_env [Load 1, Load 2] sample_shared = Some s"
    "ci_credential_generation (sh_memory s 1) = Some (lit ''g'')"
    "exec_cli_events sample_cli_env (drop 2 sample_cli_events) s = Some s'" "sh_bearer s' 1 = Some (lit ''h.p.s'')"
    using sample_cli_split by blast
  have "list_all (\<lambda>e. \<not> takes_up 1 e) (drop 2 sample_cli_events)" by (simp add: sample_cli_events_def)
  from bearer_of_own_sign_in [OF sample_cli_start exec_cli_run [OF s(1)] exec_cli_run [OF s(3)] this]
    exec_cli_run [OF s(1)] exec_cli_run [OF s(3)] s show ?thesis by fastforce
qed

end
