(* ===== verification/Spec2Isabelle.thy ===== *)
theory Spec2Isabelle
  imports SB_Access SB_Url SB_Decimal SB_Filter SB_Crypto SB_Quota SB_Links SB_Login SB_Webhook SB_Pool SB_Transfer SB_SignIn
begin

text \<open>
  A verification development for Silicon Browser, a service that rents browsers in the cloud to
  people and agents: a backend (\<open>src/crates/backend\<close>), the types it shares with its clients
  (\<open>src/crates/shared\<close>), a client library (\<open>src/crates/client\<close>) and a command line
  (\<open>src/crates/cli\<close>). The theories model the logic of these parts and prove what makes it correct.

  \<^bold>\<open>The program.\<close> A request reaches a handler of the server, which authenticates its bearer token
  against the identity service (Accounts, through a cache), validates the input, and then works on
  the SQLite store and on the browser provider. A session is a \<^emph>\<open>saga\<close> over both: the slot of its
  profile is reserved in the store, a browser is started at the provider, its connection is sealed
  and stored, and on the way back the browser is stopped before the slot is freed. Background work
  repeats what a failed request has left: a reaper stops expired sessions under leases, other
  loops settle profiles and look up recordings. Searches go through a pool of keys with a fair
  quota. The command line keeps a login in a file, renews it, and runs a local controller whose
  output it redacts.

  \<^bold>\<open>Theories and sources\<close>, in the order of their imports:
    \<^item> \<open>SB_Prelude\<close>: strings as lists of code points with their UTF-8 length, the string functions
      of the standard library, results as sums (\<open>Inl\<close> the error), labelled step systems (\<open>run\<close>)
      and the locale \<open>step_system\<close> for their invariants.
    \<^item> \<open>SB_Actions\<close>: fallible stateful actions and their rules (\<open>keepsA\<close>, \<open>tripleA\<close>), in which the
      proofs over handlers are written.
    \<^item> \<open>SB_Validation\<close>, \<open>SB_Access\<close>, \<open>SB_Model\<close>, \<open>SB_Filter\<close>: \<open>shared/src/validation.rs\<close>,
      \<open>access.rs\<close>, \<open>model.rs\<close>, \<open>filter.rs\<close> and \<open>error.rs\<close>.
    \<^item> \<open>SB_Url\<close>, \<open>SB_Decimal\<close>, \<open>SB_Crypto\<close>: \<open>backend/src/url_policy.rs\<close>, \<open>decimal.rs\<close>, \<open>crypto.rs\<close>.
    \<^item> \<open>SB_Store\<close>, \<open>SB_Usage\<close>, \<open>SB_Sessions\<close>, \<open>SB_Recordings\<close>, \<open>SB_Reads\<close>: \<open>backend/src/store.rs\<close>
      and \<open>store/connection.rs\<close>: the tables of the migrations as lists of rows and one definition
      per method; \<open>SB_Lifecycle\<close>, \<open>SB_Protocols\<close> and \<open>SB_Guarantees\<close> hold the invariant of the
      database and the protocols its methods form.
    \<^item> \<open>SB_Proxy\<close>, \<open>SB_Provider\<close>: \<open>backend/src/providers/proxy.rs\<close>, \<open>error.rs\<close> and \<open>browser.rs\<close>.
    \<^item> \<open>SB_Api\<close>, \<open>SB_Server\<close>: the handlers and loops of \<open>backend/src/server.rs\<close>; \<open>SB_Saga\<close> and
      \<open>SB_Links\<close> prove what they promise together with the store and the provider.
    \<^item> \<open>SB_Identity\<close>, \<open>SB_AuthCache\<close>, \<open>SB_Accounts\<close>, \<open>SB_Login\<close>, \<open>SB_Webhook\<close>: \<open>backend/src/auth.rs\<close>,
      \<open>auth_cache.rs\<close>, \<open>server/login.rs\<close>, \<open>server/usage_limits.rs\<close>, \<open>webhook.rs\<close> and the
      authentication of \<open>server.rs\<close>.
    \<^item> \<open>SB_Quota\<close>, \<open>SB_Search\<close>, \<open>SB_Pool\<close>: \<open>backend/src/providers/pool.rs\<close> and \<open>search.rs\<close>.
    \<^item> \<open>SB_Redact\<close>: the output of the controller in \<open>client/src/controller.rs\<close>.
    \<^item> \<open>SB_SignIn\<close>: \<open>cli/src/state.rs\<close> and the renewal of credentials in \<open>cli/src/main.rs\<close>.

  \<^bold>\<open>How the model follows the code.\<close> Structs are records, enums datatypes with the constructors of
  the source, and every function, method and handler is a definition of its (snake case) name; a
  name taken by the library carries a prefix or suffix. Strings are lists of code points, bytes
  naturals below 256, instants nanoseconds as integers (stored with milliseconds, as the code
  does), machine integers naturals or integers with the checks and the saturation of the source
  written out. An \<open>Err\<close>, a \<open>?\<close> and an early return are branches of a sum. The store is a state
  monad (\<open>st\<close>) over the record \<open>db\<close>; \<open>atomically\<close> is a transaction, and the \<open>UNIQUE\<close> and
  \<open>CHECK\<close> constraints the code relies on are errors of the insertions. A handler acts on a
  \<open>world\<close>, the database with the provider; what a call draws from its surroundings (clock, nonces,
  fresh identifiers) is an argument. Crates and services are parameters --- URL and UUID parsing,
  the cipher, digests, the provider, Accounts, the search service --- with the documented behaviour
  the theorems need as named hypotheses; every such theorem has a witness over a concrete instance.

  \<^bold>\<open>What the lemmas show.\<close>
    \<^item> Store: every method keeps the invariant of the database (keys, one live session per profile,
      lifecycle columns, deadlines, side rows), sessions move along their lifecycle only, metered
      usage never decreases, recordings do not go back, stop leases and lookup claims exclude each
      other. A method is a step of a step system; the interpretations of \<open>step_system\<close> carry these
      invariants over all histories.
    \<^item> Server: every request and every loop keeps that invariant; a browser that runs holds the slot
      of its profile; a session ends, by request or by the reaper, only after the provider has
      confirmed the stop; what a started session hands out is what the provider has started.
    \<^item> Identity: a request acts only for an identity that Accounts has vouched for and that no
      notification has revoked since; credentials and login attempts are used at most once; the
      cache is bounded, asks once per token at a time and always makes progress.
    \<^item> Search: no key exceeds its quota in any window, no actor is overtaken twice, a fetch is charged
      for what it read, retries are bounded, and results answer the request place by place.
    \<^item> Data: the decimal parser, the wildcard matcher and the redaction agree with reference
      definitions; sealed secrets open under their own context only; links and logins go round.
    \<^item> Command line: a refresh token is sent once, and a command stays within its own sign-in,
      whatever other commands do at the same time; the address of a session, which is a
      credential, is never printed.

  \<^bold>\<open>Bounds and termination.\<close> There is no fuel. Loops are recursions with a termination proof: the
  paginated searches are bounded by their page limits, the retries of the pool by a budget that the
  code itself counts down (at most eight calls), the scheduler and the cache by explicit steps, of
  which every one brings a call closer to its answer (\<open>cache_progress\<close>). Numeric limits of the
  source (sizes of requests, tables, responses) are definitions of their names.

  \<^bold>\<open>Concurrency.\<close> The authorization cache, the quota scheduler and the commands that share a login
  are modelled as interleaved steps, with their locks. Handlers and workers run one after another:
  their transactions are atomic and what happens between two of them is covered by stating the
  store's properties over arbitrary histories of its methods. The workers of a loop are taken in the
  order they are claimed.

  \<^bold>\<open>Not modelled.\<close> HTTP routing, the wire format of JSON and SQL itself; timeouts of tokio;
  migrations and the one-off identifier rewrites of a closed database (\<open>store/account_uuids.rs\<close>,
  \<open>public_identifiers.rs\<close>); configuration and start-up; files, permissions and processes of the
  command line and the controller; the retired identity service under \<open>backend/legacy\<close>, which is
  outside the build.

  \<^bold>\<open>What the proofs found\<close> is stated by lemmas where the model shows it: the wildcard matcher misses
  texts whose last part occurs earlier (\<open>glob_matches_misses_repeated_tail\<close>), the table of submitted
  credentials can be filled so that every sign-in fails (\<open>full_table_refuses_everyone\<close>), the
  captured output skips characters near its limit (\<open>capture_skips_characters\<close>); further findings
  about the reaper, activation and recovery of sessions are in the manifest.
\<close>

end
